(* ===== verification/Toys_Prelude.thy ===== *)
theory Toys_Prelude
  imports Main "HOL-Library.Word" "HOL-Library.Monad_Syntax" "HOL-Library.List_Lexorder"
begin

text \<open>
  What the theories of this development share: the names of the C integer types, windows of
  byte lists (what \<open>memcpy\<close> reads) and blits into them (what \<open>memcpy\<close> writes), and the facts
  that move comparisons and sums of machine words to natural numbers.
\<close>

unbundle bit_operations_syntax

section \<open>Machine integers\<close>

type_synonym u8 = "8 word"
type_synonym u32 = "32 word"
type_synonym u64 = "64 word"

named_theorems byte_lists \<open>lengths, windows and blits of byte lists\<close>
named_theorems word_nat \<open>word comparisons and arithmetic without wrap-around, as nat\<close>

lemma unat_u64_less: "unat (w :: u64) < 18446744073709551616"
  using unsigned_less [of w, where ?'a = nat] by simp

lemma unat_of_nat_u64 [word_nat]:
  "n < 18446744073709551616 \<Longrightarrow> unat (of_nat n :: u64) = n"
  by (simp add: unat_of_nat take_bit_nat_eq_self)

lemma unat_add_u64 [word_nat]:
  "unat a + unat b < 18446744073709551616 \<Longrightarrow> unat (a + b :: u64) = unat a + unat b"
  by (simp add: unat_word_ariths)

lemma unat_sub_u64 [word_nat]: "b \<le> a \<Longrightarrow> unat (a - b :: u64) = unat a - unat b"
  by (rule unat_sub)

lemma unat_mult_u64 [word_nat]:
  "unat a * unat b < 18446744073709551616 \<Longrightarrow> unat (a * b :: u64) = unat a * unat b"
  by (simp add: unat_word_ariths)

lemma le_u64 [word_nat]: "(a :: u64) \<le> b \<longleftrightarrow> unat a \<le> unat b"
  by (rule word_le_nat_alt)

lemma less_u64 [word_nat]: "(a :: u64) < b \<longleftrightarrow> unat a < unat b"
  by (rule word_less_nat_alt)

lemma eq_u64 [word_nat]: "(a :: u64) = b \<longleftrightarrow> unat a = unat b"
  by (simp add: word_unat_eq_iff)

lemma of_nat_eq_0_u64: "n < 18446744073709551616 \<Longrightarrow> (of_nat n :: u64) = 0 \<longleftrightarrow> n = 0"
  by (simp add: word_nat)

lemma of_nat_eq_u64:
  "m < 18446744073709551616 \<Longrightarrow> n < 18446744073709551616 \<Longrightarrow>
   (of_nat m :: u64) = of_nat n \<longleftrightarrow> m = n"
  by (simp add: word_nat)

section \<open>Windows and blits\<close>

text \<open>\<open>window xs i n\<close>: the \<open>n\<close> elements at offset \<open>i\<close>. \<open>blit xs i ys\<close>: \<open>xs\<close> with \<open>ys\<close>
  stored at offset \<open>i\<close>.\<close>

definition window :: "'a list \<Rightarrow> nat \<Rightarrow> nat \<Rightarrow> 'a list" where
  "window xs i n = take n (drop i xs)"

definition blit :: "'a list \<Rightarrow> nat \<Rightarrow> 'a list \<Rightarrow> 'a list" where
  "blit xs i ys = take i xs @ ys @ drop (i + length ys) xs"

lemma length_window [byte_lists]: "i + n \<le> length xs \<Longrightarrow> length (window xs i n) = n"
  by (simp add: window_def)

lemma length_blit [byte_lists]:
  "i + length ys \<le> length xs \<Longrightarrow> length (blit xs i ys) = length xs"
  by (simp add: blit_def)

lemma window_0 [simp]: "window xs i 0 = []"
  by (simp add: window_def)

lemma window_whole [simp]: "window xs 0 (length xs) = xs"
  by (simp add: window_def)

lemma nth_window [byte_lists]:
  "k < n \<Longrightarrow> i + n \<le> length xs \<Longrightarrow> window xs i n ! k = xs ! (i + k)"
  by (simp add: window_def)

lemma nth_blit [byte_lists]:
  "i + length ys \<le> length xs \<Longrightarrow> k < length xs \<Longrightarrow>
   blit xs i ys ! k = (if i \<le> k \<and> k < i + length ys then ys ! (k - i) else xs ! k)"
  by (auto simp: blit_def nth_append)

lemma window_eqI:
  assumes "i + n \<le> length xs" and "j + n \<le> length ys"
    and "\<And>k. k < n \<Longrightarrow> xs ! (i + k) = ys ! (j + k)"
  shows "window xs i n = window ys j n"
  by (rule nth_equalityI) (simp_all add: assms byte_lists)

lemma window_blit_same [byte_lists]:
  "i + length ys \<le> length xs \<Longrightarrow> n = length ys \<Longrightarrow> window (blit xs i ys) i n = ys"
  by (simp add: window_def blit_def)

lemma window_blit_other [byte_lists]:
  assumes "i + length ys \<le> length xs" and "j + n \<le> length xs"
    and "j + n \<le> i \<or> i + length ys \<le> j"
  shows "window (blit xs i ys) j n = window xs j n"
  by (rule window_eqI) (use assms in \<open>auto simp: byte_lists\<close>)

lemma window_blit_inside:
  assumes "i + length ys \<le> length xs" and "i \<le> j" and "j + n \<le> i + length ys"
  shows "window (blit xs i ys) j n = window ys (j - i) n"
  by (rule window_eqI) (use assms in \<open>auto simp: byte_lists\<close>)

lemma window_Cons: "i + n \<le> length xs \<Longrightarrow> 0 < n \<Longrightarrow> window xs i n = xs ! i # window xs (i + 1) (n - 1)"
  by (cases n) (auto simp: window_def Cons_nth_drop_Suc[symmetric])

lemma window_window [byte_lists]:
  assumes "i + n \<le> length xs" and "j + m \<le> n"
  shows "window (window xs i n) j m = window xs (i + j) m"
  by (rule nth_equalityI) (use assms in \<open>auto simp: byte_lists add.assoc\<close>)

lemma window_append:
  assumes "i + m + n \<le> length xs"
  shows "window xs i m @ window xs (i + m) n = window xs i (m + n)"
  by (rule nth_equalityI) (use assms in \<open>auto simp: byte_lists nth_append\<close>)

lemma window_prefix:
  assumes "m \<le> n" and "i + n \<le> length xs" and "window xs i n = ys"
  shows "window xs i m = take m ys"
  using assms by (auto simp: window_def min_def)

lemma drop_as_window: "i \<le> length xs \<Longrightarrow> drop i xs = window xs i (length xs - i)"
  by (simp add: window_def)

lemma blit_self [simp]: "i + n \<le> length xs \<Longrightarrow> blit xs i (window xs i n) = xs"
  by (rule nth_equalityI) (auto simp: byte_lists)

section \<open>Options\<close>

lemma bind_eq_SomeE:
  assumes "Option.bind m f = Some y"
  obtains x where "m = Some x" and "f x = Some y"
  using assms by (auto simp: bind_eq_Some_conv)

end
