(* ===== verification/Byte_Codec.thy ===== *)
theory Byte_Codec
  imports Toys_Prelude
begin

text \<open>
  Little-endian storage of machine words. The packed integer structs of \<open>tools/types.h\<close>
  (\<open>to_u16\<close>, \<open>to_u32\<close>, \<open>to_u64\<close>) and the \<open>u64_t\<close> of \<open>tools/toys/filesystem.c\<close> (\<open>from_u64\<close>,
  \<open>to_u64\<close>) are byte arrays; both are shown to be the same reference codec, and the locale
  \<open>word_codec\<close> gives what a field of a byte buffer needs: a field reads back what was stored in
  it, and storing it changes no other window.
\<close>

unbundle bit_operations_syntax

section \<open>The reference codec\<close>

definition le_bytes :: "nat \<Rightarrow> 'a::len word \<Rightarrow> u8 list" where
  "le_bytes k w = map (\<lambda>i. ucast (drop_bit (8 * i) w)) [0..<k]"

fun le_word :: "u8 list \<Rightarrow> 'a::len word" where
  "le_word [] = 0"
| "le_word (b # bs) = ucast b OR push_bit 8 (le_word bs)"

lemma length_le_bytes [simp]: "length (le_bytes k w) = k"
  by (simp add: le_bytes_def)

lemma bit_le_word:
  "bit (le_word bs :: 'a::len word) n \<longleftrightarrow>
     n < LENGTH('a) \<and> n div 8 < length bs \<and> bit (bs ! (n div 8)) (n mod 8)"
proof (induction bs arbitrary: n)
  case Nil
  then show ?case by simp
next
  case (Cons b bs)
  show ?case
  proof (cases "n < 8")
    case True
    then show ?thesis by (auto simp: bit_simps)
  next
    case False
    then obtain m where m: "n = m + 8"
      by (metis add.commute le_Suc_ex not_less)
    have d: "bit b (m + 8) = False" using bit_imp_le_length[of b "m + 8"] by auto
    have e: "(m + 8) div 8 = Suc (m div 8)" by simp
    show ?thesis
      unfolding m e using Cons.IH[of m] d by (auto simp: bit_simps)
  qed
qed

lemma le_word_le_bytes:
  assumes "LENGTH('a) = 8 * k"
  shows "le_word (le_bytes k w) = (w :: 'a::len word)"
proof (rule bit_word_eqI)
  fix n assume n: "n < LENGTH('a)"
  with assms have "n div 8 < k" by simp
  with n show "bit (le_word (le_bytes k w) :: 'a word) n = bit w n"
    by (simp add: bit_le_word le_bytes_def bit_simps)
qed

lemma le_bytes_le_word:
  assumes "length bs = k" and "8 * k \<le> LENGTH('a)"
  shows "le_bytes k (le_word bs :: 'a::len word) = bs"
proof (rule nth_equalityI)
  show "length (le_bytes k (le_word bs :: 'a word)) = length bs" by (simp add: assms)
next
  fix i assume "i < length (le_bytes k (le_word bs :: 'a word))"
  then have i: "i < k" by simp
  show "le_bytes k (le_word bs :: 'a word) ! i = bs ! i"
  proof (rule bit_word_eqI)
    fix n assume n: "n < LENGTH(8)"
    then have "8 * i + n < LENGTH('a)" using i assms by simp
    with n i show "bit (le_bytes k (le_word bs :: 'a word) ! i) n = bit (bs ! i) n"
      by (simp add: le_bytes_def bit_simps bit_le_word assms)
  qed
qed

section \<open>Fields of a byte buffer\<close>

locale word_codec =
  fixes enc :: "'w \<Rightarrow> u8 list" and dec :: "u8 list \<Rightarrow> 'w" and width :: nat
  assumes length_enc: "length (enc w) = width"
    and dec_enc: "dec (enc w) = w"
    and enc_dec: "length bs = width \<Longrightarrow> enc (dec bs) = bs"
begin

lemma field_same:
  "off + width \<le> length buf \<Longrightarrow> dec (window (blit buf off (enc w)) off width) = w"
  by (simp add: byte_lists length_enc dec_enc)

lemma field_other:
  "off + width \<le> length buf \<Longrightarrow> j + n \<le> length buf \<Longrightarrow> j + n \<le> off \<or> off + width \<le> j \<Longrightarrow>
   window (blit buf off (enc w)) j n = window buf j n"
  by (rule window_blit_other) (simp_all add: length_enc)

lemma length_field:
  "off + width \<le> length buf \<Longrightarrow> length (blit buf off (enc w)) = length buf"
  by (simp add: byte_lists length_enc)

lemma field_unchanged:
  "off + width \<le> length buf \<Longrightarrow> blit buf off (enc (dec (window buf off width))) = buf"
  by (simp add: byte_lists enc_dec)

lemma enc_inject: "enc v = enc w \<longleftrightarrow> v = w"
  by (metis dec_enc)

end

section \<open>tools/types.h\<close>

text \<open>The structs \<open>u16\<close>, \<open>u32\<close> and \<open>u64\<close> of this header hold only a \<open>bytes\<close> array.\<close>

definition packed_u16 :: "16 word \<Rightarrow> u8 list" where
  "packed_u16 x = [ucast x, ucast (drop_bit 8 x)]"

definition packed_u32 :: "32 word \<Rightarrow> u8 list" where
  "packed_u32 x = [ucast x, ucast (drop_bit 8 x), ucast (drop_bit 16 x), ucast (drop_bit 24 x)]"

definition packed_u64 :: "64 word \<Rightarrow> u8 list" where
  "packed_u64 x =
     [ucast x, ucast (drop_bit 8 x), ucast (drop_bit 16 x), ucast (drop_bit 24 x),
      ucast (drop_bit 32 x), ucast (drop_bit 40 x), ucast (drop_bit 48 x), ucast (drop_bit 56 x)]"

lemma packed_u16_le: "packed_u16 x = le_bytes 2 x"
  by (simp add: packed_u16_def le_bytes_def upt_rec)

lemma packed_u32_le: "packed_u32 x = le_bytes 4 x"
  by (simp add: packed_u32_def le_bytes_def upt_rec)

lemma packed_u64_le: "packed_u64 x = le_bytes 8 x"
  by (simp add: packed_u64_def le_bytes_def upt_rec)

interpretation packed16: word_codec packed_u16 le_word 2
  by unfold_locales (simp_all add: packed_u16_le le_word_le_bytes le_bytes_le_word)

interpretation packed32: word_codec packed_u32 le_word 4
  by unfold_locales (simp_all add: packed_u32_le le_word_le_bytes le_bytes_le_word)

interpretation packed64: word_codec packed_u64 le_word 8
  by unfold_locales (simp_all add: packed_u64_le le_word_le_bytes le_bytes_le_word)

section \<open>The u64_t of tools/toys/filesystem.c\<close>

definition from_u64 :: "u64 \<Rightarrow> u8 list" where
  "from_u64 x = map (\<lambda>i. ucast (drop_bit (8 * i) x)) [0..<8]"

definition to_u64 :: "u8 list \<Rightarrow> u64" where
  "to_u64 bytes = fold (\<lambda>i result. result OR push_bit (8 * i) (ucast (bytes ! i))) [0..<8] 0"

lemma from_u64_le: "from_u64 x = le_bytes 8 x"
  by (simp add: from_u64_def le_bytes_def)

lemma bit_to_u64_loop:
  "bit (fold (\<lambda>i r. r OR push_bit (8 * i) (ucast (bs ! i :: u8))) [0..<k] (0 :: u64)) n \<longleftrightarrow>
     n < 64 \<and> n div 8 < k \<and> bit (bs ! (n div 8)) (n mod 8)"
proof (induction k)
  case 0
  then show ?case by simp
next
  case (Suc k)
  have "8 * k \<le> n \<and> bit (bs ! k) (n - 8 * k) \<longleftrightarrow> n div 8 = k \<and> bit (bs ! k) (n mod 8)"
  proof (cases "n div 8 = k")
    case True
    then show ?thesis by (auto simp: minus_mult_div_eq_mod[symmetric] mult.commute)
  next
    case False
    have "bit (bs ! k) (n - 8 * k) \<Longrightarrow> n - 8 * k < 8"
      using bit_imp_le_length[of "bs ! k" "n - 8 * k"] by simp
    with False show ?thesis by (auto; linarith)
  qed
  with Suc show ?case by (auto simp: bit_simps less_Suc_eq)
qed

lemma to_u64_le: "length bs = 8 \<Longrightarrow> to_u64 bs = le_word bs"
  by (rule bit_word_eqI) (simp add: to_u64_def bit_to_u64_loop bit_le_word)

interpretation u64_field: word_codec from_u64 to_u64 8
  by unfold_locales (simp_all add: from_u64_le to_u64_le le_word_le_bytes le_bytes_le_word)

end
