(* ===== verification/Disk_Model.thy ===== *)
theory Disk_Model
  imports Byte_Codec
begin

text \<open>
  The file system of \<open>tools/toys/filesystem.c\<close> and \<open>filesystem.h\<close>, function by function.

  \<^item> A \<open>Disk\<close> is the record \<open>disk\<close>: the 512 bytes its \<open>block_buffer\<close> points to and the bytes of
    its \<open>disk_image\<close>. Every operation takes the disk and returns the new one.
  \<^item> A \<open>DiskBlock\<close> is its 512 bytes, because the code reads it both as a struct and as raw bytes;
    the struct fields are windows at offsets 0, 8, 16 and 24 (\<open>sizeof(DiskBlock) == 512\<close>).
  \<^item> A \<open>(pointer, length)\<close> argument pair is the list of the bytes it delimits. The bytes stored
    through a \<open>dst\<close> pointer are returned, and the in-out pointer arguments are arguments and
    results.
  \<^item> \<open>None\<close> is "the C code has no defined result": an access outside the image or outside the
    block buffer, or a loop over a cyclic chain, which never returns. The properties prove
    \<open>Some\<close>. The status codes are \<open>u64\<close> results, as in the code.
\<close>

section \<open>Constants and types\<close>

definition SUPER_BLOCK :: u64 where "SUPER_BLOCK = 0"

definition OK :: u64 where "OK = 0"
definition INVALID_ARGUMENT :: u64 where "INVALID_ARGUMENT = 1"
definition ALREADY_EXISTS :: u64 where "ALREADY_EXISTS = 4"
definition OUT_OF_MEMORY :: u64 where "OUT_OF_MEMORY = 5"

definition EQUAL :: u64 where "EQUAL = 0"
definition SMALLER :: u64 where "SMALLER = 1"
definition GREATER :: u64 where "GREATER = 2"

record disk =
  block_buffer :: "u8 list"
  disk_image :: "u8 list"

text \<open>The \<open>u64_t\<close> fields of a block, and the \<open>name\<close> array.\<close>

definition next_block_field :: "u8 list \<Rightarrow> u64" where
  "next_block_field b = to_u64 (window b 0 8)"

definition next_file :: "u8 list \<Rightarrow> u64" where
  "next_file b = to_u64 (window b 8 8)"

definition name_length :: "u8 list \<Rightarrow> u64" where
  "name_length b = to_u64 (window b 16 8)"

definition name_bytes :: "u8 list \<Rightarrow> u8 list" where
  "name_bytes b = window b 24 488"

definition set_next_block_field :: "u8 list \<Rightarrow> u64 \<Rightarrow> u8 list" where
  "set_next_block_field b x = blit b 0 (from_u64 x)"

definition set_next_file :: "u8 list \<Rightarrow> u64 \<Rightarrow> u8 list" where
  "set_next_file b x = blit b 8 (from_u64 x)"

definition set_name_length :: "u8 list \<Rightarrow> u64 \<Rightarrow> u8 list" where
  "set_name_length b x = blit b 16 (from_u64 x)"

section \<open>Block headers\<close>

definition block_get_next :: "u8 list \<Rightarrow> u64" where
  "block_get_next b = (if next_block_field b \<le> 512 then 0 else next_block_field b - 512)"

definition block_set_next :: "u8 list \<Rightarrow> u64 \<Rightarrow> u8 list" where
  "block_set_next b next_block = set_next_block_field b (next_block + 512)"

text \<open>\<open>block_size\<close> returns a pointer to the first word, which is read and written through it.\<close>

definition block_size :: "u8 list \<Rightarrow> u64" where
  "block_size b = next_block_field b"

definition set_block_size :: "u8 list \<Rightarrow> u64 \<Rightarrow> u8 list" where
  "set_block_size b x = set_next_block_field b x"

section \<open>File names\<close>

function disk_compare_loop :: "u8 list \<Rightarrow> u64 \<Rightarrow> u8 list \<Rightarrow> nat \<Rightarrow> u64 option" where
  "disk_compare_loop file_name file_name_length name i =
     (if i < unat file_name_length \<and> i < length name
      then if i < length file_name
        then if file_name ! i < name ! i then Some SMALLER
          else if file_name ! i > name ! i then Some GREATER
          else disk_compare_loop file_name file_name_length name (i + 1)
        else None
      else if unat file_name_length < length name then Some SMALLER
      else if unat file_name_length > length name then Some GREATER
      else Some EQUAL)"
  by pat_completeness auto
termination
  by (relation "measure (\<lambda>(_, _, name, i). length name - i)") auto

declare disk_compare_loop.simps [simp del]

definition disk_compare_file_name :: "u8 list \<Rightarrow> u8 list \<Rightarrow> u64 option" where
  "disk_compare_file_name file name =
     disk_compare_loop (name_bytes file) (name_length file) name 0"

section \<open>Reading and writing blocks\<close>

definition disk_read_block_buffer :: "disk \<Rightarrow> u64 \<Rightarrow> disk option" where
  "disk_read_block_buffer self block_id =
     (if unat (block_id * 512) + 512 \<le> length (disk_image self)
      then Some (self\<lparr>block_buffer := window (disk_image self) (unat (block_id * 512)) 512\<rparr>)
      else None)"

definition disk_write_block_buffer :: "disk \<Rightarrow> u64 \<Rightarrow> disk option" where
  "disk_write_block_buffer self block_id =
     (if unat (block_id * 512) + 512 \<le> length (disk_image self)
      then Some (self\<lparr>disk_image := blit (disk_image self) (unat (block_id * 512)) (block_buffer self)\<rparr>)
      else None)"

definition disk_flush_blocks :: "disk \<Rightarrow> disk" where
  "disk_flush_blocks self = self"

text \<open>\<open>mem_copy_non_overlapping\<close> from and to the block buffer at an offset.\<close>

definition copy_from_buffer :: "u8 list \<Rightarrow> u64 \<Rightarrow> u64 \<Rightarrow> u8 list option" where
  "copy_from_buffer b offset sz =
     (if unat offset + unat sz \<le> length b then Some (window b (unat offset) (unat sz))
      else None)"

definition copy_to_buffer :: "u8 list \<Rightarrow> u64 \<Rightarrow> u8 list \<Rightarrow> u8 list option" where
  "copy_to_buffer b offset src =
     (if unat offset + length src \<le> length b then Some (blit b (unat offset) src) else None)"

text \<open>Assigning to a field of \<open>*self->block_buffer\<close>.\<close>

abbreviation in_buffer :: "(u8 list \<Rightarrow> u8 list) \<Rightarrow> disk \<Rightarrow> disk" where
  "in_buffer f self \<equiv> self\<lparr>block_buffer := f (block_buffer self)\<rparr>"

section \<open>Finding and measuring files\<close>

text \<open>\<open>previous_file\<close> is a pointer: \<open>None\<close> is null, \<open>Some p\<close> a variable holding \<open>p\<close>.\<close>

partial_function (option) disk_find_file_loop ::
    "disk \<Rightarrow> u8 list \<Rightarrow> u64 option \<Rightarrow> u64 \<Rightarrow> (u64 \<times> u64 option \<times> disk) option" where
  "disk_find_file_loop self name previous_file file =
     (if file = 0 then Some (0, previous_file, self)
      else do {
        self \<leftarrow> disk_read_block_buffer self file;
        file_name \<leftarrow> disk_compare_file_name (block_buffer self) name;
        (if file_name = EQUAL then Some (file, previous_file, self)
         else if file_name = GREATER then Some (0, previous_file, self)
         else disk_find_file_loop self name (map_option (\<lambda>_. file) previous_file)
                (next_file (block_buffer self)))
      })"

definition disk_find_file ::
    "disk \<Rightarrow> u8 list \<Rightarrow> u64 option \<Rightarrow> (u64 \<times> u64 option \<times> disk) option" where
  "disk_find_file self name previous_file = do {
     self \<leftarrow> disk_read_block_buffer self SUPER_BLOCK;
     disk_find_file_loop self name previous_file (next_file (block_buffer self))
   }"

partial_function (option) disk_get_file_size_loop ::
    "disk \<Rightarrow> u64 \<Rightarrow> u64 \<Rightarrow> (u64 \<times> disk) option" where
  "disk_get_file_size_loop self file_size header_size =
     (if block_get_next (block_buffer self) = 0
      then Some (file_size + block_size (block_buffer self) - header_size, self)
      else do {
        self \<leftarrow> disk_read_block_buffer self (block_get_next (block_buffer self));
        disk_get_file_size_loop self (file_size + 512 - header_size) 8
      })"

definition disk_get_file_size :: "disk \<Rightarrow> u64 \<Rightarrow> (u64 \<times> disk) option" where
  "disk_get_file_size self file = do {
     self \<leftarrow> disk_read_block_buffer self file;
     disk_get_file_size_loop self 0 (24 + name_length (block_buffer self))
   }"

section \<open>Reading files\<close>

text \<open>The result is the number of bytes not read, the new \<open>*block\<close> and \<open>*offset\<close>, and the bytes
  stored from \<open>dst\<close> on.\<close>

partial_function (option) disk_read_file_loop ::
    "disk \<Rightarrow> u64 \<Rightarrow> u64 \<Rightarrow> u8 list \<Rightarrow> u64 \<Rightarrow> (u64 \<times> u64 \<times> u64 \<times> u8 list \<times> disk) option" where
  "disk_read_file_loop self block offset dst sz = do {
     self \<leftarrow> disk_read_block_buffer self block;
     let available =
       (if block_get_next (block_buffer self) = 0 then block_size (block_buffer self) - offset
        else 512 - offset);
     (if available \<ge> sz
      then do {
        bytes \<leftarrow> copy_from_buffer (block_buffer self) offset sz;
        Some (0, block, offset + sz, dst @ bytes, self)
      }
      else do {
        bytes \<leftarrow> copy_from_buffer (block_buffer self) offset available;
        (if block_get_next (block_buffer self) = 0
         then Some (sz - available, block, offset, dst @ bytes, self)
         else disk_read_file_loop self (block_get_next (block_buffer self)) 8 (dst @ bytes)
                (sz - available))
      })
   }"

definition disk_read_file ::
    "disk \<Rightarrow> u64 \<Rightarrow> u64 \<Rightarrow> u64 \<Rightarrow> (u64 \<times> u64 \<times> u64 \<times> u8 list \<times> disk) option" where
  "disk_read_file self block offset sz = disk_read_file_loop self block offset [] sz"

section \<open>Creating files\<close>

text \<open>The search for the insertion point returns \<open>None\<close> inside for a file of that name
  (\<open>ALREADY_EXISTS\<close>), and otherwise \<open>previous_file\<close> and \<open>file\<close>.\<close>

partial_function (option) disk_create_file_loop ::
    "disk \<Rightarrow> u8 list \<Rightarrow> u64 \<Rightarrow> u64 \<Rightarrow> ((u64 \<times> u64) option \<times> disk) option" where
  "disk_create_file_loop self name previous_file file =
     (if file = 0 then Some (Some (previous_file, file), self)
      else do {
        self \<leftarrow> disk_read_block_buffer self file;
        file_name \<leftarrow> disk_compare_file_name (block_buffer self) name;
        (if file_name = EQUAL then Some (None, self)
         else if file_name = GREATER then Some (Some (previous_file, file), self)
         else disk_create_file_loop self name file (next_file (block_buffer self)))
      })"

text \<open>The last part: link \<open>new_file\<close> between \<open>previous_file\<close> and \<open>file\<close>, and unlink it from the
  free list.\<close>

definition disk_link_new_file ::
    "disk \<Rightarrow> u8 list \<Rightarrow> u64 \<Rightarrow> u64 \<Rightarrow> u64 \<Rightarrow> u64 \<Rightarrow> disk option" where
  "disk_link_new_file self name new_file new_first_file previous_file file = do {
     self \<leftarrow> (if previous_file \<noteq> 0
       then do {
         self \<leftarrow> disk_read_block_buffer self previous_file;
         disk_write_block_buffer (in_buffer (\<lambda>b. set_next_file b new_file) self) previous_file
       }
       else Some self);
     let new_first_file = (if previous_file \<noteq> 0 then new_first_file else new_file);
     self \<leftarrow> disk_read_block_buffer self new_file;
     let new_first_free_block = block_get_next (block_buffer self);
     let self = in_buffer (\<lambda>b. set_block_size b (24 + of_nat (length name))) self;
     let self = in_buffer (\<lambda>b. set_next_file b file) self;
     let self = in_buffer (\<lambda>b. set_name_length b (of_nat (length name))) self;
     buffer \<leftarrow> copy_to_buffer (block_buffer self) 24 name;
     self \<leftarrow> disk_write_block_buffer (self\<lparr>block_buffer := buffer\<rparr>) new_file;
     self \<leftarrow> disk_read_block_buffer self SUPER_BLOCK;
     let self = in_buffer (\<lambda>b. set_next_file b new_first_file) self;
     let self = in_buffer (\<lambda>b. block_set_next b new_first_free_block) self;
     self \<leftarrow> disk_write_block_buffer self SUPER_BLOCK;
     Some (disk_flush_blocks self)
   }"

definition disk_create_file :: "disk \<Rightarrow> u8 list \<Rightarrow> u64 \<Rightarrow> (u64 \<times> u64 \<times> disk) option" where
  "disk_create_file self name result =
     (if length name = 0 \<or> length name > 488 then Some (INVALID_ARGUMENT, result, self)
      else if list_ex (\<lambda>c. c \<le> 32 \<or> c \<ge> 127) name then Some (INVALID_ARGUMENT, result, self)
      else do {
        self \<leftarrow> disk_read_block_buffer self SUPER_BLOCK;
        let new_file = block_get_next (block_buffer self);
        (if new_file = 0 then Some (OUT_OF_MEMORY, result, self)
         else do {
           let new_first_file = next_file (block_buffer self);
           found \<leftarrow> disk_create_file_loop self name 0 (next_file (block_buffer self));
           (case found of
              (None, self) \<Rightarrow> Some (ALREADY_EXISTS, result, self)
            | (Some (previous_file, file), self) \<Rightarrow> do {
                self \<leftarrow> disk_link_new_file self name new_file new_first_file previous_file file;
                Some (OK, new_file, self)
              })
         })
      })"

section \<open>Appending to files\<close>

partial_function (option) disk_write_file_loop ::
    "disk \<Rightarrow> u64 \<Rightarrow> u8 list \<Rightarrow> u64 \<Rightarrow> u64 \<Rightarrow> u64 \<Rightarrow> (u64 \<times> u64 \<times> u64 \<times> disk) option" where
  "disk_write_file_loop self block src used free new_first_free_block =
     (if of_nat (length src) \<le> free
      then do {
        let self = in_buffer (\<lambda>b. set_block_size b (used + of_nat (length src))) self;
        buffer \<leftarrow> copy_to_buffer (block_buffer self) used src;
        self \<leftarrow> disk_write_block_buffer (self\<lparr>block_buffer := buffer\<rparr>) block;
        Some (OK, block, new_first_free_block, self)
      }
      else if new_first_free_block = 0
      then Some (OUT_OF_MEMORY, block, new_first_free_block, self)
      else do {
        let self = in_buffer (\<lambda>b. block_set_next b new_first_free_block) self;
        buffer \<leftarrow> copy_to_buffer (block_buffer self) used (take (unat free) src);
        self \<leftarrow> disk_write_block_buffer (self\<lparr>block_buffer := buffer\<rparr>) block;
        self \<leftarrow> disk_read_block_buffer self new_first_free_block;
        disk_write_file_loop self new_first_free_block (drop (unat free) src) 8 504
          (block_get_next (block_buffer self))
      })"

text \<open>The result is the status and the new \<open>*block\<close>.\<close>

definition disk_write_file :: "disk \<Rightarrow> u64 \<Rightarrow> u8 list \<Rightarrow> (u64 \<times> u64 \<times> disk) option" where
  "disk_write_file self block src = do {
     self \<leftarrow> disk_read_block_buffer self SUPER_BLOCK;
     let old_first_free_block = block_get_next (block_buffer self);
     self \<leftarrow> disk_read_block_buffer self block;
     let used = block_size (block_buffer self);
     r \<leftarrow> disk_write_file_loop self block src used (512 - used) old_first_free_block;
     (case r of (result, block, new_first_free_block, self) \<Rightarrow>
        if new_first_free_block \<noteq> old_first_free_block
        then do {
          self \<leftarrow> disk_read_block_buffer self SUPER_BLOCK;
          self \<leftarrow> disk_write_block_buffer
            (in_buffer (\<lambda>b. block_set_next b new_first_free_block) self) SUPER_BLOCK;
          Some (result, block, disk_flush_blocks self)
        }
        else Some (result, block, disk_flush_blocks self))
   }"

section \<open>Deleting files\<close>

partial_function (option) disk_last_block_loop :: "disk \<Rightarrow> u64 \<Rightarrow> (u64 \<times> disk) option" where
  "disk_last_block_loop self last_block =
     (if block_get_next (block_buffer self) \<noteq> 0
      then do {
        let last_block = block_get_next (block_buffer self);
        self \<leftarrow> disk_read_block_buffer self last_block;
        disk_last_block_loop self last_block
      }
      else Some (last_block, self))"

definition disk_delete_file_blocks :: "disk \<Rightarrow> u64 \<Rightarrow> disk option" where
  "disk_delete_file_blocks self block = do {
     self \<leftarrow> disk_read_block_buffer self SUPER_BLOCK;
     let first_free_block = block_get_next (block_buffer self);
     self \<leftarrow> disk_read_block_buffer self block;
     r \<leftarrow> disk_last_block_loop self block;
     (case r of (last_block, self) \<Rightarrow>
        disk_write_block_buffer (in_buffer (\<lambda>b. block_set_next b first_free_block) self)
          last_block)
   }"

definition disk_clear_file :: "disk \<Rightarrow> u64 \<Rightarrow> disk option" where
  "disk_clear_file self file = do {
     self \<leftarrow> disk_read_block_buffer self file;
     let new_first_free_block = block_get_next (block_buffer self);
     self \<leftarrow> (if new_first_free_block \<noteq> 0
       then do {
         self \<leftarrow> disk_delete_file_blocks self new_first_free_block;
         self \<leftarrow> disk_read_block_buffer self SUPER_BLOCK;
         disk_write_block_buffer
           (in_buffer (\<lambda>b. block_set_next b new_first_free_block) self) SUPER_BLOCK
       }
       else Some self);
     self \<leftarrow> disk_read_block_buffer self file;
     self \<leftarrow> disk_write_block_buffer
       (in_buffer (\<lambda>b. set_block_size b (24 + name_length b)) self) file;
     Some (disk_flush_blocks self)
   }"

definition disk_delete_file :: "disk \<Rightarrow> u64 \<Rightarrow> u64 \<Rightarrow> disk option" where
  "disk_delete_file self file previous_file = do {
     self \<leftarrow> disk_read_block_buffer self file;
     let next = next_file (block_buffer self);
     self \<leftarrow> disk_read_block_buffer self SUPER_BLOCK;
     let new_first_file = next_file (block_buffer self);
     self \<leftarrow> disk_delete_file_blocks self file;
     self \<leftarrow> (if previous_file \<noteq> 0
       then do {
         self \<leftarrow> disk_read_block_buffer self previous_file;
         disk_write_block_buffer (in_buffer (\<lambda>b. set_next_file b next) self) previous_file
       }
       else Some self);
     let new_first_file = (if previous_file \<noteq> 0 then new_first_file else next);
     self \<leftarrow> disk_read_block_buffer self SUPER_BLOCK;
     let self = in_buffer (\<lambda>b. block_set_next b file) self;
     let self = in_buffer (\<lambda>b. set_next_file b new_first_file) self;
     self \<leftarrow> disk_write_block_buffer self SUPER_BLOCK;
     Some (disk_flush_blocks self)
   }"

end
