(* ===== verification/Block_List.thy ===== *)
theory Block_List
  imports Toys_Prelude
begin

text \<open>
  Two interfaces the file system is built on. \<open>block_device\<close>: a store of numbered blocks behind
  one block buffer, with what reading, writing and read-modify-write do. \<open>block_list\<close>: a linked
  list threaded through the blocks by one of their fields; the file system threads two of them
  through the same blocks (block chains and the file list), so its lemmas are proved once here.
\<close>

section \<open>Paths\<close>

text \<open>\<open>path h x bs y\<close>: following \<open>h\<close> from \<open>x\<close> visits the blocks \<open>bs\<close> and arrives at \<open>y\<close>. Block 0
  is the null reference.\<close>

primrec path :: "(u64 \<Rightarrow> u64) \<Rightarrow> u64 \<Rightarrow> u64 list \<Rightarrow> u64 \<Rightarrow> bool" where
  "path h x [] y \<longleftrightarrow> x = y"
| "path h x (b # bs) y \<longleftrightarrow> x = b \<and> b \<noteq> 0 \<and> path h (h b) bs y"

definition list_head :: "u64 list \<Rightarrow> u64" where
  "list_head bs = (case bs of [] \<Rightarrow> 0 | b # _ \<Rightarrow> b)"

lemma list_head_simps [simp]: "list_head [] = 0" "list_head (b # bs) = b"
  by (simp_all add: list_head_def)

lemma path_append: "path h x (bs @ cs) z \<longleftrightarrow> (\<exists>y. path h x bs y \<and> path h y cs z)"
  by (induction bs arbitrary: x) auto

lemma path_snoc: "path h x (bs @ [b]) z \<longleftrightarrow> path h x bs b \<and> b \<noteq> 0 \<and> h b = z"
  by (auto simp: path_append)

lemma path_cong: "(\<And>b. b \<in> set bs \<Longrightarrow> h b = h' b) \<Longrightarrow> path h x bs y = path h' x bs y"
  by (induction bs arbitrary: x) auto

lemma path_nonzero: "path h x bs y \<Longrightarrow> 0 \<notin> set bs"
  by (induction bs arbitrary: x) auto

lemma path_end_head: "path h x bs 0 \<Longrightarrow> x = list_head bs"
  by (cases bs) auto

lemma path_end_unique: "path h x bs 0 \<Longrightarrow> path h x cs 0 \<Longrightarrow> bs = cs"
proof (induction bs arbitrary: x cs)
  case Nil
  then show ?case by (cases cs) auto
next
  case (Cons b bs)
  then show ?case by (cases cs) auto
qed

lemma path_end_Cons: "path h x bs 0 \<Longrightarrow> x \<noteq> 0 \<Longrightarrow> \<exists>cs. bs = x # cs \<and> path h (h x) cs 0"
  by (cases bs) auto

section \<open>Lists threaded through blocks\<close>

text \<open>
  \<open>nxt\<close> reads the link field of a block. \<open>linked B x bs\<close> in the locale: the list that starts at
  \<open>x\<close> consists of the blocks \<open>bs\<close>. The lists of the file system are rooted in the superblock,
  block 0, whose own link field holds their head: linking after the root and linking after a
  block are then the same operation.
\<close>

locale block_list =
  fixes nxt :: "u8 list \<Rightarrow> u64" and set_nxt :: "u8 list \<Rightarrow> u64 \<Rightarrow> u8 list"
    and valid :: "u64 \<Rightarrow> bool"
  assumes nxt_set_nxt: "length b = 512 \<Longrightarrow> valid n \<Longrightarrow> nxt (set_nxt b n) = n"
    and length_set_nxt: "length b = 512 \<Longrightarrow> length (set_nxt b n) = 512"
begin

abbreviation linked :: "(u64 \<Rightarrow> u8 list) \<Rightarrow> u64 \<Rightarrow> u64 list \<Rightarrow> bool" where
  "linked B x bs \<equiv> path (\<lambda>b. nxt (B b)) x bs 0"

lemma linked_cong:
  "linked B x bs \<Longrightarrow> (\<And>b. b \<in> set bs \<Longrightarrow> nxt (B' b) = nxt (B b)) \<Longrightarrow> linked B' x bs"
  using path_cong[of bs "\<lambda>b. nxt (B b)" "\<lambda>b. nxt (B' b)"] by simp

lemma linked_update_other:
  "linked B x bs \<Longrightarrow> b \<notin> set bs \<Longrightarrow> linked (B(b := buf)) x bs"
  by (erule linked_cong) auto

lemma redirect_last:
  assumes "path (\<lambda>b. nxt (B b)) x (bs @ [b]) y" and "b \<notin> set bs"
    and "\<And>c. c \<in> set bs \<Longrightarrow> nxt (B' c) = nxt (B c)" and "nxt (B' b) = list_head cs"
    and "linked B' (list_head cs) cs"
  shows "linked B' x (bs @ b # cs)"
proof -
  from assms(1) have "path (\<lambda>b. nxt (B b)) x bs b" and "b \<noteq> 0"
    by (auto simp: path_snoc)
  moreover from this(1) have "path (\<lambda>b. nxt (B' b)) x bs b"
    using path_cong[of bs "\<lambda>b. nxt (B' b)" "\<lambda>b. nxt (B b)"] assms(3) by simp
  ultimately show ?thesis using assms(4,5) by (auto simp: path_append)
qed

lemma append_linked:
  assumes "linked B x (bs @ [b])" and "b \<notin> set bs" and "linked B (list_head cs) cs"
    and "b \<notin> set cs" and "length (B b) = 512" and "valid (list_head cs)"
  shows "linked (B(b := set_nxt (B b) (list_head cs))) x (bs @ b # cs)"
proof (rule redirect_last)
  show "path (\<lambda>b. nxt (B b)) x (bs @ [b]) 0" and "b \<notin> set bs" by fact+
  show "linked (B(b := set_nxt (B b) (list_head cs))) (list_head cs) cs"
    using assms(3,4) by (rule linked_update_other)
qed (use assms in \<open>auto simp: nxt_set_nxt\<close>)

lemma insert_after:
  assumes "linked B (nxt (B 0)) (bs @ cs)" and "distinct (bs @ cs)"
    and "x \<notin> set (bs @ cs)" and "x \<noteq> 0"
    and "nxt (B' (last (0 # bs))) = x" and "nxt (B' x) = list_head cs"
    and "\<And>b. b \<in> set (0 # bs @ cs) \<Longrightarrow> b \<noteq> last (0 # bs) \<Longrightarrow> nxt (B' b) = nxt (B b)"
  shows "linked B' (nxt (B' 0)) (bs @ x # cs)"
proof -
  have nz: "0 \<notin> set (bs @ cs)" using assms(1) path_nonzero by blast
  from assms(1) obtain y where y: "path (\<lambda>b. nxt (B b)) (nxt (B 0)) bs y" "linked B y cs"
    by (auto simp: path_append)
  have lcs: "linked B' (list_head cs) cs"
  proof (rule linked_cong)
    show "linked B (list_head cs) cs" using y(2) path_end_head by blast
    fix b assume "b \<in> set cs"
    then have "b \<noteq> last (0 # bs)" using assms(2) nz by (cases bs rule: rev_cases) auto
    with \<open>b \<in> set cs\<close> show "nxt (B' b) = nxt (B b)" using assms(7) by simp
  qed
  show ?thesis
  proof (cases bs rule: rev_cases)
    case Nil
    then show ?thesis using assms lcs by simp
  next
    case (snoc as b)
    have "b \<noteq> 0" "b \<notin> set as" using nz assms(2) snoc by auto
    then have h0: "nxt (B' 0) = nxt (B 0)" using assms(7)[of 0] snoc by auto
    have "linked B' (nxt (B' 0)) (as @ b # x # cs)"
    proof (rule redirect_last)
      show "path (\<lambda>b. nxt (B b)) (nxt (B' 0)) (as @ [b]) y" using y snoc h0 by simp
      show "b \<notin> set as" by fact
      show "nxt (B' c) = nxt (B c)" if "c \<in> set as" for c
        using that assms(7)[of c] snoc \<open>b \<notin> set as\<close> by auto
      show "nxt (B' b) = list_head (x # cs)" using assms(5) snoc by simp
      show "linked B' (list_head (x # cs)) (x # cs)" using lcs assms by simp
    qed
    then show ?thesis using snoc by simp
  qed
qed

lemma remove_after:
  assumes "linked B (nxt (B 0)) (bs @ x # cs)" and "distinct (bs @ x # cs)"
    and "nxt (B' (last (0 # bs))) = nxt (B x)"
    and "\<And>b. b \<in> set (0 # bs @ cs) \<Longrightarrow> b \<noteq> last (0 # bs) \<Longrightarrow> nxt (B' b) = nxt (B b)"
  shows "linked B' (nxt (B' 0)) (bs @ cs)"
proof -
  have nz: "0 \<notin> set (bs @ x # cs)" using assms(1) path_nonzero by blast
  from assms(1) have p: "path (\<lambda>b. nxt (B b)) (nxt (B 0)) bs x" and q: "linked B (nxt (B x)) cs"
    by (auto simp: path_append)
  have head: "nxt (B x) = list_head cs" using q path_end_head by blast
  have lcs: "linked B' (list_head cs) cs"
  proof (rule linked_cong)
    show "linked B (list_head cs) cs" using q head by simp
    fix b assume "b \<in> set cs"
    then have "b \<noteq> last (0 # bs)" using assms(2) nz by (cases bs rule: rev_cases) auto
    with \<open>b \<in> set cs\<close> show "nxt (B' b) = nxt (B b)" using assms(4) by simp
  qed
  show ?thesis
  proof (cases bs rule: rev_cases)
    case Nil
    then show ?thesis using assms lcs head by simp
  next
    case (snoc as b)
    have "b \<noteq> 0" "b \<notin> set as" using nz assms(2) snoc by auto
    then have h0: "nxt (B' 0) = nxt (B 0)" using assms(4)[of 0] snoc by auto
    have "linked B' (nxt (B' 0)) (as @ b # cs)"
    proof (rule redirect_last)
      show "path (\<lambda>b. nxt (B b)) (nxt (B' 0)) (as @ [b]) x" using p snoc h0 by simp
      show "b \<notin> set as" by fact
      show "nxt (B' c) = nxt (B c)" if "c \<in> set as" for c
        using that assms(4)[of c] snoc \<open>b \<notin> set as\<close> by auto
      show "nxt (B' b) = list_head cs" using assms(3) snoc head by simp
      show "linked B' (list_head cs) cs" by fact
    qed
    then show ?thesis using snoc by simp
  qed
qed

end

section \<open>Block devices\<close>

locale block_device =
  fixes rd :: "'d \<Rightarrow> u64 \<Rightarrow> 'd option" and wr :: "'d \<Rightarrow> u64 \<Rightarrow> 'd option"
    and buf :: "'d \<Rightarrow> u8 list" and set_buf :: "u8 list \<Rightarrow> 'd \<Rightarrow> 'd"
    and blk :: "'d \<Rightarrow> u64 \<Rightarrow> u8 list" and ok :: "nat \<Rightarrow> 'd \<Rightarrow> bool"
  assumes read_ok: "ok n d \<Longrightarrow> unat b < n \<Longrightarrow> rd d b = Some (set_buf (blk d b) d)"
    and write_ok: "ok n d \<Longrightarrow> unat b < n \<Longrightarrow>
      \<exists>d'. wr d b = Some d' \<and> ok n d' \<and> buf d' = buf d \<and> blk d' = (blk d)(b := buf d)"
    and buf_set_buf: "buf (set_buf x d) = x"
    and blk_set_buf: "blk (set_buf x d) = blk d"
    and ok_set_buf: "ok n d \<Longrightarrow> length x = 512 \<Longrightarrow> ok n (set_buf x d)"
    and length_buf: "ok n d \<Longrightarrow> length (buf d) = 512"
    and length_blk: "ok n d \<Longrightarrow> unat b < n \<Longrightarrow> length (blk d b) = 512"
begin

lemma readE:
  assumes "ok n d" and "unat b < n"
  obtains d' where "rd d b = Some d'" and "ok n d'" and "buf d' = blk d b" and "blk d' = blk d"
proof -
  have "ok n (set_buf (blk d b) d)"
    using assms by (simp add: ok_set_buf length_blk)
  then show thesis
    using that[of "set_buf (blk d b) d"] assms by (simp add: read_ok buf_set_buf blk_set_buf)
qed

lemma writeE:
  assumes "ok n d" and "unat b < n" and "length x = 512"
  obtains d' where "wr (set_buf x d) b = Some d'" and "ok n d'" and "buf d' = x"
    and "blk d' = (blk d)(b := x)"
proof -
  have "ok n (set_buf x d)" using assms by (simp add: ok_set_buf)
  from write_ok[OF this assms(2)] show thesis
    using that by (auto simp: buf_set_buf blk_set_buf)
qed

lemma read_modify_write:
  assumes "ok n d" and "unat b < n" and "length (f (blk d b)) = 512"
  obtains d' where "Option.bind (rd d b) (\<lambda>e. wr (set_buf (f (buf e)) e) b) = Some d'"
    and "ok n d'" and "buf d' = f (blk d b)" and "blk d' = (blk d)(b := f (blk d b))"
proof -
  obtain e where e: "rd d b = Some e" "ok n e" "buf e = blk d b" "blk e = blk d"
    using readE[OF assms(1,2)] by blast
  have "length (f (buf e)) = 512" using e assms(3) by simp
  from writeE[OF e(2) assms(2) this] obtain d' where
    "wr (set_buf (f (buf e)) e) b = Some d'" "ok n d'" "buf d' = f (buf e)"
    "blk d' = (blk e)(b := f (buf e))"
    by blast
  with e show thesis using that by simp
qed

end

end
