(* ===== verification/Disk_Rep.thy ===== *)
theory Disk_Rep
  imports Disk_Model Block_List
begin

text \<open>
  What a disk means. \<open>fs_rep N d free files\<close>: the image of \<open>d\<close> holds \<open>N\<close> well-formed blocks, in
  which \<open>free\<close> is the list of free blocks and \<open>files\<close> the directory, each file with its name
  and its chain of blocks. \<open>fs_map\<close> is the abstract file system, the map from names to contents.
  The two interfaces of \<open>Block_List\<close> are interpreted here: the disk is a block device, and
  block chains and the file list are two lists threaded through its blocks.
\<close>

section \<open>Fields of a block\<close>

named_theorems block_fields \<open>reading a field of a 512-byte block after writing one\<close>

lemma length_set_fields [block_fields]:
  assumes "length b = 512"
  shows "length (set_next_block_field b x) = 512" and "length (set_next_file b x) = 512"
    and "length (set_name_length b x) = 512" and "length (block_set_next b x) = 512"
    and "length (set_block_size b x) = 512"
  using assms
  by (simp_all add: set_next_block_field_def set_next_file_def set_name_length_def
      block_set_next_def set_block_size_def u64_field.length_field)

lemma next_block_field_set [block_fields]:
  assumes "length b = 512"
  shows "next_block_field (set_next_block_field b x) = x"
    and "next_block_field (set_next_file b x) = next_block_field b"
    and "next_block_field (set_name_length b x) = next_block_field b"
  using assms
  by (simp_all add: next_block_field_def set_next_block_field_def set_next_file_def
      set_name_length_def u64_field.field_same u64_field.field_other)

lemma next_file_set [block_fields]:
  assumes "length b = 512"
  shows "next_file (set_next_block_field b x) = next_file b"
    and "next_file (set_next_file b x) = x"
    and "next_file (set_name_length b x) = next_file b"
  using assms
  by (simp_all add: next_file_def set_next_block_field_def set_next_file_def
      set_name_length_def u64_field.field_same u64_field.field_other)

lemma name_length_set [block_fields]:
  assumes "length b = 512"
  shows "name_length (set_next_block_field b x) = name_length b"
    and "name_length (set_next_file b x) = name_length b"
    and "name_length (set_name_length b x) = x"
  using assms
  by (simp_all add: name_length_def set_next_block_field_def set_next_file_def
      set_name_length_def u64_field.field_same u64_field.field_other)

lemma window_set [block_fields]:
  assumes "length b = 512" and "i + n \<le> 512"
  shows "8 \<le> i \<Longrightarrow> window (set_next_block_field b x) i n = window b i n"
    and "24 \<le> i \<Longrightarrow> window (set_next_file b x) i n = window b i n"
    and "24 \<le> i \<Longrightarrow> window (set_name_length b x) i n = window b i n"
  using assms
  by (simp_all add: set_next_block_field_def set_next_file_def set_name_length_def
      u64_field.field_other)

lemma fields_blit [block_fields]:
  assumes "length b = 512" and "24 \<le> i" and "i + length ys \<le> 512"
  shows "next_block_field (blit b i ys) = next_block_field b"
    and "next_file (blit b i ys) = next_file b"
    and "name_length (blit b i ys) = name_length b"
  using assms
  by (simp_all add: next_block_field_def next_file_def name_length_def byte_lists)

lemma next_block_field_blit:
  "length b = 512 \<Longrightarrow> 8 \<le> i \<Longrightarrow> i + length ys \<le> 512 \<Longrightarrow>
   next_block_field (blit b i ys) = next_block_field b"
  by (simp add: next_block_field_def byte_lists)

lemmas header_defs = block_set_next_def block_get_next_def block_size_def set_block_size_def

lemma block_get_set_next:
  assumes "length b = 512" and "unat n + 512 < 18446744073709551616"
  shows "block_get_next (block_set_next b n) = n"
proof -
  have "unat (n + 512) = unat n + 512" using assms by (simp add: unat_add_u64)
  then show ?thesis using assms
    by (auto simp: header_defs block_fields word_nat unat_sub_u64)
qed

lemma block_get_next_0: "block_get_next b = 0 \<longleftrightarrow> unat (block_size b) \<le> 512"
  by (auto simp: header_defs word_nat)

section \<open>The disk is a block device\<close>

definition disk_block :: "disk \<Rightarrow> u64 \<Rightarrow> u8 list" where
  "disk_block d b = window (disk_image d) (512 * unat b) 512"

text \<open>Block numbers stay far below \<open>2^64\<close>, so that neither \<open>block_id * 512\<close> nor
  \<open>next_block + 512\<close> wraps.\<close>

definition disk_ok :: "nat \<Rightarrow> disk \<Rightarrow> bool" where
  "disk_ok N d \<longleftrightarrow>
     length (block_buffer d) = 512 \<and> length (disk_image d) = 512 * N \<and> N \<le> 18014398509481984"

lemma disk_block_offset:
  fixes b :: u64
  assumes "disk_ok N d" and "unat b < N"
  shows "unat (b * 512) = 512 * unat b \<and> 512 * unat b + 512 \<le> length (disk_image d)"
proof -
  have "unat b * unat (512 :: u64) < 18446744073709551616"
    using assms by (simp add: disk_ok_def)
  from unat_mult_u64[OF this] show ?thesis using assms by (simp add: disk_ok_def)
qed

lemma disk_block_write:
  assumes "disk_ok N d" and "unat b < N"
  shows "disk_block (d\<lparr>disk_image := blit (disk_image d) (512 * unat b) (block_buffer d)\<rparr>) =
    (disk_block d)(b := block_buffer d)"
proof (rule ext)
  fix c
  have len: "length (block_buffer d) = 512" "512 * unat b + 512 \<le> length (disk_image d)"
    using assms disk_block_offset by (auto simp: disk_ok_def)
  show "disk_block (d\<lparr>disk_image := blit (disk_image d) (512 * unat b) (block_buffer d)\<rparr>) c =
    ((disk_block d)(b := block_buffer d)) c"
  proof (cases "c = b")
    case True
    then show ?thesis using len by (simp add: disk_block_def byte_lists)
  next
    case False
    then have ne: "unat c \<noteq> unat b" by (simp add: word_unat_eq_iff)
    show ?thesis
    proof (cases "unat c < N")
      case True
      with assms(1) have "512 * unat c + 512 \<le> length (disk_image d)" by (simp add: disk_ok_def)
      with len ne \<open>c \<noteq> b\<close> show ?thesis
        by (simp add: disk_block_def) (rule window_blit_other; simp; linarith)
    next
      case False
      with assms(1) len have "length (disk_image d) \<le> 512 * unat c" by (simp add: disk_ok_def)
      with len \<open>c \<noteq> b\<close> show ?thesis by (simp add: disk_block_def window_def blit_def)
    qed
  qed
qed

interpretation dev: block_device disk_read_block_buffer disk_write_block_buffer block_buffer
  "\<lambda>x d. d\<lparr>block_buffer := x\<rparr>" disk_block disk_ok
proof
  fix N d and b :: u64
  assume *: "disk_ok N d" "unat b < N"
  note off = disk_block_offset[OF *]
  show "disk_read_block_buffer d b = Some (d\<lparr>block_buffer := disk_block d b\<rparr>)"
    using off by (simp add: disk_read_block_buffer_def disk_block_def)
  show "\<exists>d'. disk_write_block_buffer d b = Some d' \<and> disk_ok N d' \<and>
      block_buffer d' = block_buffer d \<and> disk_block d' = (disk_block d)(b := block_buffer d)"
    using off * disk_block_write[OF *]
    by (simp add: disk_write_block_buffer_def disk_ok_def length_blit)
  show "length (disk_block d b) = 512"
    using off by (simp add: disk_block_def length_window)
qed (simp_all add: disk_ok_def disk_block_def fun_eq_iff)

section \<open>Chains and the file list\<close>

interpretation chain: block_list block_get_next block_set_next
  "\<lambda>n. unat n + 512 < 18446744073709551616"
  by unfold_locales (simp_all add: block_get_set_next block_fields)

interpretation dir: block_list next_file set_next_file "\<lambda>_. True"
  by unfold_locales (simp_all add: block_fields)

end
