(* ===== verification/Disk_Spec.thy ===== *)
theory Disk_Spec
  imports Disk_Rep
begin

text \<open>
  The representation invariant of a Toys file system, the abstract file system it stands for,
  and the lemmas that say which block updates leave a file alone.
\<close>

section \<open>The representation\<close>

text \<open>A file is its name and the chain of its blocks, first block first.\<close>

type_synonym toy_file = "u8 list \<times> u64 list"

fun chain_data :: "(u64 \<Rightarrow> u8 list) \<Rightarrow> nat \<Rightarrow> u64 list \<Rightarrow> u8 list" where
  "chain_data B h [] = []"
| "chain_data B h [b] = window (B b) h (unat (block_size (B b)) - h)"
| "chain_data B h (b # c # bs) = window (B b) h (512 - h) @ chain_data B 8 (c # bs)"

text \<open>The last block is used at least up to its header, which is \<open>h\<close> bytes in the first block
  and 8 bytes in the others.\<close>

fun chain_ok :: "(u64 \<Rightarrow> u8 list) \<Rightarrow> nat \<Rightarrow> u64 list \<Rightarrow> bool" where
  "chain_ok B h [] \<longleftrightarrow> False"
| "chain_ok B h [b] \<longleftrightarrow> h \<le> unat (block_size (B b))"
| "chain_ok B h (b # c # bs) \<longleftrightarrow> chain_ok B 8 (c # bs)"

definition name_ok :: "u8 list \<Rightarrow> bool" where
  "name_ok name \<longleftrightarrow> 1 \<le> length name \<and> length name \<le> 488 \<and> list_all (\<lambda>c. 32 < c \<and> c < 127) name"

definition file_ok :: "(u64 \<Rightarrow> u8 list) \<Rightarrow> toy_file \<Rightarrow> bool" where
  "file_ok B f \<longleftrightarrow> (case f of (name, bs) \<Rightarrow>
     name_ok name \<and> bs \<noteq> [] \<and> chain.linked B (hd bs) bs \<and>
     name_length (B (hd bs)) = of_nat (length name) \<and>
     window (B (hd bs)) 24 (length name) = name \<and>
     chain_ok B (24 + length name) bs)"

definition file_data :: "(u64 \<Rightarrow> u8 list) \<Rightarrow> toy_file \<Rightarrow> u8 list" where
  "file_data B f = chain_data B (24 + length (fst f)) (snd f)"

abbreviation heads :: "toy_file list \<Rightarrow> u64 list" where
  "heads files \<equiv> map (\<lambda>f. hd (snd f)) files"

text \<open>Every block but the superblock belongs to exactly one chain or to the free list.\<close>

definition space_ok :: "nat \<Rightarrow> u64 list \<Rightarrow> toy_file list \<Rightarrow> bool" where
  "space_ok N free files \<longleftrightarrow>
     distinct (free @ concat (map snd files)) \<and>
     set (free @ concat (map snd files)) = {b. b \<noteq> 0 \<and> unat b < N}"

text \<open>The first word of a free block was always written by \<open>block_set_next\<close>.\<close>

definition free_ok :: "(u64 \<Rightarrow> u8 list) \<Rightarrow> u64 list \<Rightarrow> bool" where
  "free_ok B free \<longleftrightarrow> list_all (\<lambda>b. 512 \<le> unat (block_size (B b))) free"

definition fs_ok :: "nat \<Rightarrow> (u64 \<Rightarrow> u8 list) \<Rightarrow> u64 list \<Rightarrow> toy_file list \<Rightarrow> bool" where
  "fs_ok N B free files \<longleftrightarrow>
     1 \<le> N \<and> chain.linked B (block_get_next (B 0)) free \<and>
     dir.linked B (next_file (B 0)) (heads files) \<and>
     list_all (file_ok B) files \<and> sorted_wrt (<) (map fst files) \<and> space_ok N free files \<and>
     free_ok B free"

definition fs_rep :: "nat \<Rightarrow> disk \<Rightarrow> u64 list \<Rightarrow> toy_file list \<Rightarrow> bool" where
  "fs_rep N d free files \<longleftrightarrow> disk_ok N d \<and> fs_ok N (disk_block d) free files"

text \<open>The abstract file system: the contents by name.\<close>

definition fs_map :: "disk \<Rightarrow> toy_file list \<Rightarrow> (u8 list \<rightharpoonup> u8 list)" where
  "fs_map d files = map_of (map (\<lambda>f. (fst f, file_data (disk_block d) f)) files)"

section \<open>Consequences of the representation\<close>

lemma fs_okD:
  assumes "fs_ok N B free files"
  shows "1 \<le> N" and "chain.linked B (block_get_next (B 0)) free"
    and "dir.linked B (next_file (B 0)) (heads files)" and "list_all (file_ok B) files"
    and "sorted_wrt (<) (map fst files)" and "space_ok N free files"
    and "free_ok B free"
  using assms by (simp_all add: fs_ok_def)

lemma fs_repD:
  assumes "fs_rep N d free files"
  shows "disk_ok N d" and "fs_ok N (disk_block d) free files"
  using assms by (simp_all add: fs_rep_def)

lemma space_free: "space_ok N free files \<Longrightarrow> b \<in> set free \<Longrightarrow> b \<noteq> 0 \<and> unat b < N"
  by (auto simp: space_ok_def)

lemma space_file: "space_ok N free files \<Longrightarrow> f \<in> set files \<Longrightarrow> b \<in> set (snd f) \<Longrightarrow> b \<noteq> 0 \<and> unat b < N"
  by (auto simp: space_ok_def)

lemma file_ok_nonempty: "file_ok B f \<Longrightarrow> snd f \<noteq> [] \<and> hd (snd f) \<in> set (snd f)"
  by (cases f) (auto simp: file_ok_def)

lemma strict_distinct: "sorted_wrt (<) (xs :: 'a::linorder list) \<Longrightarrow> distinct xs"
  by (simp add: strict_sorted_iff)

lemma file_names_inj:
  fixes files :: "toy_file list"
  assumes "sorted_wrt (<) (map fst files)" and "f \<in> set files" and "g \<in> set files"
    and "fst f = fst g"
  shows "f = g"
  using strict_distinct[OF assms(1)] assms(2-4) by (auto simp: distinct_map inj_on_def)

lemma map_of_files:
  fixes files :: "toy_file list"
  assumes "sorted_wrt (<) (map fst files)" and "f \<in> set files"
  shows "map_of files (fst f) = Some (snd f)"
  using strict_distinct[OF assms(1)] assms(2) by (intro map_of_is_SomeI) auto

lemma fs_map_file:
  assumes "sorted_wrt (<) (map fst files)" and "f \<in> set files"
  shows "fs_map d files (fst f) = Some (file_data (disk_block d) f)"
  unfolding fs_map_def
  using strict_distinct[OF assms(1)] assms(2) by (intro map_of_is_SomeI) (auto simp: comp_def)

lemma fs_map_dom: "dom (fs_map d files) = fst ` set files"
  by (auto simp: fs_map_def dom_map_of_conv_image_fst image_image)

lemma chains_disjoint:
  "distinct (concat (map snd files)) \<Longrightarrow> f \<in> set files \<Longrightarrow> g \<in> set files \<Longrightarrow>
   b \<in> set (snd f) \<Longrightarrow> b \<in> set (snd g) \<Longrightarrow> f = g"
proof (induction files)
  case Nil
  then show ?case by simp
next
  case (Cons x files)
  then have "set (snd x) \<inter> set (concat (map snd files)) = {}" by simp
  with Cons show ?case by (cases "f = x"; cases "g = x") auto
qed

section \<open>Updates that leave a file alone\<close>

definition same_file_block :: "u8 list \<Rightarrow> u8 list \<Rightarrow> bool" where
  "same_file_block x y \<longleftrightarrow>
     next_block_field x = next_block_field y \<and> name_length x = name_length y \<and>
     (\<forall>i n. 24 \<le> i \<longrightarrow> i + n \<le> 512 \<longrightarrow> window x i n = window y i n)"

lemma same_file_block_refl [simp]: "same_file_block x x"
  by (simp add: same_file_block_def)

lemma same_file_block_next_file: "length x = 512 \<Longrightarrow> same_file_block (set_next_file x v) x"
  by (simp add: same_file_block_def block_fields)

lemma chain_data_cong: "(\<And>b. b \<in> set bs \<Longrightarrow> B b = B' b) \<Longrightarrow> chain_data B h bs = chain_data B' h bs"
  by (induction B h bs rule: chain_data.induct) auto

lemma chain_ok_cong: "(\<And>b. b \<in> set bs \<Longrightarrow> B b = B' b) \<Longrightarrow> chain_ok B h bs = chain_ok B' h bs"
  by (induction B h bs rule: chain_ok.induct) auto

lemma file_view:
  assumes f: "file_ok B f" and hd: "same_file_block (B' (hd (snd f))) (B (hd (snd f)))"
    and tl: "\<And>b. b \<in> set (tl (snd f)) \<Longrightarrow> B' b = B b"
  shows "file_ok B' f" and "file_data B' f = file_data B f"
proof -
  obtain name b bs where fe: "f = (name, b # bs)"
    using f file_ok_nonempty by (cases f) (metis list.exhaust snd_conv)
  have hb: "next_block_field (B' b) = next_block_field (B b)" "name_length (B' b) = name_length (B b)"
    and w: "\<And>i n. 24 \<le> i \<Longrightarrow> i + n \<le> 512 \<Longrightarrow> window (B' b) i n = window (B b) i n"
    using hd fe by (auto simp: same_file_block_def)
  have tb: "\<And>c. c \<in> set bs \<Longrightarrow> B' c = B c" using tl fe by simp
  have len: "length name \<le> 488" using f fe by (simp add: file_ok_def name_ok_def)
  have link: "chain.linked B b (b # bs)" using f fe by (simp add: file_ok_def)
  then have link': "chain.linked B' b (b # bs)"
    by (rule chain.linked_cong) (auto simp: hb tb block_get_next_def)
  have sz: "block_size (B' b) = block_size (B b)" using hb by (simp add: block_size_def)
  have ok: "chain_ok B' (24 + length name) (b # bs)" and
    data: "chain_data B' (24 + length name) (b # bs) = chain_data B (24 + length name) (b # bs)"
  proof -
    have ok0: "chain_ok B (24 + length name) (b # bs)" using f fe by (simp add: file_ok_def)
    show "chain_ok B' (24 + length name) (b # bs)"
      using ok0 sz tb chain_ok_cong[of bs B' B] by (cases bs) auto
    show "chain_data B' (24 + length name) (b # bs) = chain_data B (24 + length name) (b # bs)"
    proof (cases bs)
      case Nil
      with ok0 have "24 + length name \<le> unat (block_size (B b))" by simp
      moreover have "unat (block_size (B b)) \<le> 512"
        using link Nil by (simp add: block_get_next_0)
      ultimately show ?thesis using Nil sz w by simp
    next
      case (Cons c cs)
      then show ?thesis using len w chain_data_cong[of bs B' B] tb by simp
    qed
  qed
  show "file_ok B' f"
    using f fe link' hb w len ok by (simp add: file_ok_def)
  show "file_data B' f = file_data B f"
    using data fe by (simp add: file_data_def)
qed

lemma file_view_outside:
  assumes "file_ok B f" and "\<And>b. b \<in> set (snd f) \<Longrightarrow> B' b = B b"
  shows "file_ok B' f" and "file_data B' f = file_data B f"
proof -
  have ne: "snd f \<noteq> []" using file_ok_nonempty[OF assms(1)] by simp
  have hd: "same_file_block (B' (hd (snd f))) (B (hd (snd f)))"
    using assms(2)[of "hd (snd f)"] ne by simp
  have tl: "\<And>b. b \<in> set (tl (snd f)) \<Longrightarrow> B' b = B b"
    using assms(2) ne list.set_sel(2) by metis
  show "file_ok B' f" and "file_data B' f = file_data B f"
    using file_view[OF assms(1) hd tl] by simp_all
qed

lemma rep_same:
  assumes "fs_rep N d free files" and "disk_ok N d'" and "disk_block d' = disk_block d"
  shows "fs_rep N d' free files" and "fs_map d' files = fs_map d files"
  using assms by (simp_all add: fs_rep_def fs_map_def)

end
