(* ===== verification/Disk_Search.thy ===== *)
theory Disk_Search
  imports Disk_Spec
begin

text \<open>
  The operations that only read the disk: name comparison, \<open>disk_find_file\<close>,
  \<open>disk_get_file_size\<close> and \<open>disk_read_file\<close>, against the abstract file system.
\<close>

section \<open>Name comparison is lexicographic order\<close>

definition name_order :: "u8 list \<Rightarrow> u8 list \<Rightarrow> u64" where
  "name_order xs ys = (if xs = ys then EQUAL else if xs < ys then SMALLER else GREATER)"

lemma name_order_simps [simp]:
  "name_order [] [] = EQUAL"
  "name_order [] (y # ys) = SMALLER"
  "name_order (x # xs) [] = GREATER"
  "name_order (x # xs) (y # ys) =
     (if x < y then SMALLER else if x > y then GREATER else name_order xs ys)"
  by (auto simp: name_order_def)

lemma name_codes [simp]:
  "EQUAL \<noteq> SMALLER" "EQUAL \<noteq> GREATER" "SMALLER \<noteq> GREATER"
  "SMALLER \<noteq> EQUAL" "GREATER \<noteq> EQUAL" "GREATER \<noteq> SMALLER"
  by (simp_all add: EQUAL_def SMALLER_def GREATER_def)

lemma disk_compare_loop_order:
  assumes "take (length fname) arr = fname" and "length fname \<le> length arr"
    and "unat fl = length fname"
  shows "i \<le> length fname \<Longrightarrow> i \<le> length name \<Longrightarrow>
    disk_compare_loop arr fl name i = Some (name_order (drop i fname) (drop i name))"
proof (induction "length name - i" arbitrary: i)
  case 0
  then have n: "drop i name = []" "i = length name" by simp_all
  show ?case
  proof (cases "length fname = i")
    case True
    then show ?thesis using assms 0 n by (subst disk_compare_loop.simps) simp
  next
    case False
    with 0 obtain x xs where "drop i fname = x # xs" by (cases "drop i fname") auto
    with False 0 n assms show ?thesis by (subst disk_compare_loop.simps) simp
  qed
next
  case (Suc k)
  then have i: "i < length name" by simp
  show ?case
  proof (cases "i < length fname")
    case True
    have "arr ! i = fname ! i" using assms(1) True nth_take by metis
    moreover have "drop i fname = fname ! i # drop (Suc i) fname"
      using True by (simp add: Cons_nth_drop_Suc)
    moreover have "drop i name = name ! i # drop (Suc i) name"
      using i by (simp add: Cons_nth_drop_Suc)
    moreover have "disk_compare_loop arr fl name (i + 1) =
        Some (name_order (drop (i + 1) fname) (drop (i + 1) name))"
      using Suc True i by simp
    ultimately show ?thesis using assms True i
      by (subst disk_compare_loop.simps) simp
  next
    case False
    with Suc.prems have "drop i fname = []" "i = length fname" by simp_all
    moreover have "drop i name = name ! i # drop (Suc i) name"
      using i by (simp add: Cons_nth_drop_Suc)
    ultimately show ?thesis using assms i
      by (subst disk_compare_loop.simps) simp
  qed
qed

lemma disk_compare_file:
  assumes "file_ok B (fname, bs)" and "length (B (hd bs)) = 512"
  shows "disk_compare_file_name (B (hd bs)) name = Some (name_order fname name)"
proof -
  have f: "length fname \<le> 488" "window (B (hd bs)) 24 (length fname) = fname"
    "name_length (B (hd bs)) = of_nat (length fname)"
    using assms(1) by (simp_all add: file_ok_def name_ok_def)
  have "take (length fname) (name_bytes (B (hd bs))) = fname"
    using f by (simp add: name_bytes_def window_def min_def)
  moreover have "length (name_bytes (B (hd bs))) = 488"
    using assms(2) by (simp add: name_bytes_def byte_lists)
  ultimately show ?thesis
    using disk_compare_loop_order[of fname "name_bytes (B (hd bs))" _ 0 name] f
    by (simp add: disk_compare_file_name_def unat_of_nat_u64)
qed

section \<open>disk_find_file\<close>

lemma find_file_loop:
  assumes "sorted_wrt (<) (map fst fs)"
    and "\<And>f. f \<in> set fs \<Longrightarrow> file_ok B f \<and> unat (hd (snd f)) < N"
  shows "disk_ok N d \<Longrightarrow> disk_block d = B \<Longrightarrow> dir.linked B x (heads fs) \<Longrightarrow>
    \<exists>d'. disk_find_file_loop d name prev x =
        Some (case map_of fs name of None \<Rightarrow> 0 | Some bs \<Rightarrow> hd bs,
          map_option (\<lambda>p. last (p # heads (takeWhile (\<lambda>f. fst f < name) fs))) prev, d') \<and>
      disk_ok N d' \<and> disk_block d' = B"
  using assms
proof (induction fs arbitrary: d x prev)
  case Nil
  then show ?case
    by (subst disk_find_file_loop.simps) (simp add: option.map_ident)
next
  case (Cons f fs)
  obtain fname bs where f: "f = (fname, bs)" by (cases f)
  have fok: "file_ok B f" "unat (hd bs) < N" using Cons.prems(5)[of f] f by auto
  have link: "x = hd bs" "x \<noteq> 0" "dir.linked B (next_file (B x)) (heads fs)"
    using Cons.prems(3) f by auto
  obtain d1 where d1: "disk_read_block_buffer d x = Some d1" "disk_ok N d1"
      "block_buffer d1 = B x" "disk_block d1 = B"
    using dev.readE[OF Cons.prems(1), of x] link fok Cons.prems(2) by metis
  have len: "length (B (hd bs)) = 512" using dev.length_buf d1 link by metis
  have cmp: "disk_compare_file_name (B x) name = Some (name_order fname name)"
    using disk_compare_file[of B fname bs name] len fok f link by simp
  have nomore: "map_of fs name = None" if "name \<le> fname"
    using Cons.prems(4) that f by (force simp: map_of_eq_None_iff)
  have step: "disk_find_file_loop d name prev x =
      (if fname = name then Some (x, prev, d1) else if name < fname then Some (0, prev, d1)
       else disk_find_file_loop d1 name (map_option (\<lambda>_. x) prev) (next_file (B x)))"
    using link(2) d1 cmp by (subst disk_find_file_loop.simps) (auto simp: name_order_def)
  show ?case
  proof (cases "fname < name")
    case True
    have IH: "\<exists>d'. disk_find_file_loop d1 name (map_option (\<lambda>_. x) prev) (next_file (B x)) =
        Some (case map_of fs name of None \<Rightarrow> 0 | Some bs \<Rightarrow> hd bs,
          map_option (\<lambda>p. last (p # heads (takeWhile (\<lambda>f. fst f < name) fs)))
            (map_option (\<lambda>_. x) prev), d') \<and> disk_ok N d' \<and> disk_block d' = B"
      using Cons.IH[OF d1(2,4) link(3)] Cons.prems(4,5) by simp
    have "fname \<noteq> name" "\<not> name < fname" using True by auto
    with IH True show ?thesis
      by (simp add: step f option.map_comp comp_def flip: link(1))
  next
    case False
    then have none: "map_of fs name = None" using nomore by simp
    show ?thesis unfolding step using False d1 none link(1)
      by (auto simp: f option.map_ident)
  qed
qed

definition previous_of :: "u8 list \<Rightarrow> toy_file list \<Rightarrow> u64 \<Rightarrow> u64" where
  "previous_of name files p = last (p # heads (takeWhile (\<lambda>f. fst f < name) files))"

lemma find_file_rep:
  assumes "fs_rep N d free files"
  shows "\<exists>d'. disk_find_file d name prev =
      Some (case map_of files name of None \<Rightarrow> 0 | Some bs \<Rightarrow> hd bs,
        map_option (previous_of name files) prev, d') \<and>
    disk_ok N d' \<and> disk_block d' = disk_block d"
proof -
  note r = fs_okD[OF fs_repD(2)[OF assms]]
  have ok: "disk_ok N d" using fs_repD[OF assms] by simp
  have "unat (SUPER_BLOCK) < N" using r(1) by (simp add: SUPER_BLOCK_def)
  then obtain d1 where d1: "disk_read_block_buffer d SUPER_BLOCK = Some d1" "disk_ok N d1"
      "block_buffer d1 = disk_block d SUPER_BLOCK" "disk_block d1 = disk_block d"
    using dev.readE[OF ok] by metis
  have "\<And>f. f \<in> set files \<Longrightarrow> file_ok (disk_block d) f \<and> unat (hd (snd f)) < N"
    using r(4,6) file_ok_nonempty space_file by (meson list_all_iff)
  from find_file_loop[OF r(5) this d1(2,4)] r(3)
  have "\<exists>d'. disk_find_file_loop d1 name prev (next_file (disk_block d 0)) =
        Some (case map_of files name of None \<Rightarrow> 0 | Some bs \<Rightarrow> hd bs,
          map_option (\<lambda>p. last (p # heads (takeWhile (\<lambda>f. fst f < name) files))) prev, d') \<and>
      disk_ok N d' \<and> disk_block d' = disk_block d"
    by blast
  then show ?thesis
    unfolding disk_find_file_def previous_of_def using d1 by (simp add: SUPER_BLOCK_def)
qed

section \<open>Lengths of chains\<close>

text \<open>\<open>blocks_ok N B bs\<close>: the chain lies inside the image.\<close>

definition blocks_ok :: "nat \<Rightarrow> (u64 \<Rightarrow> u8 list) \<Rightarrow> u64 list \<Rightarrow> bool" where
  "blocks_ok N B bs \<longleftrightarrow> list_all (\<lambda>b. unat b < N \<and> length (B b) = 512) bs"

lemma blocks_ok_simps [simp]:
  "blocks_ok N B []"
  "blocks_ok N B (b # bs) \<longleftrightarrow> unat b < N \<and> length (B b) = 512 \<and> blocks_ok N B bs"
  by (simp_all add: blocks_ok_def)

lemma blocks_okI:
  "disk_ok N d \<Longrightarrow> (\<And>b. b \<in> set bs \<Longrightarrow> unat b < N) \<Longrightarrow> blocks_ok N (disk_block d) bs"
  by (simp add: blocks_ok_def list_all_iff dev.length_blk)

lemma last_block_size:
  "chain.linked B b [b] \<Longrightarrow> unat (block_size (B b)) \<le> 512"
  by (simp add: block_get_next_0)

lemma length_chain_data:
  assumes "chain_ok B h bs" and "chain.linked B (hd bs) bs" and "blocks_ok N B bs" and "h \<le> 512"
  shows "length (chain_data B h bs) + h \<le> 512 * length bs"
  using assms
proof (induction B h bs rule: chain_ok.induct)
  case (2 B h b)
  then have "unat (block_size (B b)) \<le> 512" by (intro last_block_size) simp
  with 2 show ?case by (simp add: length_window)
next
  case (3 B h b c bs)
  then have "length (chain_data B 8 (c # bs)) + 8 \<le> 512 * length (c # bs)" by simp
  with 3 show ?case by (simp add: length_window)
qed simp

section \<open>disk_get_file_size\<close>

lemma get_file_size_loop:
  assumes "chain_ok B h (b # bs)" and "chain.linked B b (b # bs)" and "blocks_ok N B (b # bs)"
    and "h \<le> 512" and "disk_ok N d" and "disk_block d = B" and "block_buffer d = B b"
  shows "\<exists>d'. disk_get_file_size_loop d fs (of_nat h) =
      Some (fs + of_nat (length (chain_data B h (b # bs))), d') \<and>
    disk_ok N d' \<and> disk_block d' = B"
  using assms
proof (induction bs arbitrary: b h fs d)
  case Nil
  have h: "h \<le> unat (block_size (B b))" "unat (block_size (B b)) \<le> 512"
    using Nil last_block_size by auto
  have "of_nat (unat (block_size (B b)) - h) = block_size (B b) - (of_nat h :: u64)"
    using h(1) by (simp add: of_nat_diff)
  then show ?case using Nil h
    by (subst disk_get_file_size_loop.simps) (simp add: length_window algebra_simps)
next
  case (Cons c bs)
  have n: "block_get_next (B b) = c" "c \<noteq> 0" using Cons.prems(2) by auto
  obtain d1 where d1: "disk_read_block_buffer d c = Some d1" "disk_ok N d1"
      "block_buffer d1 = B c" "disk_block d1 = B"
    using dev.readE[OF Cons.prems(5), of c] Cons.prems(3,6) by auto
  have IH: "\<exists>d'. disk_get_file_size_loop d1 (fs + 512 - of_nat h) (of_nat 8) =
      Some ((fs + 512 - of_nat h) + of_nat (length (chain_data B 8 (c # bs))), d') \<and>
    disk_ok N d' \<and> disk_block d' = B"
    by (rule Cons.IH) (use Cons.prems d1 in auto)
  have "(of_nat (512 - h) :: u64) = 512 - of_nat h" using Cons.prems(4) by (simp add: of_nat_diff)
  then have len: "(of_nat (length (chain_data B h (b # c # bs))) :: u64) =
      512 - of_nat h + of_nat (length (chain_data B 8 (c # bs)))"
    using Cons.prems(3,4) by (simp add: length_window)
  show ?case using IH n d1 Cons.prems(7) unfolding len
    by (subst disk_get_file_size_loop.simps) (simp add: algebra_simps)
qed

lemma file_okD:
  assumes "file_ok B (name, bs)"
  shows "name_ok name" and "bs \<noteq> []" and "chain.linked B (hd bs) bs"
    and "name_length (B (hd bs)) = of_nat (length name)"
    and "window (B (hd bs)) 24 (length name) = name" and "chain_ok B (24 + length name) bs"
  using assms by (simp_all add: file_ok_def)

lemma fs_file_blocks:
  assumes "fs_rep N d free files" and "f \<in> set files"
  shows "file_ok (disk_block d) f" and "blocks_ok N (disk_block d) (snd f)"
proof -
  note r = fs_okD[OF fs_repD(2)[OF assms(1)]]
  show "file_ok (disk_block d) f" using r(4) assms(2) by (simp add: list_all_iff)
  show "blocks_ok N (disk_block d) (snd f)"
    using fs_repD(1)[OF assms(1)] space_file[OF r(6) assms(2)] by (intro blocks_okI) auto
qed

lemma distinct_blocks_bound: "distinct bs \<Longrightarrow> (\<And>b. b \<in> set bs \<Longrightarrow> unat (b :: u64) < N) \<Longrightarrow> length bs \<le> N"
proof -
  assume a: "distinct bs" "\<And>b. b \<in> set bs \<Longrightarrow> unat b < N"
  have "card (unat ` set bs) \<le> card {..<N}" using a(2) by (intro card_mono) auto
  moreover have "card (unat ` set bs) = length bs"
    using a(1) by (simp add: card_image inj_on_def word_unat_eq_iff distinct_card)
  ultimately show ?thesis by simp
qed

lemma file_data_length:
  assumes "fs_rep N d free files" and "f \<in> set files"
  shows "length (file_data (disk_block d) f) \<le> 512 * N"
proof -
  obtain name bs where f: "f = (name, bs)" by (cases f)
  note b = fs_file_blocks[OF assms] and r = fs_okD[OF fs_repD(2)[OF assms(1)]]
  have "distinct bs"
    using r(6) assms(2) f by (force simp: space_ok_def dest: split_list)
  then have "length bs \<le> N"
    using b(2) f by (intro distinct_blocks_bound) (auto simp: blocks_ok_def list_all_iff)
  moreover have "length (file_data (disk_block d) f) + (24 + length name) \<le> 512 * length bs"
    using b f file_okD[of "disk_block d" name bs] unfolding file_data_def
    by (simp add: name_ok_def) (rule length_chain_data; simp)
  ultimately show ?thesis by linarith
qed

lemma file_data_bound:
  assumes "fs_rep N d free files" and "f \<in> set files"
  shows "length (file_data (disk_block d) f) < 18446744073709551616"
proof -
  have "N \<le> 18014398509481984" using fs_repD(1)[OF assms(1)] by (simp add: disk_ok_def)
  moreover have "512 * 18014398509481984 = (9223372036854775808 :: nat)" by simp
  ultimately show ?thesis using file_data_length[OF assms] by linarith
qed

lemma get_file_size_rep:
  assumes "fs_rep N d free files" and "f \<in> set files"
  shows "\<exists>n d'. disk_get_file_size d (hd (snd f)) = Some (n, d') \<and>
    unat n = length (file_data (disk_block d) f) \<and> disk_ok N d' \<and> disk_block d' = disk_block d"
proof -
  obtain name bs where f: "f = (name, bs)" by (cases f)
  note b = fs_file_blocks[OF assms]
  obtain c cs where bs: "bs = c # cs" using b f file_okD(2) by (cases bs) auto
  note o = file_okD[OF b(1)[unfolded f bs]]
  obtain d1 where d1: "disk_read_block_buffer d c = Some d1" "disk_ok N d1"
      "block_buffer d1 = disk_block d c" "disk_block d1 = disk_block d"
    using dev.readE[OF fs_repD(1)[OF assms(1)], of c] b(2) f bs by auto
  have nl: "(24 + name_length (disk_block d c) :: u64) = of_nat (24 + length name)"
    using o(4) by simp
  have "\<exists>d'. disk_get_file_size_loop d1 0 (of_nat (24 + length name)) =
      Some (0 + of_nat (length (chain_data (disk_block d) (24 + length name) (c # cs))), d') \<and>
    disk_ok N d' \<and> disk_block d' = disk_block d"
    using o b(2) f bs d1 by (intro get_file_size_loop) (auto simp: name_ok_def)
  moreover have "length (chain_data (disk_block d) (24 + length name) (c # cs))
      < 18446744073709551616"
    using file_data_bound[OF assms] f bs by (simp add: file_data_def)
  ultimately show ?thesis
    using d1 nl f bs unfolding disk_get_file_size_def file_data_def
    by (auto simp: unat_of_nat_u64)
qed

section \<open>disk_read_file\<close>

text \<open>
  A read position is a block and an offset in it. \<open>read_pos N B b off bs\<close>: \<open>b\<close> is followed by the
  blocks \<open>bs\<close> in its chain and \<open>off\<close> does not lie beyond the used part; \<open>rest B b off bs\<close> is what
  is left to read from there.
\<close>

definition read_pos :: "nat \<Rightarrow> (u64 \<Rightarrow> u8 list) \<Rightarrow> u64 \<Rightarrow> u64 \<Rightarrow> u64 list \<Rightarrow> bool" where
  "read_pos N B b off bs \<longleftrightarrow>
     chain_ok B (unat off) (b # bs) \<and> chain.linked B b (b # bs) \<and> blocks_ok N B (b # bs) \<and>
     unat off \<le> 512"

definition rest :: "(u64 \<Rightarrow> u8 list) \<Rightarrow> u64 \<Rightarrow> u64 \<Rightarrow> u64 list \<Rightarrow> u8 list" where
  "rest B b off bs = chain_data B (unat off) (b # bs)"

lemma window_split:
  assumes "k \<le> n" and "i + n \<le> length xs"
  shows "window xs i n = window xs i k @ window xs (i + k) (n - k)"
  using window_append[of i k "n - k" xs] assms by simp

lemma rest_advance:
  assumes "read_pos N B b off bs" and "unat off + k \<le> (if bs = [] then unat (block_size (B b)) else 512)"
  shows "read_pos N B b (off + of_nat k) bs" and "rest B b off bs = window (B b) (unat off) k @
    rest B b (off + of_nat k) bs"
proof -
  have b: "length (B b) = 512" "bs = [] \<Longrightarrow> unat (block_size (B b)) \<le> 512"
    using assms(1) last_block_size by (auto simp: read_pos_def)
  then have k: "unat off + k \<le> 512" using assms(2) by (auto split: if_splits)
  then have off: "unat (off + of_nat k) = unat off + k"
    by (subst unat_add_u64) (auto simp: unat_of_nat_u64)
  show "read_pos N B b (off + of_nat k) bs"
    using assms k off by (cases bs) (auto simp: read_pos_def)
  show "rest B b off bs = window (B b) (unat off) k @ rest B b (off + of_nat k) bs"
  proof (cases bs)
    case Nil
    then show ?thesis using assms(2) b k off
      window_split[of k "unat (block_size (B b)) - unat off" "unat off" "B b"]
      by (simp add: rest_def)
  next
    case (Cons c cs)
    then show ?thesis using b k off window_split[of k "512 - unat off" "unat off" "B b"]
      by (simp add: rest_def)
  qed
qed

lemma read_file_loop:
  assumes "read_pos N B b off bs" and "disk_ok N d" and "disk_block d = B"
  shows "\<exists>b' off' bs' d'.
    disk_read_file_loop d b off dst sz =
      Some (of_nat (unat sz - length (rest B b off bs)), b', off',
            dst @ take (unat sz) (rest B b off bs), d') \<and>
    disk_ok N d' \<and> disk_block d' = B \<and> read_pos N B b' off' bs' \<and>
    (unat sz \<le> length (rest B b off bs) \<longrightarrow> rest B b' off' bs' = drop (unat sz) (rest B b off bs)) \<and>
    (unat sz > length (rest B b off bs) \<longrightarrow>
       b' = last (b # bs) \<and> bs' = [] \<and> off' = (if bs = [] then off else 8))"
  using assms
proof (induction bs arbitrary: b off dst sz d)
  case Nil
  let ?r = "rest B b off []"
  have b: "length (B b) = 512" "unat off \<le> unat (block_size (B b))" "unat (block_size (B b)) \<le> 512"
    "block_get_next (B b) = 0" "unat b < N"
    using Nil(1) last_block_size by (auto simp: read_pos_def)
  obtain d1 where d1: "disk_read_block_buffer d b = Some d1" "disk_ok N d1"
      "block_buffer d1 = B b" "disk_block d1 = B"
    using dev.readE[OF Nil(2) b(5)] Nil(3) by auto
  have av: "unat (block_size (B b) - off) = unat (block_size (B b)) - unat off"
    using b by (intro unat_sub_u64) (simp add: word_nat)
  have len: "length ?r = unat (block_size (B b)) - unat off"
    using b by (simp add: rest_def length_window)
  show ?case
  proof (cases "unat sz \<le> length ?r")
    case True
    have adv: "read_pos N B b (off + of_nat (unat sz)) []"
      "?r = window (B b) (unat off) (unat sz) @ rest B b (off + of_nat (unat sz)) []"
      using rest_advance[OF Nil(1), of "unat sz"] True b len by auto
    have w: "window (B b) (unat off) (unat sz) = take (unat sz) ?r"
      "rest B b (off + of_nat (unat sz)) [] = drop (unat sz) ?r"
      using adv(2) b True len by (simp_all add: length_window)
    have "disk_read_file_loop d b off dst sz =
        Some (0, b, off + sz, dst @ take (unat sz) ?r, d1)"
      using d1 b av True len w(1)
      by (subst disk_read_file_loop.simps) (simp add: word_nat copy_from_buffer_def)
    then show ?thesis using d1 adv(1) w(2) True by auto
  next
    case False
    have "disk_read_file_loop d b off dst sz =
        Some (sz - (block_size (B b) - off), b, off, dst @ ?r, d1)"
      using d1 b av False len
      by (subst disk_read_file_loop.simps) (simp add: word_nat copy_from_buffer_def rest_def)
    moreover have "(of_nat (unat (block_size (B b) - off)) :: u64) = block_size (B b) - off"
      by simp
    then have "of_nat (length ?r) = block_size (B b) - off" by (simp only: av len)
    then have "sz - (block_size (B b) - off) = of_nat (unat sz - length ?r)"
      using False by (simp add: of_nat_diff)
    ultimately show ?thesis using d1 False Nil(1) by auto
  qed
next
  case (Cons c cs)
  let ?r = "rest B b off (c # cs)"
  have b: "length (B b) = 512" "unat off \<le> 512" "block_get_next (B b) = c" "c \<noteq> 0" "unat b < N"
    using Cons.prems(1) by (auto simp: read_pos_def)
  have pos: "read_pos N B c 8 cs" using Cons.prems(1) by (simp add: read_pos_def)
  have r: "?r = window (B b) (unat off) (512 - unat off) @ rest B c 8 cs"
    by (simp add: rest_def)
  obtain d1 where d1: "disk_read_block_buffer d b = Some d1" "disk_ok N d1"
      "block_buffer d1 = B b" "disk_block d1 = B"
    using dev.readE[OF Cons.prems(2) b(5)] Cons.prems(3) by auto
  have av: "unat (512 - off) = 512 - unat off"
    using b unat_sub_u64[of off 512] by (simp add: word_nat)
  show ?case
  proof (cases "unat sz \<le> 512 - unat off")
    case True
    have adv: "read_pos N B b (off + of_nat (unat sz)) (c # cs)"
      "?r = window (B b) (unat off) (unat sz) @ rest B b (off + of_nat (unat sz)) (c # cs)"
      using rest_advance[OF Cons.prems(1), of "unat sz"] True b by auto
    have w: "window (B b) (unat off) (unat sz) = take (unat sz) ?r"
      "rest B b (off + of_nat (unat sz)) (c # cs) = drop (unat sz) ?r" "unat sz \<le> length ?r"
      using b True unfolding adv(2) by (simp_all add: length_window)
    have "disk_read_file_loop d b off dst sz =
        Some (0, b, off + sz, dst @ take (unat sz) ?r, d1)"
      using d1 b av True w(1)
      by (subst disk_read_file_loop.simps) (simp add: word_nat copy_from_buffer_def)
    then show ?thesis using d1 adv(1) w by auto
  next
    case False
    let ?w = "window (B b) (unat off) (512 - unat off)"
    have step: "disk_read_file_loop d b off dst sz =
        disk_read_file_loop d1 c 8 (dst @ ?w) (sz - (512 - off))"
      using d1 b av False
      by (subst disk_read_file_loop.simps) (simp add: le_u64 copy_from_buffer_def)
    have sz: "unat (sz - (512 - off)) = unat sz - (512 - unat off)"
      using False av unat_sub_u64[of "512 - off" sz] by (simp add: word_nat)
    have w: "length ?w = 512 - unat off" using b by (simp add: length_window)
    have e: "unat (sz - (512 - off)) - length (rest B c 8 cs) = unat sz - length ?r"
      "take (unat (sz - (512 - off))) (rest B c 8 cs) = drop (512 - unat off) (take (unat sz) ?r)"
      "?w @ drop (512 - unat off) (take (unat sz) ?r) = take (unat sz) ?r"
      "unat (sz - (512 - off)) \<le> length (rest B c 8 cs) \<longleftrightarrow> unat sz \<le> length ?r"
      "drop (unat (sz - (512 - off))) (rest B c 8 cs) = drop (unat sz) ?r"
      using False by (auto simp: sz r w drop_take)
    have l: "last (b # c # cs) = last (c # cs)" "(if cs = [] then 8 else 8) = (8 :: u64)" by simp_all
    show ?thesis
      unfolding step using Cons.IH[OF pos d1(2,4), of "dst @ ?w" "sz - (512 - off)"]
      by (simp only: e append_assoc l not_le[symmetric] list.distinct if_False)
  qed
qed

lemma read_pos_start:
  assumes "fs_rep N d free files" and "(name, b # bs) \<in> set files"
  shows "read_pos N (disk_block d) b (24 + of_nat (length name)) bs"
    and "rest (disk_block d) b (24 + of_nat (length name)) bs = file_data (disk_block d) (name, b # bs)"
proof -
  note fb = fs_file_blocks[OF assms]
  note o = file_okD[OF fb(1)]
  have n: "length name \<le> 488" using o(1) by (simp add: name_ok_def)
  then have "unat (of_nat (24 + length name) :: u64) = 24 + length name"
    by (intro unat_of_nat_u64) simp
  then have u: "unat (24 + of_nat (length name) :: u64) = 24 + length name" by simp
  show "read_pos N (disk_block d) b (24 + of_nat (length name)) bs"
    using o fb(2) n by (simp add: read_pos_def u)
  show "rest (disk_block d) b (24 + of_nat (length name)) bs = file_data (disk_block d) (name, b # bs)"
    by (simp add: rest_def u file_data_def)
qed

end
