(* ===== verification/Disk_Create.thy ===== *)
theory Disk_Create
  imports Disk_Search
begin

text \<open>
  \<open>disk_create_file\<close>: on success the first free block becomes the only block of an empty file of
  the given name, inserted at its place in the sorted file list.
\<close>

section \<open>The insertion point\<close>

definition insert_file :: "toy_file \<Rightarrow> toy_file list \<Rightarrow> toy_file list" where
  "insert_file f files =
     takeWhile (\<lambda>g. fst g < fst f) files @ f # dropWhile (\<lambda>g. fst g < fst f) files"

lemma set_insert_file: "set (insert_file f files) = insert f (set files)"
proof -
  have "set files = set (takeWhile (\<lambda>g. fst g < fst f) files) \<union> set (dropWhile (\<lambda>g. fst g < fst f) files)"
    by (metis set_append takeWhile_dropWhile_id)
  then show ?thesis by (simp add: insert_file_def)
qed

lemma sorted_dropWhile_less:
  assumes "sorted_wrt (<) (map fst files)" and "(name :: u8 list) \<notin> fst ` set files"
    and "g \<in> set (dropWhile (\<lambda>g. fst g < name) files)"
  shows "name < fst g"
  using assms
proof (induction files)
  case Nil
  then show ?case by simp
next
  case (Cons f fs)
  show ?case
  proof (cases "fst f < name")
    case True
    with Cons show ?thesis by simp
  next
    case False
    with Cons.prems(2) have "name < fst f" by auto
    with Cons.prems(1,3) False show ?thesis by (auto dest: order.strict_trans)
  qed
qed

lemma sorted_insert_at:
  "sorted_wrt (<) (xs @ ys) \<Longrightarrow> (\<And>x. x \<in> set xs \<Longrightarrow> x < a) \<Longrightarrow> (\<And>y. y \<in> set ys \<Longrightarrow> a < y) \<Longrightarrow>
   sorted_wrt (<) (xs @ a # ys)"
  by (auto simp: sorted_wrt_append)

lemma sorted_insert_file:
  assumes "sorted_wrt (<) (map fst files)" and "fst f \<notin> fst ` set files"
  shows "sorted_wrt (<) (map fst (insert_file f files))"
  unfolding insert_file_def map_append list.map
proof (rule sorted_insert_at)
  show "sorted_wrt (<) (map fst (takeWhile (\<lambda>g. fst g < fst f) files) @
      map fst (dropWhile (\<lambda>g. fst g < fst f) files))"
    using assms(1) by (metis map_append takeWhile_dropWhile_id)
  show "x < fst f" if "x \<in> set (map fst (takeWhile (\<lambda>g. fst g < fst f) files))" for x
    using that by (auto dest: set_takeWhileD)
  show "fst f < y" if "y \<in> set (map fst (dropWhile (\<lambda>g. fst g < fst f) files))" for y
    using that sorted_dropWhile_less[OF assms] by auto
qed

lemma mset_concat_insert:
  "set (concat (map snd (insert_file f files))) = set (snd f) \<union> set (concat (map snd files))"
  by (auto simp: set_insert_file)

lemma distinct_insert_file:
  "distinct (concat (map snd (insert_file f files))) \<longleftrightarrow>
     distinct (snd f) \<and> distinct (concat (map snd files)) \<and>
     set (snd f) \<inter> set (concat (map snd files)) = {}"
proof -
  let ?pre = "takeWhile (\<lambda>g. fst g < fst f) files" and ?post = "dropWhile (\<lambda>g. fst g < fst f) files"
  have "concat (map snd files) = concat (map snd ?pre) @ concat (map snd ?post)"
    by (metis concat_append map_append takeWhile_dropWhile_id)
  then show ?thesis by (auto simp: insert_file_def)
qed

lemma heads_insert_file:
  "heads (insert_file f files) =
     heads (takeWhile (\<lambda>g. fst g < fst f) files) @ hd (snd f) #
     heads (dropWhile (\<lambda>g. fst g < fst f) files)"
  by (simp add: insert_file_def)

lemma heads_split:
  "heads files = heads (takeWhile P files) @ heads (dropWhile P files)"
  by (metis map_append takeWhile_dropWhile_id)

section \<open>The search loop\<close>

lemma create_file_loop:
  assumes "sorted_wrt (<) (map fst fs)"
    and "\<And>f. f \<in> set fs \<Longrightarrow> file_ok B f \<and> unat (hd (snd f)) < N"
  shows "disk_ok N d \<Longrightarrow> disk_block d = B \<Longrightarrow> dir.linked B x (heads fs) \<Longrightarrow>
    \<exists>d'. disk_create_file_loop d name prev x =
        Some (if name \<in> fst ` set fs then None
          else Some (previous_of name fs prev, list_head (heads (dropWhile (\<lambda>f. fst f < name) fs))),
          d') \<and>
      disk_ok N d' \<and> disk_block d' = B"
  using assms
proof (induction fs arbitrary: d x prev)
  case Nil
  then show ?case
    by (subst disk_create_file_loop.simps) (simp add: previous_of_def)
next
  case (Cons f fs)
  obtain fname bs where f: "f = (fname, bs)" by (cases f)
  have fok: "file_ok B f" "unat (hd bs) < N" using Cons.prems(5)[of f] f by auto
  have link: "x = hd bs" "x \<noteq> 0" "dir.linked B (next_file (B x)) (heads fs)"
    using Cons.prems(3) f by auto
  obtain d1 where d1: "disk_read_block_buffer d x = Some d1" "disk_ok N d1"
      "block_buffer d1 = B x" "disk_block d1 = B"
    using dev.readE[OF Cons.prems(1), of x] link fok Cons.prems(2) by metis
  have len: "length (B (hd bs)) = 512" using dev.length_buf d1 link by metis
  have cmp: "disk_compare_file_name (B x) name = Some (name_order fname name)"
    using disk_compare_file[of B fname bs name] len fok f link by simp
  have step: "disk_create_file_loop d name prev x =
      (if fname = name then Some (None, d1) else if name < fname then Some (Some (prev, x), d1)
       else disk_create_file_loop d1 name x (next_file (B x)))"
    using link(2) d1 cmp by (subst disk_create_file_loop.simps) (auto simp: name_order_def)
  show ?case
  proof (cases "fname < name")
    case True
    have "\<exists>d'. disk_create_file_loop d1 name x (next_file (B x)) =
        Some (if name \<in> fst ` set fs then None
          else Some (previous_of name fs x, list_head (heads (dropWhile (\<lambda>f. fst f < name) fs))), d') \<and>
        disk_ok N d' \<and> disk_block d' = B"
      using Cons.IH[OF d1(2,4) link(3)] Cons.prems(4,5) by simp
    moreover have "fname \<noteq> name" "\<not> name < fname" "name \<noteq> fname" using True by auto
    moreover have "previous_of name (f # fs) prev = previous_of name fs x"
      using True link(1) by (simp add: f previous_of_def)
    ultimately show ?thesis
      using True unfolding step by (cases "name \<in> fst ` set fs") (simp_all add: f)
  next
    case False
    then have "fname \<noteq> name \<Longrightarrow> name \<notin> fst ` set fs"
      using Cons.prems(4) f by force
    then show ?thesis unfolding step using False d1 link(1)
      by (auto simp: f previous_of_def)
  qed
qed

section \<open>Linking the new file\<close>

definition new_file_block :: "u8 list \<Rightarrow> u8 list \<Rightarrow> u64 \<Rightarrow> u8 list" where
  "new_file_block x name nb =
     blit (set_name_length (set_next_file (set_block_size x (24 + of_nat (length name))) nb)
       (of_nat (length name))) 24 name"

lemma new_file_block_fields:
  assumes "length x = 512" and "length name \<le> 488"
  shows "length (new_file_block x name nb) = 512"
    and "block_size (new_file_block x name nb) = 24 + of_nat (length name)"
    and "next_file (new_file_block x name nb) = nb"
    and "name_length (new_file_block x name nb) = of_nat (length name)"
    and "window (new_file_block x name nb) 24 (length name) = name"
  using assms
  by (simp_all add: new_file_block_def block_fields byte_lists block_size_def set_block_size_def)

lemma block_get_next_small: "unat (block_size b) \<le> 512 \<Longrightarrow> block_get_next b = 0"
  by (simp add: block_get_next_0)

lemma unat_24_length: "n \<le> 488 \<Longrightarrow> unat (24 + of_nat n :: u64) = 24 + n"
  by (subst unat_add_u64) (simp_all add: unat_of_nat_u64)

definition linked_blocks ::
    "(u64 \<Rightarrow> u8 list) \<Rightarrow> u8 list \<Rightarrow> u64 \<Rightarrow> u64 \<Rightarrow> u64 \<Rightarrow> (u64 \<Rightarrow> u8 list)" where
  "linked_blocks B name new p nb =
     ((if p \<noteq> 0 then B(p := set_next_file (B p) new) else B)
       (new := new_file_block (B new) name nb))
       (0 := block_set_next (set_next_file (B 0) (if p \<noteq> 0 then next_file (B 0) else new))
              (block_get_next (B new)))"

lemma link_new_file_blocks:
  assumes ok: "disk_ok N d" and B: "disk_block d = B" and N: "1 \<le> N" "unat new < N" "unat p < N"
    and name: "length name \<le> 488" and ne: "new \<noteq> 0" "p \<noteq> new"
  shows "\<exists>d'. disk_link_new_file d name new (next_file (B 0)) p nb = Some d' \<and> disk_ok N d' \<and>
    disk_block d' = linked_blocks B name new p nb"
proof -
  let ?B1 = "if p \<noteq> 0 then B(p := set_next_file (B p) new) else B"
  let ?B2 = "?B1(new := new_file_block (B new) name nb)"
  let ?s = "block_set_next (set_next_file (B 0) (if p \<noteq> 0 then next_file (B 0) else new))
              (block_get_next (B new))"
  have len: "length (B new) = 512" "length (B 0) = 512" "length (B p) = 512"
    using dev.length_blk[OF ok] N B by auto
  obtain d1 where d1: "(if p \<noteq> 0 then do {
         self \<leftarrow> disk_read_block_buffer d p;
         disk_write_block_buffer (in_buffer (\<lambda>b. set_next_file b new) self) p
       } else Some d) = Some d1" "disk_ok N d1" "disk_block d1 = ?B1"
  proof (cases "p = 0")
    case True
    then show thesis using that ok B by simp
  next
    case False
    have "length (set_next_file (disk_block d p) new) = 512" using len B by (simp add: block_fields)
    from dev.read_modify_write[OF ok N(3), of "\<lambda>b. set_next_file b new", OF this]
    show thesis using that False B by auto
  qed
  have B1new: "?B1 new = B new" using ne by simp
  obtain d2 where d2: "disk_read_block_buffer d1 new = Some d2" "disk_ok N d2"
      "block_buffer d2 = B new" "disk_block d2 = ?B1"
    by (rule dev.readE[OF d1(2) N(2)]) (use that d1(3) B1new in \<open>simp only: simp_thms\<close>)
  let ?x = "set_name_length (set_next_file (set_block_size (B new) (24 + of_nat (length name))) nb)
       (of_nat (length name))"
  have x: "length ?x = 512" using len by (simp add: block_fields)
  have copy: "copy_to_buffer ?x 24 name = Some (new_file_block (B new) name nb)"
    using x name by (simp add: copy_to_buffer_def new_file_block_def)
  obtain d3 where d3: "disk_write_block_buffer
        (d2\<lparr>block_buffer := new_file_block (B new) name nb\<rparr>) new = Some d3" "disk_ok N d3"
      "disk_block d3 = ?B2"
    by (rule dev.writeE[OF d2(2) N(2) new_file_block_fields(1)[OF len(1) name]])
      (use that d2(4) in \<open>simp only: simp_thms\<close>)
  have super: "?B2 0 = B 0" "unat SUPER_BLOCK < N" using ne N by (auto simp: SUPER_BLOCK_def)
  obtain d4 where d4: "disk_read_block_buffer d3 SUPER_BLOCK = Some d4" "disk_ok N d4"
      "block_buffer d4 = B 0" "disk_block d4 = ?B2"
    by (rule dev.readE[OF d3(2) super(2)])
      (use that d3(3) super(1) in \<open>simp only: SUPER_BLOCK_def simp_thms\<close>)
  have ls: "length ?s = 512" using len by (simp add: block_fields)
  obtain d5 where d5: "disk_write_block_buffer (d4\<lparr>block_buffer := ?s\<rparr>) SUPER_BLOCK = Some d5"
      "disk_ok N d5" "disk_block d5 = ?B2(0 := ?s)"
    by (rule dev.writeE[OF d4(2) super(2) ls]) (use that d4(4) in \<open>simp only: SUPER_BLOCK_def simp_thms\<close>)
  have "disk_link_new_file d name new (next_file (B 0)) p nb = Some d5"
    unfolding disk_link_new_file_def Let_def
    by (simp add: d1(1) d2 copy d3(1) d4 d5(1) disk_flush_blocks_def)
  then show ?thesis using d5 by (auto simp: linked_blocks_def)
qed

section \<open>The representation after creation\<close>

lemma file_hd_unique:
  assumes "space_ok N free files" and "f \<in> set files" and "g \<in> set files"
    and "hd (snd g) \<in> set (snd f)" and "snd g \<noteq> []"
  shows "f = g"
  using chains_disjoint[of files f g "hd (snd g)"] assms by (simp add: space_ok_def)

lemma space_chains:
  "space_ok N free files \<Longrightarrow> b \<in> set (concat (map snd files)) \<Longrightarrow> b \<noteq> 0 \<and> unat b < N"
  by (auto simp: space_ok_def)

lemma file_chain_distinct:
  "space_ok N free files \<Longrightarrow> f \<in> set files \<Longrightarrow> distinct (snd f)"
  by (force simp: space_ok_def dest: split_list)

text \<open>Replacing \<open>B\<close> by \<open>B'\<close> keeps every file if only first blocks of files change among the
  blocks in use, and those as \<open>same_file_block\<close> allows.\<close>

lemma files_view:
  assumes "fs_ok N B free files" and "f \<in> set files"
    and "\<And>b. b \<in> set (snd f) \<Longrightarrow> b \<notin> set (heads files) \<Longrightarrow> B' b = B b"
    and "\<And>b. b \<in> set (snd f) \<Longrightarrow> b \<in> set (heads files) \<Longrightarrow> same_file_block (B' b) (B b)"
  shows "file_ok B' f" and "file_data B' f = file_data B f"
proof -
  note r = fs_okD[OF assms(1)]
  have ok: "file_ok B f" using r(4) assms(2) by (simp add: list_all_iff)
  note ne = file_ok_nonempty[OF ok]
  have hd: "same_file_block (B' (hd (snd f))) (B (hd (snd f)))"
    using assms(2) ne by (intro assms(4)) auto
  have tl: "B' b = B b" if b: "b \<in> set (tl (snd f))" for b
  proof (rule assms(3))
    show bf: "b \<in> set (snd f)" using b ne list.set_sel(2) by metis
    show "b \<notin> set (heads files)"
    proof
      assume "b \<in> set (heads files)"
      then obtain g where g: "g \<in> set files" "b = hd (snd g)" by auto
      then have "file_ok B g" using r(4) by (simp add: list_all_iff)
      then have "snd g \<noteq> []" using file_ok_nonempty by blast
      then have "f = g" using file_hd_unique[OF r(6) assms(2) g(1)] bf g(2) by simp
      then have "hd (snd f) \<in> set (tl (snd f))" using b g by simp
      moreover have "distinct (snd f)" using file_chain_distinct[OF r(6) assms(2)] .
      ultimately show False using ne by (cases "snd f") auto
    qed
  qed
  show "file_ok B' f" and "file_data B' f = file_data B f"
    using file_view[OF ok hd tl] by simp_all
qed

lemma previous_of_0:
  "previous_of name files 0 = last (0 # heads (takeWhile (\<lambda>f. fst f < name) files))"
  by (simp add: previous_of_def)

lemma previous_of_member:
  "previous_of name files 0 \<noteq> 0 \<Longrightarrow> previous_of name files 0 \<in> set (heads files)"
proof -
  assume "previous_of name files 0 \<noteq> 0"
  then have "heads (takeWhile (\<lambda>f. fst f < name) files) \<noteq> []" by (auto simp: previous_of_def)
  then have "previous_of name files 0 \<in> set (heads (takeWhile (\<lambda>f. fst f < name) files))"
    unfolding previous_of_0 by (metis last_ConsR last_in_set)
  moreover have "set (takeWhile (\<lambda>f. fst f < name) files) \<subseteq> set files"
    by (auto dest: set_takeWhileD)
  ultimately show ?thesis by auto
qed

lemma heads_in_chains:
  assumes "list_all (file_ok B) files"
  shows "set (heads files) \<subseteq> set (concat (map snd files))"
proof
  fix b assume "b \<in> set (heads files)"
  then obtain f where f: "f \<in> set files" "b = hd (snd f)" by auto
  with assms have "file_ok B f" by (simp add: list_all_iff)
  with f show "b \<in> set (concat (map snd files))" using file_ok_nonempty[of B f] by auto
qed

lemma distinct_heads:
  "distinct (concat (map snd files)) \<Longrightarrow> list_all (file_ok B) files \<Longrightarrow> distinct (heads files)"
proof (induction files)
  case Nil
  then show ?case by simp
next
  case (Cons f fs)
  then have "hd (snd f) \<in> set (snd f)" using file_ok_nonempty[of B f] by simp
  moreover have "set (heads fs) \<subseteq> set (concat (map snd fs))"
    using heads_in_chains[of B fs] Cons.prems by simp
  ultimately show ?case using Cons by auto
qed

lemma linked_blocks_at:
  assumes "new \<noteq> 0" and "p \<noteq> new"
  shows "linked_blocks B name new p nb 0 =
      block_set_next (set_next_file (B 0) (if p \<noteq> 0 then next_file (B 0) else new))
        (block_get_next (B new))"
    and "linked_blocks B name new p nb new = new_file_block (B new) name nb"
    and "p \<noteq> 0 \<Longrightarrow> linked_blocks B name new p nb p = set_next_file (B p) new"
    and "b \<noteq> 0 \<Longrightarrow> b \<noteq> new \<Longrightarrow> b \<noteq> p \<Longrightarrow> linked_blocks B name new p nb b = B b"
  using assms by (auto simp: linked_blocks_def)

lemma list_head_member: "list_head bs \<noteq> 0 \<Longrightarrow> list_head bs \<in> set bs"
  by (cases bs) auto

lemma block_set_next_file_fields [block_fields]:
  assumes "length b = 512"
  shows "next_file (block_set_next b x) = next_file b"
    and "name_length (block_set_next b x) = name_length b"
    and "block_get_next (set_next_file b y) = block_get_next b"
  using assms by (simp_all add: block_set_next_def block_get_next_def block_fields)

lemma fs_ok_create:
  assumes fs: "fs_ok N B (new # free) files" and N: "N \<le> 18014398509481984"
    and len: "\<And>b. unat b < N \<Longrightarrow> length (B b) = 512"
    and name: "name_ok name" "name \<notin> fst ` set files"
    and p: "p = previous_of name files 0"
    and nx: "nb = list_head (heads (dropWhile (\<lambda>f. fst f < name) files))"
  defines "B' \<equiv> linked_blocks B name new p nb"
  shows "fs_ok N B' free (insert_file (name, [new]) files)"
    and "f \<in> set files \<Longrightarrow> file_data B' f = file_data B f"
    and "file_data B' (name, [new]) = []"
proof -
  note r = fs_okD[OF fs]
  let ?pre = "takeWhile (\<lambda>f. fst f < name) files" and ?post = "dropWhile (\<lambda>f. fst f < name) files"
  have new: "new \<noteq> 0" "unat new < N" "new \<notin> set free" "new \<notin> set (concat (map snd files))"
    using r(6) by (auto simp: space_ok_def)
  have hin: "set (heads files) \<subseteq> set (concat (map snd files))" using heads_in_chains[OF r(4)] .
  have pin: "p \<noteq> 0 \<Longrightarrow> p \<in> set (heads files)" using previous_of_member p by simp
  have pnew: "p \<noteq> new" using pin hin new by auto
  have pN: "unat p < N"
  proof (cases "p = 0")
    case False
    with pin hin have "p \<in> set (concat (map snd files))" by blast
    then show ?thesis using space_chains[OF r(6)] by blast
  qed (use r(1) in simp)
  have l: "length (B 0) = 512" "length (B new) = 512" "length (B p) = 512"
    using len new pN r(1) by auto
  have n488: "length name \<le> 488" using name by (simp add: name_ok_def)
  note at = linked_blocks_at[OF new(1) pnew, where B = B and name = name and nb = nb, folded B'_def]
  have view: "file_ok B' f" "file_data B' f = file_data B f" if "f \<in> set files" for f
  proof -
    have fb: "b \<noteq> 0" "b \<noteq> new" if "b \<in> set (snd f)" for b
      using that space_file[OF r(6) \<open>f \<in> set files\<close>] new(4) \<open>f \<in> set files\<close> by auto
    have 1: "B' b = B b" if "b \<in> set (snd f)" "b \<notin> set (heads files)" for b
      using that at(4) fb pin by metis
    have 2: "same_file_block (B' b) (B b)" if "b \<in> set (snd f)" "b \<in> set (heads files)" for b
      using at(3,4) fb[OF that(1)] same_file_block_next_file[OF l(3)] same_file_block_refl
      by (cases "b = p") metis+
    show "file_ok B' f" and "file_data B' f = file_data B f"
      using files_view[OF fs \<open>f \<in> set files\<close>, of B'] 1 2 by blast+
  qed
  have nf: "block_size (B' new) = 24 + of_nat (length name)"
    unfolding at(2) using new_file_block_fields[OF l(2) n488] by simp
  then have sz: "unat (block_size (B' new)) = 24 + length name"
    by (simp add: unat_24_length[OF n488])
  have newok: "file_ok B' (name, [new])"
    using name new(1) sz n488 new_file_block_fields[OF l(2) n488]
    by (simp add: file_ok_def at(2) block_get_next_small)
  show data: "file_data B' (name, [new]) = []" using sz by (simp add: file_data_def)
  show "f \<in> set files \<Longrightarrow> file_data B' f = file_data B f" by (rule view(2))
  have nfree: "block_get_next (B new) = list_head free"
    using r(2) path_end_head by auto
  have nfN: "unat (list_head free) < N"
    using list_head_member[of free] space_free[OF r(6)] r(1) by (cases "list_head free = 0") auto
  have same: "B' b = B b" if "b \<in> set free" for b
  proof -
    have "b \<noteq> 0" "b \<noteq> new" "b \<notin> set (concat (map snd files))"
      using that new(3) r(6) by (auto simp: space_ok_def)
    moreover have "b \<noteq> p" using pin hin calculation by auto
    ultimately show ?thesis using at(4) by simp
  qed
  have free': "chain.linked B' (block_get_next (B' 0)) ([] @ free)"
  proof (rule chain.remove_after)
    show "chain.linked B (block_get_next (B 0)) ([] @ new # free)" using r(2) by simp
    show "distinct ([] @ new # free)" using r(6) by (simp add: space_ok_def)
    show "block_get_next (B' (last (0 # []))) = block_get_next (B new)"
      using at(1) l(1) nfN N by (simp add: nfree block_get_set_next block_fields)
    fix b assume b: "b \<in> set (0 # [] @ free)" "b \<noteq> last (0 # [])"
    then show "block_get_next (B' b) = block_get_next (B b)" using same by simp
  qed
  have dir': "dir.linked B' (next_file (B' 0)) (heads ?pre @ new # heads ?post)"
  proof (rule dir.insert_after)
    show "dir.linked B (next_file (B 0)) (heads ?pre @ heads ?post)"
      using r(3) heads_split[of files "\<lambda>f. fst f < name"] by simp
    have "distinct (heads files)" using r(4,6) distinct_heads by (simp add: space_ok_def)
    then show "distinct (heads ?pre @ heads ?post)"
      using heads_split[of files "\<lambda>f. fst f < name"] by simp
    show "new \<notin> set (heads ?pre @ heads ?post)"
      using heads_split[of files "\<lambda>f. fst f < name"] hin new(4) by auto
    show "new \<noteq> 0" by fact
    have last: "last (0 # heads ?pre) = p" by (simp add: p previous_of_0)
    show "next_file (B' (last (0 # heads ?pre))) = new"
      unfolding last using at(1,3) l by (cases "p = 0") (simp_all add: block_fields)
    show "next_file (B' new) = list_head (heads ?post)"
      using at(2) new_file_block_fields[OF l(2) n488] nx by simp
    fix b assume b: "b \<in> set (0 # heads ?pre @ heads ?post)" "b \<noteq> last (0 # heads ?pre)"
    show "next_file (B' b) = next_file (B b)"
    proof (cases "b = 0")
      case True
      then show ?thesis using b(2) at(1) l unfolding last by (simp add: block_fields)
    next
      case False
      then have "b \<noteq> new" using b(1) \<open>new \<notin> set (heads ?pre @ heads ?post)\<close> by auto
      then show ?thesis using False b(2) at(4) unfolding last by simp
    qed
  qed
  have "list_all (file_ok B') (insert_file (name, [new]) files)"
    using view(1) newok by (auto simp: list_all_iff set_insert_file)
  moreover have "sorted_wrt (<) (map fst (insert_file (name, [new]) files))"
    using sorted_insert_file[OF r(5)] name(2) by simp
  moreover have "space_ok N free (insert_file (name, [new]) files)"
    using r(6) unfolding space_ok_def distinct_append set_append mset_concat_insert
      distinct_insert_file by auto
  moreover have "free_ok B' free"
    using r(7) same by (simp add: free_ok_def list_all_iff)
  ultimately show "fs_ok N B' free (insert_file (name, [new]) files)"
    using r(1) free' dir' by (simp add: fs_ok_def heads_insert_file)
qed

section \<open>disk_create_file\<close>

lemma name_ok_check:
  "name_ok name \<longleftrightarrow> \<not> (length name = 0 \<or> length name > 488) \<and> \<not> list_ex (\<lambda>c. c \<le> 32 \<or> c \<ge> 127) name"
  by (auto simp: name_ok_def list_all_iff list_ex_iff not_le Suc_le_eq)

lemma create_invalid:
  "\<not> name_ok name \<Longrightarrow> disk_create_file d name r = Some (INVALID_ARGUMENT, r, d)"
  by (auto simp: disk_create_file_def name_ok_check)

lemma create_file_start:
  assumes "fs_rep N d free files" and "name_ok name"
  obtains d1 where "disk_ok N d1" and "disk_block d1 = disk_block d"
    and "disk_create_file d name r =
      (if free = [] then Some (OUT_OF_MEMORY, r, d1)
       else if name \<in> fst ` set files then Some (ALREADY_EXISTS, r, d1)
       else do {
         self \<leftarrow> disk_link_new_file d1 name (hd free) (next_file (disk_block d1 0))
           (previous_of name files 0) (list_head (heads (dropWhile (\<lambda>f. fst f < name) files)));
         Some (OK, hd free, self)
       })"
proof -
  let ?B = "disk_block d"
  note ok = fs_repD(1)[OF assms(1)] and r = fs_okD[OF fs_repD(2)[OF assms(1)]]
  have "unat SUPER_BLOCK < N" using r(1) by (simp add: SUPER_BLOCK_def)
  then obtain d0 where d0: "disk_read_block_buffer d SUPER_BLOCK = Some d0" "disk_ok N d0"
      "block_buffer d0 = ?B 0" "disk_block d0 = ?B"
    using dev.readE[OF ok] by (metis SUPER_BLOCK_def)
  have head: "block_get_next (?B 0) = list_head free" using r(2) path_end_head by blast
  have free0: "list_head free = 0 \<longleftrightarrow> free = []" using path_nonzero[OF r(2)] by (cases free) auto
  have "\<And>f. f \<in> set files \<Longrightarrow> file_ok ?B f \<and> unat (hd (snd f)) < N"
    using r(4,6) file_ok_nonempty space_file by (meson list_all_iff)
  from create_file_loop[OF r(5) this d0(2,4) r(3)] obtain d1 where d1:
    "disk_create_file_loop d0 name 0 (next_file (?B 0)) =
      Some (if name \<in> fst ` set files then None
        else Some (previous_of name files 0,
          list_head (heads (dropWhile (\<lambda>f. fst f < name) files))), d1)"
    "disk_ok N d1" "disk_block d1 = ?B"
    by blast
  have chk: "length name \<noteq> 0" "\<not> length name > 488" "\<not> list_ex (\<lambda>c. c \<le> 32 \<or> c \<ge> 127) name"
    using assms(2) by (auto simp: name_ok_check)
  show thesis
  proof (cases "free = []")
    case True
    then show thesis using that[of d0] d0 head chk by (simp add: disk_create_file_def)
  next
    case False
    then have "list_head free = hd free" by (cases free) auto
    with False show thesis using that[of d1] d0 d1 head chk free0
      by (cases "name \<in> fst ` set files") (simp_all add: disk_create_file_def Let_def)
  qed
qed

lemma fs_map_insert:
  assumes "name \<notin> fst ` set files" and "\<And>f. f \<in> set files \<Longrightarrow> file_data B' f = file_data B f"
    and "disk_block d = B" and "disk_block d' = B'" and "file_data B' (name, bs) = v"
    and "sorted_wrt (<) (map fst files)"
  shows "fs_map d' (insert_file (name, bs) files) = (fs_map d files)(name \<mapsto> v)"
proof (rule ext)
  fix n
  have s: "sorted_wrt (<) (map fst (insert_file (name, bs) files))"
    using sorted_insert_file[OF assms(6), of "(name, bs)"] assms(1) by simp
  show "fs_map d' (insert_file (name, bs) files) n = ((fs_map d files)(name \<mapsto> v)) n"
  proof (cases "n \<in> insert name (fst ` set files)")
    case True
    then have "n \<in> fst ` set (insert_file (name, bs) files)" by (simp add: set_insert_file)
    then obtain f where f: "f \<in> set (insert_file (name, bs) files)" "fst f = n" by blast
    have "fs_map d' (insert_file (name, bs) files) n = Some (file_data B' f)"
      using fs_map_file[OF s f(1)] f(2) assms(4) by simp
    moreover have "((fs_map d files)(name \<mapsto> v)) n = Some (file_data B' f)"
    proof (cases "n = name")
      case True
      then have "f = (name, bs)"
        using file_names_inj[OF s f(1), of "(name, bs)"] f(2) by (simp add: set_insert_file)
      then show ?thesis using True assms(5) by simp
    next
      case False
      then have "f \<in> set files" using f by (auto simp: set_insert_file)
      then show ?thesis using False fs_map_file[OF assms(6), of f d] f(2) assms(2,3) by simp
    qed
    ultimately show ?thesis by simp
  next
    case False
    then have "n \<notin> dom (fs_map d' (insert_file (name, bs) files))" "n \<notin> dom (fs_map d files)" "n \<noteq> name"
      by (auto simp: fs_map_dom set_insert_file)
    then show ?thesis by (simp add: domIff)
  qed
qed

lemma create_file_rep:
  assumes "fs_rep N d (new # free) files" and "name_ok name" and "name \<notin> fst ` set files"
  shows "\<exists>d'. disk_create_file d name r = Some (OK, new, d') \<and>
    fs_rep N d' free (insert_file (name, [new]) files) \<and>
    fs_map d' (insert_file (name, [new]) files) = (fs_map d files)(name \<mapsto> [])"
proof -
  let ?p = "previous_of name files 0"
    and ?nb = "list_head (heads (dropWhile (\<lambda>f. fst f < name) files))"
  note ok = fs_repD(1)[OF assms(1)] and fs = fs_repD(2)[OF assms(1)]
  note r = fs_okD[OF fs]
  obtain d1 where d1: "disk_ok N d1" "disk_block d1 = disk_block d"
    "disk_create_file d name r = do {
         self \<leftarrow> disk_link_new_file d1 name new (next_file (disk_block d 0)) ?p ?nb;
         Some (OK, new, self)
       }"
    by (rule create_file_start[OF assms(1,2), of r]) (use that assms(3) in simp)
  have new: "new \<noteq> 0" "unat new < N" "new \<notin> set (concat (map snd files))"
    using r(6) by (auto simp: space_ok_def)
  have pin: "?p \<noteq> 0 \<Longrightarrow> ?p \<in> set (concat (map snd files))"
    using previous_of_member heads_in_chains[OF r(4)] by blast
  have p: "?p \<noteq> new"
  proof
    assume e: "?p = new"
    then have "?p \<noteq> 0" using new(1) by simp
    from pin[OF this] e have "new \<in> set (concat (map snd files))" by simp
    then show False using new(3) by blast
  qed
  have pN: "unat ?p < N"
  proof (cases "?p = 0")
    case True
    then show ?thesis using r(1) by simp
  next
    case False
    then show ?thesis using pin space_chains[OF r(6)] by blast
  qed
  have n488: "length name \<le> 488" using assms(2) by (simp add: name_ok_def)
  obtain d' where d': "disk_link_new_file d1 name new (next_file (disk_block d 0)) ?p ?nb = Some d'"
    "disk_ok N d'" "disk_block d' = linked_blocks (disk_block d) name new ?p ?nb"
    using link_new_file_blocks[OF d1(1,2) r(1) new(2) pN n488 new(1) p] by blast
  have N: "N \<le> 18014398509481984" using ok by (simp add: disk_ok_def)
  note cr = fs_ok_create[OF fs N dev.length_blk[OF ok] assms(2,3) refl refl]
  have "fs_rep N d' free (insert_file (name, [new]) files)"
    using d' cr(1) by (simp add: fs_rep_def)
  moreover have "fs_map d' (insert_file (name, [new]) files) = (fs_map d files)(name \<mapsto> [])"
    by (rule fs_map_insert[OF assms(3) _ refl d'(3) _ r(5)]) (use cr in auto)
  ultimately show ?thesis using d1(3) d'(1) by simp
qed

lemma create_file_fails:
  assumes "fs_rep N d free files"
    and "\<not> name_ok name \<or> free = [] \<or> fs_map d files name \<noteq> None"
  shows "\<exists>d'. disk_create_file d name r =
      Some (if \<not> name_ok name then INVALID_ARGUMENT else if free = [] then OUT_OF_MEMORY
        else ALREADY_EXISTS, r, d') \<and>
    disk_ok N d' \<and> disk_block d' = disk_block d"
proof (cases "name_ok name")
  case True
  have e: "fs_map d files name \<noteq> None \<longleftrightarrow> name \<in> fst ` set files"
    using fs_map_dom[of d files] by blast
  obtain d1 where d1: "disk_ok N d1" "disk_block d1 = disk_block d"
    "disk_create_file d name r =
      (if free = [] then Some (OUT_OF_MEMORY, r, d1)
       else if name \<in> fst ` set files then Some (ALREADY_EXISTS, r, d1)
       else do {
         self \<leftarrow> disk_link_new_file d1 name (hd free) (next_file (disk_block d1 0))
           (previous_of name files 0) (list_head (heads (dropWhile (\<lambda>f. fst f < name) files)));
         Some (OK, hd free, self)
       })"
    by (rule create_file_start[OF assms(1) True, of r])
  then show ?thesis using assms(2) True e by auto
next
  case False
  then show ?thesis using create_invalid[OF False] fs_repD(1)[OF assms(1)] by simp
qed

end
