(* ===== verification/Disk_Append.thy ===== *)
theory Disk_Append
  imports Disk_Create
begin

text \<open>
  \<open>disk_write_file\<close>: appending to a file at its last block. With enough space the contents grow
  by exactly the bytes written; without, the code writes what fits, takes every free block and
  leaves 504 bytes of the last one as it found them.
\<close>

declare of_nat_diff [simp del]

section \<open>Splitting a chain\<close>

fun chain_front :: "(u64 \<Rightarrow> u8 list) \<Rightarrow> nat \<Rightarrow> u64 list \<Rightarrow> u8 list" where
  "chain_front B h [] = []"
| "chain_front B h (b # bs) = window (B b) h (512 - h) @ chain_front B 8 bs"

lemma chain_front_cong: "(\<And>b. b \<in> set bs \<Longrightarrow> B b = B' b) \<Longrightarrow> chain_front B h bs = chain_front B' h bs"
  by (induction bs arbitrary: h) auto

abbreviation header_of :: "nat \<Rightarrow> u64 list \<Rightarrow> nat" where
  "header_of h pre \<equiv> (if pre = [] then h else 8)"

lemma chain_data_split:
  "chain_data B h (pre @ b # bs) = chain_front B h pre @ chain_data B (header_of h pre) (b # bs)"
proof (induction pre arbitrary: h)
  case Nil
  then show ?case by simp
next
  case (Cons a pre)
  then show ?case by (cases pre) auto
qed

lemma chain_ok_split:
  "chain_ok B h (pre @ b # bs) \<longleftrightarrow> chain_ok B (header_of h pre) (b # bs)"
proof (induction pre arbitrary: h)
  case Nil
  then show ?case by simp
next
  case (Cons a pre)
  then show ?case by (cases pre) auto
qed

text \<open>Moving the start of a chain inside its first block.\<close>

lemma chain_start_later:
  assumes "chain_ok B u (b # bs)" and "chain.linked B b (b # bs)" and "length (B b) = 512"
    and "h \<le> u" and "u \<le> 512"
  shows "chain_ok B h (b # bs)"
    and "chain_data B h (b # bs) = window (B b) h (u - h) @ chain_data B u (b # bs)"
proof -
  show "chain_ok B h (b # bs)" using assms(1,4) by (cases bs) auto
  show "chain_data B h (b # bs) = window (B b) h (u - h) @ chain_data B u (b # bs)"
  proof (cases bs)
    case Nil
    then have "u \<le> unat (block_size (B b))" "unat (block_size (B b)) \<le> 512"
      using assms last_block_size by auto
    then show ?thesis
      using Nil assms window_split[of "u - h" "unat (block_size (B b)) - h" h "B b"] by simp
  next
    case (Cons c cs)
    then show ?thesis using assms window_split[of "u - h" "512 - h" h "B b"] by simp
  qed
qed

section \<open>Filling one block\<close>

definition fill_last :: "u8 list \<Rightarrow> nat \<Rightarrow> u8 list \<Rightarrow> u8 list" where
  "fill_last x u src = blit (set_block_size x (of_nat (u + length src))) u src"

definition fill_next :: "u8 list \<Rightarrow> nat \<Rightarrow> u64 \<Rightarrow> u8 list \<Rightarrow> u8 list" where
  "fill_next x u n src = blit (block_set_next x n) u src"

lemma fill_last_fields:
  assumes "length x = 512" and "8 \<le> u" and "u + length src \<le> 512"
  shows "length (fill_last x u src) = 512"
    and "unat (block_size (fill_last x u src)) = u + length src"
    and "window (fill_last x u src) u (length src) = src"
    and "window (fill_last x u src) 8 (u - 8) = window x 8 (u - 8)"
proof -
  let ?y = "set_block_size x (of_nat (u + length src))"
  have y: "length ?y = 512" using assms by (simp add: block_fields)
  show "length (fill_last x u src) = 512" "window (fill_last x u src) u (length src) = src"
    using assms y by (simp_all add: fill_last_def byte_lists)
  have "block_size (fill_last x u src) = of_nat (u + length src)"
    using assms y unfolding fill_last_def block_size_def
    by (simp add: next_block_field_blit) (simp add: set_block_size_def block_fields)
  then show "unat (block_size (fill_last x u src)) = u + length src"
    using assms by (simp only: unat_of_nat_u64)
  show "window (fill_last x u src) 8 (u - 8) = window x 8 (u - 8)"
    using assms y by (simp add: fill_last_def window_blit_other)
      (simp add: set_block_size_def block_fields)
qed

lemma fill_next_fields:
  assumes "length x = 512" and "8 \<le> u" and "u + length src = 512" and "unat n + 512 < 18446744073709551616"
  shows "length (fill_next x u n src) = 512"
    and "block_get_next (fill_next x u n src) = n"
    and "window (fill_next x u n src) u (512 - u) = src"
    and "window (fill_next x u n src) 8 (u - 8) = window x 8 (u - 8)"
proof -
  have y: "length (block_set_next x n) = 512" using assms by (simp add: block_fields)
  show "length (fill_next x u n src) = 512" "window (fill_next x u n src) u (512 - u) = src"
    using assms y by (auto simp: fill_next_def byte_lists)
  show "block_get_next (fill_next x u n src) = n"
    using assms y block_get_set_next[OF assms(1,4)]
    by (auto simp: fill_next_def block_get_next_def next_block_field_blit split: if_splits)
  show "window (fill_next x u n src) 8 (u - 8) = window x 8 (u - 8)"
    using assms y by (simp add: fill_next_def window_blit_other)
      (simp add: block_set_next_def block_fields)
qed

section \<open>The write loop\<close>

text \<open>
  \<open>written B B' b u ks data\<close>: the chain that went on behind offset \<open>u\<close> of block \<open>b\<close> now continues
  over the blocks \<open>ks\<close> and holds \<open>data\<close> from that offset on; the rest of \<open>b\<close>, and every block
  outside the chain, is what it was.
\<close>

definition written :: "(u64 \<Rightarrow> u8 list) \<Rightarrow> (u64 \<Rightarrow> u8 list) \<Rightarrow> u64 \<Rightarrow> nat \<Rightarrow> u64 list \<Rightarrow> u8 list \<Rightarrow> bool"
  where
  "written B B' b u ks data \<longleftrightarrow>
     (\<forall>c. c \<notin> set (b # ks) \<longrightarrow> B' c = B c) \<and> chain.linked B' b (b # ks) \<and>
     chain_ok B' u (b # ks) \<and> chain_data B' u (b # ks) = data \<and>
     window (B' b) 8 (u - 8) = window (B b) 8 (u - 8)"

lemma written_stop:
  assumes "length (B b) = 512" and "8 \<le> u" and "u + length src \<le> 512" and "b \<noteq> 0"
  shows "written B (B(b := fill_last (B b) u src)) b u [] src"
  using fill_last_fields[OF assms(1-3)] assms
  by (simp add: written_def block_get_next_small)

lemma written_continue:
  assumes "length (B b) = 512" and "8 \<le> u" and "u + length src = 512" and "b \<noteq> 0"
    and "unat c + 512 < 18446744073709551616" and "b \<notin> set (c # ks)"
    and "written (B(b := fill_next (B b) u c src)) B' c 8 ks data"
  shows "written B B' b u (c # ks) (src @ data)"
proof -
  note f = fill_next_fields[OF assms(1-3,5)]
  have Bb: "B' b = fill_next (B b) u c src" using assms(6,7) by (simp add: written_def)
  show ?thesis using assms f Bb by (auto simp: written_def)
qed

lemma write_file_loop_step:
  assumes "disk_ok N d" and "disk_block d = B" and "block_buffer d = B b" and "unat b < N"
    and "8 \<le> u" and "u \<le> 512"
  shows "length src \<le> 512 - u \<Longrightarrow>
      \<exists>d'. disk_write_file_loop d b src (of_nat u) (of_nat (512 - u)) nf = Some (OK, b, nf, d') \<and>
        disk_ok N d' \<and> disk_block d' = B(b := fill_last (B b) u src)"
    and "length src < 18446744073709551616 \<Longrightarrow> \<not> length src \<le> 512 - u \<Longrightarrow> nf = 0 \<Longrightarrow>
      disk_write_file_loop d b src (of_nat u) (of_nat (512 - u)) nf = Some (OUT_OF_MEMORY, b, 0, d)"
    and "length src < 18446744073709551616 \<Longrightarrow> \<not> length src \<le> 512 - u \<Longrightarrow> nf \<noteq> 0 \<Longrightarrow>
      unat nf < N \<Longrightarrow> nf \<noteq> b \<Longrightarrow>
      \<exists>d'. disk_write_file_loop d b src (of_nat u) (of_nat (512 - u)) nf =
          disk_write_file_loop d' nf (drop (512 - u) src) (of_nat 8) (of_nat (512 - 8))
            (block_get_next (B nf)) \<and>
        disk_ok N d' \<and> disk_block d' = B(b := fill_next (B b) u nf (take (512 - u) src)) \<and>
        block_buffer d' = B nf"
proof -
  have len: "length (B b) = 512" using dev.length_blk assms(1,2,4) by blast
  have un: "unat (of_nat u :: u64) = u" "unat (of_nat (512 - u) :: u64) = 512 - u"
    using assms(6) by (simp_all add: unat_of_nat_u64)
  have guard: "(of_nat (length src) :: u64) \<le> of_nat (512 - u) \<longleftrightarrow> length src \<le> 512 - u"
    if "length src < 18446744073709551616"
    using that assms(6) unfolding le_u64 by (simp add: unat_of_nat_u64)
  {
    assume s: "length src \<le> 512 - u"
    have y: "length (set_block_size (B b) (of_nat (u + length src))) = 512"
      using len by (simp add: block_fields)
    have copy: "copy_to_buffer (set_block_size (B b) (of_nat u + of_nat (length src))) (of_nat u) src =
        Some (fill_last (B b) u src)"
      using y s assms(5,6) un by (simp add: copy_to_buffer_def fill_last_def)
    obtain d' where d': "disk_write_block_buffer (d\<lparr>block_buffer := fill_last (B b) u src\<rparr>) b = Some d'"
      "disk_ok N d'" "disk_block d' = B(b := fill_last (B b) u src)"
      by (rule dev.writeE[OF assms(1,4) fill_last_fields(1)[OF len assms(5)]])
        (use that s assms(2,6) in auto)
    show "\<exists>d'. disk_write_file_loop d b src (of_nat u) (of_nat (512 - u)) nf = Some (OK, b, nf, d') \<and>
        disk_ok N d' \<and> disk_block d' = B(b := fill_last (B b) u src)"
      using s guard copy d' assms(3) by (subst disk_write_file_loop.simps) simp
  }
  {
    assume l: "length src < 18446744073709551616" and s: "\<not> length src \<le> 512 - u" and z: "nf = 0"
    show "disk_write_file_loop d b src (of_nat u) (of_nat (512 - u)) nf = Some (OUT_OF_MEMORY, b, 0, d)"
      using s guard[OF l] z by (subst disk_write_file_loop.simps) simp
  }
  {
    assume l: "length src < 18446744073709551616" and s: "\<not> length src \<le> 512 - u" and z: "nf \<noteq> 0"
      and nf: "unat nf < N" "nf \<noteq> b"
    have nN: "unat nf + 512 < 18446744073709551616" using nf assms(1) by (simp add: disk_ok_def)
    have y: "length (block_set_next (B b) nf) = 512" using len by (simp add: block_fields)
    have t: "u + length (take (512 - u) src) = 512" using s assms(6) by simp
    have copy: "copy_to_buffer (block_set_next (B b) nf) (of_nat u) (take (512 - u) src) =
        Some (fill_next (B b) u nf (take (512 - u) src))"
      using y t un by (simp add: copy_to_buffer_def fill_next_def)
    obtain d1 where d1: "disk_write_block_buffer
          (d\<lparr>block_buffer := fill_next (B b) u nf (take (512 - u) src)\<rparr>) b = Some d1"
      "disk_ok N d1" "disk_block d1 = B(b := fill_next (B b) u nf (take (512 - u) src))"
      by (rule dev.writeE[OF assms(1,4) fill_next_fields(1)[OF len assms(5) t nN]])
        (use that assms(2) in auto)
    obtain d2 where d2: "disk_read_block_buffer d1 nf = Some d2" "disk_ok N d2"
      "block_buffer d2 = B nf" "disk_block d2 = disk_block d1"
      by (rule dev.readE[OF d1(2) nf(1)]) (use that d1(3) nf(2) in auto)
    have "disk_write_file_loop d b src (of_nat u) (of_nat (512 - u)) nf =
        disk_write_file_loop d2 nf (drop (512 - u) src) (of_nat 8) (of_nat (512 - 8))
          (block_get_next (B nf))"
      using s guard[OF l] z copy d1 d2 assms(3) un
      by (subst disk_write_file_loop.simps) simp
    then show "\<exists>d'. disk_write_file_loop d b src (of_nat u) (of_nat (512 - u)) nf =
          disk_write_file_loop d' nf (drop (512 - u) src) (of_nat 8) (of_nat (512 - 8))
            (block_get_next (B nf)) \<and>
        disk_ok N d' \<and> disk_block d' = B(b := fill_next (B b) u nf (take (512 - u) src)) \<and>
        block_buffer d' = B nf"
      using d1 d2 by auto
  }
qed

text \<open>The number of further blocks that \<open>n\<close> bytes need behind offset \<open>u\<close> of a block.\<close>

definition needed :: "nat \<Rightarrow> nat \<Rightarrow> nat" where
  "needed u n = (n - (512 - u) + 503) div 504"

lemma needed_0: "n \<le> 512 - u \<Longrightarrow> needed u n = 0"
  by (simp add: needed_def)

lemma needed_Suc:
  assumes "\<not> n \<le> 512 - u"
  shows "needed u n = Suc (needed 8 (n - (512 - u)))"
proof (cases "n - (512 - u) \<le> 504")
  case True
  define x where "x = n - (512 - u) - 1"
  have "n - (512 - u) + 503 = x + 504" "x < 504" using True assms by (auto simp: x_def)
  moreover have "needed 8 (n - (512 - u)) = 0" using True by (simp add: needed_0)
  ultimately show ?thesis by (simp add: needed_def)
next
  case False
  define x where "x = n - (512 - u) - 504"
  have "n - (512 - u) + 503 = (x + 503) + 504" "n - (512 - u) - (512 - 8) + 503 = x + 503"
    using False by (auto simp: x_def)
  then show ?thesis by (simp only: needed_def div_add_self2 Suc_eq_plus1)
qed

lemma needed_fits: "n \<le> (512 - u) + 504 * m \<Longrightarrow> needed u n \<le> m"
  by (simp add: needed_def)

definition write_result ::
    "(u64 \<times> u64 \<times> u64 \<times> disk) option \<Rightarrow> nat \<Rightarrow> (u64 \<Rightarrow> u8 list) \<Rightarrow> u64 \<Rightarrow> nat \<Rightarrow> u8 list \<Rightarrow> u64 list \<Rightarrow> bool"
  where
  "write_result res N B b u src free \<longleftrightarrow>
     (\<exists>k d'. k \<le> length free \<and> disk_ok N d' \<and>
       (if length src \<le> (512 - u) + 504 * length free
        then k = needed u (length src) \<and>
          res = Some (OK, last (b # take k free), list_head (drop k free), d') \<and>
          written B (disk_block d') b u (take k free) src
        else k = length free \<and> res = Some (OUT_OF_MEMORY, last (b # free), 0, d') \<and>
          (if free = [] then disk_block d' = B
           else written B (disk_block d') b u free
             (take ((512 - u) + 504 * (length free - 1)) src @ window (B (last free)) 8 504))))"

lemma write_result_cong: "res = res' \<Longrightarrow> write_result res' N B b u src free \<Longrightarrow> write_result res N B b u src free"
  by simp

lemma written_stale:
  assumes "chain.linked B c [c]" and "512 \<le> unat (block_size (B c))" and "length (B c) = 512"
  shows "written B B c 8 [] (window (B c) 8 504)"
proof -
  have "unat (block_size (B c)) = 512" using last_block_size[OF assms(1)] assms(2) by simp
  then show ?thesis using assms by (simp add: written_def)
qed

lemma write_result_continue:
  assumes len: "length (B b) = 512" and u: "8 \<le> u" "u \<le> 512" and b: "b \<noteq> 0"
    and c: "unat c + 512 < 18446744073709551616" "b \<notin> set (c # cs)"
    and s: "\<not> length src \<le> 512 - u"
    and link: "chain.linked B c (c # cs)" "free_ok B (c # cs)" "length (B c) = 512"
    and res: "write_result res N (B(b := fill_next (B b) u c (take (512 - u) src))) c 8
      (drop (512 - u) src) cs"
  shows "write_result res N B b u src (c # cs)"
proof -
  let ?B1 = "B(b := fill_next (B b) u c (take (512 - u) src))"
  have t: "u + length (take (512 - u) src) = 512" using s u by simp
  note cont = written_continue[of B b u "take (512 - u) src" c, OF len u(1) t b c(1)]
  from res obtain k d' where k: "k \<le> length cs" "disk_ok N d'" and
    r: "if length (drop (512 - u) src) \<le> (512 - 8) + 504 * length cs
        then k = needed 8 (length (drop (512 - u) src)) \<and>
          res = Some (OK, last (c # take k cs), list_head (drop k cs), d') \<and>
          written ?B1 (disk_block d') c 8 (take k cs) (drop (512 - u) src)
        else k = length cs \<and> res = Some (OUT_OF_MEMORY, last (c # cs), 0, d') \<and>
          (if cs = [] then disk_block d' = ?B1
           else written ?B1 (disk_block d') c 8 cs
             (take ((512 - 8) + 504 * (length cs - 1)) (drop (512 - u) src) @
              window (?B1 (last cs)) 8 504))"
    unfolding write_result_def by blast
  show ?thesis
  proof (cases "length src \<le> (512 - u) + 504 * length (c # cs)")
    case True
    then have "length (drop (512 - u) src) \<le> (512 - 8) + 504 * length cs" by simp
    note r' = r[unfolded if_P[OF this]]
    note ok = conjunct1[OF conjunct2[OF r']] conjunct2[OF conjunct2[OF r']]
    have "needed u (length src) = Suc k" using conjunct1[OF r'] s by (simp add: needed_Suc)
    note kn = this
    have "b \<notin> set (c # take k cs)" using c(2) by (auto dest: in_set_takeD)
    from cont[OF this ok(2)] have "written B (disk_block d') b u (c # take k cs) src" by simp
    then show ?thesis
      unfolding write_result_def using True ok(1) k kn
      by (intro exI[of _ "Suc k"] exI[of _ d']) simp
  next
    case False
    then have "\<not> length (drop (512 - u) src) \<le> (512 - 8) + 504 * length cs" using s by simp
    note r' = r[unfolded if_not_P[OF this]]
    note oom = conjunct1[OF conjunct2[OF r']] and w = conjunct2[OF conjunct2[OF r']]
    have "written ?B1 (disk_block d') c 8 cs
        (take (504 * length cs) (drop (512 - u) src) @ window (B (last (c # cs))) 8 504)"
    proof (cases "cs = []")
      case True
      have "chain.linked ?B1 c [c]" "?B1 c = B c" using link(1) True c(2) by auto
      with w True link(2,3) written_stale[of ?B1 c] show ?thesis
        by (simp add: free_ok_def)
    next
      case False
      then have "?B1 (last cs) = B (last cs)" using c(2) by auto
      moreover have "504 + 504 * (length cs - 1) = 504 * length cs" using False by (cases cs) auto
      ultimately show ?thesis using w False by (simp split: if_splits)
    qed
    from cont[OF c(2) this]
    have "written B (disk_block d') b u (c # cs)
        (take (512 - u + 504 * length cs) src @ window (B (last (c # cs))) 8 504)"
      by (simp add: take_add)
    then show ?thesis
      unfolding write_result_def using False oom k
      by (intro exI[of _ "Suc (length cs)"] exI[of _ d']) simp
  qed
qed

lemma write_file_loop:
  assumes "disk_ok N d" and "disk_block d = B" and "block_buffer d = B b" and "8 \<le> u" and "u \<le> 512"
    and "length src < 18446744073709551616" and "chain.linked B (list_head free) free"
    and "distinct (b # free)" and "blocks_ok N B (b # free)" and "b \<noteq> 0" and "free_ok B free"
  shows "write_result (disk_write_file_loop d b src (of_nat u) (of_nat (512 - u)) (list_head free))
    N B b u src free"
  using assms
proof (induction free arbitrary: d B b u src)
  case Nil
  have bN: "unat b < N" "length (B b) = 512" using Nil.prems(9) by auto
  show ?case
  proof (cases "length src \<le> 512 - u")
    case True
    then obtain d' where d': "disk_write_file_loop d b src (of_nat u) (of_nat (512 - u)) 0 =
        Some (OK, b, 0, d')" "disk_ok N d'" "disk_block d' = B(b := fill_last (B b) u src)"
      using write_file_loop_step(1)[OF Nil.prems(1-3) bN(1) Nil.prems(4,5)] by blast
    have "written B (disk_block d') b u [] src"
      using written_stop[of B b u src] bN(2) Nil.prems(4,10) True Nil.prems(5) d'(3) by simp
    then show ?thesis using True d' by (simp add: write_result_def needed_0)
  next
    case False
    then show ?thesis
      using write_file_loop_step(2)[OF Nil.prems(1-3) bN(1) Nil.prems(4,5,6)] Nil.prems(1,2)
      by (simp add: write_result_def)
  qed
next
  case (Cons c cs)
  have bN: "unat b < N" "length (B b) = 512" "unat c < N" "length (B c) = 512"
    using Cons.prems(9) by auto
  have c: "c \<noteq> b" "c \<noteq> 0" "b \<notin> set (c # cs)" "c \<notin> set cs" "chain.linked B c (c # cs)"
    "block_get_next (B c) = list_head cs"
    using Cons.prems(7,8) path_end_head by auto
  show ?case
  proof (cases "length src \<le> 512 - u")
    case True
    then obtain d' where d': "disk_write_file_loop d b src (of_nat u) (of_nat (512 - u)) c =
        Some (OK, b, c, d')" "disk_ok N d'" "disk_block d' = B(b := fill_last (B b) u src)"
      using write_file_loop_step(1)[OF Cons.prems(1-3) bN(1) Cons.prems(4,5)] by blast
    have "written B (disk_block d') b u [] src"
      using written_stop[of B b u src] bN(2) Cons.prems(4,10) True Cons.prems(5) d'(3)
      by simp
    then show ?thesis using True d' by (auto simp: write_result_def needed_0 intro!: exI[of _ 0])
  next
    case False
    let ?B1 = "B(b := fill_next (B b) u c (take (512 - u) src))"
    obtain d' where d': "disk_write_file_loop d b src (of_nat u) (of_nat (512 - u)) c =
          disk_write_file_loop d' c (drop (512 - u) src) (of_nat 8) (of_nat (512 - 8)) (list_head cs)"
      "disk_ok N d'" "disk_block d' = ?B1" "block_buffer d' = B c"
      using write_file_loop_step(3)[OF Cons.prems(1-3) bN(1) Cons.prems(4,5,6) False c(2) bN(3) c(1)] c(6)
      by auto
    have t: "u + length (take (512 - u) src) = 512" using False Cons.prems(5) by simp
    have nN: "unat c + 512 < 18446744073709551616"
      using bN(3) Cons.prems(1) by (simp add: disk_ok_def)
    have "write_result (disk_write_file_loop d' c (drop (512 - u) src) (of_nat 8) (of_nat (512 - 8))
        (list_head cs)) N ?B1 c 8 (drop (512 - u) src) cs"
    proof (rule Cons.IH)
      show "chain.linked ?B1 (list_head cs) cs"
        using c(3,5,6) by (intro chain.linked_update_other) auto
      show "blocks_ok N ?B1 (c # cs)"
        using Cons.prems(9) c(3) by (auto simp: blocks_ok_def list_all_iff)
      show "free_ok ?B1 cs"
        using Cons.prems(11) c(3) by (auto simp: free_ok_def list_all_iff)
    qed (use d' c Cons.prems in auto)
    from write_result_continue[OF bN(2) Cons.prems(4,5,10) nN c(3) False c(5) Cons.prems(11) bN(4) this]
    show ?thesis using d'(1) by simp
  qed
qed

end
