(* ===== verification/Disk_Write.thy ===== *)
theory Disk_Write
  imports Disk_Append
begin

text \<open>
  \<open>disk_write_file\<close> against the representation: which files and free blocks there are after it,
  and what the file holds.
\<close>

declare of_nat_diff [simp del]

lemma window_sub:
  assumes "window xs i n = window ys i n" and "i \<le> j" and "j + m \<le> i + n"
  shows "window xs j m = window ys j m"
proof -
  have "window zs j m = take m (drop (j - i) (window zs i n))" for zs :: "'a list"
    using assms(2,3) by (simp add: window_def drop_take min_def)
  then show ?thesis using assms(1) by metis
qed

section \<open>A longer chain\<close>

lemma header_of_bound: "chain_ok B h (pre @ [b]) \<Longrightarrow> header_of h pre \<le> unat (block_size (B b))"
  by (simp only: chain_ok_split) simp

text \<open>The chain of one file grows by blocks that were free; the superblock drops them.\<close>

lemma written_chain:
  assumes link: "chain.linked B x (pre @ [b])" and ok: "chain_ok B h (pre @ [b])"
    and w: "written B B' b (unat (block_size (B b))) ks data"
    and dis: "distinct (pre @ b # ks)" and len: "length (B' b) = 512" and h: "8 \<le> h"
  shows "chain.linked B' x (pre @ b # ks)" and "chain_ok B' h (pre @ b # ks)"
    and "chain_data B' h (pre @ b # ks) = chain_data B h (pre @ [b]) @ data"
proof -
  let ?u = "unat (block_size (B b))" and ?h = "header_of h pre"
  have same: "\<And>c. c \<in> set pre \<Longrightarrow> B' c = B c"
    using w dis by (auto simp: written_def)
  have w': "chain.linked B' b (b # ks)" "chain_ok B' ?u (b # ks)" "chain_data B' ?u (b # ks) = data"
    "window (B' b) 8 (?u - 8) = window (B b) 8 (?u - 8)"
    using w by (simp_all add: written_def)
  have p: "path (\<lambda>b. block_get_next (B b)) x pre b" "chain.linked B b [b]"
    using link by (auto simp: path_append)
  have u: "?h \<le> ?u" "?u \<le> 512"
    using header_of_bound[OF ok] last_block_size[OF p(2)] .
  have "path (\<lambda>b. block_get_next (B' b)) x pre b"
    using p(1) path_cong[of pre "\<lambda>b. block_get_next (B' b)" "\<lambda>b. block_get_next (B b)"] same by simp
  then show "chain.linked B' x (pre @ b # ks)"
    using w'(1) by (auto simp: path_append)
  note later = chain_start_later[OF w'(2,1) len u]
  show "chain_ok B' h (pre @ b # ks)"
    unfolding chain_ok_split[of B' h pre b ks] by (rule later)
  show "chain_data B' h (pre @ b # ks) = chain_data B h (pre @ [b]) @ data"
  proof -
    have "window (B' b) ?h (?u - ?h) = window (B b) ?h (?u - ?h)"
      by (rule window_sub[OF w'(4)]) (use h u in auto)
    moreover have "chain_front B' h pre = chain_front B h pre"
      by (rule chain_front_cong) (rule same)
    ultimately show ?thesis
      unfolding chain_data_split[of B' h pre b ks] chain_data_split[of B h pre b "[]"] later(2)
      using w'(3) by simp
  qed
qed

section \<open>The file system after a write\<close>

lemma fs_ok_append:
  assumes fs: "fs_ok N B (ks @ free) (as @ (name, pre @ [b]) # cs)"
    and w: "written B B' b (unat (block_size (B b))) ks data"
    and len: "length (B' b) = 512"
    and super: "next_file (B'' 0) = next_file (B 0)" "block_get_next (B'' 0) = list_head free"
    and others: "\<And>c. c \<noteq> 0 \<Longrightarrow> B'' c = B' c"
  shows "fs_ok N B'' free (as @ (name, pre @ b # ks) # cs)"
    and "file_data B'' (name, pre @ b # ks) = file_data B (name, pre @ [b]) @ data"
    and "\<And>f. f \<in> set as \<union> set cs \<Longrightarrow> file_data B'' f = file_data B f"
proof -
  note r = fs_okD[OF fs]
  have space: "distinct (ks @ free)" "distinct (pre @ [b])"
    "set (ks @ free) \<inter> set (pre @ [b]) = {}"
    "\<And>f. f \<in> set as \<union> set cs \<Longrightarrow> set (snd f) \<inter> set (pre @ b # ks) = {}"
    "0 \<notin> set (pre @ b # ks)" "0 \<notin> set free"
    "\<And>f. f \<in> set as \<union> set cs \<Longrightarrow> 0 \<notin> set (snd f)"
    using r(6) unfolding space_ok_def by auto
  let ?old = "(name, pre @ [b])" and ?new = "(name, pre @ b # ks)" and ?h = "24 + length name"
    and ?hd = "hd (pre @ [b])"
  have old: "file_ok B ?old" using r(4) by simp
  note o = file_okD[OF old]
  have n488: "length name \<le> 488" using o(1) by (simp add: name_ok_def)
  have dis: "distinct (pre @ b # ks)" using space by auto
  have B'': "\<And>c. c \<in> set (pre @ b # ks) \<Longrightarrow> B'' c = B' c" using space(5) others by metis
  have "8 \<le> ?h" by simp
  note chain = written_chain[OF o(3,6) w dis len this]
  have hd: "window (B'' ?hd) 8 (16 + length name) = window (B ?hd) 8 (16 + length name)"
  proof (cases pre)
    case Nil
    have "?h \<le> unat (block_size (B b))" using header_of_bound[OF o(6)] Nil by simp
    moreover have "window (B' b) 8 (unat (block_size (B b)) - 8) =
        window (B b) 8 (unat (block_size (B b)) - 8)"
      using w by (simp add: written_def)
    ultimately have "window (B' b) 8 (16 + length name) = window (B b) 8 (16 + length name)"
      by (rule_tac window_sub) auto
    then show ?thesis using Nil B'' by simp
  next
    case (Cons a pre')
    then have "a \<notin> set (b # ks)" using dis by auto
    then have "B' a = B a" using w by (auto simp: written_def)
    then show ?thesis using Cons B'' by simp
  qed
  have "window (B'' ?hd) 8 8 = window (B ?hd) 8 8"
    "window (B'' ?hd) 16 8 = window (B ?hd) 16 8"
    "window (B'' ?hd) 24 (length name) = window (B ?hd) 24 (length name)"
    by (rule window_sub[OF hd]; simp)+
  then have fields: "next_file (B'' ?hd) = next_file (B ?hd)"
    "name_length (B'' ?hd) = name_length (B ?hd)"
    "window (B'' ?hd) 24 (length name) = window (B ?hd) 24 (length name)"
    by (simp_all only: next_file_def name_length_def)
  have hd_new: "hd (pre @ b # ks) = ?hd" by (cases pre) auto
  have outside: "B'' c = B c" if "f \<in> set as \<union> set cs" "c \<in> set (snd f)" for f c
  proof -
    have "c \<notin> set (b # ks)" "c \<noteq> 0" using space(4,7)[OF that(1)] that(2) by auto
    then show ?thesis using w others by (auto simp: written_def)
  qed
  have oks: "\<And>f. f \<in> set as \<union> set cs \<Longrightarrow> file_ok B f" using r(4) by (auto simp: list_all_iff)
  show fd: "file_data B'' f = file_data B f" if "f \<in> set as \<union> set cs" for f
    by (rule file_view_outside(2)[OF oks[OF that] outside[OF that]])
  show "file_data B'' ?new = file_data B ?old @ data"
    unfolding file_data_def fst_conv snd_conv
    by (rule trans[OF chain_data_cong chain(3)]) (rule B'')
  have link'': "chain.linked B'' ?hd (pre @ b # ks)"
    by (rule chain.linked_cong[OF chain(1)]) (simp only: B'')
  have ok'': "chain_ok B'' ?h (pre @ b # ks)"
    by (rule iffD2[OF chain_ok_cong chain(2)]) (rule B'')
  have new: "file_ok B'' ?new"
    unfolding file_ok_def prod.case hd_new
    using o fields link'' ok'' by simp
  have files: "list_all (file_ok B'') (as @ ?new # cs)"
    using new file_view_outside(1)[OF oks outside] by (auto simp: list_all_iff)
  have free: "\<And>c. c \<in> set free \<Longrightarrow> B'' c = B c"
  proof -
    fix c assume "c \<in> set free"
    then have "c \<notin> set (b # ks)" "c \<noteq> 0" using space by auto
    then show "B'' c = B c" using w others by (auto simp: written_def)
  qed
  have "chain.linked B (list_head free) free"
    using r(2) path_end_head by (fastforce simp: path_append)
  then have freelist: "chain.linked B'' (block_get_next (B'' 0)) free"
    unfolding super by (rule chain.linked_cong) (simp only: free)
  have dirs: "dir.linked B'' (next_file (B'' 0)) (heads (as @ ?new # cs))"
  proof -
    have "dir.linked B'' (next_file (B 0)) (heads (as @ ?old # cs))"
    proof (rule dir.linked_cong[OF r(3)])
      fix c assume "c \<in> set (heads (as @ ?old # cs))"
      then consider "c = ?hd" | f where "f \<in> set as \<union> set cs" "c = hd (snd f)" by auto
      then show "next_file (B'' c) = next_file (B c)"
      proof cases
        case 1
        then show ?thesis using fields by simp
      next
        case 2
        from outside[OF 2(1)] file_ok_nonempty[OF oks[OF 2(1)]] 2(2) show ?thesis by simp
      qed
    qed
    then show ?thesis by (simp add: super hd_new)
  qed
  have space': "space_ok N free (as @ ?new # cs)"
    using r(6) by (auto simp: space_ok_def)
  show "fs_ok N B'' free (as @ ?new # cs)"
    using r files freelist dirs space' free by (simp add: fs_ok_def free_ok_def list_all_iff)
qed


section \<open>disk_write_file\<close>

text \<open>The loop ends with the free list at \<open>list_head (drop k free)\<close>; the rest of the function
  stores it in the superblock when it has moved.\<close>

lemma write_file_finish:
  assumes ok: "disk_ok N d" "1 \<le> N" and run: "disk_write_file d b src = do {
       r \<leftarrow> Some (st, b', list_head (drop k free), d1);
       (case r of (result, block, new_first_free_block, self) \<Rightarrow>
        if new_first_free_block \<noteq> list_head free
        then do {
          self \<leftarrow> disk_read_block_buffer self SUPER_BLOCK;
          self \<leftarrow> disk_write_block_buffer
            (in_buffer (\<lambda>b. block_set_next b new_first_free_block) self) SUPER_BLOCK;
          Some (result, block, disk_flush_blocks self)
        }
        else Some (result, block, disk_flush_blocks self))
     }"
    and d1: "disk_ok N d1" "disk_block d1 0 = disk_block d 0"
    and free: "distinct free" "0 \<notin> set free" "\<And>c. c \<in> set free \<Longrightarrow> unat c < N"
    and head: "block_get_next (disk_block d 0) = list_head free"
  shows "\<exists>d'. disk_write_file d b src = Some (st, b', d') \<and> disk_ok N d' \<and>
    next_file (disk_block d' 0) = next_file (disk_block d 0) \<and>
    block_get_next (disk_block d' 0) = list_head (drop k free) \<and>
    (\<forall>c. c \<noteq> 0 \<longrightarrow> disk_block d' c = disk_block d1 c)"
proof (cases "list_head (drop k free) = list_head free")
  case True
  then show ?thesis using run d1 head by (simp add: disk_flush_blocks_def)
next
  case False
  let ?n = "list_head (drop k free)"
  have "?n = 0 \<or> ?n \<in> set free"
    using set_drop_subset[of k free] by (cases "drop k free") auto
  then have n: "unat ?n + 512 < 18446744073709551616"
    using free(3)[of ?n] d1(1) by (auto simp: disk_ok_def)
  have N: "unat SUPER_BLOCK < N" using ok by (simp add: SUPER_BLOCK_def)
  have len: "length (disk_block d1 SUPER_BLOCK) = 512" using dev.length_blk[OF d1(1) N] .
  then have lens: "length (block_set_next (disk_block d1 SUPER_BLOCK) ?n) = 512"
    by (simp add: block_fields)
  obtain d' where d': "do {
      self \<leftarrow> disk_read_block_buffer d1 SUPER_BLOCK;
      disk_write_block_buffer (in_buffer (\<lambda>b. block_set_next b ?n) self) SUPER_BLOCK } = Some d'"
    "disk_ok N d'" "disk_block d' =
      (disk_block d1)(SUPER_BLOCK := block_set_next (disk_block d1 SUPER_BLOCK) ?n)"
    by (rule dev.read_modify_write[where f = "\<lambda>b. block_set_next b ?n", OF d1(1) N lens])
  have "disk_write_file d b src = Some (st, b', d')"
    using run False d'(1) by (auto simp: disk_flush_blocks_def bind_eq_Some_conv)
  moreover have "next_file (disk_block d' 0) = next_file (disk_block d 0)"
    "block_get_next (disk_block d' 0) = ?n"
    using d'(3) len d1(2) block_get_set_next[OF _ n]
    by (simp_all add: SUPER_BLOCK_def block_set_next_def block_fields)
  ultimately show ?thesis using d' by (auto simp: SUPER_BLOCK_def)
qed


text \<open>What a write that ends with status \<open>st\<close>, having taken \<open>k\<close> free blocks and stored \<open>data\<close>,
  means for the file system.\<close>

definition appended ::
    "nat \<Rightarrow> disk \<Rightarrow> disk \<Rightarrow> u64 list \<Rightarrow> toy_file list \<Rightarrow> toy_file \<Rightarrow> toy_file list \<Rightarrow> nat \<Rightarrow> u8 list \<Rightarrow> bool"
  where
  "appended N d d' free as f cs k data \<longleftrightarrow>
     (case f of (name, bs) \<Rightarrow>
       k \<le> length free \<and> fs_rep N d' (drop k free) (as @ (name, bs @ take k free) # cs) \<and>
       fs_map d' (as @ (name, bs @ take k free) # cs) =
         (fs_map d (as @ f # cs))(name \<mapsto> file_data (disk_block d) f @ data))"

lemma map_of_replace:
  "name \<notin> fst ` set as \<Longrightarrow>
   map_of (as @ (name, v') # cs) = (map_of (as @ (name, v) # cs))(name \<mapsto> v')"
  by (induction as) (auto simp: fun_upd_twist)

lemma fs_map_replace:
  assumes "sorted_wrt (<) (map fst (as @ (name, bs) # cs))"
    and "\<And>f. f \<in> set as \<union> set cs \<Longrightarrow> file_data (disk_block d') f = file_data (disk_block d) f"
  shows "fs_map d' (as @ (name, bs') # cs) =
    (fs_map d (as @ (name, bs) # cs))(name \<mapsto> file_data (disk_block d') (name, bs'))"
proof -
  let ?m = "\<lambda>d. map (\<lambda>f. (fst f, file_data (disk_block d) f))"
  have "name \<notin> fst ` set as" using strict_distinct[OF assms(1)] by auto
  then have n: "name \<notin> fst ` set (?m d as)" by (simp add: image_image)
  have "?m d' as = ?m d as" "?m d' cs = ?m d cs" using assms(2) by simp_all
  then show ?thesis
    unfolding fs_map_def map_append list.map fst_conv by (simp only: map_of_replace[OF n])
qed

lemma appended_written:
  assumes rep: "fs_rep N d free (as @ (name, pre @ [b]) # cs)" and k: "k \<le> length free"
    and w: "written (disk_block d) B' b (unat (block_size (disk_block d b))) (take k free) data"
    and len: "length (B' b) = 512" and ok: "disk_ok N d'"
    and super: "next_file (disk_block d' 0) = next_file (disk_block d 0)"
      "block_get_next (disk_block d' 0) = list_head (drop k free)"
    and others: "\<And>c. c \<noteq> 0 \<Longrightarrow> disk_block d' c = B' c"
  shows "appended N d d' free as (name, pre @ [b]) cs k data"
proof -
  have fs: "fs_ok N (disk_block d) (take k free @ drop k free) (as @ (name, pre @ [b]) # cs)"
    using fs_repD(2)[OF rep] by simp
  note a = fs_ok_append[OF fs w len super others]
  have "fs_map d' (as @ (name, pre @ b # take k free) # cs) =
    (fs_map d (as @ (name, pre @ [b]) # cs))
      (name \<mapsto> file_data (disk_block d') (name, pre @ b # take k free))"
    by (rule fs_map_replace[OF fs_okD(5)[OF fs]]) (rule a(3))
  then show ?thesis
    using a(1,2) k ok by (simp add: appended_def fs_rep_def)
qed

lemma write_file_rep:
  assumes rep: "fs_rep N d free (as @ (name, pre @ [b]) # cs)"
    and size: "length src < 18446744073709551616"
    and u: "u = unat (block_size (disk_block d b))"
  shows "length src \<le> (512 - u) + 504 * length free \<Longrightarrow>
      \<exists>d'. disk_write_file d b src =
          Some (OK, last (b # take (needed u (length src)) free), d') \<and>
        appended N d d' free as (name, pre @ [b]) cs (needed u (length src)) src"
    and "\<not> length src \<le> (512 - u) + 504 * length free \<Longrightarrow>
      \<exists>d'. disk_write_file d b src = Some (OUT_OF_MEMORY, last (b # free), d') \<and>
        appended N d d' free as (name, pre @ [b]) cs (length free)
          (if free = [] then [] else take ((512 - u) + 504 * (length free - 1)) src @
             window (disk_block d (last free)) 8 504)"
proof -
  let ?f = "(name, pre @ [b])" and ?B = "disk_block d"
  note ok = fs_repD(1)[OF rep] and r = fs_okD[OF fs_repD(2)[OF rep]]
  have f: "?f \<in> set (as @ ?f # cs)" by simp
  note fb = fs_file_blocks[OF rep f]
  note o = file_okD[OF fb(1)]
  have b: "b \<noteq> 0" "unat b < N" "length (?B b) = 512"
    using space_file[OF r(6) f] fb(2) by (auto simp: blocks_ok_def)
  have fr: "distinct (b # free)" "0 \<notin> set free" "\<And>c. c \<in> set free \<Longrightarrow> unat c < N"
    using r(6) space_free[OF r(6)] by (auto simp: space_ok_def)
  have u8: "8 \<le> u" "u \<le> 512"
    using header_of_bound[OF o(6)] o(3) u last_block_size[of ?B b] by (auto simp: path_append split: if_splits)
  have head: "block_get_next (?B 0) = list_head free" using r(2) path_end_head by blast
  obtain d1 where d1: "disk_read_block_buffer d SUPER_BLOCK = Some d1" "disk_ok N d1"
      "block_buffer d1 = ?B SUPER_BLOCK" "disk_block d1 = ?B"
    using dev.readE[OF ok, of SUPER_BLOCK] r(1) by (auto simp: SUPER_BLOCK_def)
  obtain d2 where d2: "disk_read_block_buffer d1 b = Some d2" "disk_ok N d2"
      "block_buffer d2 = ?B b" "disk_block d2 = ?B"
    using dev.readE[OF d1(2) b(2)] d1(4) by metis
  have bs: "block_size (?B b) = of_nat u" "512 - block_size (?B b) = of_nat (512 - u)"
    using u u8 by (simp_all add: of_nat_diff)
  have run: "disk_write_file d b src = do {
       r \<leftarrow> disk_write_file_loop d2 b src (of_nat u) (of_nat (512 - u)) (list_head free);
       (case r of (result, block, new_first_free_block, self) \<Rightarrow>
        if new_first_free_block \<noteq> list_head free
        then do {
          self \<leftarrow> disk_read_block_buffer self SUPER_BLOCK;
          self \<leftarrow> disk_write_block_buffer
            (in_buffer (\<lambda>b. block_set_next b new_first_free_block) self) SUPER_BLOCK;
          Some (result, block, disk_flush_blocks self)
        }
        else Some (result, block, disk_flush_blocks self)) }"
    unfolding disk_write_file_def using d1 d2 bs head[folded SUPER_BLOCK_def] by (simp add: Let_def)
  have "write_result (disk_write_file_loop d2 b src (of_nat u) (of_nat (512 - u)) (list_head free))
      N ?B b u src free"
    by (rule write_file_loop[OF d2(2,4,3) u8 size _ fr(1) _ b(1) r(7)])
      (use r(2) head b fr(3) dev.length_blk[OF ok] in \<open>auto simp: blocks_ok_def list_all_iff\<close>)
  then obtain k d3 where k: "k \<le> length free" "disk_ok N d3" and
    c: "if length src \<le> (512 - u) + 504 * length free
      then k = needed u (length src) \<and>
        disk_write_file_loop d2 b src (of_nat u) (of_nat (512 - u)) (list_head free) =
          Some (OK, last (b # take k free), list_head (drop k free), d3) \<and>
        written ?B (disk_block d3) b u (take k free) src
      else k = length free \<and>
        disk_write_file_loop d2 b src (of_nat u) (of_nat (512 - u)) (list_head free) =
          Some (OUT_OF_MEMORY, last (b # free), 0, d3) \<and>
        (if free = [] then disk_block d3 = ?B
         else written ?B (disk_block d3) b u free
           (take ((512 - u) + 504 * (length free - 1)) src @ window (?B (last free)) 8 504))"
    unfolding write_result_def by blast
  have super: "disk_block d3 0 = ?B 0" if "written ?B (disk_block d3) b u ks data" "0 \<notin> set ks" for ks data
    using that b(1) by (auto simp: written_def)
  note finish = write_file_finish[OF ok r(1) _ k(2) _ _ fr(2,3) head]
  have fin: "\<exists>d'. disk_write_file d b src = Some (st, b', d') \<and>
      appended N d d' free as ?f cs k data"
    if loop: "disk_write_file_loop d2 b src (of_nat u) (of_nat (512 - u)) (list_head free) =
        Some (st, b', list_head (drop k free), d3)"
      and w: "written ?B (disk_block d3) b u (take k free) data" for st b' data
  proof -
    have z: "0 \<notin> set (take k free)" using fr(2) by (auto dest: in_set_takeD)
    obtain d' where d': "disk_write_file d b src = Some (st, b', d')" "disk_ok N d'"
      "next_file (disk_block d' 0) = next_file (?B 0)"
      "block_get_next (disk_block d' 0) = list_head (drop k free)"
      "\<And>c. c \<noteq> 0 \<Longrightarrow> disk_block d' c = disk_block d3 c"
      using finish[OF run[unfolded loop] super[OF w z]] fr(1) by auto
    have "appended N d d' free as ?f cs k data"
      by (rule appended_written[OF rep k(1) w[unfolded u] dev.length_blk[OF k(2) b(2)] d'(2-4)])
        (rule d'(5))
    with d'(1) show ?thesis by blast
  qed
  show "\<exists>d'. disk_write_file d b src =
          Some (OK, last (b # take (needed u (length src)) free), d') \<and>
        appended N d d' free as ?f cs (needed u (length src)) src"
    if fits: "length src \<le> (512 - u) + 504 * length free"
    using fin c[unfolded if_P[OF fits]] by metis
  show "\<exists>d'. disk_write_file d b src = Some (OUT_OF_MEMORY, last (b # free), d') \<and>
        appended N d d' free as ?f cs (length free)
          (if free = [] then [] else take ((512 - u) + 504 * (length free - 1)) src @
             window (disk_block d (last free)) 8 504)"
    if big: "\<not> length src \<le> (512 - u) + 504 * length free"
  proof (cases "free = []")
    case True
    note c' = c[unfolded if_not_P[OF big]]
    have "disk_write_file d b src = Some (OUT_OF_MEMORY, b, d3)"
      using run c' True by (simp add: disk_flush_blocks_def)
    moreover have "disk_block d3 = ?B" using c' True by simp
    then have "appended N d d3 free as ?f cs 0 []"
      using rep k(2) True fs_map_file[OF r(5) f, of d]
      by (simp add: appended_def fs_rep_def fs_map_def fun_upd_idem)
    ultimately show ?thesis using True by simp
  next
    case False
    note c' = c[unfolded if_not_P[OF big]]
    show ?thesis using c' False fin[of OUT_OF_MEMORY "last (b # free)"] by fastforce
  qed
qed

end
