(* ===== verification/Disk_Delete.thy ===== *)
theory Disk_Delete
  imports Disk_Write
begin

text \<open>
  \<open>disk_clear_file\<close> and \<open>disk_delete_file\<close>: the blocks of a chain go to the front of the free list
  in one update, the one of the last block of the chain.
\<close>

section \<open>Releasing a chain\<close>

definition freed :: "(u64 \<Rightarrow> u8 list) \<Rightarrow> u64 list \<Rightarrow> u64 \<Rightarrow> u64 \<Rightarrow> u8 list" where
  "freed B bs x = (if bs = [] then B else B(last bs := block_set_next (B (last bs)) x))"

lemma freed_other: "c \<notin> set bs \<Longrightarrow> freed B bs x c = B c"
  by (auto simp: freed_def)

lemma freed_same_file: "length (B c) = 512 \<Longrightarrow> next_file (freed B bs x c) = next_file (B c)"
  by (auto simp: freed_def block_set_next_def block_fields)

lemma length_freed: "length (B c) = 512 \<Longrightarrow> length (freed B bs x c) = 512"
  by (auto simp: freed_def block_fields)

lemma linked_first_word:
  "path (\<lambda>b. block_get_next (B b)) x (bs @ [b]) 0 \<Longrightarrow> free_ok B bs"
proof (induction bs arbitrary: x)
  case Nil
  then show ?case by (simp add: free_ok_def)
next
  case (Cons a bs)
  then have "block_get_next (B a) \<noteq> 0" by (cases bs) auto
  then have "512 \<le> unat (block_size (B a))" using block_get_next_0[of "B a"] by linarith
  then show ?case using Cons by (auto simp: free_ok_def)
qed

lemma freed_chain:
  assumes link: "chain.linked B (list_head bs) bs" and dis: "distinct (bs @ free)"
    and fl: "chain.linked B (list_head free) free" "free_ok B free"
    and len: "\<And>b. b \<in> set bs \<Longrightarrow> length (B b) = 512"
    and small: "unat (list_head free) + 512 < 18446744073709551616"
    and B': "\<And>c. c \<in> set (bs @ free) \<Longrightarrow> B' c = freed B bs (list_head free) c"
  shows "chain.linked B' (list_head (bs @ free)) (bs @ free)" and "free_ok B' (bs @ free)"
proof -
  have "chain.linked B' (list_head (bs @ free)) (bs @ free) \<and> free_ok B' (bs @ free)"
  proof (cases bs rule: rev_cases)
    case Nil
    have "\<And>c. c \<in> set free \<Longrightarrow> B' c = B c" using B' Nil by (simp add: freed_def)
    then show ?thesis
      using Nil fl chain.linked_cong[OF fl(1), of B'] by (simp add: free_ok_def list_all_iff)
  next
    case (snoc as b)
    let ?n = "block_set_next (B b) (list_head free)"
    have f: "freed B bs (list_head free) = B(b := ?n)" using snoc by (simp add: freed_def)
    have d: "b \<notin> set as" "b \<notin> set free" using dis snoc by auto
    have l: "length (B b) = 512" using len snoc by simp
    have "chain.linked (B(b := ?n)) (list_head bs) (as @ b # free)"
      using link snoc d fl(1) l small by (intro chain.append_linked) auto
    then have "chain.linked B' (list_head bs) (as @ b # free)"
      by (rule chain.linked_cong) (use B' f snoc in auto)
    moreover have "unat (list_head free + 512) = unat (list_head free) + 512"
      using small by (simp add: unat_add_u64)
    then have "512 \<le> unat (block_size ?n)"
      using l by (simp add: block_size_def block_set_next_def block_fields)
    moreover have "free_ok B as" using linked_first_word link snoc by blast
    ultimately show ?thesis
      using snoc fl(2) B' f d by (cases as) (auto simp: free_ok_def list_all_iff)
  qed
  then show "chain.linked B' (list_head (bs @ free)) (bs @ free)" "free_ok B' (bs @ free)" by auto
qed

section \<open>disk_delete_file_blocks\<close>

lemma last_block_loop:
  assumes "disk_ok N d" and "disk_block d = B" and "block_buffer d = B b"
    and "chain.linked B b (b # bs)" and "blocks_ok N B (b # bs)"
  shows "\<exists>d'. disk_last_block_loop d b = Some (last (b # bs), d') \<and> disk_ok N d' \<and>
    disk_block d' = B \<and> block_buffer d' = B (last (b # bs))"
  using assms
proof (induction bs arbitrary: b d)
  case Nil
  then show ?case by (subst disk_last_block_loop.simps) simp
next
  case (Cons c bs)
  then have n: "block_get_next (B b) = c" "c \<noteq> 0" by auto
  obtain d1 where d1: "disk_read_block_buffer d c = Some d1" "disk_ok N d1"
      "block_buffer d1 = B c" "disk_block d1 = B"
    using dev.readE[OF Cons.prems(1), of c] Cons.prems(2,5) by auto
  have "\<exists>d'. disk_last_block_loop d1 c = Some (last (c # bs), d') \<and> disk_ok N d' \<and>
    disk_block d' = B \<and> block_buffer d' = B (last (c # bs))"
    by (rule Cons.IH) (use Cons.prems d1 n in auto)
  then show ?case using n d1 Cons.prems(3) by (subst disk_last_block_loop.simps) simp
qed

lemma delete_file_blocks:
  assumes ok: "disk_ok N d" and B: "disk_block d = B" and N: "1 \<le> N"
    and link: "chain.linked B b (b # bs)" and bl: "blocks_ok N B (b # bs)"
  shows "\<exists>d'. disk_delete_file_blocks d b = Some d' \<and> disk_ok N d' \<and>
    disk_block d' = freed B (b # bs) (block_get_next (B 0))"
proof -
  obtain d1 where d1: "disk_read_block_buffer d SUPER_BLOCK = Some d1" "disk_ok N d1"
      "block_buffer d1 = B 0" "disk_block d1 = B"
    using dev.readE[OF ok, of SUPER_BLOCK] N B by (auto simp: SUPER_BLOCK_def)
  obtain d2 where d2: "disk_read_block_buffer d1 b = Some d2" "disk_ok N d2"
      "block_buffer d2 = B b" "disk_block d2 = B"
    using dev.readE[OF d1(2), of b] bl d1(4) by auto
  obtain d3 where d3: "disk_last_block_loop d2 b = Some (last (b # bs), d3)" "disk_ok N d3"
      "disk_block d3 = B" "block_buffer d3 = B (last (b # bs))"
    using last_block_loop[OF d2(2,4,3) link bl] by blast
  have last: "unat (last (b # bs)) < N" "length (B (last (b # bs))) = 512"
    using bl by (auto simp: blocks_ok_def list_all_iff)
  let ?x = "block_set_next (B (last (b # bs))) (block_get_next (B 0))"
  obtain d4 where d4: "disk_write_block_buffer (d3\<lparr>block_buffer := ?x\<rparr>) (last (b # bs)) = Some d4"
    "disk_ok N d4" "disk_block d4 = (disk_block d3)(last (b # bs) := ?x)"
    by (rule dev.writeE[OF d3(2) last(1), of ?x]) (use last(2) in \<open>auto simp: block_fields\<close>)
  show ?thesis
    unfolding disk_delete_file_blocks_def using d1 d2 d3 d4 by (simp add: freed_def Let_def)
qed

section \<open>disk_clear_file\<close>

definition cleared :: "(u64 \<Rightarrow> u8 list) \<Rightarrow> u64 \<Rightarrow> u64 list \<Rightarrow> u64 \<Rightarrow> u8 list" where
  "cleared B b bs =
     (let B1 = (if bs = [] then B
                else (freed B bs (block_get_next (B 0)))(0 := block_set_next (B 0) (hd bs)))
      in B1(b := set_block_size (B b) (24 + name_length (B b))))"

lemma clear_file_blocks:
  assumes ok: "disk_ok N d" and B: "disk_block d = B" and N: "1 \<le> N"
    and link: "chain.linked B b (b # bs)" and bl: "blocks_ok N B (b # bs)"
    and dis: "distinct (0 # b # bs)"
  shows "\<exists>d'. disk_clear_file d b = Some d' \<and> disk_ok N d' \<and> disk_block d' = cleared B b bs"
proof -
  obtain d1 where d1: "disk_read_block_buffer d b = Some d1" "disk_ok N d1"
      "block_buffer d1 = B b" "disk_block d1 = B"
    using dev.readE[OF ok, of b] bl B by auto
  have n: "block_get_next (B b) = list_head bs" using link path_end_head by auto
  define B1 where "B1 = (if bs = [] then B
      else (freed B bs (block_get_next (B 0)))(0 := block_set_next (B 0) (hd bs)))"
  have N0: "unat SUPER_BLOCK < N" using N by (simp add: SUPER_BLOCK_def)
  have len0: "length (B SUPER_BLOCK) = 512" using dev.length_blk[OF ok N0] B by simp
  have Bb: "B1 b = B b" using dis by (simp add: B1_def freed_other)
  obtain d2 where d2: "(if list_head bs \<noteq> 0
       then do {
         self \<leftarrow> disk_delete_file_blocks d1 (list_head bs);
         self \<leftarrow> disk_read_block_buffer self SUPER_BLOCK;
         disk_write_block_buffer
           (in_buffer (\<lambda>b. block_set_next b (list_head bs)) self) SUPER_BLOCK
       }
       else Some d1) = Some d2" "disk_ok N d2" "disk_block d2 = B1"
  proof (cases bs)
    case Nil
    then show thesis using that[of d1] d1 by (simp add: B1_def)
  next
    case (Cons c cs)
    have "chain.linked B c (c # cs)" "blocks_ok N B (c # cs)" "c \<noteq> 0" using link bl Cons by auto
    then obtain d3 where d3: "disk_delete_file_blocks d1 c = Some d3" "disk_ok N d3"
      "disk_block d3 = freed B (c # cs) (block_get_next (B 0))"
      using delete_file_blocks[OF d1(2,4) N] by blast
    have s: "disk_block d3 SUPER_BLOCK = B SUPER_BLOCK"
      unfolding d3(3) SUPER_BLOCK_def by (rule freed_other) (use dis Cons in auto)
    have lens: "length (block_set_next (disk_block d3 SUPER_BLOCK) c) = 512"
      using len0 s by (simp add: block_fields)
    obtain d4 where "do {
        self \<leftarrow> disk_read_block_buffer d3 SUPER_BLOCK;
        disk_write_block_buffer (in_buffer (\<lambda>b. block_set_next b c) self) SUPER_BLOCK } = Some d4"
      "disk_ok N d4" "disk_block d4 =
        (disk_block d3)(SUPER_BLOCK := block_set_next (disk_block d3 SUPER_BLOCK) c)"
      by (rule dev.read_modify_write[where f = "\<lambda>b. block_set_next b c", OF d3(2) N0 lens])
    then show thesis using that[of d4] d3(1,3) s \<open>c \<noteq> 0\<close> Cons by (simp add: B1_def SUPER_BLOCK_def)
  qed
  have "length (B b) = 512" "unat b < N" using bl by auto
  then have lenb: "length (set_block_size (disk_block d2 b) (24 + name_length (disk_block d2 b))) = 512"
    using d2(3) Bb by (simp add: block_fields)
  obtain d' where d': "do {
        self \<leftarrow> disk_read_block_buffer d2 b;
        disk_write_block_buffer (in_buffer (\<lambda>b. set_block_size b (24 + name_length b)) self) b
      } = Some d'" "disk_ok N d'"
    "disk_block d' = (disk_block d2)(b := set_block_size (disk_block d2 b)
       (24 + name_length (disk_block d2 b)))"
    by (rule dev.read_modify_write[where f = "\<lambda>b. set_block_size b (24 + name_length b)",
        OF d2(2) \<open>unat b < N\<close> lenb])
  have "disk_clear_file d b = Some d'"
    unfolding disk_clear_file_def
    using d1(1,3) d2(1) d'(1) n by (auto simp: disk_flush_blocks_def bind_eq_Some_conv Let_def)
  moreover have "disk_block d' = cleared B b bs"
    using d'(3) d2(3) Bb by (simp add: cleared_def B1_def[symmetric])
  ultimately show ?thesis using d'(2) by blast
qed

lemma fs_ok_clear:
  assumes fs: "fs_ok N B free (as @ (name, b # bs) # cs)" and N: "N \<le> 18014398509481984"
    and len: "\<And>c. unat c < N \<Longrightarrow> length (B c) = 512"
  shows "fs_ok N (cleared B b bs) (bs @ free) (as @ (name, [b]) # cs)"
    and "file_data (cleared B b bs) (name, [b]) = []"
    and "\<And>f. f \<in> set as \<union> set cs \<Longrightarrow> file_data (cleared B b bs) f = file_data B f"
proof -
  note r = fs_okD[OF fs]
  let ?B = "cleared B b bs" and ?old = "(name, b # bs)"
  have space: "distinct (bs @ free)" "b \<notin> set (bs @ free)" "0 \<notin> set (b # bs @ free)"
    "\<And>f. f \<in> set as \<union> set cs \<Longrightarrow> set (snd f) \<inter> set (0 # b # bs) = {}"
    using r(6) unfolding space_ok_def by auto
  have inN: "\<And>c. c \<in> set (b # bs @ free) \<Longrightarrow> unat c < N"
    using r(6) by (auto simp: space_ok_def)
  have oks: "\<And>f. f \<in> set as \<union> set cs \<Longrightarrow> file_ok B f" and old: "file_ok B ?old"
    using r(4) by (auto simp: list_all_iff)
  note o = file_okD[OF old, simplified]
  have lb: "length (B b) = 512" "length (B 0) = 512" using len inN r(1) by auto
  have Bb: "?B b = set_block_size (B b) (24 + name_length (B b))" by (simp add: cleared_def)
  have head: "block_get_next (B 0) = list_head free" using r(2) path_end_head by blast
  have chain: "?B c = freed B bs (list_head free) c" if "c \<in> set (bs @ free)" for c
    using that space head by (auto simp: cleared_def freed_def)
  have outside: "?B c = B c" if "c \<notin> set (0 # b # bs)" for c
    using that by (auto simp: cleared_def freed_def)
  have super: "next_file (?B 0) = next_file (B 0)" "block_get_next (?B 0) = list_head (bs @ free)"
  proof -
    have "unat (hd bs) + 512 < 18446744073709551616" if "bs \<noteq> []"
      using inN[of "hd bs"] that N by simp
    then show "next_file (?B 0) = next_file (B 0)" "block_get_next (?B 0) = list_head (bs @ free)"
      using lb space(3) head block_get_set_next[OF lb(2)]
      by (cases bs; auto simp: cleared_def block_set_next_def block_fields)+
  qed
  have "list_head free \<in> set free \<or> list_head free = 0" by (cases free) auto
  then have small: "unat (list_head free) + 512 < 18446744073709551616"
    using inN[of "list_head free"] N by auto
  have link: "chain.linked B (list_head bs) bs" using o(3) path_end_head by auto
  have fl: "chain.linked B (list_head free) free" using r(2) head by simp
  have freelist: "chain.linked ?B (block_get_next (?B 0)) (bs @ free)" "free_ok ?B (bs @ free)"
    unfolding super(2)
    by (rule freed_chain[OF link space(1) fl r(7) _ small chain]; use len inN in simp)+
  have n488: "length name \<le> 488" using o(1) by (simp add: name_ok_def)
  have size: "unat (block_size (?B b)) = 24 + length name"
    using Bb lb o(4) n488 unat_of_nat_u64[of "24 + length name"]
    by (simp add: set_block_size_def block_size_def block_fields)
  have new: "file_ok ?B (name, [b])"
    using o size n488 lb Bb space(3) block_get_next_0[of "?B b"]
    by (simp add: file_ok_def set_block_size_def block_fields)
  show "file_data ?B (name, [b]) = []" using size by (simp add: file_data_def)
  have same: "?B c = B c" if "f \<in> set as \<union> set cs" "c \<in> set (snd f)" for f c
    by (rule outside) (use space(4)[OF that(1)] that(2) in blast)
  show "file_data ?B f = file_data B f" if "f \<in> set as \<union> set cs" for f
    by (rule file_view_outside(2)[OF oks[OF that] same[OF that]])
  have files: "list_all (file_ok ?B) (as @ (name, [b]) # cs)"
    using new file_view_outside(1)[OF oks same] by (auto simp: list_all_iff)
  have dirs: "dir.linked ?B (next_file (?B 0)) (heads (as @ (name, [b]) # cs))"
  proof -
    have "dir.linked ?B (next_file (B 0)) (heads (as @ ?old # cs))"
    proof (rule dir.linked_cong[OF r(3)])
      fix c assume "c \<in> set (heads (as @ ?old # cs))"
      then consider "c = b" | f where "f \<in> set as \<union> set cs" "c = hd (snd f)" by auto
      then show "next_file (?B c) = next_file (B c)"
      proof cases
        case 1
        then show ?thesis using Bb lb by (simp add: set_block_size_def block_fields)
      next
        case 2
        from same[OF 2(1)] file_ok_nonempty[OF oks[OF 2(1)]] 2(2) show ?thesis by simp
      qed
    qed
    then show ?thesis by (simp add: super(1))
  qed
  have "space_ok N (bs @ free) (as @ (name, [b]) # cs)"
    using r(6) by (auto simp: space_ok_def)
  then show "fs_ok N ?B (bs @ free) (as @ (name, [b]) # cs)"
    using r freelist dirs files by (simp add: fs_ok_def)
qed

lemma clear_file_rep:
  assumes rep: "fs_rep N d free (as @ (name, b # bs) # cs)"
  shows "\<exists>d'. disk_clear_file d b = Some d' \<and>
    fs_rep N d' (bs @ free) (as @ (name, [b]) # cs) \<and>
    fs_map d' (as @ (name, [b]) # cs) = (fs_map d (as @ (name, b # bs) # cs))(name \<mapsto> [])"
proof -
  let ?f = "(name, b # bs)"
  note ok = fs_repD(1)[OF rep] and fs = fs_repD(2)[OF rep]
  note r = fs_okD[OF fs]
  have f: "?f \<in> set (as @ ?f # cs)" by simp
  note fb = fs_file_blocks[OF rep f]
  have "distinct (0 # b # bs)" using r(6) by (auto simp: space_ok_def)
  then obtain d' where d': "disk_clear_file d b = Some d'" "disk_ok N d'"
    "disk_block d' = cleared (disk_block d) b bs"
    using clear_file_blocks[OF ok refl r(1), of b bs] fb file_okD(3)[OF fb(1)] by auto
  have N: "N \<le> 18014398509481984" using ok by (simp add: disk_ok_def)
  note c = fs_ok_clear[OF fs N dev.length_blk[OF ok]]
  have "fs_map d' (as @ (name, [b]) # cs) =
      (fs_map d (as @ ?f # cs))(name \<mapsto> file_data (disk_block d') (name, [b]))"
    by (rule fs_map_replace[OF r(5)]) (simp only: d'(3) c(3))
  then show ?thesis using d' c(1,2) by (simp add: fs_rep_def)
qed

section \<open>disk_delete_file\<close>

lemma get_next_of_next_file:
  "length b = 512 \<Longrightarrow> block_get_next (set_next_file b x) = block_get_next b"
  by (simp add: block_get_next_def block_fields)

definition deleted :: "(u64 \<Rightarrow> u8 list) \<Rightarrow> u64 list \<Rightarrow> u64 \<Rightarrow> u64 \<Rightarrow> u8 list" where
  "deleted B bs p =
     (let n = next_file (B (hd bs));
          B1 = freed B bs (block_get_next (B 0));
          B2 = (if p = 0 then B1 else B1(p := set_next_file (B p) n))
      in B2(0 := set_next_file (block_set_next (B 0) (hd bs)) (if p = 0 then n else next_file (B 0))))"

lemma delete_file_steps:
  assumes ok: "disk_ok N d" and B: "disk_block d = B" and N: "1 \<le> N"
    and link: "chain.linked B b (b # bs)" and bl: "blocks_ok N B (b # bs)"
    and dis: "0 \<notin> set (b # bs)" and p: "p \<notin> set (b # bs)" "unat p < N"
  shows "\<exists>d'. disk_delete_file d b p = Some d' \<and> disk_ok N d' \<and> disk_block d' = deleted B (b # bs) p"
proof -
  let ?n = "next_file (B b)"
  have N0: "unat SUPER_BLOCK < N" using N by (simp add: SUPER_BLOCK_def)
  have len0: "length (B SUPER_BLOCK) = 512" and lenp: "length (B p) = 512"
    using dev.length_blk[OF ok N0] dev.length_blk[OF ok p(2)] B by simp_all
  obtain d1 where d1: "disk_read_block_buffer d b = Some d1" "disk_ok N d1"
      "block_buffer d1 = B b" "disk_block d1 = B"
    using dev.readE[OF ok, of b] bl B by auto
  obtain d2 where d2: "disk_read_block_buffer d1 SUPER_BLOCK = Some d2" "disk_ok N d2"
      "block_buffer d2 = B SUPER_BLOCK" "disk_block d2 = B"
    using dev.readE[OF d1(2) N0] d1(4) by metis
  obtain d3 where d3: "disk_delete_file_blocks d2 b = Some d3" "disk_ok N d3"
      "disk_block d3 = freed B (b # bs) (block_get_next (B 0))"
    using delete_file_blocks[OF d2(2,4) N link bl] by blast
  have same: "disk_block d3 p = B p" "disk_block d3 SUPER_BLOCK = B SUPER_BLOCK"
    unfolding d3(3) SUPER_BLOCK_def by (rule freed_other; use p dis in auto)+
  define B2 where "B2 = (if p = 0 then disk_block d3
      else (disk_block d3)(p := set_next_file (B p) ?n))"
  obtain d4 where d4: "(if p \<noteq> 0
       then do {
         self \<leftarrow> disk_read_block_buffer d3 p;
         disk_write_block_buffer (in_buffer (\<lambda>b. set_next_file b ?n) self) p
       }
       else Some d3) = Some d4" "disk_ok N d4" "disk_block d4 = B2"
  proof (cases "p = 0")
    case True
    then show thesis using that[of d3] d3 by (simp add: B2_def)
  next
    case False
    have lens: "length (set_next_file (disk_block d3 p) ?n) = 512"
      using lenp same by (simp add: block_fields)
    obtain d4 where "do {
         self \<leftarrow> disk_read_block_buffer d3 p;
         disk_write_block_buffer (in_buffer (\<lambda>b. set_next_file b ?n) self) p } = Some d4"
      "disk_ok N d4" "disk_block d4 = (disk_block d3)(p := set_next_file (disk_block d3 p) ?n)"
      by (rule dev.read_modify_write[where f = "\<lambda>b. set_next_file b ?n", OF d3(2) p(2) lens])
    then show thesis using that[of d4] False same by (simp add: B2_def)
  qed
  have s4: "disk_block d4 SUPER_BLOCK = B SUPER_BLOCK"
    using d4(3) same by (simp add: B2_def SUPER_BLOCK_def)
  obtain d5 where d5: "disk_read_block_buffer d4 SUPER_BLOCK = Some d5" "disk_ok N d5"
      "block_buffer d5 = B SUPER_BLOCK" "disk_block d5 = B2"
    using dev.readE[OF d4(2) N0] d4(3) s4 by metis
  let ?nff = "if p \<noteq> 0 then next_file (B SUPER_BLOCK) else ?n"
  let ?s = "set_next_file (block_set_next (B SUPER_BLOCK) b) ?nff"
  obtain d6 where d6: "disk_write_block_buffer (d5\<lparr>block_buffer := ?s\<rparr>) SUPER_BLOCK = Some d6"
    "disk_ok N d6" "disk_block d6 = (disk_block d5)(SUPER_BLOCK := ?s)"
    by (rule dev.writeE[OF d5(2) N0, of ?s]) (use len0 in \<open>auto simp: block_fields\<close>)
  have "disk_delete_file d b p = Some d6"
    unfolding disk_delete_file_def
    using d1(1,3) d2(1,3) d3(1) d4(1) d5(1,3) d6(1)
    by (auto simp: disk_flush_blocks_def bind_eq_Some_conv Let_def)
  moreover have "disk_block d6 = deleted B (b # bs) p"
    using d6(3) d5(4) d3(3) by (simp add: deleted_def B2_def SUPER_BLOCK_def Let_def)
  ultimately show ?thesis using d6(2) by blast
qed

lemma fs_ok_delete:
  assumes fs: "fs_ok N B free (as @ (name, bs) # cs)" and N: "N \<le> 18014398509481984"
    and len: "\<And>c. unat c < N \<Longrightarrow> length (B c) = 512" and p: "p = last (0 # heads as)"
  shows "fs_ok N (deleted B bs p) (bs @ free) (as @ cs)"
    and "\<And>f. f \<in> set as \<union> set cs \<Longrightarrow> file_data (deleted B bs p) f = file_data B f"
proof -
  note r = fs_okD[OF fs]
  let ?B = "deleted B bs p" and ?n = "next_file (B (hd bs))"
  have space: "distinct (bs @ free)" "0 \<notin> set (bs @ free)"
    "\<And>f. f \<in> set as \<union> set cs \<Longrightarrow> set (snd f) \<inter> set (bs @ free) = {}"
    "\<And>f. f \<in> set as \<union> set cs \<Longrightarrow> 0 \<notin> set (snd f)"
    using r(6) unfolding space_ok_def by auto
  have inN: "\<And>c. c \<in> set (bs @ free) \<Longrightarrow> unat c < N"
    using r(6) by (auto simp: space_ok_def)
  have inN2: "\<And>f c. f \<in> set as \<union> set cs \<Longrightarrow> c \<in> set (snd f) \<Longrightarrow> unat c < N"
    using r(6) by (auto simp: space_ok_def)
  have oks: "\<And>f. f \<in> set as \<union> set cs \<Longrightarrow> file_ok B f" and old: "file_ok B (name, bs)"
    using r(4) by (auto simp: list_all_iff)
  note o = file_okD[OF old]
  have hds: "hd (snd f) \<in> set (snd f)" if "f \<in> set as \<union> set cs" for f
    using file_ok_nonempty[OF oks[OF that]] by simp
  have pm: "p = 0 \<or> (\<exists>f \<in> set as. p = hd (snd f))"
    unfolding p by (cases as rule: rev_cases) auto
  have p': "p \<notin> set (bs @ free)" using pm space hds by blast
  have l0: "length (B 0) = 512" using len r(1) by simp
  have head: "block_get_next (B 0) = list_head free" using r(2) path_end_head by blast
  have chain: "?B c = freed B bs (list_head free) c" if "c \<in> set (bs @ free)" for c
    using that space(2) p' head by (auto simp: deleted_def Let_def)
  have outside: "?B c = B c" if "c \<notin> set (0 # p # bs)" for c
    using that by (auto simp: deleted_def Let_def freed_other)
  have at_p: "?B p = set_next_file (B p) ?n" if "p \<noteq> 0"
    using that by (simp add: deleted_def Let_def)
  have ne: "bs \<noteq> []" "hd bs \<in> set bs" using o(2) by simp_all
  have hdN: "unat (hd bs) + 512 < 18446744073709551616" using inN[of "hd bs"] ne N by simp
  have super: "next_file (?B 0) = (if p = 0 then ?n else next_file (B 0))"
    "block_get_next (?B 0) = list_head (bs @ free)"
  proof -
    have ls: "length (block_set_next (B 0) (hd bs)) = 512" using l0 by (simp add: block_fields)
    then show "next_file (?B 0) = (if p = 0 then ?n else next_file (B 0))"
      by (simp add: deleted_def Let_def block_fields)
    have "block_get_next (set_next_file (block_set_next (B 0) (hd bs)) x) = hd bs" for x
      using block_get_set_next[OF l0 hdN] ls by (simp add: get_next_of_next_file)
    then show "block_get_next (?B 0) = list_head (bs @ free)"
      using ne by (cases bs) (simp_all add: deleted_def Let_def)
  qed
  have "list_head free \<in> set free \<or> list_head free = 0" by (cases free) auto
  then have small: "unat (list_head free) + 512 < 18446744073709551616"
    using inN[of "list_head free"] N by auto
  have link: "chain.linked B (list_head bs) bs" using o(3) path_end_head by auto
  have fl: "chain.linked B (list_head free) free" using r(2) head by simp
  have freelist: "chain.linked ?B (block_get_next (?B 0)) (bs @ free)" "free_ok ?B (bs @ free)"
    unfolding super(2)
    by (rule freed_chain[OF link space(1) fl r(7) _ small chain]; use len inN in simp)+
  have view: "file_ok ?B f \<and> file_data ?B f = file_data B f" if f: "f \<in> set as \<union> set cs" for f
  proof -
    have tl: "?B c = B c" if "c \<in> set (tl (snd f))" for c
    proof (rule outside)
      have cf: "c \<in> set (snd f)" using that by (cases "snd f") auto
      have "distinct (snd f)" using r(6) f by (auto simp: space_ok_def dest!: split_list)
      then have "c \<noteq> hd (snd f)" using that by (cases "snd f") auto
      moreover have "c \<noteq> hd (snd g)" if "g \<in> set as" "g \<noteq> f" for g
      proof
        assume e: "c = hd (snd g)"
        have "g = f" by (rule chains_disjoint[of "as @ (name, bs) # cs" g f c])
            (use r(6) f that cf e hds[of g] in \<open>auto simp: space_ok_def\<close>)
        then show False using that by simp
      qed
      ultimately have "c \<noteq> p" using pm space(4)[OF f] cf by blast
      then show "c \<notin> set (0 # p # bs)" using space(3,4)[OF f] cf by auto
    qed
    have hd: "same_file_block (?B (hd (snd f))) (B (hd (snd f)))"
    proof (cases "hd (snd f) = p")
      case True
      then have "p \<noteq> 0" using space(4)[OF f] hds[OF f] by auto
      moreover have "length (B p) = 512" using len inN2[OF f hds[OF f]] True by simp
      ultimately show ?thesis using at_p True by (simp add: same_file_block_next_file)
    next
      case False
      then have "?B (hd (snd f)) = B (hd (snd f))"
        by (intro outside) (use space(3,4)[OF f] hds[OF f] in auto)
      then show ?thesis by simp
    qed
    from file_view[OF oks[OF f] hd tl] show ?thesis by blast
  qed
  then show "\<And>f. f \<in> set as \<union> set cs \<Longrightarrow> file_data ?B f = file_data B f" by blast
  have files: "list_all (file_ok ?B) (as @ cs)" using view by (auto simp: list_all_iff)
  have dirs: "dir.linked ?B (next_file (?B 0)) (heads (as @ cs))"
  proof -
    have "dir.linked ?B (next_file (?B 0)) (heads as @ heads cs)"
    proof (rule dir.remove_after)
      show "dir.linked B (next_file (B 0)) (heads as @ hd bs # heads cs)" using r(3) by simp
      show "distinct (heads as @ hd bs # heads cs)" 
        using distinct_heads[OF _ r(4)] r(6) by (simp add: space_ok_def)
      show "next_file (?B (last (0 # heads as))) = ?n"
      proof (cases "p = 0")
        case True
        then show ?thesis using super(1) by (simp add: p)
      next
        case False
        then have "length (B p) = 512" using pm len inN2 hds by blast
        then show ?thesis using at_p[OF False] unfolding p[symmetric] by (simp add: block_fields)
      qed
      fix c assume c: "c \<in> set (0 # heads as @ heads cs)" "c \<noteq> last (0 # heads as)"
      show "next_file (?B c) = next_file (B c)"
      proof (cases "c = 0")
        case True
        then show ?thesis using c(2) super(1) p by simp
      next
        case False
        then obtain f where f: "f \<in> set as \<union> set cs" "c = hd (snd f)" using c(1) by auto
        have "?B c = B c"
          by (rule outside) (use False c(2) p space(3)[OF f(1)] hds[OF f(1)] f(2) in auto)
        then show ?thesis by simp
      qed
    qed
    then show ?thesis by simp
  qed
  have "space_ok N (bs @ free) (as @ cs)" using r(6) by (auto simp: space_ok_def)
  then show "fs_ok N ?B (bs @ free) (as @ cs)"
    using r freelist dirs files by (simp add: fs_ok_def sorted_wrt_append)
qed

lemma fs_map_remove:
  assumes "sorted_wrt (<) (map fst (as @ (name, bs) # cs))"
    and "\<And>f. f \<in> set as \<union> set cs \<Longrightarrow> file_data (disk_block d') f = file_data (disk_block d) f"
  shows "fs_map d' (as @ cs) = (fs_map d (as @ (name, bs) # cs))(name := None)"
proof -
  let ?m = "\<lambda>d. map (\<lambda>f. (fst f, file_data (disk_block d) f))"
  have "name \<notin> fst ` set (?m d as)" "name \<notin> fst ` set (?m d cs)"
    using strict_distinct[OF assms(1)] by (auto simp: image_image)
  then have none: "map_of (?m d as) name = None" "map_of (?m d cs) name = None"
    by (simp_all only: map_of_eq_None_iff not_False_eq_True)
  have "?m d' as = ?m d as" "?m d' cs = ?m d cs" using assms(2) by simp_all
  then have "fs_map d' (as @ cs) = map_of (?m d as @ ?m d cs)"
    unfolding fs_map_def map_append by (simp only:)
  moreover have "map_of (?m d as @ ?m d cs) = (fs_map d (as @ (name, bs) # cs))(name := None)"
    using none by (auto simp: fs_map_def map_add_def fun_eq_iff split: option.split)
  ultimately show ?thesis by simp
qed

lemma delete_file_rep:
  assumes rep: "fs_rep N d free (as @ (name, b # bs) # cs)" and p: "p = last (0 # heads as)"
  shows "\<exists>d'. disk_delete_file d b p = Some d' \<and>
    fs_rep N d' ((b # bs) @ free) (as @ cs) \<and>
    fs_map d' (as @ cs) = (fs_map d (as @ (name, b # bs) # cs))(name := None)"
proof -
  let ?f = "(name, b # bs)"
  note ok = fs_repD(1)[OF rep] and fs = fs_repD(2)[OF rep]
  note r = fs_okD[OF fs]
  have f: "?f \<in> set (as @ ?f # cs)" by simp
  note fb = fs_file_blocks[OF rep f]
  have nz: "0 \<notin> set (b # bs)" using r(6) by (auto simp: space_ok_def)
  have pm: "p = 0 \<or> (\<exists>g \<in> set as. p = hd (snd g) \<and> hd (snd g) \<in> set (snd g))"
    unfolding p using r(4) file_ok_nonempty by (cases as rule: rev_cases) auto
  then have pN: "unat p < N" using r(1,6) by (auto simp: space_ok_def)
  have pb: "p \<notin> set (b # bs)"
    using pm nz r(6) by (auto simp: space_ok_def)
  obtain d' where d': "disk_delete_file d b p = Some d'" "disk_ok N d'"
    "disk_block d' = deleted (disk_block d) (b # bs) p"
    using delete_file_steps[OF ok refl r(1) _ _ nz pb pN] fb file_okD(3)[OF fb(1)] by auto
  have N: "N \<le> 18014398509481984" using ok by (simp add: disk_ok_def)
  note c = fs_ok_delete[OF fs N dev.length_blk[OF ok] p]
  have "fs_map d' (as @ cs) = (fs_map d (as @ ?f # cs))(name := None)"
    by (rule fs_map_remove[OF r(5)]) (simp only: d'(3) c(2))
  then show ?thesis using d' c(1) by (simp add: fs_rep_def)
qed

end
