(* ===== verification/Disk_Format.thy ===== *)
theory Disk_Format
  imports Disk_Delete
begin

text \<open>
  \<open>disk_format\<close> of \<open>tools/maketoysfs.c\<close>, which puts every block but the superblock on the free
  list: it establishes the representation the other operations preserve.
\<close>

section \<open>The code\<close>

function disk_format_loop :: "disk \<Rightarrow> nat \<Rightarrow> nat \<Rightarrow> disk option" where
  "disk_format_loop self i num_blocks =
     (if i < num_blocks
      then do {
        self \<leftarrow> disk_read_block_buffer self (of_nat i);
        self \<leftarrow> disk_write_block_buffer
          (in_buffer (\<lambda>b. block_set_next b (of_nat ((i + 1) mod num_blocks))) self) (of_nat i);
        disk_format_loop self (i + 1) num_blocks
      }
      else Some self)"
  by pat_completeness auto
termination
  by (relation "measure (\<lambda>(_, i, num_blocks). num_blocks - i)") auto

declare disk_format_loop.simps [simp del]

definition disk_format :: "disk \<Rightarrow> nat \<Rightarrow> disk option" where
  "disk_format self num_blocks = do {
     self \<leftarrow> disk_read_block_buffer self SUPER_BLOCK;
     let self = in_buffer (\<lambda>b. block_set_next b (SUPER_BLOCK + 1)) self;
     let self = in_buffer (\<lambda>b. set_next_file b 0) self;
     self \<leftarrow> disk_write_block_buffer self SUPER_BLOCK;
     disk_format_loop self (unat SUPER_BLOCK + 1) num_blocks
   }"

section \<open>What it does\<close>

lemma format_loop:
  assumes "disk_ok N d" and "disk_block d = B" and "i \<le> N"
  shows "\<exists>d'. disk_format_loop d i N = Some d' \<and> disk_ok N d' \<and>
    (\<forall>b. disk_block d' b = (if i \<le> unat b \<and> unat b < N
       then block_set_next (B b) (of_nat ((unat b + 1) mod N)) else B b))"
  using assms
proof (induction "N - i" arbitrary: d B i)
  case 0
  then show ?case by (subst disk_format_loop.simps) auto
next
  case (Suc k)
  have N: "N \<le> 18014398509481984" using Suc.prems(1) by (simp add: disk_ok_def)
  have iN: "i < N" using Suc.hyps(2) by simp
  then have i: "unat (of_nat i :: u64) = i" using N by (simp add: unat_of_nat_u64)
  then have uN: "unat (of_nat i :: u64) < N" using iN by simp
  let ?x = "\<lambda>b. block_set_next b (of_nat ((i + 1) mod N))"
  have "length (B (of_nat i)) = 512" using dev.length_blk[OF Suc.prems(1) uN] Suc.prems(2) by simp
  then have len: "length (?x (disk_block d (of_nat i))) = 512"
    using Suc.prems(2) by (simp add: block_fields)
  obtain d1 where d1: "do {
        self \<leftarrow> disk_read_block_buffer d (of_nat i);
        disk_write_block_buffer (in_buffer ?x self) (of_nat i) } = Some d1" "disk_ok N d1"
      "disk_block d1 = (disk_block d)(of_nat i := ?x (disk_block d (of_nat i)))"
    by (rule dev.read_modify_write[where f = ?x, OF Suc.prems(1) uN len])
  have run: "disk_format_loop d i N = disk_format_loop d1 (i + 1) N"
    using d1(1) iN by (subst disk_format_loop.simps) (auto simp: bind_eq_Some_conv)
  have B1: "disk_block d1 = B(of_nat i := ?x (B (of_nat i)))" using d1(3) Suc.prems(2) by simp
  have k: "k = N - (i + 1)" "i + 1 \<le> N" using Suc.hyps(2) by simp_all
  from Suc.hyps(1)[OF k(1) d1(2) B1 k(2)] obtain d' where d': "disk_format_loop d1 (i + 1) N = Some d'"
    "disk_ok N d'" and B': "\<And>b. disk_block d' b = (if i + 1 \<le> unat b \<and> unat b < N
       then block_set_next ((B(of_nat i := ?x (B (of_nat i)))) b) (of_nat ((unat b + 1) mod N))
       else (B(of_nat i := ?x (B (of_nat i)))) b)"
    by blast
  have "disk_block d' b = (if i \<le> unat b \<and> unat b < N
       then block_set_next (B b) (of_nat ((unat b + 1) mod N)) else B b)" for b
  proof (cases "unat b = i")
    case True
    then have "b = of_nat i" using i by (simp add: word_unat_eq_iff)
    then show ?thesis using B'[of b] True iN by simp
  next
    case False
    then have "b \<noteq> of_nat i" using i by auto
    moreover have "i + 1 \<le> unat b \<longleftrightarrow> i \<le> unat b" using False by linarith
    ultimately show ?thesis using B'[of b] by simp
  qed
  then show ?case using run d' by auto
qed

section \<open>The free list of a new disk\<close>

definition all_free :: "nat \<Rightarrow> u64 list" where
  "all_free N = map of_nat [1..<N]"

lemma path_upto:
  assumes "N \<le> 18014398509481984"
    and "\<And>j. 1 \<le> j \<Longrightarrow> j < N \<Longrightarrow> h (of_nat j) = of_nat ((j + 1) mod N)"
  shows "1 \<le> i \<Longrightarrow> i \<le> N \<Longrightarrow> path h (of_nat (i mod N)) (map of_nat [i..<N]) 0"
proof (induction "N - i" arbitrary: i)
  case 0
  then show ?case by simp
next
  case (Suc k)
  then have i: "i < N" "[i..<N] = i # [i + 1..<N]" by (simp_all add: upt_rec)
  have "(of_nat i :: u64) \<noteq> 0" using i assms(1) Suc.prems by (simp add: of_nat_eq_0_u64)
  moreover have "path h (of_nat ((i + 1) mod N)) (map of_nat [i + 1..<N]) 0"
    using Suc i by (intro Suc.hyps(1)) auto
  ultimately show ?case using i Suc.prems assms(2) by simp
qed

lemma all_free_space:
  assumes "N \<le> 18014398509481984"
  shows "distinct (all_free N)" and "set (all_free N) = {b. b \<noteq> 0 \<and> unat b < N}"
proof -
  have inj: "inj_on (of_nat :: nat \<Rightarrow> u64) {..<N}"
    using assms by (auto simp: inj_on_def of_nat_eq_u64)
  then show "distinct (all_free N)"
    unfolding all_free_def by (auto simp: distinct_map inj_on_def)
  have "b \<in> of_nat ` {1..<N}" if "b \<noteq> 0" "unat b < N" for b :: u64
    using that by (intro image_eqI[of _ _ "unat b"]) (auto simp: unat_gt_0 Suc_le_eq)
  moreover have "(of_nat j :: u64) \<noteq> 0 \<and> unat (of_nat j :: u64) < N" if "1 \<le> j" "j < N" for j
    using that assms by (simp add: unat_of_nat_u64 of_nat_eq_0_u64)
  ultimately show "set (all_free N) = {b. b \<noteq> 0 \<and> unat b < N}"
    unfolding all_free_def by auto
qed

lemma format_rep:
  assumes ok: "disk_ok N d" and N: "2 \<le> N"
  shows "\<exists>d'. disk_format d N = Some d' \<and> fs_rep N d' (all_free N) []"
proof -
  let ?B = "disk_block d"
  have N': "N \<le> 18014398509481984" using ok by (simp add: disk_ok_def)
  have N0: "unat SUPER_BLOCK < N" using N by (simp add: SUPER_BLOCK_def)
  have len0: "length (?B 0) = 512" using dev.length_blk[OF ok N0] by (simp add: SUPER_BLOCK_def)
  let ?s = "\<lambda>b. set_next_file (block_set_next b (SUPER_BLOCK + 1)) 0"
  have lens: "length (?s (?B SUPER_BLOCK)) = 512"
    using len0 by (simp add: block_fields SUPER_BLOCK_def)
  obtain d1 where d1: "do {
        self \<leftarrow> disk_read_block_buffer d SUPER_BLOCK;
        disk_write_block_buffer (in_buffer ?s self) SUPER_BLOCK } = Some d1" "disk_ok N d1"
      "disk_block d1 = ?B(SUPER_BLOCK := ?s (?B SUPER_BLOCK))"
    by (rule dev.read_modify_write[where f = ?s, OF ok N0 lens])
  have B1: "disk_block d1 = ?B(0 := ?s (?B 0))" using d1(3) by (simp add: SUPER_BLOCK_def)
  have k: "1 \<le> N" using N by simp
  obtain d' where d': "disk_format_loop d1 1 N = Some d'" "disk_ok N d'" and
    B': "\<And>b. disk_block d' b = (if 1 \<le> unat b \<and> unat b < N
       then block_set_next ((?B(0 := ?s (?B 0))) b) (of_nat ((unat b + 1) mod N))
       else (?B(0 := ?s (?B 0))) b)"
    using format_loop[OF d1(2) B1 k] by blast
  have run: "disk_format d N = Some d'"
    unfolding disk_format_def using d1(1) d'(1)
    by (auto simp: Let_def bind_eq_Some_conv SUPER_BLOCK_def)
  have small: "unat (of_nat (j mod N) :: u64) + 512 < 18446744073709551616" for j
  proof -
    have "j mod N < N" using N by simp
    then show ?thesis using N' by (simp add: unat_of_nat_u64)
  qed
  have super: "disk_block d' 0 = ?s (?B 0)" using B'[of 0] N by simp
  have at: "disk_block d' (of_nat j) = block_set_next (?B (of_nat j)) (of_nat ((j + 1) mod N))"
    "length (?B (of_nat j)) = 512" if "1 \<le> j" "j < N" for j
  proof -
    have u: "unat (of_nat j :: u64) = j" "(of_nat j :: u64) \<noteq> 0"
      using that N' by (simp_all add: unat_of_nat_u64 of_nat_eq_0_u64)
    then show "disk_block d' (of_nat j) = block_set_next (?B (of_nat j)) (of_nat ((j + 1) mod N))"
      using B'[of "of_nat j"] that by simp
    show "length (?B (of_nat j)) = 512" using dev.length_blk[OF ok] that u by simp
  qed
  have "block_get_next (block_set_next (?B 0) 1) = 1"
    by (rule block_get_set_next[OF len0]) simp
  then have first: "block_get_next (disk_block d' 0) = of_nat (1 mod N)"
    using N len0 unfolding super
    by (simp add: get_next_of_next_file block_fields SUPER_BLOCK_def)
  have "path (\<lambda>b. block_get_next (disk_block d' b)) (of_nat (1 mod N)) (map of_nat [1..<N]) 0"
    by (rule path_upto[OF N']) (use N at small block_get_set_next in auto)
  then have "chain.linked (disk_block d') (block_get_next (disk_block d' 0)) (all_free N)"
    unfolding first all_free_def by simp
  moreover have "free_ok (disk_block d') (all_free N)"
  proof -
    have "512 \<le> unat (block_size (disk_block d' (of_nat j)))" if "1 \<le> j" "j < N" for j
      using at[OF that] small[of "j + 1"]
      by (simp add: block_size_def block_set_next_def block_fields unat_add_u64)
    then show ?thesis by (auto simp: free_ok_def all_free_def list_all_iff)
  qed
  moreover have "next_file (disk_block d' 0) = 0"
    using len0 unfolding super by (simp add: block_fields)
  ultimately have "fs_rep N d' (all_free N) []"
    using d'(2) N all_free_space[OF N']
    by (simp add: fs_rep_def fs_ok_def space_ok_def)
  then show ?thesis using run by blast
qed

end
