(* ===== verification/Disk_Sample.thy ===== *)
theory Disk_Sample
  imports Disk_Format
begin

text \<open>
  A concrete disk of five blocks, on which the properties of the file system are instantiated:
  a file "a" over the blocks 1 and 2, an empty file "b" in block 4, and block 3 free.
\<close>

definition sample_block :: "u64 \<Rightarrow> u64 \<Rightarrow> u64 \<Rightarrow> u8 list \<Rightarrow> u8 list" where
  "sample_block w0 w1 w2 body =
     from_u64 w0 @ from_u64 w1 @ from_u64 w2 @ body"

definition sample_blocks :: "u8 list list" where
  "sample_blocks =
     [sample_block 515 1 0 (replicate 488 0),
      sample_block 514 4 1 (97 # replicate 487 7),
      sample_block 13 0 0 (replicate 488 0),
      sample_block 512 0 0 (replicate 488 0),
      sample_block 25 0 1 (98 # replicate 487 0)]"

definition sample_disk :: disk where
  "sample_disk = \<lparr>block_buffer = replicate 512 0, disk_image = concat sample_blocks\<rparr>"

definition sample_files :: "toy_file list" where
  "sample_files = [([97], [1, 2]), ([98], [4])]"

lemma length_from_u64 [simp]: "length (from_u64 x) = 8"
  by (simp add: u64_field.length_enc)

lemma length_sample_block: "length body = 488 \<Longrightarrow> length (sample_block n f l body) = 512"
  by (simp add: sample_block_def)

lemma window_skip: "length xs \<le> i \<Longrightarrow> window (xs @ ys) i n = window ys (i - length xs) n"
  by (simp add: window_def)

lemma window_take: "i = 0 \<Longrightarrow> n = length xs \<Longrightarrow> window (xs @ ys) i n = xs"
  by (simp add: window_def)

lemma sample_fields:
  "next_block_field (sample_block n f l body) = n"
  "next_file (sample_block n f l body) = f"
  "name_length (sample_block n f l body) = l"
  "window (sample_block n f l body) (24 + i) k = window body i k"
  by (simp_all add: sample_block_def next_block_field_def next_file_def name_length_def
      window_take window_skip u64_field.dec_enc)

lemma window_concat:
  assumes "list_all (\<lambda>b. length b = 512) bs" and "i < length bs"
  shows "window (concat bs) (512 * i) 512 = bs ! i"
  using assms
proof (induction bs arbitrary: i)
  case Nil
  then show ?case by simp
next
  case (Cons b bs)
  then show ?case by (cases i) (auto simp: window_def)
qed

lemma sample_lengths: "list_all (\<lambda>b. length b = 512) sample_blocks"
  by (simp add: sample_blocks_def length_sample_block)

lemma sample_disk_block:
  "disk_block sample_disk 0 = sample_block 515 1 0 (replicate 488 0)"
  "disk_block sample_disk 1 = sample_block 514 4 1 (97 # replicate 487 7)"
  "disk_block sample_disk 2 = sample_block 13 0 0 (replicate 488 0)"
  "disk_block sample_disk 3 = sample_block 512 0 0 (replicate 488 0)"
  "disk_block sample_disk 4 = sample_block 25 0 1 (98 # replicate 487 0)"
proof -
  have "disk_block sample_disk b = sample_blocks ! unat b" if "unat b < 5" for b
    using window_concat[OF sample_lengths, of "unat b"] that
    by (simp add: disk_block_def sample_disk_def sample_blocks_def)
  then show "disk_block sample_disk 0 = sample_block 515 1 0 (replicate 488 0)"
    "disk_block sample_disk 1 = sample_block 514 4 1 (97 # replicate 487 7)"
    "disk_block sample_disk 2 = sample_block 13 0 0 (replicate 488 0)"
    "disk_block sample_disk 3 = sample_block 512 0 0 (replicate 488 0)"
    "disk_block sample_disk 4 = sample_block 25 0 1 (98 # replicate 487 0)"
    by (simp_all add: sample_blocks_def)
qed

lemmas sample_simps = sample_disk_block sample_fields block_get_next_def block_size_def

lemma sample_disk_ok: "disk_ok 5 sample_disk"
  using sample_lengths by (simp add: disk_ok_def sample_disk_def sample_blocks_def length_sample_block)

lemma small_blocks: "{b :: u64. b \<noteq> 0 \<and> unat b < 5} = {1, 2, 3, 4}"
proof -
  have "b \<in> {1, 2, 3, 4}" if "b \<noteq> 0" "unat b < 5" for b :: u64
  proof -
    have "unat b = 1 \<or> unat b = 2 \<or> unat b = 3 \<or> unat b = 4"
      using that by (auto simp: unat_eq_0 less_Suc_eq numeral_eq_Suc)
    then show ?thesis by (auto simp: word_unat_eq_iff)
  qed
  then show ?thesis by auto
qed

lemma sample_file_ok:
  "file_ok (disk_block sample_disk) ([97], [1, 2])"
  "file_ok (disk_block sample_disk) ([98], [4])"
  using sample_fields(4)[where i = 0 and k = 1]
  by (simp_all add: file_ok_def name_ok_def sample_simps window_def)

lemma sample_rep: "fs_rep 5 sample_disk [3] sample_files"
  using sample_file_ok sample_disk_ok small_blocks
  by (auto simp: fs_rep_def fs_ok_def sample_files_def space_ok_def free_ok_def sample_simps)

lemma sample_data:
  "file_data (disk_block sample_disk) ([97], [1, 2]) = replicate 487 7 @ [0, 0, 0, 0, 0]"
  "file_data (disk_block sample_disk) ([98], [4]) = []"
proof -
  have "from_u64 0 = [0, 0, 0, 0, 0, 0, 0, 0]" by (simp add: from_u64_def le_bytes_def upt_rec)
  then have "window (sample_block 13 0 0 (replicate 488 0)) 8 5 = [0, 0, 0, 0, 0]"
    by (simp add: sample_block_def window_def)
  moreover have "window (97 # replicate 487 7) 1 487 = replicate 487 (7 :: u8)"
    by (simp add: window_def)
  ultimately show "file_data (disk_block sample_disk) ([97], [1, 2]) =
      replicate 487 7 @ [0, 0, 0, 0, 0]"
    using sample_fields(4)[where i = 1 and k = 487] by (simp add: file_data_def sample_simps)
  show "file_data (disk_block sample_disk) ([98], [4]) = []"
    by (simp add: file_data_def sample_simps)
qed

end
