(* ===== verification/Disk_Properties.thy ===== *)
theory Disk_Properties
  imports Disk_Sample
begin

text \<open>
  The properties of the file system, operation by operation, with their instances on the sample
  disk. They are stated over \<open>fs_rep\<close> and the abstract file system \<open>fs_map\<close>.
\<close>

section \<open>Encodings and names\<close>

text \<open>
  The \<open>u64_t\<close> encoding of block fields is a round trip in both directions: reading back a
  stored number gives the number, and storing what eight bytes read as gives the eight bytes.
\<close>

theorem u64_codec_roundtrip:
  "to_u64 (from_u64 x) = x \<and> (length b = 8 \<longrightarrow> from_u64 (to_u64 b) = b)"
  by (simp add: u64_field.dec_enc u64_field.enc_dec)

theorem u64_codec_roundtrip_witness:
  "from_u64 (to_u64 [1, 2, 3, 4, 5, 6, 7, 8]) = [1, 2, 3, 4, 5, 6, 7, 8]"
  using u64_codec_roundtrip[of 0 "[1, 2, 3, 4, 5, 6, 7, 8]"] by simp

text \<open>
  C19. \<open>disk_compare_file_name\<close> never reads outside the name array of a well-formed file block, and
  decides the lexicographic order of the file's name and the given name.
\<close>

theorem compare_is_lexicographic:
  assumes "file_ok B (fname, bs)" and "length (B (hd bs)) = 512"
  shows "disk_compare_file_name (B (hd bs)) name =
    Some (if fname = name then EQUAL else if fname < name then SMALLER else GREATER)"
  using disk_compare_file[OF assms] by (simp add: name_order_def)

theorem compare_is_lexicographic_witness:
  "disk_compare_file_name (disk_block sample_disk 1) [97, 0] = Some SMALLER"
  using compare_is_lexicographic[OF sample_file_ok(1), of "[97, 0]"]
  by (simp add: sample_disk_block length_sample_block)

section \<open>Lookup\<close>

text \<open>
  C6. \<open>disk_find_file\<close> returns the first block of the file with the given name, or 0 when there is
  none; it leaves in \<open>*previous_file\<close> the last file whose name is smaller; the search ends, stays
  inside the image, and changes no block.
\<close>

theorem find_file_correct:
  assumes "fs_rep N d free files"
  shows "\<exists>d'. disk_find_file d name prev =
      Some (case map_of files name of None \<Rightarrow> 0 | Some bs \<Rightarrow> hd bs,
        map_option (\<lambda>p. last (p # heads (takeWhile (\<lambda>f. fst f < name) files))) prev, d') \<and>
    fs_rep N d' free files \<and> disk_block d' = disk_block d"
proof -
  from find_file_rep[OF assms, of name prev] obtain d' where d': "disk_find_file d name prev =
      Some (case map_of files name of None \<Rightarrow> 0 | Some bs \<Rightarrow> hd bs,
        map_option (previous_of name files) prev, d')" "disk_ok N d'" "disk_block d' = disk_block d"
    by blast
  have "previous_of name files = (\<lambda>p. last (p # heads (takeWhile (\<lambda>f. fst f < name) files)))"
    by (rule ext) (simp add: previous_of_def)
  with d' rep_same[OF assms d'(2,3)] show ?thesis by auto
qed

theorem find_file_correct_witness:
  "\<exists>d'. disk_find_file sample_disk [98] (Some 0) = Some (4, Some 1, d')"
  using find_file_correct[OF sample_rep, of "[98]" "Some 0"] by (auto simp: sample_files_def)

text \<open>
  \<open>disk_get_file_size\<close> on the block that \<open>disk_find_file\<close> finds returns the length of the
  contents, for a chain of any number of blocks; no addition wraps.
\<close>

theorem get_file_size_correct:
  assumes "fs_rep N d free files" and "(name, bs) \<in> set files"
  shows "\<exists>n d'. disk_get_file_size d (hd bs) = Some (n, d') \<and>
    Some (unat n) = map_option length (fs_map d files name) \<and>
    fs_rep N d' free files \<and> disk_block d' = disk_block d"
proof -
  have "fs_map d files name = Some (file_data (disk_block d) (name, bs))"
    using fs_map_file[OF fs_okD(5)[OF fs_repD(2)[OF assms(1)]] assms(2), of d] by simp
  with get_file_size_rep[OF assms] rep_same[OF assms(1)] show ?thesis by fastforce
qed

theorem get_file_size_correct_witness:
  "\<exists>n d'. disk_get_file_size sample_disk 1 = Some (n, d') \<and> unat n = 492"
  using get_file_size_correct[OF sample_rep, of "[97]" "[1, 2]"]
    fs_map_file[OF fs_okD(5)[OF fs_repD(2)[OF sample_rep]], of "([97], [1, 2])" sample_disk]
  by (auto simp: sample_files_def sample_data)

section \<open>Reading\<close>

text \<open>
  C20. From a valid read position \<open>disk_read_file\<close> stores the next \<open>size\<close> bytes of the contents, or
  all that are left, and returns how many bytes are missing. After a full read the position it
  leaves is valid, and what is left to read there is exactly the remainder; after a short read it
  is the place where the bytes of the last block were read from, which is not advanced.
\<close>

theorem read_file_correct:
  assumes "disk_ok N d" and "read_pos N (disk_block d) b off bs"
  shows "\<exists>b' off' bs' d'. disk_read_file d b off sz =
      Some (of_nat (unat sz - length (rest (disk_block d) b off bs)), b', off',
        take (unat sz) (rest (disk_block d) b off bs), d') \<and>
    disk_ok N d' \<and> disk_block d' = disk_block d \<and> read_pos N (disk_block d) b' off' bs' \<and>
    (unat sz \<le> length (rest (disk_block d) b off bs) \<longrightarrow>
       rest (disk_block d) b' off' bs' = drop (unat sz) (rest (disk_block d) b off bs)) \<and>
    (unat sz > length (rest (disk_block d) b off bs) \<longrightarrow>
       b' = last (b # bs) \<and> bs' = [] \<and> off' = (if bs = [] then off else 8))"
  using read_file_loop[OF assms(2,1) refl, of "[]" sz] unfolding disk_read_file_def by fastforce

lemma sample_file_in: "([97], 1 # [2]) \<in> set sample_files"
  by (simp add: sample_files_def)

theorem read_file_correct_witness:
  "\<exists>b' off' d'. disk_read_file sample_disk 1 25 488 =
      Some (0, b', off', replicate 487 7 @ [0], d')"
proof -
  note p = read_pos_start[OF sample_rep sample_file_in]
  show ?thesis
    using read_file_correct[OF sample_disk_ok p(1), of 488] p(2) by (auto simp: sample_data)
qed


section \<open>Creating files\<close>

text \<open>
  C7. \<open>disk_create_file\<close> with a valid new name and a free block succeeds: the first free block
  becomes an empty file of that name, inserted at its place in the sorted file list, and the
  contents of every other file are unchanged.
\<close>

theorem create_file_correct:
  assumes "fs_rep N d (new # free) files" and "name_ok name" and "fs_map d files name = None"
  shows "\<exists>d'. disk_create_file d name r = Some (OK, new, d') \<and>
    fs_rep N d' free (insert_file (name, [new]) files) \<and>
    fs_map d' (insert_file (name, [new]) files) = (fs_map d files)(name \<mapsto> [])"
proof -
  have "name \<notin> fst ` set files" using assms(3) fs_map_dom[of d files] by blast
  from create_file_rep[OF assms(1,2) this] show ?thesis .
qed

lemma sample_map: "fs_map sample_disk sample_files =
    [[97] \<mapsto> replicate 487 7 @ [0, 0, 0, 0, 0], [98] \<mapsto> []]"
  by (simp add: fs_map_def sample_files_def sample_data fun_upd_twist)

lemma sample_insert: "insert_file ([97, 98], [3]) sample_files =
    [([97], [1, 2]), ([97, 98], [3]), ([98], [4])]"
  by (simp add: insert_file_def sample_files_def)

lemma sample_name_ok: "name_ok [97, 98]" "name_ok [98]"
  by (simp_all add: name_ok_def)

theorem create_file_correct_witness:
  "\<exists>d'. disk_create_file sample_disk [97, 98] 0 = Some (OK, 3, d') \<and>
    fs_rep 5 d' [] [([97], [1, 2]), ([97, 98], [3]), ([98], [4])]"
  using create_file_correct[OF sample_rep sample_name_ok(1), of 0, unfolded sample_insert]
  by (auto simp: sample_map)

text \<open>
  C21. Every failing call of \<open>disk_create_file\<close> reports the right status, in the order of the code's
  checks, leaves \<open>*result\<close> alone and changes no block: an invalid name, then a full disk, then a
  name in use.
\<close>

theorem create_file_errors:
  assumes "fs_rep N d free files"
    and "\<not> name_ok name \<or> free = [] \<or> fs_map d files name \<noteq> None"
  shows "\<exists>d'. disk_create_file d name r =
      Some (if \<not> name_ok name then INVALID_ARGUMENT else if free = [] then OUT_OF_MEMORY
        else ALREADY_EXISTS, r, d') \<and>
    fs_rep N d' free files \<and> disk_block d' = disk_block d"
proof -
  from create_file_fails[OF assms, of r] obtain d' where d': "disk_create_file d name r =
      Some (if \<not> name_ok name then INVALID_ARGUMENT else if free = [] then OUT_OF_MEMORY
        else ALREADY_EXISTS, r, d')" "disk_ok N d'" "disk_block d' = disk_block d"
    by blast
  with rep_same[OF assms(1) d'(2,3)] show ?thesis by blast
qed

theorem create_file_errors_witness:
  "\<exists>d'. disk_create_file sample_disk [98] 9 = Some (ALREADY_EXISTS, 9, d')"
  using create_file_errors[OF sample_rep, of "[98]" 9] by (auto simp: name_ok_def sample_map)

section \<open>Appending\<close>

text \<open>
  C8. \<open>disk_write_file\<close> at the last block of a file, with enough room in that block and the free
  blocks: it returns \<open>OK\<close> and the new last block, the contents grow by exactly the bytes given,
  the chain by the first blocks of the free list, as many as the bytes need and no more, and no
  other file changes.
\<close>

theorem write_file_correct:
  assumes "fs_rep N d free (as @ (name, bs) # cs)" and "bs \<noteq> []"
    and "length src < 2 ^ 64" and "room = 512 - unat (block_size (disk_block d (last bs)))"
    and "length src \<le> room + 504 * length free"
    and "k = (length src - room + 503) div 504"
  shows "\<exists>d'. disk_write_file d (last bs) src = Some (OK, last (bs @ take k free), d') \<and>
    fs_rep N d' (drop k free) (as @ (name, bs @ take k free) # cs) \<and>
    fs_map d' (as @ (name, bs @ take k free) # cs) =
      (fs_map d (as @ (name, bs) # cs))(name \<mapsto> file_data (disk_block d) (name, bs) @ src)"
proof -
  obtain pre b where bs: "bs = pre @ [b]" using assms(2) by (cases bs rule: rev_cases) auto
  have rep: "fs_rep N d free (as @ (name, pre @ [b]) # cs)" using assms(1) bs by simp
  have len: "length src < 18446744073709551616" using assms(3) by simp
  have fits: "length src \<le> (512 - unat (block_size (disk_block d b))) + 504 * length free"
    using assms(4,5) bs by simp
  have k: "needed (unat (block_size (disk_block d b))) (length src) = k"
    using assms(4,6) bs by (simp add: needed_def)
  obtain d' where d': "disk_write_file d b src = Some (OK, last (b # take k free), d')" and
    a: "appended N d d' free as (name, pre @ [b]) cs k src"
    using write_file_rep(1)[OF rep len refl fits] k by blast
  have "disk_write_file d (last bs) src = Some (OK, last (bs @ take k free), d')"
    using d' bs by simp
  then show ?thesis
    using a[unfolded appended_def prod.case, folded bs] by blast
qed

theorem write_file_correct_witness:
  "\<exists>d'. disk_write_file sample_disk (last [4]) (replicate 500 1) =
      Some (OK, last ([4] @ take 1 [3]), d') \<and>
    fs_map d' ([([97], [1, 2])] @ ([98], [4] @ take 1 [3]) # []) [98] = Some (replicate 500 1)"
proof -
  have rep: "fs_rep 5 sample_disk [3] ([([97], [1, 2])] @ ([98], [4]) # [])"
    using sample_rep by (simp add: sample_files_def)
  have sz: "487 = 512 - unat (block_size (disk_block sample_disk (last [4])))"
    by (simp add: sample_simps)
  have fits: "length (replicate 500 (1 :: u8)) \<le> 487 + 504 * length [3 :: u64]"
    and k: "1 = (length (replicate 500 (1 :: u8)) - 487 + 503) div 504" by simp_all
  obtain d' where "disk_write_file sample_disk (last [4]) (replicate 500 1) =
      Some (OK, last ([4] @ take 1 [3]), d')"
    "fs_map d' ([([97], [1, 2])] @ ([98], [4] @ take 1 [3]) # []) =
      (fs_map sample_disk ([([97], [1, 2])] @ ([98], [4]) # []))
        ([98] \<mapsto> file_data (disk_block sample_disk) ([98], [4]) @ replicate 500 1)"
    using write_file_correct[OF rep _ _ sz fits k] by auto
  then show ?thesis unfolding sample_data(2) by fastforce
qed

text \<open>
  C22. \<open>disk_write_file\<close> without enough room returns \<open>OUT_OF_MEMORY\<close> and keeps the disk well-formed,
  but not unchanged: every free block joins the file, whose contents grow by the bytes that fit
  before the last of these blocks and by the 504 stale bytes that block happened to hold.
\<close>

theorem write_file_out_of_memory:
  assumes "fs_rep N d free (as @ (name, bs) # cs)" and "bs \<noteq> []"
    and "length src < 2 ^ 64"
    and "length src > (512 - unat (block_size (disk_block d (last bs)))) + 504 * length free"
  shows "\<exists>d'. disk_write_file d (last bs) src = Some (OUT_OF_MEMORY, last (bs @ free), d') \<and>
    fs_rep N d' [] (as @ (name, bs @ free) # cs) \<and>
    fs_map d' (as @ (name, bs @ free) # cs) =
      (fs_map d (as @ (name, bs) # cs))(name \<mapsto> file_data (disk_block d) (name, bs) @
        (if free = [] then [] else
           take ((512 - unat (block_size (disk_block d (last bs)))) + 504 * (length free - 1)) src
           @ window (disk_block d (last free)) 8 504))"
proof -
  obtain pre b where bs: "bs = pre @ [b]" using assms(2) by (cases bs rule: rev_cases) auto
  have rep: "fs_rep N d free (as @ (name, pre @ [b]) # cs)" using assms(1) bs by simp
  have len: "length src < 18446744073709551616" using assms(3) by simp
  have big: "\<not> length src \<le> (512 - unat (block_size (disk_block d b))) + 504 * length free"
    using assms(4) bs by simp
  obtain d' where d': "disk_write_file d b src = Some (OUT_OF_MEMORY, last (b # free), d')" and
    a: "appended N d d' free as (name, pre @ [b]) cs (length free)
      (if free = [] then [] else take ((512 - unat (block_size (disk_block d b))) +
         504 * (length free - 1)) src @ window (disk_block d (last free)) 8 504)"
    using write_file_rep(2)[OF rep len refl big] by blast
  have l: "last (bs @ free) = last (b # free)" "last bs = b" using bs by simp_all
  show ?thesis
    using d' a[unfolded appended_def prod.case take_all[OF order_refl] drop_all[OF order_refl],
      folded bs] unfolding l by blast
qed

theorem write_file_out_of_memory_witness:
  "\<exists>d'. disk_write_file sample_disk 2 (replicate 1004 5) = Some (OUT_OF_MEMORY, 3, d') \<and>
    fs_map d' ([] @ ([97], [1, 2] @ [3]) # [([98], [4])]) [97] =
      Some ((replicate 487 7 @ [0, 0, 0, 0, 0]) @ replicate 499 5 @
        window (disk_block sample_disk 3) 8 504)"
proof -
  have rep: "fs_rep 5 sample_disk [3] ([] @ ([97], [1, 2]) # [([98], [4])])"
    using sample_rep by (simp add: sample_files_def)
  have sz: "unat (block_size (disk_block sample_disk (last [1, 2]))) = 13" by (simp add: sample_simps)
  from write_file_out_of_memory[OF rep, of "replicate 1004 5", unfolded sz sample_data(1)]
  obtain d' where d': "disk_write_file sample_disk (last [1, 2]) (replicate 1004 5) =
      Some (OUT_OF_MEMORY, last ([1, 2] @ [3]), d')" and
    m: "fs_map d' ([] @ ([97], [1, 2] @ [3]) # [([98], [4])]) =
      (fs_map sample_disk ([] @ ([97], [1, 2]) # [([98], [4])]))([97] \<mapsto>
        (replicate 487 7 @ [0, 0, 0, 0, 0]) @ (if [3 :: u64] = [] then [] else
          take (512 - 13 + 504 * (length [3 :: u64] - 1)) (replicate 1004 5) @
          window (disk_block sample_disk (last [3])) 8 504))" by auto
  have "fs_map d' ([] @ ([97], [1, 2] @ [3]) # [([98], [4])]) [97] =
      Some ((replicate 487 7 @ [0, 0, 0, 0, 0]) @ replicate 499 5 @
        window (disk_block sample_disk 3) 8 504)"
    unfolding m by simp
  with d' show ?thesis by auto
qed

section \<open>Clearing and deleting\<close>

text \<open>
  C23. \<open>disk_clear_file\<close> empties a file: only its first block stays with it, all the others go to
  the front of the free list in their order, the file's name and place stay, and no other file
  changes.
\<close>

theorem clear_file_correct:
  assumes "fs_rep N d free (as @ (name, b # bs) # cs)"
  shows "\<exists>d'. disk_clear_file d b = Some d' \<and>
    fs_rep N d' (bs @ free) (as @ (name, [b]) # cs) \<and>
    fs_map d' (as @ (name, [b]) # cs) = (fs_map d (as @ (name, b # bs) # cs))(name \<mapsto> [])"
  by (rule clear_file_rep[OF assms])

theorem clear_file_correct_witness:
  "\<exists>d'. disk_clear_file sample_disk 1 = Some d' \<and>
    fs_rep 5 d' [2, 3] [([97], [1]), ([98], [4])]"
proof -
  have rep: "fs_rep 5 sample_disk [3] ([] @ ([97], 1 # [2]) # [([98], [4])])"
    using sample_rep by (simp add: sample_files_def)
  from clear_file_correct[OF rep] show ?thesis by auto
qed

text \<open>
  C9. Deleting the file \<open>disk_find_file\<close> found, with the previous file it reported, removes
  exactly this file from the directory, whether it is the first one or not, and puts all its
  blocks at the front of the free list; no block is lost and no other file changes.
\<close>

theorem find_and_delete_file:
  assumes "fs_rep N d free (as @ (name, bs) # cs)"
  shows "\<exists>d1 d'. disk_find_file d name (Some 0) = Some (hd bs, Some (last (0 # heads as)), d1) \<and>
    disk_delete_file d1 (hd bs) (last (0 # heads as)) = Some d' \<and>
    fs_rep N d' (bs @ free) (as @ cs) \<and>
    fs_map d' (as @ cs) = (fs_map d (as @ (name, bs) # cs))(name := None)"
proof -
  let ?files = "as @ (name, bs) # cs"
  have f: "(name, bs) \<in> set ?files" by simp
  note s = fs_okD(5)[OF fs_repD(2)[OF assms]]
  obtain b bs' where bs: "bs = b # bs'"
    using file_okD(2)[OF fs_file_blocks(1)[OF assms f]] by (cases bs) auto
  have m: "map_of ?files name = Some bs" using map_of_files[OF s f] by simp
  have "takeWhile (\<lambda>f. fst f < name) ?files = as"
    using s by (auto simp: sorted_wrt_append takeWhile_tail)
  then have p: "previous_of name ?files 0 = last (0 # heads as)" by (simp add: previous_of_def)
  obtain d1 where d1: "disk_find_file d name (Some 0) = Some (hd bs, Some (last (0 # heads as)), d1)"
    "disk_ok N d1" "disk_block d1 = disk_block d"
    using find_file_rep[OF assms, of name "Some 0"] m p by auto
  have rep: "fs_rep N d1 free (as @ (name, b # bs') # cs)"
    and map: "fs_map d1 ?files = fs_map d ?files"
    using rep_same[OF assms d1(2,3)] bs by simp_all
  from delete_file_rep[OF rep refl] obtain d' where
    "disk_delete_file d1 b (last (0 # heads as)) = Some d'" "fs_rep N d' ((b # bs') @ free) (as @ cs)"
    "fs_map d' (as @ cs) = (fs_map d1 (as @ (name, b # bs') # cs))(name := None)"
    by blast
  then show ?thesis using d1(1) map bs by auto
qed

theorem find_and_delete_file_witness:
  "\<exists>d1 d'. disk_find_file sample_disk [98] (Some 0) = Some (4, Some 1, d1) \<and>
    disk_delete_file d1 4 1 = Some d' \<and> fs_rep 5 d' [4, 3] [([97], [1, 2])]"
proof -
  have rep: "fs_rep 5 sample_disk [3] ([([97], [1, 2])] @ ([98], [4]) # [])"
    using sample_rep by (simp add: sample_files_def)
  from find_and_delete_file[OF rep] show ?thesis by auto
qed

section \<open>Formatting, and a whole life of a file\<close>

text \<open>
  C24. \<open>disk_format\<close> turns an image of at least two blocks with any contents into an empty file
  system in which all blocks but the superblock are free, in increasing order.
\<close>

theorem format_correct:
  assumes "disk_ok N d" and "2 \<le> N"
  shows "\<exists>d'. disk_format d N = Some d' \<and> fs_rep N d' (map of_nat [1..<N]) [] \<and>
    fs_map d' [] = Map.empty"
  using format_rep[OF assms] by (simp add: all_free_def fs_map_def)

theorem format_correct_witness:
  "\<exists>d'. disk_format sample_disk 5 = Some d' \<and> fs_rep 5 d' [1, 2, 3, 4] []"
  using format_correct[OF sample_disk_ok] by (auto simp: upt_rec)

text \<open>
  C5. What is stored is read back: on a disk with free blocks, after creating a file and writing
  up to 488 minus its name's length bytes plus 504 for each further free block, finding it by
  name, asking its size and reading that many bytes from its start give exactly these bytes.
\<close>

theorem store_and_read_back:
  assumes rep: "fs_rep N d (new # free) files" and name: "name_ok name"
    and fresh: "fs_map d files name = None"
    and fits: "length src \<le> (488 - length name) + 504 * length free" and len: "length src < 2 ^ 64"
  shows "\<exists>d1 b d2 d3 sz d4 b' off d5.
    disk_create_file d name r = Some (OK, new, d1) \<and>
    disk_write_file d1 new src = Some (OK, b, d2) \<and>
    disk_find_file d2 name None = Some (new, None, d3) \<and>
    disk_get_file_size d3 new = Some (sz, d4) \<and> unat sz = length src \<and>
    disk_read_file d4 new (24 + of_nat (length name)) sz = Some (0, b', off, src, d5)"
proof -
  have n: "name \<notin> fst ` set files" using fresh fs_map_dom[of d files] by blast
  let ?a = "takeWhile (\<lambda>f. fst f < name) files" and ?c = "dropWhile (\<lambda>f. fst f < name) files"
  from create_file_rep[OF rep name n, of r] obtain d1 where
    d1: "disk_create_file d name r = Some (OK, new, d1)" and
    r1: "fs_rep N d1 free (?a @ (name, [] @ [new]) # ?c)" and
    m1: "fs_map d1 (?a @ (name, [new]) # ?c) = (fs_map d files)(name \<mapsto> [])"
    by (auto simp: insert_file_def)
  have f1: "(name, [new]) \<in> set (?a @ (name, [] @ [new]) # ?c)" by simp
  have e1: "file_data (disk_block d1) (name, [new]) = []"
    using fs_map_file[OF fs_okD(5)[OF fs_repD(2)[OF r1]] f1, of d1] m1 by simp
  have o1: "chain.linked (disk_block d1) new [new]" "chain_ok (disk_block d1) (24 + length name) [new]"
    using file_okD(3,6)[OF fs_file_blocks(1)[OF r1 f1]] by simp_all
  have "length (disk_block d1 new) = 512"
    using fs_file_blocks(2)[OF r1 f1] by (simp add: blocks_ok_def)
  then have u: "unat (block_size (disk_block d1 new)) = 24 + length name"
    using e1 o1 last_block_size[OF o1(1)] by (auto simp: file_data_def window_def)
  have len': "length src < 18446744073709551616" using len by simp
  have fits': "length src \<le> (512 - unat (block_size (disk_block d1 new))) + 504 * length free"
    using fits u by simp
  define k where "k = needed (unat (block_size (disk_block d1 new))) (length src)"
  obtain d2 where d2: "disk_write_file d1 new src = Some (OK, last (new # take k free), d2)"
    and a2: "appended N d1 d2 free ?a (name, [] @ [new]) ?c k src"
    using write_file_rep(1)[OF r1 len' refl fits'] unfolding k_def by blast
  let ?f2 = "(name, new # take k free)"
  have r2: "fs_rep N d2 (drop k free) (?a @ ?f2 # ?c)" and
    m2: "fs_map d2 (?a @ ?f2 # ?c) =
      (fs_map d1 (?a @ (name, [new]) # ?c))(name \<mapsto> file_data (disk_block d1) (name, [new]) @ src)"
    using a2 by (simp_all add: appended_def)
  have f2: "?f2 \<in> set (?a @ ?f2 # ?c)" by simp
  have e2: "file_data (disk_block d2) ?f2 = src"
    using fs_map_file[OF fs_okD(5)[OF fs_repD(2)[OF r2]] f2, of d2] m2 e1 by simp
  have "map_of (?a @ ?f2 # ?c) name = Some (new # take k free)"
    using map_of_files[OF fs_okD(5)[OF fs_repD(2)[OF r2]] f2] by simp
  then obtain d3 where d3: "disk_find_file d2 name None = Some (new, None, d3)" "disk_ok N d3"
    "disk_block d3 = disk_block d2"
    using find_file_rep[OF r2, of name None] by auto
  have r3: "fs_rep N d3 (drop k free) (?a @ ?f2 # ?c)" by (rule rep_same(1)[OF r2 d3(2,3)])
  obtain sz d4 where d4: "disk_get_file_size d3 new = Some (sz, d4)" "unat sz = length src"
    "disk_ok N d4" "disk_block d4 = disk_block d2"
    using get_file_size_rep[OF r3 f2] d3(3) e2 by auto
  note pos = read_pos_start[OF r2 f2]
  have "\<exists>b' off' d5. disk_read_file d4 new (24 + of_nat (length name)) sz =
      Some (of_nat (unat sz - length src), b', off', take (unat sz) src, d5)"
    using read_file_loop[OF pos(1) d4(3,4), of "[]" sz] pos(2) e2
    unfolding disk_read_file_def by auto
  then show ?thesis using d1 d2 d3 d4 by auto
qed

theorem store_and_read_back_witness:
  "\<exists>d1 b d2 d3 sz d4 b' off d5.
    disk_create_file sample_disk [97, 98] 0 = Some (OK, 3, d1) \<and>
    disk_write_file d1 3 [7, 8, 9] = Some (OK, b, d2) \<and>
    disk_find_file d2 [97, 98] None = Some (3, None, d3) \<and>
    disk_get_file_size d3 3 = Some (sz, d4) \<and> unat sz = 3 \<and>
    disk_read_file d4 3 26 sz = Some (0, b', off, [7, 8, 9], d5)"
proof -
  have l: "length [7, 8, 9 :: u8] = 3" "length [97, 98 :: u8] = 2" by simp_all
  note t = store_and_read_back[OF sample_rep sample_name_ok(1), of "[7, 8, 9]" 0, unfolded l]
  show ?thesis using t by (simp add: sample_map)
qed

end
