(* ===== verification/Make_Toysfs.thy ===== *)
theory Make_Toysfs
  imports Disk_Sample "HOL-Library.Char_ord"
begin

text \<open>
  \<open>main\<close> of \<open>tools/maketoysfs.c\<close>: format an image of 2048 blocks, then create and fill one file per
  input. An input is its path and the bytes behind it, or \<open>None\<close> when it cannot be opened; the
  error messages are the constructors of \<open>mk_error\<close>. Reading an opened input is assumed not to
  fail, and the final \<open>fwrite\<close> of the image is left out.
\<close>

section \<open>The code\<close>

definition chars :: "string \<Rightarrow> u8 list" where
  "chars s = map of_char s"

definition BLOCK_SIZE :: nat where "BLOCK_SIZE = 512"
definition IMAGE_SIZE :: nat where "IMAGE_SIZE = 1024 * 1024"

datatype mk_error = Cant_create "u8 list" | Cant_open "u8 list" | Cant_write "u8 list"

text \<open>The name of the file in the image for an input path.\<close>

definition toys_name :: "u8 list \<Rightarrow> u8 list" where
  "toys_name name =
     (if length name \<ge> 4 \<and> take 4 name = chars ''bin/''
      then if length name \<noteq> 8 \<or> take 8 name \<noteq> chars ''bin/toys'' then drop 4 name else name
      else if length name = 7 \<and> take 7 name = chars ''LICENSE'' then chars ''src/LICENSE''
      else name)"

text \<open>
  The copy loop: \<open>fread\<close> gives the next 512 bytes, or fewer at the end of the input, which is when
  \<open>feof\<close> holds. The result is whether every \<open>disk_write_file\<close> returned \<open>OK\<close>.
\<close>

function mk_copy_loop :: "disk \<Rightarrow> u64 \<Rightarrow> u8 list \<Rightarrow> (bool \<times> disk) option" where
  "mk_copy_loop self file_block_id contents = do {
     r \<leftarrow> disk_write_file self file_block_id (take BLOCK_SIZE contents);
     (case r of (result, file_block_id, self) \<Rightarrow>
        if result \<noteq> OK then Some (False, self)
        else if length contents < BLOCK_SIZE then Some (True, self)
        else mk_copy_loop self file_block_id (drop BLOCK_SIZE contents))
   }"
  by pat_completeness auto
termination
  by (relation "measure (\<lambda>(_, _, contents). length contents)") (auto simp: BLOCK_SIZE_def)

declare mk_copy_loop.simps [simp del]

primrec mk_files :: "(u8 list \<times> u8 list option) list \<Rightarrow> disk \<Rightarrow> (mk_error + disk) option" where
  "mk_files [] self = Some (Inr self)"
| "mk_files (input # inputs) self = do {
     created \<leftarrow> disk_create_file self (toys_name (fst input)) 0;
     (case created of (result, file_block_id, self) \<Rightarrow>
        if result \<noteq> OK then Some (Inl (Cant_create (fst input)))
        else (case snd input of
          None \<Rightarrow> Some (Inl (Cant_open (fst input)))
        | Some contents \<Rightarrow> do {
            copied \<leftarrow> mk_copy_loop self file_block_id contents;
            (case copied of (ok, self) \<Rightarrow>
               if ok then mk_files inputs self else Some (Inl (Cant_write (fst input))))
          }))
   }"

definition maketoysfs :: "(u8 list \<times> u8 list option) list \<Rightarrow> (mk_error + disk) option" where
  "maketoysfs inputs = do {
     disk \<leftarrow> disk_format \<lparr>block_buffer = replicate 512 0, disk_image = replicate IMAGE_SIZE 0\<rparr>
       (IMAGE_SIZE div BLOCK_SIZE);
     mk_files inputs disk
   }"

section \<open>What it does\<close>

lemma append_file:
  assumes rep: "fs_rep N d free (as @ (name, bs) # cs)" and ne: "bs \<noteq> []"
    and len: "length src < 18446744073709551616"
  shows "\<exists>st ks data free' d'. disk_write_file d (last bs) src = Some (st, last (bs @ ks), d') \<and>
    fs_rep N d' free' (as @ (name, bs @ ks) # cs) \<and> (st = OK \<longrightarrow> data = src) \<and>
    fs_map d' (as @ (name, bs @ ks) # cs) =
      (fs_map d (as @ (name, bs) # cs))(name \<mapsto> file_data (disk_block d) (name, bs) @ data)"
proof -
  obtain pre b where bs: "bs = pre @ [b]" using ne by (cases bs rule: rev_cases) auto
  note rep' = rep[unfolded bs]
  have "\<exists>st k data d'. disk_write_file d b src = Some (st, last (b # take k free), d') \<and>
      (st = OK \<longrightarrow> data = src) \<and> appended N d d' free as (name, pre @ [b]) cs k data"
  proof (cases "length src \<le> (512 - unat (block_size (disk_block d b))) + 504 * length free")
    case True
    show ?thesis using write_file_rep(1)[OF rep' len refl True] by blast
  next
    case False
    have e: "last (b # free) = last (b # take (length free) free)" "OUT_OF_MEMORY \<noteq> OK"
      by (simp_all add: OUT_OF_MEMORY_def OK_def)
    show ?thesis using write_file_rep(2)[OF rep' len refl False] e by metis
  qed
  then obtain st k data d' where *: "disk_write_file d b src = Some (st, last (b # take k free), d')"
    "st = OK \<longrightarrow> data = src" "appended N d d' free as (name, pre @ [b]) cs k data" by blast
  have "disk_write_file d (last bs) src = Some (st, last (bs @ take k free), d')"
    using *(1) bs by simp
  with *(2,3) show ?thesis unfolding appended_def prod.case bs[symmetric] by blast
qed

lemma copy_loop:
  assumes "fs_rep N d free (as @ (name, bs) # cs)" and "bs \<noteq> []"
  shows "\<exists>ok bs' free' d' v. mk_copy_loop d (last bs) contents = Some (ok, d') \<and>
    fs_rep N d' free' (as @ (name, bs') # cs) \<and>
    fs_map d' (as @ (name, bs') # cs) = (fs_map d (as @ (name, bs) # cs))(name \<mapsto> v) \<and>
    (ok \<longrightarrow> v = file_data (disk_block d) (name, bs) @ contents)"
  using assms
proof (induction contents arbitrary: d free bs rule: length_induct)
  case (1 contents)
  let ?src = "take BLOCK_SIZE contents"
  have "length ?src < 18446744073709551616" by (simp add: BLOCK_SIZE_def)
  from append_file[OF 1(2,3) this] obtain st ks data free' d' where
    w: "disk_write_file d (last bs) ?src = Some (st, last (bs @ ks), d')"
    "fs_rep N d' free' (as @ (name, bs @ ks) # cs)" "st = OK \<longrightarrow> data = ?src"
    "fs_map d' (as @ (name, bs @ ks) # cs) =
      (fs_map d (as @ (name, bs) # cs))(name \<mapsto> file_data (disk_block d) (name, bs) @ data)"
    by blast
  have f: "(name, bs @ ks) \<in> set (as @ (name, bs @ ks) # cs)" by simp
  have fd: "file_data (disk_block d') (name, bs @ ks) = file_data (disk_block d) (name, bs) @ data"
    using fs_map_file[OF fs_okD(5)[OF fs_repD(2)[OF w(2)]] f, of d'] w(4) by simp
  have step: "mk_copy_loop d (last bs) contents =
      (if st \<noteq> OK then Some (False, d') else if length contents < BLOCK_SIZE then Some (True, d')
       else mk_copy_loop d' (last (bs @ ks)) (drop BLOCK_SIZE contents))"
    using w(1) by (subst mk_copy_loop.simps) simp
  show ?case
  proof (cases "st = OK \<and> \<not> length contents < BLOCK_SIZE")
    case False
    then have "mk_copy_loop d (last bs) contents = Some (st = OK, d')" using step by auto
    moreover have "st = OK \<longrightarrow> data = contents" using False w(3) by auto
    ultimately show ?thesis using w(2,4) by blast
  next
    case True
    then have "length (drop BLOCK_SIZE contents) < length contents" by (auto simp: BLOCK_SIZE_def)
    with 1(1) w(2) 1(3) have "\<exists>ok bs' free'' d'' v.
      mk_copy_loop d' (last (bs @ ks)) (drop BLOCK_SIZE contents) = Some (ok, d'') \<and>
      fs_rep N d'' free'' (as @ (name, bs') # cs) \<and>
      fs_map d'' (as @ (name, bs') # cs) = (fs_map d' (as @ (name, bs @ ks) # cs))(name \<mapsto> v) \<and>
      (ok \<longrightarrow> v = file_data (disk_block d') (name, bs @ ks) @ drop BLOCK_SIZE contents)"
      by blast
    then obtain ok bs' free'' d'' v where
      r: "mk_copy_loop d' (last (bs @ ks)) (drop BLOCK_SIZE contents) = Some (ok, d'')"
      "fs_rep N d'' free'' (as @ (name, bs') # cs)"
      "fs_map d'' (as @ (name, bs') # cs) = (fs_map d' (as @ (name, bs @ ks) # cs))(name \<mapsto> v)"
      "ok \<longrightarrow> v = file_data (disk_block d') (name, bs @ ks) @ drop BLOCK_SIZE contents"
      by blast
    have "fs_map d'' (as @ (name, bs') # cs) = (fs_map d (as @ (name, bs) # cs))(name \<mapsto> v)"
      using r(3) w(4) by simp
    moreover have "ok \<longrightarrow> v = file_data (disk_block d) (name, bs) @ contents"
      using r(4) fd w(3) True by simp
    moreover have "mk_copy_loop d (last bs) contents = Some (ok, d'')" using step True r(1) by simp
    ultimately show ?thesis using r(2) by blast
  qed
qed

section \<open>The whole run\<close>

lemma mk_files_correct:
  assumes "fs_rep N d free files"
  shows "\<exists>r. mk_files inputs d = Some r \<and> (\<forall>d'. r = Inr d' \<longrightarrow>
    (\<exists>free' files'. fs_rep N d' free' files' \<and>
       fs_map d' files' = fs_map d files ++ map_of (map (\<lambda>(p, c). (toys_name p, the c)) inputs) \<and>
       (\<forall>(p, c) \<in> set inputs. c \<noteq> None \<and> name_ok (toys_name p) \<and> fs_map d files (toys_name p) = None) \<and>
       distinct (map (\<lambda>(p, c). toys_name p) inputs)))"
  using assms
proof (induction inputs arbitrary: d free files)
  case Nil
  then show ?case by auto
next
  case (Cons input inputs)
  obtain p c where i: "input = (p, c)" by (cases input)
  let ?n = "toys_name p"
  show ?case
  proof (cases "name_ok ?n \<and> free \<noteq> [] \<and> fs_map d files ?n = None")
    case False
    then have "\<not> name_ok ?n \<or> free = [] \<or> fs_map d files ?n \<noteq> None" by auto
    from create_file_fails[OF Cons.prems this, of 0]
    have "\<exists>d1 st. disk_create_file d ?n 0 = Some (st, 0, d1) \<and> st \<noteq> OK"
      by (auto simp: OK_def INVALID_ARGUMENT_def OUT_OF_MEMORY_def ALREADY_EXISTS_def)
    then show ?thesis using i by auto
  next
    case True
    note created = this
    then obtain new fr where fr: "free = new # fr" by (cases free) auto
    have fresh: "?n \<notin> fst ` set files" using True fs_map_dom[of d files] by blast
    let ?a = "takeWhile (\<lambda>f. fst f < ?n) files" and ?c = "dropWhile (\<lambda>f. fst f < ?n) files"
    obtain d1 where d1: "disk_create_file d ?n 0 = Some (OK, new, d1)"
      "fs_rep N d1 fr (?a @ (?n, [new]) # ?c)"
      "fs_map d1 (?a @ (?n, [new]) # ?c) = (fs_map d files)(?n \<mapsto> [])"
      using create_file_rep[OF Cons.prems[unfolded fr] _ fresh] True by (auto simp: insert_file_def)
    show ?thesis
    proof (cases c)
      case None
      then show ?thesis using i d1(1) by auto
    next
      case (Some contents)
      obtain ok bs' fr' d2 v where d2: "mk_copy_loop d1 new contents = Some (ok, d2)"
        "fs_rep N d2 fr' (?a @ (?n, bs') # ?c)"
        "fs_map d2 (?a @ (?n, bs') # ?c) = (fs_map d1 (?a @ (?n, [new]) # ?c))(?n \<mapsto> v)"
        "ok \<longrightarrow> v = file_data (disk_block d1) (?n, [new]) @ contents"
        using copy_loop[OF d1(2), of contents] by auto
      have "file_data (disk_block d1) (?n, [new]) = []"
        using fs_map_file[OF fs_okD(5)[OF fs_repD(2)[OF d1(2)]], of "(?n, [new])" d1] d1(3) by simp
      then have m2: "ok \<Longrightarrow> fs_map d2 (?a @ (?n, bs') # ?c) = (fs_map d files)(?n \<mapsto> contents)"
        using d2(3,4) d1(3) by simp
      have step: "mk_files (input # inputs) d = (if ok then mk_files inputs d2 else Some (Inl (Cant_write p)))"
        using i d1(1) d2(1) Some by simp
      show ?thesis
      proof (cases ok)
        case False
        then show ?thesis unfolding step by simp
      next
        case True
        note m2 = m2[OF True]
        obtain r where r: "mk_files inputs d2 = Some r" and
          good: "\<And>d'. r = Inr d' \<Longrightarrow> \<exists>free' files'. fs_rep N d' free' files' \<and>
            fs_map d' files' = fs_map d2 (?a @ (?n, bs') # ?c) ++
              map_of (map (\<lambda>(p, c). (toys_name p, the c)) inputs) \<and>
            (\<forall>(p, c) \<in> set inputs. c \<noteq> None \<and> name_ok (toys_name p) \<and>
              fs_map d2 (?a @ (?n, bs') # ?c) (toys_name p) = None) \<and>
            distinct (map (\<lambda>(p, c). toys_name p) inputs)"
          using Cons.IH[OF d2(2)] by blast
        have "\<exists>free' files'. fs_rep N d' free' files' \<and>
            fs_map d' files' = fs_map d files ++
              map_of (map (\<lambda>(p, c). (toys_name p, the c)) (input # inputs)) \<and>
            (\<forall>(p, c) \<in> set (input # inputs). c \<noteq> None \<and> name_ok (toys_name p) \<and>
              fs_map d files (toys_name p) = None) \<and>
            distinct (map (\<lambda>(p, c). toys_name p) (input # inputs))" if rd: "r = Inr d'" for d'
        proof -
          obtain free' files' where g: "fs_rep N d' free' files'"
            "fs_map d' files' = (fs_map d files)(?n \<mapsto> contents) ++
               map_of (map (\<lambda>(p, c). (toys_name p, the c)) inputs)"
            "\<forall>(p, c) \<in> set inputs. c \<noteq> None \<and> name_ok (toys_name p) \<and>
              ((fs_map d files)(?n \<mapsto> contents)) (toys_name p) = None"
            "distinct (map (\<lambda>(p, c). toys_name p) inputs)"
            using good[OF rd, unfolded m2] by blast
          have n: "toys_name p' \<noteq> ?n \<and> fs_map d files (toys_name p') = None" if "(p', c') \<in> set inputs" for p' c'
            using g(3) that by (auto split: if_splits)
          then have "?n \<notin> dom (map_of (map (\<lambda>(p, c). (toys_name p, the c)) inputs))"
            unfolding dom_map_of_conv_image_fst by fastforce
          then have "fs_map d' files' = fs_map d files ++
              map_of (map (\<lambda>(p, c). (toys_name p, the c)) (input # inputs))"
            using g(2) i Some by (simp add: map_add_upd_left)
          moreover have "\<forall>(p, c) \<in> set (input # inputs). c \<noteq> None \<and> name_ok (toys_name p) \<and>
              fs_map d files (toys_name p) = None"
            using g(3) n i Some created by fastforce
          moreover have "distinct (map (\<lambda>(p, c). toys_name p) (input # inputs))"
            using g(4) n i by force
          ultimately show ?thesis using g(1) by blast
        qed
        moreover have "mk_files (input # inputs) d = Some r" using step r True by simp
        ultimately show ?thesis by blast
      qed
    qed
  qed
qed

section \<open>How much fits\<close>

text \<open>A chain is tight when it has no more blocks than its contents need; the copy loop only
  makes tight chains.\<close>

lemma chain_length:
  assumes "chain_ok B h bs" and "chain.linked B (hd bs) bs" and "blocks_ok N B bs" and "h \<le> 512"
  shows "length (chain_data B h bs) + h = 504 * (length bs - 1) + unat (block_size (B (last bs)))"
  using assms
proof (induction B h bs rule: chain_ok.induct)
  case (2 B h b)
  then have "unat (block_size (B b)) \<le> 512" by (intro last_block_size) simp
  with 2 show ?case by (simp add: length_window)
next
  case (3 B h b c bs)
  then have "length (chain_data B 8 (c # bs)) + 8 =
      504 * (length (c # bs) - 1) + unat (block_size (B (last (c # bs))))" by simp
  with 3 show ?case by (simp add: length_window)
qed simp

lemma needed_add:
  assumes "h + l = 504 * needed h l + u" and "u \<le> 512" and "h \<le> 512"
  shows "needed h (l + s) = needed h l + needed u s"
proof (cases "s \<le> 512 - u")
  case True
  then have "l + s - (512 - h) \<le> 504 * needed h l" using assms by linarith
  then have "needed h (l + s) \<le> needed h l" unfolding needed_def[of h "l + s"] by linarith
  moreover have "needed h l \<le> needed h (l + s)" unfolding needed_def by (intro div_le_mono) simp
  ultimately show ?thesis using needed_0[OF True] by simp
next
  case False
  then have "l + s - (512 - h) + 503 = (s - (512 - u) + 503) + needed h l * 504"
    using assms by linarith
  then show ?thesis unfolding needed_def[of h "l + s"] needed_def[of u s]
    by (simp only: div_mult_self1)
qed

lemma needed_mono: "m \<le> n \<Longrightarrow> needed u m \<le> needed u n"
  unfolding needed_def by (intro div_le_mono) simp

lemma needed_le: "needed u n \<le> m \<Longrightarrow> n \<le> (512 - u) + 504 * m"
  unfolding needed_def by linarith

definition tight :: "disk \<Rightarrow> toy_file \<Rightarrow> bool" where
  "tight d f \<longleftrightarrow>
     length (snd f) = 1 + needed (24 + length (fst f)) (length (file_data (disk_block d) f))"

lemma append_file_tight:
  assumes rep: "fs_rep N d free (as @ (name, bs) # cs)" and ne: "bs \<noteq> []" and t: "tight d (name, bs)"
    and src: "length src \<le> 512"
    and fits: "1 + needed (24 + length name) (length (file_data (disk_block d) (name, bs)) + length src)
      \<le> length bs + length free"
  shows "\<exists>ks free' d'. disk_write_file d (last bs) src = Some (OK, last (bs @ ks), d') \<and>
    fs_rep N d' free' (as @ (name, bs @ ks) # cs) \<and> tight d' (name, bs @ ks) \<and>
    length (bs @ ks) + length free' = length bs + length free \<and>
    file_data (disk_block d') (name, bs @ ks) = file_data (disk_block d) (name, bs) @ src \<and>
    fs_map d' (as @ (name, bs @ ks) # cs) = (fs_map d (as @ (name, bs) # cs))
      (name \<mapsto> file_data (disk_block d) (name, bs) @ src)"
proof -
  let ?f = "(name, bs)" and ?h = "24 + length name"
  let ?l = "length (file_data (disk_block d) ?f)"
  obtain pre b where bs: "bs = pre @ [b]" using ne by (cases bs rule: rev_cases) auto
  have f: "?f \<in> set (as @ ?f # cs)" by simp
  note fb = fs_file_blocks[OF rep f]
  note o = file_okD[OF fb(1)]
  have n: "?h \<le> 512" using o(1) by (simp add: name_ok_def)
  let ?u = "unat (block_size (disk_block d b))"
  have len: "?h + ?l = 504 * needed ?h ?l + ?u"
    using chain_length[OF o(6,3) _ n, of N] fb(2) t bs by (simp add: tight_def file_data_def)
  have "path (\<lambda>b. block_get_next (disk_block d b)) (hd bs) (pre @ [b]) 0" using o(3) bs by simp
  then have u: "?u \<le> 512" using last_block_size[of "disk_block d" b] by (auto simp: path_append)
  note add = needed_add[OF len u n, of "length src"]
  have k: "needed ?u (length src) \<le> length free" using fits add t by (simp add: tight_def)
  have src': "length src < 18446744073709551616" using src by simp
  obtain d' where d': "disk_write_file d b src =
      Some (OK, last (b # take (needed ?u (length src)) free), d')"
    "appended N d d' free as (name, pre @ [b]) cs (needed ?u (length src)) src"
    using write_file_rep(1)[OF rep[unfolded bs] src' refl needed_le[OF k]] by blast
  let ?ks = "take (needed ?u (length src)) free"
  have a: "fs_rep N d' (drop (needed ?u (length src)) free) (as @ (name, bs @ ?ks) # cs)"
    "fs_map d' (as @ (name, bs @ ?ks) # cs) = (fs_map d (as @ ?f # cs))(name \<mapsto>
      file_data (disk_block d) ?f @ src)"
    using d'(2) bs by (simp_all add: appended_def)
  have f': "(name, bs @ ?ks) \<in> set (as @ (name, bs @ ?ks) # cs)" by simp
  have data: "file_data (disk_block d') (name, bs @ ?ks) = file_data (disk_block d) ?f @ src"
    using fs_map_file[OF fs_okD(5)[OF fs_repD(2)[OF a(1)]] f', of d'] a(2) by simp
  have "tight d' (name, bs @ ?ks)"
    using t k add by (simp add: tight_def data)
  moreover have "disk_write_file d (last bs) src = Some (OK, last (bs @ ?ks), d')"
    using d'(1) bs by simp
  moreover have "length (bs @ ?ks) + length (drop (needed ?u (length src)) free) = length bs + length free"
    using k by simp
  ultimately show ?thesis using a data by blast
qed

lemma copy_loop_tight:
  assumes "fs_rep N d free (as @ (name, bs) # cs)" and "bs \<noteq> []" and "tight d (name, bs)"
    and "1 + needed (24 + length name) (length (file_data (disk_block d) (name, bs)) + length contents)
      \<le> length bs + length free"
  shows "\<exists>bs' free' d'. mk_copy_loop d (last bs) contents = Some (True, d') \<and>
    fs_rep N d' free' (as @ (name, bs') # cs) \<and> length bs' + length free' = length bs + length free \<and>
    length bs' = 1 + needed (24 + length name)
      (length (file_data (disk_block d) (name, bs)) + length contents) \<and>
    fs_map d' (as @ (name, bs') # cs) = (fs_map d (as @ (name, bs) # cs))
      (name \<mapsto> file_data (disk_block d) (name, bs) @ contents)"
  using assms
proof (induction contents arbitrary: d free bs rule: length_induct)
  case (1 contents)
  let ?src = "take BLOCK_SIZE contents" and ?l = "length (file_data (disk_block d) (name, bs))"
  have src: "length ?src \<le> 512" by (simp add: BLOCK_SIZE_def)
  have "1 + needed (24 + length name) (?l + length ?src) \<le> length bs + length free"
    using 1(5) needed_mono[of "?l + length ?src" "?l + length contents" "24 + length name"] by simp
  from append_file_tight[OF 1(2,3,4) src this] obtain ks free' d' where
    w: "disk_write_file d (last bs) ?src = Some (OK, last (bs @ ks), d')"
    "fs_rep N d' free' (as @ (name, bs @ ks) # cs)" "tight d' (name, bs @ ks)"
    "length (bs @ ks) + length free' = length bs + length free"
    "file_data (disk_block d') (name, bs @ ks) = file_data (disk_block d) (name, bs) @ ?src"
    "fs_map d' (as @ (name, bs @ ks) # cs) = (fs_map d (as @ (name, bs) # cs))
      (name \<mapsto> file_data (disk_block d) (name, bs) @ ?src)"
    by blast
  have step: "mk_copy_loop d (last bs) contents =
      (if length contents < BLOCK_SIZE then Some (True, d')
       else mk_copy_loop d' (last (bs @ ks)) (drop BLOCK_SIZE contents))"
    using w(1) by (subst mk_copy_loop.simps) simp
  show ?case
  proof (cases "length contents < BLOCK_SIZE")
    case True
    then have "length (bs @ ks) = 1 + needed (24 + length name) (?l + length contents)"
      using w(3,5) by (simp add: tight_def)
    moreover have "mk_copy_loop d (last bs) contents = Some (True, d')" using step True by simp
    moreover have "?src = contents" using True by simp
    ultimately show ?thesis using w(2,4,6) by metis
  next
    case False
    have e: "length (file_data (disk_block d') (name, bs @ ks)) + length (drop BLOCK_SIZE contents) =
        ?l + length contents"
      unfolding w(5) using False by simp
    have less: "length (drop BLOCK_SIZE contents) < length contents"
      using False by (auto simp: BLOCK_SIZE_def)
    have ne: "bs @ ks \<noteq> []" using 1(3) by simp
    have fit: "1 + needed (24 + length name) (length (file_data (disk_block d') (name, bs @ ks)) +
        length (drop BLOCK_SIZE contents)) \<le> length (bs @ ks) + length free'"
      unfolding e w(4) by (rule 1(5))
    obtain bs' free'' d'' where r:
      "mk_copy_loop d' (last (bs @ ks)) (drop BLOCK_SIZE contents) = Some (True, d'')"
      "fs_rep N d'' free'' (as @ (name, bs') # cs)"
      "length bs' + length free'' = length (bs @ ks) + length free'"
      "length bs' = 1 + needed (24 + length name)
        (length (file_data (disk_block d') (name, bs @ ks)) + length (drop BLOCK_SIZE contents))"
      "fs_map d'' (as @ (name, bs') # cs) = (fs_map d' (as @ (name, bs @ ks) # cs))
        (name \<mapsto> file_data (disk_block d') (name, bs @ ks) @ drop BLOCK_SIZE contents)"
      using 1(1)[rule_format, OF less w(2) ne w(3) fit] by blast
    have "fs_map d'' (as @ (name, bs') # cs) = (fs_map d (as @ (name, bs) # cs))
        (name \<mapsto> file_data (disk_block d) (name, bs) @ contents)"
      unfolding r(5) w(5,6) by simp
    moreover have "mk_copy_loop d (last bs) contents = Some (True, d'')"
      using step False r(1) by simp
    ultimately show ?thesis using r(2-4)[unfolded e w(4)] by blast
  qed
qed

text \<open>The blocks one input takes.\<close>

definition blocks_for :: "u8 list \<times> u8 list option \<Rightarrow> nat" where
  "blocks_for input = 1 + needed (24 + length (toys_name (fst input))) (length (the (snd input)))"

lemma mk_files_fit:
  assumes "fs_rep N d free files"
    and "\<And>p c. (p, c) \<in> set inputs \<Longrightarrow> c \<noteq> None \<and> name_ok (toys_name p) \<and>
      fs_map d files (toys_name p) = None"
    and "distinct (map (\<lambda>(p, c). toys_name p) inputs)"
    and "sum_list (map blocks_for inputs) \<le> length free"
  shows "\<exists>d'. mk_files inputs d = Some (Inr d')"
  using assms
proof (induction inputs arbitrary: d free files)
  case Nil
  then show ?case by simp
next
  case (Cons input inputs)
  obtain p contents where i: "input = (p, Some contents)"
    using Cons.prems(2)[of "fst input" "snd input"] by (cases input) auto
  let ?n = "toys_name p"
  have p: "name_ok ?n" "fs_map d files ?n = None" using Cons.prems(2)[of p] i by auto
  obtain new fr where fr: "free = new # fr"
    using Cons.prems(4) by (cases free) (auto simp: blocks_for_def)
  have fresh: "?n \<notin> fst ` set files" using p fs_map_dom[of d files] by blast
  let ?a = "takeWhile (\<lambda>f. fst f < ?n) files" and ?c = "dropWhile (\<lambda>f. fst f < ?n) files"
  obtain d1 where d1: "disk_create_file d ?n 0 = Some (OK, new, d1)"
    "fs_rep N d1 fr (?a @ (?n, [new]) # ?c)"
    "fs_map d1 (?a @ (?n, [new]) # ?c) = (fs_map d files)(?n \<mapsto> [])"
    using create_file_rep[OF Cons.prems(1)[unfolded fr] p(1) fresh] by (auto simp: insert_file_def)
  have empty: "file_data (disk_block d1) (?n, [new]) = []"
    using fs_map_file[OF fs_okD(5)[OF fs_repD(2)[OF d1(2)]], of "(?n, [new])" d1] d1(3) by simp
  have n488: "length ?n \<le> 488" using p(1) by (simp add: name_ok_def)
  then have tight: "tight d1 (?n, [new])" by (simp add: tight_def empty needed_def)
  have "1 + needed (24 + length ?n) (length (file_data (disk_block d1) (?n, [new])) + length contents)
      \<le> length [new] + length fr"
    using Cons.prems(4) i fr empty by (simp add: blocks_for_def)
  from copy_loop_tight[OF d1(2) _ tight this] obtain bs' fr' d2 where
    d2: "mk_copy_loop d1 new contents = Some (True, d2)"
    "fs_rep N d2 fr' (?a @ (?n, bs') # ?c)" "length bs' + length fr' = 1 + length fr"
    "length bs' = blocks_for input"
    "fs_map d2 (?a @ (?n, bs') # ?c) = (fs_map d files)(?n \<mapsto> contents)"
    using empty i d1(3) by (auto simp: blocks_for_def)
  have "\<exists>d'. mk_files inputs d2 = Some (Inr d')"
  proof (rule Cons.IH[OF d2(2)])
    fix p' c' assume in': "(p', c') \<in> set inputs"
    then have "toys_name p' \<noteq> ?n" using Cons.prems(3) i by force
    then show "c' \<noteq> None \<and> name_ok (toys_name p') \<and>
        fs_map d2 (?a @ (?n, bs') # ?c) (toys_name p') = None"
      unfolding d2(5) using Cons.prems(2)[of p' c'] in' by simp
  next
    show "distinct (map (\<lambda>(p, c). toys_name p) inputs)" using Cons.prems(3) by simp
    show "sum_list (map blocks_for inputs) \<le> length fr'" using Cons.prems(4) d2(3,4) fr by simp
  qed
  then show ?case using i d1(1) d2(1) by simp
qed

section \<open>Properties\<close>

lemma initial_disk_ok:
  "disk_ok 2048 \<lparr>block_buffer = replicate 512 0, disk_image = replicate IMAGE_SIZE 0\<rparr>"
  by (simp add: disk_ok_def IMAGE_SIZE_def)

lemma image_blocks: "IMAGE_SIZE div BLOCK_SIZE = 2048"
  by (simp add: IMAGE_SIZE_def BLOCK_SIZE_def)

lemma maketoysfs_start:
  obtains d where "fs_rep 2048 d (all_free 2048) []" and "maketoysfs inputs = mk_files inputs d"
  using format_rep[OF initial_disk_ok] unfolding maketoysfs_def image_blocks by fastforce

text \<open>
  C13. \<open>maketoysfs\<close> never leaves the image whatever its inputs. When it succeeds, the image is a
  well-formed file system that holds exactly the inputs, each under its normalised name with
  exactly its contents; every input could be opened and the names are valid and distinct.
\<close>

theorem maketoysfs_sound:
  "\<exists>r. maketoysfs inputs = Some r \<and> (\<forall>d. r = Inr d \<longrightarrow>
    (\<exists>free files. fs_rep 2048 d free files \<and>
       fs_map d files = map_of (map (\<lambda>(p, c). (toys_name p, the c)) inputs) \<and>
       (\<forall>(p, c) \<in> set inputs. c \<noteq> None \<and> name_ok (toys_name p)) \<and>
       distinct (map (\<lambda>(p, c). toys_name p) inputs)))"
proof -
  obtain d where d: "fs_rep 2048 d (all_free 2048) []" "maketoysfs inputs = mk_files inputs d"
    by (rule maketoysfs_start)
  have "fs_map d [] = Map.empty" by (simp add: fs_map_def)
  with mk_files_correct[OF d(1), of inputs] show ?thesis unfolding d(2) by fastforce
qed

lemma sample_inputs:
  "\<exists>d. maketoysfs [(chars ''bin/a'', Some [1, 2]), (chars ''LICENSE'', Some [])] = Some (Inr d)"
proof -
  let ?in = "[(chars ''bin/a'', Some [1, 2 :: u8]), (chars ''LICENSE'', Some [])]"
  obtain d where d: "fs_rep 2048 d (all_free 2048) []" "maketoysfs ?in = mk_files ?in d"
    by (rule maketoysfs_start)
  show ?thesis unfolding d(2)
    by (rule mk_files_fit[OF d(1)])
      (auto simp: toys_name_def chars_def name_ok_def fs_map_def all_free_def blocks_for_def needed_def)
qed

theorem maketoysfs_sound_witness:
  "\<exists>d free files. maketoysfs [(chars ''bin/a'', Some [1, 2]), (chars ''LICENSE'', Some [])] =
      Some (Inr d) \<and> fs_rep 2048 d free files \<and>
    fs_map d files = [chars ''a'' \<mapsto> [1, 2], chars ''src/LICENSE'' \<mapsto> []]"
proof -
  obtain d where d: "maketoysfs [(chars ''bin/a'', Some [1, 2]), (chars ''LICENSE'', Some [])] =
      Some (Inr d)" using sample_inputs by blast
  from maketoysfs_sound[of "[(chars ''bin/a'', Some [1, 2]), (chars ''LICENSE'', Some [])]"] d
  obtain free files where "fs_rep 2048 d free files"
    "fs_map d files = map_of (map (\<lambda>(p, c). (toys_name p, the c))
      [(chars ''bin/a'', Some [1, 2]), (chars ''LICENSE'', Some [])])" by auto
  then show ?thesis using d by (auto simp: toys_name_def chars_def fun_upd_twist)
qed

text \<open>
  C25. \<open>maketoysfs\<close> succeeds whenever it can: when every input opens, the normalised names are valid
  and distinct, and the blocks the inputs need, one and the rounded-up overflow for each, are at
  most the 2047 there are.
\<close>

theorem maketoysfs_complete:
  assumes "\<forall>(p, c) \<in> set inputs. c \<noteq> None \<and> name_ok (toys_name p)"
    and "distinct (map (\<lambda>(p, c). toys_name p) inputs)"
    and "(\<Sum>(p, c) \<leftarrow> inputs. 1 + (length (the c) - (488 - length (toys_name p)) + 503) div 504) \<le> 2047"
  shows "\<exists>d. maketoysfs inputs = Some (Inr d)"
proof -
  obtain d where d: "fs_rep 2048 d (all_free 2048) []" "maketoysfs inputs = mk_files inputs d"
    by (rule maketoysfs_start)
  have "map blocks_for inputs =
      map (\<lambda>(p, c). 1 + (length (the c) - (488 - length (toys_name p)) + 503) div 504) inputs"
    by (auto simp: blocks_for_def needed_def)
  then have "sum_list (map blocks_for inputs) \<le> 2047" using assms(3) by (simp only:)
  then have "sum_list (map blocks_for inputs) \<le> length (all_free 2048)"
    by (simp add: all_free_def)
  then show ?thesis unfolding d(2)
    using assms(1,2) by (intro mk_files_fit[OF d(1)]) (auto simp: fs_map_def)
qed

theorem maketoysfs_complete_witness:
  "\<exists>d. maketoysfs [(chars ''bin/toys'', Some [7]), (chars ''bin/b'', Some [])] = Some (Inr d)"
  by (rule maketoysfs_complete) (auto simp: toys_name_def chars_def name_ok_def)

end
