(* ===== verification/Dump_Toysfs.thy ===== *)
theory Dump_Toysfs
  imports Make_Toysfs
begin

text \<open>
  \<open>tools/dumptoysfs.c\<close>: writes the files of an image to a TAR archive, or their names, sizes and
  line counts to a CSV file. The output file is the list of bytes written. A reader of TAR
  archives is defined to state that the archive holds the files.
\<close>

declare of_nat_diff [simp del]

section \<open>Numbers in text\<close>

text \<open>\<open>printf\<close>'s \<open>%o\<close> and \<open>%lu\<close>, and \<open>%06o\<close>.\<close>

fun digits :: "nat \<Rightarrow> nat \<Rightarrow> u8 list" where
  "digits base n =
     (if n < base \<or> base < 2 then [of_nat (48 + n)]
      else digits base (n div base) @ [of_nat (48 + n mod base)])"

declare digits.simps [simp del]

definition octal_6 :: "nat \<Rightarrow> u8 list" where
  "octal_6 n = replicate (6 - length (digits 8 n)) 48 @ digits 8 n"

section \<open>TAR headers\<close>

definition TAR_BLOCK_SIZE :: nat where "TAR_BLOCK_SIZE = 512"

text \<open>An array field of a zero-initialised struct, holding a string.\<close>

definition char_field :: "nat \<Rightarrow> u8 list \<Rightarrow> u8 list" where
  "char_field n s = take n (s @ replicate n 0)"

text \<open>The header before its checksum is filled in: the checksum field holds eight blanks.\<close>

definition blank_header :: "u8 list \<Rightarrow> u32 \<Rightarrow> u8 list" where
  "blank_header name sz =
     char_field 100 name @ char_field 8 (chars ''0000664'') @ char_field 8 (chars ''0001750'') @
     char_field 8 (chars ''0001750'') @ char_field 12 (digits 8 (unat sz)) @
     char_field 12 (chars ''00000000000'') @ char_field 8 (chars ''        '') @
     char_field 1 (chars ''0'') @ char_field 100 [] @ char_field 255 []"

text \<open>\<open>char\<close> is signed; each byte is sign-extended before it is added.\<close>

definition compute_tar_header :: "u8 list \<Rightarrow> u32 \<Rightarrow> u8 list" where
  "compute_tar_header name sz =
     (let header = blank_header name sz;
          checksum = (\<Sum>c \<leftarrow> header. scast c :: u32)
      in blit header 148 (octal_6 (unat checksum) @ [0]))"

section \<open>The program\<close>

text \<open>The bytes of one file: the line count, the last character seen, and the output.\<close>

fun count_lines :: "u8 list \<Rightarrow> u64 \<Rightarrow> u8 \<Rightarrow> u64 \<times> u8" where
  "count_lines [] line_count last_char = (line_count, last_char)"
| "count_lines (c # cs) line_count last_char =
     count_lines cs (if last_char = 10 then line_count + 1 else line_count) c"

partial_function (option) dump_data_loop ::
    "disk \<Rightarrow> bool \<Rightarrow> bool \<Rightarrow> u64 \<Rightarrow> u64 \<Rightarrow> u64 \<Rightarrow> u64 \<Rightarrow> u8 \<Rightarrow> u8 list \<Rightarrow>
     (u64 \<times> u8 list \<times> disk) option" where
  "dump_data_loop self tar_mode is_source_file block offset remaining line_count last_char out =
     (if remaining > 0
      then do {
        r \<leftarrow> disk_read_file self block offset 512;
        (case r of (missing, block, offset, bytes, self) \<Rightarrow>
           let n = 512 - missing;
             buffer = take (unat n) bytes @ replicate (unat (512 - n)) 0;
             out = (if tar_mode then out @ buffer else out);
             counted = (if \<not> tar_mode \<and> is_source_file
               then count_lines (take (unat n) bytes) line_count last_char
               else (line_count, last_char))
           in dump_data_loop self tar_mode is_source_file block offset (remaining - n)
                (fst counted) (snd counted) out)
      }
      else Some (line_count, out, self))"

definition is_source :: "u8 list \<Rightarrow> u32 \<Rightarrow> bool" where
  "is_source name name_len \<longleftrightarrow>
     length name > 4 \<and> drop (unat (name_len - 4)) name = chars ''.toy''"

definition dump_row :: "u8 list \<Rightarrow> u64 \<Rightarrow> u64 \<Rightarrow> u8 list" where
  "dump_row name sz lines =
     name @ chars '','' @ digits 10 (unat sz) @ chars '','' @ digits 10 (unat lines) @ [10]"

text \<open>The loop over the files, from block \<open>file\<close> on.\<close>

partial_function (option) dump_files_loop ::
    "disk \<Rightarrow> bool \<Rightarrow> u64 \<Rightarrow> u8 list \<Rightarrow> (u8 list \<times> disk) option" where
  "dump_files_loop self tar_mode file out =
     (if file \<noteq> 0
      then do {
        self \<leftarrow> disk_read_block_buffer self file;
        let next = next_file (block_buffer self);
        let name_len = (ucast (name_length (block_buffer self)) :: u32);
        let name = takeWhile (\<lambda>c. c \<noteq> 0) (take (unat name_len) (name_bytes (block_buffer self)));
        (if unat name_len > 488 then None
         else do {
           sized \<leftarrow> disk_get_file_size self file;
           (case sized of (sz, self) \<Rightarrow>
              if tar_mode \<and> length name > 99 then dump_files_loop self tar_mode next out
              else do {
                let out = (if tar_mode then out @ compute_tar_header name (ucast sz) else out);
                data \<leftarrow> dump_data_loop self tar_mode (is_source name name_len) file
                  (24 + ucast name_len) sz 0 10 out;
                (case data of (line_count, out, self) \<Rightarrow>
                   dump_files_loop self tar_mode next
                     (if tar_mode then out else out @ dump_row name sz line_count))
              })
         })
      }
      else Some (out, self))"

definition dumptoysfs :: "u8 list \<Rightarrow> bool \<Rightarrow> u8 list option" where
  "dumptoysfs input tar_mode = do {
     let self = \<lparr>block_buffer = replicate 512 0, disk_image = input\<rparr>;
     let out = (if tar_mode then [] else chars ''name,bytes,lines'' @ [10]);
     self \<leftarrow> disk_read_block_buffer self SUPER_BLOCK;
     r \<leftarrow> dump_files_loop self tar_mode (next_file (block_buffer self)) out;
     (case r of (out, self) \<Rightarrow>
        Some (if tar_mode then out @ replicate (2 * TAR_BLOCK_SIZE) 0 else out))
   }"

section \<open>The data of one file\<close>

text \<open>The contents padded with zeros to whole TAR blocks.\<close>

definition tar_pad :: "u8 list \<Rightarrow> u8 list" where
  "tar_pad data = data @ replicate ((512 - length data mod 512) mod 512) 0"

lemma count_lines_append:
  "count_lines (xs @ ys) l c = (case count_lines xs l c of (l', c') \<Rightarrow> count_lines ys l' c')"
  by (induction xs arbitrary: l c) auto

lemma tar_pad_step: "512 < length data \<Longrightarrow> tar_pad data = take 512 data @ tar_pad (drop 512 data)"
  by (simp add: tar_pad_def le_mod_geq[of 512 "length data"])

lemma tar_pad_last: "0 < length data \<Longrightarrow> length data \<le> 512 \<Longrightarrow>
    tar_pad data = data @ replicate (512 - length data) 0"
  by (cases "length data = 512") (auto simp: tar_pad_def)

lemma dump_data_loop:
  assumes "disk_ok N d" and "disk_block d = B" and "read_pos N B b off bs"
    and "unat remaining = length (rest B b off bs)"
  shows "\<exists>d'. dump_data_loop d tar src b off remaining lc c out =
      Some (if \<not> tar \<and> src then fst (count_lines (rest B b off bs) lc c) else lc,
        if tar then out @ tar_pad (rest B b off bs) else out, d') \<and>
    disk_ok N d' \<and> disk_block d' = B"
  using assms
proof (induction "length (rest B b off bs)" arbitrary: d b off bs remaining lc c out rule: less_induct)
  case less
  let ?r = "rest B b off bs"
  show ?case
  proof (cases "remaining > 0")
    case False
    then have "remaining = 0" "?r = []" using less.prems(4) by (auto simp: word_gt_0)
    then show ?thesis using less.prems(1,2)
      by (subst dump_data_loop.simps) (simp add: tar_pad_def)
  next
    case True
    then have "0 < unat remaining" by (simp add: word_gt_0 unat_gt_0)
    then have pos: "0 < length ?r" using less.prems(4) by linarith
    obtain b' off' bs' d' where rd: "disk_read_file d b off 512 =
        Some (of_nat (512 - length ?r), b', off', take 512 ?r, d')" "disk_ok N d'" "disk_block d' = B"
      "read_pos N B b' off' bs'" "512 \<le> length ?r \<longrightarrow> rest B b' off' bs' = drop 512 ?r"
      using read_file_loop[OF less.prems(3,1,2), of "[]" 512] unfolding disk_read_file_def by auto
    let ?n = "512 - of_nat (512 - length ?r) :: u64"
    show ?thesis
    proof (cases "length ?r \<le> 512")
      case le: True
      have "(of_nat (512 - length ?r) :: u64) \<le> 512" using le by (simp add: le_u64 unat_of_nat_u64)
      then have n: "unat ?n = length ?r" using le by (simp add: unat_sub_u64 unat_of_nat_u64)
      then have "?n = remaining" using less.prems(4) by (simp add: word_unat_eq_iff)
      then have z: "remaining - ?n = 0" by simp
      have z2: "unat (512 - ?n) = 512 - length ?r" using le by (simp add: unat_of_nat_u64)
      have fin: "dump_data_loop d' tar src b' off' 0 x y z = Some (x, z, d')" for x y z
        by (subst dump_data_loop.simps) simp
      show ?thesis
        using rd(1-3) True n z z2 le pos
        by (subst dump_data_loop.simps) (auto simp: fin Let_def tar_pad_last)
    next
      case False
      then have n: "?n = 512" by simp
      have rem: "unat (remaining - 512) = length (rest B b' off' bs')"
        using less.prems(4) False rd(5) by (subst unat_sub_u64) (auto simp: le_u64)
      have shorter: "length (rest B b' off' bs') < length ?r" using rd(5) False by auto
      have step: "dump_data_loop d tar src b off remaining lc c out =
        (let counted = (if \<not> tar \<and> src then count_lines (take 512 ?r) lc c else (lc, c))
         in dump_data_loop d' tar src b' off' (remaining - 512) (fst counted) (snd counted)
              (if tar then out @ take 512 ?r else out))"
        using rd(1) True n False by (subst dump_data_loop.simps) (auto simp: Let_def)
      have r: "rest B b' off' bs' = drop 512 ?r" using rd(5) False by simp
      have cl: "count_lines ?r lc c = (case count_lines (take 512 ?r) lc c of
          (l', c') \<Rightarrow> count_lines (drop 512 ?r) l' c')"
        by (simp flip: count_lines_append)
      obtain l' c' where c': "count_lines (take 512 ?r) lc c = (l', c')" by force
      define l1 where "l1 = (if \<not> tar \<and> src then l' else lc)"
      define c1 where "c1 = (if \<not> tar \<and> src then c' else c)"
      define out1 where "out1 = (if tar then out @ take 512 ?r else out)"
      have step': "dump_data_loop d tar src b off remaining lc c out =
          dump_data_loop d' tar src b' off' (remaining - 512) l1 c1 out1"
        unfolding step c' Let_def l1_def c1_def out1_def by simp
      have lines: "(if \<not> tar \<and> src then fst (count_lines (rest B b' off' bs') l1 c1) else l1) =
          (if \<not> tar \<and> src then fst (count_lines ?r lc c) else lc)"
        by (simp add: r cl c' l1_def c1_def)
      have bytes: "(if tar then out1 @ tar_pad (rest B b' off' bs') else out1) =
          (if tar then out @ tar_pad ?r else out)"
        using tar_pad_step[of ?r] False by (simp add: r out1_def)
      show ?thesis
        using less.hyps[OF shorter rd(2,3,4) rem, of l1 c1 out1] unfolding step' lines bytes .
    qed
  qed
qed

section \<open>All the files\<close>

definition tar_entry :: "u8 list \<times> u8 list \<Rightarrow> u8 list" where
  "tar_entry f =
     (if length (fst f) > 99 then []
      else compute_tar_header (fst f) (of_nat (length (snd f))) @ tar_pad (snd f))"

definition csv_row :: "u8 list \<times> u8 list \<Rightarrow> u8 list" where
  "csv_row f =
     dump_row (fst f) (of_nat (length (snd f)))
       (if length (fst f) > 4 \<and> drop (length (fst f) - 4) (fst f) = chars ''.toy''
        then fst (count_lines (snd f) 0 10) else 0)"

definition file_contents :: "disk \<Rightarrow> toy_file \<Rightarrow> u8 list \<times> u8 list" where
  "file_contents d f = (fst f, file_data (disk_block d) f)"

lemma stored_name:
  assumes "file_ok B (name, b # bs)"
  shows "unat (ucast (name_length (B b)) :: u32) = length name"
    and "(ucast (ucast (name_length (B b)) :: u32) :: u64) = of_nat (length name)"
    and "takeWhile (\<lambda>c. c \<noteq> 0) (take (length name) (name_bytes (B b))) = name"
proof -
  note o = file_okD[OF assms]
  have n: "length name \<le> 488" "name_length (B b) = of_nat (length name)"
    using o by (simp_all add: name_ok_def)
  have u: "unat (of_nat (length name) :: u64) = length name" using n by (simp add: unat_of_nat_u64)
  have "unat (ucast (of_nat (length name) :: u64) :: u32) = length name"
    unfolding unsigned_ucast_eq u using n by (simp add: take_bit_nat_eq_self)
  then show u32: "unat (ucast (name_length (B b)) :: u32) = length name" using n by simp
  have "unat (ucast (ucast (name_length (B b)) :: u32) :: u64) = length name"
    by (subst unsigned_ucast_eq, unfold u32) (use n in \<open>simp add: take_bit_nat_eq_self\<close>)
  then show "(ucast (ucast (name_length (B b)) :: u32) :: u64) = of_nat (length name)"
    using u by (simp add: word_unat_eq_iff)
  have "take (length name) (name_bytes (B b)) = name"
    using o(5) n by (simp add: name_bytes_def window_def min_def)
  moreover have "\<forall>c \<in> set name. c \<noteq> 0" using o(1) by (auto simp: name_ok_def list_all_iff)
  ultimately show "takeWhile (\<lambda>c. c \<noteq> 0) (take (length name) (name_bytes (B b))) = name"
    by simp
qed

lemma is_source_name:
  assumes "unat n = length name"
  shows "is_source name n \<longleftrightarrow> length name > 4 \<and> drop (length name - 4) name = chars ''.toy''"
proof (cases "length name > 4")
  case True
  then have "unat (n - 4) = length name - 4"
    using assms by (subst unat_sub) (simp_all add: word_le_nat_alt)
  then show ?thesis by (simp add: is_source_def)
next
  case False
  then show ?thesis by (simp add: is_source_def)
qed

lemma dump_files_loop:
  assumes rep: "fs_rep N d0 free files" and sub: "set fs \<subseteq> set files"
  shows "disk_ok N d \<Longrightarrow> disk_block d = disk_block d0 \<Longrightarrow> dir.linked (disk_block d0) x (heads fs) \<Longrightarrow>
    \<exists>d'. dump_files_loop d tar x out = Some (out @
      concat (map (if tar then tar_entry else csv_row) (map (file_contents d0) fs)), d')"
  using sub
proof (induction fs arbitrary: d x out)
  case Nil
  then show ?case by (subst dump_files_loop.simps) simp
next
  case (Cons f fs)
  let ?B = "disk_block d0"
  have f: "f \<in> set files" using Cons.prems(4) by simp
  obtain name b bs where fe: "f = (name, b # bs)"
    using file_okD(2) fs_file_blocks(1)[OF rep f] by (cases f; cases "snd f") fastforce+
  note fb = fs_file_blocks[OF rep f, unfolded fe]
  note sn = stored_name[OF fb(1)]
  have link: "x = b" "b \<noteq> 0" "dir.linked ?B (next_file (?B b)) (heads fs)"
    using Cons.prems(3) fe by auto
  have bN: "unat b < N" using fb(2) by simp
  have n488: "length name \<le> 488" using file_okD(1)[OF fb(1)] by (simp add: name_ok_def)
  obtain d1 where d1: "disk_read_block_buffer d b = Some d1" "disk_ok N d1"
      "block_buffer d1 = ?B b" "disk_block d1 = ?B"
    using dev.readE[OF Cons.prems(1) bN] Cons.prems(2) by metis
  have rep1: "fs_rep N d1 free files" by (rule rep_same(1)[OF rep d1(2,4)])
  let ?data = "file_data ?B f"
  obtain sz d2 where d2: "disk_get_file_size d1 b = Some (sz, d2)" "unat sz = length ?data"
      "disk_ok N d2" "disk_block d2 = ?B"
    using get_file_size_rep[OF rep1 f] d1(4) fe by auto
  have rep2: "fs_rep N d2 free files" by (rule rep_same(1)[OF rep d2(3,4)])
  have "of_nat (unat sz) = sz" by simp
  then have sz: "sz = of_nat (length ?data)" unfolding d2(2) by simp
  have sub': "set fs \<subseteq> set files" using Cons.prems(4) by simp
  note pos = read_pos_start[OF rep f[unfolded fe]]
  let ?src = "is_source name (ucast (name_length (?B b)))"
  have body: "\<exists>d3. dump_data_loop d2 tar ?src b (24 + of_nat (length name)) sz 0 10 o' =
      Some (if \<not> tar \<and> ?src then fst (count_lines ?data 0 10) else 0,
        if tar then o' @ tar_pad ?data else o', d3) \<and> disk_ok N d3 \<and> disk_block d3 = ?B" for o'
    by (rule dump_data_loop[OF d2(3,4) pos(1), unfolded pos(2), folded fe, OF d2(2)])
  define o' where "o' = (if tar then out @ compute_tar_header name (ucast sz) else out)"
  obtain d3 where d3: "dump_data_loop d2 tar ?src b (24 + of_nat (length name)) sz 0 10 o' =
      Some (if \<not> tar \<and> ?src then fst (count_lines ?data 0 10) else 0,
        if tar then o' @ tar_pad ?data else o', d3)" "disk_ok N d3" "disk_block d3 = ?B"
    using body by blast
  have step: "dump_files_loop d tar x out =
      (if tar \<and> length name > 99 then dump_files_loop d2 tar (next_file (?B b)) out
       else dump_files_loop d3 tar (next_file (?B b))
         (out @ (if tar then tar_entry (name, ?data) else csv_row (name, ?data))))"
  proof -
    have u: "(ucast sz :: u32) = of_nat (length ?data)" 
      by (simp add: sz unsigned_of_nat word_of_nat_eq_iff)
    have s1: "dump_files_loop d tar x out =
        (if tar \<and> length name > 99 then dump_files_loop d2 tar (next_file (?B b)) out
         else do {
           data \<leftarrow> dump_data_loop d2 tar ?src b (24 + of_nat (length name)) sz 0 10 o';
           (case data of (line_count, out, self) \<Rightarrow> dump_files_loop self tar (next_file (?B b))
              (if tar then out else out @ dump_row name sz line_count))
         })"
      using link(1,2) d1(1,3) d2(1) sn n488
      by (subst dump_files_loop.simps) (simp add: o'_def Let_def)
    show ?thesis
      unfolding s1 d3(1)
      unfolding is_source_name[OF sn(1)] o'_def u
      by (simp add: tar_entry_def csv_row_def flip: sz)
  qed
  show ?case
  proof (cases "tar \<and> length name > 99")
    case True
    then show ?thesis
      unfolding step using Cons.IH[OF d2(3,4) link(3) sub', of out] fe
      by (simp add: tar_entry_def file_contents_def)
  next
    case False
    then show ?thesis
      unfolding step using fe
        Cons.IH[OF d3(2,3) link(3) sub',
          of "out @ (if tar then tar_entry (name, ?data) else csv_row (name, ?data))"]
      by (cases tar) (simp_all add: file_contents_def)
  qed
qed

section \<open>Reading an archive back\<close>

definition digits_value :: "nat \<Rightarrow> u8 list \<Rightarrow> nat" where
  "digits_value base cs = foldl (\<lambda>v c. base * v + (unat c - 48)) 0 cs"

lemma digits_value_snoc: "digits_value base (cs @ [c]) = base * digits_value base cs + (unat c - 48)"
  by (simp add: digits_value_def)

lemma unat_digit: "k < 10 \<Longrightarrow> unat (of_nat (48 + k) :: u8) = 48 + k"
  by (subst unat_of_nat) (simp add: take_bit_nat_eq_self)

lemma digits_value_digits:
  assumes "2 \<le> base" and "base \<le> 10"
  shows "digits_value base (digits base n) = n"
proof (induction n rule: less_induct)
  case (less n)
  show ?case
  proof (cases "n < base")
    case True
    then show ?thesis using assms unat_digit[of n]
      by (subst digits.simps) (simp add: digits_value_def)
  next
    case False
    then have "n div base < n" using assms by simp
    moreover have "n mod base < 10"
      using assms mod_less_divisor[of base n] by linarith
    ultimately show ?thesis
      using False assms less[of "n div base"] unat_digit[of "n mod base"]
      by (subst digits.simps) (simp add: digits_value_snoc)
  qed
qed

lemma digits_chars: "2 \<le> base \<Longrightarrow> base \<le> 10 \<Longrightarrow> c \<in> set (digits base n) \<Longrightarrow> 48 \<le> unat c \<and> unat c < 58"
proof (induction n rule: less_induct)
  case (less n)
  show ?case
  proof (cases "n < base")
    case True
    then show ?thesis using less.prems unat_digit[of n] by (subst (asm) digits.simps) auto
  next
    case False
    then have "n div base < n" using less.prems by simp
    moreover have "n mod base < 10"
      using less.prems mod_less_divisor[of base n] by linarith
    moreover have "digits base n = digits base (n div base) @ [of_nat (48 + n mod base)]"
      using False less.prems(1) by (subst digits.simps) simp
    ultimately show ?thesis
      using less.prems less.IH[of "n div base"] unat_digit[of "n mod base"] by auto
  qed
qed

lemma length_digits: "2 \<le> base \<Longrightarrow> n < base ^ k \<Longrightarrow> 1 \<le> k \<Longrightarrow> length (digits base n) \<le> k"
proof (induction k arbitrary: n)
  case 0
  then show ?case by simp
next
  case (Suc k)
  show ?case
  proof (cases "n < base")
    case True
    then show ?thesis by (subst digits.simps) simp
  next
    case False
    then have "k \<noteq> 0" using Suc.prems by (cases k) auto
    moreover have "n div base < base ^ k" using Suc.prems by (simp add: div_less_iff_less_mult mult.commute)
    ultimately show ?thesis using False Suc by (subst digits.simps) simp
  qed
qed

text \<open>The strings and numbers of a header, and the blanks its checksum is computed with.\<close>

lemma length_char_field [simp]: "length (char_field n s) = n"
  by (simp add: char_field_def)

lemma char_field_string:
  assumes "length s < n" and "\<forall>c \<in> set s. c \<noteq> 0"
  shows "takeWhile (\<lambda>c. c \<noteq> 0) (char_field n s) = s"
proof -
  have "n - length s = Suc (n - Suc (length s))" using assms(1) by simp
  then have "replicate (n - length s) 0 = (0 :: u8) # replicate (n - Suc (length s)) 0"
    by (simp only: replicate_Suc)
  then have "char_field n s = s @ 0 # replicate (n - Suc (length s)) 0"
    using assms(1) by (simp add: char_field_def)
  then show ?thesis using assms(2) by (simp add: takeWhile_append)
qed

lemma length_blank_header [simp]: "length (blank_header name sz) = 512"
  by (simp add: blank_header_def)

lemma window_skip_field: "n \<le> i \<Longrightarrow> window (char_field n s @ ys) i k = window ys (i - n) k"
  by (simp add: window_def)

lemma window_this_field: "window (char_field n s @ ys) 0 n = char_field n s"
  by (simp add: window_def)

lemma blank_header_fields:
  "window (blank_header name sz) 0 100 = char_field 100 name"
  "window (blank_header name sz) 124 12 = char_field 12 (digits 8 (unat sz))"
  "window (blank_header name sz) 148 8 = [32, 32, 32, 32, 32, 32, 32, 32]"
  unfolding blank_header_def
  by (simp_all add: window_skip_field window_this_field) (simp add: char_field_def chars_def)

lemma octal_6_length: "n < 8 ^ 6 \<Longrightarrow> length (octal_6 n) = 6"
  using length_digits[of 8 n 6] by (simp add: octal_6_def)

lemma digits_value_zeros: "digits_value base (replicate k 48 @ cs) = digits_value base cs"
  by (induction k) (simp_all add: digits_value_def)

lemma octal_6_value: "digits_value 8 (octal_6 n) = n"
  by (simp add: octal_6_def digits_value_zeros digits_value_digits)

definition plain :: "u8 list \<Rightarrow> bool" where
  "plain cs \<longleftrightarrow> list_all (\<lambda>c. c < 128) cs"

lemma plain_simps [simp]:
  "plain (xs @ ys) \<longleftrightarrow> plain xs \<and> plain ys" "plain (replicate n 0)" "plain []"
  by (auto simp: plain_def list_all_iff)

lemma plain_field: "plain s \<Longrightarrow> plain (char_field n s)"
  by (auto simp: plain_def char_field_def list_all_iff dest: in_set_takeD)

lemma plain_digits: "2 \<le> base \<Longrightarrow> base \<le> 10 \<Longrightarrow> plain (digits base n)"
  using digits_chars[of base _ n] by (fastforce simp: plain_def list_all_iff word_less_nat_alt)

lemma plain_header: "plain name \<Longrightarrow> plain (blank_header name sz)"
  unfolding blank_header_def
  by (simp add: plain_field plain_digits) (simp add: char_field_def chars_def plain_def)

lemma checksum_sum:
  assumes "plain cs" and "length cs \<le> 512"
  shows "unat (\<Sum>c \<leftarrow> cs. scast c :: u32) = (\<Sum>c \<leftarrow> cs. unat c) \<and> (\<Sum>c \<leftarrow> cs. unat c) \<le> 127 * length cs"
  using assms
proof (induction cs)
  case Nil
  then show ?case by simp
next
  case (Cons c cs)
  have c: "unat c < 128" using Cons.prems(1) by (simp add: plain_def word_less_nat_alt)
  have "unat (scast c :: u32) = unat c"
  proof -
    have "uint c < 2 ^ 7" using Cons.prems(1) by (simp add: plain_def word_less_def)
    moreover have "- (2 ^ 7) \<le> uint c" by (rule order_trans[of _ 0]) simp_all
    ultimately have "signed_take_bit 7 (uint c) = uint c"
      by (rule signed_take_bit_int_eq_self[rotated])
    then have "sint c = uint c" by (simp add: sint_uint)
    then have e: "(scast c :: u32) = ucast c"
      unfolding scast_eq ucast_eq by (rule arg_cong)
    show ?thesis unfolding e unsigned_ucast_eq using c by (simp add: take_bit_nat_eq_self)
  qed
  moreover have "unat (\<Sum>c \<leftarrow> cs. scast c :: u32) = (\<Sum>c \<leftarrow> cs. unat c)" "(\<Sum>c \<leftarrow> cs. unat c) \<le> 127 * length cs"
    using Cons by (auto simp: plain_def)
  ultimately show ?case using c Cons.prems(2) by (simp add: unat_word_ariths)
qed

text \<open>What a TAR reader sees of a header.\<close>

definition header_name :: "u8 list \<Rightarrow> u8 list" where
  "header_name hdr = takeWhile (\<lambda>c. c \<noteq> 0) (window hdr 0 100)"

definition header_size :: "u8 list \<Rightarrow> nat" where
  "header_size hdr = digits_value 8 (takeWhile (\<lambda>c. c \<noteq> 0) (window hdr 124 12))"

definition header_checksum_ok :: "u8 list \<Rightarrow> bool" where
  "header_checksum_ok hdr \<longleftrightarrow>
     digits_value 8 (window hdr 148 6) =
     (\<Sum>c \<leftarrow> blit hdr 148 [32, 32, 32, 32, 32, 32, 32, 32]. unat c)"

lemma tar_header:
  assumes "name_ok name" and "length name \<le> 99"
  shows "length (compute_tar_header name sz) = 512"
    and "header_name (compute_tar_header name sz) = name"
    and "header_size (compute_tar_header name sz) = unat sz"
    and "header_checksum_ok (compute_tar_header name sz)"
proof -
  let ?h = "blank_header name sz"
  let ?c = "\<Sum>c \<leftarrow> ?h. scast c :: u32"
  have plain: "plain name" using assms(1) by (auto simp: name_ok_def plain_def list_all_iff word_less_nat_alt)
  have nz: "\<forall>c \<in> set name. c \<noteq> 0" using assms(1) by (auto simp: name_ok_def list_all_iff)
  have sum: "unat ?c = (\<Sum>c \<leftarrow> ?h. unat c)" "unat ?c \<le> 65024"
    using checksum_sum[OF plain_header[OF plain, of sz]] by simp_all
  then have o: "length (octal_6 (unat ?c)) = 6" by (intro octal_6_length) simp
  have hdr: "compute_tar_header name sz = blit ?h 148 (octal_6 (unat ?c) @ [0])"
    by (simp add: compute_tar_header_def Let_def)
  show "length (compute_tar_header name sz) = 512" unfolding hdr using o by (simp add: byte_lists)
  have w: "window (compute_tar_header name sz) i n = window ?h i n" if "i + n \<le> 148" for i n
    unfolding hdr using o that by (intro window_blit_other) auto
  show "header_name (compute_tar_header name sz) = name"
    using char_field_string[of name 100] nz assms(2)
    by (simp add: header_name_def w blank_header_fields)
  have "unat sz < 8 ^ 11"
    using unsigned_less[of sz, where ?'a = nat] by simp
  then have "length (digits 8 (unat sz)) < 12" using length_digits[of 8 "unat sz" 11] by simp
  moreover have "\<forall>c \<in> set (digits 8 (unat sz)). c \<noteq> 0" using digits_chars[of 8] by fastforce
  ultimately show "header_size (compute_tar_header name sz) = unat sz"
    by (simp add: header_size_def w blank_header_fields char_field_string digits_value_digits)
  have "window (compute_tar_header name sz) 148 6 = octal_6 (unat ?c)"
    unfolding hdr using o by (subst window_blit_inside) (auto simp: window_def)
  moreover have "blit (compute_tar_header name sz) 148 [32, 32, 32, 32, 32, 32, 32, 32] = ?h"
  proof -
    have "blit (blit ?h 148 (octal_6 (unat ?c) @ [0])) 148 [32, 32, 32, 32, 32, 32, 32, 32] =
        blit ?h 148 [32, 32, 32, 32, 32, 32, 32, 32]"
      using o by (simp add: blit_def)
    also have "\<dots> = blit ?h 148 (window ?h 148 8)" by (simp only: blank_header_fields)
    also have "\<dots> = ?h" by simp
    finally show ?thesis using hdr by simp
  qed
  ultimately show "header_checksum_ok (compute_tar_header name sz)"
    using sum by (simp add: header_checksum_ok_def octal_6_value)
qed

function untar :: "u8 list \<Rightarrow> (u8 list \<times> u8 list) list" where
  "untar xs =
     (if length xs < 512 \<or> hd xs = 0 then []
      else let hdr = take 512 xs; n = header_size hdr
        in if \<not> header_checksum_ok hdr then []
           else (header_name hdr, take n (drop 512 xs)) # untar (drop (512 + (n + 511) div 512 * 512) xs))"
  by pat_completeness auto
termination
  by (relation "measure length") auto

declare untar.simps [simp del]

lemma length_tar_pad: "length (tar_pad data) = (length data + 511) div 512 * 512"
proof (cases "length data mod 512 = 0")
  case True
  then obtain k where "length data = 512 * k" by (auto simp: mod_eq_0_iff_dvd dvd_def)
  then show ?thesis by (simp add: tar_pad_def)
next
  case False
  define k r where "k = length data div 512" and "r = length data mod 512"
  have l: "length data = 512 * k + r" "r < 512" "r \<noteq> 0"
    using False unfolding k_def r_def by simp_all
  then have "(length data + 511) div 512 = k + 1" by simp
  then show ?thesis using l by (simp add: tar_pad_def)
qed

lemma untar_entries:
  assumes "\<And>n c. (n, c) \<in> set fs \<Longrightarrow> name_ok n \<and> length c < 4294967296"
  shows "untar (concat (map tar_entry fs) @ replicate 1024 0) =
    filter (\<lambda>f. length (fst f) \<le> 99) fs"
  using assms
proof (induction fs)
  case Nil
  then show ?case by (subst untar.simps) simp
next
  case (Cons f fs)
  obtain n c where f: "f = (n, c)" by force
  have IH: "untar (concat (map tar_entry fs) @ replicate 1024 0) =
      filter (\<lambda>f. length (fst f) \<le> 99) fs"
    by (rule Cons.IH) (use Cons.prems in auto)
  show ?case
  proof (cases "length n \<le> 99")
    case False
    then have "tar_entry f = []" using f by (simp add: tar_entry_def)
    then show ?thesis using IH f False by simp
  next
    case True
    let ?hdr = "compute_tar_header n (of_nat (length c))"
    let ?tl = "concat (map tar_entry fs) @ replicate 1024 0"
    have n: "name_ok n" "length c < 4294967296" using Cons.prems[of n c] f by auto
    note h = tar_header[OF n(1) True, of "of_nat (length c)"]
    have sz: "header_size ?hdr = length c"
      unfolding h(3) using n(2) by (simp add: unat_of_nat take_bit_nat_eq_self)
    have split: "concat (map tar_entry (f # fs)) @ replicate 1024 0 = ?hdr @ tar_pad c @ ?tl"
      using f True by (simp add: tar_entry_def)
    have "hd ?hdr \<noteq> 0"
    proof
      assume "hd ?hdr = 0"
      then have "header_name ?hdr = []"
        using h(1) by (cases ?hdr) (auto simp: header_name_def window_def)
      then show False using h(2) n(1) by (simp add: name_ok_def)
    qed
    then have "hd (?hdr @ tar_pad c @ ?tl) \<noteq> 0" using h(1) by (cases ?hdr) auto
    moreover have "drop (512 + (length c + 511) div 512 * 512) (?hdr @ tar_pad c @ ?tl) = ?tl"
      unfolding length_tar_pad[symmetric] using h(1) by simp
    moreover have "take (length c) (drop 512 (?hdr @ tar_pad c @ ?tl)) = c"
      using h(1) by (simp add: tar_pad_def)
    moreover have "take 512 (?hdr @ tar_pad c @ ?tl) = ?hdr" using h(1) by simp
    moreover have "\<not> length (?hdr @ tar_pad c @ ?tl) < 512" using h(1) by simp
    ultimately have "untar (?hdr @ tar_pad c @ ?tl) = (n, c) # untar ?tl"
      using h(2,4) sz by (subst untar.simps) (simp only: if_False Let_def simp_thms)
    then show ?thesis unfolding split IH using f True by simp
  qed
qed

section \<open>Properties\<close>

lemma dump_correct:
  assumes "fs_rep N \<lparr>block_buffer = replicate 512 0, disk_image = img\<rparr> free files"
  shows "dumptoysfs img tar = Some ((if tar then [] else chars ''name,bytes,lines'' @ [10]) @
    concat (map (if tar then tar_entry else csv_row)
      (map (file_contents \<lparr>block_buffer = replicate 512 0, disk_image = img\<rparr>) files)) @
    (if tar then replicate 1024 0 else []))"
proof -
  let ?d = "\<lparr>block_buffer = replicate 512 0, disk_image = img\<rparr>"
  note r = fs_okD[OF fs_repD(2)[OF assms]]
  have "unat SUPER_BLOCK < N" using r(1) by (simp add: SUPER_BLOCK_def)
  then obtain d1 where d1: "disk_read_block_buffer ?d SUPER_BLOCK = Some d1" "disk_ok N d1"
      "block_buffer d1 = disk_block ?d 0" "disk_block d1 = disk_block ?d"
    using dev.readE[OF fs_repD(1)[OF assms], of SUPER_BLOCK] by (auto simp: SUPER_BLOCK_def)
  have "\<exists>d'. dump_files_loop d1 tar (next_file (disk_block ?d 0)) out = Some (out @
      concat (map (if tar then tar_entry else csv_row) (map (file_contents ?d) files)), d')" for out
    by (rule dump_files_loop[OF assms subset_refl d1(2,4) r(3)])
  then obtain d' where "dump_files_loop d1 tar (next_file (disk_block ?d 0))
      (if tar then [] else chars ''name,bytes,lines'' @ [10]) =
      Some ((if tar then [] else chars ''name,bytes,lines'' @ [10]) @
        concat (map (if tar then tar_entry else csv_row) (map (file_contents ?d) files)), d')"
    by blast
  then show ?thesis unfolding dumptoysfs_def Let_def using d1(1,3)
    by (simp add: TAR_BLOCK_SIZE_def)
qed

lemma rep_buffer:
  assumes "fs_rep N d free files"
  shows "fs_rep N \<lparr>block_buffer = replicate 512 0, disk_image = disk_image d\<rparr> free files"
    and "disk_block \<lparr>block_buffer = replicate 512 0, disk_image = disk_image d\<rparr> = disk_block d"
proof -
  show e: "disk_block \<lparr>block_buffer = replicate 512 0, disk_image = disk_image d\<rparr> = disk_block d"
    by (simp add: disk_block_def fun_eq_iff)
  show "fs_rep N \<lparr>block_buffer = replicate 512 0, disk_image = disk_image d\<rparr> free files"
    by (rule rep_same(1)[OF assms _ e]) (use fs_repD(1)[OF assms] in \<open>simp add: disk_ok_def\<close>)
qed

lemma dump_tar:
  assumes rep: "fs_rep N d free files" and N: "N < 8388608"
  shows "\<exists>out. dumptoysfs (disk_image d) True = Some out \<and>
    untar out = filter (\<lambda>f. length (fst f) \<le> 99) (map (file_contents d) files)"
proof -
  have c: "file_contents \<lparr>block_buffer = replicate 512 0, disk_image = disk_image d\<rparr> = file_contents d"
    by (simp add: file_contents_def rep_buffer(2)[OF rep] fun_eq_iff)
  have ok: "name_ok n \<and> length v < 4294967296" if "(n, v) \<in> set (map (file_contents d) files)" for n v
  proof -
    have "(n, v) \<in> file_contents d ` set files" using that by simp
    then obtain f where f: "f \<in> set files" "n = fst f" "v = file_data (disk_block d) f"
      by (metis (no_types, lifting) file_contents_def imageE prod.inject)
    show ?thesis
      using file_okD(1)[of "disk_block d" "fst f" "snd f"] fs_file_blocks(1)[OF rep f(1)]
        file_data_length[OF rep f(1)] f N by simp
  qed
  have "untar (concat (map tar_entry (map (file_contents d) files)) @ replicate 1024 0) =
      filter (\<lambda>f. length (fst f) \<le> 99) (map (file_contents d) files)"
    by (rule untar_entries) (rule ok)
  then show ?thesis
    unfolding dump_correct[OF rep_buffer(1)[OF rep]] c by simp
qed

text \<open>
  C12. The TAR archive \<open>dumptoysfs\<close> writes for a well-formed image (of less than 4 GB) is readable
  and complete: a reader that checks header sums and takes names and sizes from the headers gets
  every file with a name of at most 99 characters, in order, with exactly its contents, and no other;
  the dump never leaves the image and always ends.
\<close>

theorem dump_tar_readable:
  assumes "fs_rep N d free files" and "N < 2 ^ 23"
  shows "\<exists>out. dumptoysfs (disk_image d) True = Some out \<and>
    untar out = [(name, file_data (disk_block d) (name, bs)).
      (name, bs) \<leftarrow> files, length name \<le> 99]"
proof -
  have "filter (\<lambda>f. length (fst f) \<le> 99) (map (file_contents d) files) =
      [(name, file_data (disk_block d) (name, bs)). (name, bs) \<leftarrow> files, length name \<le> 99]"
    by (induction files) (auto simp: file_contents_def)
  with dump_tar[OF assms(1)] assms(2) show ?thesis by simp
qed

theorem dump_tar_readable_witness:
  "\<exists>out. dumptoysfs (disk_image sample_disk) True = Some out \<and>
    untar out = [([97], replicate 487 7 @ [0, 0, 0, 0, 0]), ([98], [])]"
  using dump_tar_readable[OF sample_rep] by (simp add: sample_files_def sample_data)

lemma count_lines_value:
  "fst (count_lines (x # xs) l c) = l + of_nat (length (filter (\<lambda>c. c = 10) (c # butlast (x # xs))))"
proof (induction xs arbitrary: x l c)
  case Nil
  then show ?case by simp
next
  case (Cons y xs)
  show ?case
    using Cons.IH[of y "if c = 10 then l + 1 else l" x] by (simp add: algebra_simps)
qed

lemma line_count:
  assumes "length v < 18446744073709551615"
  shows "unat (fst (count_lines v 0 10)) =
    (if v = [] then 0 else 1 + length (filter (\<lambda>c. c = 10) (butlast v)))"
proof (cases v)
  case Nil
  then show ?thesis by simp
next
  case (Cons x xs)
  have "length (filter (\<lambda>c. c = 10) (butlast v)) \<le> length (butlast v)" by (rule length_filter_le)
  then have "1 + length (filter (\<lambda>c. c = 10) (butlast v)) < 18446744073709551616"
    using assms by simp
  moreover have "fst (count_lines v 0 10) = of_nat (1 + length (filter (\<lambda>c. c = 10) (butlast v)))"
    using count_lines_value[of x xs 0 10] Cons by simp
  ultimately have "unat (fst (count_lines v 0 10)) = 1 + length (filter (\<lambda>c. c = 10) (butlast v))"
    by (simp only: unat_of_nat_u64)
  then show ?thesis using Cons by simp
qed

text \<open>
  C26. The CSV report has one line per file, in order, with its name, the decimal length of its
  contents, and, for names that are longer than ".toy" and end in it, the number of lines, counting an
  unfinished last one; other names have 0 there.
\<close>

theorem dump_csv_correct:
  assumes "fs_rep N d free files"
  shows "dumptoysfs (disk_image d) False = Some (chars ''name,bytes,lines'' @ [10] @
    concat (map (\<lambda>f. fst f @ chars '','' @ digits 10 (length (file_data (disk_block d) f)) @
      chars '','' @ digits 10
        (if length (fst f) > 4 \<and> drop (length (fst f) - 4) (fst f) = chars ''.toy'' \<and>
            file_data (disk_block d) f \<noteq> []
         then 1 + length (filter (\<lambda>c. c = 10) (butlast (file_data (disk_block d) f))) else 0)
      @ [10]) files))"
proof -
  have c: "file_contents \<lparr>block_buffer = replicate 512 0, disk_image = disk_image d\<rparr> = file_contents d"
    by (simp add: file_contents_def rep_buffer(2)[OF assms] fun_eq_iff)
  have row: "csv_row (file_contents d f) = fst f @ chars '','' @
      digits 10 (length (file_data (disk_block d) f)) @ chars '','' @ digits 10
        (if length (fst f) > 4 \<and> drop (length (fst f) - 4) (fst f) = chars ''.toy'' \<and>
            file_data (disk_block d) f \<noteq> []
         then 1 + length (filter (\<lambda>c. c = 10) (butlast (file_data (disk_block d) f))) else 0) @ [10]"
    if "f \<in> set files" for f
  proof -
    have N: "N \<le> 18014398509481984" using fs_repD(1)[OF assms] by (simp add: disk_ok_def)
    have "length (file_data (disk_block d) f) \<le> 512 * N" by (rule file_data_length[OF assms that])
    then have l: "length (file_data (disk_block d) f) < 18446744073709551615" using N by linarith
    then have "unat (of_nat (length (file_data (disk_block d) f)) :: u64) =
        length (file_data (disk_block d) f)"
      by (intro unat_of_nat_u64) linarith
    then show ?thesis
      using line_count[OF l] by (simp add: csv_row_def dump_row_def file_contents_def)
  qed
  have rows: "map csv_row (map (file_contents d) files) = map (\<lambda>f. fst f @ chars '','' @
      digits 10 (length (file_data (disk_block d) f)) @ chars '','' @ digits 10
        (if length (fst f) > 4 \<and> drop (length (fst f) - 4) (fst f) = chars ''.toy'' \<and>
            file_data (disk_block d) f \<noteq> []
         then 1 + length (filter (\<lambda>c. c = 10) (butlast (file_data (disk_block d) f))) else 0)
      @ [10]) files"
    unfolding map_map by (rule map_cong[OF refl]) (simp only: comp_def row)
  show ?thesis
    unfolding dump_correct[OF rep_buffer(1)[OF assms]] c if_False rows by simp
qed

theorem dump_csv_correct_witness:
  "dumptoysfs (disk_image sample_disk) False = Some (chars ''name,bytes,lines'' @ [10] @
    chars ''a,492,0'' @ [10] @ chars ''b,0,0'' @ [10])"
proof -
  have "digits 10 492 = chars ''492''" "digits 10 0 = chars ''0''"
    by (simp_all add: digits.simps chars_def)
  then show ?thesis
    using dump_csv_correct[OF sample_rep] by (simp add: sample_files_def sample_data chars_def)
qed

lemma map_of_filter_keys: "map_of (filter (\<lambda>e. P (fst e)) xs) = map_of xs |` {k. P k}"
  by (induction xs) (auto simp: restrict_map_def fun_eq_iff)

text \<open>
  C27. The two tools together: for inputs that fit, the archive \<open>dumptoysfs\<close> makes of the image
  \<open>maketoysfs\<close> makes is a readable TAR archive which holds, in the order of their names, exactly
  the inputs whose normalised names have at most 99 characters; inputs with longer names are in the
  image and not in the archive.
\<close>

theorem make_then_dump:
  assumes inputs: "\<forall>(p, c) \<in> set inputs. c \<noteq> None \<and> name_ok (toys_name p)"
    and dis: "distinct (map (\<lambda>(p, c). toys_name p) inputs)"
    and fit: "(\<Sum>(p, c) \<leftarrow> inputs. 1 + (length (the c) - (488 - length (toys_name p)) + 503) div 504) \<le> 2047"
  shows "\<exists>d out. maketoysfs inputs = Some (Inr d) \<and> dumptoysfs (disk_image d) True = Some out \<and>
    sorted_wrt (<) (map fst (untar out)) \<and>
    map_of (untar out) = map_of [(toys_name p, the c). (p, c) \<leftarrow> inputs, length (toys_name p) \<le> 99]"
proof -
  obtain d0 where d0: "fs_rep 2048 d0 (all_free 2048) []" "maketoysfs inputs = mk_files inputs d0"
    by (rule maketoysfs_start)
  have blocks: "map blocks_for inputs =
      map (\<lambda>(p, c). 1 + (length (the c) - (488 - length (toys_name p)) + 503) div 504) inputs"
    by (auto simp: blocks_for_def needed_def)
  have "sum_list (map blocks_for inputs) \<le> length (all_free 2048)"
    using fit unfolding blocks[symmetric] by (simp add: all_free_def)
  then have "\<exists>d. mk_files inputs d0 = Some (Inr d)"
    using inputs dis by (intro mk_files_fit[OF d0(1)]) (auto simp: fs_map_def)
  then obtain d where d: "mk_files inputs d0 = Some (Inr d)" by blast
  have "fs_map d0 [] = Map.empty" by (simp add: fs_map_def)
  with mk_files_correct[OF d0(1), of inputs] d obtain free files where r: "fs_rep 2048 d free files"
    "fs_map d files = map_of (map (\<lambda>(p, c). (toys_name p, the c)) inputs)" by fastforce
  let ?short = "\<lambda>f :: u8 list \<times> u8 list. length (fst f) \<le> 99"
  obtain out where out: "dumptoysfs (disk_image d) True = Some out" "untar out = filter ?short (map (file_contents d) files)"
    using dump_tar[OF r(1)] by auto
  have "sorted_wrt (\<lambda>f g. fst f < fst g) (map (file_contents d) files)"
    using fs_okD(5)[OF fs_repD(2)[OF r(1)]] by (simp add: sorted_wrt_map file_contents_def)
  from sorted_wrt_filter[OF this] have "sorted_wrt (<) (map fst (untar out))" unfolding out(2) sorted_wrt_map .
  moreover have "map_of (untar out) = map_of (filter ?short (map (\<lambda>(p, c). (toys_name p, the c)) inputs))"
    using r(2) unfolding out(2) map_of_filter_keys[where P = "\<lambda>k. length k \<le> 99"] fs_map_def file_contents_def by simp
  moreover have "filter ?short (map (\<lambda>(p, c). (toys_name p, the c)) inputs) =
      [(toys_name p, the c). (p, c) \<leftarrow> inputs, length (toys_name p) \<le> 99]"
    by (induction inputs) auto
  ultimately show ?thesis using d0(2) d out(1) by auto
qed

theorem make_then_dump_witness:
  "\<exists>d out. maketoysfs [(chars ''bin/b'', Some [1, 2]), (replicate 100 97, Some [3]), (chars ''a'', Some [])] = Some (Inr d) \<and>
    dumptoysfs (disk_image d) True = Some out \<and>
    map_of (untar out) = [chars ''a'' \<mapsto> [], chars ''b'' \<mapsto> [1, 2]]"
proof -
  let ?in = "[(chars ''bin/b'', Some [1, 2]), (replicate 100 97, Some [3]), (chars ''a'', Some [])] :: (u8 list \<times> u8 list option) list"
  have n: "toys_name (chars ''bin/b'') = chars ''b''" "toys_name (replicate 100 97) = replicate 100 97" "toys_name (chars ''a'') = chars ''a''"
    by (simp_all add: toys_name_def chars_def) (simp add: numeral_eq_Suc)
  have "replicate 100 (97 :: u8) \<noteq> chars ''a''" "replicate 100 (97 :: u8) \<noteq> chars ''b''" "chars ''b'' \<noteq> chars ''a''"
    by (auto simp: chars_def dest: arg_cong[where f = length])
  then have "\<exists>d out. maketoysfs ?in = Some (Inr d) \<and>
      dumptoysfs (disk_image d) True = Some out \<and> sorted_wrt (<) (map fst (untar out)) \<and>
      map_of (untar out) = map_of [(toys_name p, the c). (p, c) \<leftarrow> ?in, length (toys_name p) \<le> 99]"
    by (intro make_then_dump) (auto simp: n name_ok_def, auto simp: chars_def list_all_iff)
  then show ?thesis by (auto simp: n fun_upd_twist) (auto simp: chars_def)
qed

end
