(* ===== verification/Tc_Base.thy ===== *)
theory Tc_Base
  imports Toys_Prelude
begin

text \<open>
  The state of the Toy compiler of \<open>tools/toyc\<close> (\<open>base.h\<close>), and what a call can come to.

  \<^item> \<open>Ret x\<close>: the function returns. \<open>Panic e\<close>: \<open>panic(e)\<close> has ended the program with exit code \<open>e\<close>.
    \<open>Fault\<close>: the C code has no defined result, an access outside an array or through a pointer
    that points to no object. \<open>OutOfFuel\<close>: the model has used up the bound on its recursion.
    The properties show that \<open>Fault\<close> and \<open>OutOfFuel\<close> do not happen.
  \<^item> \<open>SRC\<close> is the list \<open>source\<close>; a pointer into it is its offset, a natural number (an \<open>uintptr_t\<close>
    made from one is its image in \<open>u64\<close>; \<open>SRC\<close> has 65536 bytes). \<open>DST\<close> is the list \<open>code\<close>, which
    starts at the address \<open>code_base\<close>, since placeholder chains tell its addresses from null.
  \<^item> The heap holds symbols and values at addresses; \<open>cells\<close> maps the address of each to its
    contents.
\<close>

section \<open>Results\<close>

datatype 'a res = Ret 'a | Panic u64 | Fault | OutOfFuel

fun seq :: "'a res \<Rightarrow> ('a \<Rightarrow> 'b res) \<Rightarrow> 'b res" where
  "seq (Ret x) f = f x"
| "seq (Panic e) f = Panic e"
| "seq Fault f = Fault"
| "seq OutOfFuel f = OutOfFuel"

lemma seq_cong [fundef_cong]:
  "m = m' \<Longrightarrow> (\<And>x. m' = Ret x \<Longrightarrow> f x = f' x) \<Longrightarrow> seq m f = seq m' f'"
  by (cases m') auto

lemma seq_assoc: "seq (seq m f) g = seq m (\<lambda>x. seq (f x) g)"
  by (cases m) auto

lemma seq_eq_Ret: "seq m f = Ret y \<longleftrightarrow> (\<exists>x. m = Ret x \<and> f x = Ret y)"
  by (cases m) auto

lemma seq_eq_Panic: "seq m f = Panic e \<longleftrightarrow> m = Panic e \<or> (\<exists>x. m = Ret x \<and> f x = Panic e)"
  by (cases m) auto

lemma seq_eq_Fault: "seq m f = Fault \<longleftrightarrow> m = Fault \<or> (\<exists>x. m = Ret x \<and> f x = Fault)"
  by (cases m) auto

lemma seq_eq_OutOfFuel: "seq m f = OutOfFuel \<longleftrightarrow> m = OutOfFuel \<or> (\<exists>x. m = Ret x \<and> f x = OutOfFuel)"
  by (cases m) auto

section \<open>The compiler state\<close>

record symbol =
  sym_name :: u64
  sym_length :: u64
  sym_kind :: u64
  sym_value :: u64
  sym_type :: u64
  sym_dim :: u64
  sym_next :: u64

record val =
  val_origin :: u64
  val_slot :: u64
  val_type :: u64
  val_dim :: u64

datatype cell = Sym symbol | Val val

record compiler =
  source :: "u8 list"
  src :: nat
  src_end :: nat
  next_char :: u8
  next_char_type :: u64
  next_token :: u64
  next_token_data :: u64
  next_token_length :: u64
  code_base :: u64
  code :: "u8 list"
  dst :: u64
  dst_mark :: u64
  dst_limit :: u64
  cells :: "u64 \<rightharpoonup> cell"
  heap :: u64
  heap_limit :: u64
  symbols :: u64
  fn_return_type :: u64
  next_register :: u64
  frame_size :: u64

section \<open>Loads and stores\<close>

text \<open>Reading the source, a constant table, or the code.\<close>

definition load8 :: "u8 list \<Rightarrow> nat \<Rightarrow> u64 res" where
  "load8 mem p = (if p < length mem then Ret (ucast (mem ! p)) else Fault)"

lemma load8_inside: "p < length mem \<Longrightarrow> load8 mem p = Ret (ucast (mem ! p))"
  by (simp add: load8_def)

definition load16 :: "u8 list \<Rightarrow> nat \<Rightarrow> u64 res" where
  "load16 mem p = seq (load8 mem (p + 1)) (\<lambda>h. seq (load8 mem p) (\<lambda>l. Ret (push_bit 8 h + l)))"

definition load32 :: "u8 list \<Rightarrow> nat \<Rightarrow> u64 res" where
  "load32 mem p = seq (load16 mem (p + 2)) (\<lambda>h. seq (load16 mem p) (\<lambda>l. Ret (push_bit 16 h + l)))"

text \<open>Counting up to a bound, the measure of most loops.\<close>

lemma u64_succ: "(i :: u64) < n \<Longrightarrow> unat (i + 1) = unat i + 1"
  using unat_u64_less[of n] by (subst unat_add_u64) (auto simp: less_u64)

lemma u64_countdown: "(i :: u64) < n \<Longrightarrow> unat (n - (i + 1)) < unat (n - i)"
  using u64_succ[of i n] by (simp add: unat_sub_u64 le_u64 less_u64)

section \<open>Tokens\<close>

definition TC_INTEGER :: u64 where "TC_INTEGER = 2"
definition TC_IDENTIFIER :: u64 where "TC_IDENTIFIER = 3"
definition TC_ADD :: u64 where "TC_ADD = 4"
definition TC_SUB :: u64 where "TC_SUB = 5"
definition TC_MUL :: u64 where "TC_MUL = 6"
definition TC_DIV :: u64 where "TC_DIV = 7"
definition TC_BIT_AND :: u64 where "TC_BIT_AND = 8"
definition TC_BIT_OR :: u64 where "TC_BIT_OR = 9"
definition TC_SHIFT_LEFT :: u64 where "TC_SHIFT_LEFT = 10"
definition TC_SHIFT_RIGHT :: u64 where "TC_SHIFT_RIGHT = 11"
definition TC_LT :: u64 where "TC_LT = 12"
definition TC_GE :: u64 where "TC_GE = 17"
definition TC_AND :: u64 where "TC_AND = 18"
definition TC_OR :: u64 where "TC_OR = 19"
definition TC_ARROW :: u64 where "TC_ARROW = 20"
definition TC_BREAK :: u64 where "TC_BREAK = 128"
definition TC_CONST :: u64 where "TC_CONST = 129"
definition TC_ELSE :: u64 where "TC_ELSE = 130"
definition TC_FN :: u64 where "TC_FN = 131"
definition TC_IF :: u64 where "TC_IF = 132"
definition TC_LET :: u64 where "TC_LET = 133"
definition TC_LOOP :: u64 where "TC_LOOP = 134"
definition TC_RETURN :: u64 where "TC_RETURN = 135"
definition TC_STATIC :: u64 where "TC_STATIC = 136"
definition TC_WHILE :: u64 where "TC_WHILE = 137"
definition TC_AS :: u64 where "TC_AS = 138"
definition TC_NULL :: u64 where "TC_NULL = 139"
definition TC_SIZEOF :: u64 where "TC_SIZEOF = 140"
definition TC_STRUCT :: u64 where "TC_STRUCT = 141"
definition TC_U32 :: u64 where "TC_U32 = 142"

lemmas tokens = TC_INTEGER_def TC_IDENTIFIER_def TC_ADD_def TC_SUB_def TC_MUL_def TC_DIV_def
  TC_BIT_AND_def TC_BIT_OR_def TC_SHIFT_LEFT_def TC_SHIFT_RIGHT_def TC_LT_def TC_GE_def TC_AND_def
  TC_OR_def TC_ARROW_def TC_BREAK_def TC_CONST_def TC_ELSE_def TC_FN_def TC_IF_def TC_LET_def
  TC_LOOP_def TC_RETURN_def TC_STATIC_def TC_WHILE_def TC_AS_def TC_NULL_def TC_SIZEOF_def
  TC_STRUCT_def TC_U32_def

section \<open>Kinds of symbols\<close>

definition SYM_FN :: u64 where "SYM_FN = 0"
definition SYM_FORWARD_FN :: u64 where "SYM_FORWARD_FN = 1"
definition SYM_VARIABLE :: u64 where "SYM_VARIABLE = 2"
definition SYM_CONST :: u64 where "SYM_CONST = 3"
definition SYM_STATIC :: u64 where "SYM_STATIC = 4"
definition SYM_STRUCT :: u64 where "SYM_STRUCT = 5"
definition SYM_FIELD :: u64 where "SYM_FIELD = 6"
definition SYM_VOID :: u64 where "SYM_VOID = 7"

lemmas kinds = SYM_FN_def SYM_FORWARD_FN_def SYM_VARIABLE_def SYM_CONST_def SYM_STATIC_def
  SYM_STRUCT_def SYM_FIELD_def SYM_VOID_def

end
