(* ===== verification/Tc_Scanner.thy ===== *)
theory Tc_Scanner
  imports Tc_Base
begin

text \<open>
  The scanner, \<open>tools/toyc/scanner.c\<close>, function by function. A loop of the code is a recursive
  function whose measure is the part of the source that is left.
\<close>

section \<open>Tables\<close>

definition TC_CHAR_TYPES :: "u8 list" where
  "TC_CHAR_TYPES =
     [1,1,1,1,1,1,1,1,1,32,32,1,1,1,1,1,1,1,1,1,1,1,1,1,1,1,1,1,1,1,1,1,
      32,10,1,1,1,1,11,39,40,41,6,4,44,16,46,7,2,2,2,2,2,2,2,2,2,2,58,59,12,13,
      14,1,1,3,3,3,3,3,3,3,3,3,3,3,3,3,3,3,3,3,3,3,3,3,3,3,3,3,3,91,1,93,1,3,
      1,3,3,3,3,3,3,3,3,3,3,3,3,3,3,3,3,3,3,3,3,3,3,3,3,3,3,123,15,125,1,1] @
     replicate 128 1"

definition TC_OPERATORS :: "u8 list" where
  "TC_OPERATORS =
     [1,1,16,1,8,18,1,1,12,10,15,1,61,13,13,1,14,11,17,11,9,19,1,1,5,1,1,20]"

definition TC_KEYWORDS :: "u8 list" where
  "TC_KEYWORDS =
     [0,0,0,0,0,0,0,107,88,0,0,0,0,0,0,0,0,0,0,0,0,137,
      0,0,121,0,0,96,0,92,0,0,0,0,0,75,101,0,0,0,0,0,0,0,
      0,0,129,0,113,150,64,145,0,0,0,0,0,82,0,0,0,0,0,68,
      2,97,115,138,
      5,98,114,101,97,107,128,
      5,99,111,110,115,116,129,
      4,101,108,115,101,130,
      2,102,110,131,
      2,105,102,132,
      3,108,101,116,133,
      4,108,111,111,112,134,
      4,110,117,108,108,139,
      6,114,101,116,117,114,110,135,
      6,115,105,122,101,111,102,140,
      6,115,116,97,116,105,99,136,
      6,115,116,114,117,99,116,141,
      3,117,54,52,142,
      5,119,104,105,108,101,137]"

section \<open>The code\<close>

text \<open>\<open>mem_compare\<close> on two memories, the source and a table or the source twice.\<close>

function mem_compare_loop :: "u8 list \<Rightarrow> nat \<Rightarrow> u8 list \<Rightarrow> nat \<Rightarrow> u64 \<Rightarrow> u64 \<Rightarrow> u64 res" where
  "mem_compare_loop mem1 ptr1 mem2 ptr2 sz i =
     (if i < sz
      then seq (load8 mem1 (ptr1 + unat i)) (\<lambda>a. seq (load8 mem2 (ptr2 + unat i)) (\<lambda>b.
        if a = b then mem_compare_loop mem1 ptr1 mem2 ptr2 sz (i + 1) else Ret (sz - i)))
      else Ret (sz - i))"
  by pat_completeness auto
termination
  by (relation "measure (\<lambda>(_, _, _, _, sz, i). unat (sz - i))") (auto simp: u64_countdown)

declare mem_compare_loop.simps [simp del]

definition mem_compare :: "u8 list \<Rightarrow> nat \<Rightarrow> u8 list \<Rightarrow> nat \<Rightarrow> u64 \<Rightarrow> u64 res" where
  "mem_compare mem1 ptr1 mem2 ptr2 sz = mem_compare_loop mem1 ptr1 mem2 ptr2 sz 0"

definition tc_get_keyword :: "compiler \<Rightarrow> nat \<Rightarrow> u64 \<Rightarrow> u64 \<Rightarrow> u64 res" where
  "tc_get_keyword self start len hashcode =
     seq (load8 TC_KEYWORDS (unat hashcode)) (\<lambda>keyword.
     if keyword \<noteq> 0
     then seq (load8 TC_KEYWORDS (unat keyword)) (\<lambda>l.
       if len = l
       then seq (mem_compare (source self) start TC_KEYWORDS (unat keyword + 1) len) (\<lambda>c.
         if c = 0 then load8 TC_KEYWORDS (unat keyword + unat len + 1) else Ret TC_IDENTIFIER)
       else Ret TC_IDENTIFIER)
     else Ret TC_IDENTIFIER)"

definition tc_read_char :: "compiler \<Rightarrow> (u64 \<times> compiler) res" where
  "tc_read_char self =
     (if src self \<ge> src_end self then Panic 10
      else let p = src self + 1 in
        if p < src_end self
        then seq (load8 (source self) p) (\<lambda>c. seq (load8 TC_CHAR_TYPES (unat c)) (\<lambda>type.
          Ret (type, self\<lparr>src := p, next_char := ucast c, next_char_type := type\<rparr>)))
        else Ret (0, self\<lparr>src := p, next_char := 0, next_char_type := 0\<rparr>))"

text \<open>Each character read leaves less of the source.\<close>

definition chars_left :: "compiler \<Rightarrow> nat" where
  "chars_left self = src_end self - src self"

lemma tc_read_char_less: "tc_read_char self = Ret (type, self') \<Longrightarrow> chars_left self' < chars_left self"
  by (auto simp: tc_read_char_def chars_left_def seq_eq_Ret Let_def split: if_splits)

function tc_read_integer_loop :: "compiler \<Rightarrow> u64 \<Rightarrow> u64 \<Rightarrow> (u64 \<times> compiler) res" where
  "tc_read_integer_loop self type v =
     (if type = TC_INTEGER
      then let v = v * 10 + (ucast (next_char self) - 48) in
        seq (tc_read_char self) (\<lambda>(type, self). tc_read_integer_loop self type v)
      else Ret (v, self))"
  by pat_completeness auto
termination
  by (relation "measure (\<lambda>(self, _, _). chars_left self)") (auto dest: tc_read_char_less)

declare tc_read_integer_loop.simps [simp del]

definition tc_read_integer :: "compiler \<Rightarrow> (u64 \<times> compiler) res" where
  "tc_read_integer self =
     seq (tc_read_integer_loop self (next_char_type self) 0) (\<lambda>(v, self).
     Ret (TC_INTEGER, self\<lparr>next_token_data := v\<rparr>))"

definition tc_read_quoted_char :: "compiler \<Rightarrow> (u64 \<times> compiler) res" where
  "tc_read_quoted_char self =
     seq (tc_read_char self) (\<lambda>(_, self).
     let value = next_char self in
     if value < 32 \<or> value \<ge> 127 then Panic 11
     else seq (tc_read_char self) (\<lambda>(type, self).
       if type \<noteq> 39 then Panic 12
       else seq (tc_read_char self) (\<lambda>(_, self).
         Ret (TC_INTEGER, self\<lparr>next_token_data := ucast value\<rparr>))))"

function tc_read_identifier_loop :: "compiler \<Rightarrow> u64 \<Rightarrow> u64 \<Rightarrow> (u64 \<times> compiler) res" where
  "tc_read_identifier_loop self type hashcode =
     (if type = TC_IDENTIFIER \<or> type = TC_INTEGER
      then let hashcode = 31 * hashcode + ucast (next_char self) in
        seq (tc_read_char self) (\<lambda>(type, self). tc_read_identifier_loop self type hashcode)
      else Ret (hashcode, self))"
  by pat_completeness auto
termination
  by (relation "measure (\<lambda>(self, _, _). chars_left self)") (auto dest: tc_read_char_less)

declare tc_read_identifier_loop.simps [simp del]

definition tc_read_identifier :: "compiler \<Rightarrow> (u64 \<times> compiler) res" where
  "tc_read_identifier self =
     (let start = src self in
      seq (tc_read_identifier_loop self (next_char_type self) 0) (\<lambda>(hashcode, self).
      let len = of_nat (src self - start);
          self = self\<lparr>next_token_data := of_nat start, next_token_length := len\<rparr> in
      seq (tc_get_keyword self start len (hashcode AND 63)) (\<lambda>token. Ret (token, self))))"

definition tc_read_operator :: "compiler \<Rightarrow> u64 \<Rightarrow> (u64 \<times> compiler) res" where
  "tc_read_operator self first_char_type =
     seq (tc_read_char self) (\<lambda>(second_char_type, self).
     let index = 4 * (first_char_type - 10) in
     seq (if second_char_type = first_char_type
          then seq (tc_read_char self) (\<lambda>(_, self). Ret (index + 1, self))
          else if next_char self = 61
          then seq (tc_read_char self) (\<lambda>(_, self). Ret (index + 2, self))
          else if next_char self = 62
          then seq (tc_read_char self) (\<lambda>(_, self). Ret (index + 3, self))
          else Ret (index, self)) (\<lambda>(index, self).
     seq (load8 TC_OPERATORS (unat index)) (\<lambda>token. Ret (token, self))))"

text \<open>\<open>load16\<close> of the characters "*/" is 12074. The result of \<open>tc_read_comment\<close> is 0 or 1.\<close>

function tc_read_comment_loop :: "compiler \<Rightarrow> nat \<Rightarrow> nat res" where
  "tc_read_comment_loop self p =
     (if p + 3 < src_end self
      then seq (load16 (source self) (p + 2)) (\<lambda>w.
        if w \<noteq> 12074 then tc_read_comment_loop self (p + 1) else Ret p)
      else Ret p)"
  by pat_completeness auto
termination
  by (relation "measure (\<lambda>(self, p). src_end self - p)") auto

declare tc_read_comment_loop.simps [simp del]

definition tc_read_comment :: "compiler \<Rightarrow> nat \<Rightarrow> (u64 \<times> compiler) res" where
  "tc_read_comment self p =
     (if p + 1 \<ge> src_end self then Ret (0, self)
      else seq (load8 (source self) (p + 1)) (\<lambda>c.
        if c \<noteq> 42 then Ret (0, self)
        else seq (tc_read_comment_loop self p) (\<lambda>p. Ret (1, self\<lparr>src := p + 3\<rparr>))))"

lemma tc_read_comment_loop_ge: "tc_read_comment_loop self p = Ret q \<Longrightarrow> p \<le> q"
proof (induction self p rule: tc_read_comment_loop.induct)
  case (1 self p)
  from 1(2) show ?case
    by (subst (asm) tc_read_comment_loop.simps) (auto simp: seq_eq_Ret dest: 1(1) split: if_splits)
qed

lemma tc_read_comment_less:
  assumes "tc_read_comment self (src self) = Ret (r, self1)" and "tc_read_char self1 = Ret (type, self')"
  shows "chars_left self' < chars_left self"
  using assms tc_read_comment_loop_ge[of self "src self"]
  by (fastforce simp: tc_read_comment_def tc_read_char_def chars_left_def seq_eq_Ret Let_def split: if_splits)

function tc_read_token_loop :: "compiler \<Rightarrow> u64 \<Rightarrow> (u64 \<times> compiler) res" where
  "tc_read_token_loop self type =
     (if type = 32
      then seq (tc_read_char self) (\<lambda>(type, self). tc_read_token_loop self type)
      else if type = TC_DIV
      then seq (tc_read_comment self (src self)) (\<lambda>(comment, self).
        if comment = 0 then Ret (type, self)
        else seq (tc_read_char self) (\<lambda>(type, self). tc_read_token_loop self type))
      else Ret (type, self))"
  by pat_completeness auto
termination
  by (relation "measure (\<lambda>(self, _). chars_left self)")
    (auto dest: tc_read_char_less tc_read_comment_less)

declare tc_read_token_loop.simps [simp del]

definition tc_read_token :: "compiler \<Rightarrow> compiler res" where
  "tc_read_token self =
     seq (tc_read_token_loop self (next_char_type self)) (\<lambda>(type, self).
     seq (if type = TC_INTEGER then tc_read_integer self
          else if type = 39 then tc_read_quoted_char self
          else if type = TC_IDENTIFIER then tc_read_identifier self
          else if type \<ge> 10 \<and> type < 20 then tc_read_operator self type
          else if type \<noteq> 0 then seq (tc_read_char self) (\<lambda>(_, self). Ret (type, self))
          else Ret (type, self)) (\<lambda>(token, self).
     Ret (self\<lparr>next_token := token\<rparr>)))"

end
