(* ===== verification/Tc_Keywords.thy ===== *)
theory Tc_Keywords
  imports Tc_Scanner Dump_Toysfs
begin

text \<open>
  The keyword table of the scanner is a perfect hash: looking a name up by its hash gives the
  token of the keyword it is, or \<open>TC_IDENTIFIER\<close>.
\<close>

definition keyword_list :: "(u8 list \<times> u64) list" where
  "keyword_list =
     [(chars ''as'', TC_AS), (chars ''break'', TC_BREAK), (chars ''const'', TC_CONST),
      (chars ''else'', TC_ELSE), (chars ''fn'', TC_FN), (chars ''if'', TC_IF),
      (chars ''let'', TC_LET), (chars ''loop'', TC_LOOP), (chars ''null'', TC_NULL),
      (chars ''return'', TC_RETURN), (chars ''sizeof'', TC_SIZEOF), (chars ''static'', TC_STATIC),
      (chars ''struct'', TC_STRUCT), (chars ''u64'', TC_U32), (chars ''while'', TC_WHILE)]"

definition hash :: "u8 list \<Rightarrow> u64" where
  "hash name = foldl (\<lambda>h c. 31 * h + ucast c) 0 name"

text \<open>The entry of the table for a hash value: the keyword and its token.\<close>

definition keyword_slot :: "nat \<Rightarrow> (u8 list \<times> u64) option" where
  "keyword_slot h =
     (let k = unat (TC_KEYWORDS ! h); l = unat (TC_KEYWORDS ! k)
      in if k = 0 then None
         else Some (window TC_KEYWORDS (k + 1) l, ucast (TC_KEYWORDS ! (k + l + 1))))"

definition slot_in_table :: "nat \<Rightarrow> bool" where
  "slot_in_table h =
     (let k = unat (TC_KEYWORDS ! h) in k < 157 \<and> k + unat (TC_KEYWORDS ! k) + 1 < 157)"

lemma keyword_slots: "list_all (\<lambda>h. slot_in_table h \<and>
    (case keyword_slot h of None \<Rightarrow> True | Some e \<Rightarrow> e \<in> set keyword_list)) [0..<64]"
  by code_simp

lemma keyword_hashes: "list_all (\<lambda>(s, t). keyword_slot (unat (hash s AND 63)) = Some (s, t)) keyword_list"
  by code_simp

section \<open>Comparing memory\<close>

lemma ucast_u8_eq: "(ucast (a :: u8) :: u64) = ucast b \<longleftrightarrow> a = b"
proof
  assume "(ucast a :: u64) = ucast b"
  then have "unat (ucast a :: u64) = unat (ucast b :: u64)" by simp
  then show "a = b"
    using unsigned_less[of a, where ?'a = nat] unsigned_less[of b, where ?'a = nat]
    by (simp add: unsigned_ucast_eq take_bit_nat_eq_self word_unat_eq_iff)
qed simp

lemma mem_compare_loop:
  assumes "p1 + n \<le> length m1" and "p2 + n \<le> length m2" and "n < 18446744073709551616"
  shows "i \<le> n \<Longrightarrow> \<exists>r. mem_compare_loop m1 p1 m2 p2 (of_nat n) (of_nat i) = Ret r \<and>
    (r = 0 \<longleftrightarrow> window m1 (p1 + i) (n - i) = window m2 (p2 + i) (n - i))"
proof (induction "n - i" arbitrary: i)
  case 0
  then show ?case by (subst mem_compare_loop.simps) simp
next
  case (Suc k)
  have u: "unat (of_nat i :: u64) = i" "unat (of_nat n :: u64) = n"
    using Suc.prems assms(3) by (simp_all add: unat_of_nat_u64)
  have lt: "(of_nat i :: u64) < of_nat n" using Suc u by (simp add: less_u64)
  have w: "window m1 (p1 + i) (n - i) = m1 ! (p1 + i) # window m1 (p1 + (i + 1)) (n - (i + 1))"
    "window m2 (p2 + i) (n - i) = m2 ! (p2 + i) # window m2 (p2 + (i + 1)) (n - (i + 1))"
    using window_Cons[of "p1 + i" "n - i" m1] window_Cons[of "p2 + i" "n - i" m2] Suc assms
    by (simp_all add: add.assoc)
  have l: "load8 m1 (p1 + i) = Ret (ucast (m1 ! (p1 + i)))" "load8 m2 (p2 + i) = Ret (ucast (m2 ! (p2 + i)))"
    using Suc assms by (simp_all add: load8_inside)
  have IH: "\<exists>r. mem_compare_loop m1 p1 m2 p2 (of_nat n) (of_nat (i + 1)) = Ret r \<and>
      (r = 0 \<longleftrightarrow> window m1 (p1 + (i + 1)) (n - (i + 1)) = window m2 (p2 + (i + 1)) (n - (i + 1)))"
    by (rule Suc.hyps(1)) (use Suc.hyps(2) in auto)
  show ?case
  proof (cases "m1 ! (p1 + i) = m2 ! (p2 + i)")
    case True
    then have "mem_compare_loop m1 p1 m2 p2 (of_nat n) (of_nat i) =
        mem_compare_loop m1 p1 m2 p2 (of_nat n) (of_nat (i + 1))"
      using lt l u by (subst mem_compare_loop.simps) (simp add: add.commute)
    with IH True w show ?thesis by simp
  next
    case False
    then have "mem_compare_loop m1 p1 m2 p2 (of_nat n) (of_nat i) = Ret (of_nat n - of_nat i)"
      using lt l u by (subst mem_compare_loop.simps) (simp add: ucast_u8_eq)
    moreover have "of_nat n - of_nat i \<noteq> (0 :: u64)" using lt by auto
    ultimately show ?thesis using False w by simp
  qed
qed

lemma mem_compare_spec:
  assumes "p1 + n \<le> length m1" and "p2 + n \<le> length m2" and "n < 18446744073709551616"
  shows "\<exists>r. mem_compare m1 p1 m2 p2 (of_nat n) = Ret r \<and>
    (r = 0 \<longleftrightarrow> window m1 p1 n = window m2 p2 n)"
  using mem_compare_loop[OF assms, of 0] by (simp add: mem_compare_def)

section \<open>The lookup\<close>

definition keyword_token :: "u8 list \<Rightarrow> u64" where
  "keyword_token name = (case map_of keyword_list name of None \<Rightarrow> TC_IDENTIFIER | Some t \<Rightarrow> t)"

lemma keyword_list_distinct: "distinct (map fst keyword_list)"
  by code_simp

lemma length_keywords: "length TC_KEYWORDS = 157"
  by (simp add: TC_KEYWORDS_def)

lemma keyword_slot_in:
  assumes "h < 64" and "keyword_slot h = Some e"
  shows "e \<in> set keyword_list"
proof -
  have "h \<in> set [0..<64]" using assms(1) by simp
  with keyword_slots have "case keyword_slot h of None \<Rightarrow> True | Some e \<Rightarrow> e \<in> set keyword_list"
    unfolding list_all_iff by blast
  then show ?thesis using assms(2) by simp
qed

lemma hash_bound: "unat (hash name AND 63) < 64"
proof -
  have "hash name AND 63 \<le> 63" by (rule word_and_le1)
  then show ?thesis by (simp add: word_le_nat_alt)
qed

lemma keyword_token_slot:
  "keyword_token name = (case keyword_slot (unat (hash name AND 63)) of
     None \<Rightarrow> TC_IDENTIFIER | Some (s, t) \<Rightarrow> if s = name then t else TC_IDENTIFIER)"
proof (cases "map_of keyword_list name")
  case (Some t)
  then have "(name, t) \<in> set keyword_list" by (rule map_of_SomeD)
  then have "keyword_slot (unat (hash name AND 63)) = Some (name, t)"
    using keyword_hashes by (auto simp: list_all_iff)
  then show ?thesis using Some by (simp add: keyword_token_def)
next
  case None
  note h = hash_bound[of name]
  have "s \<noteq> name" if "keyword_slot (unat (hash name AND 63)) = Some (s, t)" for s t
  proof -
    have "(s, t) \<in> set keyword_list" by (rule keyword_slot_in[OF h that])
    then show ?thesis using None by (force simp: map_of_eq_None_iff)
  qed
  then show ?thesis using None by (auto simp: keyword_token_def split: option.split)
qed

lemma get_keyword:
  assumes "start + length name \<le> length (source self)" and "window (source self) start (length name) = name"
    and "length name < 18446744073709551616"
  shows "tc_get_keyword self start (of_nat (length name)) (hash name AND 63) = Ret (keyword_token name)"
proof -
  let ?h = "unat (hash name AND 63)"
  define k where "k = unat (TC_KEYWORDS ! ?h)"
  define l where "l = unat (TC_KEYWORDS ! k)"
  note h = hash_bound[of name]
  then have "slot_in_table ?h" using keyword_slots by (auto simp: list_all_iff)
  then have b: "k < 157" "k + l + 1 < 157" by (simp_all add: slot_in_table_def k_def l_def Let_def)
  have u: "unat (ucast (c :: u8) :: u64) = unat c" for c
    using unsigned_less[of c, where ?'a = nat] by (simp add: unsigned_ucast_eq take_bit_nat_eq_self)
  have load_k: "load8 TC_KEYWORDS ?h = Ret (ucast (TC_KEYWORDS ! ?h))"
    and load_l: "load8 TC_KEYWORDS k = Ret (ucast (TC_KEYWORDS ! k))"
    using h b by (simp_all add: load8_inside length_keywords)
  have k0: "(ucast (TC_KEYWORDS ! ?h) :: u64) = 0 \<longleftrightarrow> k = 0"
    using ucast_u8_eq[of "TC_KEYWORDS ! ?h" 0] by (simp add: k_def unat_eq_0)
  have len: "of_nat (length name) = (ucast (TC_KEYWORDS ! k) :: u64) \<longleftrightarrow> length name = l"
  proof -
    have "of_nat (length name) = (ucast (TC_KEYWORDS ! k) :: u64) \<longleftrightarrow>
        unat (of_nat (length name) :: u64) = unat (ucast (TC_KEYWORDS ! k) :: u64)"
      by (rule word_unat_eq_iff)
    then show ?thesis using assms(3) by (simp add: unat_of_nat_u64 u l_def)
  qed
  show ?thesis
  proof (cases "k = 0")
    case True
    then have "keyword_slot ?h = None" by (simp add: keyword_slot_def k_def)
    then show ?thesis using True load_k k0 by (simp add: tc_get_keyword_def keyword_token_slot)
  next
    case False
    then have slot: "keyword_slot ?h = Some (window TC_KEYWORDS (k + 1) l, ucast (TC_KEYWORDS ! (k + l + 1)))"
      by (simp add: keyword_slot_def k_def l_def Let_def)
    have uk: "unat (ucast (TC_KEYWORDS ! ?h) :: u64) = k" by (simp add: u k_def)
    show ?thesis
    proof (cases "length name = l")
      case same: True
      obtain r where r: "mem_compare (source self) start TC_KEYWORDS (k + 1) (of_nat (length name)) = Ret r"
        "r = 0 \<longleftrightarrow> name = window TC_KEYWORDS (k + 1) l"
        using mem_compare_spec[of start "length name" "source self" "k + 1" TC_KEYWORDS] assms b same
        by (auto simp: length_keywords)
      have "load8 TC_KEYWORDS (k + l + 1) = Ret (ucast (TC_KEYWORDS ! (k + l + 1)))"
        using b by (simp add: load8_inside length_keywords)
      moreover have "unat (of_nat (length name) :: u64) = l" using same assms(3) by (simp add: unat_of_nat_u64)
      ultimately have "tc_get_keyword self start (of_nat (length name)) (hash name AND 63) =
          (if r = 0 then Ret (ucast (TC_KEYWORDS ! (k + l + 1))) else Ret TC_IDENTIFIER)"
        unfolding tc_get_keyword_def load_k seq.simps uk load_l using k0 False len same r(1) by simp
      then show ?thesis using r(2) slot by (auto simp: keyword_token_slot)
    next
      case False
      then have "window TC_KEYWORDS (k + 1) l \<noteq> name"
        using b length_window[of "k + 1" l TC_KEYWORDS] by (auto simp: length_keywords)
      then show ?thesis
        using load_k load_l k0 \<open>k \<noteq> 0\<close> len False uk slot
        by (simp add: tc_get_keyword_def keyword_token_slot)
    qed
  qed
qed

end
