(* ===== verification/Tc_Lexer.thy ===== *)
theory Tc_Lexer
  imports Tc_Keywords
begin

text \<open>
  A reference lexer on lists of characters, and the proof that \<open>tc_read_token\<close> refines it: on a
  well-formed scanner state it never faults, stops with the lexer's error code, or reads exactly
  the lexer's token and leaves the lexer's rest of the source.
\<close>

section \<open>The reference lexer\<close>

definition char_class :: "u8 \<Rightarrow> u64" where
  "char_class c = ucast (TC_CHAR_TYPES ! unat c)"

fun first_class :: "u8 list \<Rightarrow> u64" where
  "first_class [] = 0"
| "first_class (c # _) = char_class c"

fun after_comment :: "u8 list \<Rightarrow> u8 list option" where
  "after_comment (a # b # cs) = (if a = 42 \<and> b = 47 then Some cs else after_comment (b # cs))"
| "after_comment _ = None"

lemma after_comment_less: "after_comment cs = Some ds \<Longrightarrow> length ds < length cs"
  by (induction cs rule: after_comment.induct) (auto split: if_splits)

function skip_blanks :: "u8 list \<Rightarrow> u8 list option" where
  "skip_blanks [] = Some []"
| "skip_blanks (c # cs) =
     (if char_class c = 32 then skip_blanks cs
      else if char_class c = 7 \<and> cs \<noteq> [] \<and> hd cs = 42
      then (case after_comment (tl cs) of None \<Rightarrow> None | Some ds \<Rightarrow> skip_blanks ds)
      else Some (c # cs))"
  by pat_completeness auto
termination
  by (relation "measure length") (auto dest!: after_comment_less)

datatype lexeme = Number u64 | Word "u8 list" | Other u64

definition is_digit :: "u8 \<Rightarrow> bool" where "is_digit c = (char_class c = 2)"
definition is_word :: "u8 \<Rightarrow> bool" where "is_word c = (char_class c = 3 \<or> char_class c = 2)"

definition number :: "u8 list \<Rightarrow> u64" where
  "number ds = foldl (\<lambda>v c. v * 10 + (ucast c - 48)) 0 ds"

text \<open>The operators and their tokens; a token of 1 means there is no such operator.\<close>

definition operators :: "(u8 list \<times> u64) list" where
  "operators =
     [(chars ''!='', 16), (chars ''&'', TC_BIT_AND), (chars ''&&'', TC_AND), (chars ''<'', TC_LT),
      (chars ''<<'', TC_SHIFT_LEFT), (chars ''<='', 15), (chars ''='', 61), (chars ''=='', 13),
      (chars ''>'', 14), (chars ''>>'', TC_SHIFT_RIGHT), (chars ''>='', TC_GE),
      (chars ''|'', TC_BIT_OR), (chars ''||'', TC_OR), (chars ''-'', TC_SUB), (chars ''->'', TC_ARROW)]"

definition operator_token :: "u8 list \<Rightarrow> u64" where
  "operator_token s = (case map_of operators s of None \<Rightarrow> 1 | Some t \<Rightarrow> t)"

fun lex_operator :: "u8 \<Rightarrow> u8 list \<Rightarrow> lexeme \<times> u8 list" where
  "lex_operator c [] = (Other (operator_token [c]), [])"
| "lex_operator c (d # ds) =
     (if d = c \<or> d = 61 \<or> d = 62 then (Other (operator_token [c, d]), ds)
      else (Other (operator_token [c]), d # ds))"

fun lex_quoted :: "u8 list \<Rightarrow> u64 + (lexeme \<times> u8 list)" where
  "lex_quoted [] = Inl 11"
| "lex_quoted (v # cs) =
     (if v < 32 \<or> v \<ge> 127 then Inl 11
      else case cs of [] \<Rightarrow> Inl 12
        | d # ds \<Rightarrow> if d \<noteq> 39 then Inl 12 else Inr (Number (ucast v), ds))"

definition lex_one :: "u8 list \<Rightarrow> u64 + (lexeme \<times> u8 list)" where
  "lex_one cs =
     (case cs of [] \<Rightarrow> Inr (Other 0, [])
      | c # r \<Rightarrow>
         if is_digit c then Inr (Number (number (takeWhile is_digit cs)), dropWhile is_digit cs)
         else if c = 39 then lex_quoted r
         else if is_word c then Inr (Word (takeWhile is_word cs), dropWhile is_word cs)
         else if char_class c \<ge> 10 \<and> char_class c < 20 then Inr (lex_operator c r)
         else Inr (Other (char_class c), r))"

definition lex :: "u8 list \<Rightarrow> u64 + (lexeme \<times> u8 list)" where
  "lex cs = (case skip_blanks cs of None \<Rightarrow> Inl 10 | Some ds \<Rightarrow> lex_one ds)"

section \<open>The scanner state\<close>

definition remaining :: "compiler \<Rightarrow> u8 list" where
  "remaining self = drop (src self) (take (src_end self) (source self))"

text \<open>Moving the scanner to an offset.\<close>

definition goto :: "nat \<Rightarrow> compiler \<Rightarrow> compiler" where
  "goto p self = self\<lparr>src := p,
     next_char := (if p < src_end self then source self ! p else 0),
     next_char_type := (if p < src_end self then char_class (source self ! p) else 0)\<rparr>"

definition scan_ok :: "compiler \<Rightarrow> bool" where
  "scan_ok self \<longleftrightarrow> src self \<le> src_end self \<and> src_end self \<le> length (source self) \<and>
     length (source self) \<le> 65536 \<and> goto (src self) self = self"

lemma goto_simps [simp]:
  "src (goto p self) = p" "src_end (goto p self) = src_end self" "source (goto p self) = source self"
  "goto p (goto q self) = goto p self"
  by (simp_all add: goto_def)

lemma scan_ok_goto: "scan_ok self \<Longrightarrow> p \<le> src_end self \<Longrightarrow> scan_ok (goto p self)"
  by (simp add: scan_ok_def)

lemma scan_ok_chars:
  assumes "scan_ok self"
  shows "next_char self = (if remaining self = [] then 0 else hd (remaining self))"
    and "next_char_type self = first_class (remaining self)"
proof -
  have b: "src self \<le> src_end self" "src_end self \<le> length (source self)" and g: "self = goto (src self) self"
    using assms by (simp_all add: scan_ok_def)
  have r: "remaining self = (if src self < src_end self
      then source self ! src self # drop (Suc (src self)) (take (src_end self) (source self)) else [])"
    using b by (simp add: remaining_def Cons_nth_drop_Suc[symmetric])
  have n: "next_char self = (if src self < src_end self then source self ! src self else 0)"
    "next_char_type self = (if src self < src_end self then char_class (source self ! src self) else 0)"
    by (subst g, simp add: goto_def)+
  show "next_char self = (if remaining self = [] then 0 else hd (remaining self))"
    "next_char_type self = first_class (remaining self)"
    using n r by auto
qed

lemma remaining_goto: "remaining (goto p self) = drop p (take (src_end self) (source self))"
  by (simp add: remaining_def)

lemma remaining_step:
  "scan_ok self \<Longrightarrow> remaining self = c # cs \<Longrightarrow>
   src self < src_end self \<and> source self ! src self = c \<and> remaining (goto (src self + 1) self) = cs"
proof -
  assume a: "scan_ok self" "remaining self = c # cs"
  then have "src self < src_end self" by (auto simp: remaining_def scan_ok_def intro: ccontr)
  moreover from this a have "remaining self = source self ! src self # drop (Suc (src self)) (take (src_end self) (source self))"
    by (simp add: remaining_def scan_ok_def Cons_nth_drop_Suc[symmetric])
  ultimately show ?thesis using a by (simp add: remaining_goto)
qed

lemma length_char_types: "length TC_CHAR_TYPES = 256"
  by (simp add: TC_CHAR_TYPES_def)

lemma unat_ucast_u8: "unat (ucast (c :: u8) :: u64) = unat c"
  using unsigned_less[of c, where ?'a = nat] by (simp add: unsigned_ucast_eq take_bit_nat_eq_self)

lemma ucast_ucast_u8: "ucast (ucast (c :: u8) :: u64) = c"
  by (simp add: word_unat_eq_iff unsigned_ucast_eq take_bit_word_eq_self)

lemma read_char:
  assumes "scan_ok self"
  shows "tc_read_char self =
    (if remaining self = [] then Panic 10
     else Ret (first_class (tl (remaining self)), goto (src self + 1) self))"
proof (cases "remaining self")
  case Nil
  then show ?thesis using assms by (simp add: tc_read_char_def remaining_def scan_ok_def)
next
  case (Cons c cs)
  note s = remaining_step[OF assms Cons]
  show ?thesis
  proof (cases "src self + 1 < src_end self")
    case True
    then have cs: "cs = source self ! (src self + 1) # drop (src self + 2) (take (src_end self) (source self))"
      using s assms by (simp add: remaining_goto scan_ok_def Cons_nth_drop_Suc[symmetric])
    have "src self + 1 < length (source self)" using True assms by (simp add: scan_ok_def)
    moreover have "unat (source self ! (src self + 1)) < 256"
      using unsigned_less[of "source self ! (src self + 1)", where ?'a = nat] by simp
    ultimately show ?thesis using True s Cons cs
      by (simp add: tc_read_char_def load8_inside length_char_types unat_ucast_u8 ucast_ucast_u8
          goto_def char_class_def)
  next
    case False
    then have "cs = []" using s by (simp add: remaining_goto)
    then show ?thesis using False s Cons by (simp add: tc_read_char_def goto_def)
  qed
qed

text \<open>The form in which the scanner functions use it: one character is there, or none is.\<close>

lemma read_char_Cons:
  assumes "scan_ok self" and "remaining self = c # cs"
  shows "tc_read_char self = Ret (first_class cs, goto (src self + 1) self)"
    and "scan_ok (goto (src self + 1) self)" and "remaining (goto (src self + 1) self) = cs"
  using remaining_step[OF assms] assms by (simp_all add: read_char scan_ok_goto)

section \<open>Numbers and words\<close>

text \<open>A scanner position: the state, moved past \<open>n\<close> characters.\<close>

abbreviation skip :: "nat \<Rightarrow> compiler \<Rightarrow> compiler" where
  "skip n self \<equiv> goto (src self + n) self"

lemma skip_ok:
  assumes "scan_ok self" and "n \<le> length (remaining self)"
  shows "scan_ok (skip n self)" and "remaining (skip n self) = drop n (remaining self)"
  using assms by (auto simp: scan_ok_goto remaining_goto remaining_def scan_ok_def add.commute
      intro!: scan_ok_goto)

lemma skip_0: "scan_ok self \<Longrightarrow> goto (src self) self = self"
  by (simp add: scan_ok_def)

lemma read_integer_loop:
  "scan_ok self \<Longrightarrow> remaining self = cs \<Longrightarrow>
   tc_read_integer_loop self (first_class cs) v =
     Ret (foldl (\<lambda>v c. v * 10 + (ucast c - 48)) v (takeWhile is_digit cs),
       skip (length (takeWhile is_digit cs)) self)"
proof (induction cs arbitrary: self v)
  case Nil
  then show ?case by (subst tc_read_integer_loop.simps) (simp add: tokens skip_0)
next
  case (Cons c cs)
  note rc = read_char_Cons[OF Cons.prems]
  have nc: "next_char self = c" using scan_ok_chars(1)[OF Cons.prems(1)] Cons.prems(2) by simp
  show ?case
  proof (cases "is_digit c")
    case True
    then have step: "tc_read_integer_loop self (first_class (c # cs)) v =
        tc_read_integer_loop (goto (src self + 1) self) (first_class cs) (v * 10 + (ucast c - 48))"
      using rc(1) nc by (subst tc_read_integer_loop.simps) (simp add: is_digit_def TC_INTEGER_def)
    show ?thesis unfolding step using Cons.IH[OF rc(2,3)] True by simp
  next
    case False
    then show ?thesis using Cons.prems
      by (subst tc_read_integer_loop.simps) (simp add: is_digit_def TC_INTEGER_def skip_0)
  qed
qed

lemma read_identifier_loop:
  "scan_ok self \<Longrightarrow> remaining self = cs \<Longrightarrow>
   tc_read_identifier_loop self (first_class cs) h =
     Ret (foldl (\<lambda>h c. 31 * h + ucast c) h (takeWhile is_word cs),
       skip (length (takeWhile is_word cs)) self)"
proof (induction cs arbitrary: self h)
  case Nil
  then show ?case by (subst tc_read_identifier_loop.simps) (simp add: tokens skip_0)
next
  case (Cons c cs)
  note rc = read_char_Cons[OF Cons.prems]
  have nc: "next_char self = c" using scan_ok_chars(1)[OF Cons.prems(1)] Cons.prems(2) by simp
  show ?case
  proof (cases "is_word c")
    case True
    then have step: "tc_read_identifier_loop self (first_class (c # cs)) h =
        tc_read_identifier_loop (goto (src self + 1) self) (first_class cs) (31 * h + ucast c)"
      using rc(1) nc
      by (subst tc_read_identifier_loop.simps) (auto simp: is_word_def TC_INTEGER_def TC_IDENTIFIER_def)
    show ?thesis unfolding step using Cons.IH[OF rc(2,3)] True by simp
  next
    case False
    then show ?thesis using Cons.prems
      by (subst tc_read_identifier_loop.simps) (auto simp: is_word_def TC_INTEGER_def TC_IDENTIFIER_def skip_0)
  qed
qed

lemma dropWhile_skip: "drop (length (takeWhile P cs)) cs = dropWhile P cs"
  by (induction cs) auto

lemma length_takeWhile_le': "length (takeWhile P cs) \<le> length cs"
  by (induction cs) auto

lemma window_of_take: "i + n \<le> k \<Longrightarrow> window (take k xs) i n = window xs i n"
  by (simp add: window_def drop_take min_def)

text \<open>What a token leaves in the state.\<close>

definition has_lexeme :: "compiler \<Rightarrow> lexeme \<Rightarrow> bool" where
  "has_lexeme self l \<longleftrightarrow> (case l of
     Number v \<Rightarrow> next_token self = TC_INTEGER \<and> next_token_data self = v
   | Word w \<Rightarrow> next_token self = keyword_token w \<and>
       next_token_length self = of_nat (length w) \<and>
       unat (next_token_data self) + length w \<le> src_end self \<and>
       window (source self) (unat (next_token_data self)) (length w) = w
   | Other t \<Rightarrow> next_token self = t)"

lemma number_read:
  assumes "scan_ok self"
  shows "tc_read_integer self =
    Ret (TC_INTEGER, (skip (length (takeWhile is_digit (remaining self))) self)
      \<lparr>next_token_data := number (takeWhile is_digit (remaining self))\<rparr>)"
  using read_integer_loop[OF assms refl, of 0] scan_ok_chars(2)[OF assms]
  by (simp add: tc_read_integer_def number_def)

lemma word_read:
  assumes "scan_ok self" and "remaining self = cs"
  shows "tc_read_identifier self = Ret (keyword_token (takeWhile is_word cs),
    (skip (length (takeWhile is_word cs)) self)
      \<lparr>next_token_data := of_nat (src self), next_token_length := of_nat (length (takeWhile is_word cs))\<rparr>)"
    and "window (source self) (src self) (length (takeWhile is_word cs)) = takeWhile is_word cs"
proof -
  let ?w = "takeWhile is_word cs"
  let ?self = "(skip (length ?w) self)\<lparr>next_token_data := of_nat (src self),
    next_token_length := of_nat (length ?w)\<rparr>"
  have b: "src self \<le> src_end self" "src_end self \<le> length (source self)" "length (source self) \<le> 65536"
    using assms(1) by (simp_all add: scan_ok_def)
  have "length cs = src_end self - src self" using assms(2) b by (simp add: remaining_def flip: assms(2))
  then have l: "src self + length ?w \<le> src_end self"
    using length_takeWhile_le'[of is_word cs] b by simp
  show w: "window (source self) (src self) (length ?w) = ?w"
  proof -
    have "take (length ?w) cs = ?w" by (induction cs) auto
    moreover have "take (length ?w) cs = window (take (src_end self) (source self)) (src self) (length ?w)"
      using assms(2) by (simp add: remaining_def window_def)
    ultimately show ?thesis using window_of_take[OF l] by metis
  qed
  have hash: "foldl (\<lambda>h c. 31 * h + ucast c) 0 ?w = hash ?w" by (simp add: hash_def)
  have "tc_get_keyword ?self (src self) (of_nat (length ?w)) (hash ?w AND 63) = Ret (keyword_token ?w)"
    by (rule get_keyword) (use l b w in auto)
  then show "tc_read_identifier self = Ret (keyword_token ?w, ?self)"
    using read_identifier_loop[OF assms, of 0] scan_ok_chars(2)[OF assms(1)] assms(2) hash
    by (simp add: tc_read_identifier_def Let_def)
qed

section \<open>Character literals, operators and comments\<close>

text \<open>The table, with each class next to its character.\<close>

fun numbered :: "u8 \<Rightarrow> u8 list \<Rightarrow> (u8 \<times> u8) list" where
  "numbered k [] = []"
| "numbered k (x # xs) = (k, x) # numbered (k + 1) xs"

lemma numbered_nth: "i < length xs \<Longrightarrow> (k + of_nat i, xs ! i) \<in> set (numbered k xs)"
proof (induction xs arbitrary: k i)
  case (Cons x xs)
  then show ?case using Cons.IH[of "i - 1" "k + 1"] by (cases i) (auto simp: add.assoc)
qed simp

lemma numbered_classes: "list_all (\<lambda>(c, t).
    (t = 39 \<longleftrightarrow> c = 39) \<and> (t = 7 \<longleftrightarrow> c = 47) \<and> t \<noteq> 0 \<and>
    (10 \<le> t \<and> t < 20 \<longrightarrow> 
      c = 33 \<or> c = 38 \<or> c = 60 \<or> c = 61 \<or> c = 62 \<or> c = 124 \<or> c = 45)) (numbered 0 TC_CHAR_TYPES)"
  by code_simp

lemma char_class_u8: "char_class c = ucast (t :: u8) \<longleftrightarrow> TC_CHAR_TYPES ! unat c = t"
  by (simp add: char_class_def ucast_u8_eq)

lemma char_class_table: "(char_class c = 39 \<longleftrightarrow> c = 39) \<and> (char_class c = 7 \<longleftrightarrow> c = 47) \<and>
    char_class c \<noteq> 0 \<and> (10 \<le> char_class c \<and> char_class c < 20 \<longrightarrow>
      c \<in> {33, 38, 60, 61, 62, 124, 45})"
proof -
  define t where "t = TC_CHAR_TYPES ! unat c"
  have "unat c < length TC_CHAR_TYPES"
    using unsigned_less[of c, where ?'a = nat] by (simp add: length_char_types)
  then have "(c, t) \<in> set (numbered 0 TC_CHAR_TYPES)"
    using numbered_nth[of "unat c" TC_CHAR_TYPES 0] by (simp add: t_def)
  with numbered_classes have "(t = 39 \<longleftrightarrow> c = 39) \<and> (t = 7 \<longleftrightarrow> c = 47) \<and> t \<noteq> 0 \<and>
    (10 \<le> t \<and> t < 20 \<longrightarrow> c \<in> {33, 38, 60, 61, 62, 124, 45})"
    unfolding list_all_iff by fastforce
  moreover have "char_class c = 39 \<longleftrightarrow> t = 39" "char_class c = 7 \<longleftrightarrow> t = 7" "char_class c = 0 \<longleftrightarrow> t = 0"
    "10 \<le> char_class c \<longleftrightarrow> 10 \<le> t" "char_class c < 20 \<longleftrightarrow> t < 20"
    unfolding t_def char_class_def
    by (simp_all add: word_unat_eq_iff word_le_nat_alt word_less_nat_alt unat_ucast_u8)
  ultimately show ?thesis by simp
qed

lemma TC_CHAR_39: "char_class d = 39 \<longleftrightarrow> d = 39"
  using char_class_table by blast

lemma operator_classes: "char_class 33 = 10" "char_class 38 = 11" "char_class 60 = 12" "char_class 61 = 13"
    "char_class 62 = 14" "char_class 124 = 15" "char_class 45 = 16"
  by code_simp+

lemma quoted_read:
  assumes "scan_ok self" and "remaining self = 39 # cs"
  shows "case lex_quoted cs of Inl e \<Rightarrow> tc_read_quoted_char self = Panic e
    | Inr (l, r) \<Rightarrow> \<exists>v n. l = Number v \<and> n \<le> length (39 # cs) \<and> r = drop n (39 # cs) \<and>
        tc_read_quoted_char self = Ret (TC_INTEGER, (skip n self)\<lparr>next_token_data := v\<rparr>)"
proof -
  note r1 = read_char_Cons[OF assms]
  show ?thesis
  proof (cases cs)
    case Nil
    have "next_char (goto (src self + 1) self) = 0" using scan_ok_chars(1)[OF r1(2)] r1(3) Nil by simp
    then show ?thesis using Nil r1(1) by (simp add: tc_read_quoted_char_def Let_def)
  next
    case (Cons v ds)
    have nc: "next_char (goto (src self + 1) self) = v" using scan_ok_chars(1)[OF r1(2)] r1(3) Cons by simp
    note r2 = read_char_Cons[OF r1(2) r1(3)[unfolded Cons]]
    show ?thesis
    proof (cases "v < 32 \<or> v \<ge> 127")
      case True
      then show ?thesis using Cons r1(1) nc by (simp add: tc_read_quoted_char_def Let_def)
    next
      case ok: False
      show ?thesis
      proof (cases ds)
        case Nil
        then show ?thesis using Cons r1(1) r2(1) nc ok by (simp add: tc_read_quoted_char_def Let_def)
      next
        case ds: (Cons d es)
        note r3 = read_char_Cons[OF r2(2) r2(3)[unfolded ds]]
        show ?thesis
          using Cons ds r1(1) r2(1) r3(1) nc ok TC_CHAR_39[of d]
          by (auto simp: tc_read_quoted_char_def Let_def numeral_3_eq_3 intro!: exI[of _ 3])
      qed
    qed
  qed
qed

text \<open>The operator table agrees with the list of operators, for one and for two characters.\<close>

definition table_token :: "u64 \<Rightarrow> u64 \<Rightarrow> u64 res" where
  "table_token class k = load8 TC_OPERATORS (unat (4 * (class - 10) + k))"

lemma table_tokens: "list_all (\<lambda>c.
    table_token (char_class c) 0 = Ret (operator_token [c]) \<and>
    table_token (char_class c) 1 = Ret (operator_token [c, c]) \<and>
    (c \<noteq> 61 \<longrightarrow> table_token (char_class c) 2 = Ret (operator_token [c, 61])) \<and>
    (c \<noteq> 62 \<longrightarrow> table_token (char_class c) 3 = Ret (operator_token [c, 62]))) [33, 38, 60, 61, 62, 124, 45]"
  by code_simp

lemma same_operator_class:
  assumes "10 \<le> char_class c" and "char_class c < 20"
  shows "first_class (d # ds) = char_class c \<longleftrightarrow> d = c"
proof -
  have "c \<in> {33, 38, 60, 61, 62, 124, 45}" using assms char_class_table by blast
  moreover have "char_class d = char_class c \<Longrightarrow> d \<in> {33, 38, 60, 61, 62, 124, 45}"
    using assms char_class_table[of d] by simp
  ultimately show ?thesis using operator_classes by auto
qed

lemma operator_read:
  assumes "scan_ok self" and "remaining self = c # cs"
    and "10 \<le> char_class c" and "char_class c < 20"
  shows "\<exists>t n. lex_operator c cs = (Other t, drop n (c # cs)) \<and> 1 \<le> n \<and> n \<le> length (c # cs) \<and>
    tc_read_operator self (char_class c) = Ret (t, skip n self)"
proof -
  note r1 = read_char_Cons[OF assms(1,2)]
  have "c \<in> set [33, 38, 60, 61, 62, 124, 45]" using assms(3,4) char_class_table by auto
  with table_tokens have "table_token (char_class c) 0 = Ret (operator_token [c]) \<and>
    table_token (char_class c) 1 = Ret (operator_token [c, c]) \<and>
    (c \<noteq> 61 \<longrightarrow> table_token (char_class c) 2 = Ret (operator_token [c, 61])) \<and>
    (c \<noteq> 62 \<longrightarrow> table_token (char_class c) 3 = Ret (operator_token [c, 62]))"
    unfolding list_all_iff by blast
  then have t: "load8 TC_OPERATORS (unat (4 * (char_class c - 10))) = Ret (operator_token [c])"
    "load8 TC_OPERATORS (unat (4 * (char_class c - 10) + 1)) = Ret (operator_token [c, c])"
    "c \<noteq> 61 \<Longrightarrow> load8 TC_OPERATORS (unat (4 * (char_class c - 10) + 2)) = Ret (operator_token [c, 61])"
    "c \<noteq> 62 \<Longrightarrow> load8 TC_OPERATORS (unat (4 * (char_class c - 10) + 3)) = Ret (operator_token [c, 62])"
    unfolding table_token_def by simp_all
  have nz: "char_class c \<noteq> 0" using char_class_table by blast
  show ?thesis
  proof (cases cs)
    case Nil
    have "next_char (goto (src self + 1) self) = 0" using scan_ok_chars(1)[OF r1(2)] r1(3) Nil by simp
    then show ?thesis using Nil r1(1) t nz
      by (intro exI[of _ "operator_token [c]"] exI[of _ 1]) (simp add: tc_read_operator_def Let_def)
  next
    case (Cons d ds)
    have nc: "next_char (goto (src self + 1) self) = d" using scan_ok_chars(1)[OF r1(2)] r1(3) Cons by simp
    note r2 = read_char_Cons[OF r1(2) r1(3)[unfolded Cons]]
    note same = same_operator_class[OF assms(3,4), of d ds]
    show ?thesis
    proof (cases "d = c \<or> d = 61 \<or> d = 62")
      case True
      then show ?thesis using Cons r1(1) r2(1) t same nc
        by (intro exI[of _ "operator_token [c, d]"] exI[of _ 2])
          (auto simp: tc_read_operator_def Let_def numeral_2_eq_2)
    next
      case False
      then show ?thesis using Cons r1(1) t same nc
        by (intro exI[of _ "operator_token [c]"] exI[of _ 1]) (simp add: tc_read_operator_def Let_def)
    qed
  qed
qed

lemma comment_end_word:
  "(push_bit 8 (ucast (b :: u8)) + ucast (a :: u8) :: u64) = 12074 \<longleftrightarrow> a = 42 \<and> b = 47"
proof -
  have b: "unat a < 256" "unat b < 256"
    using unsigned_less[of a, where ?'a = nat] unsigned_less[of b, where ?'a = nat] by simp_all
  have "(push_bit 8 (ucast b) :: u64) = of_nat (256 * unat b)" "(ucast a :: u64) = of_nat (unat a)"
    by (simp_all add: push_bit_eq_mult)
  then have "push_bit 8 (ucast b) + ucast a = (of_nat (256 * unat b + unat a) :: u64)"
    by (simp only: of_nat_add)
  then have "unat (push_bit 8 (ucast b) + ucast a :: u64) = 256 * unat b + unat a"
    using b by (simp only: unat_of_nat_u64)
  then have "(push_bit 8 (ucast b) + ucast a :: u64) = 12074 \<longleftrightarrow> 256 * unat b + unat a = 12074"
    by (simp add: word_unat_eq_iff)
  also have "\<dots> \<longleftrightarrow> unat a = 42 \<and> unat b = 47"
  proof
    assume e: "256 * unat b + unat a = 12074"
    have "unat b = (256 * unat b + unat a) div 256" using b(1) by simp
    then show "unat a = 42 \<and> unat b = 47" using e by simp
  qed simp
  finally show ?thesis by (simp add: word_unat_eq_iff)
qed

lemma after_comment_short: "length cs \<le> 1 \<Longrightarrow> after_comment cs = None"
  by (cases cs rule: after_comment.cases) auto

lemma read_comment_loop:
  assumes "src_end self \<le> length (source self)"
  shows "\<exists>q. tc_read_comment_loop self p = Ret q \<and> p \<le> q \<and>
    (case after_comment (drop (p + 2) (take (src_end self) (source self))) of
       None \<Rightarrow> src_end self \<le> q + 3
     | Some r \<Rightarrow> q + 3 < src_end self \<and> drop (q + 4) (take (src_end self) (source self)) = r)"
  using assms
proof (induction self p rule: tc_read_comment_loop.induct)
  case (1 self p)
  let ?S = "take (src_end self) (source self)"
  show ?case
  proof (cases "p + 3 < src_end self")
    case False
    then have "length (drop (p + 2) ?S) \<le> 1" using 1(2) by simp
    then have "after_comment (drop (p + 2) ?S) = None"
      by (rule after_comment_short)
    then show ?thesis using False by (subst tc_read_comment_loop.simps) simp
  next
    case True
    let ?a = "source self ! (p + 2)" and ?b = "source self ! (p + 3)"
    have d: "drop (p + 2) ?S = ?a # ?b # drop (p + 4) ?S"
      using True 1(2) by (simp add: Cons_nth_drop_Suc[symmetric] numeral_eq_Suc)
    have d1: "drop (p + 1 + 2) ?S = ?b # drop (p + 4) ?S"
      using True 1(2) by (simp add: Cons_nth_drop_Suc[symmetric] numeral_eq_Suc)
    have w: "load16 (source self) (p + 2) = Ret (push_bit 8 (ucast ?b) + ucast ?a)"
      using True 1(2) by (simp add: load16_def load8_inside numeral_eq_Suc)
    have step: "tc_read_comment_loop self p =
        (if ?a = 42 \<and> ?b = 47 then Ret p else tc_read_comment_loop self (p + 1))"
      using True w comment_end_word[of ?b ?a] by (subst tc_read_comment_loop.simps) simp
    show ?thesis
    proof (cases "?a = 42 \<and> ?b = 47")
      case fin: True
      then have "after_comment (drop (p + 2) ?S) = Some (drop (p + 4) ?S)" unfolding d by simp
      then show ?thesis using True fin by (simp add: step)
    next
      case False
      then have a: "after_comment (drop (p + 2) ?S) = after_comment (drop (p + 1 + 2) ?S)"
        unfolding d d1 by auto
      have "push_bit 8 (ucast ?b) + ucast ?a \<noteq> (12074 :: u64)" using False comment_end_word[of ?b ?a] by simp
      from 1(1)[OF True w this 1(2)] show ?thesis
        unfolding step if_not_P[OF False] a by (auto split: option.splits)
    qed
  qed
qed

lemma comment_read:
  assumes "scan_ok self" and "remaining self = c # 42 # cs"
  shows "\<exists>q. tc_read_comment self (src self) = Ret (1, self\<lparr>src := q + 3\<rparr>) \<and> src self \<le> q \<and>
    (case after_comment cs of None \<Rightarrow> tc_read_char (self\<lparr>src := q + 3\<rparr>) = Panic 10
     | Some r \<Rightarrow> tc_read_char (self\<lparr>src := q + 3\<rparr>) = Ret (first_class r, goto (q + 4) self) \<and>
         q + 4 \<le> src_end self \<and> remaining (goto (q + 4) self) = r)"
proof -
  let ?S = "take (src_end self) (source self)"
  note s = remaining_step[OF assms]
  have b: "src_end self \<le> length (source self)" using assms(1) by (simp add: scan_ok_def)
  have r1: "remaining (skip 1 self) = 42 # cs" using s by simp
  have ok1: "scan_ok (skip 1 self)" using s assms(1) by (intro scan_ok_goto) auto
  note s1 = remaining_step[OF ok1 r1]
  have cs: "drop (src self + 2) ?S = cs" using s1 by (simp add: remaining_goto)
  obtain q where q: "tc_read_comment_loop self (src self) = Ret q" "src self \<le> q"
    "case after_comment cs of None \<Rightarrow> src_end self \<le> q + 3
     | Some r \<Rightarrow> q + 3 < src_end self \<and> drop (q + 4) ?S = r"
    using read_comment_loop[OF b, of "src self"] cs by auto
  have "load8 (source self) (src self + 1) = Ret 42"
    using s1 b by (simp add: load8_inside)
  then have c: "tc_read_comment self (src self) = Ret (1, self\<lparr>src := q + 3\<rparr>)"
    using s1 q(1) by (simp add: tc_read_comment_def)
  show ?thesis
  proof (cases "after_comment cs")
    case None
    then show ?thesis using q c by (intro exI[of _ q]) (simp add: tc_read_char_def)
  next
    case (Some r)
    then have q3: "q + 3 < src_end self" "drop (q + 4) ?S = r" using q by simp_all
    have ok: "scan_ok (goto (q + 3) self)" using q3 assms(1) by (intro scan_ok_goto) auto
    have "remaining (goto (q + 3) self) = source self ! (q + 3) # r"
      using q3 b by (simp add: remaining_goto Cons_nth_drop_Suc[symmetric] numeral_eq_Suc)
    from read_char_Cons[OF ok this]
    have "tc_read_char (goto (q + 3) self) = Ret (first_class r, goto (q + 4) self)"
      "remaining (goto (q + 4) self) = r" by (simp_all add: numeral_eq_Suc)
    moreover have "tc_read_char (self\<lparr>src := q + 3\<rparr>) = tc_read_char (goto (q + 3) self)"
      by (simp add: tc_read_char_def goto_def Let_def)
    ultimately show ?thesis using c Some q3 q(2) by (intro exI[of _ q]) simp
  qed
qed


section \<open>Whole tokens\<close>

lemma first_class_bounds: "first_class cs = 32 \<or> first_class cs = 7 \<Longrightarrow> cs \<noteq> []"
  by auto

lemma no_comment_read:
  assumes "scan_ok self" and "remaining self = c # cs" and "\<not> (cs \<noteq> [] \<and> hd cs = 42)"
  shows "tc_read_comment self (src self) = Ret (0, self)"
proof (cases cs)
  case Nil
  then show ?thesis using remaining_step[OF assms(1,2)] assms(1)
    by (simp add: tc_read_comment_def remaining_goto scan_ok_def)
next
  case (Cons d ds)
  note r1 = read_char_Cons[OF assms(1,2)]
  note s = remaining_step[OF r1(2) r1(3)[unfolded Cons]]
  then show ?thesis using assms(1,3) Cons ucast_u8_eq[of d 42]
    by (simp add: tc_read_comment_def load8_inside scan_ok_def)
qed

lemma read_token_loop:
  "scan_ok self \<Longrightarrow> remaining self = cs \<Longrightarrow>
   (case skip_blanks cs of None \<Rightarrow> tc_read_token_loop self (first_class cs) = Panic 10
    | Some r \<Rightarrow> \<exists>q. tc_read_token_loop self (first_class cs) = Ret (first_class r, goto q self) \<and>
        q \<le> src_end self \<and> remaining (goto q self) = r)"
proof (induction cs arbitrary: self rule: skip_blanks.induct)
  case 1
  then show ?case
    by (subst tc_read_token_loop.simps) (auto simp: TC_DIV_def scan_ok_def intro!: exI[of _ "src self"])
next
  case (2 c cs)
  note rc = read_char_Cons[OF "2.prems"]
  consider (blank) "char_class c = 32" | (comment) ds where "char_class c = 7" "cs = 42 # ds"
    | (stop) "char_class c \<noteq> 32" "\<not> (char_class c = 7 \<and> cs \<noteq> [] \<and> hd cs = 42)"
    by (cases cs) auto
  then show ?case
  proof cases
    case blank
    have step: "tc_read_token_loop self (first_class (c # cs)) =
        tc_read_token_loop (goto (src self + 1) self) (first_class cs)"
      using blank rc(1) by (subst tc_read_token_loop.simps) simp
    have "skip_blanks (c # cs) = skip_blanks cs" using blank by simp
    then show ?thesis unfolding step using "2.IH"(1)[OF blank rc(2,3)]
      by (cases "skip_blanks cs") (simp_all del: skip_blanks.simps)
  next
    case comment
    obtain q where q: "tc_read_comment self (src self) = Ret (1, self\<lparr>src := q + 3\<rparr>)"
      "case after_comment ds of None \<Rightarrow> tc_read_char (self\<lparr>src := q + 3\<rparr>) = Panic 10
       | Some r \<Rightarrow> tc_read_char (self\<lparr>src := q + 3\<rparr>) = Ret (first_class r, goto (q + 4) self) \<and>
         q + 4 \<le> src_end self \<and> remaining (goto (q + 4) self) = r"
      using comment_read[OF "2.prems"(1), of c ds] "2.prems"(2) comment by auto
    have step: "tc_read_token_loop self (first_class (c # cs)) =
        seq (tc_read_char (self\<lparr>src := q + 3\<rparr>)) (\<lambda>(type, self). tc_read_token_loop self type)"
      using comment q(1) by (subst tc_read_token_loop.simps) (simp add: TC_DIV_def)
    show ?thesis
    proof (cases "after_comment ds")
      case None
      then show ?thesis using q(2) comment step by simp
    next
      case (Some r)
      have ok: "scan_ok (goto (q + 4) self)" using q(2) Some "2.prems"(1) by (intro scan_ok_goto) auto
      have "case skip_blanks r of
          None \<Rightarrow> tc_read_token_loop (goto (q + 4) self) (first_class r) = Panic 10
        | Some r' \<Rightarrow> \<exists>p. tc_read_token_loop (goto (q + 4) self) (first_class r) =
            Ret (first_class r', goto p (goto (q + 4) self)) \<and>
            p \<le> src_end (goto (q + 4) self) \<and> remaining (goto p (goto (q + 4) self)) = r'"
        by (rule "2.IH"(2)) (use comment Some ok q(2) in auto)
      moreover have st: "tc_read_token_loop self (first_class (c # cs)) =
          tc_read_token_loop (goto (q + 4) self) (first_class r)"
        unfolding step using Some q(2) by simp
      moreover have sk: "skip_blanks (c # cs) = skip_blanks r" using comment Some by simp
      ultimately show ?thesis unfolding st sk
        by (cases "skip_blanks r") (simp_all del: skip_blanks.simps)
    qed
  next
    case stop
    have "tc_read_token_loop self (first_class (c # cs)) = Ret (char_class c, self)"
      using stop no_comment_read[OF "2.prems"] by (subst tc_read_token_loop.simps) (auto simp: TC_DIV_def)
    moreover have "skip_blanks (c # cs) = Some (c # cs)" using stop by auto
    ultimately show ?thesis using "2.prems" skip_0[OF "2.prems"(1)]
      by (auto simp: scan_ok_def intro!: exI[of _ "src self"])
  qed
qed

text \<open>The part of the state that the scanner does not change.\<close>

definition off_scanner :: "compiler \<Rightarrow> compiler" where
  "off_scanner self = self\<lparr>src := 0, next_char := 0, next_char_type := 0, next_token := 0,
     next_token_data := 0, next_token_length := 0\<rparr>"

lemma off_scanner_simps [simp]:
  "off_scanner (goto p self) = off_scanner self"
  "off_scanner (self\<lparr>next_token := t\<rparr>) = off_scanner self"
  "off_scanner (self\<lparr>next_token_data := d\<rparr>) = off_scanner self"
  "off_scanner (self\<lparr>next_token_length := n\<rparr>) = off_scanner self"
  by (simp_all add: off_scanner_def goto_def)

lemma scan_ok_iff:
  "scan_ok self \<longleftrightarrow> src self \<le> src_end self \<and> src_end self \<le> length (source self) \<and>
     length (source self) \<le> 65536 \<and>
     next_char self = (if src self < src_end self then source self ! src self else 0) \<and>
     next_char_type self = (if src self < src_end self then char_class (source self ! src self) else 0)"
  unfolding scan_ok_def goto_def by (cases self) auto

lemma scanner_field_simps [simp]:
  "scan_ok (self\<lparr>next_token := t\<rparr>) = scan_ok self" "remaining (self\<lparr>next_token := t\<rparr>) = remaining self"
  "scan_ok (self\<lparr>next_token_data := d\<rparr>) = scan_ok self"
  "remaining (self\<lparr>next_token_data := d\<rparr>) = remaining self"
  "scan_ok (self\<lparr>next_token_length := n\<rparr>) = scan_ok self"
  "remaining (self\<lparr>next_token_length := n\<rparr>) = remaining self"
  by (simp_all add: scan_ok_iff remaining_def)


lemma skip_blanks_first: "skip_blanks cs = Some (c # r) \<Longrightarrow> char_class c \<noteq> 32"
  by (induction cs rule: skip_blanks.induct) (auto split: if_splits option.splits)

lemma skip_blanks_le: "skip_blanks cs = Some r \<Longrightarrow> length r \<le> length cs"
  by (induction cs rule: skip_blanks.induct)
    (fastforce split: if_splits option.splits dest: after_comment_less)+

text \<open>The token at the start of a non-blank text.\<close>

definition read_one :: "compiler \<Rightarrow> u64 \<Rightarrow> (u64 \<times> compiler) res" where
  "read_one self type =
     (if type = TC_INTEGER then tc_read_integer self
      else if type = 39 then tc_read_quoted_char self
      else if type = TC_IDENTIFIER then tc_read_identifier self
      else if type \<ge> 10 \<and> type < 20 then tc_read_operator self type
      else if type \<noteq> 0 then seq (tc_read_char self) (\<lambda>(_, self). Ret (type, self))
      else Ret (type, self))"

lemma keyword_token_data: "has_lexeme self l \<Longrightarrow> has_lexeme (goto p self) l"
  by (simp add: has_lexeme_def goto_def split: lexeme.splits)

lemma read_one:
  assumes "scan_ok self" and "remaining self = cs"
  shows "case lex_one cs of Inl e \<Rightarrow> read_one self (first_class cs) = Panic e
    | Inr (l, r) \<Rightarrow> \<exists>t self'. read_one self (first_class cs) = Ret (t, self') \<and> scan_ok self' \<and>
        remaining self' = r \<and> off_scanner self' = off_scanner self \<and>
        has_lexeme (self'\<lparr>next_token := t\<rparr>) l"
proof (cases cs)
  case Nil
  then show ?thesis using assms by (auto simp: lex_one_def read_one_def tokens has_lexeme_def)
next
  case (Cons c r)
  have rem: "remaining self = c # r" using assms Cons by simp
  note rc = read_char_Cons[OF assms(1) rem]
  have w: "take (length (takeWhile P cs)) cs = takeWhile P cs" for P :: "u8 \<Rightarrow> bool"
    by (induction cs) auto
  have nz: "char_class c \<noteq> 0" using char_class_table by blast
  note skp = skip_ok[OF assms(1), unfolded assms(2)]
  consider (digit) "char_class c = 2" | (quote) "c = 39" "char_class c = 39" | (word) "char_class c = 3"
    | (operator) "10 \<le> char_class c" "char_class c < 20"
    | (other) "char_class c \<notin> {2, 3, 39}" "\<not> (10 \<le> char_class c \<and> char_class c < 20)" "c \<noteq> 39"
    using TC_CHAR_39[of c] by blast
  then show ?thesis
  proof cases
    case digit
    then have "lex_one cs = Inr (Number (number (takeWhile is_digit cs)), dropWhile is_digit cs)"
      using Cons by (simp add: lex_one_def is_digit_def)
    moreover have "read_one self (first_class cs) = tc_read_integer self"
      using digit Cons by (simp add: read_one_def tokens)
    ultimately show ?thesis using number_read[OF assms(1)] skp[of "length (takeWhile is_digit cs)"]
      by (simp add: length_takeWhile_le' assms(2) has_lexeme_def dropWhile_skip)
  next
    case quote
    then have "lex_one cs = lex_quoted r" using Cons by (simp add: lex_one_def is_digit_def)
    moreover have "read_one self (first_class cs) = tc_read_quoted_char self"
      using quote Cons by (simp add: read_one_def tokens)
    moreover have "remaining self = 39 # r" using rem quote by simp
    note q = quoted_read[OF assms(1) this]
    ultimately show ?thesis
    proof (cases "lex_quoted r")
      case (Inr lr)
      then obtain l r' where lr: "lex_quoted r = Inr (l, r')" by (cases lr) auto
      with q obtain v n where v: "l = Number v" "n \<le> length (39 # r)" "r' = drop n (39 # r)"
        "tc_read_quoted_char self = Ret (TC_INTEGER, (skip n self)\<lparr>next_token_data := v\<rparr>)" by auto
      then show ?thesis using skp[of n] Cons quote lr \<open>lex_one cs = lex_quoted r\<close>
          \<open>read_one self (first_class cs) = tc_read_quoted_char self\<close>
        by (simp add: has_lexeme_def)
    qed (use q in simp)
  next
    case word
    let ?w = "takeWhile is_word cs"
    have ql: "lex_one cs = Inr (Word ?w, dropWhile is_word cs)"
      using word Cons TC_CHAR_39[of c] by (auto simp add: lex_one_def is_digit_def is_word_def)
    have rd: "read_one self (first_class cs) = tc_read_identifier self"
      using word Cons by (simp add: read_one_def tokens)
    have b: "src self \<le> src_end self" "src_end self \<le> length (source self)" "length (source self) \<le> 65536"
      using assms(1) by (simp_all add: scan_ok_def)
    have "length cs = src_end self - src self" using assms(2) b by (simp add: remaining_def flip: assms(2))
    then have l: "src self + length ?w \<le> src_end self"
      using length_takeWhile_le'[of is_word cs] b by simp
    have "unat (of_nat (src self) :: u64) = src self" using b by (intro unat_of_nat_u64) simp
    then show ?thesis unfolding ql rd
      using word_read[OF assms] skp[of "length ?w"] l
      by (simp add: length_takeWhile_le' has_lexeme_def dropWhile_skip)
  next
    case operator
    obtain t n where o: "lex_operator c r = (Other t, drop n (c # r))" "n \<le> length (c # r)"
      "tc_read_operator self (char_class c) = Ret (t, skip n self)"
      using operator_read[OF assms(1) rem operator] by auto
    have "char_class c \<noteq> 2" "char_class c \<noteq> 3" "c \<noteq> 39" "char_class c \<noteq> 39"
      using operator TC_CHAR_39[of c] by auto
    then have "lex_one cs = Inr (Other t, drop n cs)"
      "read_one self (first_class cs) = tc_read_operator self (char_class c)"
      using operator Cons o by (simp_all add: lex_one_def read_one_def is_digit_def is_word_def tokens)
    then show ?thesis using o skp[of n] Cons by (simp add: has_lexeme_def)
  next
    case other
    then have "lex_one cs = Inr (Other (char_class c), r)"
      using Cons by (auto simp: lex_one_def is_digit_def is_word_def)
    moreover have "read_one self (first_class cs) = seq (tc_read_char self) (\<lambda>(_, self). Ret (char_class c, self))"
      using Cons other nz by (auto simp: read_one_def tokens)
    ultimately show ?thesis using rc by (simp add: has_lexeme_def)
  qed
qed

lemma tc_read_token_step: "tc_read_token self =
    seq (tc_read_token_loop self (next_char_type self)) (\<lambda>(type, self).
    seq (read_one self type) (\<lambda>(token, self). Ret (self\<lparr>next_token := token\<rparr>)))"
  by (simp add: tc_read_token_def read_one_def)

lemma read_token:
  assumes "scan_ok self"
  shows "case lex (remaining self) of Inl e \<Rightarrow> tc_read_token self = Panic e
    | Inr (l, r) \<Rightarrow> \<exists>self'. tc_read_token self = Ret self' \<and> scan_ok self' \<and> remaining self' = r \<and>
        has_lexeme self' l \<and> off_scanner self' = off_scanner self"
proof (cases "skip_blanks (remaining self)")
  case None
  then show ?thesis using read_token_loop[OF assms refl] scan_ok_chars(2)[OF assms]
    by (simp add: lex_def tc_read_token_step)
next
  case (Some cs)
  then obtain q where q: "tc_read_token_loop self (next_char_type self) = Ret (first_class cs, goto q self)"
    "q \<le> src_end self" "remaining (goto q self) = cs"
    using read_token_loop[OF assms refl] scan_ok_chars(2)[OF assms] by auto
  have "lex (remaining self) = lex_one cs" using Some by (simp add: lex_def)
  then show ?thesis using read_one[OF scan_ok_goto[OF assms q(2)] q(3)] q(1)
    by (cases "lex_one cs") (auto simp: tc_read_token_step)
qed

end
