(* ===== verification/Tc_Start.thy ===== *)
theory Tc_Start
  imports Tc_Lexer
begin

text \<open>
  What \<open>main\<close> of \<open>tools/toyc/toyc.c\<close> does before the parser runs: the input files are read one
  after the other into \<open>SRC\<close>, behind an unused first character, and the compiler state is set up.
\<close>

definition MAX_SRC_SIZE :: nat where "MAX_SRC_SIZE = 65536"
definition MAX_CODE_SIZE :: nat where "MAX_CODE_SIZE = 20480"
definition MAX_HEAP_SIZE :: nat where "MAX_HEAP_SIZE = 49152"

text \<open>\<open>fread\<close> reaches the end of a file only when the file is shorter than what it asks for;
  \<open>None\<close> is "Input file too large".\<close>

fun read_inputs :: "u8 list list \<Rightarrow> u8 list \<Rightarrow> u8 list option" where
  "read_inputs [] loaded = Some loaded"
| "read_inputs (f # fs) loaded =
     (if length f < MAX_SRC_SIZE - length loaded then read_inputs fs (loaded @ f) else None)"

text \<open>The state before the first \<open>tc_read_char\<close>; \<open>dst_base\<close> and \<open>heap_base\<close> are the addresses of
  \<open>DST\<close> and \<open>HEAP\<close>. The zero bytes of \<open>SRC\<close> past its end are left out.\<close>

definition init_compiler :: "u64 \<Rightarrow> u64 \<Rightarrow> u8 list \<Rightarrow> compiler" where
  "init_compiler dst_base heap_base input =
     \<lparr>source = input, src = 0, src_end = length input, next_char = 0, next_char_type = 0,
      next_token = 0, next_token_data = 0, next_token_length = 0,
      code_base = dst_base, code = replicate MAX_CODE_SIZE 0, dst = dst_base, dst_mark = 0,
      dst_limit = dst_base + of_nat MAX_CODE_SIZE,
      cells = Map.empty, heap = heap_base, heap_limit = heap_base + of_nat MAX_HEAP_SIZE,
      symbols = 0, fn_return_type = 0, next_register = 0, frame_size = 0\<rparr>"

lemma read_inputs_concat:
  "length src0 \<le> MAX_SRC_SIZE \<Longrightarrow> read_inputs fs src0 = Some input \<Longrightarrow>
   input = src0 @ concat fs \<and> length input \<le> MAX_SRC_SIZE"
proof (induction fs arbitrary: src0)
  case (Cons f fs)
  from Cons.prems have "length f < MAX_SRC_SIZE - length src0" "read_inputs fs (src0 @ f) = Some input"
    by (simp_all split: if_splits)
  then have "length (src0 @ f) \<le> MAX_SRC_SIZE" "read_inputs fs (src0 @ f) = Some input" by simp_all
  from Cons.IH[OF this] show ?case by auto
qed simp

lemma read_first_char:
  assumes "input \<noteq> []" and "length input \<le> MAX_SRC_SIZE"
  shows "\<exists>t. tc_read_char (init_compiler d h input) = Ret (t, goto 1 (init_compiler d h input))"
proof (cases "1 < length input")
  case True
  moreover have "unat (ucast (input ! 1) :: u64) < length TC_CHAR_TYPES"
    using unsigned_less[of "input ! 1", where ?'a = nat] by (simp add: unat_ucast_u8 length_char_types)
  ultimately show ?thesis using assms
    by (simp add: tc_read_char_def init_compiler_def load8_inside Let_def goto_def ucast_ucast_u8
        char_class_def unat_ucast_u8)
next
  case False
  then show ?thesis using assms
    by (simp add: tc_read_char_def init_compiler_def goto_def)
qed

text \<open>\<open>scanner s\<close> is a scanner state in front of the text \<open>s\<close>, without a code buffer.\<close>

definition scanner :: "u8 list \<Rightarrow> compiler" where
  "scanner s = goto 1 ((init_compiler 4096 65536 (0 # s))\<lparr>code := []\<rparr>)"

lemma scanner_ok:
  assumes "length s < 65536"
  shows "scan_ok (scanner s)" and "remaining (scanner s) = s"
  using assms by (auto simp: scan_ok_iff scanner_def goto_def init_compiler_def remaining_def)

end
