(* ===== verification/Tc_Lexer_Properties.thy ===== *)
theory Tc_Lexer_Properties
  imports Tc_Start
begin

text \<open>
  What the scanner promises: it implements the reference lexer, it never faults, every token
  consumes characters, integer literals are read back, keywords are recognised exactly, and the
  compiler starts in front of the concatenation of its input files.
\<close>

section \<open>Tokens are not 0 and consume characters\<close>

lemma operator_tokens: "list_all (\<lambda>(s, t). t \<noteq> 0) operators"
  by code_simp

lemma operator_token_nonzero: "operator_token s \<noteq> 0"
  using operator_tokens
  by (auto simp: operator_token_def list_all_iff split: option.splits dest: map_of_SomeD)

lemma keyword_tokens: "list_all (\<lambda>(s, t). t \<noteq> 0) keyword_list"
  by code_simp

lemma keyword_token_nonzero: "keyword_token s \<noteq> 0"
  using keyword_tokens
  by (auto simp: keyword_token_def list_all_iff tokens split: option.splits dest: map_of_SomeD)

definition token_of :: "lexeme \<Rightarrow> u64" where
  "token_of l = (case l of Number v \<Rightarrow> TC_INTEGER | Word w \<Rightarrow> keyword_token w | Other t \<Rightarrow> t)"

lemma has_lexeme_token: "has_lexeme self l \<Longrightarrow> next_token self = token_of l"
  by (simp add: has_lexeme_def token_of_def split: lexeme.splits)

lemma lex_one_Cons:
  assumes "lex_one (c # r) = Inr (l, r')"
  shows "token_of l \<noteq> 0 \<and> length r' \<le> length r"
proof -
  have le: "length (dropWhile P r) \<le> length r" for P :: "u8 \<Rightarrow> bool"
    by (simp add: length_dropWhile_le)
  have q: "lex_quoted r = Inr (l, r') \<Longrightarrow> token_of l = 2 \<and> length r' \<le> length r"
    by (cases r rule: lex_quoted.cases)
      (auto simp: token_of_def tokens split: list.splits if_splits)
  have o: "lex_operator c r = (l, r') \<Longrightarrow> token_of l \<noteq> 0 \<and> length r' \<le> length r"
    by (cases r) (auto simp: token_of_def operator_token_nonzero split: if_splits)
  show ?thesis
    using assms q o le[of is_digit] le[of is_word] char_class_table[of c]
    by (auto simp: lex_one_def token_of_def tokens keyword_token_nonzero split: if_splits)
qed

lemma lex_progress:
  assumes "lex cs = Inr (l, r)"
  shows "if token_of l = 0 then r = [] else length r < length cs"
proof -
  obtain ds where ds: "skip_blanks cs = Some ds" "lex_one ds = Inr (l, r)"
    using assms by (auto simp: lex_def split: option.splits)
  show ?thesis
  proof (cases ds)
    case Nil
    then show ?thesis using ds by (auto simp: lex_one_def token_of_def)
  next
    case (Cons c r')
    then show ?thesis using lex_one_Cons[of c r' l r] ds skip_blanks_le[OF ds(1)] by auto
  qed
qed

section \<open>Integer literals\<close>

lemma digit_classes: "list_all (\<lambda>k. char_class (of_nat (48 + k)) = 2) [0..<10]"
  by code_simp

lemma digits_are_digits: "list_all is_digit (digits 10 n)"
proof (induction n rule: less_induct)
  case (less n)
  have d: "is_digit (of_nat (48 + k))" if "k < 10" for k
    using digit_classes that unfolding list_all_iff is_digit_def by auto
  show ?case
  proof (cases "n < 10")
    case True
    then show ?thesis using d by (subst digits.simps) simp
  next
    case False
    then show ?thesis using d less[of "n div 10"] by (subst digits.simps) simp
  qed
qed

lemma number_snoc: "number (ds @ [c]) = number ds * 10 + (ucast c - 48)"
  by (simp add: number_def)

lemma ucast_digit: "k < 10 \<Longrightarrow> (ucast (of_nat (48 + k) :: u8) :: u64) - 48 = of_nat k"
proof -
  assume k: "k < 10"
  have "unat (ucast (of_nat (48 + k) :: u8) :: u64) = 48 + k"
    using unat_digit[OF k] by (simp add: unat_ucast_u8)
  then have "(ucast (of_nat (48 + k) :: u8) :: u64) = of_nat (48 + k)"
    using k by (simp add: word_unat_eq_iff unat_of_nat_u64 del: of_nat_add)
  then show ?thesis by simp
qed

lemma number_digits: "number (digits 10 n) = of_nat n"
proof (induction n rule: less_induct)
  case (less n)
  show ?case
  proof (cases "n < 10")
    case True
    then show ?thesis using ucast_digit[of n] by (subst digits.simps) (simp add: number_def)
  next
    case False
    have "(of_nat (n div 10) * 10 + of_nat (n mod 10) :: u64) = of_nat (n div 10 * 10 + n mod 10)"
      by (simp only: of_nat_add of_nat_mult of_nat_numeral)
    then have "(of_nat (n div 10) * 10 + of_nat (n mod 10) :: u64) = of_nat n" by simp
    then show ?thesis using False less[of "n div 10"] ucast_digit[of "n mod 10"]
      by (subst digits.simps) (simp add: number_snoc)
  qed
qed

lemma digits_nonempty: "digits 10 n \<noteq> []"
  by (subst digits.simps) simp

lemma lex_digits:
  assumes "r = [] \<or> \<not> is_digit (hd r)"
  shows "lex (digits 10 n @ r) = Inr (Number (of_nat n), r)"
proof -
  let ?d = "digits 10 n"
  obtain c ds where d: "?d = c # ds" using digits_nonempty by (cases ?d) auto
  have "is_digit c" using digits_are_digits[of n] d by simp
  then have c: "char_class c = 2" by (simp add: is_digit_def)
  have all: "\<forall>x\<in>set ?d. is_digit x" using digits_are_digits[of n] by (simp add: list_all_iff)
  have tw: "takeWhile is_digit (?d @ r) = ?d" "dropWhile is_digit (?d @ r) = r"
    using all assms by (cases r; auto simp: takeWhile_append dropWhile_append)+
  have "skip_blanks (?d @ r) = Some (?d @ r)" using c d by simp
  moreover have "lex_one (?d @ r) =
      Inr (Number (number (takeWhile is_digit (?d @ r))), dropWhile is_digit (?d @ r))"
    using \<open>is_digit c\<close> d by (simp add: lex_one_def)
  ultimately show ?thesis using tw by (simp add: lex_def number_digits)
qed


section \<open>Errors\<close>

lemma lex_errors: "lex cs = Inl e \<Longrightarrow> e = 10 \<or> e = 11 \<or> e = 12"
proof -
  have "lex_quoted r = Inl e \<Longrightarrow> e = 11 \<or> e = 12" for r
    by (cases r rule: lex_quoted.cases) (auto split: list.splits if_splits)
  then show "lex cs = Inl e \<Longrightarrow> e = 10 \<or> e = 11 \<or> e = 12"
    by (auto simp: lex_def lex_one_def split: option.splits list.splits if_splits)
qed

lemma sample_length: "length (chars s) = length s"
  by (simp add: chars_def)

section \<open>Properties\<close>

text \<open>C10. \<open>tc_read_token\<close> implements the reference lexer: in front of a text it stops with the
  error code of the lexer, or it leaves the lexer's token in \<open>next_token\<close>, with the value of a
  number or the place and length of a name, and the scanner in front of the lexer's rest; it changes
  no other part of the compiler.\<close>

theorem read_token_refines_lexer:
  assumes "scan_ok self"
  shows "case lex (remaining self) of
      Inl e \<Rightarrow> tc_read_token self = Panic e
    | Inr (l, r) \<Rightarrow> \<exists>self'. tc_read_token self = Ret self' \<and> scan_ok self' \<and> remaining self' = r \<and>
        has_lexeme self' l \<and> off_scanner self' = off_scanner self"
  by (rule read_token[OF assms])

lemma lex_sample: "lex (chars ''/**/if1 <'') = Inr (Word (chars ''if1''), chars '' <'')"
  by code_simp

theorem read_token_refines_lexer_witness:
  "\<exists>self'. tc_read_token (scanner (chars ''/**/if1 <'')) = Ret self' \<and>
     remaining self' = chars '' <'' \<and> has_lexeme self' (Word (chars ''if1''))"
  using read_token_refines_lexer[OF scanner_ok(1), of "chars ''/**/if1 <''"]
    scanner_ok(2)[of "chars ''/**/if1 <''"]
  by (auto simp: lex_sample sample_length)

text \<open>C28. The scanner is safe on every text: \<open>tc_read_token\<close> makes no access outside the source or its
  tables, and the only errors it reports are 10 (a comment is not closed), 11 (a character literal
  is not printable) and 12 (a character literal is not closed).\<close>

theorem read_token_safe:
  assumes "scan_ok self"
  shows "tc_read_token self \<noteq> Fault \<and>
    (\<forall>e. tc_read_token self = Panic e \<longrightarrow> e = 10 \<or> e = 11 \<or> e = 12)"
  using read_token[OF assms] lex_errors[of "remaining self"]
  by (auto split: sum.splits prod.splits)

theorem read_token_safe_witness: "tc_read_token (scanner [39, 39]) \<noteq> Fault"
  using read_token_safe[OF scanner_ok(1), of "[39, 39]"] by simp

lemma read_token_advances:
  assumes "scan_ok self" and "tc_read_token self = Ret self'"
  shows "if next_token self' = 0 then remaining self' = []
    else length (remaining self') < length (remaining self)"
proof -
  obtain l where l: "lex (remaining self) = Inr (l, remaining self')" "has_lexeme self' l"
    using read_token[OF assms(1)] assms(2) by (auto split: sum.splits prod.splits)
  show ?thesis using lex_progress[OF l(1)] has_lexeme_token[OF l(2)] by simp
qed

text \<open>Every token consumes characters: after a call of \<open>tc_read_token\<close> either \<open>next_token\<close> is 0
  and nothing of the source is left, or it is not 0 and less of the source is left. So the token 0
  means the end of the source, and every loop that reads tokens until then ends.\<close>

theorem read_token_progress:
  assumes "scan_ok self" and "tc_read_token self = Ret self'"
  shows "if next_token self' = 0 then remaining self' = []
    else length (remaining self') < length (remaining self)"
  by (rule read_token_advances[OF assms])

lemma scan_two:
  assumes "scan_ok self" and "lex (remaining self) = Inr (l, r)"
  obtains self' where "tc_read_token self = Ret self'" "scan_ok self'" "remaining self' = r"
    "next_token self' = token_of l"
  using read_token[OF assms(1)] assms(2) has_lexeme_token by auto

lemma lex_end_sample: "lex (chars ''; // '') = Inr (Other 59, chars '' // '')"
  by code_simp

theorem read_token_progress_witness:
  "\<exists>self'. tc_read_token (scanner (chars ''; // '')) = Ret self' \<and> length (remaining self') < 5"
proof -
  have ok: "scan_ok (scanner (chars ''; // ''))" "remaining (scanner (chars ''; // '')) = chars ''; // ''"
    by (simp_all add: scanner_ok sample_length)
  obtain self' where s: "tc_read_token (scanner (chars ''; // '')) = Ret self'"
    "next_token self' = 59"
    using scan_two[OF ok(1), unfolded ok(2), OF lex_end_sample] by (auto simp: token_of_def)
  show ?thesis using read_token_progress[OF ok(1) s(1)] s ok(2) by (simp add: sample_length)
qed

text \<open>Integer literals: a number that is written in decimal, in front of anything but a digit, is
  read as a token \<open>TC_INTEGER\<close> with its value (modulo \<open>2 ^ 64\<close>), and the scanner stops behind it.\<close>

theorem integer_literal_roundtrip:
  assumes "scan_ok self" and "remaining self = digits 10 n @ r" and "r = [] \<or> \<not> is_digit (hd r)"
  shows "\<exists>self'. tc_read_token self = Ret self' \<and> next_token self' = TC_INTEGER \<and>
    next_token_data self' = of_nat n \<and> remaining self' = r"
  using read_token[OF assms(1)] lex_digits[OF assms(3), of n]
  by (auto simp: assms(2) has_lexeme_def)

lemma digits_sample: "\<not> is_digit (hd (chars '';x''))"
  by code_simp

theorem integer_literal_roundtrip_witness:
  "\<exists>self'. tc_read_token (scanner (digits 10 4096 @ chars '';x'')) = Ret self' \<and>
     next_token self' = TC_INTEGER \<and> next_token_data self' = 4096 \<and> remaining self' = chars '';x''"
  using integer_literal_roundtrip[OF scanner_ok(1) scanner_ok(2), of 4096 "chars '';x''"]
  by (simp add: digits_sample sample_length digits.simps)

text \<open>C29. The keyword table is exact: for a name in the source, with its length and the low bits of
  its hash, \<open>tc_get_keyword\<close> returns the keyword's token when the name is one of the 15 keywords and
  \<open>TC_IDENTIFIER\<close> for every other name.\<close>

theorem keyword_table_exact:
  assumes "start + length name \<le> length (source self)"
    and "window (source self) start (length name) = name" and "length name < 18446744073709551616"
  shows "tc_get_keyword self start (of_nat (length name)) (hash name AND 63) =
    Ret (case map_of keyword_list name of Some t \<Rightarrow> t | None \<Rightarrow> TC_IDENTIFIER)"
  using get_keyword[OF assms] by (simp add: keyword_token_def split: option.splits)

theorem keyword_table_exact_witness:
  "tc_get_keyword (scanner (chars ''let'')) 1 3 (hash (chars ''let'') AND 63) = Ret TC_LET"
proof -
  have "source (scanner (chars ''let'')) = 0 # chars ''let''"
    by (simp add: scanner_def init_compiler_def)
  then show ?thesis
    using keyword_table_exact[of 1 "chars ''let''" "scanner (chars ''let'')"]
    by (simp add: chars_def window_def keyword_list_def)
qed

text \<open>The compiler starts right: when the input files fit, the source is their concatenation
  behind one unused character, and after the first \<open>tc_read_char\<close> of \<open>main\<close> the scanner is in a
  well-formed state in front of all of it.\<close>

theorem compiler_starts_scanning:
  assumes "read_inputs inputs [0] = Some input"
  shows "\<exists>t self. tc_read_char (init_compiler d h input) = Ret (t, self) \<and> scan_ok self \<and>
    remaining self = concat inputs"
proof -
  have i: "input = 0 # concat inputs" "length input \<le> MAX_SRC_SIZE"
    using read_inputs_concat[OF _ assms] by (auto simp: MAX_SRC_SIZE_def)
  obtain t where t: "tc_read_char (init_compiler d h input) = Ret (t, goto 1 (init_compiler d h input))"
    using read_first_char[OF _ i(2)] i(1) by auto
  have "scan_ok (goto 1 (init_compiler d h input))"
    using i by (cases "concat inputs") (auto simp: scan_ok_iff goto_def init_compiler_def MAX_SRC_SIZE_def)
  moreover have "remaining (goto 1 (init_compiler d h input)) = concat inputs"
    using i by (simp add: remaining_goto init_compiler_def)
  ultimately show ?thesis using t by auto
qed

theorem compiler_starts_scanning_witness:
  "\<exists>t self. tc_read_char (init_compiler 4096 65536 [0, 102, 110]) = Ret (t, self) \<and> scan_ok self \<and>
    remaining self = [102, 110]"
  using compiler_starts_scanning[of "[[102], [110]]" "[0, 102, 110]" 4096 65536]
  by (simp add: MAX_SRC_SIZE_def)

end
