(* ===== verification/Tc_Backend.thy ===== *)
theory Tc_Backend
  imports Tc_Base
begin

text \<open>
  The code generator, \<open>tools/toyc/backend.c\<close>, function by function, with the stores of
  \<open>base.h\<close> on the code buffer. A parameter \<open>u8** placeholder_p\<close> is passed by value and its new
  value is returned next to the state.
\<close>

section \<open>Loads and stores in the code\<close>

text \<open>A pointer into the code buffer has an offset in \<open>code\<close>; any other pointer faults.\<close>

definition store8 :: "compiler \<Rightarrow> u64 \<Rightarrow> u64 \<Rightarrow> compiler res" where
  "store8 self p v =
     (let i = unat (p - code_base self) in
      if code_base self \<le> p \<and> i < length (code self)
      then Ret (self\<lparr>code := (code self)[i := ucast v]\<rparr>) else Fault)"

definition store16 :: "compiler \<Rightarrow> u64 \<Rightarrow> u64 \<Rightarrow> compiler res" where
  "store16 self p v =
     seq (store8 self p v) (\<lambda>self. store8 self (p + 1) (drop_bit 8 v))"

definition store32 :: "compiler \<Rightarrow> u64 \<Rightarrow> u64 \<Rightarrow> compiler res" where
  "store32 self p v =
     seq (store8 self p v) (\<lambda>self.
     seq (store8 self (p + 1) (drop_bit 8 v)) (\<lambda>self.
     seq (store8 self (p + 2) (drop_bit 16 v)) (\<lambda>self.
     store8 self (p + 3) (drop_bit 24 v))))"

text \<open>\<open>*((u64* ) p) = v\<close> on a little-endian machine.\<close>

definition store64 :: "compiler \<Rightarrow> u64 \<Rightarrow> u64 \<Rightarrow> compiler res" where
  "store64 self p v =
     seq (store32 self p v) (\<lambda>self. store32 self (p + 4) (drop_bit 32 v))"

definition code_load32 :: "compiler \<Rightarrow> u64 \<Rightarrow> u64 res" where
  "code_load32 self p =
     (if code_base self \<le> p then load32 (code self) (unat (p - code_base self)) else Fault)"

text \<open>Symbols in the heap.\<close>

definition get_symbol :: "compiler \<Rightarrow> u64 \<Rightarrow> symbol res" where
  "get_symbol self p = (case cells self p of Some (Sym s) \<Rightarrow> Ret s | _ \<Rightarrow> Fault)"

definition put_symbol :: "compiler \<Rightarrow> u64 \<Rightarrow> symbol \<Rightarrow> compiler" where
  "put_symbol self p s = self\<lparr>cells := (cells self)(p \<mapsto> Sym s)\<rparr>"

section \<open>Writing\<close>

text \<open>The result is the allocated pointer and the new value of \<open>*ptr_p\<close>.\<close>

definition mem_allocate :: "u64 \<Rightarrow> u64 \<Rightarrow> u64 \<Rightarrow> (u64 \<times> u64) res" where
  "mem_allocate sz ptr ptr_limit =
     (if sz > ptr_limit \<or> ptr > ptr_limit - sz then Panic 1 else Ret (ptr, ptr + sz))"

definition code_allocate :: "compiler \<Rightarrow> u64 \<Rightarrow> (u64 \<times> compiler) res" where
  "code_allocate self sz =
     seq (mem_allocate sz (dst self) (dst_limit self)) (\<lambda>(p, d). Ret (p, self\<lparr>dst := d\<rparr>))"

definition tc_write8 :: "compiler \<Rightarrow> u64 \<Rightarrow> compiler res" where
  "tc_write8 self v = seq (code_allocate self 1) (\<lambda>(p, self). store8 self p v)"

definition tc_write16 :: "compiler \<Rightarrow> u64 \<Rightarrow> compiler res" where
  "tc_write16 self v = seq (code_allocate self 2) (\<lambda>(p, self). store16 self p v)"

definition tc_write24 :: "compiler \<Rightarrow> u64 \<Rightarrow> u64 \<Rightarrow> compiler res" where
  "tc_write24 self opcode args = seq (tc_write16 self opcode) (\<lambda>self. tc_write8 self args)"

definition tc_write32 :: "compiler \<Rightarrow> u64 \<Rightarrow> compiler res" where
  "tc_write32 self v = seq (code_allocate self 4) (\<lambda>(p, self). store32 self p v)"

definition tc_write_placeholder :: "compiler \<Rightarrow> u64 \<Rightarrow> (u64 \<times> compiler) res" where
  "tc_write_placeholder self placeholder =
     (let new_placeholder = dst self;
          last_placeholder = (if placeholder = 0 then new_placeholder else placeholder) in
      seq (tc_write32 self (new_placeholder - last_placeholder)) (\<lambda>self.
      Ret (new_placeholder, self)))"

lemma store8_same: "store8 self p v = Ret self' \<Longrightarrow> code_base self' = code_base self"
  by (auto simp: store8_def Let_def split: if_splits)

lemma store32_same: "store32 self p v = Ret self' \<Longrightarrow> code_base self' = code_base self"
  by (auto simp: store32_def seq_eq_Ret dest!: store8_same)

text \<open>The chain of placeholders is followed towards lower addresses; a pointer that would leave the
  buffer there has no defined value.\<close>

function tc_fill_placeholders :: "compiler \<Rightarrow> u64 \<Rightarrow> u64 \<Rightarrow> compiler res" where
  "tc_fill_placeholders self placeholder v =
     (if placeholder \<noteq> 0
      then seq (code_load32 self placeholder) (\<lambda>offset.
        seq (store32 self placeholder (v - (placeholder + 4))) (\<lambda>self.
        if offset = 0 then Ret self
        else if offset > placeholder - code_base self then Fault
        else tc_fill_placeholders self (placeholder - offset) v))
      else Ret self)"
  by pat_completeness auto
termination
proof (relation "measure (\<lambda>(_, p, _). unat p)", goal_cases)
  case (2 self p v offset self')
  from 2(2) have "code_base self \<le> p" by (simp add: code_load32_def split: if_splits)
  moreover have "code_base self' = code_base self" using 2(3) by (rule store32_same)
  moreover have "unat offset \<le> unat (p - code_base self')" using 2(5) by (simp add: less_u64)
  ultimately have "unat offset \<le> unat p" by (simp add: unat_sub_u64)
  moreover have "unat offset \<noteq> 0" using 2(4) by (simp add: eq_u64)
  ultimately show ?case by (simp add: unat_sub_u64 le_u64)
qed simp

declare tc_fill_placeholders.simps [simp del]

section \<open>Registers\<close>

definition MAX_REGISTERS :: u64 where "MAX_REGISTERS = 8"

definition tc_new_register :: "compiler \<Rightarrow> (u64 \<times> compiler) res" where
  "tc_new_register self =
     (let reg = next_register self in
      if reg \<ge> MAX_REGISTERS then Panic 105 else Ret (reg, self\<lparr>next_register := reg + 1\<rparr>))"

function tc_save_registers_loop :: "compiler \<Rightarrow> u64 \<Rightarrow> compiler res" where
  "tc_save_registers_loop self n =
     (if n > 0
      then let n = n - 1 in
        seq (tc_write16 self (0x5041 OR push_bit 8 n)) (\<lambda>self. tc_save_registers_loop self n)
      else Ret self)"
  by pat_completeness auto
termination
  by (relation "measure (\<lambda>(_, n). unat n)")
    (auto simp: word_gt_0 measure_unat)

declare tc_save_registers_loop.simps [simp del]

definition tc_save_registers :: "compiler \<Rightarrow> u64 \<Rightarrow> compiler res" where
  "tc_save_registers self n =
     tc_save_registers_loop (self\<lparr>frame_size := frame_size self + n, next_register := 0\<rparr>) n"

section \<open>Instructions\<close>

definition tc_write_cst_insn :: "compiler \<Rightarrow> u64 \<Rightarrow> compiler res" where
  "tc_write_cst_insn self v =
     seq (tc_new_register self) (\<lambda>(z, self).
     if v = 0 then tc_write24 self 0x314d (0xc0 OR push_bit 3 z OR z)
     else if v \<le> 0xFFFFFFFF
     then seq (tc_write16 self (0xB841 OR push_bit 8 z)) (\<lambda>self. tc_write32 self v)
     else seq (tc_write16 self (0xB849 OR push_bit 8 z)) (\<lambda>self.
       seq (code_allocate self 8) (\<lambda>(p, self). store64 self p v)))"

definition tc_write_static_insn :: "compiler \<Rightarrow> u64 \<Rightarrow> compiler res" where
  "tc_write_static_insn self d =
     seq (tc_new_register self) (\<lambda>(z, self).
     seq (tc_write24 self 0x8d4c (0x05 OR push_bit 3 z)) (\<lambda>self.
     tc_write32 self (d - (dst self + 4))))"

definition tc_write_binary_insn :: "compiler \<Rightarrow> u64 \<Rightarrow> compiler res" where
  "tc_write_binary_insn self token =
     (let y = next_register self - 1; z = y - 1 in
      seq (if token = TC_ADD then tc_write24 self 0x034d (0xc0 OR push_bit 3 z OR y)
           else if token = TC_SUB then tc_write24 self 0x2b4d (0xc0 OR push_bit 3 z OR y)
           else if token = TC_MUL then tc_write32 self (0xc0af0f4d OR push_bit 27 z OR push_bit 24 y)
           else if token = TC_DIV
           then seq (tc_write16 self 0xd231) (\<lambda>self.
             seq (tc_write24 self 0x894c (0xc0 OR push_bit 3 z)) (\<lambda>self.
             seq (tc_write24 self 0xf749 (0xf0 OR y)) (\<lambda>self.
             tc_write24 self 0x8949 (0xc0 OR z))))
           else if token = TC_BIT_AND then tc_write24 self 0x234d (0xc0 OR push_bit 3 z OR y)
           else if token = TC_BIT_OR then tc_write24 self 0x0b4d (0xc0 OR push_bit 3 z OR y)
           else if token = TC_SHIFT_LEFT
           then seq (tc_write24 self 0x8944 (0xc1 OR push_bit 3 y)) (\<lambda>self.
             tc_write24 self 0xd349 (0xe0 OR z))
           else seq (tc_write24 self 0x8944 (0xc1 OR push_bit 3 y)) (\<lambda>self.
             tc_write24 self 0xd349 (0xe8 OR z)))
        (\<lambda>self. Ret (self\<lparr>next_register := y\<rparr>)))"

definition JUMP_INSTRUCTIONS :: "u8 list" where
  "JUMP_INSTRUCTIONS = [0x82, 0x84, 0x87, 0x86, 0x85, 0x83]"

definition tc_write_jump_insn :: "compiler \<Rightarrow> u64 \<Rightarrow> u64 \<Rightarrow> (u64 \<times> compiler) res" where
  "tc_write_jump_insn self token placeholder =
     seq (tc_write32 self 0x0fc8394d) (\<lambda>self.
     seq (load8 JUMP_INSTRUCTIONS (unat (token - TC_LT))) (\<lambda>j.
     seq (tc_write8 self j) (\<lambda>self.
     seq (tc_write_placeholder self placeholder) (\<lambda>(placeholder, self).
     Ret (placeholder, self\<lparr>next_register := 0\<rparr>)))))"

definition tc_write_goto_insn :: "compiler \<Rightarrow> u64 \<Rightarrow> (u64 \<times> compiler) res" where
  "tc_write_goto_insn self placeholder =
     seq (tc_write8 self 0xe9) (\<lambda>self. tc_write_placeholder self placeholder)"

definition tc_write_loop_insn :: "compiler \<Rightarrow> u64 \<Rightarrow> compiler res" where
  "tc_write_loop_insn self loop_dst =
     seq (tc_write8 self 0xe9) (\<lambda>self. tc_write32 self (loop_dst - (dst self + 4)))"

definition tc_write_mem_insn :: "compiler \<Rightarrow> u64 \<Rightarrow> u64 \<Rightarrow> u64 \<Rightarrow> u64 \<Rightarrow> compiler res" where
  "tc_write_mem_insn self insn modrm sib slot =
     seq (tc_write16 self insn) (\<lambda>self.
     let modrm = (if slot \<noteq> 0 then modrm + 0x40 else modrm);
         modrm = (if slot \<ge> 16 then modrm + 0x40 else modrm) in
     seq (tc_write8 self modrm) (\<lambda>self.
     seq (if sib \<noteq> 0 then tc_write8 self sib else Ret self) (\<lambda>self.
     if slot \<ge> 16 then tc_write32 self (slot * 8)
     else if slot \<noteq> 0 then tc_write8 self (slot * 8)
     else Ret self)))"

definition tc_write_load_insn :: "compiler \<Rightarrow> u64 \<Rightarrow> compiler res" where
  "tc_write_load_insn self field =
     (let self = self\<lparr>dst_mark := dst self\<rparr>;
          z = next_register self - 1;
          sib = (if z = 4 then 0x24 else 0) in
      tc_write_mem_insn self 0x8b4d (push_bit 3 z OR z) sib field)"

definition tc_erase_load_insn :: "compiler \<Rightarrow> compiler" where
  "tc_erase_load_insn self = self\<lparr>dst := dst_mark self\<rparr>"

definition tc_write_store_insn :: "compiler \<Rightarrow> u64 \<Rightarrow> compiler res" where
  "tc_write_store_insn self field =
     seq (tc_write_mem_insn self 0x894d 0x8 0 field) (\<lambda>self. Ret (self\<lparr>next_register := 0\<rparr>))"

definition tc_write_increment_insn :: "compiler \<Rightarrow> u64 \<Rightarrow> u64 \<Rightarrow> u64 \<Rightarrow> compiler res" where
  "tc_write_increment_insn self insn modrm slot =
     (if slot \<ge> 16
      then seq (tc_write24 self (insn - 512) modrm) (\<lambda>self. tc_write32 self (slot * 8))
      else if slot \<noteq> 0
      then seq (tc_write24 self insn modrm) (\<lambda>self. tc_write8 self (slot * 8))
      else Ret self)"

definition tc_write_address_of_insn :: "compiler \<Rightarrow> u64 \<Rightarrow> compiler res" where
  "tc_write_address_of_insn self field =
     (let z = next_register self - 1 in tc_write_increment_insn self 0x8349 (0xc0 OR z) field)"

definition tc_write_ptr_insn :: "compiler \<Rightarrow> u64 \<Rightarrow> compiler res" where
  "tc_write_ptr_insn self variable =
     seq (tc_new_register self) (\<lambda>(z, self).
     tc_write_mem_insn self 0x8d4c (0x04 OR push_bit 3 z) 0x24 (frame_size self - variable))"

definition tc_write_get_insn :: "compiler \<Rightarrow> u64 \<Rightarrow> compiler res" where
  "tc_write_get_insn self variable =
     seq (tc_new_register (self\<lparr>dst_mark := dst self\<rparr>)) (\<lambda>(z, self).
     tc_write_mem_insn self 0x8b4c (0x04 OR push_bit 3 z) 0x24 (frame_size self - variable))"

definition tc_erase_get_insn :: "compiler \<Rightarrow> compiler" where
  "tc_erase_get_insn self = self\<lparr>dst := dst_mark self, next_register := next_register self - 1\<rparr>"

definition tc_write_set_insn :: "compiler \<Rightarrow> u64 \<Rightarrow> compiler res" where
  "tc_write_set_insn self variable =
     seq (tc_write_mem_insn self 0x894c 0x04 0x24 (frame_size self - variable)) (\<lambda>self.
     Ret (self\<lparr>next_register := 0\<rparr>))"

definition tc_write_pop_insn :: "compiler \<Rightarrow> compiler" where
  "tc_write_pop_insn self = self\<lparr>next_register := 0\<rparr>"

definition tc_write_fn_insn :: "compiler \<Rightarrow> u64 \<Rightarrow> compiler res" where
  "tc_write_fn_insn self arity =
     (if arity > MAX_REGISTERS then Panic 107
      else tc_save_registers (self\<lparr>frame_size := 0\<rparr>) arity)"

function tc_restore_registers_loop :: "compiler \<Rightarrow> u64 \<Rightarrow> u64 \<Rightarrow> compiler res" where
  "tc_restore_registers_loop self saved_registers z =
     (if z < saved_registers
      then seq (tc_write16 self (0x5841 OR push_bit 8 z)) (\<lambda>self.
        tc_restore_registers_loop self saved_registers (z + 1))
      else Ret self)"
  by pat_completeness auto
termination
  by (relation "measure (\<lambda>(_, n, z). unat (n - z))") (auto simp: u64_countdown)

declare tc_restore_registers_loop.simps [simp del]

definition tc_write_call_insn :: "compiler \<Rightarrow> u64 \<Rightarrow> u64 \<Rightarrow> compiler res" where
  "tc_write_call_insn self fn saved_registers =
     seq (tc_write8 self 0xe8) (\<lambda>self.
     seq (get_symbol self fn) (\<lambda>f.
     seq (if sym_kind f = SYM_FORWARD_FN
          then seq (tc_write_placeholder self (sym_value f)) (\<lambda>(placeholder, self).
            Ret (put_symbol self fn (f\<lparr>sym_value := placeholder\<rparr>)))
          else tc_write32 self (sym_value f - (dst self + 4))) (\<lambda>self.
     seq (get_symbol self (sym_type f)) (\<lambda>type.
     seq (if sym_kind type \<noteq> SYM_VOID
          then seq (if saved_registers \<noteq> 0
                    then tc_write24 self 0x894d (0xc0 OR saved_registers) else Ret self) (\<lambda>self.
            if saved_registers \<ge> MAX_REGISTERS then Panic 108
            else Ret (self\<lparr>next_register := saved_registers + 1\<rparr>))
          else Ret (self\<lparr>next_register := saved_registers\<rparr>)) (\<lambda>self.
     tc_restore_registers_loop (self\<lparr>frame_size := frame_size self - saved_registers\<rparr>)
       saved_registers 0)))))"

definition tc_write_return_insn :: "compiler \<Rightarrow> compiler res" where
  "tc_write_return_insn self =
     seq (tc_write_increment_insn self 0x8348 0xc4 (frame_size self)) (\<lambda>self.
     seq (tc_write8 self 0xc3) (\<lambda>self. Ret (self\<lparr>next_register := 0\<rparr>)))"

end
