(* ===== verification/Tc_Emit.thy ===== *)
theory Tc_Emit
  imports Tc_Backend Byte_Codec
begin

text \<open>
  What the writing functions of the back end do to the code buffer: in a well-formed state they
  append bytes at \<open>dst\<close>, or stop with error 1 when the buffer is full; they never store outside it.
  Every instruction is shown to be such a \<open>written\<close> byte sequence.
\<close>

section \<open>Appending bytes\<close>

definition code_ok :: "compiler \<Rightarrow> bool" where
  "code_ok self \<longleftrightarrow> code_base self \<noteq> 0 \<and>
     unat (code_base self) + length (code self) < 18446744073709551616 \<and>
     code_base self \<le> dst self \<and> dst self \<le> dst_limit self \<and>
     dst_limit self = code_base self + of_nat (length (code self))"

definition pos :: "compiler \<Rightarrow> nat" where
  "pos self = unat (dst self - code_base self)"

definition room :: "nat \<Rightarrow> compiler \<Rightarrow> bool" where
  "room n self \<longleftrightarrow> pos self + n \<le> length (code self)"

definition emit :: "u8 list \<Rightarrow> compiler \<Rightarrow> compiler" where
  "emit bs self = self\<lparr>code := blit (code self) (pos self) bs, dst := dst self + of_nat (length bs)\<rparr>"

definition written :: "compiler \<Rightarrow> u8 list \<Rightarrow> compiler res" where
  "written self bs = (if room (length bs) self then Ret (emit bs self) else Panic 1)"

lemma code_ok_bounds:
  assumes "code_ok self"
  shows "unat (dst self) = unat (code_base self) + pos self" and "pos self \<le> length (code self)"
    and "unat (dst_limit self) = unat (code_base self) + length (code self)"
proof -
  have b: "unat (code_base self) \<le> unat (dst self)" using assms by (simp add: code_ok_def le_u64)
  then have "pos self = unat (dst self) - unat (code_base self)"
    by (simp add: pos_def unat_sub_u64 le_u64)
  then show 1: "unat (dst self) = unat (code_base self) + pos self" using b by simp
  have l: "length (code self) < 18446744073709551616" using assms by (simp add: code_ok_def)
  have "dst_limit self = code_base self + of_nat (length (code self))"
    using assms by (simp add: code_ok_def)
  then show 2: "unat (dst_limit self) = unat (code_base self) + length (code self)"
    using assms by (simp add: code_ok_def unat_add_u64 unat_of_nat_u64[OF l])
  have "unat (dst self) \<le> unat (dst_limit self)" using assms unfolding code_ok_def le_u64 by blast
  then show "pos self \<le> length (code self)" using 1 2 by simp
qed

lemma code_ok_index:
  assumes "code_ok self" and "pos self + k < length (code self)"
  shows "code_base self \<le> dst self + of_nat k" and "unat (dst self + of_nat k - code_base self) = pos self + k"
proof -
  note b = code_ok_bounds[OF assms(1)]
  have len: "unat (code_base self) + length (code self) < 18446744073709551616"
    using assms(1) by (simp add: code_ok_def)
  have k: "unat (of_nat k :: u64) = k" using assms(2) len by (intro unat_of_nat_u64) simp
  have d: "unat (dst self + of_nat k) = unat (code_base self) + pos self + k"
    using b(1) assms(2) len k by (simp add: unat_add_u64)
  then show "code_base self \<le> dst self + of_nat k" by (simp add: le_u64)
  then show "unat (dst self + of_nat k - code_base self) = pos self + k"
    by (simp add: unat_sub_u64 d)
qed

lemma room_emit: "pos self + length bs \<le> length (code self) \<Longrightarrow> code_ok self \<Longrightarrow>
    pos (emit bs self) = pos self + length bs \<and> length (code (emit bs self)) = length (code self)"
proof -
  assume a: "pos self + length bs \<le> length (code self)" "code_ok self"
  have len: "unat (code_base self) + length (code self) < 18446744073709551616"
    using a(2) by (simp add: code_ok_def)
  note b = code_ok_bounds[OF a(2)]
  have "unat (of_nat (length bs) :: u64) = length bs" using a(1) len by (intro unat_of_nat_u64) simp
  then have d: "unat (dst self + of_nat (length bs)) = unat (code_base self) + pos self + length bs"
    using b(1) a(1) len by (simp add: unat_add_u64)
  then have "unat (dst self + of_nat (length bs) - code_base self) = pos self + length bs"
    by (subst unat_sub_u64) (simp_all add: le_u64 d)
  then show ?thesis using a(1) by (simp add: emit_def pos_def length_blit)
qed

lemma code_ok_emit:
  assumes "code_ok self" and "room (length bs) self"
  shows "code_ok (emit bs self)"
proof -
  have r: "pos self + length bs \<le> length (code self)" using assms(2) by (simp add: room_def)
  have len: "unat (code_base self) + length (code self) < 18446744073709551616"
    using assms(1) by (simp add: code_ok_def)
  note b = code_ok_bounds[OF assms(1)]
  have "unat (of_nat (length bs) :: u64) = length bs" using r len by (intro unat_of_nat_u64) simp
  then have d: "unat (dst self + of_nat (length bs)) = unat (code_base self) + pos self + length bs"
    using b(1) r len by (simp add: unat_add_u64)
  have "code_base self \<le> dst self + of_nat (length bs)" by (simp add: le_u64 d)
  moreover have "dst self + of_nat (length bs) \<le> dst_limit self"
    using b(3) r by (simp add: le_u64 d)
  ultimately show ?thesis using assms(1) r
    by (simp add: code_ok_def emit_def length_blit)
qed

lemma blit_append: "blit (blit xs i ys) (i + length ys) zs = blit xs i (ys @ zs)"
  if "i + length ys + length zs \<le> length xs"
  by (rule nth_equalityI) (use that in \<open>auto simp: byte_lists nth_append\<close>)

lemma emit_emit:
  assumes "code_ok self" and "room (length bs + length cs) self"
  shows "emit cs (emit bs self) = emit (bs @ cs) self"
proof -
  have r: "pos self + length bs + length cs \<le> length (code self)" using assms(2) by (simp add: room_def)
  then have p: "pos (emit bs self) = pos self + length bs" using room_emit[OF _ assms(1), of bs] by simp
  show ?thesis unfolding emit_def[of cs] p
    using blit_append[OF r] by (simp add: emit_def add.assoc)
qed

lemma written_append:
  assumes "code_ok self"
  shows "seq (written self bs) (\<lambda>self. written self cs) = written self (bs @ cs)"
proof (cases "room (length bs) self")
  case True
  then have r: "pos self + length bs \<le> length (code self)" by (simp add: room_def)
  then have "room (length cs) (emit bs self) = room (length bs + length cs) self"
    using room_emit[OF r assms] by (simp add: room_def add.assoc)
  then show ?thesis using True emit_emit[OF assms, of bs cs] by (simp add: written_def)
next
  case False
  then show ?thesis by (simp add: written_def room_def)
qed

text \<open>Writing, and then any step.\<close>

lemma seq_written:
  "seq (written self bs) f = (if room (length bs) self then f (emit bs self) else Panic 1)"
  by (simp add: written_def)

lemma written_Nil: "code_ok self \<Longrightarrow> written self [] = Ret self"
  using code_ok_bounds(2)[of self] by (simp add: written_def room_def emit_def blit_def)

section \<open>The writing functions\<close>

lemma code_allocate:
  assumes "code_ok self"
  shows "code_allocate self sz =
    (if pos self + unat sz \<le> length (code self) then Ret (dst self, self\<lparr>dst := dst self + sz\<rparr>) else Panic 1)"
proof -
  note b = code_ok_bounds[OF assms]
  have "(sz > dst_limit self \<or> dst self > dst_limit self - sz) \<longleftrightarrow>
      \<not> (pos self + unat sz \<le> length (code self))"
  proof (cases "sz > dst_limit self")
    case True
    then show ?thesis using b(3) by (simp add: less_u64)
  next
    case False
    then have "sz \<le> dst_limit self" by simp
    then have "unat (dst_limit self - sz) = unat (code_base self) + length (code self) - unat sz"
      "unat sz \<le> unat (code_base self) + length (code self)"
      using b(3) by (simp_all add: unat_sub_u64 le_u64)
    then show ?thesis using False b by (auto simp: less_u64)
  qed
  then show ?thesis by (simp add: code_allocate_def mem_allocate_def)
qed

text \<open>Storing byte \<open>k\<close> behind \<open>dst\<close>, in the state that \<open>code_allocate\<close> leaves.\<close>

lemma store8_at:
  assumes "code_ok self" and "pos self + k < length (code self)"
    and "code_base s = code_base self" and "length (code s) = length (code self)"
  shows "store8 s (dst self + of_nat k) v = Ret (s\<lparr>code := (code s)[pos self + k := ucast v]\<rparr>)"
  using code_ok_index[OF assms(1,2)] assms by (simp add: store8_def)

lemma list_update_blit1: "i < length xs \<Longrightarrow> xs[i := b] = blit xs i [b]"
  by (simp add: blit_def upd_conv_take_nth_drop)

lemma blit_snoc: "i + length bs < length xs \<Longrightarrow> (blit xs i bs)[i + length bs := b] = blit xs i (bs @ [b])"
  using blit_append[of i bs "[b]" xs] by (simp add: list_update_blit1 length_blit)

text \<open>The stores append byte by byte.\<close>

definition stored :: "compiler \<Rightarrow> u64 \<Rightarrow> u8 list \<Rightarrow> compiler" where
  "stored self sz bs = self\<lparr>dst := dst self + sz, code := blit (code self) (pos self) bs\<rparr>"

lemma stored_step:
  assumes "code_ok self" and "pos self + length bs < length (code self)"
  shows "store8 (stored self sz bs) (dst self + of_nat (length bs)) v =
    Ret (stored self sz (bs @ [ucast v]))"
proof -
  have "store8 (stored self sz bs) (dst self + of_nat (length bs)) v =
      Ret ((stored self sz bs)\<lparr>code := (code (stored self sz bs))[pos self + length bs := ucast v]\<rparr>)"
    by (rule store8_at[OF assms]) (use assms(2) in \<open>simp_all add: stored_def length_blit\<close>)
  then show ?thesis using blit_snoc[OF assms(2)] by (simp add: stored_def)
qed

lemma stored_Nil: "code_ok self \<Longrightarrow> stored self sz [] = self\<lparr>dst := dst self + sz\<rparr>"
  using code_ok_bounds(2)[of self] by (simp add: stored_def blit_def)

lemma stored_emit: "sz = of_nat (length bs) \<Longrightarrow> stored self sz bs = emit bs self"
  by (simp add: stored_def emit_def)

lemma le_bytes_Suc: "le_bytes (Suc k) w = le_bytes k w @ [ucast (drop_bit (8 * k) w)]"
  by (simp add: le_bytes_def)

lemma stored_byte:
  assumes "code_ok self" and "pos self + length bs + k < length (code self)"
  shows "store8 (stored self sz (bs @ le_bytes k v)) (dst self + of_nat (length bs) + of_nat k) (drop_bit (8 * k) v) =
    Ret (stored self sz (bs @ le_bytes (Suc k) v))"
  using stored_step[OF assms(1), of "bs @ le_bytes k v"] assms(2) by (simp add: le_bytes_Suc add.assoc)

lemma store16_at:
  assumes "code_ok self" and "pos self + length bs + 2 \<le> length (code self)"
  shows "store16 (stored self sz bs) (dst self + of_nat (length bs)) v = Ret (stored self sz (bs @ le_bytes 2 v))"
proof -
  have "store8 (stored self sz (bs @ le_bytes k v)) (dst self + of_nat (length bs) + of_nat k) (drop_bit (8 * k) v) =
      Ret (stored self sz (bs @ le_bytes (Suc k) v))" if "k < 2" for k
    by (rule stored_byte) (use assms that in auto)
  from this[of 0] this[of 1] show ?thesis
    by (simp add: store16_def) (simp add: le_bytes_def numeral_eq_Suc)
qed

lemma store32_at:
  assumes "code_ok self" and "pos self + length bs + 4 \<le> length (code self)"
  shows "store32 (stored self sz bs) (dst self + of_nat (length bs)) v = Ret (stored self sz (bs @ le_bytes 4 v))"
proof -
  have "store8 (stored self sz (bs @ le_bytes k v)) (dst self + of_nat (length bs) + of_nat k) (drop_bit (8 * k) v) =
      Ret (stored self sz (bs @ le_bytes (Suc k) v))" if "k < 4" for k
    by (rule stored_byte) (use assms that in auto)
  from this[of 0] this[of 1] this[of 2] this[of 3] show ?thesis
    by (simp add: store32_def) (simp add: le_bytes_def numeral_eq_Suc)
qed

lemma le_bytes_8: "le_bytes 8 (v :: u64) = le_bytes 4 v @ le_bytes 4 (drop_bit 32 v)"
  by (simp add: le_bytes_def numeral_eq_Suc upt_rec)

lemma store64_at:
  assumes "code_ok self" and "pos self + 8 \<le> length (code self)"
  shows "store64 (stored self sz []) (dst self) v = Ret (stored self sz (le_bytes 8 v))"
  using store32_at[OF assms(1), of "[]" sz v]
    store32_at[OF assms(1), of "le_bytes 4 v" sz "drop_bit 32 v"] assms(2)
  by (simp add: store64_def le_bytes_8)

text \<open>Allocating room and storing into it.\<close>

lemma allocate_written:
  assumes "code_ok self" and "sz = of_nat (length bs)" and "length bs \<le> 8"
    and "pos self + length bs \<le> length (code self) \<Longrightarrow>
      f (dst self, stored self sz []) = Ret (stored self sz bs)"
  shows "seq (code_allocate self sz) f = written self bs"
proof -
  have "unat sz = length bs" using assms(2,3) by (simp add: unat_of_nat_u64)
  then show ?thesis using assms
    by (simp add: code_allocate written_def room_def stored_Nil stored_emit)
qed

lemma tc_write8: "code_ok self \<Longrightarrow> tc_write8 self v = written self [ucast v]"
  unfolding tc_write8_def
  by (rule allocate_written) (use stored_step[of self "[]"] in auto)

lemma tc_write16: "code_ok self \<Longrightarrow> tc_write16 self v = written self (le_bytes 2 v)"
  unfolding tc_write16_def
  by (rule allocate_written) (use store16_at[of self "[]"] in auto)

lemma tc_write32: "code_ok self \<Longrightarrow> tc_write32 self v = written self (le_bytes 4 v)"
  unfolding tc_write32_def
  by (rule allocate_written) (use store32_at[of self "[]"] in auto)

lemma tc_write64: "code_ok self \<Longrightarrow>
    seq (code_allocate self 8) (\<lambda>(p, self). store64 self p v) = written self (le_bytes 8 v)"
  by (rule allocate_written) (use store64_at[of self] in auto)

text \<open>A step behind written bytes, in a state that is again well-formed.\<close>

lemma seq_written_cong:
  assumes "code_ok self" and "\<And>s. code_ok s \<Longrightarrow> s = emit bs self \<Longrightarrow> f s = g s"
  shows "seq (written self bs) f = seq (written self bs) g"
  using assms code_ok_emit[OF assms(1), of bs] by (simp add: seq_written)

lemma written_written:
  assumes "code_ok self" and "\<And>s. code_ok s \<Longrightarrow> s = emit bs self \<Longrightarrow> f s = written s cs"
  shows "seq (written self bs) f = written self (bs @ cs)"
  using seq_written_cong[OF assms(1), of bs f "\<lambda>s. written s cs"] assms(2) written_append[OF assms(1)]
  by simp

lemma tc_write24: "code_ok self \<Longrightarrow> tc_write24 self opcode args = written self (le_bytes 2 opcode @ [ucast args])"
  by (simp add: tc_write24_def tc_write16) (rule written_written; simp add: tc_write8)

section \<open>The state outside the code buffer\<close>

lemma emit_fields [simp]:
  "next_register (emit bs self) = next_register self" "frame_size (emit bs self) = frame_size self"
  "code_base (emit bs self) = code_base self" "cells (emit bs self) = cells self"
  "dst_mark (emit bs self) = dst_mark self" "dst (emit bs self) = dst self + of_nat (length bs)"
  by (simp_all add: emit_def)

lemma code_ok_fields [simp]:
  "code_ok (self\<lparr>next_register := r\<rparr>) = code_ok self" "code_ok (self\<lparr>frame_size := n\<rparr>) = code_ok self"
  "code_ok (self\<lparr>dst_mark := d\<rparr>) = code_ok self" "code_ok (self\<lparr>cells := c\<rparr>) = code_ok self"
  by (simp_all add: code_ok_def)

lemma written_fields:
  "written (self\<lparr>next_register := r\<rparr>) bs = seq (written self bs) (\<lambda>s. Ret (s\<lparr>next_register := r\<rparr>))"
  "written (self\<lparr>frame_size := n\<rparr>) bs = seq (written self bs) (\<lambda>s. Ret (s\<lparr>frame_size := n\<rparr>))"
  "written (self\<lparr>dst_mark := d\<rparr>) bs = seq (written self bs) (\<lambda>s. Ret (s\<lparr>dst_mark := d\<rparr>))"
  by (simp_all add: written_def room_def pos_def emit_def)

end
