(* ===== verification/X86.thy ===== *)
theory X86
  imports Byte_Codec
begin

text \<open>
  The fragment of x86-64 that the back end targets: a decoder, written after the format of the
  instruction set (REX prefix, opcode, ModRM, SIB, displacement, immediate) and not after the
  back end, and the effect of each decoded instruction on registers, flags and memory. Memory is
  accessed in aligned words of 8 bytes.
\<close>

section \<open>Instructions\<close>

datatype operand = Reg nat | Mem nat u64 | Rip u64

datatype alu = Add | Or | And | Sub | Xor | Cmp

datatype cond = Below | Equal | Above | BelowEqual | NotEqual | AboveEqual

text \<open>The first argument of an instruction with two widths tells if it has 64 bits.\<close>

datatype insn =
    Alu bool alu operand operand
  | AluImm bool alu operand u64
  | Mov bool operand operand
  | MovImm nat u64
  | Lea nat operand
  | Imul nat operand
  | Div operand
  | Shl nat
  | Shr nat
  | Push nat
  | Pop nat
  | Jump u64
  | JumpIf cond u64
  | Call u64
  | Return

section \<open>Decoding\<close>

text \<open>Displacements and immediates are sign-extended.\<close>

fun disp8 :: "u8 list \<Rightarrow> (u64 \<times> u8 list) option" where
  "disp8 (b # bs) = Some (scast b, bs)"
| "disp8 [] = None"

definition imm32 :: "u8 list \<Rightarrow> (u32 \<times> u8 list) option" where
  "imm32 bs = (if length bs < 4 then None else Some (le_word (take 4 bs), drop 4 bs))"

definition disp32 :: "u8 list \<Rightarrow> (u64 \<times> u8 list) option" where
  "disp32 bs = (case imm32 bs of None \<Rightarrow> None | Some (w, bs) \<Rightarrow> Some (scast w, bs))"

definition imm64 :: "u8 list \<Rightarrow> (u64 \<times> u8 list) option" where
  "imm64 bs = (if length bs < 8 then None else Some (le_word (take 8 bs), drop 8 bs))"

text \<open>A memory operand with a known base register, for the mode bits 0, 1 and 2.\<close>

definition based :: "nat \<Rightarrow> nat \<Rightarrow> u8 list \<Rightarrow> (operand \<times> u8 list) option" where
  "based md base bs =
     (if md = 0 then Some (Mem base 0, bs)
      else if md = 1 then map_option (\<lambda>(d, bs). (Mem base d, bs)) (disp8 bs)
      else map_option (\<lambda>(d, bs). (Mem base d, bs)) (disp32 bs))"

text \<open>ModRM, with the extension bits \<open>R\<close>, \<open>X\<close> and \<open>B\<close> (0 or 8). The result is the register field
  and the other operand. An index register, or a SIB byte without base, is outside the fragment.\<close>

fun modrm :: "nat \<Rightarrow> nat \<Rightarrow> nat \<Rightarrow> u8 list \<Rightarrow> (nat \<times> operand \<times> u8 list) option" where
  "modrm r x b [] = None"
| "modrm r x b (m # bs) =
     (let md = unat m div 64; reg = r + unat m div 8 mod 8; rm = unat m mod 8 in
      if md = 3 then Some (reg, Reg (b + rm), bs)
      else if rm = 4 then
        (case bs of [] \<Rightarrow> None
         | s # bs \<Rightarrow>
             if x + unat s div 8 mod 8 \<noteq> 4 \<or> md = 0 \<and> unat s mod 8 = 5 then None
             else map_option (\<lambda>(op, bs). (reg, op, bs)) (based md (b + unat s mod 8) bs))
      else if md = 0 \<and> rm = 5 then map_option (\<lambda>(d, bs). (reg, Rip d, bs)) (disp32 bs)
      else map_option (\<lambda>(op, bs). (reg, op, bs)) (based md (b + rm) bs))"

definition alu_of :: "nat \<Rightarrow> alu option" where
  "alu_of k = (if k = 0 then Some Add else if k = 1 then Some Or else if k = 4 then Some And
     else if k = 5 then Some Sub else if k = 6 then Some Xor else if k = 7 then Some Cmp else None)"

definition cond_of :: "nat \<Rightarrow> cond option" where
  "cond_of k = (if k = 2 then Some Below else if k = 3 then Some AboveEqual else if k = 4 then Some Equal
     else if k = 5 then Some NotEqual else if k = 6 then Some BelowEqual else if k = 7 then Some Above
     else None)"

text \<open>The opcodes of two bytes: conditional jumps and \<open>imul\<close>.\<close>

fun decode_0f :: "bool \<Rightarrow> nat \<Rightarrow> nat \<Rightarrow> nat \<Rightarrow> u8 list \<Rightarrow> (insn \<times> u8 list) option" where
  "decode_0f w r x b [] = None"
| "decode_0f w r x b (c # bs) =
     (let op = unat c in
      if op div 16 = 8 then
        (case cond_of (op mod 16) of None \<Rightarrow> None
         | Some t \<Rightarrow> map_option (\<lambda>(d, bs). (JumpIf t d, bs)) (disp32 bs))
      else if op = 0xaf \<and> w then map_option (\<lambda>(reg, opd, bs). (Imul reg opd, bs)) (modrm r x b bs)
      else None)"

text \<open>An opcode with its operands: the four forms of the ALU operations, immediates, moves, the
  unary group, shifts, the stack, and jumps.\<close>

fun decode_op :: "bool \<Rightarrow> nat \<Rightarrow> nat \<Rightarrow> nat \<Rightarrow> u8 list \<Rightarrow> (insn \<times> u8 list) option" where
  "decode_op w r x b [] = None"
| "decode_op w r x b (c # bs) =
     (let op = unat c in
      if op < 64 \<and> op mod 8 = 1 then
        (case alu_of (op div 8) of None \<Rightarrow> None
         | Some f \<Rightarrow> map_option (\<lambda>(reg, opd, bs). (Alu w f opd (Reg reg), bs)) (modrm r x b bs))
      else if op < 64 \<and> op mod 8 = 3 then
        (case alu_of (op div 8) of None \<Rightarrow> None
         | Some f \<Rightarrow> map_option (\<lambda>(reg, opd, bs). (Alu w f (Reg reg) opd, bs)) (modrm r x b bs))
      else if op = 0x0f then decode_0f w r x b bs
      else if op div 8 = 10 then Some (Push (b + op mod 8), bs)
      else if op div 8 = 11 then Some (Pop (b + op mod 8), bs)
      else if op = 0x81 \<or> op = 0x83 then
        (case modrm 0 x b bs of None \<Rightarrow> None
         | Some (ext, opd, bs) \<Rightarrow>
             (case alu_of ext of None \<Rightarrow> None
              | Some f \<Rightarrow> map_option (\<lambda>(d, bs). (AluImm w f opd d, bs))
                  (if op = 0x83 then disp8 bs else disp32 bs)))
      else if op = 0x89 then map_option (\<lambda>(reg, opd, bs). (Mov w opd (Reg reg), bs)) (modrm r x b bs)
      else if op = 0x8b then map_option (\<lambda>(reg, opd, bs). (Mov w (Reg reg) opd, bs)) (modrm r x b bs)
      else if op = 0x8d \<and> w then map_option (\<lambda>(reg, opd, bs). (Lea reg opd, bs)) (modrm r x b bs)
      else if op div 8 = 23 then
        (if w then map_option (\<lambda>(v, bs). (MovImm (b + op mod 8) v, bs)) (imm64 bs)
         else map_option (\<lambda>(v, bs). (MovImm (b + op mod 8) (ucast v), bs)) (imm32 bs))
      else if op = 0xf7 \<and> w then
        (case modrm 0 x b bs of Some (ext, opd, bs) \<Rightarrow> if ext = 6 then Some (Div opd, bs) else None
         | None \<Rightarrow> None)
      else if op = 0xd3 \<and> w then
        (case modrm 0 x b bs of
           Some (ext, Reg k, bs) \<Rightarrow>
             if ext = 4 then Some (Shl k, bs) else if ext = 5 then Some (Shr k, bs) else None
         | _ \<Rightarrow> None)
      else if op = 0xc3 then Some (Return, bs)
      else if op = 0xe8 then map_option (\<lambda>(d, bs). (Call d, bs)) (disp32 bs)
      else if op = 0xe9 then map_option (\<lambda>(d, bs). (Jump d, bs)) (disp32 bs)
      else None)"

fun decode :: "u8 list \<Rightarrow> (insn \<times> u8 list) option" where
  "decode [] = None"
| "decode (c # bs) =
     (if unat c div 16 = 4
      then decode_op (unat c mod 16 \<ge> 8) (8 * (unat c div 4 mod 2)) (8 * (unat c div 2 mod 2))
        (8 * (unat c mod 2)) bs
      else decode_op False 0 0 0 (c # bs))"

section \<open>Execution\<close>

record cpu =
  regs :: "nat \<Rightarrow> u64"
  mem :: "u64 \<Rightarrow> u64"
  rip :: u64
  carry :: bool
  zero :: bool

definition set_reg :: "nat \<Rightarrow> u64 \<Rightarrow> cpu \<Rightarrow> cpu" where
  "set_reg k v s = s\<lparr>regs := (regs s)(k := v)\<rparr>"

definition low32 :: "u64 \<Rightarrow> u64" where
  "low32 v = v AND 0xFFFFFFFF"

text \<open>The address of a memory operand; \<open>rip\<close> is that of the next instruction.\<close>

fun address :: "operand \<Rightarrow> cpu \<Rightarrow> u64" where
  "address (Reg k) s = 0"
| "address (Mem k d) s = regs s k + d"
| "address (Rip d) s = rip s + d"

definition load :: "u64 \<Rightarrow> cpu \<Rightarrow> u64 option" where
  "load a s = (if a AND 7 = 0 then Some (mem s a) else None)"

definition store :: "u64 \<Rightarrow> u64 \<Rightarrow> cpu \<Rightarrow> cpu option" where
  "store a v s = (if a AND 7 = 0 then Some (s\<lparr>mem := (mem s)(a := v)\<rparr>) else None)"

text \<open>Operands. A 32-bit access to memory is outside the fragment; writing a 32-bit register clears
  its upper half.\<close>

fun read :: "bool \<Rightarrow> operand \<Rightarrow> cpu \<Rightarrow> u64 option" where
  "read w (Reg k) s = Some (if w then regs s k else low32 (regs s k))"
| "read w opd s = (if w then load (address opd s) s else None)"

fun put :: "bool \<Rightarrow> operand \<Rightarrow> u64 \<Rightarrow> cpu \<Rightarrow> cpu option" where
  "put w (Reg k) v s = Some (set_reg k (if w then v else low32 v) s)"
| "put w opd v s = (if w then store (address opd s) v s else None)"

fun alu_op :: "alu \<Rightarrow> u64 \<Rightarrow> u64 \<Rightarrow> u64" where
  "alu_op Add a b = a + b"
| "alu_op Or a b = a OR b"
| "alu_op And a b = a AND b"
| "alu_op Sub a b = a - b"
| "alu_op Xor a b = a XOR b"
| "alu_op Cmp a b = a - b"

text \<open>Only \<open>Cmp\<close> is followed by a jump in this fragment: the flags of the others are not kept.\<close>

definition exec_alu :: "bool \<Rightarrow> alu \<Rightarrow> operand \<Rightarrow> u64 \<Rightarrow> cpu \<Rightarrow> cpu option" where
  "exec_alu w f opd b s = Option.bind (read w opd s) (\<lambda>a.
     if f = Cmp then Some (s\<lparr>carry := a < b, zero := a = b\<rparr>) else put w opd (alu_op f a b) s)"

fun holds :: "cond \<Rightarrow> cpu \<Rightarrow> bool" where
  "holds Below s = carry s"
| "holds AboveEqual s = (\<not> carry s)"
| "holds Equal s = zero s"
| "holds NotEqual s = (\<not> zero s)"
| "holds BelowEqual s = (carry s \<or> zero s)"
| "holds Above s = (\<not> carry s \<and> \<not> zero s)"

definition push :: "u64 \<Rightarrow> cpu \<Rightarrow> cpu option" where
  "push v s = store (regs s 4 - 8) v (set_reg 4 (regs s 4 - 8) s)"

definition pop :: "cpu \<Rightarrow> (u64 \<times> cpu) option" where
  "pop s = map_option (\<lambda>v. (v, set_reg 4 (regs s 4 + 8) s)) (load (regs s 4) s)"

text \<open>The dividend of \<open>div\<close> is in \<open>rdx:rax\<close>; only a zero upper half is in the fragment, and the
  divisor must not be 0. The shift count is \<open>cl\<close>, modulo 64.\<close>

fun exec :: "insn \<Rightarrow> cpu \<Rightarrow> cpu option" where
  "exec (Alu w f opd1 opd2) s = Option.bind (read w opd2 s) (\<lambda>b. exec_alu w f opd1 b s)"
| "exec (AluImm w f opd d) s = exec_alu w f opd (if w then d else low32 d) s"
| "exec (Mov w opd1 opd2) s = Option.bind (read w opd2 s) (\<lambda>v. put w opd1 v s)"
| "exec (MovImm k v) s = Some (set_reg k v s)"
| "exec (Lea k opd) s = Some (set_reg k (address opd s) s)"
| "exec (Imul k opd) s = Option.bind (read True opd s) (\<lambda>b. Some (set_reg k (regs s k * b) s))"
| "exec (Div opd) s = Option.bind (read True opd s) (\<lambda>b.
     if b = 0 \<or> regs s 2 \<noteq> 0 then None
     else Some (set_reg 0 (regs s 0 div b) (set_reg 2 (regs s 0 mod b) s)))"
| "exec (Shl k) s = Some (set_reg k (push_bit (unat (regs s 1) mod 64) (regs s k)) s)"
| "exec (Shr k) s = Some (set_reg k (drop_bit (unat (regs s 1) mod 64) (regs s k)) s)"
| "exec (Push k) s = push (regs s k) s"
| "exec (Pop k) s = map_option (\<lambda>(v, s). set_reg k v s) (pop s)"
| "exec (Jump d) s = Some (s\<lparr>rip := rip s + d\<rparr>)"
| "exec (JumpIf c d) s = Some (if holds c s then s\<lparr>rip := rip s + d\<rparr> else s)"
| "exec (Call d) s = map_option (\<lambda>s. s\<lparr>rip := rip s + d\<rparr>) (push (rip s) s)"
| "exec Return s = map_option (\<lambda>(a, s). s\<lparr>rip := a\<rparr>) (pop s)"

text \<open>Executing a sequence of bytes from front to back: each instruction is decoded, \<open>rip\<close> is moved
  behind it, and it is executed. A jump must be the last instruction.\<close>

lemma disp_shrinks:
  "disp8 bs = Some (d, cs) \<Longrightarrow> length cs < length bs"
  "disp32 bs = Some (d, cs) \<Longrightarrow> length cs < length bs"
  "imm32 bs = Some (v, cs) \<Longrightarrow> length cs < length bs"
  "imm64 bs = Some (u, cs) \<Longrightarrow> length cs < length bs"
  by (cases bs; force simp: disp32_def imm32_def imm64_def split: if_splits)+

lemma based_shrinks: "based md base bs = Some (opd, cs) \<Longrightarrow> length cs \<le> length bs"
  by (auto simp: based_def split: if_splits dest!: disp_shrinks)

lemma modrm_shrinks: "modrm r x b bs = Some (reg, opd, cs) \<Longrightarrow> length cs < length bs"
  by (cases bs) (auto simp: Let_def split: if_splits list.splits dest!: disp_shrinks based_shrinks)

lemma decode_0f_shrinks: "decode_0f w r x b bs = Some (i, cs) \<Longrightarrow> length cs < length bs"
  by (cases bs) (auto simp: Let_def split: if_splits option.splits dest!: disp_shrinks modrm_shrinks)

lemma decode_op_shrinks: "decode_op w r x b bs = Some (i, cs) \<Longrightarrow> length cs < length bs"
  by (cases bs)
    (auto simp: Let_def split: if_splits option.splits operand.splits
      dest!: disp_shrinks modrm_shrinks decode_0f_shrinks)

lemma decode_shrinks: "decode bs = Some (i, cs) \<Longrightarrow> length cs < length bs"
  by (cases bs) (auto split: if_splits dest!: decode_op_shrinks simp del: decode_op.simps)

function run :: "u8 list \<Rightarrow> cpu \<Rightarrow> cpu option" where
  "run bs s =
     (if bs = [] then Some s
      else case decode bs of None \<Rightarrow> None
       | Some (i, cs) \<Rightarrow>
           Option.bind (exec i (s\<lparr>rip := rip s + of_nat (length bs - length cs)\<rparr>)) (run cs))"
  by pat_completeness auto
termination
  by (relation "measure (\<lambda>(bs, _). length bs)") (auto dest: decode_shrinks)

declare run.simps [simp del]

end
