(* ===== verification/Tc_Insns.thy ===== *)
theory Tc_Insns
  imports Tc_Emit X86
begin

text \<open>
  The instructions of the back end, as the bytes they write and as what a processor does with
  them: register \<open>z\<close> of the compiler is the register \<open>8 + z\<close> of the processor.
\<close>

section \<open>Decoding in front of other bytes\<close>

lemma disp8_append: "disp8 bs = Some (d, r) \<Longrightarrow> disp8 (bs @ cs) = Some (d, r @ cs)"
  by (cases bs) auto

lemma imm32_append: "imm32 bs = Some (d, r) \<Longrightarrow> imm32 (bs @ cs) = Some (d, r @ cs)"
  by (auto simp: imm32_def split: if_splits)

lemma disp32_append: "disp32 bs = Some (d, r) \<Longrightarrow> disp32 (bs @ cs) = Some (d, r @ cs)"
  by (auto simp: disp32_def imm32_append split: option.splits)

lemma imm64_append: "imm64 bs = Some (d, r) \<Longrightarrow> imm64 (bs @ cs) = Some (d, r @ cs)"
  by (auto simp: imm64_def split: if_splits)

lemma based_append: "based md b bs = Some (d, r) \<Longrightarrow> based md b (bs @ cs) = Some (d, r @ cs)"
  by (auto simp: based_def disp8_append disp32_append split: if_splits)

lemma modrm_append: "modrm rx x b bs = Some (k, d, r) \<Longrightarrow> modrm rx x b (bs @ cs) = Some (k, d, r @ cs)"
  by (cases bs) (auto simp: Let_def disp32_append based_append split: if_splits list.splits)

lemma decode_0f_append:
  "decode_0f w rx x b bs = Some (i, r) \<Longrightarrow> decode_0f w rx x b (bs @ cs) = Some (i, r @ cs)"
  by (cases bs) (auto simp: Let_def disp32_append modrm_append split: if_splits option.splits)

lemma if_Some_mono:
  assumes "(if c then x else y) = Some v" and "x = Some v \<Longrightarrow> x' = Some v'" and "y = Some v \<Longrightarrow> y' = Some v'"
  shows "(if c then x' else y') = Some v'"
  using assms by (cases c) auto

lemma decode_op_append:
  assumes "decode_op w rx x b bs = Some (i, r)"
  shows "decode_op w rx x b (bs @ cs) = Some (i, r @ cs)"
proof (cases bs)
  case (Cons c ds)
  note ext = disp8_append disp32_append imm32_append imm64_append modrm_append decode_0f_append
  show ?thesis
    using assms unfolding Cons append_Cons decode_op.simps Let_def
    apply (elim if_Some_mono)
                      apply (auto simp: ext split: option.splits operand.splits if_splits)
    done
qed (use assms in simp)

lemma decode_append:
  assumes "decode bs = Some (i, r)"
  shows "decode (bs @ cs) = Some (i, r @ cs)"
proof (cases bs)
  case (Cons c ds)
  show ?thesis
    using assms unfolding Cons append_Cons decode.simps
    by (elim if_Some_mono) (simp_all only: decode_op_append append_Cons[symmetric])
qed (use assms in simp)

lemma run_insn:
  assumes "decode bs = Some (i, [])"
  shows "run (bs @ cs) s = Option.bind (exec i (s\<lparr>rip := rip s + of_nat (length bs)\<rparr>)) (run cs)"
proof -
  have "bs \<noteq> []" using assms by auto
  then show ?thesis using decode_append[OF assms, of cs] by (subst run.simps) simp
qed

lemma run_Nil [simp]: "run [] s = Some s"
  by (subst run.simps) simp

lemma run_one:
  assumes "decode bs = Some (i, [])"
  shows "run bs s = exec i (s\<lparr>rip := rip s + of_nat (length bs)\<rparr>)"
  using run_insn[OF assms, of "[]" s] by (cases "exec i (s\<lparr>rip := rip s + of_nat (length bs)\<rparr>)") simp_all

section \<open>Straight-line code\<close>

text \<open>Disassembling all of a byte sequence; the number bounds the instructions.\<close>

fun disassemble :: "nat \<Rightarrow> u8 list \<Rightarrow> insn list option" where
  "disassemble n [] = Some []"
| "disassemble 0 (c # bs) = None"
| "disassemble (Suc n) (c # bs) =
     (case decode (c # bs) of None \<Rightarrow> None | Some (i, cs) \<Rightarrow> map_option ((#) i) (disassemble n cs))"

fun rip_free_operand :: "operand \<Rightarrow> bool" where
  "rip_free_operand (Rip d) = False"
| "rip_free_operand _ = True"

fun rip_free :: "insn \<Rightarrow> bool" where
  "rip_free (Alu w f opd1 opd2) = (rip_free_operand opd1 \<and> rip_free_operand opd2)"
| "rip_free (AluImm w f opd d) = rip_free_operand opd"
| "rip_free (Mov w opd1 opd2) = (rip_free_operand opd1 \<and> rip_free_operand opd2)"
| "rip_free (MovImm k v) = True"
| "rip_free (Lea k opd) = rip_free_operand opd"
| "rip_free (Imul k opd) = rip_free_operand opd"
| "rip_free (Div opd) = rip_free_operand opd"
| "rip_free (Shl k) = True"
| "rip_free (Shr k) = True"
| "rip_free (Push k) = True"
| "rip_free (Pop k) = True"
| "rip_free _ = False"

fun exec_all :: "insn list \<Rightarrow> cpu \<Rightarrow> cpu option" where
  "exec_all [] s = Some s"
| "exec_all (i # is) s = Option.bind (exec i s) (exec_all is)"

abbreviation at_rip :: "u64 \<Rightarrow> cpu \<Rightarrow> cpu" where
  "at_rip a s \<equiv> s\<lparr>rip := a\<rparr>"

lemma load_rip: "load a (at_rip r s) = load a s"
  by (simp add: load_def)

lemma store_rip: "store a v (at_rip r s) = map_option (at_rip r) (store a v s)"
  by (simp add: store_def)

lemma set_reg_rip: "set_reg k v (at_rip r s) = at_rip r (set_reg k v s)"
  by (simp add: set_reg_def)

lemma address_rip: "rip_free_operand opd \<Longrightarrow> address opd (at_rip r s) = address opd s"
  by (cases opd) simp_all

lemma read_rip: "rip_free_operand opd \<Longrightarrow> read w opd (at_rip r s) = read w opd s"
  by (cases opd) (simp_all add: load_rip)

lemma put_rip: "rip_free_operand opd \<Longrightarrow> put w opd v (at_rip r s) = map_option (at_rip r) (put w opd v s)"
  by (cases opd) (simp_all add: store_rip set_reg_rip)

lemma map_option_bind: "map_option f (Option.bind m g) = Option.bind m (\<lambda>x. map_option f (g x))"
  by (cases m) auto

lemma exec_alu_rip:
  "rip_free_operand opd \<Longrightarrow> exec_alu w f opd b (at_rip r s) = map_option (at_rip r) (exec_alu w f opd b s)"
  by (auto simp: exec_alu_def read_rip put_rip map_option_bind intro!: bind_option_cong)

lemma exec_rip: "rip_free i \<Longrightarrow> exec i (at_rip r s) = map_option (at_rip r) (exec i s)"
  by (cases i)
    (auto simp: read_rip put_rip set_reg_rip address_rip exec_alu_rip map_option_bind push_def pop_def
      store_rip load_rip option.map_comp comp_def split: option.split intro!: bind_option_cong option.map_cong)

lemma exec_all_rip:
  "list_all rip_free is \<Longrightarrow> exec_all is (at_rip r s) = map_option (at_rip r) (exec_all is s)"
proof (induction "is" arbitrary: s)
  case (Cons i "is")
  then show ?case by (cases "exec i s") (simp_all add: exec_rip)
qed simp

lemma decode_length: "decode bs = Some (i, cs) \<Longrightarrow> length cs \<le> length bs"
  using decode_shrinks[of bs i cs] by simp

lemma run_disassemble:
  "disassemble n bs = Some is \<Longrightarrow> list_all rip_free is \<Longrightarrow>
   run bs s = map_option (at_rip (rip s + of_nat (length bs))) (exec_all is s)"
proof (induction n bs arbitrary: "is" s rule: disassemble.induct)
  case (3 n c bs)
  obtain i cs where d: "decode (c # bs) = Some (i, cs)" and i: "disassemble n cs = Some (tl is)" "is = i # tl is"
    using "3.prems"(1) by (auto split: option.splits)
  define l where "l = (of_nat (length (c # bs) - length cs) :: u64)"
  have len: "(of_nat (length (c # bs)) :: u64) = l + of_nat (length cs)"
    using decode_length[OF d] unfolding l_def by (simp flip: of_nat_add)
  have free: "rip_free i" "list_all rip_free (tl is)"
    using "3.prems"(2) i(2) by (metis list.pred_inject(2))+
  have keep: "rip s' = rip s + l" if "exec i (at_rip (rip s + l) s) = Some s'" for s'
    using that exec_rip[OF free(1), of "rip s + l" s] by auto
  have behind: "rip z + of_nat (length cs) = rip s + of_nat (length (c # bs))"
    if "exec i (at_rip (rip s + l) s) = Some z" for z
    by (simp only: keep[OF that] len add.assoc)
  have "run (c # bs) s = Option.bind (exec i (at_rip (rip s + l) s)) (run cs)"
    using d by (subst run.simps) (simp add: l_def)
  also have "\<dots> = Option.bind (exec i (at_rip (rip s + l) s))
      (\<lambda>s'. map_option (at_rip (rip s + of_nat (length (c # bs)))) (exec_all (tl is) s'))"
    by (rule bind_option_cong[OF refl]) (simp only: "3.IH"[OF d refl i(1) free(2)] behind elem_set)
  also have "\<dots> = map_option (at_rip (rip s + of_nat (length (c # bs)))) (exec_all is s)"
    by (subst i(2)) (cases "exec i s"; simp add: exec_rip[OF free(1)] exec_all_rip[OF free(2)] option.map_comp comp_def)
  finally show ?case .
qed (simp_all add: exec_rip)

end
