(* ===== verification/Tc_Binary.thy ===== *)
theory Tc_Binary
  imports Tc_Insns
begin

text \<open>
  The instructions on registers: binary operators and constants. Each is the bytes it writes,
  the instructions they decode to, and the effect of those.
\<close>

section \<open>Registers\<close>

definition small :: "u64 list" where "small = [0, 1, 2, 3, 4, 5, 6, 7]"

lemma small_cases: "(z :: u64) < 8 \<Longrightarrow> z \<in> set small"
proof -
  assume "z < 8"
  then have "unat z < 8" by (simp add: less_u64)
  then have "unat z \<in> {0, 1, 2, 3, 4, 5, 6, 7}" by auto
  then show ?thesis by (simp add: small_def eq_u64)
qed

text \<open>Facts about all pairs of registers are evaluated; this carries them to any two registers.\<close>

lemma for_registers: "list_all P small \<Longrightarrow> z < 8 \<Longrightarrow> P z"
  using small_cases by (auto simp: list_all_iff)

lemma for_register_pairs: "list_all (\<lambda>z. list_all (P z) small) small \<Longrightarrow> z < 8 \<Longrightarrow> y < 8 \<Longrightarrow> P z y"
  using small_cases by (auto simp: list_all_iff)

definition binary_bytes :: "u64 \<Rightarrow> u64 \<Rightarrow> u64 \<Rightarrow> u8 list" where
  "binary_bytes token z y =
     (if token = TC_ADD then le_bytes 2 (0x034d :: u64) @ [ucast (0xc0 OR push_bit 3 z OR y)]
      else if token = TC_SUB then le_bytes 2 (0x2b4d :: u64) @ [ucast (0xc0 OR push_bit 3 z OR y)]
      else if token = TC_MUL then le_bytes 4 (0xc0af0f4d OR push_bit 27 z OR push_bit 24 y)
      else if token = TC_DIV
      then le_bytes 2 (0xd231 :: u64) @ (le_bytes 2 (0x894c :: u64) @ [ucast (0xc0 OR push_bit 3 z)]) @
        (le_bytes 2 (0xf749 :: u64) @ [ucast (0xf0 OR y)]) @ le_bytes 2 (0x8949 :: u64) @ [ucast (0xc0 OR z)]
      else if token = TC_BIT_AND then le_bytes 2 (0x234d :: u64) @ [ucast (0xc0 OR push_bit 3 z OR y)]
      else if token = TC_BIT_OR then le_bytes 2 (0x0b4d :: u64) @ [ucast (0xc0 OR push_bit 3 z OR y)]
      else (le_bytes 2 (0x8944 :: u64) @ [ucast (0xc1 OR push_bit 3 y)]) @ le_bytes 2 (0xd349 :: u64) @
        [ucast ((if token = TC_SHIFT_LEFT then 0xe0 else 0xe8) OR z)])"

lemma write_binary:
  assumes "code_ok self"
  shows "tc_write_binary_insn self token =
    seq (written self (binary_bytes token (next_register self - 1 - 1) (next_register self - 1)))
      (\<lambda>s. Ret (s\<lparr>next_register := next_register self - 1\<rparr>))"
proof -
  have two: "seq (tc_write24 self a b) (\<lambda>self. tc_write24 self c d) =
      written self ((le_bytes 2 a @ [ucast b]) @ le_bytes 2 c @ [ucast d])" for a b c d
    by (simp only: tc_write24 assms) (rule written_written[OF assms]; simp only: tc_write24)
  have four: "seq (tc_write16 self o') (\<lambda>self. seq (tc_write24 self a b) (\<lambda>self. 
      seq (tc_write24 self c d) (\<lambda>self. tc_write24 self e f))) =
      written self (le_bytes 2 o' @ (le_bytes 2 a @ [ucast b]) @ (le_bytes 2 c @ [ucast d]) @ le_bytes 2 e @ [ucast f])"
    for o' a b c d e f
    apply (simp only: tc_write16 assms)
    apply (rule written_written[OF assms], simp only: tc_write24)
    apply (rule written_written, assumption, simp only: tc_write24)
    apply (rule written_written, assumption, simp only: tc_write24)
    done
  show ?thesis
    unfolding tc_write_binary_insn_def Let_def binary_bytes_def
    by (simp only: two four) (simp add: tc_write24[OF assms] tc_write32[OF assms])
qed

definition alu_insn :: "u64 \<Rightarrow> nat \<Rightarrow> nat \<Rightarrow> insn list" where
  "alu_insn token z y =
     (if token = TC_ADD then [Alu True Add (Reg z) (Reg y)]
      else if token = TC_SUB then [Alu True Sub (Reg z) (Reg y)]
      else if token = TC_MUL then [Imul z (Reg y)]
      else if token = TC_DIV
      then [Alu False Xor (Reg 2) (Reg 2), Mov True (Reg 0) (Reg z), Div (Reg y), Mov True (Reg z) (Reg 0)]
      else if token = TC_BIT_AND then [Alu True And (Reg z) (Reg y)]
      else if token = TC_BIT_OR then [Alu True Or (Reg z) (Reg y)]
      else [Mov False (Reg 1) (Reg y), if token = TC_SHIFT_LEFT then Shl z else Shr z])"

definition binary_tokens :: "u64 list" where
  "binary_tokens = [TC_ADD, TC_SUB, TC_MUL, TC_DIV, TC_BIT_AND, TC_BIT_OR, TC_SHIFT_LEFT, TC_SHIFT_RIGHT]"

lemma binary_decodes: "list_all (\<lambda>token. list_all (\<lambda>y.
    disassemble 4 (binary_bytes token (y - 1) y) = Some (alu_insn token (7 + unat y) (8 + unat y))) (tl small))
  binary_tokens"
  by code_simp

lemma alu_insn_rip_free: "list_all rip_free (alu_insn token z y)"
  by (simp add: alu_insn_def)

text \<open>What an operator of the language computes, on unsigned 64-bit integers.\<close>

definition binary_op :: "u64 \<Rightarrow> u64 \<Rightarrow> u64 \<Rightarrow> u64" where
  "binary_op token a b =
     (if token = TC_ADD then a + b
      else if token = TC_SUB then a - b
      else if token = TC_MUL then a * b
      else if token = TC_DIV then a div b
      else if token = TC_BIT_AND then a AND b
      else if token = TC_BIT_OR then a OR b
      else if token = TC_SHIFT_LEFT then push_bit (unat b mod 64) a
      else drop_bit (unat b mod 64) a)"

lemma low32_mod_64: "unat (low32 b) mod 64 = unat b mod 64"
proof -
  have "low32 b = take_bit 32 b" by (simp add: low32_def take_bit_eq_mask mask_eq_exp_minus_1)
  then have "unat (low32 b) = take_bit 32 (unat b)" by (simp only: unsigned_take_bit_eq)
  then have "unat (low32 b) = unat b mod 2 ^ 32" by (simp only: take_bit_eq_mod)
  then show ?thesis by (simp add: mod_mod_cancel)
qed

lemma exec_alu_insn:
  assumes "8 \<le> z" and "8 \<le> y" and "z \<noteq> y" and "token = TC_DIV \<Longrightarrow> regs s y \<noteq> 0"
  shows "\<exists>s'. exec_all (alu_insn token z y) s = Some s' \<and> regs s' z = binary_op token (regs s z) (regs s y) \<and>
    (\<forall>k. 3 \<le> k \<and> k \<noteq> z \<longrightarrow> regs s' k = regs s k) \<and> mem s' = mem s"
proof (cases "token = TC_DIV")
  case True
  have "low32 0 = 0" by (simp add: low32_def)
  then show ?thesis using assms True
    by (auto simp: alu_insn_def binary_op_def tokens exec_alu_def set_reg_def)
next
  case False
  then show ?thesis using assms
    by (auto simp: alu_insn_def binary_op_def tokens exec_alu_def set_reg_def low32_mod_64)
qed

end
