(* ===== verification/Tc_Moves.thy ===== *)
theory Tc_Moves
  imports Tc_Binary
begin

text \<open>
  The instructions with immediate values and displacements: constants, addresses, variables in the
  stack frame, fields behind a pointer, and the adjustment of a register by a multiple of 8.
\<close>

section \<open>Immediate values\<close>

lemma high_bits_clear:
  assumes "unat (d :: u64) < 2 ^ k" and "k \<le> n"
  shows "\<not> bit d n"
proof -
  have "(2 :: nat) ^ k \<le> 2 ^ n" using assms(2) by simp
  then have "unat d < 2 ^ n" using assms(1) by linarith
  then have "unat d div 2 ^ n = 0" by (rule div_less)
  then have "\<not> bit (unat d) n" by (simp add: bit_iff_odd)
  then show ?thesis by (cases "n < 64") (auto simp: bit_unsigned_iff dest: bit_imp_le_length)
qed

lemma scast_u8_small: "d < 128 \<Longrightarrow> scast (ucast (d :: u64) :: u8) = d"
proof -
  assume "d < 128"
  then have "\<not> bit d n" if "7 \<le> n" for n using high_bits_clear[of d 7 n] that by (simp add: less_u64)
  then show ?thesis
    by (intro bit_word_eqI) (auto simp: bit_simps min_def not_le not_less)
qed

definition fits32 :: "u64 \<Rightarrow> bool" where
  "fits32 d \<longleftrightarrow> scast (ucast d :: u32) = d"

lemma fits32_small: "d < 0x80000000 \<Longrightarrow> fits32 d"
proof -
  assume "d < 0x80000000"
  then have "\<not> bit d n" if "31 \<le> n" for n using high_bits_clear[of d 31 n] that by (simp add: less_u64)
  then show ?thesis unfolding fits32_def
    by (intro bit_word_eqI) (auto simp: bit_simps min_def not_le not_less)
qed

lemma le_word_le_bytes_4: "(le_word (le_bytes 4 (v :: u64)) :: u32) = ucast v"
proof -
  have "le_bytes 4 v = le_bytes 4 (ucast v :: u32)"
    by (rule nth_equalityI) (auto simp: le_bytes_def bit_simps intro!: bit_word_eqI)
  then show ?thesis using le_word_le_bytes[of 4 "ucast v :: u32"] by simp
qed

lemma imm32_bytes [simp]: "imm32 (le_bytes 4 (v :: u64) @ bs) = Some (ucast v, bs)"
  by (simp add: imm32_def le_word_le_bytes_4)

lemma imm64_bytes [simp]: "imm64 (le_bytes 8 v @ bs) = Some (v, bs)"
  using le_word_le_bytes[of 8 v] by (simp add: imm64_def)

lemma disp32_bytes: "fits32 d \<Longrightarrow> disp32 (le_bytes 4 d @ bs) = Some (d, bs)"
  by (simp add: disp32_def fits32_def)

lemma ucast_u32_small: "v \<le> 0xFFFFFFFF \<Longrightarrow> ucast (ucast (v :: u64) :: u32) = v"
proof -
  assume "v \<le> 0xFFFFFFFF"
  then have "unat v < 2 ^ 32" by (simp add: le_u64)
  then have "\<not> bit v n" if "32 \<le> n" for n using high_bits_clear[of v 32 n] that by simp
  then have "bit v n \<Longrightarrow> n < 32" for n by (meson not_le)
  then show ?thesis by (intro bit_word_eqI) (auto simp: bit_simps)
qed

section \<open>Constants\<close>

definition cst_bytes :: "u64 \<Rightarrow> u64 \<Rightarrow> u8 list" where
  "cst_bytes z v =
     (if v = 0 then le_bytes 2 (0x314d :: u64) @ [ucast (0xc0 OR push_bit 3 z OR z)]
      else if v \<le> 0xFFFFFFFF then le_bytes 2 (0xB841 OR push_bit 8 z) @ le_bytes 4 v
      else le_bytes 2 (0xB849 OR push_bit 8 z) @ le_bytes 8 v)"

lemma write_cst:
  assumes "code_ok self" and "next_register self < 8"
  shows "tc_write_cst_insn self v =
    seq (written self (cst_bytes (next_register self) v))
      (\<lambda>s. Ret (s\<lparr>next_register := next_register self + 1\<rparr>))"
proof -
  let ?s = "self\<lparr>next_register := next_register self + 1\<rparr>"
  have ok: "code_ok ?s" using assms(1) by simp
  have r: "tc_new_register self = Ret (next_register self, ?s)"
    using assms(2) by (simp add: tc_new_register_def MAX_REGISTERS_def Let_def not_le)
  have b: "seq (tc_write16 ?s a) (\<lambda>self. tc_write32 self v) = written ?s (le_bytes 2 a @ le_bytes 4 v)" for a
    by (simp only: tc_write16[OF ok]) (rule written_written[OF ok]; simp only: tc_write32)
  have c: "seq (tc_write16 ?s a) (\<lambda>self. seq (code_allocate self 8) (\<lambda>(p, self). store64 self p v)) =
      written ?s (le_bytes 2 a @ le_bytes 8 v)" for a
    by (simp only: tc_write16[OF ok]) (rule written_written[OF ok]; simp only: tc_write64)
  have "tc_write_cst_insn self v = written ?s (cst_bytes (next_register self) v)"
    by (simp add: tc_write_cst_insn_def r b c tc_write24[OF ok] cst_bytes_def)
  then show ?thesis by (simp only: written_fields)
qed

lemma xor_decodes: "list_all (\<lambda>z. disassemble 1 (le_bytes 2 (0x314d :: u64) @ [ucast (0xc0 OR push_bit 3 z OR z)]) =
    Some [Alu True Xor (Reg (8 + unat z)) (Reg (8 + unat z))]) small"
  by code_simp

lemma mov_prefixes: "list_all (\<lambda>z. le_bytes 2 (0xB841 OR push_bit 8 z) = [0x41, 0xb8 + ucast z] \<and>
    le_bytes 2 (0xB849 OR push_bit 8 z) = [0x49, 0xb8 + ucast z] \<and> unat (0xb8 + ucast z :: u8) = 184 + unat z) small"
  by code_simp

lemma cst_disassemble:
  assumes "z < 8"
  shows "\<exists>is. disassemble 1 (cst_bytes z v) = Some is \<and> list_all rip_free is \<and>
    exec_all is s = Some (set_reg (8 + unat z) v s)"
proof -
  note p = for_registers[OF mov_prefixes assms] and x = for_registers[OF xor_decodes assms]
  have u: "unat z < 8" using assms by (simp add: less_u64)
  then have d: "(184 + unat z) mod 8 = unat z" "(184 + unat z) div 8 = 23" "184 + unat z \<noteq> 195"
    by presburger+
  consider "v = 0" | "v \<noteq> 0" "v \<le> 0xFFFFFFFF" | "\<not> v \<le> 0xFFFFFFFF" by blast
  then show ?thesis
  proof cases
    case 1
    then show ?thesis using x by (simp add: cst_bytes_def exec_alu_def set_reg_def)
  next
    case 2
    have m: "imm32 (le_bytes 4 v) = Some (ucast v, [])" using imm32_bytes[of v "[]"] by simp
    show ?thesis using 2 p d by (simp add: cst_bytes_def m ucast_u32_small Let_def)
  next
    case 3
    have m: "imm64 (le_bytes 8 v) = Some (v, [])" using imm64_bytes[of v "[]"] by simp
    show ?thesis using 3 p d by (auto simp: cst_bytes_def m Let_def)
  qed
qed


section \<open>Memory operands\<close>

text \<open>The mode bits and the displacement for a slot of 8 bytes each.\<close>

definition mode :: "u64 \<Rightarrow> nat" where
  "mode slot = (if slot \<ge> 16 then 2 else if slot \<noteq> 0 then 1 else 0)"

definition disp_bytes :: "u64 \<Rightarrow> u8 list" where
  "disp_bytes slot = (if slot \<ge> 16 then le_bytes 4 (slot * 8) else if slot \<noteq> 0 then [ucast (slot * 8)] else [])"

definition mem_bytes :: "u64 \<Rightarrow> u64 \<Rightarrow> u64 \<Rightarrow> u64 \<Rightarrow> u8 list" where
  "mem_bytes insn mr sib slot =
     le_bytes 2 insn @ [ucast (mr + of_nat (64 * mode slot))] @ (if sib \<noteq> 0 then [ucast sib] else []) @
     disp_bytes slot"

lemma write_mem:
  assumes "code_ok self"
  shows "tc_write_mem_insn self insn mr sib slot = written self (mem_bytes insn mr sib slot)"
proof -
  define m where "m = mr + of_nat (64 * mode slot)"
  have m: "(let mr = (if slot \<noteq> 0 then mr + 0x40 else mr);
         mr = (if slot \<ge> 16 then mr + 0x40 else mr) in f mr) = f m" for f :: "u64 \<Rightarrow> compiler res"
  proof (cases "slot = 0")
    case True
    moreover have "\<not> (16 :: u64) \<le> 0" unfolding le_u64 by simp
    ultimately show ?thesis by (simp only: m_def mode_def) (simp add: Let_def)
  qed (simp add: m_def mode_def add.commute)
  have disp: "(if slot \<ge> 16 then tc_write32 s (slot * 8) else if slot \<noteq> 0 then tc_write8 s (slot * 8) else Ret s) =
      written s (disp_bytes slot)" if "code_ok s" for s
    using that by (simp add: disp_bytes_def tc_write32 tc_write8 written_Nil)
  have sib: "(if sib \<noteq> 0 then tc_write8 s sib else Ret s) = written s (if sib \<noteq> 0 then [ucast sib] else [])"
    if "code_ok s" for s
    using that by (simp add: tc_write8 written_Nil)
  show ?thesis
    unfolding tc_write_mem_insn_def m mem_bytes_def m_def[symmetric]
    apply (simp only: tc_write16[OF assms])
    apply (rule written_written[OF assms], simp only: tc_write8)
    apply (rule written_written, assumption, simp only: sib)
    apply (rule written_written, assumption, simp only: disp)
    done
qed

lemma slot_small: "slot < 0x10000000 \<Longrightarrow> fits32 (slot * 8)"
  by (rule fits32_small) (simp add: less_u64 unat_mult_u64)

lemma based_disp:
  assumes "slot < 0x10000000"
  shows "based (mode slot) base (disp_bytes slot) = Some (Mem base (slot * 8), [])"
proof -
  have "slot \<noteq> 0 \<Longrightarrow> \<not> slot \<ge> 16 \<Longrightarrow> scast (ucast (slot * 8) :: u8) = slot * 8"
    by (rule scast_u8_small) (simp add: less_u64 le_u64 unat_mult_u64)
  then show ?thesis using disp32_bytes[OF slot_small[OF assms], of "[]"]
    by (auto simp: based_def mode_def disp_bytes_def)
qed

text \<open>The instruction in front of the displacement, for all registers and modes.\<close>

definition with_mem :: "(operand \<Rightarrow> insn) \<Rightarrow> nat \<Rightarrow> nat \<Rightarrow> u8 list \<Rightarrow> (insn \<times> u8 list) option" where
  "with_mem f md base bs = map_option (\<lambda>x. (f (fst x), snd x)) (based md base bs)"

lemmas prefix_simps = small_def le_bytes_def upt_rec with_mem_def Let_def option.map_comp comp_def split_beta

lemma load_prefix: "list_all (\<lambda>z. list_all (\<lambda>md. z = 5 \<and> md = 0 \<or>
    decode (le_bytes 2 (0x8b4d :: u64) @ [ucast ((push_bit 3 z OR z) + of_nat (64 * md))] @
        (if (if z = 4 then 0x24 else 0) \<noteq> (0 :: u64) then [ucast (if z = 4 then 0x24 else 0 :: u64)] else []) @ bs) =
      with_mem (Mov True (Reg (8 + unat z))) md (8 + unat z) bs) [0, 1, 2]) small"
  by (simp add: prefix_simps)

lemma get_prefix: "list_all (\<lambda>z. list_all (\<lambda>md.
    decode (le_bytes 2 (0x8b4c :: u64) @ [ucast ((0x04 OR push_bit 3 z) + of_nat (64 * md))] @
        (if 0x24 \<noteq> (0 :: u64) then [ucast (0x24 :: u64)] else []) @ bs) =
      with_mem (Mov True (Reg (8 + unat z))) md 4 bs) [0, 1, 2]) small"
  by (simp add: prefix_simps)

lemma ptr_prefix: "list_all (\<lambda>z. list_all (\<lambda>md.
    decode (le_bytes 2 (0x8d4c :: u64) @ [ucast ((0x04 OR push_bit 3 z) + of_nat (64 * md))] @
        (if 0x24 \<noteq> (0 :: u64) then [ucast (0x24 :: u64)] else []) @ bs) =
      with_mem (Lea (8 + unat z)) md 4 bs) [0, 1, 2]) small"
  by (simp add: prefix_simps)

lemma store_prefix: "list_all (\<lambda>md.
    decode (le_bytes 2 (0x894d :: u64) @ [ucast (8 + of_nat (64 * md) :: u64)] @
        (if 0 \<noteq> (0 :: u64) then [ucast (0 :: u64)] else []) @ bs) =
      with_mem (\<lambda>opd. Mov True opd (Reg 9)) md 8 bs) [0, 1, 2]"
  by (simp add: prefix_simps)

lemma set_prefix: "list_all (\<lambda>md.
    decode (le_bytes 2 (0x894c :: u64) @ [ucast (4 + of_nat (64 * md) :: u64)] @
        (if 0x24 \<noteq> (0 :: u64) then [ucast (0x24 :: u64)] else []) @ bs) =
      with_mem (\<lambda>opd. Mov True opd (Reg 8)) md 4 bs) [0, 1, 2]"
  by (simp add: prefix_simps)

lemma mode_cases: "mode slot \<in> set [0, 1, 2]"
  by (simp add: mode_def)

lemma for_modes: "list_all P [0, 1, 2] \<Longrightarrow> P (mode slot)"
  using mode_cases[of slot] unfolding list_all_iff by blast

text \<open>The five memory instructions of the back end.\<close>

lemma load_decodes:
  assumes "z < 8" and "slot < 0x10000000" and "\<not> (z = 5 \<and> slot = 0)"
  shows "decode (mem_bytes 0x8b4d (push_bit 3 z OR z) (if z = 4 then 0x24 else 0) slot) =
    Some (Mov True (Reg (8 + unat z)) (Mem (8 + unat z) (slot * 8)), [])"
proof -
  have "z \<noteq> 5 \<or> mode slot \<noteq> 0" using assms(3) by (auto simp: mode_def split: if_splits)
  then show ?thesis
    using for_modes[OF for_registers[OF load_prefix assms(1)], of slot "disp_bytes slot"] based_disp[OF assms(2)]
    by (simp only: mem_bytes_def append_assoc) (auto simp: with_mem_def)
qed

lemma get_decodes:
  assumes "z < 8" and "slot < 0x10000000"
  shows "decode (mem_bytes 0x8b4c (0x04 OR push_bit 3 z) 0x24 slot) =
    Some (Mov True (Reg (8 + unat z)) (Mem 4 (slot * 8)), [])"
  using for_modes[OF for_registers[OF get_prefix assms(1)], of slot "disp_bytes slot"] based_disp[OF assms(2)]
  by (simp only: mem_bytes_def append_assoc) (simp add: with_mem_def)

lemma ptr_decodes:
  assumes "z < 8" and "slot < 0x10000000"
  shows "decode (mem_bytes 0x8d4c (0x04 OR push_bit 3 z) 0x24 slot) =
    Some (Lea (8 + unat z) (Mem 4 (slot * 8)), [])"
  using for_modes[OF for_registers[OF ptr_prefix assms(1)], of slot "disp_bytes slot"] based_disp[OF assms(2)]
  by (simp only: mem_bytes_def append_assoc) (simp add: with_mem_def)

lemma store_decodes:
  assumes "slot < 0x10000000"
  shows "decode (mem_bytes 0x894d 8 0 slot) = Some (Mov True (Mem 8 (slot * 8)) (Reg 9), [])"
  using for_modes[OF store_prefix, of slot "disp_bytes slot"] based_disp[OF assms]
  by (simp only: mem_bytes_def append_assoc) (simp add: with_mem_def)

lemma set_decodes:
  assumes "slot < 0x10000000"
  shows "decode (mem_bytes 0x894c 4 0x24 slot) = Some (Mov True (Mem 4 (slot * 8)) (Reg 8), [])"
  using for_modes[OF set_prefix, of slot "disp_bytes slot"] based_disp[OF assms]
  by (simp only: mem_bytes_def append_assoc) (simp add: with_mem_def)

end
