(* ===== verification/Tc_Jumps.thy ===== *)
theory Tc_Jumps
  imports Tc_Moves
begin

text \<open>
  Jumps and their placeholders. A forward jump is written with a placeholder, the distance to the
  previous placeholder of the same target; the placeholders of a target form a chain in the code,
  which is replaced by the relative addresses once the target is known.
\<close>

section \<open>The chain of placeholders\<close>

text \<open>The offsets of the placeholders of a chain, the last one written first.\<close>

fun holes :: "u8 list \<Rightarrow> nat list \<Rightarrow> bool" where
  "holes bs [] = True"
| "holes bs [p] = (p + 4 \<le> length bs \<and> window bs p 4 = le_bytes 4 (0 :: u64))"
| "holes bs (p # q # ps) =
     (q + 4 \<le> p \<and> p - q < 0x100000000 \<and> p + 4 \<le> length bs \<and>
      window bs p 4 = le_bytes 4 (of_nat (p - q) :: u64) \<and> holes bs (q # ps))"

definition chain :: "compiler \<Rightarrow> nat list \<Rightarrow> u64" where
  "chain self ps = (case ps of [] \<Rightarrow> 0 | p # _ \<Rightarrow> code_base self + of_nat p)"

text \<open>Filling every hole with the distance from its end to the target.\<close>

fun filled :: "u64 \<Rightarrow> u64 \<Rightarrow> nat list \<Rightarrow> u8 list \<Rightarrow> u8 list" where
  "filled base v [] bs = bs"
| "filled base v (p # ps) bs = filled base v ps (blit bs p (le_bytes 4 (v - (base + of_nat p + 4))))"

lemma length_filled [simp]: "\<forall>p \<in> set ps. p + 4 \<le> length bs \<Longrightarrow> length (filled base v ps bs) = length bs"
  by (induction ps arbitrary: bs) (auto simp: length_blit)

lemma holes_Cons:
  assumes "holes bs (p # ps)"
  shows "p + 4 \<le> length bs" and "holes bs ps" and "\<forall>q \<in> set ps. q + 4 \<le> p"
proof -
  show "p + 4 \<le> length bs" and "holes bs ps"
    using assms by (cases ps; simp)+
  show "\<forall>q \<in> set ps. q + 4 \<le> p"
    using assms
  proof (induction ps arbitrary: p)
    case (Cons q ps)
    then show ?case using Cons.IH[of q] by fastforce
  qed simp
qed

lemma holes_inside: "holes bs ps \<Longrightarrow> \<forall>p \<in> set ps. p + 4 \<le> length bs"
  by (induction ps) (auto dest: holes_Cons(1,2))

lemma holes_cong:
  "holes bs ps \<Longrightarrow> length cs = length bs \<Longrightarrow> \<forall>p \<in> set ps. window cs p 4 = window bs p 4 \<Longrightarrow> holes cs ps"
  by (induction bs ps rule: holes.induct) auto

lemma holes_blit:
  assumes "holes bs ps" and "p + length ys \<le> length bs" and "\<forall>q \<in> set ps. q + 4 \<le> p"
  shows "holes (blit bs p ys) ps"
  using assms(1)
  by (rule holes_cong) (use assms in \<open>auto simp: byte_lists holes_inside\<close>)

lemma filled_elsewhere:
  "\<forall>p \<in> set ps. p + 4 \<le> length bs \<and> (j + n \<le> p \<or> p + 4 \<le> j) \<Longrightarrow> j + n \<le> length bs \<Longrightarrow>
   window (filled base v ps bs) j n = window bs j n"
  by (induction ps arbitrary: bs) (simp_all add: byte_lists)

lemma filled_hole:
  "holes bs ps \<Longrightarrow> p \<in> set ps \<Longrightarrow>
   window (filled base v ps bs) p 4 = le_bytes 4 (v - (base + of_nat p + 4))"
proof (induction ps arbitrary: bs)
  case (Cons q ps)
  note h = holes_Cons[OF Cons.prems(1)]
  let ?bs = "blit bs q (le_bytes 4 (v - (base + of_nat q + 4)))"
  show ?case
  proof (cases "p \<in> set ps")
    case True
    have "holes ?bs ps" by (rule holes_blit) (use h in auto)
    then show ?thesis using Cons.IH True by simp
  next
    case False
    then have "p = q" using Cons.prems(2) by simp
    moreover have "window (filled base v ps ?bs) q 4 = window ?bs q 4"
      by (rule filled_elsewhere) (use h in \<open>auto simp: length_blit\<close>)
    ultimately show ?thesis using h(1) by (simp add: window_blit_same)
  qed
qed simp


section \<open>Loads and stores at an offset\<close>

lemma code_ok_moved:
  assumes "code_ok self" and "i \<le> length (code self)"
  shows "code_ok (self\<lparr>dst := code_base self + of_nat i\<rparr>)" and
    "pos (self\<lparr>dst := code_base self + of_nat i\<rparr>) = i"
proof -
  have len: "unat (code_base self) + length (code self) < 18446744073709551616"
    using assms(1) by (simp add: code_ok_def)
  have i: "unat (of_nat i :: u64) = i" using assms(2) len by (intro unat_of_nat_u64) simp
  then have u: "unat (code_base self + of_nat i) = unat (code_base self) + i"
    using assms(2) len by (simp add: unat_add_u64)
  show "code_ok (self\<lparr>dst := code_base self + of_nat i\<rparr>)"
    using assms code_ok_bounds(3)[OF assms(1)] u by (simp add: code_ok_def le_u64)
  show "pos (self\<lparr>dst := code_base self + of_nat i\<rparr>) = i"
    using i by (simp add: pos_def)
qed

lemma offset_index:
  assumes "code_ok self" and "i + k < length (code self)"
  shows "code_base self \<le> code_base self + of_nat i + of_nat k"
    and "unat (code_base self + of_nat i + of_nat k - code_base self) = i + k"
  using code_ok_index[of "self\<lparr>dst := code_base self + of_nat i\<rparr>" k] code_ok_moved[OF assms(1), of i] assms(2)
  by simp_all

lemma offset_nonzero: "code_ok self \<Longrightarrow> i < length (code self) \<Longrightarrow> code_base self + of_nat i \<noteq> 0"
proof
  assume a: "code_ok self" "i < length (code self)" "code_base self + of_nat i = 0"
  then have "code_base self \<le> 0" using offset_index(1)[of self i 0] by simp
  then show False using a(1) by (simp add: code_ok_def)
qed

lemma store8_offset:
  assumes "code_ok self" and "i + k < length (code self)"
    and "code_base s = code_base self" and "length (code s) = length (code self)"
  shows "store8 s (code_base self + of_nat i + of_nat k) v = Ret (s\<lparr>code := (code s)[i + k := ucast v]\<rparr>)"
  using offset_index[OF assms(1,2)] assms by (simp add: store8_def)

lemma store32_offset:
  assumes "code_ok self" and "i + 4 \<le> length (code self)"
  shows "store32 self (code_base self + of_nat i) v = Ret (self\<lparr>code := blit (code self) i (le_bytes 4 v)\<rparr>)"
proof -
  let ?p = "code_base self + of_nat i"
  have st: "store8 (self\<lparr>code := blit (code self) i (le_bytes k v)\<rparr>) (?p + of_nat k) (drop_bit (8 * k) v) =
      Ret (self\<lparr>code := blit (code self) i (le_bytes (Suc k) v)\<rparr>)" if "k < 4" for k
  proof -
    have "store8 (self\<lparr>code := blit (code self) i (le_bytes k v)\<rparr>) (?p + of_nat k) (drop_bit (8 * k) v) =
        Ret (self\<lparr>code := (blit (code self) i (le_bytes k v))[i + k := ucast (drop_bit (8 * k) v)]\<rparr>)"
      using store8_offset[OF assms(1), of i k "self\<lparr>code := blit (code self) i (le_bytes k v)\<rparr>"] assms(2) that
      by (simp add: length_blit)
    then show ?thesis using blit_snoc[of i "le_bytes k v"] assms(2) that by (simp add: le_bytes_Suc)
  qed
  have "self\<lparr>code := blit (code self) i []\<rparr> = self" using assms(2) by (simp add: blit_def)
  then show ?thesis
    using st[of 0] st[of 1] st[of 2] st[of 3]
    by (simp add: store32_def) (simp add: le_bytes_def numeral_eq_Suc)
qed

lemma plus_eq_or: "(push_bit k a :: u64) + ucast (b :: u8) = push_bit k a OR ucast b" if "8 \<le> k"
  by (rule disjunctive_add) (use that in \<open>auto simp: bit_simps dest: bit_imp_le_length\<close>)

lemma load32_le_word:
  assumes "i + 4 \<le> length bs"
  shows "load32 bs i = Ret (le_word (window bs i 4))"
proof -
  have w: "window bs i 4 = [bs ! i, bs ! (i + 1), bs ! (i + 2), bs ! (i + 3)]"
    using assms by (simp add: window_Cons numeral_eq_Suc)
  have e: "(push_bit 16 (push_bit 8 (ucast d) + ucast c) :: u64) + (push_bit 8 (ucast b) + ucast a) =
      le_word [a, b, c, d]" for a b c d :: u8
  proof -
    have "(push_bit 16 (push_bit 8 (ucast d) + ucast c) :: u64) + (push_bit 8 (ucast b) + ucast a) =
        push_bit 16 (push_bit 8 (ucast d) OR ucast c) OR (push_bit 8 (ucast b) OR ucast a)"
      unfolding plus_eq_or[OF order.refl]
      by (rule disjunctive_add) (auto simp: bit_simps dest: bit_imp_le_length)
    also have "\<dots> = le_word [a, b, c, d]"
      by (rule bit_word_eqI) (auto simp: bit_simps dest: bit_imp_le_length)
    finally show ?thesis .
  qed
  have l: "load8 bs i = Ret (ucast (bs ! i))" "load8 bs (i + 1) = Ret (ucast (bs ! (i + 1)))"
    "load8 bs (i + 2) = Ret (ucast (bs ! (i + 2)))" "load8 bs (i + 2 + 1) = Ret (ucast (bs ! (i + 3)))"
    using assms by (simp_all add: load8_inside numeral_eq_Suc)
  show ?thesis unfolding load32_def load16_def l seq.simps w by (simp only: e)
qed


section \<open>Filling a chain\<close>

lemma le_word_small: "v < 0x100000000 \<Longrightarrow> (le_word (le_bytes 4 (v :: u64)) :: u64) = v"
proof -
  assume "v < 0x100000000"
  then have "\<not> bit v n" if "32 \<le> n" for n using high_bits_clear[of v 32 n] that by (simp add: less_u64)
  then have n: "bit v n \<Longrightarrow> n < 32" for n by (meson not_le)
  show ?thesis
  proof (rule bit_word_eqI)
    fix n assume "n < LENGTH(64)"
    show "bit (le_word (le_bytes 4 v) :: u64) n = bit v n"
    proof (cases "n < 32")
      case True
      then have "n div 8 < 4" by auto
      then show ?thesis using True by (simp add: bit_le_word le_bytes_def bit_simps)
    qed (auto simp: bit_le_word dest: n)
  qed
qed

lemma code_ok_code: "length bs = length (code self) \<Longrightarrow> code_ok (self\<lparr>code := bs\<rparr>) = code_ok self"
  by (simp add: code_ok_def)

lemma hole_load:
  assumes "code_ok self" and "holes (code self) (p # ps)"
  shows "code_load32 self (code_base self + of_nat p) = Ret (case ps of [] \<Rightarrow> 0 | q # _ \<Rightarrow> of_nat (p - q))"
proof -
  have len: "length (code self) < 18446744073709551616" using assms(1) by (simp add: code_ok_def)
  have p: "p + 4 \<le> length (code self)" by (rule holes_Cons(1)[OF assms(2)])
  have i: "code_base self \<le> code_base self + of_nat p" "unat (code_base self + of_nat p - code_base self) = p"
    using offset_index[OF assms(1), of p 0] p by simp_all
  have "code_load32 self (code_base self + of_nat p) = Ret (le_word (window (code self) p 4))"
    unfolding code_load32_def i(2) using i(1) load32_le_word[OF p] by simp
  also have "(le_word (window (code self) p 4) :: u64) = (case ps of [] \<Rightarrow> 0 | q # _ \<Rightarrow> of_nat (p - q))"
  proof (cases ps)
    case Nil
    then show ?thesis using assms(2) le_word_small[of 0] by simp
  next
    case (Cons q qs)
    then have "window (code self) p 4 = le_bytes 4 (of_nat (p - q) :: u64)" "p - q < 0x100000000"
      using assms(2) by simp_all
    moreover from this(2) have "(of_nat (p - q) :: u64) < 0x100000000"
      using len by (simp add: less_u64 unat_of_nat_u64 del: of_nat_diff)
    ultimately show ?thesis using le_word_small[of "of_nat (p - q)"] Cons by (simp del: of_nat_diff)
  qed
  finally show ?thesis .
qed

lemma fill_placeholders:
  "code_ok self \<Longrightarrow> holes (code self) ps \<Longrightarrow>
   tc_fill_placeholders self (chain self ps) v =
     Ret (self\<lparr>code := filled (code_base self) v ps (code self)\<rparr>)"
proof (induction ps arbitrary: self)
  case Nil
  then show ?case by (subst tc_fill_placeholders.simps) (simp add: chain_def)
next
  case (Cons p ps)
  note h = holes_Cons[OF Cons.prems(2)]
  let ?d = "v - (code_base self + of_nat p + 4)"
  let ?s = "self\<lparr>code := blit (code self) p (le_bytes 4 ?d)\<rparr>"
  have len: "length (code self) < 18446744073709551616" using Cons.prems(1) by (simp add: code_ok_def)
  have st: "store32 self (code_base self + of_nat p) ?d = Ret ?s"
    by (rule store32_offset[OF Cons.prems(1) h(1)])
  have nz: "code_base self + of_nat p \<noteq> 0" using offset_nonzero[OF Cons.prems(1)] h(1) by simp
  note ld = hole_load[OF Cons.prems]
  show ?case
  proof (cases ps)
    case Nil
    then show ?thesis using nz ld st
      by (subst tc_fill_placeholders.simps) (simp add: chain_def)
  next
    case (Cons q qs)
    have q: "q + 4 \<le> p" using h(3) Cons by simp
    have u: "unat (of_nat (p - q) :: u64) = p - q" "unat (of_nat p :: u64) = p"
      using h(1) len by (intro unat_of_nat_u64; simp)+
    have off: "(of_nat (p - q) :: u64) \<noteq> 0" using u q by (simp add: eq_u64 del: of_nat_diff)
    have le: "\<not> (of_nat (p - q) :: u64) > of_nat p" using u by (simp add: less_u64 del: of_nat_diff)
    have diff: "code_base self + of_nat p - of_nat (p - q) = code_base self + of_nat q"
      using q by (simp add: of_nat_diff)
    have ok: "code_ok ?s" using Cons.prems(1) h(1) by (subst code_ok_code) (simp_all add: length_blit)
    have "holes (code ?s) ps"
      using holes_blit[OF h(2), of p "le_bytes 4 ?d"] h(1,3) by simp
    from Cons.IH[OF ok this]
    have "tc_fill_placeholders ?s (code_base self + of_nat q) v =
        Ret (self\<lparr>code := filled (code_base self) v (p # ps) (code self)\<rparr>)"
      using Cons by (simp add: chain_def)
    moreover have "tc_fill_placeholders self (chain self (p # ps)) v =
        tc_fill_placeholders ?s (code_base self + of_nat q) v"
      using nz ld st off le Cons
      by (subst tc_fill_placeholders.simps) (simp add: chain_def diff del: of_nat_diff)
    ultimately show ?thesis by simp
  qed
qed

text \<open>Writing a placeholder adds it to the chain.\<close>

definition distance :: "nat \<Rightarrow> nat list \<Rightarrow> u64" where
  "distance p ps = (case ps of [] \<Rightarrow> 0 | q # _ \<Rightarrow> of_nat (p - q))"

lemma write_placeholder:
  assumes "code_ok self" and "holes (code self) ps" and "\<forall>q \<in> set ps. q + 4 \<le> pos self"
  shows "tc_write_placeholder self (chain self ps) =
    seq (written self (le_bytes 4 (distance (pos self) ps))) (\<lambda>s. Ret (chain self (pos self # ps), s))"
proof -
  have d: "dst self = code_base self + of_nat (pos self)"
    by (simp add: pos_def)
  have "dst self - (if chain self ps = 0 then dst self else chain self ps) = distance (pos self) ps"
  proof (cases ps)
    case (Cons q qs)
    then have q: "q + 4 \<le> pos self" "q < length (code self)"
      using assms(2,3) holes_Cons(1)[of "code self" q qs] by auto
    then have "chain self ps \<noteq> 0" using offset_nonzero[OF assms(1), of q] Cons by (simp add: chain_def)
    then show ?thesis using q Cons d by (simp add: chain_def distance_def of_nat_diff)
  qed (simp add: chain_def distance_def)
  moreover have "chain self (pos self # ps) = dst self" using d by (simp add: chain_def)
  ultimately show ?thesis
    unfolding tc_write_placeholder_def Let_def by (simp only: tc_write32[OF assms(1)])
qed

lemma holes_written:
  assumes "code_ok self" and "holes (code self) ps" and "\<forall>q \<in> set ps. q + 4 \<le> pos self"
    and "length (code self) \<le> 0x100000000" and "room 4 self"
  shows "holes (code (emit (le_bytes 4 (distance (pos self) ps)) self)) (pos self # ps)"
proof -
  let ?bs = "le_bytes 4 (distance (pos self) ps)"
  have r: "pos self + 4 \<le> length (code self)" using assms(5) by (simp add: room_def)
  have "holes (blit (code self) (pos self) ?bs) ps"
    by (rule holes_blit[OF assms(2)]) (use r assms(3) in auto)
  moreover have "window (blit (code self) (pos self) ?bs) (pos self) 4 = ?bs"
    using r by (simp add: window_blit_same)
  ultimately show ?thesis
    using r assms(3,4) by (cases ps) (auto simp: emit_def length_blit distance_def)
qed


section \<open>Jump instructions\<close>

definition jump_condition :: "u64 \<Rightarrow> cond" where
  "jump_condition token =
     (if token = TC_LT then Below else if token = 13 then Equal else if token = 14 then Above
      else if token = 15 then BelowEqual else if token = 16 then NotEqual else AboveEqual)"

text \<open>The comparison operators, with the tokens of \<open><\<close>, \<open>==\<close>, \<open>>\<close>, \<open><=\<close>, \<open>!=\<close> and \<open>>=\<close>.\<close>

definition comparison :: "u64 \<Rightarrow> u64 \<Rightarrow> u64 \<Rightarrow> bool" where
  "comparison token a b =
     (if token = TC_LT then a < b else if token = 13 then a = b else if token = 14 then a > b
      else if token = 15 then a \<le> b else if token = 16 then a \<noteq> b else a \<ge> b)"

definition comparison_tokens :: "u64 list" where
  "comparison_tokens = [12, 13, 14, 15, 16, 17]"

text \<open>The instruction up to the placeholder.\<close>

definition jump_bytes :: "u64 \<Rightarrow> u8 list" where
  "jump_bytes token = le_bytes 4 (0x0fc8394d :: u64) @ [JUMP_INSTRUCTIONS ! unat (token - TC_LT)]"

lemma jump_prefix: "list_all (\<lambda>token. \<forall>bs. 
    decode (jump_bytes token @ bs) = Some (Alu True Cmp (Reg 8) (Reg 9), 0x0f # JUMP_INSTRUCTIONS ! unat (token - TC_LT) # bs) \<and>
    decode (0x0f # JUMP_INSTRUCTIONS ! unat (token - TC_LT) # bs) =
      map_option (\<lambda>(d, bs). (JumpIf (jump_condition token) d, bs)) (disp32 bs)) comparison_tokens"
  by (simp add: comparison_tokens_def jump_bytes_def le_bytes_def upt_rec JUMP_INSTRUCTIONS_def TC_LT_def
      Let_def alu_of_def cond_of_def jump_condition_def)

lemma comparison_token_cases: "TC_LT \<le> token \<Longrightarrow> token \<le> TC_GE \<Longrightarrow> token \<in> set comparison_tokens"
proof -
  assume "TC_LT \<le> token" "token \<le> TC_GE"
  then have "12 \<le> unat token" "unat token \<le> 17" by (simp_all add: le_u64 tokens)
  then have "unat token \<in> {12, 13, 14, 15, 16, 17}" by auto
  then show ?thesis by (simp add: comparison_tokens_def eq_u64)
qed

lemma not_comparison: "token \<in> set comparison_tokens \<Longrightarrow>
    TC_LT + TC_GE - token \<in> set comparison_tokens \<and>
    comparison (TC_LT + TC_GE - token) a b = (\<not> comparison token a b)"
  by (auto simp: comparison_tokens_def comparison_def tokens)

lemma holds_rip: "holds c (s\<lparr>rip := r\<rparr>) = holds c s"
  by (cases c) simp_all

lemma run_jump:
  assumes "token \<in> set comparison_tokens" and "fits32 d"
  shows "run (jump_bytes token @ le_bytes 4 d) s =
    Some (s\<lparr>rip := rip s + 9 + (if comparison token (regs s 8) (regs s 9) then d else 0),
      carry := regs s 8 < regs s 9, zero := regs s 8 = regs s 9\<rparr>)"
proof -
  have p: "decode (jump_bytes token @ bs) =
      Some (Alu True Cmp (Reg 8) (Reg 9), 0x0f # JUMP_INSTRUCTIONS ! unat (token - TC_LT) # bs)"
    "decode (0x0f # JUMP_INSTRUCTIONS ! unat (token - TC_LT) # bs) =
      map_option (\<lambda>(d, bs). (JumpIf (jump_condition token) d, bs)) (disp32 bs)" for bs
    using jump_prefix assms(1) unfolding list_all_iff by blast+
  have h: "holds (jump_condition token) (s\<lparr>rip := r, carry := a < b, zero := a = b\<rparr>) = comparison token a b"
    for a b :: u64 and s r
    using assms(1) by (auto simp: comparison_tokens_def jump_condition_def comparison_def TC_LT_def)
  have d: "disp32 (le_bytes 4 d) = Some (d, [])" using disp32_bytes[OF assms(2), of "[]"] by simp
  have l: "length (jump_bytes token) = 5" by (simp add: jump_bytes_def)
  have ne: "jump_bytes token \<noteq> []" by (simp add: jump_bytes_def)
  have dj: "decode (0x0f # JUMP_INSTRUCTIONS ! unat (token - TC_LT) # le_bytes 4 d) =
      Some (JumpIf (jump_condition token) d, [])"
    by (simp only: p(2) d) simp
  have jump: "run (0x0f # JUMP_INSTRUCTIONS ! unat (token - TC_LT) # le_bytes 4 d) s =
      Some (if holds (jump_condition token) s then s\<lparr>rip := rip s + 6 + d\<rparr> else s\<lparr>rip := rip s + 6\<rparr>)" for s
    by (subst run.simps) (simp add: dj holds_rip del: decode.simps)
  show ?thesis
    by (subst run.simps) (simp add: p(1) l ne exec_alu_def jump h del: decode.simps)
qed

end
