(* ===== verification/Tc_Frames.thy ===== *)
theory Tc_Frames
  imports Tc_Jumps
begin

text \<open>
  The instructions that work on the stack and on pointers, as the bytes they write: variables of the
  stack frame, fields, addresses, the registers that are saved around a call, and the return.
\<close>

section \<open>Variables and fields\<close>

lemma new_register: "next_register self < 8 \<Longrightarrow>
    tc_new_register self = Ret (next_register self, self\<lparr>next_register := next_register self + 1\<rparr>)"
  by (simp add: tc_new_register_def MAX_REGISTERS_def Let_def not_le)

lemma no_register: "8 \<le> next_register self \<Longrightarrow> tc_new_register self = Panic 105"
  by (simp add: tc_new_register_def MAX_REGISTERS_def Let_def)

lemma write_load:
  assumes "code_ok self"
  shows "tc_write_load_insn self field =
    (let z = next_register self - 1 in
     seq (written self (mem_bytes 0x8b4d (push_bit 3 z OR z) (if z = 4 then 0x24 else 0) field))
       (\<lambda>s. Ret (s\<lparr>dst_mark := dst self\<rparr>)))"
  using write_mem[of "self\<lparr>dst_mark := dst self\<rparr>"] assms
  by (simp add: tc_write_load_insn_def Let_def written_fields)

lemma write_store:
  assumes "code_ok self"
  shows "tc_write_store_insn self field =
    seq (written self (mem_bytes 0x894d 8 0 field)) (\<lambda>s. Ret (s\<lparr>next_register := 0\<rparr>))"
  by (simp add: tc_write_store_insn_def write_mem[OF assms])

lemma write_get:
  assumes "code_ok self" and "next_register self < 8"
  shows "tc_write_get_insn self variable =
    seq (written self (mem_bytes 0x8b4c (0x04 OR push_bit 3 (next_register self)) 0x24 (frame_size self - variable)))
      (\<lambda>s. Ret (s\<lparr>dst_mark := dst self, next_register := next_register self + 1\<rparr>))"
proof -
  let ?s = "self\<lparr>dst_mark := dst self, next_register := next_register self + 1\<rparr>"
  have "tc_write_get_insn self variable =
      written ?s (mem_bytes 0x8b4c (0x04 OR push_bit 3 (next_register self)) 0x24 (frame_size self - variable))"
    using assms by (simp add: tc_write_get_insn_def new_register write_mem)
  then show ?thesis by (simp add: written_fields seq_assoc)
qed

lemma write_ptr:
  assumes "code_ok self" and "next_register self < 8"
  shows "tc_write_ptr_insn self variable =
    seq (written self (mem_bytes 0x8d4c (0x04 OR push_bit 3 (next_register self)) 0x24 (frame_size self - variable)))
      (\<lambda>s. Ret (s\<lparr>next_register := next_register self + 1\<rparr>))"
  using assms by (simp add: tc_write_ptr_insn_def new_register write_mem written_fields)

lemma write_set:
  assumes "code_ok self"
  shows "tc_write_set_insn self variable =
    seq (written self (mem_bytes 0x894c 4 0x24 (frame_size self - variable))) (\<lambda>s. Ret (s\<lparr>next_register := 0\<rparr>))"
  by (simp add: tc_write_set_insn_def write_mem[OF assms])

section \<open>Addresses\<close>

definition increment_bytes :: "u64 \<Rightarrow> u64 \<Rightarrow> u64 \<Rightarrow> u8 list" where
  "increment_bytes insn mr slot =
     (if slot \<ge> 16 then (le_bytes 2 (insn - 512) @ [ucast mr]) @ le_bytes 4 (slot * 8)
      else if slot \<noteq> 0 then (le_bytes 2 insn @ [ucast mr]) @ [ucast (slot * 8)] else [])"

lemma write_increment:
  assumes "code_ok self"
  shows "tc_write_increment_insn self insn mr slot = written self (increment_bytes insn mr slot)"
proof -
  have "seq (tc_write24 self a mr) (\<lambda>self. tc_write32 self b) = written self ((le_bytes 2 a @ [ucast mr]) @ le_bytes 4 b)"
    for a b
    by (simp only: tc_write24[OF assms]) (rule written_written[OF assms]; simp only: tc_write32)
  moreover have "seq (tc_write24 self a mr) (\<lambda>self. tc_write8 self b) = written self ((le_bytes 2 a @ [ucast mr]) @ [ucast b])"
    for a b
    by (simp only: tc_write24[OF assms]) (rule written_written[OF assms]; simp only: tc_write8)
  ultimately show ?thesis
    by (simp only: tc_write_increment_insn_def increment_bytes_def) (simp add: written_Nil[OF assms])
qed

text \<open>Adding a multiple of 8 to a register, one of \<open>r8\<close> to \<open>r15\<close> or \<open>rsp\<close>.\<close>

lemma add_prefixes: "list_all (\<lambda>z. \<forall>bs.
    decode ((le_bytes 2 (0x8349 :: u64) @ [ucast (0xc0 OR z)]) @ bs) =
      map_option (\<lambda>(d, bs). (AluImm True Add (Reg (8 + unat z)) d, bs)) (disp8 bs) \<and>
    decode ((le_bytes 2 (0x8149 :: u64) @ [ucast (0xc0 OR z)]) @ bs) =
      map_option (\<lambda>(d, bs). (AluImm True Add (Reg (8 + unat z)) d, bs)) (disp32 bs)) small"
  by (simp add: small_def le_bytes_def upt_rec Let_def alu_of_def)

lemma add_rsp_prefixes:
    "decode ((le_bytes 2 (0x8348 :: u64) @ [ucast (0xc4 :: u64)]) @ bs) =
      map_option (\<lambda>(d, bs). (AluImm True Add (Reg 4) d, bs)) (disp8 bs)"
    "decode ((le_bytes 2 (0x8148 :: u64) @ [ucast (0xc4 :: u64)]) @ bs) =
      map_option (\<lambda>(d, bs). (AluImm True Add (Reg 4) d, bs)) (disp32 bs)"
  by (simp_all add: le_bytes_def upt_rec Let_def alu_of_def)

text \<open>Both encodings of the increment, behind their prefixes.\<close>

lemma increment_decodes:
  assumes "\<And>bs. decode ((le_bytes 2 insn @ [ucast mr]) @ bs) = map_option (\<lambda>(d, bs). (AluImm True Add (Reg k) d, bs)) (disp8 bs)"
    and "\<And>bs. decode ((le_bytes 2 (insn - 512) @ [ucast mr]) @ bs) = map_option (\<lambda>(d, bs). (AluImm True Add (Reg k) d, bs)) (disp32 bs)"
    and "slot < 0x10000000" and "slot \<noteq> 0"
  shows "decode (increment_bytes insn mr slot) = Some (AluImm True Add (Reg k) (slot * 8), [])"
proof -
  have s: "\<not> slot \<ge> 16 \<Longrightarrow> scast (ucast (slot * 8) :: u8) = slot * 8"
    by (rule scast_u8_small) (simp add: less_u64 le_u64 unat_mult_u64)
  have d: "disp32 (le_bytes 4 (slot * 8)) = Some (slot * 8, [])"
    using disp32_bytes[OF slot_small[OF assms(3)], of "[]"] by simp
  show ?thesis
    unfolding increment_bytes_def using assms(1)[of "[ucast (slot * 8)]"] assms(2)[of "le_bytes 4 (slot * 8)"] assms(4) s
    by (simp only: d if_True if_False split: if_split) simp
qed

lemma address_of_decodes:
  assumes "z < 8" and "slot < 0x10000000" and "slot \<noteq> 0"
  shows "decode (increment_bytes 0x8349 (0xc0 OR z) slot) = Some (AluImm True Add (Reg (8 + unat z)) (slot * 8), [])"
proof -
  have "(0x8349 :: u64) - 512 = 0x8149" by simp
  then show ?thesis using for_registers[OF add_prefixes assms(1)] assms(2,3)
    by (intro increment_decodes) simp_all
qed

lemma add_rsp_decodes:
  assumes "slot < 0x10000000" and "slot \<noteq> 0"
  shows "decode (increment_bytes 0x8348 0xc4 slot) = Some (AluImm True Add (Reg 4) (slot * 8), [])"
proof -
  have "(0x8348 :: u64) - 512 = 0x8148" by simp
  then show ?thesis using add_rsp_prefixes assms by (intro increment_decodes) simp_all
qed


section \<open>Static addresses and backward jumps\<close>

definition static_bytes :: "u64 \<Rightarrow> u64 \<Rightarrow> u8 list" where
  "static_bytes z d = (le_bytes 2 (0x8d4c :: u64) @ [ucast (0x05 OR push_bit 3 z)]) @ le_bytes 4 d"

lemma write_static:
  assumes "code_ok self" and "next_register self < 8"
  shows "tc_write_static_insn self d =
    seq (written self (static_bytes (next_register self) (d - (dst self + 7))))
      (\<lambda>s. Ret (s\<lparr>next_register := next_register self + 1\<rparr>))"
proof -
  let ?z = "next_register self" and ?s = "self\<lparr>next_register := next_register self + 1\<rparr>"
  have ok: "code_ok ?s" using assms(1) by simp
  have "tc_write_static_insn self d =
      seq (written ?s (le_bytes 2 (0x8d4c :: u64) @ [ucast (0x05 OR push_bit 3 ?z)])) (\<lambda>s. tc_write32 s (d - (dst s + 4)))"
    using assms(2) by (simp add: tc_write_static_insn_def new_register tc_write24[OF ok])
  also have "\<dots> = written ?s (static_bytes ?z (d - (dst self + 7)))"
    unfolding static_bytes_def
    by (rule written_written[OF ok]) (simp add: tc_write32 diff_diff_eq add.commute)
  finally show ?thesis by (simp only: written_fields)
qed

lemma static_prefix: "list_all (\<lambda>z. \<forall>bs.
    decode ((le_bytes 2 (0x8d4c :: u64) @ [ucast (0x05 OR push_bit 3 z)]) @ bs) =
      map_option (\<lambda>x. (Lea (8 + unat z) (Rip (fst x)), snd x)) (disp32 bs)) small"
  by (simp add: prefix_simps)

lemma static_decodes:
  assumes "z < 8" and "fits32 d"
  shows "decode (static_bytes z d) = Some (Lea (8 + unat z) (Rip d), [])"
  using for_registers[OF static_prefix assms(1)] disp32_bytes[OF assms(2), of "[]"]
  by (simp add: static_bytes_def del: append_assoc)

lemma write_loop:
  assumes "code_ok self"
  shows "tc_write_loop_insn self d = written self (0xe9 # le_bytes 4 (d - (dst self + 5)))"
proof -
  have "tc_write_loop_insn self d = seq (written self [0xe9]) (\<lambda>s. tc_write32 s (d - (dst s + 4)))"
    by (simp add: tc_write_loop_insn_def tc_write8[OF assms])
  also have "\<dots> = written self ([0xe9] @ le_bytes 4 (d - (dst self + 5)))"
    by (rule written_written[OF assms]) (simp add: tc_write32 diff_diff_eq add.commute)
  finally show ?thesis by simp
qed

lemma jump_decodes: "fits32 d \<Longrightarrow> decode (0xe9 # le_bytes 4 d) = Some (Jump d, [])"
  using disp32_bytes[of d "[]"] by (simp add: Let_def)

section \<open>Saved registers\<close>

fun push_bytes :: "nat \<Rightarrow> u8 list" where
  "push_bytes 0 = []"
| "push_bytes (Suc n) = le_bytes 2 (0x5041 OR push_bit 8 (of_nat n) :: u64) @ push_bytes n"

definition pop_bytes :: "nat \<Rightarrow> nat \<Rightarrow> u8 list" where
  "pop_bytes m n = concat (map (\<lambda>z. le_bytes 2 (0x5841 OR push_bit 8 (of_nat z) :: u64)) [m..<n])"

lemma write_pushes:
  "n < 18446744073709551616 \<Longrightarrow> code_ok self \<Longrightarrow>
   tc_save_registers_loop self (of_nat n) = written self (push_bytes n)"
proof (induction n arbitrary: self)
  case 0
  then show ?case by (subst tc_save_registers_loop.simps) (simp add: written_Nil)
next
  case (Suc n)
  have "(of_nat (Suc n) :: u64) > 0" using Suc.prems(1) by (simp add: less_u64 unat_of_nat_u64 del: of_nat_Suc)
  then have "tc_save_registers_loop self (of_nat (Suc n)) =
      seq (written self (le_bytes 2 (0x5041 OR push_bit 8 (of_nat n) :: u64))) (\<lambda>s. tc_save_registers_loop s (of_nat n))"
    by (subst tc_save_registers_loop.simps) (simp add: tc_write16[OF Suc.prems(2)] Let_def)
  also have "\<dots> = written self (push_bytes (Suc n))"
    unfolding push_bytes.simps by (rule written_written[OF Suc.prems(2)]) (use Suc in simp)
  finally show ?case .
qed

lemma write_save:
  assumes "code_ok self"
  shows "tc_save_registers self n =
    seq (written self (push_bytes (unat n)))
      (\<lambda>s. Ret (s\<lparr>frame_size := frame_size self + n, next_register := 0\<rparr>))"
proof -
  let ?s = "self\<lparr>frame_size := frame_size self + n, next_register := 0\<rparr>"
  have "tc_save_registers self n = written ?s (push_bytes (unat n))"
    using write_pushes[of "unat n" ?s] assms unat_u64_less[of n] by (simp add: tc_save_registers_def)
  then show ?thesis by (simp add: written_fields seq_assoc)
qed

lemma write_pops:
  "m \<le> n \<Longrightarrow> n < 18446744073709551616 \<Longrightarrow> code_ok self \<Longrightarrow>
   tc_restore_registers_loop self (of_nat n) (of_nat m) = written self (pop_bytes m n)"
proof (induction "n - m" arbitrary: self m)
  case 0
  then have "m = n" by simp
  then show ?case using 0 by (subst tc_restore_registers_loop.simps) (simp add: written_Nil pop_bytes_def)
next
  case (Suc k)
  have lt: "m < n" using Suc by simp
  have "(of_nat m :: u64) < of_nat n" using Suc.prems lt by (simp add: less_u64 unat_of_nat_u64)
  then have "tc_restore_registers_loop self (of_nat n) (of_nat m) =
      seq (written self (le_bytes 2 (0x5841 OR push_bit 8 (of_nat m) :: u64)))
        (\<lambda>s. tc_restore_registers_loop s (of_nat n) (of_nat m + 1))"
    by (subst tc_restore_registers_loop.simps) (simp add: tc_write16[OF Suc.prems(3)])
  also have "\<dots> = written self (le_bytes 2 (0x5841 OR push_bit 8 (of_nat m) :: u64) @ pop_bytes (Suc m) n)"
    by (rule written_written[OF Suc.prems(3)])
      (use Suc.hyps(1)[of "Suc m"] Suc.hyps(2) Suc.prems lt in \<open>simp add: add.commute\<close>)
  also have "le_bytes 2 (0x5841 OR push_bit 8 (of_nat m) :: u64) @ pop_bytes (Suc m) n = pop_bytes m n"
    using lt by (simp add: pop_bytes_def upt_conv_Cons)
  finally show ?case .
qed

end
