(* ===== verification/Tc_Saved.thy ===== *)
theory Tc_Saved
  imports Tc_Frames
begin

text \<open>
  The registers that are saved on the stack and restored from it, on the machine model.
\<close>

declare of_nat_diff [simp del]

section \<open>Pushing and popping\<close>

lemma push_decodes: "list_all (\<lambda>n. disassemble 8 (push_bytes n) = Some (map (\<lambda>k. Push (8 + k)) (rev [0..<n])) \<and>
    disassemble 8 (pop_bytes 0 n) = Some (map (\<lambda>k. Pop (8 + k)) [0..<n])) [0..<9]"
  by code_simp

lemma take_bit_3: "take_bit 3 (b :: u64) = b AND 7"
proof -
  have "mask 3 = (7 :: u64)" by (simp add: mask_eq_exp_minus_1)
  then show ?thesis by (simp only: take_bit_eq_mask)
qed

lemma unat_and_7: "unat ((b :: u64) AND 7) = unat b mod 8"
proof -
  have "unat (take_bit 3 b) = take_bit 3 (unat b)" by (simp only: unsigned_take_bit_eq)
  also have "\<dots> = unat b mod 8" by (simp add: take_bit_eq_mod)
  finally show ?thesis by (simp only: take_bit_3)
qed

lemma aligned_plus: "(a + of_nat (8 * n) :: u64) AND 7 = a AND 7"
proof -
  have "unat (a + of_nat (8 * n)) mod 8 = (unat a + unat (of_nat (8 * n) :: u64)) mod 8"
    by (simp add: unat_word_ariths mod_mod_cancel)
  also have "unat (of_nat (8 * n) :: u64) = 8 * n mod 18446744073709551616"
    by (simp add: unat_of_nat take_bit_eq_mod del: of_nat_mult)
  also have "(unat a + 8 * n mod 18446744073709551616) mod 8 = (unat a mod 8 + 8 * n mod 18446744073709551616 mod 8) mod 8"
    by (simp only: mod_add_eq)
  also have "8 * n mod 18446744073709551616 mod 8 = (0 :: nat)"
    using mod_mod_cancel[of 8 "18446744073709551616 :: nat" "8 * n"] by simp
  finally show ?thesis by (simp add: eq_u64 unat_and_7)
qed

lemma aligned_minus: "(a - of_nat (8 * n) :: u64) AND 7 = a AND 7"
  using aligned_plus[of "a - of_nat (8 * n)" n] by (simp only: diff_add_cancel)

lemma slots_distinct: "i < 1000 \<Longrightarrow> j < 1000 \<Longrightarrow> (a - of_nat (8 * i) :: u64) = a - of_nat (8 * j) \<longleftrightarrow> i = j"
proof -
  assume "i < 1000" "j < 1000"
  then have "unat (of_nat (8 * i) :: u64) = 8 * i" "unat (of_nat (8 * j) :: u64) = 8 * j"
    by (intro unat_of_nat_u64; simp)+
  then have "(of_nat (8 * i) :: u64) = of_nat (8 * j) \<longleftrightarrow> i = j" by (simp add: eq_u64)
  then show ?thesis by simp
qed

lemma exec_pushes:
  "n \<le> 8 \<Longrightarrow> regs s 4 AND 7 = 0 \<Longrightarrow>
   \<exists>s'. exec_all (map (\<lambda>k. Push (8 + k)) (rev [0..<n])) s = Some s' \<and>
     regs s' = (regs s)(4 := regs s 4 - of_nat (8 * n)) \<and>
     (\<forall>k<n. mem s' (regs s 4 - of_nat (8 * (n - k))) = regs s (8 + k)) \<and>
     (\<forall>a. (\<forall>j. 1 \<le> j \<and> j \<le> n \<longrightarrow> a \<noteq> regs s 4 - of_nat (8 * j)) \<longrightarrow> mem s' a = mem s a)"
proof (induction n arbitrary: s)
  case (Suc n)
  let ?r = "regs s 4 - 8"
  define t where "t = (set_reg 4 ?r s)\<lparr>mem := (mem s)(?r := regs s (8 + n))\<rparr>"
  have al: "?r AND 7 = 0" using aligned_minus[of "regs s 4" 1] Suc.prems(2) by simp
  then have p: "exec (Push (8 + n)) s = Some t"
    by (simp add: push_def store_def t_def set_reg_def)
  have t: "regs t = (regs s)(4 := ?r)" "mem t = (mem s)(?r := regs s (8 + n))"
    by (simp_all add: t_def set_reg_def)
  have le: "n \<le> 8" using Suc.prems(1) by simp
  have al': "regs t 4 AND 7 = 0" using al t(1) by simp
  have sub: "?r - of_nat (8 * j) = regs s 4 - of_nat (8 * Suc j)" for j
    by (simp add: algebra_simps)
  obtain s' where s': "exec_all (map (\<lambda>k. Push (8 + k)) (rev [0..<n])) t = Some s'"
    "regs s' = (regs t)(4 := regs t 4 - of_nat (8 * n))"
    "\<forall>k<n. mem s' (regs t 4 - of_nat (8 * (n - k))) = regs t (8 + k)"
    "\<forall>a. (\<forall>j. 1 \<le> j \<and> j \<le> n \<longrightarrow> a \<noteq> regs t 4 - of_nat (8 * j)) \<longrightarrow> mem s' a = mem t a"
    using Suc.IH[OF le al'] by blast
  have rt: "regs t 4 = ?r" by (simp add: t)
  have top: "mem s' ?r = regs s (8 + n)"
  proof -
    have "?r \<noteq> ?r - of_nat (8 * j)" if "1 \<le> j" "j \<le> n" for j
      using slots_distinct[of 0 j ?r] that Suc.prems(1) by simp
    then have "mem s' ?r = mem t ?r" using s'(4) unfolding rt by blast
    then show ?thesis by (simp add: t)
  qed
  show ?case
  proof (intro exI[of _ s'] conjI allI impI)
    show "exec_all (map (\<lambda>k. Push (8 + k)) (rev [0..<Suc n])) s = Some s'" using p s'(1) by simp
    show "regs s' = (regs s)(4 := regs s 4 - of_nat (8 * Suc n))"
      by (simp only: s'(2) t(1) fun_upd_same fun_upd_upd sub)
    show "mem s' (regs s 4 - of_nat (8 * (Suc n - k))) = regs s (8 + k)" if "k < Suc n" for k
    proof (cases "k = n")
      case True
      then show ?thesis using top by simp
    next
      case False
      then have k: "k < n" using that by simp
      then have "mem s' (?r - of_nat (8 * (n - k))) = regs t (8 + k)" using s'(3) rt by simp
      then show ?thesis using k by (simp only: sub) (simp add: t Suc_diff_le)
    qed
    show "mem s' a = mem s a" if "\<forall>j. 1 \<le> j \<and> j \<le> Suc n \<longrightarrow> a \<noteq> regs s 4 - of_nat (8 * j)" for a
    proof -
      have "a \<noteq> ?r - of_nat (8 * j)" if "1 \<le> j" "j \<le> n" for j
        unfolding sub using \<open>\<forall>j. 1 \<le> j \<and> j \<le> Suc n \<longrightarrow> a \<noteq> regs s 4 - of_nat (8 * j)\<close> that by auto
      then have "mem s' a = mem t a" using s'(4) unfolding rt by blast
      moreover have "a \<noteq> ?r" using that[rule_format, of 1] by simp
      ultimately show ?thesis by (simp add: t)
    qed
  qed
qed simp

lemma exec_pops:
  "regs s 4 AND 7 = 0 \<Longrightarrow> m \<le> n \<Longrightarrow>
   \<exists>s'. exec_all (map (\<lambda>k. Pop (8 + k)) [m..<n]) s = Some s' \<and> mem s' = mem s \<and>
     (\<forall>k. regs s' k = (if k = 4 then regs s 4 + of_nat (8 * (n - m))
       else if 8 + m \<le> k \<and> k < 8 + n then mem s (regs s 4 + of_nat (8 * (k - 8 - m))) else regs s k))"
proof (induction "n - m" arbitrary: m s)
  case 0
  then show ?case by auto
next
  case (Suc d)
  then have lt: "m < n" by simp
  define t where "t = set_reg (8 + m) (mem s (regs s 4)) (set_reg 4 (regs s 4 + 8) s)"
  have p: "exec (Pop (8 + m)) s = Some t"
    using Suc.prems by (simp add: pop_def load_def t_def)
  have t: "regs t = (regs s)(4 := regs s 4 + 8, 8 + m := mem s (regs s 4))" "mem t = mem s"
    by (simp_all add: t_def set_reg_def)
  have add: "regs s 4 + 8 + of_nat (8 * j) = regs s 4 + of_nat (8 * Suc j)" for j
    by (simp add: algebra_simps)
  have al: "regs t 4 AND 7 = 0" using aligned_plus[of "regs s 4" 1] Suc.prems t by simp
  have rt: "regs t 4 = regs s 4 + 8" by (simp add: t)
  have d: "d = n - Suc m" and m: "Suc m \<le> n" using Suc.hyps(2) lt by simp_all
  obtain s' where s': "exec_all (map (\<lambda>k. Pop (8 + k)) [Suc m..<n]) t = Some s'" "mem s' = mem t"
    "\<forall>k. regs s' k = (if k = 4 then regs t 4 + of_nat (8 * (n - Suc m))
       else if 8 + Suc m \<le> k \<and> k < 8 + n then mem t (regs t 4 + of_nat (8 * (k - 8 - Suc m))) else regs t k)"
    using Suc.hyps(1)[OF d al m] by blast
  have n: "Suc (n - Suc m) = n - m" using lt by simp
  have r: "regs s' k = (if k = 4 then regs s 4 + of_nat (8 * (n - m))
       else if 8 + m \<le> k \<and> k < 8 + n then mem s (regs s 4 + of_nat (8 * (k - 8 - m))) else regs s k)" for k
  proof -
    have j: "8 + Suc m \<le> k \<Longrightarrow> Suc (k - 8 - Suc m) = k - 8 - m" by simp
    show ?thesis
      using s'(3)[rule_format, of k] unfolding rt add n t(2) using j lt
      by (cases "k = 8 + m") (auto simp: t(1))
  qed
  show ?case
    using s'(1,2) t(2) r lt by (intro exI[of _ s']) (simp add: upt_conv_Cons p del: exec.simps)
qed


section \<open>Calls\<close>

lemma two_parts:
  assumes "code_ok self" and "\<And>s. code_ok s \<Longrightarrow> s = emit bs self \<Longrightarrow> f s = seq (written s cs) g"
  shows "seq (written self bs) f = seq (written self (bs @ cs)) g"
proof -
  have "seq (written self bs) f = seq (written self bs) (\<lambda>s. seq (written s cs) g)"
    by (rule seq_written_cong[OF assms])
  also have "\<dots> = seq (seq (written self bs) (\<lambda>s. written s cs)) g" by (simp only: seq_assoc)
  finally show ?thesis by (simp only: written_append[OF assms(1)])
qed

definition after_call :: "nat \<Rightarrow> bool \<Rightarrow> u8 list" where
  "after_call n has_result =
     (if has_result \<and> n \<noteq> 0 then le_bytes 2 (0x894d :: u64) @ [ucast (0xc0 OR of_nat n :: u64)] else []) @ pop_bytes 0 n"

definition call_bytes :: "u64 \<Rightarrow> nat \<Rightarrow> bool \<Rightarrow> u8 list" where
  "call_bytes d n has_result = (0xe8 # le_bytes 4 d) @ after_call n has_result"

lemma write_call:
  assumes "code_ok self" and "get_symbol self fn = Ret f" and "sym_kind f \<noteq> SYM_FORWARD_FN"
    and "get_symbol self (sym_type f) = Ret type" and "n < 8"
  shows "tc_write_call_insn self fn (of_nat n) =
    seq (written self (call_bytes (sym_value f - (dst self + 5)) n (sym_kind type \<noteq> SYM_VOID)))
      (\<lambda>s. Ret (s\<lparr>next_register := of_nat n + (if sym_kind type = SYM_VOID then 0 else 1),
        frame_size := frame_size self - of_nat n\<rparr>))"
proof -
  let ?mv = "le_bytes 2 (0x894d :: u64) @ [ucast (0xc0 OR of_nat n :: u64)]"
  let ?upd = "\<lambda>s. s\<lparr>next_register := of_nat n + (if sym_kind type = SYM_VOID then 0 else 1),
        frame_size := frame_size self - of_nat n\<rparr>"
  have u: "unat (of_nat n :: u64) = n" using assms(5) by (simp add: unat_of_nat_u64)
  have n8: "\<not> (of_nat n :: u64) \<ge> MAX_REGISTERS" using u assms(5) by (simp add: MAX_REGISTERS_def le_u64)
  have n0: "(of_nat n :: u64) = 0 \<longleftrightarrow> n = 0" using u by (simp add: eq_u64)
  have pops: "tc_restore_registers_loop (s\<lparr>next_register := r, frame_size := fs\<rparr>) (of_nat n) 0 =
      seq (written s (pop_bytes 0 n)) (\<lambda>s. Ret (s\<lparr>next_register := r, frame_size := fs\<rparr>))" if "code_ok s" for s r fs
    using write_pops[of 0 n "s\<lparr>next_register := r, frame_size := fs\<rparr>"] that assms(5)
    by (simp add: written_fields seq_assoc)
  have sym: "get_symbol (emit bs self) a = get_symbol self a" for bs a by (simp add: get_symbol_def)
  let ?rest = "\<lambda>s. seq (if sym_kind type \<noteq> SYM_VOID
          then seq (if of_nat n \<noteq> (0 :: u64) then tc_write24 s 0x894d (0xc0 OR of_nat n) else Ret s) (\<lambda>s.
            if of_nat n \<ge> MAX_REGISTERS then Panic 108 else Ret (s\<lparr>next_register := of_nat n + 1\<rparr>))
          else Ret (s\<lparr>next_register := of_nat n\<rparr>)) (\<lambda>s.
     tc_restore_registers_loop (s\<lparr>frame_size := frame_size s - of_nat n\<rparr>) (of_nat n) 0)"
  have rest: "?rest s = seq (written s ((if sym_kind type \<noteq> SYM_VOID \<and> n \<noteq> 0 then ?mv else []) @ pop_bytes 0 n))
      (\<lambda>s. Ret (?upd s))" if ok: "code_ok s" and fs: "frame_size s = frame_size self" for s
  proof (cases "sym_kind type \<noteq> SYM_VOID \<and> n \<noteq> 0")
    case True
    have "?rest s = seq (written s ?mv) (\<lambda>s. tc_restore_registers_loop
        (s\<lparr>next_register := of_nat n + 1, frame_size := frame_size s - of_nat n\<rparr>) (of_nat n) 0)"
      using True n0 n8 by (simp add: tc_write24[OF ok] seq_assoc)
    also have "\<dots> = seq (written s (?mv @ pop_bytes 0 n)) (\<lambda>s. Ret (?upd s))"
      by (rule two_parts[OF ok]) (use fs True in \<open>simp add: pops\<close>)
    finally show ?thesis using True by simp
  next
    case False
    have keep: "s\<lparr>next_register := 1, frame_size := frame_size self\<rparr> = s\<lparr>next_register := 1\<rparr>"
      using fs by simp
    have "tc_restore_registers_loop (s\<lparr>next_register := 1\<rparr>) 0 0 = seq (written s (pop_bytes 0 0))
        (\<lambda>s. Ret (s\<lparr>next_register := 1, frame_size := frame_size self\<rparr>))" if "n = 0"
      using pops[OF ok, of "frame_size self" 1] that unfolding keep by simp
    then show ?thesis using False n0 n8 fs by (auto simp: pops[OF ok])
  qed
  have w8: "tc_write8 self 0xe8 = written self [0xe8]" by (simp add: tc_write8[OF assms(1)])
  have "tc_write_call_insn self fn (of_nat n) =
      seq (written self [0xe8]) (\<lambda>s. seq (tc_write32 s (sym_value f - (dst s + 4))) (\<lambda>s.
        seq (get_symbol s (sym_type f)) (\<lambda>type. seq (if sym_kind type \<noteq> SYM_VOID
          then seq (if of_nat n \<noteq> (0 :: u64) then tc_write24 s 0x894d (0xc0 OR of_nat n) else Ret s) (\<lambda>s.
            if of_nat n \<ge> MAX_REGISTERS then Panic 108 else Ret (s\<lparr>next_register := of_nat n + 1\<rparr>))
          else Ret (s\<lparr>next_register := of_nat n\<rparr>)) (\<lambda>s.
        tc_restore_registers_loop (s\<lparr>frame_size := frame_size s - of_nat n\<rparr>) (of_nat n) 0))))"
    unfolding tc_write_call_insn_def w8 using assms(2,3)
    by (intro seq_written_cong[OF assms(1)]) (simp add: sym)
  also have "\<dots> = seq (written self ([0xe8] @ le_bytes 4 (sym_value f - (dst self + 5))))
      (\<lambda>s. seq (get_symbol s (sym_type f)) (\<lambda>type. seq (if sym_kind type \<noteq> SYM_VOID
          then seq (if of_nat n \<noteq> (0 :: u64) then tc_write24 s 0x894d (0xc0 OR of_nat n) else Ret s) (\<lambda>s.
            if of_nat n \<ge> MAX_REGISTERS then Panic 108 else Ret (s\<lparr>next_register := of_nat n + 1\<rparr>))
          else Ret (s\<lparr>next_register := of_nat n\<rparr>)) (\<lambda>s.
        tc_restore_registers_loop (s\<lparr>frame_size := frame_size s - of_nat n\<rparr>) (of_nat n) 0)))"
    by (rule two_parts[OF assms(1)]) (simp add: tc_write32 diff_diff_eq add.commute)
  also have "\<dots> = seq (written self (([0xe8] @ le_bytes 4 (sym_value f - (dst self + 5))) @
      (if sym_kind type \<noteq> SYM_VOID \<and> n \<noteq> 0 then ?mv else []) @ pop_bytes 0 n)) (\<lambda>s. Ret (?upd s))"
    by (rule two_parts[OF assms(1)]) (simp add: sym assms(4) rest)
  finally show ?thesis by (simp add: call_bytes_def after_call_def)
qed


lemma call_decodes: "fits32 d \<Longrightarrow> decode (call_bytes d n r) = Some (Call d, after_call n r)"
  using disp32_bytes[of d "after_call n r"] by (simp add: call_bytes_def Let_def)

lemma after_call_decodes: "list_all (\<lambda>n. list_all (\<lambda>r. disassemble 9 (after_call n r) =
    Some ((if r \<and> n \<noteq> 0 then [Mov True (Reg (8 + n)) (Reg 8)] else []) @ map (\<lambda>k. Pop (8 + k)) [0..<n])) [True, False]) [0..<8]"
  by code_simp

lemma exec_after_call:
  assumes "n < 8" and "regs c 4 AND 7 = 0"
  shows "\<exists>c'. run (after_call n r) c = Some c' \<and> regs c' 4 = regs c 4 + of_nat (8 * n) \<and> mem c' = mem c \<and>
    list_all (\<lambda>k. regs c' (8 + k) = mem c (regs c 4 + of_nat (8 * k))) [0..<n] \<and>
    (r \<longrightarrow> regs c' (8 + n) = regs c 8)"
proof -
  let ?mv = "if r \<and> n \<noteq> 0 then [Mov True (Reg (8 + n)) (Reg 8)] else []"
  let ?pops = "map (\<lambda>k. Pop (8 + k)) [0..<n]"
  define c1 where "c1 = (if r \<and> n \<noteq> 0 then set_reg (8 + n) (regs c 8) c else c)"
  have m: "exec_all (?mv @ is) c = exec_all is c1" for "is" by (simp add: c1_def)
  have al: "regs c1 4 AND 7 = 0" using assms(2) by (simp add: c1_def set_reg_def)
  obtain c' where c': "exec_all ?pops c1 = Some c'" "mem c' = mem c1"
    "\<forall>k. regs c' k = (if k = 4 then regs c1 4 + of_nat (8 * (n - 0))
       else if 8 + 0 \<le> k \<and> k < 8 + n then mem c1 (regs c1 4 + of_nat (8 * (k - 8 - 0))) else regs c1 k)"
    using exec_pops[OF al, of 0 n] by blast
  have "n \<in> set [0..<8]" "r \<in> set [True, False]" using assms(1) by auto
  then have dis: "disassemble 9 (after_call n r) = Some (?mv @ ?pops)"
    using after_call_decodes unfolding list_all_iff by blast
  have free: "list_all rip_free (?mv @ ?pops)" by (auto simp: list_all_iff)
  show ?thesis
    using run_disassemble[OF dis free, of c] c' m[of ?pops]
    by (auto simp: list_all_iff c1_def set_reg_def)
qed

end
