(* ===== verification/Tc_Placeholders.thy ===== *)
theory Tc_Placeholders
  imports Tc_Frames
begin

text \<open>
  The jump instructions with a placeholder, as the bytes that they append; and open code, whose
  placeholders still wait for their target.
\<close>

section \<open>Writing jumps\<close>

lemma ucast_ucast_byte: "ucast (ucast (c :: u8) :: u64) = c"
  by (simp add: word_unat_eq_iff unsigned_ucast_eq take_bit_word_eq_self)

lemma length_jump_bytes [simp]: "length (jump_bytes token) = 5"
  by (simp add: jump_bytes_def)

lemma chain_cong: "code_base s = code_base self \<Longrightarrow> chain s qs = chain self qs"
  by (cases qs) (simp_all add: chain_def)

lemma seq_Ret: "seq m Ret = m"
  by (cases m) simp_all

text \<open>Bytes, and then a placeholder.\<close>

lemma write_with_placeholder:
  assumes "code_ok self" and "holes (code self) ps" and "\<forall>q \<in> set ps. q + 4 \<le> pos self"
  shows "seq (written self bs) (\<lambda>s. seq (tc_write_placeholder s (chain self ps)) f) =
    seq (written self (bs @ le_bytes 4 (distance (pos self + length bs) ps)))
      (\<lambda>s. f (chain self ((pos self + length bs) # ps), s))"
proof (cases "room (length bs) self")
  case False
  then show ?thesis by (simp add: seq_written room_def)
next
  case True
  let ?s = "emit bs self"
  have r: "pos self + length bs \<le> length (code self)" using True by (simp add: room_def)
  note e = room_emit[OF r assms(1)]
  have ok: "code_ok ?s" by (rule code_ok_emit[OF assms(1) True])
  have h: "holes (code ?s) ps" using holes_blit[OF assms(2) r assms(3)] by (simp add: emit_def)
  have "\<forall>q \<in> set ps. q + 4 \<le> pos ?s" using assms(3) e by auto
  from write_placeholder[OF ok h this] chain_cong[of ?s self] e
  have w: "tc_write_placeholder ?s (chain self ps) = seq (written ?s (le_bytes 4 (distance (pos self + length bs) ps)))
      (\<lambda>s. Ret (chain self ((pos self + length bs) # ps), s))" by simp
  have eq: "seq (written self (bs @ le_bytes 4 (distance (pos self + length bs) ps))) g =
      seq (written ?s (le_bytes 4 (distance (pos self + length bs) ps))) g" for g
    using written_append[OF assms(1), of bs "le_bytes 4 (distance (pos self + length bs) ps)"] True
    by (metis seq.simps(1) written_def)
  show ?thesis unfolding eq using True by (simp only: seq_written[of self bs] w seq_assoc seq.simps if_True)
qed

lemma holes_with_placeholder:
  assumes "code_ok self" and "holes (code self) ps" and "\<forall>q \<in> set ps. q + 4 \<le> pos self"
    and "length (code self) \<le> 0x100000000" and "room (length bs + 4) self"
  shows "holes (code (emit (bs @ le_bytes 4 (distance (pos self + length bs) ps)) self)) ((pos self + length bs) # ps)"
proof -
  let ?s = "emit bs self"
  have r: "pos self + length bs \<le> length (code self)" "room (length bs) self" using assms(5) by (simp_all add: room_def)
  note e = room_emit[OF r(1) assms(1)]
  have h: "holes (code ?s) ps" using holes_blit[OF assms(2) r(1) assms(3)] by (simp add: emit_def)
  have b: "\<forall>q \<in> set ps. q + 4 \<le> pos ?s" using assms(3) e by auto
  have "room 4 ?s" using e assms(5) by (simp add: room_def)
  from holes_written[OF code_ok_emit[OF assms(1) r(2)] h b _ this] show ?thesis
    using e assms(4) emit_emit[OF assms(1), of bs "le_bytes 4 (distance (pos self + length bs) ps)"] assms(5) by simp
qed

lemma write_jump:
  assumes "code_ok self" and "holes (code self) ps" and "\<forall>q \<in> set ps. q + 4 \<le> pos self"
    and "token \<in> set comparison_tokens"
  shows "tc_write_jump_insn self token (chain self ps) =
    seq (written self (jump_bytes token @ le_bytes 4 (distance (pos self + 5) ps)))
      (\<lambda>s. Ret (chain self ((pos self + 5) # ps), s\<lparr>next_register := 0\<rparr>))"
proof -
  have j: "load8 JUMP_INSTRUCTIONS (unat (token - TC_LT)) = Ret (ucast (JUMP_INSTRUCTIONS ! unat (token - TC_LT)))"
    using assms(4) by (auto simp: comparison_tokens_def TC_LT_def JUMP_INSTRUCTIONS_def load8_def)
  have "seq (written self (le_bytes 4 (0x0fc8394d :: u64))) (\<lambda>s. tc_write8 s (ucast (JUMP_INSTRUCTIONS ! unat (token - TC_LT)))) =
      written self (jump_bytes token)"
    unfolding jump_bytes_def by (rule written_written[OF assms(1)]) (simp add: tc_write8 ucast_ucast_byte)
  then have w: "seq (tc_write32 self 0x0fc8394d) (\<lambda>s. seq (load8 JUMP_INSTRUCTIONS (unat (token - TC_LT))) (\<lambda>j. seq (tc_write8 s j) f)) =
      seq (written self (jump_bytes token)) f" for f :: "compiler \<Rightarrow> (u64 \<times> compiler) res"
    by (simp only: tc_write32[OF assms(1)] j seq.simps) (simp only: seq_assoc[symmetric])
  show ?thesis
    unfolding tc_write_jump_insn_def w
    using write_with_placeholder[OF assms(1-3), of "jump_bytes token" "\<lambda>(placeholder, s). Ret (placeholder, s\<lparr>next_register := 0\<rparr>)"]
    by simp
qed

lemma write_goto:
  assumes "code_ok self" and "holes (code self) ps" and "\<forall>q \<in> set ps. q + 4 \<le> pos self"
  shows "tc_write_goto_insn self (chain self ps) =
    seq (written self (0xe9 # le_bytes 4 (distance (pos self + 1) ps)))
      (\<lambda>s. Ret (chain self ((pos self + 1) # ps), s))"
  using write_with_placeholder[OF assms, of "[0xe9]" Ret]
  by (simp add: seq_Ret tc_write_goto_insn_def tc_write8[OF assms(1)])

lemma write_return:
  assumes "code_ok self"
  shows "tc_write_return_insn self = seq (written self (increment_bytes 0x8348 0xc4 (frame_size self) @ [0xc3]))
    (\<lambda>s. Ret (s\<lparr>next_register := 0\<rparr>))"
proof -
  let ?bs = "increment_bytes 0x8348 0xc4 (frame_size self)"
  have "tc_write_return_insn self = seq (seq (written self ?bs) (\<lambda>s. tc_write8 s 0xc3)) (\<lambda>s. Ret (s\<lparr>next_register := 0\<rparr>))"
    by (simp add: tc_write_return_insn_def write_increment[OF assms] seq_assoc)
  also have "seq (written self ?bs) (\<lambda>s. tc_write8 s 0xc3) = written self (?bs @ [0xc3])"
    by (rule written_written[OF assms]) (simp add: tc_write8)
  finally show ?thesis .
qed

section \<open>Patches\<close>

text \<open>Filling placeholders, with positions in the code for addresses.\<close>

definition patch :: "nat \<Rightarrow> nat list \<Rightarrow> u8 list \<Rightarrow> u8 list" where
  "patch x ps bs = filled 0 (of_nat x) ps bs"

lemma patch_simps [simp]:
  "patch x [] bs = bs"
  "patch x (p # ps) bs = patch x ps (blit bs p (le_bytes 4 (of_nat x - of_nat (p + 4) :: u64)))"
  by (simp_all add: patch_def)

lemma filled_patch: "filled base (base + of_nat x) ps bs = patch x ps bs"
  by (induction ps arbitrary: bs) (simp_all add: algebra_simps)

lemma patch_append: "patch x (qs @ ps) bs = patch x ps (patch x qs bs)"
  by (induction qs arbitrary: bs) simp_all

lemma length_patch [simp]: "\<forall>p \<in> set ps. p + 4 \<le> length bs \<Longrightarrow> length (patch x ps bs) = length bs"
  by (simp add: patch_def)

lemma patch_elsewhere:
  "\<forall>p \<in> set ps. p + 4 \<le> length bs \<and> (j + n \<le> p \<or> p + 4 \<le> j) \<Longrightarrow> j + n \<le> length bs \<Longrightarrow>
   window (patch x ps bs) j n = window bs j n"
  unfolding patch_def by (rule filled_elsewhere)

text \<open>A patch inside a window depends on the window only.\<close>

lemma window_patch_cong:
  "\<forall>q \<in> set qs. p \<le> q \<and> q + 4 \<le> p + m \<Longrightarrow> p + m \<le> length bs \<Longrightarrow> length cs = length bs \<Longrightarrow>
   window cs p m = window bs p m \<Longrightarrow> window (patch x qs cs) p m = window (patch x qs bs) p m"
proof (induction qs arbitrary: bs cs)
  case (Cons q qs)
  let ?ys = "le_bytes 4 (of_nat x - of_nat (q + 4) :: u64)"
  have "window (blit cs q ?ys) p m = window (blit bs q ?ys) p m"
  proof (rule window_eqI)
    fix k assume "k < m"
    have e: "window cs p m ! k = window bs p m ! k" using Cons.prems(4) by simp
    then show "blit cs q ?ys ! (p + k) = blit bs q ?ys ! (p + k)"
      using Cons.prems(1-3) \<open>k < m\<close> by (simp add: nth_blit nth_window)
  qed (use Cons.prems in \<open>auto simp: length_blit\<close>)
  moreover have "q + 4 \<le> length bs" using Cons.prems(1,2) by simp
  ultimately show ?case
    using Cons.prems Cons.IH[of "blit bs q ?ys" "blit cs q ?ys"] by (simp add: length_blit del: of_nat_add)
qed simp

section \<open>Open code\<close>

text \<open>The \<open>m\<close> bytes at \<open>p\<close> are \<open>G x\<close> once the placeholders \<open>qs\<close> in them are filled with \<open>x\<close>.\<close>

definition makes :: "u8 list \<Rightarrow> nat \<Rightarrow> nat \<Rightarrow> nat list \<Rightarrow> (nat \<Rightarrow> u8 list) \<Rightarrow> bool" where
  "makes cs p m qs G \<longleftrightarrow> p + m \<le> length cs \<and> (\<forall>q \<in> set qs. p \<le> q \<and> q + 4 \<le> p + m) \<and>
     (\<forall>x. window (patch x qs cs) p m = G x)"

lemma makes_holes: "makes cs p m qs G \<Longrightarrow> q \<in> set qs \<Longrightarrow> p \<le> q \<and> q + 4 \<le> p + m \<and> q + 4 \<le> length cs"
  by (auto simp: makes_def)

lemma makes_cong:
  assumes "makes cs p m qs G" and "window cs' p m = window cs p m" and "length cs' = length cs"
  shows "makes cs' p m qs G"
  using assms window_patch_cong[of qs p m cs cs'] by (auto simp: makes_def)

lemma makes_plain: "p + m \<le> length cs \<Longrightarrow> window cs p m = bs \<Longrightarrow> makes cs p m [] (\<lambda>_. bs)"
  by (simp add: makes_def)

lemma makes_empty: "p \<le> length cs \<Longrightarrow> makes cs p 0 [] (\<lambda>_. [])"
  by (simp add: makes_def)

lemma makes_append:
  assumes "makes cs p m qs G" and "makes cs (p + m) n rs H"
  shows "makes cs p (m + n) (rs @ qs) (\<lambda>x. G x @ H x)"
proof -
  have l: "p + m + n \<le> length cs" using assms(2) by (simp add: makes_def)
  have q: "\<forall>q \<in> set qs. p \<le> q \<and> q + 4 \<le> p + m" and r: "\<forall>q \<in> set rs. p + m \<le> q \<and> q + 4 \<le> p + m + n"
    using assms by (simp_all add: makes_def)
  have lr: "length (patch x rs cs) = length cs" for x using r l by (intro length_patch) auto
  have lq: "length (patch x qs (patch x rs cs)) = length cs" for x using q l lr by (subst length_patch) auto
  have "window (patch x (rs @ qs) cs) p (m + n) = G x @ H x" for x
  proof -
    let ?c = "patch x qs (patch x rs cs)"
    have "window (patch x rs cs) p m = window cs p m" by (rule patch_elsewhere) (use r l in auto)
    then have a: "window ?c p m = G x"
      using window_patch_cong[OF q, of cs "patch x rs cs" x] assms(1) lr l by (simp add: makes_def)
    have "window ?c (p + m) n = window (patch x rs cs) (p + m) n" by (rule patch_elsewhere) (use q l lr in auto)
    then have b: "window ?c (p + m) n = H x" using assms(2) by (simp add: makes_def)
    have "p + m + n \<le> length ?c" using l lq[of x] by simp
    from window_append[OF this] show ?thesis using a b by (simp add: patch_append)
  qed
  moreover have "\<forall>h \<in> set (rs @ qs). p \<le> h \<and> h + 4 \<le> p + (m + n)"
    using q r unfolding set_append by (metis UnE add.assoc add_leD1 le_add1 order_trans)
  ultimately show ?thesis using l by (simp add: makes_def)
qed

lemma makes_patch:
  assumes "makes cs p m qs G"
  shows "makes (patch x qs cs) p m [] (\<lambda>_. G x)"
  using assms length_patch[of qs cs x] unfolding makes_def by fastforce

lemma patch_keeps:
  assumes "\<forall>h \<in> set hs. h + 4 \<le> length cs \<and> (p + m \<le> h \<or> h + 4 \<le> p)"
  shows "makes cs p m qs G \<Longrightarrow> makes (patch x hs cs) p m qs G"
  by (rule makes_cong, assumption, rule patch_elsewhere) (use assms in \<open>auto simp: makes_def\<close>)

lemma holes_patch:
  assumes "holes cs qs" and "\<forall>h \<in> set hs. h + 4 \<le> length cs \<and> (\<forall>q \<in> set qs. q + 4 \<le> h \<or> h + 4 \<le> q)"
  shows "holes (patch x hs cs) qs"
proof (rule holes_cong[OF assms(1)])
  show "\<forall>p\<in>set qs. window (patch x hs cs) p 4 = window cs p 4"
    using assms holes_inside[OF assms(1)] by (intro ballI patch_elsewhere) auto
qed (use assms(2) in simp)

lemma fill_chain:
  assumes "code_ok self" and "holes (code self) ps"
  shows "tc_fill_placeholders self (chain self ps) (code_base self + of_nat x) = Ret (self\<lparr>code := patch x ps (code self)\<rparr>)"
  using fill_placeholders[OF assms] by (simp add: filled_patch)

end
