(* ===== verification/Tc_Backend_Properties.thy ===== *)
theory Tc_Backend_Properties
  imports Tc_Saved Tc_Placeholders
begin

text \<open>
  What the back end promises: the bytes it writes are the instructions it means, on the machine
  model of \<open>X86\<close>; jumps go where they should once their placeholders are filled; registers that are
  saved around a call come back; and the code buffer is never left.
\<close>

section \<open>A code buffer for the witnesses\<close>

definition buffer :: "nat \<Rightarrow> u64 \<Rightarrow> u64 \<Rightarrow> compiler" where
  "buffer n r f =
     \<lparr>source = [0], src = 1, src_end = 1, next_char = 0, next_char_type = 0,
      next_token = 0, next_token_data = 0, next_token_length = 0,
      code_base = 4096, code = replicate n 0, dst = 4096, dst_mark = 0, dst_limit = 4096 + of_nat n,
      cells = Map.empty, heap = 65536, heap_limit = 65536, symbols = 0, fn_return_type = 0,
      next_register = r, frame_size = f\<rparr>"

lemma buffer_simps [simp]:
  "next_register (buffer n r f) = r" "frame_size (buffer n r f) = f" "dst (buffer n r f) = 4096"
  "code (buffer n r f) = replicate n 0" "code_base (buffer n r f) = 4096" "pos (buffer n r f) = 0"
  by (simp_all add: buffer_def pos_def)

lemma buffer_ok: "n \<le> 100 \<Longrightarrow> code_ok (buffer n r f)"
proof -
  assume "n \<le> 100"
  then have "unat (4096 + of_nat n :: u64) = 4096 + n" by (simp add: unat_add_u64 unat_of_nat_u64)
  then show ?thesis using \<open>n \<le> 100\<close> by (simp add: code_ok_def buffer_def le_u64)
qed

lemma next_small: "(r :: u64) \<le> 8 \<Longrightarrow> r \<noteq> 0 \<Longrightarrow> unat r = unat (r - 1) + 1 \<and> r - 1 < 8"
proof -
  assume a: "r \<le> 8" "r \<noteq> 0"
  then have "1 \<le> r" "unat r \<noteq> 0" by (simp_all add: le_u64 eq_u64)
  then show ?thesis using a by (simp add: unat_sub_u64 less_u64 le_u64)
qed

section \<open>Register instructions\<close>

lemma binary_semantics:
  assumes "token \<in> set binary_tokens" and "0 < y" and "y < 8" and "token = TC_DIV \<Longrightarrow> regs c (8 + unat y) \<noteq> 0"
  shows "\<exists>c'. run (binary_bytes token (y - 1) y) c = Some c' \<and>
    rip c' = rip c + of_nat (length (binary_bytes token (y - 1) y)) \<and> mem c' = mem c \<and>
    regs c' (7 + unat y) = binary_op token (regs c (7 + unat y)) (regs c (8 + unat y)) \<and>
    (\<forall>k. 3 \<le> k \<and> k \<noteq> 7 + unat y \<longrightarrow> regs c' k = regs c k)"
proof -
  have y: "y \<in> set (tl small)" using small_cases[OF assms(3)] assms(2) by (auto simp: small_def)
  have dis: "disassemble 4 (binary_bytes token (y - 1) y) = Some (alu_insn token (7 + unat y) (8 + unat y))"
    using binary_decodes assms(1) y unfolding list_all_iff by blast
  have "unat y > 0" using assms(2) by (simp add: word_less_nat_alt)
  then obtain c' where c': "exec_all (alu_insn token (7 + unat y) (8 + unat y)) c = Some c'"
    "regs c' (7 + unat y) = binary_op token (regs c (7 + unat y)) (regs c (8 + unat y))"
    "\<forall>k. 3 \<le> k \<and> k \<noteq> 7 + unat y \<longrightarrow> regs c' k = regs c k" "mem c' = mem c"
    using exec_alu_insn[of "7 + unat y" "8 + unat y" token c] assms(4) by auto
  show ?thesis
    using run_disassemble[OF dis alu_insn_rip_free, of c] c'
    by (intro exI[of _ "c'\<lparr>rip := rip c + of_nat (length (binary_bytes token (y - 1) y))\<rparr>"]) simp
qed

text \<open>C16. Binary operators: with at least two registers in use, \<open>tc_write_binary_insn\<close> appends
  machine code (or stops with error 1 when the buffer is full) and frees the last register. Run on
  a processor, the code leaves the result of the operator on the last two registers in the first of
  them, on 64 bits without sign, and keeps memory and every other register except \<open>rax\<close>, \<open>rcx\<close> and
  \<open>rdx\<close>; a division needs a divisor that is not 0.\<close>

theorem binary_insn_correct:
  assumes "code_ok self" and "2 \<le> next_register self" and "next_register self \<le> 8"
    and "token \<in> set binary_tokens"
  shows "\<exists>bs. tc_write_binary_insn self token =
      seq (written self bs) (\<lambda>s. Ret (s\<lparr>next_register := next_register self - 1\<rparr>)) \<and>
    (\<forall>c. token = TC_DIV \<and> regs c (7 + unat (next_register self)) = 0 \<or>
      (\<exists>c'. run bs c = Some c' \<and> rip c' = rip c + of_nat (length bs) \<and> mem c' = mem c \<and>
        regs c' (6 + unat (next_register self)) =
          binary_op token (regs c (6 + unat (next_register self))) (regs c (7 + unat (next_register self))) \<and>
        (\<forall>k. 3 \<le> k \<and> k \<noteq> 6 + unat (next_register self) \<longrightarrow> regs c' k = regs c k)))"
proof -
  let ?y = "next_register self - 1"
  have "next_register self \<noteq> 0" using assms(2) by auto
  then have y: "unat (next_register self) = unat ?y + 1" "?y < 8" using next_small[OF assms(3)] by simp_all
  have "2 \<le> unat (next_register self)" using assms(2) by (simp add: le_u64)
  then have pos: "0 < ?y" using y(1) by (simp add: word_less_nat_alt)
  show ?thesis
    using write_binary[OF assms(1), of token] binary_semantics[OF assms(4) pos y(2)]
    by (intro exI[of _ "binary_bytes token (?y - 1) ?y"]) (auto simp: y(1))
qed

theorem binary_insn_correct_witness:
  "\<exists>bs. tc_write_binary_insn (buffer 20 2 0) TC_DIV =
      seq (written (buffer 20 2 0) bs) (\<lambda>s. Ret (s\<lparr>next_register := 1\<rparr>)) \<and>
    (\<exists>c'. run bs \<lparr>regs = (\<lambda>k. if k = 8 then 17 else 5), mem = (\<lambda>a. 0), rip = 4096, carry = False, zero = False\<rparr> = Some c' \<and>
      regs c' 8 = 3)"
proof -
  have t: "TC_DIV \<in> set binary_tokens" by (simp add: binary_tokens_def)
  have "binary_op TC_DIV 17 5 = 3" by (simp add: binary_op_def tokens)
  then show ?thesis
    using binary_insn_correct[OF buffer_ok _ _ t, of 20 2 0]
    by (force dest: spec[of _ "\<lparr>regs = (\<lambda>k. if k = 8 then 17 else 5), mem = (\<lambda>a. 0), rip = 4096, carry = False, zero = False\<rparr>"])
qed

text \<open>Constants: with a free register, \<open>tc_write_cst_insn\<close> appends code that loads exactly the
  value into it, for all of its three encodings, and changes nothing else; without one it stops
  with error 105.\<close>

theorem cst_insn_correct:
  assumes "code_ok self"
  shows "if next_register self \<ge> 8 then tc_write_cst_insn self v = Panic 105
    else \<exists>bs. tc_write_cst_insn self v =
        seq (written self bs) (\<lambda>s. Ret (s\<lparr>next_register := next_register self + 1\<rparr>)) \<and>
      (\<forall>c. run bs c = Some (c\<lparr>regs := (regs c)(8 + unat (next_register self) := v),
        rip := rip c + of_nat (length bs)\<rparr>))"
proof (cases "next_register self \<ge> 8")
  case True
  then show ?thesis by (simp add: tc_write_cst_insn_def no_register)
next
  case False
  then have z: "next_register self < 8" by simp
  have "run (cst_bytes (next_register self) v) c = Some (c\<lparr>regs := (regs c)(8 + unat (next_register self) := v),
        rip := rip c + of_nat (length (cst_bytes (next_register self) v))\<rparr>)" for c
    using cst_disassemble[OF z, of v c] run_disassemble[of 1 "cst_bytes (next_register self) v" _ c]
    by (auto simp: set_reg_def)
  then show ?thesis using write_cst[OF assms z, of v] False by auto
qed

theorem cst_insn_correct_witness:
  "\<exists>bs. tc_write_cst_insn (buffer 20 3 0) 0x123456789 =
      seq (written (buffer 20 3 0) bs) (\<lambda>s. Ret (s\<lparr>next_register := 4\<rparr>)) \<and>
    (\<forall>c. run bs c = Some (c\<lparr>regs := (regs c)(11 := 0x123456789), rip := rip c + of_nat (length bs)\<rparr>))"
  using cst_insn_correct[OF buffer_ok, of 20 3 0 "0x123456789"] by simp


section \<open>Variables, fields and addresses\<close>

text \<open>Variables: with \<open>d\<close> slots of the stack frame above the variable,
  \<open>tc_write_get_insn\<close>, \<open>tc_write_ptr_insn\<close> and \<open>tc_write_set_insn\<close> append one instruction that loads the
  variable into a new register, that loads its address, or that stores register 0 into it. The slot
  is the word at \<open>rsp + 8 * d\<close>, for all three ways to encode \<open>d\<close>.\<close>

theorem variable_insns_correct:
  assumes "code_ok self" and "next_register self < 8"
    and "d = frame_size self - variable" and "d < 0x10000000"
  shows "(\<exists>bs. tc_write_get_insn self variable = seq (written self bs)
        (\<lambda>s. Ret (s\<lparr>dst_mark := dst self, next_register := next_register self + 1\<rparr>)) \<and>
      decode bs = Some (Mov True (Reg (8 + unat (next_register self))) (Mem 4 (d * 8)), [])) \<and>
    (\<exists>bs. tc_write_ptr_insn self variable = seq (written self bs)
        (\<lambda>s. Ret (s\<lparr>next_register := next_register self + 1\<rparr>)) \<and>
      decode bs = Some (Lea (8 + unat (next_register self)) (Mem 4 (d * 8)), [])) \<and>
    (\<exists>bs. tc_write_set_insn self variable = seq (written self bs) (\<lambda>s. Ret (s\<lparr>next_register := 0\<rparr>)) \<and>
      decode bs = Some (Mov True (Mem 4 (d * 8)) (Reg 8), []))"
  using write_get[OF assms(1,2)] write_ptr[OF assms(1,2)] write_set[OF assms(1)]
    get_decodes[OF assms(2,4)] ptr_decodes[OF assms(2,4)] set_decodes[OF assms(4)]
  unfolding assms(3) by blast

theorem variable_insns_correct_witness:
  "\<exists>bs. tc_write_get_insn (buffer 20 5 21) 1 = seq (written (buffer 20 5 21) bs)
      (\<lambda>s. Ret (s\<lparr>dst_mark := 4096, next_register := 6\<rparr>)) \<and>
    decode bs = Some (Mov True (Reg 13) (Mem 4 160), [])"
  using variable_insns_correct[OF buffer_ok, of 20 5 21 20 1] by simp

text \<open>C30. Fields: \<open>tc_write_store_insn\<close> stores register 1 into a field behind the pointer in register
  0, and \<open>tc_write_address_of_insn\<close> adds the offset of a field to the last register. \<open>tc_write_load_insn\<close>
  replaces the pointer in the last register by the field it points to, except for the first field
  through the sixth register, where the code is wrong. A field is a word of 8 bytes, and offset 0
  needs no addition.\<close>

theorem field_insns_correct:
  assumes "code_ok self" and "next_register self = z + 1" and "z < 8" and "field < 0x10000000"
  shows "(z = 5 \<and> field = 0 \<or>
      (\<exists>bs. tc_write_load_insn self field = seq (written self bs) (\<lambda>s. Ret (s\<lparr>dst_mark := dst self\<rparr>)) \<and>
        decode bs = Some (Mov True (Reg (8 + unat z)) (Mem (8 + unat z) (field * 8)), []))) \<and>
    (\<exists>bs. tc_write_store_insn self field = seq (written self bs) (\<lambda>s. Ret (s\<lparr>next_register := 0\<rparr>)) \<and>
      decode bs = Some (Mov True (Mem 8 (field * 8)) (Reg 9), [])) \<and>
    (\<exists>bs. tc_write_address_of_insn self field = written self bs \<and>
      (if field = 0 then bs = []
       else decode bs = Some (AluImm True Add (Reg (8 + unat z)) (field * 8), [])))"
proof -
  have "next_register self - 1 = z" using assms(2) by simp
  then show ?thesis
    using write_load[OF assms(1), of field] write_store[OF assms(1), of field] write_increment[OF assms(1)]
      load_decodes[OF assms(3,4)] store_decodes[OF assms(4)] address_of_decodes[OF assms(3,4)]
    by (auto simp: tc_write_address_of_insn_def Let_def increment_bytes_def)
qed

theorem field_insns_correct_witness:
  "\<exists>bs. tc_write_load_insn (buffer 20 5 0) 16 = seq (written (buffer 20 5 0) bs) (\<lambda>s. Ret (s\<lparr>dst_mark := 4096\<rparr>)) \<and>
    decode bs = Some (Mov True (Reg 12) (Mem 12 128), [])"
  using field_insns_correct[OF buffer_ok, of 20 5 0 4 16] by simp

text \<open>C31. The excluded case is wrong in the code: a load of field 0 through the sixth register
  encodes base \<open>r13\<close> without displacement, which the processor reads as an address relative to \<open>rip\<close>
  and takes the four bytes behind the instruction for its displacement.\<close>

theorem load_through_r13_broken:
  assumes "code_ok self" and "next_register self = 6" and "fits32 d"
  shows "\<exists>bs. tc_write_load_insn self 0 = seq (written self bs) (\<lambda>s. Ret (s\<lparr>dst_mark := dst self\<rparr>)) \<and>
    decode bs = None \<and> decode (bs @ le_bytes 4 d) = Some (Mov True (Reg 13) (Rip d), [])"
proof -
  have b: "mem_bytes 0x8b4d (push_bit 3 5 OR 5) 0 0 = [0x4d, 0x8b, 0x2d]"
    by (simp add: mem_bytes_def mode_def disp_bytes_def le_bytes_def upt_rec word_le_nat_alt)
  have "decode ([0x4d, 0x8b, 0x2d] @ le_bytes 4 d) = Some (Mov True (Reg 13) (Rip d), [])"
    using disp32_bytes[OF assms(3), of "[]"] by (simp add: Let_def)
  moreover have "decode [0x4d, 0x8b, 0x2d] = None" by (simp add: Let_def disp32_def imm32_def)
  ultimately show ?thesis using write_load[OF assms(1), of 0] b assms(2) by (auto simp: Let_def)
qed

theorem load_through_r13_broken_witness:
  "\<exists>bs. tc_write_load_insn (buffer 20 6 0) 0 = seq (written (buffer 20 6 0) bs) (\<lambda>s. Ret (s\<lparr>dst_mark := 4096\<rparr>)) \<and>
    decode (bs @ le_bytes 4 (100 :: u64)) = Some (Mov True (Reg 13) (Rip 100), [])"
proof -
  have "fits32 100" by (rule fits32_small) (simp add: less_u64)
  then show ?thesis using load_through_r13_broken[OF buffer_ok, of 20 6 0 100] by auto
qed

text \<open>Static data: \<open>tc_write_static_insn\<close> appends one instruction that leaves the absolute address
  of the data in a new register when the code runs where it was written, for data that is in
  reach of a 32-bit displacement.\<close>

theorem static_insn_correct:
  assumes "code_ok self" and "next_register self < 8" and "fits32 (d - (dst self + 7))"
  shows "\<exists>bs. tc_write_static_insn self d = seq (written self bs)
      (\<lambda>s. Ret (s\<lparr>next_register := next_register self + 1\<rparr>)) \<and>
    (\<forall>c. rip c \<noteq> dst self \<or> run bs c =
      Some (c\<lparr>regs := (regs c)(8 + unat (next_register self) := d), rip := dst self + 7\<rparr>))"
proof -
  let ?bs = "static_bytes (next_register self) (d - (dst self + 7))"
  have "length ?bs = 7" by (simp add: static_bytes_def)
  then have "run ?bs c = Some (c\<lparr>regs := (regs c)(8 + unat (next_register self) := d), rip := dst self + 7\<rparr>)"
    if "rip c = dst self" for c
    using run_one[OF static_decodes[OF assms(2,3)], of c] that by (simp add: set_reg_def)
  then show ?thesis using write_static[OF assms(1,2), of d] by blast
qed

theorem static_insn_correct_witness:
  "\<exists>bs. tc_write_static_insn (buffer 20 0 0) 4196 = seq (written (buffer 20 0 0) bs)
      (\<lambda>s. Ret (s\<lparr>next_register := 1\<rparr>))"
proof -
  have "fits32 (4196 - (4096 + 7))" by (rule fits32_small) (simp add: less_u64)
  then show ?thesis using static_insn_correct[OF buffer_ok, of 20 0 0 4196] by auto
qed


section \<open>Jumps\<close>

text \<open>C32. Filling placeholders: for the chain of the placeholders at offsets \<open>ps\<close>,
  \<open>tc_fill_placeholders\<close> ends without a fault, replaces each placeholder by the distance from its
  end to the target, and changes no other byte of the code.\<close>

theorem fill_placeholders_correct:
  assumes "code_ok self" and "holes (code self) ps"
  shows "\<exists>bs. tc_fill_placeholders self (chain self ps) v = Ret (self\<lparr>code := bs\<rparr>) \<and>
    length bs = length (code self) \<and>
    list_all (\<lambda>p. window bs p 4 = le_bytes 4 (v - (code_base self + of_nat p + 4))) ps \<and>
    (\<forall>i. i < length bs \<and> list_all (\<lambda>p. i < p \<or> p + 4 \<le> i) ps \<longrightarrow> bs ! i = code self ! i)"
proof -
  let ?bs = "filled (code_base self) v ps (code self)"
  have l: "length ?bs = length (code self)" using holes_inside[OF assms(2)] by simp
  have e: "?bs ! i = code self ! i" if "i < length ?bs" "list_all (\<lambda>p. i < p \<or> p + 4 \<le> i) ps" for i
  proof -
    have "window ?bs i 1 = window (code self) i 1"
      by (rule filled_elsewhere) (use that l holes_inside[OF assms(2)] in \<open>auto simp: list_all_iff\<close>)
    then have "window ?bs i 1 ! 0 = window (code self) i 1 ! 0" by simp
    then show ?thesis using that(1) l by (simp add: nth_window)
  qed
  show ?thesis
    using fill_placeholders[OF assms, of v] l e filled_hole[OF assms(2)]
    by (intro exI[of _ ?bs]) (auto simp: list_all_iff)
qed

definition jumping :: compiler where
  "jumping = (buffer 12 0 0)\<lparr>code := [0, 0, 0, 0, 0xe9, 5, 0, 0, 0, 0, 0, 0]\<rparr>"

theorem fill_placeholders_correct_witness:
  "\<exists>bs. tc_fill_placeholders jumping 4101 5000 = Ret (jumping\<lparr>code := bs\<rparr>) \<and>
    window bs 5 4 = le_bytes 4 (895 :: u64) \<and> bs ! 4 = 0xe9"
proof -
  have h: "holes (code jumping) [5, 0]"
    by (simp add: jumping_def le_bytes_def window_def upt_rec)
  have ok: "code_ok jumping" using buffer_ok[of 12 0 0] by (simp add: jumping_def code_ok_def)
  have "chain jumping [5, 0] = 4101" by (simp add: chain_def jumping_def)
  then show ?thesis using fill_placeholders_correct[OF ok h, of 5000]
    by (auto simp: jumping_def dest: spec[of _ 4])
qed

text \<open>Conditional jumps: \<open>tc_write_jump_insn\<close> appends a comparison of registers 0 and 1 and a
  conditional jump, adds its placeholder to the chain, and the new chain is well-formed again; a
  placeholder that is filled with the distance to a target makes the processor continue at the
  target exactly when the comparison of the token holds, and behind the jump otherwise.\<close>

theorem jump_insn_correct:
  assumes "code_ok self" and "holes (code self) ps" and "list_all (\<lambda>q. q + 4 \<le> pos self) ps"
    and "length (code self) \<le> 0x100000000" and "TC_LT \<le> token" and "token \<le> TC_GE"
  shows "(if room 9 self
      then \<exists>s. tc_write_jump_insn self token (chain self ps) = Ret (chain self ((pos self + 5) # ps), s) \<and>
        code_ok s \<and> holes (code s) ((pos self + 5) # ps) \<and> next_register s = 0 \<and>
        window (code s) (pos self) 5 = jump_bytes token
      else tc_write_jump_insn self token (chain self ps) = Panic 1) \<and>
    (\<forall>c target. \<not> fits32 (target - (rip c + 9)) \<or>
      map_option rip (run (jump_bytes token @ le_bytes 4 (target - (rip c + 9))) c) =
        Some (if comparison token (regs c 8) (regs c 9) then target else rip c + 9))"
proof (intro conjI allI)
  have t: "token \<in> set comparison_tokens" by (rule comparison_token_cases[OF assms(5,6)])
  show "\<not> fits32 (target - (rip c + 9)) \<or>
      map_option rip (run (jump_bytes token @ le_bytes 4 (target - (rip c + 9))) c) =
        Some (if comparison token (regs c 8) (regs c 9) then target else rip c + 9)" for c target
    using run_jump[OF t, of "target - (rip c + 9)" c] by auto
  have before: "\<forall>q \<in> set ps. q + 4 \<le> pos self" using assms(3) by (simp add: list_all_iff)
  let ?bs = "jump_bytes token @ le_bytes 4 (distance (pos self + 5) ps)"
  note w = write_jump[OF assms(1,2) before t]
  show "if room 9 self
      then \<exists>s. tc_write_jump_insn self token (chain self ps) = Ret (chain self ((pos self + 5) # ps), s) \<and>
        code_ok s \<and> holes (code s) ((pos self + 5) # ps) \<and> next_register s = 0 \<and>
        window (code s) (pos self) 5 = jump_bytes token
      else tc_write_jump_insn self token (chain self ps) = Panic 1"
  proof (cases "room 9 self")
    case True
    then have r: "room (length (jump_bytes token) + 4) self" "room (length ?bs) self"
      "pos self + length ?bs \<le> length (code self)" by (simp_all add: room_def)
    have "window (code (emit ?bs self)) (pos self) (length ?bs) = ?bs"
      using r(3) by (simp only: emit_def window_blit_same) (simp add: window_blit_same)
    then have "window (code (emit ?bs self)) (pos self) 5 = jump_bytes token"
      using r(3) window_append[of "pos self" 5 4 "code (emit ?bs self)"]
      by (simp add: emit_def byte_lists append_eq_append_conv)
    then show ?thesis
      using w True code_ok_emit[OF assms(1) r(2)] holes_with_placeholder[OF assms(1,2) before assms(4) r(1)]
      by (simp add: seq_written)
  qed (simp add: w seq_written)
qed

theorem jump_insn_correct_witness:
  "\<exists>s. tc_write_jump_insn (buffer 20 2 0) TC_LT 0 = Ret (4101, s) \<and> holes (code s) [5]"
  using jump_insn_correct[OF buffer_ok, of 20 2 0 "[]" TC_LT]
  by (auto simp: chain_def room_def tokens)


section \<open>Calls and returns\<close>

text \<open>Saved registers: \<open>tc_save_registers\<close> pushes the registers in use and the loop at the end of
  \<open>tc_write_call_insn\<close> pops them. Whatever happens in between, as long as the stack pointer and the
  words that were pushed are the same again, every saved register and the stack pointer have
  their old values after the pops, and the other registers are not changed by them.\<close>

theorem saved_registers_restored:
  assumes "n \<le> 8"
  shows "\<exists>bs cs.
    (\<forall>self. code_ok self \<longrightarrow>
      tc_save_registers self (of_nat n) = seq (written self bs)
        (\<lambda>s. Ret (s\<lparr>frame_size := frame_size self + of_nat n, next_register := 0\<rparr>)) \<and>
      tc_restore_registers_loop self (of_nat n) 0 = written self cs) \<and>
    (\<forall>c. regs c 4 AND 7 = 0 \<longrightarrow> (\<exists>c1. run bs c = Some c1 \<and>
      (\<forall>c2. regs c2 4 = regs c1 4 \<and>
        list_all (\<lambda>j. mem c2 (regs c 4 - of_nat (8 * j)) = mem c1 (regs c 4 - of_nat (8 * j))) [1..<Suc n] \<longrightarrow>
        (\<exists>c3. run cs c2 = Some c3 \<and> regs c3 4 = regs c 4 \<and>
          list_all (\<lambda>k. regs c3 (8 + k) = regs c (8 + k)) [0..<n] \<and>
          (\<forall>k. k \<noteq> 4 \<and> \<not> (8 \<le> k \<and> k < 8 + n) \<longrightarrow> regs c3 k = regs c2 k)))))"
proof (rule exI[of _ "push_bytes n"], rule exI[of _ "pop_bytes 0 n"], intro conjI allI impI)
  have n: "n \<in> set [0..<9]" using assms by simp
  then have dis: "disassemble 8 (push_bytes n) = Some (map (\<lambda>k. Push (8 + k)) (rev [0..<n]))"
    "disassemble 8 (pop_bytes 0 n) = Some (map (\<lambda>k. Pop (8 + k)) [0..<n])"
    using push_decodes unfolding list_all_iff by blast+
  have u: "unat (of_nat n :: u64) = n" using assms by (simp add: unat_of_nat_u64)
  fix self :: compiler assume ok: "code_ok self"
  show "tc_save_registers self (of_nat n) = seq (written self (push_bytes n))
      (\<lambda>s. Ret (s\<lparr>frame_size := frame_size self + of_nat n, next_register := 0\<rparr>))"
    using write_save[OF ok, of "of_nat n"] u by simp
  show "tc_restore_registers_loop self (of_nat n) 0 = written self (pop_bytes 0 n)"
    using write_pops[of 0 n self] ok assms by simp
next
  have n: "n \<in> set [0..<9]" using assms by simp
  then have dis: "disassemble 8 (push_bytes n) = Some (map (\<lambda>k. Push (8 + k)) (rev [0..<n]))"
    "disassemble 8 (pop_bytes 0 n) = Some (map (\<lambda>k. Pop (8 + k)) [0..<n])"
    using push_decodes unfolding list_all_iff by blast+
  fix c :: cpu assume al: "regs c 4 AND 7 = 0"
  obtain s where s: "exec_all (map (\<lambda>k. Push (8 + k)) (rev [0..<n])) c = Some s"
    "regs s = (regs c)(4 := regs c 4 - of_nat (8 * n))"
    "\<forall>k<n. mem s (regs c 4 - of_nat (8 * (n - k))) = regs c (8 + k)"
    using exec_pushes[OF assms al] by blast
  define c1 where "c1 = s\<lparr>rip := rip c + of_nat (length (push_bytes n))\<rparr>"
  have free: "list_all rip_free (map (\<lambda>k. Push (8 + k)) (rev [0..<n]))"
    "list_all rip_free (map (\<lambda>k. Pop (8 + k)) [0..<n])"
    by (simp_all add: list_all_iff)
  have r1: "run (push_bytes n) c = Some c1"
    using run_disassemble[OF dis(1) free(1), of c] s(1) by (simp add: c1_def)
  have restored: "\<exists>c3. run (pop_bytes 0 n) c2 = Some c3 \<and> regs c3 4 = regs c 4 \<and>
          list_all (\<lambda>k. regs c3 (8 + k) = regs c (8 + k)) [0..<n] \<and>
          (\<forall>k. k \<noteq> 4 \<and> \<not> (8 \<le> k \<and> k < 8 + n) \<longrightarrow> regs c3 k = regs c2 k)"
    if c2: "regs c2 4 = regs c1 4" "list_all (\<lambda>j. mem c2 (regs c 4 - of_nat (8 * j)) = mem c1 (regs c 4 - of_nat (8 * j))) [1..<Suc n]"
    for c2
  proof -
    have r2: "regs c2 4 = regs c 4 - of_nat (8 * n)" using c2(1) s(2) by (simp add: c1_def)
    then have al2: "regs c2 4 AND 7 = 0" using aligned_minus[of "regs c 4" n] al by (simp only:)
    obtain t where t: "exec_all (map (\<lambda>k. Pop (8 + k)) [0..<n]) c2 = Some t"
      "\<forall>k. regs t k = (if k = 4 then regs c2 4 + of_nat (8 * (n - 0))
        else if 8 + 0 \<le> k \<and> k < 8 + n then mem c2 (regs c2 4 + of_nat (8 * (k - 8 - 0))) else regs c2 k)"
      using exec_pops[OF al2, of 0 n] by blast
    have "regs t (8 + k) = regs c (8 + k)" if k: "k < n" for k
    proof -
      have j: "n - k \<in> set [1..<Suc n]" using k by auto
      have "regs c2 4 + of_nat (8 * k) = regs c 4 - of_nat (8 * (n - k))"
        unfolding r2 using k by (simp add: of_nat_diff algebra_simps)
      moreover have "mem c2 (regs c 4 - of_nat (8 * (n - k))) = mem c1 (regs c 4 - of_nat (8 * (n - k)))"
        using c2(2) j unfolding list_all_iff by blast
      moreover have "regs t (8 + k) = mem c2 (regs c2 4 + of_nat (8 * k))"
        using t(2)[rule_format, of "8 + k"] k by simp
      ultimately have "regs t (8 + k) = mem c1 (regs c 4 - of_nat (8 * (n - k)))" by (simp only:)
      then show ?thesis using s(3) k by (simp add: c1_def)
    qed
    moreover have "regs t 4 = regs c 4" using t(2) r2 by simp
    moreover have "regs t k = regs c2 k" if "k \<noteq> 4 \<and> \<not> (8 \<le> k \<and> k < 8 + n)" for k
      using t(2) that by auto
    ultimately show ?thesis
      using run_disassemble[OF dis(2) free(2), of c2] t(1) by (auto simp: list_all_iff)
  qed
  show "\<exists>c1. run (push_bytes n) c = Some c1 \<and> (\<forall>c2. regs c2 4 = regs c1 4 \<and>
        list_all (\<lambda>j. mem c2 (regs c 4 - of_nat (8 * j)) = mem c1 (regs c 4 - of_nat (8 * j))) [1..<Suc n] \<longrightarrow>
        (\<exists>c3. run (pop_bytes 0 n) c2 = Some c3 \<and> regs c3 4 = regs c 4 \<and>
          list_all (\<lambda>k. regs c3 (8 + k) = regs c (8 + k)) [0..<n] \<and>
          (\<forall>k. k \<noteq> 4 \<and> \<not> (8 \<le> k \<and> k < 8 + n) \<longrightarrow> regs c3 k = regs c2 k)))"
    using r1 restored by blast
qed

theorem saved_registers_restored_witness:
  "\<exists>bs. \<forall>self. code_ok self \<longrightarrow> tc_restore_registers_loop self 3 0 = written self bs"
proof -
  have "(3 :: nat) \<le> 8" by simp
  from saved_registers_restored[OF this] show ?thesis by (auto simp del: One_nat_def)
qed

text \<open>Returns: \<open>tc_write_return_insn\<close> appends code that drops the stack frame, a word for each
  variable and saved register, and continues at the return address behind it.\<close>

theorem return_insn_correct:
  assumes "code_ok self" and "frame_size self < 0x10000000"
  shows "\<exists>bs. tc_write_return_insn self = seq (written self bs) (\<lambda>s. Ret (s\<lparr>next_register := 0\<rparr>)) \<and>
    (\<forall>c. regs c 4 AND 7 \<noteq> 0 \<or> (\<exists>c'. run bs c = Some c' \<and>
      rip c' = mem c (regs c 4 + frame_size self * 8) \<and> regs c' = (regs c)(4 := regs c 4 + frame_size self * 8 + 8)))"
proof -
  let ?f = "frame_size self"
  let ?bs = "increment_bytes 0x8348 0xc4 ?f"
  note w = write_return[OF assms(1)]
  have al: "(a + ?f * 8) AND 7 = a AND 7" for a
    using aligned_plus[of a "unat ?f"] by (simp add: mult.commute)
  have ret: "run [0xc3] c = Some (set_reg 4 (regs c 4 + 8) c\<lparr>rip := mem c (regs c 4)\<rparr>)"
    if "regs c 4 AND 7 = 0" for c
  proof -
    have "decode [0xc3] = Some (Return, [])" by (simp add: Let_def)
    from run_one[OF this] show ?thesis using that by (simp add: pop_def load_def set_reg_def)
  qed
  have "\<exists>c'. run (?bs @ [0xc3]) c = Some c' \<and> rip c' = mem c (regs c 4 + ?f * 8) \<and>
      regs c' = (regs c)(4 := regs c 4 + ?f * 8 + 8)" if "regs c 4 AND 7 = 0" for c
  proof (cases "?f = 0")
    case True
    then have "?bs = []" by (simp add: increment_bytes_def word_le_nat_alt)
    then show ?thesis using ret[OF that] True by (simp add: set_reg_def)
  next
    case False
    have "regs (set_reg 4 (regs c 4 + ?f * 8) (c\<lparr>rip := r\<rparr>)) 4 AND 7 = 0" for r
      using al[of "regs c 4"] that by (simp add: set_reg_def)
    from ret[OF this] show ?thesis
      using run_insn[OF add_rsp_decodes[OF assms(2) False], of "[0xc3]" c]
      by (simp add: exec_alu_def set_reg_def)
  qed
  then show ?thesis using w by blast
qed

theorem return_insn_correct_witness:
  "\<exists>bs c'. tc_write_return_insn (buffer 20 1 17) = seq (written (buffer 20 1 17) bs) (\<lambda>s. Ret (s\<lparr>next_register := 0\<rparr>)) \<and>
    run bs \<lparr>regs = (\<lambda>k. 800), mem = (\<lambda>a. a + 1), rip = 0, carry = False, zero = False\<rparr> = Some c' \<and> rip c' = 937"
  using return_insn_correct[OF buffer_ok, of 20 1 17]
  by (force dest: spec[of _ "\<lparr>regs = (\<lambda>k. 800), mem = (\<lambda>a. a + 1), rip = 0, carry = False, zero = False\<rparr>"])


text \<open>C15. Calls: for a function that is known and fewer than 8 saved registers,
  \<open>tc_write_call_insn\<close> appends a call of the function's address and then code that moves the
  result, if there is one, behind the saved registers and pops these; the stack pointer is again
  what it was before they were pushed.\<close>

theorem call_insn_correct:
  assumes "code_ok self" and "get_symbol self fn = Ret f" and "sym_kind f \<noteq> SYM_FORWARD_FN"
    and "get_symbol self (sym_type f) = Ret type" and "n < 8"
    and "fits32 (sym_value f - (dst self + 5))"
  shows "\<exists>bs cs. tc_write_call_insn self fn (of_nat n) = seq (written self bs)
      (\<lambda>s. Ret (s\<lparr>next_register := of_nat n + (if sym_kind type = SYM_VOID then 0 else 1),
        frame_size := frame_size self - of_nat n\<rparr>)) \<and>
    decode bs = Some (Call (sym_value f - (dst self + 5)), cs) \<and> length bs = 5 + length cs \<and>
    (\<forall>c. regs c 4 AND 7 \<noteq> 0 \<or> (\<exists>c'. run cs c = Some c' \<and> regs c' 4 = regs c 4 + of_nat (8 * n) \<and>
      mem c' = mem c \<and> list_all (\<lambda>k. regs c' (8 + k) = mem c (regs c 4 + of_nat (8 * k))) [0..<n] \<and>
      (sym_kind type = SYM_VOID \<or> regs c' (8 + n) = regs c 8)))"
proof -
  let ?r = "sym_kind type \<noteq> SYM_VOID" and ?d = "sym_value f - (dst self + 5)"
  have "length (call_bytes ?d n ?r) = 5 + length (after_call n ?r)" by (simp add: call_bytes_def)
  moreover have "regs c 4 AND 7 \<noteq> 0 \<or> (\<exists>c'. run (after_call n ?r) c = Some c' \<and> regs c' 4 = regs c 4 + of_nat (8 * n) \<and>
      mem c' = mem c \<and> list_all (\<lambda>k. regs c' (8 + k) = mem c (regs c 4 + of_nat (8 * k))) [0..<n] \<and>
      (sym_kind type = SYM_VOID \<or> regs c' (8 + n) = regs c 8))" for c
    using exec_after_call[OF assms(5), of c ?r] by blast
  ultimately show ?thesis
    using write_call[OF assms(1-5)] call_decodes[OF assms(6), of n ?r] by blast
qed

definition callee :: symbol where
  "callee = \<lparr>sym_name = 1, sym_length = 1, sym_kind = SYM_FN, sym_value = 5000, sym_type = 65600,
     sym_dim = 0, sym_next = 0\<rparr>"

definition callee_result :: symbol where
  "callee_result = \<lparr>sym_name = 0, sym_length = 0, sym_kind = SYM_VARIABLE, sym_value = 0, sym_type = 0,
     sym_dim = 0, sym_next = 0\<rparr>"

definition calling :: compiler where
  "calling = (buffer 20 2 2)\<lparr>cells := [65536 \<mapsto> Sym callee, 65600 \<mapsto> Sym callee_result]\<rparr>"

theorem call_insn_correct_witness:
  "\<exists>bs cs. tc_write_call_insn calling 65536 (of_nat 2) = seq (written calling bs)
      (\<lambda>s. Ret (s\<lparr>next_register := 3, frame_size := 0\<rparr>)) \<and> decode bs = Some (Call 899, cs)"
proof -
  have ok: "code_ok calling" using buffer_ok[of 20 2 2] by (simp add: calling_def)
  have g: "get_symbol calling 65536 = Ret callee" "sym_kind callee \<noteq> SYM_FORWARD_FN"
    "get_symbol calling (sym_type callee) = Ret callee_result"
    by (simp_all add: calling_def get_symbol_def callee_def kinds)
  have d: "sym_value callee - (dst calling + 5) = 899" "frame_size calling - of_nat 2 = 0"
    "(of_nat 2 :: u64) + (if sym_kind callee_result = SYM_VOID then 0 else 1) = 3"
    by (simp_all add: calling_def callee_def callee_result_def kinds)
  have f: "fits32 899" by (rule fits32_small) (simp add: less_u64)
  have two: "(2 :: nat) < 8" by simp
  show ?thesis using call_insn_correct[OF ok g two] f unfolding d by blast
qed

section \<open>The buffer is not left\<close>

text \<open>A result that appends to the code: nothing in front of \<open>dst\<close> or behind the new \<open>dst\<close> is changed;
  the only errors are a full buffer (1), no free register (105), or the ones listed.\<close>

definition appends :: "u64 list \<Rightarrow> compiler \<Rightarrow> compiler res \<Rightarrow> bool" where
  "appends errors self r = (case r of
     Ret s \<Rightarrow> code_ok s \<and> pos self \<le> pos s \<and> length (code s) = length (code self) \<and>
       take (pos self) (code s) = take (pos self) (code self) \<and> drop (pos s) (code s) = drop (pos s) (code self)
   | Panic e \<Rightarrow> e \<in> set errors
   | _ \<Rightarrow> False)"

lemma code_ok_cong:
  "code s = code t \<and> dst s = dst t \<and> code_base s = code_base t \<and> dst_limit s = dst_limit t \<Longrightarrow> code_ok s = code_ok t"
  by (simp add: code_ok_def)

lemma appends_written:
  assumes "code_ok self" and "1 \<in> set es"
    and "\<And>s. code (g s) = code s \<and> dst (g s) = dst s \<and> code_base (g s) = code_base s \<and> dst_limit (g s) = dst_limit s"
  shows "appends es self (seq (written self bs) (\<lambda>s. Ret (g s)))"
proof (cases "room (length bs) self")
  case True
  let ?s = "emit bs self"
  have r: "pos self + length bs \<le> length (code self)" using True by (simp add: room_def)
  have ok: "code_ok ?s" by (rule code_ok_emit[OF assms(1) True])
  have "code_ok (g ?s)" using ok code_ok_cong[of "g ?s" ?s] assms(3)[of ?s] by blast
  moreover have "pos (g ?s) = pos ?s" "code (g ?s) = code ?s"
    using assms(3)[of ?s] by (simp_all add: pos_def)
  moreover have "take (pos self) (code ?s) = take (pos self) (code self)"
    "drop (pos self + length bs) (code ?s) = drop (pos self + length bs) (code self)"
    using r by (simp_all add: emit_def blit_def)
  ultimately show ?thesis
    using room_emit[OF r assms(1)] True by (simp add: appends_def seq_written)
qed (use assms(2) in \<open>simp add: appends_def seq_written\<close>)

lemma appends_written_only: "code_ok self \<Longrightarrow> 1 \<in> set es \<Longrightarrow> appends es self (written self bs)"
  using appends_written[of self es "\<lambda>s. s" bs] by (cases "written self bs") simp_all

text \<open>Steps in sequence.\<close>

lemma appends_seq:
  assumes "appends es self r" and "\<And>s. r = Ret s \<Longrightarrow> code_ok s \<Longrightarrow> appends es s (f s)"
  shows "appends es self (seq r f)"
proof (cases r)
  case (Ret s)
  then have s: "code_ok s" "pos self \<le> pos s" "length (code s) = length (code self)"
    "take (pos self) (code s) = take (pos self) (code self)" "drop (pos s) (code s) = drop (pos s) (code self)"
    using assms(1) by (simp_all add: appends_def)
  have f: "appends es s (f s)" by (rule assms(2)[OF Ret s(1)])
  show ?thesis
  proof (cases "f s")
    case (Ret t)
    then have t: "code_ok t" "pos s \<le> pos t" "length (code t) = length (code s)"
      "take (pos s) (code t) = take (pos s) (code s)" "drop (pos t) (code t) = drop (pos t) (code s)"
      using f by (simp_all add: appends_def)
    have "take (pos self) (code t) = take (pos self) (code s)"
      using arg_cong[OF t(4), of "take (pos self)"] s(2) by (simp add: min_def)
    moreover have "drop (pos t) (code s) = drop (pos t) (code self)"
      using arg_cong[OF s(5), of "drop (pos t - pos s)"] t(2) by simp
    ultimately show ?thesis using s t \<open>r = Ret s\<close> Ret by (simp add: appends_def)
  qed (use f \<open>r = Ret s\<close> in \<open>simp_all add: appends_def\<close>)
qed (use assms(1) in \<open>simp_all add: appends_def\<close>)

lemma appends_more: "appends es self r \<Longrightarrow> set es \<subseteq> set es' \<Longrightarrow> appends es' self r"
  by (cases r) (auto simp: appends_def)

lemma appends_same:
  "code_ok self \<Longrightarrow> code s = code self \<and> dst s = dst self \<and> code_base s = code_base self \<and> dst_limit s = dst_limit self \<Longrightarrow>
   appends es self (Ret s)"
  using code_ok_cong[of s self] by (simp add: appends_def pos_def)

lemma appends_cong:
  "code s = code self \<and> dst s = dst self \<and> code_base s = code_base self \<Longrightarrow> appends es s r \<Longrightarrow> appends es self r"
  by (cases r) (auto simp: appends_def pos_def)

lemma appends_writes:
  assumes "code_ok self"
  shows "appends [1] self (tc_write8 self v)" "appends [1] self (tc_write16 self v)" "appends [1] self (tc_write24 self v w)"
    "appends [1] self (tc_write32 self v)"
  using assms by (simp_all add: tc_write8 tc_write16 tc_write24 tc_write32 appends_written_only)

lemma appends_placeholder: "code_ok self \<Longrightarrow> appends [1] self (seq (tc_write_placeholder self p) (\<lambda>(p, s). Ret s))"
  by (simp add: tc_write_placeholder_def Let_def seq_assoc appends_seq appends_writes appends_same)

lemma appends_jump:
  assumes "code_ok self" and "token \<in> set comparison_tokens"
  shows "appends [1] self (seq (tc_write_jump_insn self token p) (\<lambda>(p, s). Ret s))"
proof -
  have "unat (token - TC_LT) < length JUMP_INSTRUCTIONS"
    using assms(2) by (auto simp: comparison_tokens_def TC_LT_def JUMP_INSTRUCTIONS_def)
  then have j: "load8 JUMP_INSTRUCTIONS (unat (token - TC_LT)) = Ret (ucast (JUMP_INSTRUCTIONS ! unat (token - TC_LT)))"
    by (simp add: load8_def)
  have "appends [1] s (seq (tc_write_placeholder s p) (\<lambda>(p, s). Ret (s\<lparr>next_register := 0\<rparr>)))" if "code_ok s" for s
    using appends_seq[OF appends_placeholder[OF that], of p "\<lambda>s. Ret (s\<lparr>next_register := 0\<rparr>)"]
    by (simp add: seq_assoc case_prod_beta' appends_same)
  then show ?thesis
    using assms(1) by (simp add: tc_write_jump_insn_def j seq_assoc case_prod_beta' appends_seq appends_writes)
qed

lemma appends_pops: "code_ok self \<Longrightarrow> appends [1] self (tc_restore_registers_loop self n z)"
proof (induction self n z rule: tc_restore_registers_loop.induct)
  case (1 self n z)
  then show ?case
    by (subst tc_restore_registers_loop.simps) (auto intro!: appends_seq appends_writes appends_same)
qed

lemma appends_call:
  assumes "code_ok self" and "get_symbol self fn = Ret f" and "get_symbol self (sym_type f) = Ret type"
  shows "appends [1, 108] self (tc_write_call_insn self fn n)"
proof -
  let ?link = "\<lambda>s. if sym_kind f = SYM_FORWARD_FN
      then seq (tc_write_placeholder s (sym_value f)) (\<lambda>(placeholder, s). Ret (put_symbol s fn (f\<lparr>sym_value := placeholder\<rparr>)))
      else tc_write32 s (sym_value f - (dst s + 4))"
  let ?result = "\<lambda>s type. if sym_kind type \<noteq> SYM_VOID
      then seq (if n \<noteq> 0 then tc_write24 s 0x894d (0xc0 OR n) else Ret s) (\<lambda>s.
        if n \<ge> MAX_REGISTERS then Panic 108 else Ret (s\<lparr>next_register := n + 1\<rparr>))
      else Ret (s\<lparr>next_register := n\<rparr>)"
  let ?pops = "\<lambda>s. tc_restore_registers_loop (s\<lparr>frame_size := frame_size s - n\<rparr>) n 0"
  have pops: "appends [1, 108] s (?pops s)" if ok: "code_ok s" for s
  proof (rule appends_cong)
    have "code_ok (s\<lparr>frame_size := frame_size s - n\<rparr>)" using ok code_ok_cong[of "s\<lparr>frame_size := frame_size s - n\<rparr>" s] by simp
    from appends_more[OF appends_pops[OF this]]
    show "appends [1, 108] (s\<lparr>frame_size := frame_size s - n\<rparr>) (?pops s)" by simp
  qed simp
  have more: "appends [1, 108] s r" if "appends [1] s r" for s r using appends_more[OF that] by simp
  have panic: "appends [1, 108] s (Panic 108)" for s by (simp add: appends_def)
  have result: "appends [1, 108] s (seq (?result s t) ?pops)" if ok: "code_ok s" for s t
  proof (rule appends_seq[OF _ pops])
    have "appends [1, 108] s (if n \<noteq> 0 then tc_write24 s 0x894d (0xc0 OR n) else Ret s)"
      using ok by (simp add: more appends_writes appends_same)
    then have "appends [1, 108] s (seq (if n \<noteq> 0 then tc_write24 s 0x894d (0xc0 OR n) else Ret s) (\<lambda>s.
        if n \<ge> MAX_REGISTERS then Panic 108 else Ret (s\<lparr>next_register := n + 1\<rparr>)))"
      by (rule appends_seq) (simp add: panic appends_same)
    then show "appends [1, 108] s (?result s t)" using ok by (simp add: appends_same)
  qed
  have syms: "\<exists>t. get_symbol s (sym_type f) = Ret t" if "cells s = cells self \<or> (\<exists>g. cells s = (cells self)(fn \<mapsto> Sym g))" for s
    using that assms(2,3) by (cases "sym_type f = fn") (auto simp: get_symbol_def split: option.splits cell.splits)
  have link: "appends [1, 108] s (seq (?link s) (\<lambda>s. seq (get_symbol s (sym_type f)) (\<lambda>type. seq (?result s type) ?pops)))"
    if ok: "code_ok s" and c: "cells s = cells self" for s
  proof (cases "sym_kind f = SYM_FORWARD_FN")
    case True
    let ?last = "if sym_value f = 0 then dst s else sym_value f"
    let ?put = "\<lambda>t. put_symbol t fn (f\<lparr>sym_value := dst s\<rparr>)"
    have "appends [1, 108] s (seq (tc_write32 s (dst s - ?last)) (\<lambda>t. seq (get_symbol (?put t) (sym_type f))
        (\<lambda>type. seq (?result (?put t) type) ?pops)))"
    proof (rule appends_seq[OF more[OF appends_writes(4)[OF ok]]])
      fix t assume t: "tc_write32 s (dst s - ?last) = Ret t" "code_ok t"
      have "cells t = cells self" using t(1) ok c by (auto simp: tc_write32 written_def emit_def split: if_splits)
      then obtain r where r: "get_symbol (?put t) (sym_type f) = Ret r" using syms[of "?put t"] by (auto simp: put_symbol_def)
      have "code_ok (?put t)" using t(2) code_ok_cong[of "?put t" t] by (simp add: put_symbol_def)
      then have "appends [1, 108] (?put t) (seq (?result (?put t) r) ?pops)" by (rule result)
      from appends_cong[OF _ this, of t] have "appends [1, 108] t (seq (?result (?put t) r) ?pops)" by (simp add: put_symbol_def)
      then show "appends [1, 108] t (seq (get_symbol (?put t) (sym_type f)) (\<lambda>type. seq (?result (?put t) type) ?pops))"
        by (simp only: r seq.simps)
    qed
    then show ?thesis using True by (simp add: tc_write_placeholder_def Let_def seq_assoc)
  next
    case False
    have "appends [1, 108] s (seq (tc_write32 s v) (\<lambda>t. seq (get_symbol t (sym_type f)) (\<lambda>type. seq (?result t type) ?pops)))" for v
    proof (rule appends_seq[OF more[OF appends_writes(4)[OF ok]]])
      fix t assume t: "tc_write32 s v = Ret t" "code_ok t"
      have "cells t = cells self" using t(1) ok c by (auto simp: tc_write32 written_def emit_def split: if_splits)
      then obtain r where r: "get_symbol t (sym_type f) = Ret r" using syms by blast
      show "appends [1, 108] t (seq (get_symbol t (sym_type f)) (\<lambda>type. seq (?result t type) ?pops))"
        using result[OF t(2)] by (simp only: r seq.simps)
    qed
    then show ?thesis using False by simp
  qed
  show ?thesis
    unfolding tc_write_call_insn_def
  proof (rule appends_seq[OF more[OF appends_writes(1)[OF assms(1)]]])
    fix s assume s: "tc_write8 self 0xe8 = Ret s" "code_ok s"
    have c: "cells s = cells self" using s(1) assms(1) by (auto simp: tc_write8 written_def emit_def split: if_splits)
    then have g: "get_symbol s fn = Ret f" using assms(2) by (simp add: get_symbol_def)
    show "appends [1, 108] s (seq (get_symbol s fn) (\<lambda>f. seq (if sym_kind f = SYM_FORWARD_FN
          then seq (tc_write_placeholder s (sym_value f)) (\<lambda>(placeholder, s). Ret (put_symbol s fn (f\<lparr>sym_value := placeholder\<rparr>)))
          else tc_write32 s (sym_value f - (dst s + 4))) (\<lambda>s. seq (get_symbol s (sym_type f)) (\<lambda>type. seq (?result s type) ?pops))))"
      using link[OF s(2) c] by (simp only: g seq.simps)
  qed
qed

text \<open>C33. Safety of the back end: every function of \<open>backend.c\<close> that writes an instruction stores only
  between the old and the new \<open>dst\<close>, inside the code buffer, and never faults, in any state whose
  \<open>dst\<close> is in the buffer: for any arguments, except that a jump needs the token of a comparison, and a
  call the symbols of a function and of its type. It returns or stops with error 1 (the buffer is
  full), 105 (no register is free), 107 (too many parameters) or 108 (too many saved registers). The
  functions that erase an instruction leave a state with \<open>dst\<close> in the buffer when \<open>dst_mark\<close> is in front
  of \<open>dst\<close>; otherwise they may not.\<close>

theorem backend_stays_in_buffer:
  assumes "code_ok self"
  shows "appends [1, 105] self (tc_write_cst_insn self v) \<and>
    appends [1, 105] self (tc_write_static_insn self v) \<and>
    appends [1] self (tc_write_binary_insn self v) \<and>
    (token \<in> set comparison_tokens \<longrightarrow> appends [1] self (seq (tc_write_jump_insn self token v) (\<lambda>(placeholder, s). Ret s))) \<and>
    appends [1] self (seq (tc_write_goto_insn self v) (\<lambda>(placeholder, s). Ret s)) \<and>
    appends [1] self (tc_write_loop_insn self v) \<and>
    appends [1] self (tc_write_load_insn self v) \<and>
    appends [1] self (tc_write_store_insn self v) \<and>
    appends [1] self (tc_write_address_of_insn self v) \<and>
    appends [1, 105] self (tc_write_ptr_insn self v) \<and>
    appends [1, 105] self (tc_write_get_insn self v) \<and>
    appends [1] self (tc_write_set_insn self v) \<and>
    appends [1] self (tc_save_registers self v) \<and>
    appends [1, 107] self (tc_write_fn_insn self v) \<and>
    (get_symbol self fn = Ret f \<and> get_symbol self (sym_type f) = Ret type \<longrightarrow>
      appends [1, 108] self (tc_write_call_insn self fn v)) \<and>
    appends [1] self (tc_write_return_insn self) \<and>
    (code_base self \<le> dst_mark self \<and> dst_mark self \<le> dst self \<longrightarrow>
      code_ok (tc_erase_load_insn self) \<and> code_ok (tc_erase_get_insn self) \<and>
      code (tc_erase_load_insn self) = code self \<and> code (tc_erase_get_insn self) = code self)"
proof -
  have p: "appends es self (Panic e)" if "e \<in> set es" for e es using that by (simp add: appends_def)
  have ret: "seq (written self bs) (\<lambda>s. seq (tc_write8 s d) (\<lambda>s. Ret (s\<lparr>next_register := 0\<rparr>))) =
      seq (written self (bs @ [ucast d])) (\<lambda>s. Ret (s\<lparr>next_register := 0\<rparr>))" for bs d
    by (rule two_parts[OF assms]) (simp add: tc_write8)
  have fn: "appends [1, 107] self (tc_save_registers (self\<lparr>frame_size := 0\<rparr>) v)"
    using write_save[of "self\<lparr>frame_size := 0\<rparr>" v] assms
    by (simp add: written_fields seq_assoc appends_written)
  have "appends [1, 105] self (tc_write_cst_insn self v) \<and> appends [1, 105] self (tc_write_static_insn self v) \<and>
    appends [1, 105] self (tc_write_ptr_insn self v) \<and> appends [1, 105] self (tc_write_get_insn self v)"
  proof (cases "next_register self < 8")
    case True
    then show ?thesis
      using assms by (simp add: write_cst write_static write_ptr write_get appends_written)
  next
    case False
    then show ?thesis
      by (simp add: tc_write_cst_insn_def tc_write_static_insn_def tc_write_ptr_insn_def tc_write_get_insn_def
          no_register p)
  qed
  moreover have "appends [1] self (seq (tc_write_goto_insn self v) (\<lambda>(placeholder, s). Ret s))"
    using assms by (simp add: tc_write_goto_insn_def seq_assoc appends_seq appends_writes appends_placeholder)
  moreover have "code_ok (tc_erase_load_insn self) \<and> code_ok (tc_erase_get_insn self)"
    if "code_base self \<le> dst_mark self \<and> dst_mark self \<le> dst self"
    using that assms by (auto simp: code_ok_def tc_erase_load_insn_def tc_erase_get_insn_def)
  ultimately show ?thesis
    using assms fn appends_jump[OF assms, of token] appends_call[OF assms, of fn f type v]
    by (simp add: write_binary write_load write_store write_set write_save write_loop tc_write_address_of_insn_def
        write_increment tc_write_return_insn_def ret Let_def tc_write_fn_insn_def p appends_written appends_written_only
        tc_erase_load_insn_def tc_erase_get_insn_def)
qed

theorem backend_stays_in_buffer_witness:
  "appends [1, 105] calling (tc_write_cst_insn calling 5) \<and> appends [1, 108] calling (tc_write_call_insn calling 65536 5) \<and>
   appends [1] calling (seq (tc_write_jump_insn calling TC_GE 5) (\<lambda>(placeholder, s). Ret s))"
proof -
  have "code_ok calling" using buffer_ok[of 20 2 2] by (simp add: calling_def)
  moreover have "TC_GE \<in> set comparison_tokens" by (simp add: comparison_tokens_def TC_GE_def)
  moreover have "get_symbol calling 65536 = Ret callee" "get_symbol calling (sym_type callee) = Ret callee_result"
    by (simp_all add: calling_def get_symbol_def callee_def)
  ultimately show ?thesis using backend_stays_in_buffer[of calling 5 TC_GE 65536 callee callee_result] by simp
qed

end
