(* ===== verification/Tc_Symbols.thy ===== *)
theory Tc_Symbols
  imports Tc_Backend Tc_Scanner
begin

text \<open>
  The first part of \<open>tools/toyc/parser.c\<close>: the symbol table and the stack of values, which share the
  heap, the token-level functions, and types.

  \<^item> Symbols and values are cells of the heap; \<open>alignedsizeof\<close> gives 64 bytes for a \<open>Symbol\<close> and 32
    for a \<open>Value\<close> (\<open>sizeof(max_align_t)\<close> is 32 on x86-64). Writing a cell destroys the cells that it
    overlaps, so a pointer to a freed cell that has been overwritten faults.
  \<^item> A list of symbols is followed towards lower addresses, since a symbol is always put in front of
    older ones; a \<open>next\<close> that does not go down is \<open>OutOfFuel\<close>, and the termination theorem shows
    that there is none.
  \<^item> Out-parameters are results: \<open>length_p\<close> and \<open>dim\<close> are returned next to the value of the function.
    A popped value is returned as its contents; no cell is written before the last use of one.
\<close>

section \<open>Loops\<close>

text \<open>\<open>while (c) b\<close>, with a bound on the number of iterations.\<close>

primrec while_do :: "nat \<Rightarrow> ('s \<Rightarrow> bool) \<Rightarrow> ('s \<Rightarrow> 's res) \<Rightarrow> 's \<Rightarrow> 's res" where
  "while_do 0 c b s = (if c s then OutOfFuel else Ret s)"
| "while_do (Suc fuel) c b s = (if c s then seq (b s) (while_do fuel c b) else Ret s)"

section \<open>The heap\<close>

definition SYMBOL_SIZE :: u64 where "SYMBOL_SIZE = 64"
definition VALUE_SIZE :: u64 where "VALUE_SIZE = 32"

fun cell_size :: "cell \<Rightarrow> u64" where
  "cell_size (Sym s) = SYMBOL_SIZE"
| "cell_size (Val v) = VALUE_SIZE"

definition heap_allocate :: "compiler \<Rightarrow> u64 \<Rightarrow> (u64 \<times> compiler) res" where
  "heap_allocate self sz =
     seq (mem_allocate sz (heap self) (heap_limit self)) (\<lambda>(p, h). Ret (p, self\<lparr>heap := h\<rparr>))"

definition put_cell :: "compiler \<Rightarrow> u64 \<Rightarrow> cell \<Rightarrow> compiler" where
  "put_cell self p c =
     self\<lparr>cells := (\<lambda>x. case cells self x of None \<Rightarrow> None
         | Some d \<Rightarrow> if x - p < cell_size c \<or> p - x < cell_size d then None else Some d)(p \<mapsto> c)\<rparr>"

definition get_value :: "compiler \<Rightarrow> u64 \<Rightarrow> val res" where
  "get_value self p = (case cells self p of Some (Val v) \<Rightarrow> Ret v | _ \<Rightarrow> Fault)"

section \<open>The symbol table\<close>

function sym_lookup :: "compiler \<Rightarrow> u64 \<Rightarrow> u64 \<Rightarrow> u64 \<Rightarrow> u64 res" where
  "sym_lookup self p name len =
     (if p \<noteq> 0
      then seq (get_symbol self p) (\<lambda>s.
        seq (if sym_length s = len
             then seq (mem_compare (source self) (unat (sym_name s)) (source self) (unat name) len)
               (\<lambda>c. Ret (c = 0))
             else Ret False) (\<lambda>found.
        if found then Ret p
        else if sym_next s < p then sym_lookup self (sym_next s) name len
        else OutOfFuel))
      else Ret 0)"
  by pat_completeness auto
termination
  by (relation "measure (\<lambda>(_, p, _). unat p)") (auto simp: less_u64)

declare sym_lookup.simps [simp del]

definition tc_new_symbol ::
    "compiler \<Rightarrow> u64 \<Rightarrow> u64 \<Rightarrow> u64 \<Rightarrow> u64 \<Rightarrow> u64 \<Rightarrow> u64 \<Rightarrow> u64 \<Rightarrow> (u64 \<times> compiler) res" where
  "tc_new_symbol self name len kind v type dim nxt =
     seq (heap_allocate self SYMBOL_SIZE) (\<lambda>(p, self).
     seq (sym_lookup self nxt name len) (\<lambda>old.
     if old \<noteq> 0 then Panic 30
     else Ret (p, put_cell self p (Sym
       \<lparr>sym_name = name, sym_length = len, sym_kind = kind, sym_value = v, sym_type = type,
        sym_dim = dim, sym_next = nxt\<rparr>))))"

definition tc_add_symbol ::
    "compiler \<Rightarrow> u64 \<Rightarrow> u64 \<Rightarrow> u64 \<Rightarrow> u64 \<Rightarrow> u64 \<Rightarrow> u64 \<Rightarrow> (u64 \<times> compiler) res" where
  "tc_add_symbol self name len kind v type dim =
     seq (tc_new_symbol self name len kind v type dim (symbols self)) (\<lambda>(p, self).
     Ret (p, self\<lparr>symbols := p\<rparr>))"

definition tc_add_or_resolve_fn_symbol :: "compiler \<Rightarrow> u64 \<Rightarrow> u64 \<Rightarrow> u64 \<Rightarrow> (u64 \<times> compiler) res" where
  "tc_add_or_resolve_fn_symbol self name len v =
     seq (sym_lookup self (symbols self) name len) (\<lambda>p.
     if p = 0 then tc_add_symbol self name len SYM_FN v 0 0
     else seq (get_symbol self p) (\<lambda>s.
       if sym_kind s \<noteq> SYM_FORWARD_FN then Panic 31
       else seq (tc_fill_placeholders self (sym_value s) v) (\<lambda>self.
         Ret (p, put_symbol self p (s\<lparr>sym_kind := SYM_FN, sym_value := v\<rparr>)))))"

section \<open>Tokens\<close>

definition tc_parse_token :: "compiler \<Rightarrow> u64 \<Rightarrow> compiler res" where
  "tc_parse_token self token = (if next_token self \<noteq> token then Panic 20 else tc_read_token self)"

definition tc_parse_integer :: "compiler \<Rightarrow> (u64 \<times> compiler) res" where
  "tc_parse_integer self =
     (if next_token self \<noteq> TC_INTEGER then Panic 21
      else let value = next_token_data self in seq (tc_read_token self) (\<lambda>self. Ret (value, self)))"

text \<open>The name, its length, and the state.\<close>

definition tc_parse_identifier :: "compiler \<Rightarrow> (u64 \<times> u64 \<times> compiler) res" where
  "tc_parse_identifier self =
     (if next_token self \<noteq> TC_IDENTIFIER then Panic 22
      else let name = next_token_data self; len = next_token_length self in
        seq (tc_read_token self) (\<lambda>self. Ret (name, len, self)))"

definition tc_parse_symbol :: "compiler \<Rightarrow> u64 \<Rightarrow> (u64 \<times> compiler) res" where
  "tc_parse_symbol self syms =
     seq (tc_parse_identifier self) (\<lambda>(name, len, self).
     seq (sym_lookup self syms name len) (\<lambda>p.
     if p = 0 then Panic 33 else Ret (p, self)))"

text \<open>The type, its dimension, and the state.\<close>

definition tc_parse_type :: "nat \<Rightarrow> compiler \<Rightarrow> (u64 \<times> u64 \<times> compiler) res" where
  "tc_parse_type fuel self =
     seq (while_do fuel (\<lambda>(dim, self). next_token self = TC_BIT_AND \<or> next_token self = TC_AND)
       (\<lambda>(dim, self). let dim = dim + 1; dim = (if next_token self = TC_AND then dim + 1 else dim) in
         seq (tc_read_token self) (\<lambda>self. Ret (dim, self))) (0, self)) (\<lambda>(dim, self).
     if next_token self = TC_U32 then seq (tc_read_token self) (\<lambda>self. Ret (0, dim, self))
     else seq (tc_parse_symbol self (symbols self)) (\<lambda>(p, self).
       seq (get_symbol self p) (\<lambda>s.
       if dim = 0 \<or> sym_kind s \<noteq> SYM_STRUCT then Panic 42 else Ret (p, dim, self))))"

section \<open>Values\<close>

definition FROM_ADDRESS :: u64 where "FROM_ADDRESS = 0"
definition FROM_VARIABLE :: u64 where "FROM_VARIABLE = 1"
definition FROM_NULL :: u64 where "FROM_NULL = 2"
definition FROM_VOID :: u64 where "FROM_VOID = 3"
definition FROM_OTHER :: u64 where "FROM_OTHER = 255"

definition value_type_check :: "val \<Rightarrow> u64 \<Rightarrow> u64 \<Rightarrow> unit res" where
  "value_type_check value type dim =
     (if val_origin value = FROM_NULL \<and> dim \<noteq> 0 then Ret ()
      else if val_type value \<noteq> type \<or> val_dim value \<noteq> dim then Panic 43
      else Ret ())"

definition value_check :: "val \<Rightarrow> symbol \<Rightarrow> unit res" where
  "value_check value s = value_type_check value (sym_type s) (sym_dim s)"

definition tc_push_value :: "compiler \<Rightarrow> u64 \<Rightarrow> u64 \<Rightarrow> u64 \<Rightarrow> u64 \<Rightarrow> compiler res" where
  "tc_push_value self origin slot type dim =
     seq (heap_allocate self VALUE_SIZE) (\<lambda>(p, self).
     if dim = 0 \<and> type \<noteq> 0 then Panic 44
     else Ret (put_cell self p (Val
       \<lparr>val_origin = origin, val_slot = slot, val_type = type, val_dim = dim\<rparr>)))"

definition tc_push_symbol_value :: "compiler \<Rightarrow> u64 \<Rightarrow> compiler res" where
  "tc_push_symbol_value self p =
     seq (get_symbol self p) (\<lambda>s.
     let origin = (if sym_kind s = SYM_FIELD then FROM_ADDRESS
                   else if sym_kind s = SYM_VARIABLE then FROM_VARIABLE
                   else if sym_kind s = SYM_VOID then FROM_VOID
                   else FROM_OTHER) in
     if sym_kind s = SYM_FN then tc_push_value self origin (sym_value s) 0 0
     else tc_push_value self origin (sym_value s) (sym_type s) (sym_dim s))"

definition tc_top_value :: "compiler \<Rightarrow> val res" where
  "tc_top_value self = get_value self (heap self - VALUE_SIZE)"

definition tc_pop_value_or_void :: "compiler \<Rightarrow> (val \<times> compiler) res" where
  "tc_pop_value_or_void self =
     (let self = self\<lparr>heap := heap self - VALUE_SIZE\<rparr> in
      seq (get_value self (heap self)) (\<lambda>value. Ret (value, self)))"

definition tc_pop_value :: "compiler \<Rightarrow> (val \<times> compiler) res" where
  "tc_pop_value self =
     seq (tc_pop_value_or_void self) (\<lambda>(value, self).
     if val_origin value = FROM_VOID then Panic 45 else Ret (value, self))"

end
