(* ===== verification/Tc_Expressions.thy ===== *)
theory Tc_Expressions
  imports Tc_Symbols
begin

text \<open>
  Expressions, the second part of \<open>tools/toyc/parser.c\<close>: a one-pass recursive-descent parser that
  checks the types on the stack of values and writes the code as it goes. \<open>tc_parse_expr\<close> calls itself
  only through the functions below it, so each of these takes it as a parameter (\<open>parse_expr\<close>); the
  knot is tied by recursion on the fuel, which also bounds the loops.
\<close>

section \<open>Calls and primitive expressions\<close>

function tc_check_fn_arguments_loop :: "compiler \<Rightarrow> u64 \<Rightarrow> u64 \<Rightarrow> (u64 \<times> u64 \<times> compiler) res" where
  "tc_check_fn_arguments_loop self parameter argument_count =
     (if parameter \<noteq> 0 \<and> argument_count \<noteq> 0
      then seq (tc_pop_value self) (\<lambda>(value, self).
        seq (get_symbol self parameter) (\<lambda>s.
        seq (value_check value s) (\<lambda>_.
        tc_check_fn_arguments_loop self (sym_next s) (argument_count - 1))))
      else Ret (parameter, argument_count, self))"
  by pat_completeness auto
termination
  by (relation "measure (\<lambda>(_, _, n). unat n)") (auto simp: word_gt_0 measure_unat)

declare tc_check_fn_arguments_loop.simps [simp del]

definition tc_check_fn_arguments :: "compiler \<Rightarrow> u64 \<Rightarrow> u64 \<Rightarrow> compiler res" where
  "tc_check_fn_arguments self fn argument_count =
     seq (get_symbol self fn) (\<lambda>f.
     seq (get_symbol self (sym_type f)) (\<lambda>r.
     seq (tc_check_fn_arguments_loop self (sym_next r) argument_count) (\<lambda>(parameter, argument_count, self).
     if parameter \<noteq> 0 \<or> argument_count \<noteq> 0 then Panic 46
     else tc_push_symbol_value self (sym_type f))))"

definition tc_parse_fn_arguments ::
    "(compiler \<Rightarrow> compiler res) \<Rightarrow> nat \<Rightarrow> compiler \<Rightarrow> u64 \<Rightarrow> compiler res" where
  "tc_parse_fn_arguments parse_expr fuel self fn =
     seq (get_symbol self fn) (\<lambda>f.
     if sym_kind f \<noteq> SYM_FN \<and> sym_kind f \<noteq> SYM_FORWARD_FN then Panic 34
     else seq (tc_parse_token self 40) (\<lambda>self.
       let saved = next_register self in
       seq (if saved \<noteq> 0 then tc_save_registers self saved else Ret self) (\<lambda>self.
       seq (while_do fuel (\<lambda>(argument_count, self). next_token self \<noteq> 41)
         (\<lambda>(argument_count, self).
           seq (if argument_count > 0 then tc_parse_token self 44 else Ret self) (\<lambda>self.
           seq (parse_expr self) (\<lambda>self. Ret (argument_count + 1, self)))) (0, self))
         (\<lambda>(argument_count, self).
       seq (tc_read_token self) (\<lambda>self.
       seq (tc_check_fn_arguments self fn argument_count) (\<lambda>self.
       tc_write_call_insn self fn saved))))))"

definition tc_parse_sizeof_expr :: "compiler \<Rightarrow> compiler res" where
  "tc_parse_sizeof_expr self =
     seq (tc_parse_token self TC_SIZEOF) (\<lambda>self.
     seq (tc_parse_token self 40) (\<lambda>self.
     seq (tc_parse_symbol self (symbols self)) (\<lambda>(p, self).
     seq (get_symbol self p) (\<lambda>s.
     if sym_kind s \<noteq> SYM_STRUCT then Panic 47
     else seq (tc_push_value self FROM_OTHER 0 0 0) (\<lambda>self.
       seq (tc_write_cst_insn self (sym_value s * 8)) (\<lambda>self.
       tc_parse_token self 41))))))"

definition tc_parse_symbol_expr ::
    "(compiler \<Rightarrow> compiler res) \<Rightarrow> nat \<Rightarrow> compiler \<Rightarrow> compiler res" where
  "tc_parse_symbol_expr parse_expr fuel self =
     seq (tc_parse_symbol self (symbols self)) (\<lambda>(p, self).
     if next_token self = 40 then tc_parse_fn_arguments parse_expr fuel self p
     else seq (tc_push_symbol_value self p) (\<lambda>self.
       seq (get_symbol self p) (\<lambda>s.
       if sym_kind s = SYM_VARIABLE then tc_write_get_insn self (sym_value s)
       else if sym_kind s = SYM_CONST then tc_write_cst_insn self (sym_value s)
       else if sym_kind s = SYM_STATIC \<or> sym_kind s = SYM_FN then tc_write_static_insn self (sym_value s)
       else Panic 35)))"

definition tc_parse_primitive_expr ::
    "(compiler \<Rightarrow> compiler res) \<Rightarrow> nat \<Rightarrow> compiler \<Rightarrow> compiler res" where
  "tc_parse_primitive_expr parse_expr fuel self =
     (if next_token self = TC_INTEGER
      then seq (tc_push_value self FROM_OTHER 0 0 0) (\<lambda>self.
        seq (tc_parse_integer self) (\<lambda>(v, self). tc_write_cst_insn self v))
      else if next_token self = TC_IDENTIFIER then tc_parse_symbol_expr parse_expr fuel self
      else if next_token self = TC_SIZEOF then tc_parse_sizeof_expr self
      else if next_token self = TC_NULL
      then seq (tc_read_token self) (\<lambda>self.
        seq (tc_push_value self FROM_NULL 0 0 0) (\<lambda>self. tc_write_cst_insn self 0))
      else seq (tc_parse_token self 40) (\<lambda>self.
        seq (parse_expr self) (\<lambda>self. tc_parse_token self 41)))"

section \<open>Paths, pointers and casts\<close>

definition tc_parse_path_expr :: "(compiler \<Rightarrow> compiler res) \<Rightarrow> nat \<Rightarrow> compiler \<Rightarrow> compiler res" where
  "tc_parse_path_expr parse_expr fuel self =
     seq (tc_parse_primitive_expr parse_expr fuel self) (\<lambda>self.
     while_do fuel (\<lambda>self. next_token self = 46) (\<lambda>self.
       seq (tc_read_token self) (\<lambda>self.
       seq (tc_pop_value self) (\<lambda>(value, self).
       if val_type value = 0 \<or> val_dim value \<noteq> 1 then Panic 48
       else seq (get_symbol self (val_type value)) (\<lambda>type.
         seq (tc_parse_symbol self (sym_type type)) (\<lambda>(field, self).
         seq (tc_push_symbol_value self field) (\<lambda>self.
         seq (get_symbol self field) (\<lambda>f. tc_write_load_insn self (sym_value f)))))))) self)"

fun tc_parse_pointer_expr :: "(compiler \<Rightarrow> compiler res) \<Rightarrow> nat \<Rightarrow> compiler \<Rightarrow> compiler res" where
  "tc_parse_pointer_expr parse_expr 0 self = OutOfFuel"
| "tc_parse_pointer_expr parse_expr (Suc fuel) self =
     (if next_token self = TC_MUL
      then seq (tc_read_token self) (\<lambda>self.
        seq (tc_parse_pointer_expr parse_expr fuel self) (\<lambda>self.
        seq (tc_pop_value self) (\<lambda>(value, self).
        if val_dim value = 0 then Panic 49
        else seq (tc_push_value self FROM_ADDRESS 0 (val_type value) (val_dim value - 1)) (\<lambda>self.
          tc_write_load_insn self 0))))
      else if next_token self = TC_BIT_AND
      then seq (tc_read_token self) (\<lambda>self.
        seq (tc_parse_path_expr parse_expr fuel self) (\<lambda>self.
        seq (tc_pop_value self) (\<lambda>(value, self).
        seq (if val_origin value = FROM_ADDRESS
             then tc_write_address_of_insn (tc_erase_load_insn self) (val_slot value)
             else if val_origin value = FROM_VARIABLE
             then tc_write_ptr_insn (tc_erase_get_insn self) (val_slot value)
             else Panic 36) (\<lambda>self.
        tc_push_value self FROM_OTHER 0 (val_type value) (val_dim value + 1)))))
      else tc_parse_path_expr parse_expr fuel self)"

definition tc_parse_cast_expr :: "(compiler \<Rightarrow> compiler res) \<Rightarrow> nat \<Rightarrow> compiler \<Rightarrow> compiler res" where
  "tc_parse_cast_expr parse_expr fuel self =
     seq (tc_parse_pointer_expr parse_expr fuel self) (\<lambda>self.
     if next_token self \<noteq> TC_AS then Ret self
     else seq (tc_read_token self) (\<lambda>self.
       seq (tc_pop_value self) (\<lambda>(value, self).
       let origin = (if val_origin value = FROM_NULL then FROM_OTHER else val_origin value) in
       seq (tc_parse_type fuel self) (\<lambda>(type, dim, self).
       tc_push_value self origin 0 type dim))))"

section \<open>Operators\<close>

definition tc_check_integer_expr :: "compiler \<Rightarrow> compiler res" where
  "tc_check_integer_expr self =
     seq (tc_pop_value self) (\<lambda>(right_value, self).
     seq (tc_pop_value self) (\<lambda>(left_value, self).
     if val_type left_value \<noteq> 0 \<or> val_dim left_value \<noteq> 0 then Panic 50
     else if val_type right_value \<noteq> 0 \<or> val_dim right_value \<noteq> 0 then Panic 51
     else tc_push_value self FROM_OTHER 0 0 0))"

definition tc_check_add_or_sub_expr :: "compiler \<Rightarrow> u64 \<Rightarrow> compiler res" where
  "tc_check_add_or_sub_expr self token =
     seq (tc_pop_value self) (\<lambda>(right_value, self).
     seq (tc_pop_value self) (\<lambda>(left_value, self).
     if val_dim right_value = 0
     then tc_push_value self FROM_OTHER 0 (val_type left_value) (val_dim left_value)
     else if token = TC_SUB \<and> val_dim left_value \<noteq> 0
     then if val_type left_value \<noteq> val_type right_value then Panic 52
       else if val_dim left_value \<noteq> val_dim right_value then Panic 52
       else tc_push_value self FROM_OTHER 0 0 0
     else Panic 53))"

definition tc_parse_mult_expr :: "(compiler \<Rightarrow> compiler res) \<Rightarrow> nat \<Rightarrow> compiler \<Rightarrow> compiler res" where
  "tc_parse_mult_expr parse_expr fuel self =
     seq (tc_parse_cast_expr parse_expr fuel self) (\<lambda>self.
     seq (while_do fuel (\<lambda>(token, self). token = TC_MUL \<or> token = TC_DIV) (\<lambda>(token, self).
       seq (tc_read_token self) (\<lambda>self.
       seq (tc_parse_cast_expr parse_expr fuel self) (\<lambda>self.
       seq (tc_check_integer_expr self) (\<lambda>self.
       seq (tc_write_binary_insn self token) (\<lambda>self. Ret (next_token self, self))))))
       (next_token self, self)) (\<lambda>(token, self). Ret self))"

definition tc_parse_add_expr :: "(compiler \<Rightarrow> compiler res) \<Rightarrow> nat \<Rightarrow> compiler \<Rightarrow> compiler res" where
  "tc_parse_add_expr parse_expr fuel self =
     seq (tc_parse_mult_expr parse_expr fuel self) (\<lambda>self.
     seq (while_do fuel (\<lambda>(token, self). token = TC_ADD \<or> token = TC_SUB) (\<lambda>(token, self).
       seq (tc_read_token self) (\<lambda>self.
       seq (tc_parse_mult_expr parse_expr fuel self) (\<lambda>self.
       seq (tc_check_add_or_sub_expr self token) (\<lambda>self.
       seq (tc_write_binary_insn self token) (\<lambda>self. Ret (next_token self, self))))))
       (next_token self, self)) (\<lambda>(token, self). Ret self))"

definition tc_parse_shift_expr :: "(compiler \<Rightarrow> compiler res) \<Rightarrow> nat \<Rightarrow> compiler \<Rightarrow> compiler res" where
  "tc_parse_shift_expr parse_expr fuel self =
     seq (tc_parse_add_expr parse_expr fuel self) (\<lambda>self.
     let token = next_token self in
     if token = TC_SHIFT_LEFT \<or> token = TC_SHIFT_RIGHT
     then seq (tc_read_token self) (\<lambda>self.
       seq (tc_parse_add_expr parse_expr fuel self) (\<lambda>self.
       seq (tc_check_integer_expr self) (\<lambda>self. tc_write_binary_insn self token)))
     else Ret self)"

definition tc_parse_bit_and_expr :: "(compiler \<Rightarrow> compiler res) \<Rightarrow> nat \<Rightarrow> compiler \<Rightarrow> compiler res" where
  "tc_parse_bit_and_expr parse_expr fuel self =
     seq (tc_parse_shift_expr parse_expr fuel self) (\<lambda>self.
     while_do fuel (\<lambda>self. next_token self = TC_BIT_AND) (\<lambda>self.
       seq (tc_read_token self) (\<lambda>self.
       seq (tc_parse_shift_expr parse_expr fuel self) (\<lambda>self.
       seq (tc_check_integer_expr self) (\<lambda>self. tc_write_binary_insn self TC_BIT_AND)))) self)"

primrec tc_parse_expr :: "nat \<Rightarrow> compiler \<Rightarrow> compiler res" where
  "tc_parse_expr 0 self = OutOfFuel"
| "tc_parse_expr (Suc fuel) self =
     seq (tc_parse_bit_and_expr (tc_parse_expr fuel) fuel self) (\<lambda>self.
     while_do fuel (\<lambda>self. next_token self = TC_BIT_OR) (\<lambda>self.
       seq (tc_read_token self) (\<lambda>self.
       seq (tc_parse_bit_and_expr (tc_parse_expr fuel) fuel self) (\<lambda>self.
       seq (tc_check_integer_expr self) (\<lambda>self. tc_write_binary_insn self TC_BIT_OR)))) self)"

section \<open>Conditions\<close>

definition tc_check_comparison_expr :: "compiler \<Rightarrow> compiler res" where
  "tc_check_comparison_expr self =
     seq (tc_pop_value self) (\<lambda>(right_value, self).
     seq (tc_pop_value self) (\<lambda>(left_value, self).
     if val_dim left_value \<noteq> 0 \<and> val_origin right_value = FROM_NULL then Ret self
     else if val_type left_value \<noteq> val_type right_value \<or> val_dim left_value \<noteq> val_dim right_value
     then Panic 54
     else Ret self))"

definition tc_parse_comparison_expr :: "nat \<Rightarrow> compiler \<Rightarrow> (u64 \<times> compiler) res" where
  "tc_parse_comparison_expr fuel self =
     seq (tc_parse_expr fuel self) (\<lambda>self.
     let token = next_token self in
     if token < TC_LT \<or> token > TC_GE then Panic 25
     else seq (tc_read_token self) (\<lambda>self.
       seq (tc_parse_expr fuel self) (\<lambda>self.
       seq (tc_check_comparison_expr self) (\<lambda>self. Ret (token, self)))))"

text \<open>The result has the token, the new \<open>*else_refs_p\<close>, and the state.\<close>

definition tc_parse_and_expr :: "nat \<Rightarrow> compiler \<Rightarrow> u64 \<Rightarrow> (u64 \<times> u64 \<times> compiler) res" where
  "tc_parse_and_expr fuel self else_refs =
     seq (tc_parse_comparison_expr fuel self) (\<lambda>(token, self).
     while_do fuel (\<lambda>(token, else_refs, self). next_token self = TC_AND) (\<lambda>(token, else_refs, self).
       seq (tc_read_token self) (\<lambda>self.
       seq (tc_write_jump_insn self (TC_LT + TC_GE - token) else_refs) (\<lambda>(else_refs, self).
       seq (tc_parse_comparison_expr fuel self) (\<lambda>(token, self). Ret (token, else_refs, self)))))
       (token, else_refs, self))"

text \<open>The result has \<open>else_refs\<close>, the new \<open>*then_refs_p\<close>, and the state.\<close>

definition tc_parse_boolean_expr :: "nat \<Rightarrow> compiler \<Rightarrow> u64 \<Rightarrow> (u64 \<times> u64 \<times> compiler) res" where
  "tc_parse_boolean_expr fuel self then_refs =
     seq (tc_parse_and_expr fuel self 0) (\<lambda>(token, else_refs, self).
     seq (while_do fuel (\<lambda>(token, else_refs, then_refs, self). next_token self = TC_OR)
       (\<lambda>(token, else_refs, then_refs, self).
         seq (tc_read_token self) (\<lambda>self.
         seq (tc_write_jump_insn self token then_refs) (\<lambda>(then_refs, self).
         seq (tc_fill_placeholders self else_refs (dst self)) (\<lambda>self.
         seq (tc_parse_and_expr fuel self 0) (\<lambda>(token, else_refs, self).
         Ret (token, else_refs, then_refs, self))))))
       (token, else_refs, then_refs, self)) (\<lambda>(token, else_refs, then_refs, self).
     seq (tc_write_jump_insn self (TC_LT + TC_GE - token) else_refs) (\<lambda>(else_refs, self).
     Ret (else_refs, then_refs, self))))"

end
