(* ===== verification/Tc_Parser.thy ===== *)
theory Tc_Parser
  imports Tc_Expressions
begin

text \<open>
  Statements and declarations, the rest of \<open>tools/toyc/parser.c\<close>. \<open>break_refs_p\<close>, which can be null, is
  \<open>None\<close> or the value behind it, and its new value is returned next to the state. As for
  expressions, a statement parses the statements inside it by the parameter \<open>parse_stmt\<close>.
\<close>

section \<open>Statements\<close>

definition END_UNREACHABLE :: u64 where "END_UNREACHABLE = 0"
definition END_REACHABLE :: u64 where "END_REACHABLE = 1"

type_synonym stmt_parser = "compiler \<Rightarrow> u64 option \<Rightarrow> (u64 \<times> u64 option \<times> compiler) res"

definition tc_parse_block_stmt :: "stmt_parser \<Rightarrow> nat \<Rightarrow> stmt_parser" where
  "tc_parse_block_stmt parse_stmt fuel self break_refs =
     seq (tc_parse_token self 123) (\<lambda>self.
     seq (while_do fuel (\<lambda>(state, break_refs, self). next_token self \<noteq> 125)
       (\<lambda>(state, break_refs, self). if state = END_UNREACHABLE then Panic 37 else parse_stmt self break_refs)
       (END_REACHABLE, break_refs, self)) (\<lambda>(state, break_refs, self).
     seq (tc_read_token self) (\<lambda>self. Ret (state, break_refs, self))))"

definition tc_parse_assignment :: "nat \<Rightarrow> compiler \<Rightarrow> compiler res" where
  "tc_parse_assignment fuel self =
     seq (tc_top_value self) (\<lambda>value.
     let origin = val_origin value; slot = val_slot value in
     seq (if origin = FROM_ADDRESS then Ret (tc_erase_load_insn self)
          else if origin = FROM_VARIABLE then Ret (tc_erase_get_insn self)
          else Panic 38) (\<lambda>self.
     seq (tc_parse_token self 61) (\<lambda>self.
     seq (tc_parse_expr fuel self) (\<lambda>self.
     seq (tc_check_comparison_expr self) (\<lambda>self.
     if origin = FROM_ADDRESS then tc_write_store_insn self slot else tc_write_set_insn self slot)))))"

definition tc_parse_expr_or_assign_stmt :: "nat \<Rightarrow> stmt_parser" where
  "tc_parse_expr_or_assign_stmt fuel self break_refs =
     seq (tc_parse_expr fuel self) (\<lambda>self.
     seq (if next_token self = 61 then tc_parse_assignment fuel self
          else seq (tc_pop_value_or_void self) (\<lambda>(value, self).
            Ret (if val_origin value \<noteq> FROM_VOID then tc_write_pop_insn self else self))) (\<lambda>self.
     seq (tc_parse_token self 59) (\<lambda>self. Ret (END_REACHABLE, break_refs, self))))"

definition tc_parse_return_stmt :: "nat \<Rightarrow> stmt_parser" where
  "tc_parse_return_stmt fuel self break_refs =
     seq (tc_parse_token self TC_RETURN) (\<lambda>self.
     seq (get_symbol self (fn_return_type self)) (\<lambda>r.
     seq (if next_token self = 59 then if sym_kind r \<noteq> SYM_VOID then Panic 55 else Ret self
          else if sym_kind r = SYM_VOID then Panic 56
          else seq (tc_parse_expr fuel self) (\<lambda>self.
            seq (tc_pop_value self) (\<lambda>(value, self).
            seq (get_symbol self (fn_return_type self)) (\<lambda>r.
            seq (value_check value r) (\<lambda>_. Ret self))))) (\<lambda>self.
     seq (tc_parse_token self 59) (\<lambda>self.
     seq (tc_write_return_insn self) (\<lambda>self. Ret (END_UNREACHABLE, break_refs, self))))))"

definition tc_parse_break_stmt :: "compiler \<Rightarrow> u64 \<Rightarrow> (u64 \<times> u64 option \<times> compiler) res" where
  "tc_parse_break_stmt self break_refs =
     seq (tc_parse_token self TC_BREAK) (\<lambda>self.
     seq (tc_parse_token self 59) (\<lambda>self.
     seq (tc_write_goto_insn self break_refs) (\<lambda>(break_refs, self).
     Ret (END_UNREACHABLE, Some break_refs, self))))"

text \<open>The block of a loop has its own \<open>end_refs\<close> for its break statements.\<close>

definition tc_parse_while_or_loop_stmt :: "stmt_parser \<Rightarrow> nat \<Rightarrow> stmt_parser" where
  "tc_parse_while_or_loop_stmt parse_stmt fuel self break_refs =
     (let loop_dst = dst self; token = next_token self in
      seq (tc_read_token self) (\<lambda>self.
      seq (if token = TC_WHILE then tc_parse_boolean_expr fuel self 0 else Ret (0, 0, self))
        (\<lambda>(end_refs, body_refs, self).
      seq (tc_fill_placeholders self body_refs (dst self)) (\<lambda>self.
      seq (tc_parse_block_stmt parse_stmt fuel self (Some end_refs)) (\<lambda>(_, end_refs_p, self).
      let end_refs = (case end_refs_p of None \<Rightarrow> end_refs | Some refs \<Rightarrow> refs) in
      seq (tc_write_loop_insn self loop_dst) (\<lambda>self.
      seq (tc_fill_placeholders self end_refs (dst self)) (\<lambda>self.
      Ret (if token = TC_LOOP \<and> end_refs = 0 then END_UNREACHABLE else END_REACHABLE, break_refs, self))))))))"

fun tc_parse_if_stmt :: "stmt_parser \<Rightarrow> nat \<Rightarrow> stmt_parser" where
  "tc_parse_if_stmt parse_stmt 0 self break_refs = OutOfFuel"
| "tc_parse_if_stmt parse_stmt (Suc fuel) self break_refs =
     seq (tc_parse_token self TC_IF) (\<lambda>self.
     seq (tc_parse_boolean_expr fuel self 0) (\<lambda>(else_refs, then_refs, self).
     seq (tc_fill_placeholders self then_refs (dst self)) (\<lambda>self.
     seq (tc_parse_block_stmt parse_stmt fuel self break_refs) (\<lambda>(state, break_refs, self).
     if next_token self = TC_ELSE
     then seq (tc_read_token self) (\<lambda>self.
       seq (if state = END_REACHABLE then tc_write_goto_insn self 0 else Ret (0, self)) (\<lambda>(end_if_refs, self).
       seq (tc_fill_placeholders self else_refs (dst self)) (\<lambda>self.
       seq (if next_token self = 123 then tc_parse_block_stmt parse_stmt fuel self break_refs
            else tc_parse_if_stmt parse_stmt fuel self break_refs) (\<lambda>(else_state, break_refs, self).
       seq (tc_fill_placeholders self end_if_refs (dst self)) (\<lambda>self.
       Ret (state OR else_state, break_refs, self))))))
     else seq (tc_fill_placeholders self else_refs (dst self)) (\<lambda>self.
       Ret (END_REACHABLE, break_refs, self))))))"

primrec tc_parse_stmt :: "nat \<Rightarrow> stmt_parser" where
  "tc_parse_stmt 0 self break_refs = OutOfFuel"
| "tc_parse_stmt (Suc fuel) self break_refs =
     (if next_token self = TC_IF then tc_parse_if_stmt (tc_parse_stmt fuel) fuel self break_refs
      else if next_token self = TC_WHILE \<or> next_token self = TC_LOOP
      then tc_parse_while_or_loop_stmt (tc_parse_stmt fuel) fuel self break_refs
      else if next_token self = TC_BREAK
      then case break_refs of None \<Rightarrow> Panic 39 | Some refs \<Rightarrow> tc_parse_break_stmt self refs
      else if next_token self = TC_RETURN then tc_parse_return_stmt fuel self break_refs
      else tc_parse_expr_or_assign_stmt fuel self break_refs)"

section \<open>Declarations\<close>

definition tc_parse_const :: "nat \<Rightarrow> compiler \<Rightarrow> compiler res" where
  "tc_parse_const fuel self =
     seq (tc_parse_token self TC_CONST) (\<lambda>self.
     seq (tc_parse_identifier self) (\<lambda>(name, len, self).
     seq (tc_parse_token self 58) (\<lambda>self.
     seq (tc_parse_type fuel self) (\<lambda>(type, dim, self).
     seq (tc_parse_token self 61) (\<lambda>self.
     seq (tc_parse_integer self) (\<lambda>(v, self).
     seq (tc_add_symbol self name len SYM_CONST v type dim) (\<lambda>(_, self).
     tc_parse_token self 59)))))))"

definition tc_parse_static :: "nat \<Rightarrow> compiler \<Rightarrow> compiler res" where
  "tc_parse_static fuel self =
     seq (tc_parse_token self TC_STATIC) (\<lambda>self.
     seq (tc_parse_identifier self) (\<lambda>(name, len, self).
     seq (tc_add_symbol self name len SYM_STATIC (dst self) 0 1) (\<lambda>(_, self).
     seq (tc_parse_token self 61) (\<lambda>self.
     seq (tc_parse_token self 91) (\<lambda>self.
     seq (tc_parse_integer self) (\<lambda>(v, self).
     seq (tc_write8 self v) (\<lambda>self.
     seq (while_do fuel (\<lambda>self. next_token self = 44) (\<lambda>self.
       seq (tc_read_token self) (\<lambda>self.
       seq (tc_parse_integer self) (\<lambda>(v, self). tc_write8 self v))) self) (\<lambda>self.
     seq (tc_parse_token self 93) (\<lambda>self.
     tc_parse_token self 59)))))))))"

text \<open>The loop keeps the fields and their number.\<close>

definition tc_parse_struct :: "nat \<Rightarrow> compiler \<Rightarrow> compiler res" where
  "tc_parse_struct fuel self =
     seq (tc_parse_token self TC_STRUCT) (\<lambda>self.
     seq (tc_parse_identifier self) (\<lambda>(name, len, self).
     seq (tc_add_symbol self name len SYM_STRUCT 0 0 0) (\<lambda>(p, self).
     seq (tc_parse_token self 123) (\<lambda>self.
     seq (while_do fuel (\<lambda>(fields, v, self). next_token self \<noteq> 125) (\<lambda>(fields, v, self).
       seq (if v > 0 then tc_parse_token self 44 else Ret self) (\<lambda>self.
       seq (tc_parse_identifier self) (\<lambda>(name, len, self).
       seq (tc_parse_token self 58) (\<lambda>self.
       seq (tc_parse_type fuel self) (\<lambda>(type, dim, self).
       seq (tc_new_symbol self name len SYM_FIELD v type dim fields) (\<lambda>(fields, self).
       Ret (fields, v + 1, self))))))) (0, 0, self)) (\<lambda>(fields, v, self).
     seq (tc_read_token self) (\<lambda>self.
     seq (get_symbol self p) (\<lambda>s.
     Ret (put_symbol self p (s\<lparr>sym_value := v, sym_type := fields\<rparr>)))))))))"

text \<open>The result is the next free variable.\<close>

definition tc_parse_let_stmt :: "nat \<Rightarrow> compiler \<Rightarrow> u64 \<Rightarrow> (u64 \<times> compiler) res" where
  "tc_parse_let_stmt fuel self variable =
     seq (tc_parse_token self TC_LET) (\<lambda>self.
     seq (tc_parse_identifier self) (\<lambda>(name, len, self).
     let separator = next_token self in
     seq (if separator = 58 then seq (tc_read_token self) (\<lambda>self. tc_parse_type fuel self)
          else Ret (0, 0, self)) (\<lambda>(type, dim, self).
     seq (tc_parse_token self 61) (\<lambda>self.
     seq (tc_parse_expr fuel self) (\<lambda>self.
     seq (tc_parse_token self 59) (\<lambda>self.
     seq (tc_pop_value self) (\<lambda>(value, self).
     seq (if separator = 58 then seq (value_type_check value type dim) (\<lambda>_. Ret (type, dim))
          else if val_origin value = FROM_NULL then Panic 57
          else Ret (val_type value, val_dim value)) (\<lambda>(type, dim).
     seq (tc_add_symbol self name len SYM_VARIABLE variable type dim) (\<lambda>(_, self).
     seq (tc_save_registers self 1) (\<lambda>self. Ret (variable + 1, self)))))))))))"

definition tc_parse_fn_name :: "compiler \<Rightarrow> (u64 \<times> compiler) res" where
  "tc_parse_fn_name self =
     seq (tc_parse_identifier self) (\<lambda>(name, len, self).
     tc_add_or_resolve_fn_symbol self name len (dst self))"

function tc_check_fn_parameters_loop :: "compiler \<Rightarrow> u64 \<Rightarrow> u64 \<Rightarrow> (u64 \<times> u64) res" where
  "tc_check_fn_parameters_loop self forward_parameters parameters =
     (if forward_parameters \<noteq> 0 \<and> parameters \<noteq> 0
      then seq (get_symbol self forward_parameters) (\<lambda>f.
        seq (get_symbol self parameters) (\<lambda>s.
        if sym_kind f \<noteq> sym_kind s \<or> sym_type f \<noteq> sym_type s \<or> sym_dim f \<noteq> sym_dim s then Panic 58
        else if sym_next s < parameters
        then tc_check_fn_parameters_loop self (sym_next f) (sym_next s) else OutOfFuel))
      else Ret (forward_parameters, parameters))"
  by pat_completeness auto
termination
  by (relation "measure (\<lambda>(_, _, p). unat p)") (auto simp: less_u64)

declare tc_check_fn_parameters_loop.simps [simp del]

definition tc_check_fn_parameters :: "compiler \<Rightarrow> u64 \<Rightarrow> u64 \<Rightarrow> unit res" where
  "tc_check_fn_parameters self forward_parameters parameters =
     (if forward_parameters = 0 then Ret ()
      else seq (tc_check_fn_parameters_loop self forward_parameters parameters)
        (\<lambda>(forward_parameters, parameters).
        if forward_parameters \<noteq> 0 \<or> parameters \<noteq> 0 then Panic 59 else Ret ()))"

text \<open>The parameters, the last one first, behind a symbol for the return type. The result is the number
  of parameters.\<close>

definition tc_parse_fn_parameters :: "nat \<Rightarrow> compiler \<Rightarrow> u64 \<Rightarrow> (u64 \<times> compiler) res" where
  "tc_parse_fn_parameters fuel self fn =
     seq (tc_parse_token self 40) (\<lambda>self.
     seq (while_do fuel (\<lambda>(syms, i, self). next_token self \<noteq> 41) (\<lambda>(syms, i, self).
       seq (if i > 0 then tc_parse_token self 44 else Ret self) (\<lambda>self.
       seq (tc_parse_identifier self) (\<lambda>(name, len, self).
       seq (tc_parse_token self 58) (\<lambda>self.
       seq (tc_parse_type fuel self) (\<lambda>(type, dim, self).
       seq (tc_new_symbol self name len SYM_VARIABLE i type dim syms) (\<lambda>(syms, self).
       Ret (syms, i + 1, self))))))) (0, 0, self)) (\<lambda>(syms, i, self).
     seq (tc_read_token self) (\<lambda>self.
     seq (if next_token self = TC_ARROW
          then seq (tc_read_token self) (\<lambda>self.
            seq (tc_parse_type fuel self) (\<lambda>(type, dim, self).
            tc_new_symbol self 0 0 SYM_VARIABLE 0 type dim syms))
          else tc_new_symbol self 0 0 SYM_VOID 0 0 0 syms) (\<lambda>(syms, self).
     seq (get_symbol self fn) (\<lambda>f.
     seq (tc_check_fn_parameters self (sym_type f) syms) (\<lambda>_.
     Ret (i, (put_symbol self fn (f\<lparr>sym_type := syms\<rparr>))\<lparr>fn_return_type := syms\<rparr>)))))))"

definition tc_parse_fn_asm_body :: "nat \<Rightarrow> compiler \<Rightarrow> compiler res" where
  "tc_parse_fn_asm_body fuel self =
     seq (tc_parse_token self 91) (\<lambda>self.
     seq (while_do fuel (\<lambda>(i, self). next_token self \<noteq> 93) (\<lambda>(i, self).
       seq (if i > 0 then tc_parse_token self 44 else Ret self) (\<lambda>self.
       seq (tc_parse_integer self) (\<lambda>(v, self).
       seq (tc_write8 self v) (\<lambda>self. Ret (i + 1, self))))) (0 :: u64, self)) (\<lambda>(i, self).
     tc_read_token self))"

text \<open>The parameters become variables, the first parameter as the highest one.\<close>

function tc_add_parameters_loop :: "compiler \<Rightarrow> u64 \<Rightarrow> u64 \<Rightarrow> compiler res" where
  "tc_add_parameters_loop self arity parameter =
     (if parameter \<noteq> 0
      then seq (get_symbol self parameter) (\<lambda>s.
        seq (tc_add_symbol self (sym_name s) (sym_length s) SYM_VARIABLE (arity - sym_value s)
          (sym_type s) (sym_dim s)) (\<lambda>(_, self).
        seq (get_symbol self parameter) (\<lambda>s.
        if sym_next s < parameter then tc_add_parameters_loop self arity (sym_next s) else OutOfFuel)))
      else Ret self)"
  by pat_completeness auto
termination
  by (relation "measure (\<lambda>(_, _, p). unat p)") (auto simp: less_u64)

declare tc_add_parameters_loop.simps [simp del]

definition tc_parse_fn_body :: "nat \<Rightarrow> compiler \<Rightarrow> u64 \<Rightarrow> u64 \<Rightarrow> compiler res" where
  "tc_parse_fn_body fuel self fn arity =
     (if next_token self = 59
      then seq (tc_read_token self) (\<lambda>self.
        seq (get_symbol self fn) (\<lambda>f.
        Ret (put_symbol self fn (f\<lparr>sym_kind := SYM_FORWARD_FN, sym_value := 0\<rparr>))))
      else if next_token self = 91 then tc_parse_fn_asm_body fuel self
      else seq (get_symbol self fn) (\<lambda>f.
        seq (get_symbol self (sym_type f)) (\<lambda>r.
        seq (tc_add_parameters_loop self arity (sym_next r)) (\<lambda>self.
        seq (tc_parse_token self 123) (\<lambda>self.
        seq (tc_write_fn_insn self arity) (\<lambda>self.
        seq (while_do fuel (\<lambda>(next_variable, state, self). next_token self \<noteq> 125)
          (\<lambda>(next_variable, state, self).
            if state = END_UNREACHABLE then Panic 40
            else if next_token self = TC_CONST
            then seq (tc_parse_const fuel self) (\<lambda>self. Ret (next_variable, state, self))
            else if next_token self = TC_LET
            then seq (tc_parse_let_stmt fuel self next_variable) (\<lambda>(next_variable, self).
              Ret (next_variable, state, self))
            else seq (tc_parse_stmt fuel self None) (\<lambda>(state, _, self). Ret (next_variable, state, self)))
          (arity + 1, END_REACHABLE, self)) (\<lambda>(next_variable, state, self).
        seq (if state = END_REACHABLE
             then seq (get_symbol self (fn_return_type self)) (\<lambda>r.
               if sym_kind r \<noteq> SYM_VOID then Panic 41 else tc_write_return_insn self)
             else Ret self) (\<lambda>self.
        tc_read_token self))))))))"

function tc_check_symbols :: "compiler \<Rightarrow> u64 \<Rightarrow> u64 \<Rightarrow> unit res" where
  "tc_check_symbols self p end_symbol =
     (if p \<noteq> end_symbol
      then seq (get_symbol self p) (\<lambda>s.
        if sym_kind s = SYM_FORWARD_FN then Panic 32
        else if sym_next s < p then tc_check_symbols self (sym_next s) end_symbol else OutOfFuel)
      else Ret ())"
  by pat_completeness auto
termination
  by (relation "measure (\<lambda>(_, p, _). unat p)") (auto simp: less_u64)

declare tc_check_symbols.simps [simp del]

definition tc_parse_fn :: "nat \<Rightarrow> compiler \<Rightarrow> compiler res" where
  "tc_parse_fn fuel self =
     seq (tc_parse_token self TC_FN) (\<lambda>self.
     seq (tc_parse_fn_name self) (\<lambda>(fn, self).
     seq (tc_parse_fn_parameters fuel self fn) (\<lambda>(arity, self).
     let saved_heap = heap self; saved_symbols = symbols self in
     seq (tc_parse_fn_body fuel self fn arity) (\<lambda>self.
     Ret (self\<lparr>symbols := saved_symbols, heap := saved_heap\<rparr>)))))"

text \<open>The loop ends by a return from its last branch, here the condition.\<close>

definition tc_parse_program :: "nat \<Rightarrow> compiler \<Rightarrow> compiler res" where
  "tc_parse_program fuel self =
     seq (while_do fuel
       (\<lambda>self. next_token self = TC_FN \<or> next_token self = TC_STRUCT \<or> next_token self = TC_STATIC \<or>
          next_token self = TC_CONST)
       (\<lambda>self. if next_token self = TC_FN then tc_parse_fn fuel self
          else if next_token self = TC_STRUCT then tc_parse_struct fuel self
          else if next_token self = TC_STATIC then tc_parse_static fuel self
          else tc_parse_const fuel self) self) (\<lambda>self.
     if next_token self \<noteq> 0 then Panic 23 else Ret self)"

text \<open>\<open>main\<close> of \<open>toyc.c\<close>, from the loaded source to the bytes it writes to the output.\<close>

definition toyc_compile :: "nat \<Rightarrow> compiler \<Rightarrow> u8 list res" where
  "toyc_compile fuel self =
     seq (tc_read_char self) (\<lambda>(_, self).
     seq (tc_read_token self) (\<lambda>self.
     seq (tc_parse_program fuel self) (\<lambda>self.
     Ret (take (unat (dst self - code_base self)) (code self)))))"

end
