(* ===== verification/Tc_Good.thy ===== *)
theory Tc_Good
  imports Tc_Parser Tc_Lexer_Properties
begin

text \<open>
  A calculus for the results of the compiler: \<open>good m Q\<close> says that \<open>m\<close> ends, within its fuel, and that
  \<open>Q\<close> holds of what it returns, if it returns. The rules have the rest of the computation as their last
  premise, so that \<open>auto\<close> goes through a function statement by statement. First results: what the back
  end leaves unchanged, and what the scanner does.
\<close>

named_theorems back_rules \<open>calls of the back end\<close>

definition good :: "'a res \<Rightarrow> ('a \<Rightarrow> bool) \<Rightarrow> bool" where
  "good m Q \<longleftrightarrow> (case m of Ret x \<Rightarrow> Q x | OutOfFuel \<Rightarrow> False | _ \<Rightarrow> True)"

lemma good_simps [simp]:
  "good (Ret x) Q = Q x" "good (Panic e) Q" "good Fault Q" "\<not> good OutOfFuel Q"
  "good (seq m f) Q = good m (\<lambda>x. good (f x) Q)"
  by (cases m; simp add: good_def)+

lemma good_mono: "good m Q \<Longrightarrow> (\<And>x. Q x \<Longrightarrow> R x) \<Longrightarrow> good m R"
  by (cases m) auto

lemma good_if [simp]: "good (if c then m else m') Q \<longleftrightarrow> (c \<longrightarrow> good m Q) \<and> (\<not> c \<longrightarrow> good m' Q)"
  by simp

lemma goodI: "m \<noteq> OutOfFuel \<Longrightarrow> (\<And>x. m = Ret x \<Longrightarrow> Q x) \<Longrightarrow> good m Q"
  by (cases m) auto

section \<open>Loops\<close>

lemma good_while:
  assumes "I s" and "m s < fuel"
    and "\<And>s. I s \<Longrightarrow> c s \<Longrightarrow> good (b s) (\<lambda>s'. I s' \<and> m s' < m s)"
    and "\<And>s. I s \<Longrightarrow> \<not> c s \<Longrightarrow> Q s"
  shows "good (while_do fuel c b s) Q"
  using assms(1,2)
proof (induction fuel arbitrary: s)
  case (Suc fuel)
  have "good (while_do fuel c b s') Q" if "I s' \<and> m s' < m s" for s'
    using Suc.IH[of s'] Suc.prems(2) that by simp
  then have "c s \<Longrightarrow> good (seq (b s) (while_do fuel c b)) Q"
    using assms(3)[OF Suc.prems(1)] by (auto elim: good_mono)
  then show ?case using assms(4)[OF Suc.prems(1)] by auto
qed simp

section \<open>The back end\<close>

text \<open>The part of the state that the back end does not change, calls of forward functions aside.\<close>

definition off_backend :: "compiler \<Rightarrow> compiler" where
  "off_backend self = self\<lparr>code := [], dst := 0, dst_mark := 0, next_register := 0, frame_size := 0\<rparr>"

lemma off_backend_simps [simp]:
  "off_backend (self\<lparr>code := c\<rparr>) = off_backend self" "off_backend (self\<lparr>dst := d\<rparr>) = off_backend self"
  "off_backend (self\<lparr>dst_mark := d\<rparr>) = off_backend self" "off_backend (self\<lparr>next_register := n\<rparr>) = off_backend self"
  "off_backend (self\<lparr>frame_size := n\<rparr>) = off_backend self" "off_backend (self\<lparr>heap := h\<rparr>) = (off_backend self)\<lparr>heap := h\<rparr>"
  by (simp_all add: off_backend_def)

text \<open>\<open>quiet f\<close>: the function \<open>f\<close> only writes code.\<close>

definition quiet :: "(compiler \<Rightarrow> 'a res) \<Rightarrow> ('a \<Rightarrow> compiler) \<Rightarrow> bool" where
  "quiet f st \<longleftrightarrow> (\<forall>self. good (f self) (\<lambda>x. off_backend (st x) = off_backend self))"

lemma quietD:
  assumes "quiet f st" and "\<And>x. f self = Ret x \<Longrightarrow> off_backend (st x) = off_backend self \<Longrightarrow> Q x"
  shows "good (f self) Q"
  using assms by (cases "f self") (auto simp: quiet_def dest!: spec[of _ self])

lemma good_loads [back_rules]:
  "(\<And>x. load8 m p = Ret x \<Longrightarrow> Q x) \<Longrightarrow> good (load8 m p) Q"
  "(\<And>x. load32 m p = Ret x \<Longrightarrow> Q x) \<Longrightarrow> good (load32 m p) Q"
  "(\<And>x. code_load32 self a = Ret x \<Longrightarrow> R x) \<Longrightarrow> good (code_load32 self a) R"
  by (rule goodI; auto simp: load8_def load16_def load32_def code_load32_def seq_eq_OutOfFuel split: if_splits)+

lemma quiet_store8: "quiet (\<lambda>self. store8 self p v) (\<lambda>s. s)"
  by (simp add: quiet_def store8_def Let_def)

lemmas [back_rules] = quiet_store8[THEN quietD]

lemma quiet_stores:
  "quiet (\<lambda>self. store16 self p v) (\<lambda>s. s)" "quiet (\<lambda>self. store32 self p v) (\<lambda>s. s)"
  "quiet (\<lambda>self. code_allocate self n) snd"
  unfolding quiet_def store16_def store32_def code_allocate_def mem_allocate_def
  by (auto intro!: back_rules)

lemmas [back_rules] = quiet_stores[THEN quietD]

lemma quiet_store64: "quiet (\<lambda>self. store64 self p v) (\<lambda>s. s)"
  unfolding quiet_def store64_def by (auto intro!: back_rules)

lemmas [back_rules] = quiet_store64[THEN quietD]

lemma quiet_writes:
  "quiet (\<lambda>self. tc_write8 self v) (\<lambda>s. s)" "quiet (\<lambda>self. tc_write16 self v) (\<lambda>s. s)"
  "quiet (\<lambda>self. tc_write32 self v) (\<lambda>s. s)" "quiet tc_new_register snd"
  unfolding quiet_def tc_write8_def tc_write16_def tc_write32_def tc_new_register_def Let_def
  by (auto intro!: back_rules)

lemmas [back_rules] = quiet_writes[THEN quietD]

lemma quiet_write24: "quiet (\<lambda>self. tc_write24 self v w) (\<lambda>s. s)"
  unfolding quiet_def tc_write24_def by (auto intro!: back_rules)

lemmas [back_rules] = quiet_write24[THEN quietD]

lemma quiet_placeholder: "quiet (\<lambda>self. tc_write_placeholder self p) snd"
  unfolding quiet_def tc_write_placeholder_def Let_def by (auto intro!: back_rules)

lemmas [back_rules] = quiet_placeholder[THEN quietD]

lemma quiet_loops:
  "quiet (\<lambda>self. tc_fill_placeholders self p v) (\<lambda>s. s)"
  "quiet (\<lambda>self. tc_save_registers_loop self n) (\<lambda>s. s)"
  "quiet (\<lambda>self. tc_restore_registers_loop self r z) (\<lambda>s. s)"
proof -
  have "good (tc_fill_placeholders self p v) (\<lambda>s. off_backend s = off_backend self)" for self
  proof (induction self p v rule: tc_fill_placeholders.induct)
    case (1 self p v)
    then show ?case
      by (subst tc_fill_placeholders.simps) (auto intro!: back_rules good_mono[OF 1])
  qed
  then show "quiet (\<lambda>self. tc_fill_placeholders self p v) (\<lambda>s. s)" by (simp add: quiet_def)
  have "good (tc_save_registers_loop self n) (\<lambda>s. off_backend s = off_backend self)" for self
  proof (induction self n rule: tc_save_registers_loop.induct)
    case (1 self n)
    then show ?case
      by (subst tc_save_registers_loop.simps) (auto simp: Let_def intro!: back_rules good_mono[OF 1])
  qed
  then show "quiet (\<lambda>self. tc_save_registers_loop self n) (\<lambda>s. s)" by (simp add: quiet_def)
  have "good (tc_restore_registers_loop self r z) (\<lambda>s. off_backend s = off_backend self)" for self
  proof (induction self r z rule: tc_restore_registers_loop.induct)
    case (1 self r z)
    then show ?case
      by (subst tc_restore_registers_loop.simps) (auto intro!: back_rules good_mono[OF 1])
  qed
  then show "quiet (\<lambda>self. tc_restore_registers_loop self r z) (\<lambda>s. s)" by (simp add: quiet_def)
qed

lemmas [back_rules] = quiet_loops[THEN quietD]

lemma quiet_mem_insns:
  "quiet (\<lambda>self. tc_write_mem_insn self insn m sib slot) (\<lambda>s. s)"
  "quiet (\<lambda>self. tc_write_increment_insn self insn m slot) (\<lambda>s. s)"
  "quiet (\<lambda>self. tc_save_registers self n) (\<lambda>s. s)"
  unfolding quiet_def tc_write_mem_insn_def tc_write_increment_insn_def tc_save_registers_def Let_def
  by (auto intro!: back_rules)

lemmas [back_rules] = quiet_mem_insns[THEN quietD]

lemma quiet_insns:
  "quiet (\<lambda>self. tc_write_cst_insn self v) (\<lambda>s. s)" "quiet (\<lambda>self. tc_write_static_insn self v) (\<lambda>s. s)"
  "quiet (\<lambda>self. tc_write_binary_insn self t) (\<lambda>s. s)" "quiet (\<lambda>self. tc_write_jump_insn self t p) snd"
  "quiet (\<lambda>self. tc_write_goto_insn self p) snd" "quiet (\<lambda>self. tc_write_loop_insn self v) (\<lambda>s. s)"
  "quiet (\<lambda>self. tc_write_load_insn self v) (\<lambda>s. s)" "quiet (\<lambda>self. tc_write_store_insn self v) (\<lambda>s. s)"
  "quiet (\<lambda>self. tc_write_address_of_insn self v) (\<lambda>s. s)" "quiet (\<lambda>self. tc_write_ptr_insn self v) (\<lambda>s. s)"
  "quiet (\<lambda>self. tc_write_get_insn self v) (\<lambda>s. s)" "quiet (\<lambda>self. tc_write_set_insn self v) (\<lambda>s. s)"
  "quiet (\<lambda>self. tc_write_fn_insn self v) (\<lambda>s. s)" "quiet tc_write_return_insn (\<lambda>s. s)"
  unfolding quiet_def tc_write_cst_insn_def tc_write_static_insn_def tc_write_binary_insn_def
    tc_write_jump_insn_def tc_write_goto_insn_def tc_write_loop_insn_def tc_write_load_insn_def
    tc_write_store_insn_def tc_write_address_of_insn_def tc_write_ptr_insn_def tc_write_get_insn_def
    tc_write_set_insn_def tc_write_fn_insn_def tc_write_return_insn_def Let_def
  by (auto intro!: back_rules)

lemmas [back_rules] = quiet_insns[THEN quietD]

lemma off_backend_erase [simp]:
  "off_backend (tc_erase_load_insn self) = off_backend self"
  "off_backend (tc_erase_get_insn self) = off_backend self"
  "off_backend (tc_write_pop_insn self) = off_backend self"
  by (simp_all add: tc_erase_load_insn_def tc_erase_get_insn_def tc_write_pop_insn_def)

end
