(* ===== verification/Tc_Progress.thy ===== *)
theory Tc_Progress
  imports Tc_Good
begin

text \<open>
  Every function of the parser ends. The bound on the recursion and on the loops is the number of
  characters that are left; the lists of symbols end because they go towards lower addresses. On
  the way each function is shown to leave the stack of values as high as it promises, and the symbol
  table as it promises.
\<close>

named_theorems parse_rules \<open>calls of the parser and of what it calls\<close>

section \<open>The invariant\<close>

definition descending :: "(u64 \<rightharpoonup> cell) \<Rightarrow> bool" where
  "descending m \<longleftrightarrow> (\<forall>p s. m p = Some (Sym s) \<longrightarrow> sym_next s < p)"

definition ok :: "compiler \<Rightarrow> bool" where
  "ok self \<longleftrightarrow> scan_ok self \<and> descending (cells self) \<and> (next_token self = 0 \<longrightarrow> remaining self = [])"

text \<open>The characters that are left, and the next token.\<close>

definition left :: "compiler \<Rightarrow> nat" where
  "left self = length (remaining self) + (if next_token self = 0 then 0 else 1)"

text \<open>\<open>moved d\<close>: the heap pointer has moved by \<open>d\<close>. \<open>ahead d\<close>: a token has been read as well.\<close>

definition moved :: "u64 \<Rightarrow> compiler \<Rightarrow> compiler \<Rightarrow> bool" where
  "moved d self self' \<longleftrightarrow> ok self' \<and> symbols self' = symbols self \<and> heap self' = heap self + d \<and>
     left self' = left self \<and> next_token self' = next_token self"

definition ahead :: "u64 \<Rightarrow> compiler \<Rightarrow> compiler \<Rightarrow> bool" where
  "ahead d self self' \<longleftrightarrow> ok self' \<and> symbols self' = symbols self \<and> heap self' = heap self + d \<and>
     left self' < left self"

lemmas ends_simps = moved_def ahead_def

lemma scan_ok_fields [simp]:
  "scan_ok (self\<lparr>cells := c\<rparr>) = scan_ok self" "scan_ok (self\<lparr>heap := h\<rparr>) = scan_ok self"
  "scan_ok (self\<lparr>symbols := p\<rparr>) = scan_ok self" "scan_ok (self\<lparr>fn_return_type := p\<rparr>) = scan_ok self"
  "scan_ok (self\<lparr>next_register := n\<rparr>) = scan_ok self" "scan_ok (self\<lparr>frame_size := n\<rparr>) = scan_ok self"
  by (simp_all add: scan_ok_iff)

lemma remaining_fields [simp]:
  "remaining (self\<lparr>cells := c\<rparr>) = remaining self" "remaining (self\<lparr>heap := h\<rparr>) = remaining self"
  "remaining (self\<lparr>symbols := p\<rparr>) = remaining self" "remaining (self\<lparr>fn_return_type := p\<rparr>) = remaining self"
  "remaining (self\<lparr>next_register := n\<rparr>) = remaining self" "remaining (self\<lparr>frame_size := n\<rparr>) = remaining self"
  by (simp_all add: remaining_def)

lemma left_fields [simp]:
  "left (self\<lparr>cells := c\<rparr>) = left self" "left (self\<lparr>heap := h\<rparr>) = left self"
  "left (self\<lparr>symbols := p\<rparr>) = left self" "left (self\<lparr>fn_return_type := p\<rparr>) = left self"
  "left (self\<lparr>next_register := n\<rparr>) = left self" "left (self\<lparr>frame_size := n\<rparr>) = left self"
  by (simp_all add: left_def)

lemma ok_fields [simp]:
  "ok (self\<lparr>heap := h\<rparr>) = ok self" "ok (self\<lparr>symbols := p\<rparr>) = ok self" "ok (self\<lparr>fn_return_type := p\<rparr>) = ok self"
  "ok (self\<lparr>next_register := n\<rparr>) = ok self" "ok (self\<lparr>frame_size := n\<rparr>) = ok self"
  by (simp_all add: ok_def)

lemma ok_next: "ok self \<Longrightarrow> cells self p = Some (Sym s) \<Longrightarrow> sym_next s < p"
  by (simp add: ok_def descending_def)

lemma put_symbol_fields [simp]:
  "symbols (put_symbol self p s) = symbols self" "heap (put_symbol self p s) = heap self"
  "left (put_symbol self p s) = left self" "next_token (put_symbol self p s) = next_token self"
  by (simp_all add: put_symbol_def)

lemma ok_put_symbol [simp]: "ok self \<Longrightarrow> sym_next s < p \<Longrightarrow> ok (put_symbol self p s)"
  by (simp add: ok_def put_symbol_def descending_def)

lemma put_cell_fields [simp]:
  "symbols (put_cell self p c) = symbols self" "heap (put_cell self p c) = heap self"
  "left (put_cell self p c) = left self" "next_token (put_cell self p c) = next_token self"
  by (simp_all add: put_cell_def)

lemma ok_put_cell [simp]:
  "ok self \<Longrightarrow> ok (put_cell self p (Val v))" "ok self \<Longrightarrow> sym_next s < p \<Longrightarrow> ok (put_cell self p (Sym s))"
  by (auto simp: ok_def put_cell_def descending_def split: option.splits if_splits)

section \<open>The back end and the scanner\<close>

lemma off_backend_moved:
  assumes "off_backend self' = off_backend self" and "ok self"
  shows "moved 0 self self'"
proof -
  have f: "f (off_backend self') = f (off_backend self)" for f :: "compiler \<Rightarrow> 'a" using assms(1) by simp
  have e: "source self' = source self" "src self' = src self" "src_end self' = src_end self"
    "next_char self' = next_char self" "next_char_type self' = next_char_type self"
    "next_token self' = next_token self" "symbols self' = symbols self" "heap self' = heap self"
    "cells self' = cells self"
    using f[of source] f[of src] f[of src_end] f[of next_char] f[of next_char_type] f[of next_token]
      f[of symbols] f[of heap] f[of cells] by (simp_all add: off_backend_def)
  moreover have "remaining self' = remaining self" by (simp add: remaining_def e)
  ultimately show ?thesis using assms(2) by (simp add: moved_def ok_def left_def scan_ok_iff)
qed

lemma quiet_moved:
  assumes "quiet f st" and "ok self" and "\<And>x. moved 0 self (st x) \<Longrightarrow> Q x"
  shows "good (f self) Q"
  by (rule quietD[OF assms(1)]) (rule assms(3), rule off_backend_moved, assumption, rule assms(2))

lemmas [parse_rules] = quiet_writes[THEN quiet_moved] quiet_loops[THEN quiet_moved]
  quiet_mem_insns[THEN quiet_moved] quiet_insns[THEN quiet_moved] quiet_placeholder[THEN quiet_moved]
  quiet_write24[THEN quiet_moved]

lemma erase_fields:
  assumes "f \<in> {tc_erase_load_insn, tc_erase_get_insn, tc_write_pop_insn}"
  shows "symbols (f self) = symbols self" "heap (f self) = heap self" "next_token (f self) = next_token self"
    "left (f self) = left self" "ok (f self) = ok self"
  using assms by (auto simp: tc_erase_load_insn_def tc_erase_get_insn_def tc_write_pop_insn_def left_def
      remaining_def ok_def scan_ok_iff)

lemmas erase_simps [simp] = erase_fields[of tc_erase_load_insn, simplified]
  erase_fields[of tc_erase_get_insn, simplified] erase_fields[of tc_write_pop_insn, simplified]

lemma good_read_token [parse_rules]:
  assumes "ok self" and "next_token self \<noteq> 0" and "\<And>self'. ahead 0 self self' \<Longrightarrow> Q self'"
  shows "good (tc_read_token self) Q"
proof (rule goodI)
  have s: "scan_ok self" using assms(1) by (simp add: ok_def)
  show "tc_read_token self \<noteq> OutOfFuel" using read_token[OF s] by (auto split: sum.splits)
  fix self' assume r: "tc_read_token self = Ret self'"
  then have k: "scan_ok self'" "off_scanner self' = off_scanner self"
    using read_token[OF s] by (auto split: sum.splits)
  have f: "f (off_scanner self') = f (off_scanner self)" for f :: "compiler \<Rightarrow> 'a" using k(2) by simp
  have "symbols self' = symbols self" "heap self' = heap self" "cells self' = cells self"
    using f[of symbols] f[of heap] f[of cells] by (simp_all add: off_scanner_def)
  moreover have "left self' < left self" "next_token self' = 0 \<longrightarrow> remaining self' = []"
    using read_token_advances[OF s r] assms(2) by (auto simp: left_def split: if_splits)
  ultimately show "Q self'" using k(1) assms(1) by (intro assms(3)) (simp add: ahead_def ok_def)
qed

lemma good_parse_tokens [parse_rules]:
  "ok self \<Longrightarrow> t \<noteq> 0 \<Longrightarrow> (\<And>self'. ahead 0 self self' \<Longrightarrow> Q self') \<Longrightarrow> good (tc_parse_token self t) Q"
  "ok self \<Longrightarrow> (\<And>v self'. ahead 0 self self' \<Longrightarrow> R (v, self')) \<Longrightarrow> good (tc_parse_integer self) R"
  "ok self \<Longrightarrow> (\<And>n l self'. ahead 0 self self' \<Longrightarrow> T (n, l, self')) \<Longrightarrow> good (tc_parse_identifier self) T"
  by (auto simp: tc_parse_token_def tc_parse_integer_def tc_parse_identifier_def TC_INTEGER_def
      TC_IDENTIFIER_def Let_def intro!: parse_rules)

section \<open>Symbols and values\<close>

lemma good_get_symbol [parse_rules]:
  "(\<And>s. cells self p = Some (Sym s) \<Longrightarrow> ok self \<longrightarrow> sym_next s < p \<Longrightarrow> Q s) \<Longrightarrow> good (get_symbol self p) Q"
  by (auto simp: get_symbol_def ok_next split: option.splits cell.splits)

lemma good_get_value [parse_rules]: "(\<And>v. Q v) \<Longrightarrow> good (get_value self p) Q"
  by (auto simp: get_value_def split: option.splits cell.splits)

lemma good_mem_compare [parse_rules]:
  assumes "\<And>c. Q c"
  shows "good (mem_compare m p m' p' n) Q"
proof -
  have loop: "good (mem_compare_loop m p m' p' n i) (\<lambda>_. True)" for i
  proof (induction m p m' p' n i rule: mem_compare_loop.induct)
    case (1 m p m' p' n i)
    show ?case by (subst mem_compare_loop.simps) (auto intro!: back_rules 1)
  qed
  show ?thesis unfolding mem_compare_def by (rule good_mono[OF loop]) (rule assms)
qed

lemma good_sym_lookup [parse_rules]:
  assumes "ok self" and "\<And>p. Q p"
  shows "good (sym_lookup self p name len) Q"
proof -
  have "good (sym_lookup self p name len) (\<lambda>_. True)"
  proof (induction p rule: measure_induct_rule[of unat])
    case (less p)
    have "good (sym_lookup self q name len) (\<lambda>_. True)" if "q < p" for q
      using less that by (simp add: less_u64)
    then show ?case
      by (subst sym_lookup.simps) (auto intro!: parse_rules dest: ok_next[OF assms(1)])
  qed
  then show ?thesis using assms(2) by (auto elim: good_mono)
qed

lemma good_heap_allocate [parse_rules]:
  assumes "n \<noteq> 0" and "heap self < heap self + n \<Longrightarrow> Q (heap self, self\<lparr>heap := heap self + n\<rparr>)"
  shows "good (heap_allocate self n) Q"
proof -
  have "heap self < heap self + n" if "n \<le> heap_limit self" "heap self \<le> heap_limit self - n"
  proof -
    have "unat (heap self) + unat n \<le> unat (heap_limit self)" using that by (simp add: le_u64 unat_sub_u64)
    then have "unat (heap self + n) = unat (heap self) + unat n"
      using unat_u64_less[of "heap_limit self"] by (intro unat_add_u64) simp
    then show ?thesis using assms(1) by (simp add: less_u64 eq_u64)
  qed
  then show ?thesis using assms(2)
    by (auto simp: heap_allocate_def mem_allocate_def not_less)
qed

lemma good_new_symbol [parse_rules]:
  assumes "ok self" and "nxt < heap self"
    and "\<And>self'. moved SYMBOL_SIZE self self' \<Longrightarrow> heap self < heap self' \<Longrightarrow> heap self \<le> heap self' \<Longrightarrow> Q (heap self, self')"
  shows "good (tc_new_symbol self name len kind v type dim nxt) Q"
  using assms(1,2) by (auto simp: tc_new_symbol_def ends_simps SYMBOL_SIZE_def intro!: parse_rules assms(3))

lemma good_add_symbol [parse_rules]:
  assumes "ok self" and "symbols self < heap self"
    and "\<And>self'. ok self' \<Longrightarrow> symbols self' < heap self' \<Longrightarrow> heap self \<le> heap self' \<Longrightarrow> left self' = left self \<Longrightarrow>
      next_token self' = next_token self \<Longrightarrow> Q (heap self, self')"
  shows "good (tc_add_symbol self name len kind v type dim) Q"
  using assms(1,2) by (auto simp: tc_add_symbol_def ends_simps intro!: parse_rules assms(3))

lemma good_push_value [parse_rules]:
  assumes "ok self" and "\<And>self'. moved VALUE_SIZE self self' \<Longrightarrow> Q self'"
  shows "good (tc_push_value self origin slot type dim) Q"
  using assms(1) by (auto simp: tc_push_value_def ends_simps VALUE_SIZE_def intro!: parse_rules assms(2))

lemma good_push_symbol_value [parse_rules]:
  assumes "ok self" and "\<And>self'. moved VALUE_SIZE self self' \<Longrightarrow> Q self'"
  shows "good (tc_push_symbol_value self p) Q"
  using assms(1) by (auto simp: tc_push_symbol_value_def Let_def intro!: parse_rules assms(2))

lemma good_pop_values [parse_rules]:
  "ok self \<Longrightarrow> (\<And>v self'. moved (- VALUE_SIZE) self self' \<Longrightarrow> Q (v, self')) \<Longrightarrow> good (tc_pop_value_or_void self) Q"
  "ok self \<Longrightarrow> (\<And>v self'. moved (- VALUE_SIZE) self self' \<Longrightarrow> Q (v, self')) \<Longrightarrow> good (tc_pop_value self) Q"
  "(\<And>v. R v) \<Longrightarrow> good (tc_top_value self) R"
  by (auto simp: tc_pop_value_or_void_def tc_pop_value_def tc_top_value_def moved_def Let_def intro!: parse_rules)

lemma good_value_checks [parse_rules]:
  "Q () \<Longrightarrow> good (value_type_check v type dim) Q" "Q () \<Longrightarrow> good (value_check v s) Q"
  by (simp_all add: value_type_check_def value_check_def)

lemma good_parse_symbol [parse_rules]:
  assumes "ok self" and "\<And>p self'. ahead 0 self self' \<Longrightarrow> Q (p, self')"
  shows "good (tc_parse_symbol self syms) Q"
  using assms(1) by (auto simp: tc_parse_symbol_def ends_simps intro!: parse_rules assms(2))

lemma good_parse_type [parse_rules]:
  assumes "ok self" and "left self < fuel" and "\<And>type dim self'. ahead 0 self self' \<Longrightarrow> Q (type, dim, self')"
  shows "good (tc_parse_type fuel self) Q"
proof -
  let ?I = "\<lambda>(dim, s). ok s \<and> symbols s = symbols self \<and> heap s = heap self \<and> left s \<le> left self"
  show ?thesis unfolding tc_parse_type_def good_simps
  proof (rule good_while[where I = ?I and m = "\<lambda>(dim, s). left s"])
    show "?I (0, self)" "(case (0, self) of (dim, s) \<Rightarrow> left s) < fuel" using assms by simp_all
  qed (auto simp: Let_def TC_BIT_AND_def TC_AND_def TC_U32_def ends_simps intro!: parse_rules assms(3))
qed

section \<open>Expressions\<close>

lemma good_call_insn [parse_rules]:
  assumes "ok self" and "\<And>self'. moved 0 self self' \<Longrightarrow> Q self'"
  shows "good (tc_write_call_insn self fn r) Q"
  using assms(1)
  by (auto simp: tc_write_call_insn_def ends_simps intro!: parse_rules assms(2) dest: ok_next split: prod.splits)

lemma good_check_arguments_loop [parse_rules]:
  assumes "ok self" and "\<And>p k self'. moved (- (VALUE_SIZE * (n - k))) self self' \<Longrightarrow> Q (p, k, self')"
  shows "good (tc_check_fn_arguments_loop self p n) Q"
proof -
  have "good (tc_check_fn_arguments_loop self p n) (\<lambda>(p, k, self'). moved (- (VALUE_SIZE * (n - k))) self self')"
    using assms(1)
  proof (induction n arbitrary: self p rule: measure_induct_rule[of unat])
    case (less n)
    have IH: "ok s \<Longrightarrow> n \<noteq> 0 \<Longrightarrow>
        good (tc_check_fn_arguments_loop s q (n - 1)) (\<lambda>(p, k, self'). moved (- (VALUE_SIZE * (n - 1 - k))) s self')" for s q
      by (rule less.IH) (simp_all add: word_gt_0 measure_unat)
    show ?case using less.prems
      by (subst tc_check_fn_arguments_loop.simps)
        (auto simp: ends_simps algebra_simps intro!: parse_rules good_mono[OF IH])
  qed
  then show ?thesis by (rule good_mono) (auto intro: assms(2))
qed

lemma good_check_arguments [parse_rules]:
  assumes "ok self" and "\<And>self'. moved (VALUE_SIZE - VALUE_SIZE * n) self self' \<Longrightarrow> Q self'"
  shows "good (tc_check_fn_arguments self fn n) Q"
  using assms(1)
  by (auto simp: tc_check_fn_arguments_def ends_simps intro!: parse_rules assms(2))

text \<open>\<open>pushes n f\<close>: with less than \<open>n\<close> characters left, \<open>f\<close> reads on and pushes exactly one value.\<close>

definition pushes :: "nat \<Rightarrow> (compiler \<Rightarrow> compiler res) \<Rightarrow> bool" where
  "pushes n f \<longleftrightarrow> (\<forall>self. ok self \<longrightarrow> left self < n \<longrightarrow> good (f self) (ahead VALUE_SIZE self))"

lemma pushesD:
  assumes "pushes n f" and "ok self" and "left self < n" and "\<And>self'. ahead VALUE_SIZE self self' \<Longrightarrow> Q self'"
  shows "good (f self) Q"
  using assms by (auto simp: pushes_def elim!: good_mono)

lemma good_fn_arguments:
  assumes "pushes n f" and "ok self" and "left self \<le> n" and "n < fuel"
    and "\<And>self'. ahead VALUE_SIZE self self' \<Longrightarrow> Q self'"
  shows "good (tc_parse_fn_arguments f fuel self fn) Q"
proof -
  have loop: "good (while_do fuel (\<lambda>(argument_count, self). next_token self \<noteq> 41)
      (\<lambda>(argument_count, self).
        seq (if argument_count > 0 then tc_parse_token self 44 else Ret self) (\<lambda>self.
        seq (f self) (\<lambda>self. Ret (argument_count + 1, self)))) (0, s))
      (\<lambda>(k, s'). ok s' \<and> symbols s' = symbols s \<and> heap s' = heap s + VALUE_SIZE * k \<and> left s' \<le> left s \<and> next_token s' = 41)"
    if s: "ok s" "left s < n" for s
  proof (rule good_while[where m = "\<lambda>(_, s). left s" and
        I = "\<lambda>(k, s'). ok s' \<and> symbols s' = symbols s \<and> heap s' = heap s + VALUE_SIZE * k \<and> left s' \<le> left s"])
  qed (use s assms(4) in \<open>auto simp: ends_simps distrib_left add.assoc intro!: parse_rules pushesD[OF assms(1)]\<close>)
  show ?thesis using assms(2-4)
    by (auto simp: tc_parse_fn_arguments_def Let_def ends_simps intro!: parse_rules good_mono[OF loop] assms(5))
qed

lemma good_sizeof_expr [parse_rules]:
  assumes "ok self" and "\<And>self'. ahead VALUE_SIZE self self' \<Longrightarrow> Q self'"
  shows "good (tc_parse_sizeof_expr self) Q"
  using assms(1)
  by (auto simp: tc_parse_sizeof_expr_def TC_SIZEOF_def ends_simps intro!: parse_rules assms(2))

lemma good_symbol_expr:
  assumes "pushes n f" and "ok self" and "left self \<le> n" and "n < fuel"
    and "\<And>self'. ahead VALUE_SIZE self self' \<Longrightarrow> Q self'"
  shows "good (tc_parse_symbol_expr f fuel self) Q"
  using assms(2-4)
  by (auto simp: tc_parse_symbol_expr_def ends_simps intro!: parse_rules good_fn_arguments[OF assms(1)] assms(5))

lemma good_primitive_expr:
  assumes "pushes n f" and "ok self" and "left self \<le> n" and "n < fuel"
    and "\<And>self'. ahead VALUE_SIZE self self' \<Longrightarrow> Q self'"
  shows "good (tc_parse_primitive_expr f fuel self) Q"
  using assms(2-4)
  by (auto simp: tc_parse_primitive_expr_def ends_simps TC_NULL_def
      intro!: parse_rules pushesD[OF assms(1)] good_symbol_expr[OF assms(1)] assms(5))

lemma good_path_expr:
  assumes "pushes n f" and "ok self" and "left self \<le> n" and "n < fuel"
    and "\<And>self'. ahead VALUE_SIZE self self' \<Longrightarrow> Q self'"
  shows "good (tc_parse_path_expr f fuel self) Q"
proof -
  let ?I = "\<lambda>s. ahead VALUE_SIZE self s"
  show ?thesis unfolding tc_parse_path_expr_def good_simps
  proof (rule good_primitive_expr[OF assms(1-4)])
    fix s assume s: "?I s"
    show "good (while_do fuel (\<lambda>self. next_token self = 46) (\<lambda>self.
       seq (tc_read_token self) (\<lambda>self.
       seq (tc_pop_value self) (\<lambda>(value, self).
       if val_type value = 0 \<or> val_dim value \<noteq> 1 then Panic 48
       else seq (get_symbol self (val_type value)) (\<lambda>type.
         seq (tc_parse_symbol self (sym_type type)) (\<lambda>(field, self).
         seq (tc_push_symbol_value self field) (\<lambda>self.
         seq (get_symbol self field) (\<lambda>f. tc_write_load_insn self (sym_value f)))))))) s) Q"
      by (rule good_while[where I = ?I and m = left])
        (use s assms(3,4) in \<open>auto simp: ends_simps intro!: parse_rules assms(5)\<close>)
  qed
qed

lemma pushes_mono: "pushes n f \<Longrightarrow> m \<le> n \<Longrightarrow> pushes m f"
  by (simp add: pushes_def)

lemma good_pointer_expr:
  assumes "pushes n f" and "ok self" and "left self \<le> n" and "Suc (left self) < fuel"
    and "\<And>self'. ahead VALUE_SIZE self self' \<Longrightarrow> Q self'"
  shows "good (tc_parse_pointer_expr f fuel self) Q"
proof -
  have "good (tc_parse_pointer_expr f fuel self) (ahead VALUE_SIZE self)" using assms(2-4)
  proof (induction fuel arbitrary: self)
    case (Suc fuel)
    have path: "good (tc_parse_path_expr f fuel s) R"
      if "ok s" "left s \<le> left self" "\<And>s'. ahead VALUE_SIZE s s' \<Longrightarrow> R s'" for s R
      by (rule good_path_expr[OF pushes_mono[OF assms(1), of "left s"]]) (use Suc.prems that in auto)
    have pointer: "good (tc_parse_pointer_expr f fuel s) R"
      if "ok s" "left s < left self" "\<And>s'. ahead VALUE_SIZE s s' \<Longrightarrow> R s'" for s R
      by (rule good_mono[OF Suc.IH]) (use Suc.prems that in auto)
    show ?case using Suc.prems(1)
      by (auto simp: TC_MUL_def TC_BIT_AND_def ends_simps intro!: parse_rules path pointer)
  qed simp
  then show ?thesis by (rule good_mono) (rule assms(5))
qed

lemma good_cast_expr:
  assumes "pushes n f" and "ok self" and "left self \<le> n" and "Suc n < fuel"
    and "\<And>self'. ahead VALUE_SIZE self self' \<Longrightarrow> Q self'"
  shows "good (tc_parse_cast_expr f fuel self) Q"
  using assms(2-4)
  by (auto simp: tc_parse_cast_expr_def TC_AS_def Let_def ends_simps
      intro!: parse_rules good_pointer_expr[OF assms(1)] assms(5))

lemma good_checks [parse_rules]:
  "ok self \<Longrightarrow> (\<And>self'. moved (- VALUE_SIZE) self self' \<Longrightarrow> Q self') \<Longrightarrow> good (tc_check_integer_expr self) Q"
  "ok self \<Longrightarrow> (\<And>self'. moved (- VALUE_SIZE) self self' \<Longrightarrow> Q self') \<Longrightarrow> good (tc_check_add_or_sub_expr self t) Q"
  "ok self \<Longrightarrow> (\<And>self'. moved (- (VALUE_SIZE + VALUE_SIZE)) self self' \<Longrightarrow> Q self') \<Longrightarrow>
    good (tc_check_comparison_expr self) Q"
  by (auto simp: tc_check_integer_expr_def tc_check_add_or_sub_expr_def tc_check_comparison_expr_def ends_simps
      intro!: parse_rules)

text \<open>The loops over operators of the same level are alike: with one operand parsed, each round reads
  an operator, parses an operand and combines the two.\<close>

lemma good_operators:
  assumes operand: "\<And>s R. ok s \<Longrightarrow> left s \<le> n \<Longrightarrow> (\<And>s'. ahead VALUE_SIZE s s' \<Longrightarrow> R s') \<Longrightarrow> good (operand s) R"
    and check: "\<And>t s R. ok s \<Longrightarrow> (\<And>s'. moved (- VALUE_SIZE) s s' \<Longrightarrow> R s') \<Longrightarrow> good (check s t) R"
    and c: "\<not> c 0" and s: "ok self" "left self \<le> n" "n < fuel" and Q: "\<And>s'. ahead VALUE_SIZE self s' \<Longrightarrow> Q s'"
  shows "good (seq (operand self) (\<lambda>self.
     seq (while_do fuel (\<lambda>(token, self). c token) (\<lambda>(token, self).
       seq (tc_read_token self) (\<lambda>self.
       seq (operand self) (\<lambda>self.
       seq (check self token) (\<lambda>self.
       seq (tc_write_binary_insn self token) (\<lambda>self. Ret (next_token self, self))))))
       (next_token self, self)) (\<lambda>(token, self). Ret self))) Q"
  unfolding good_simps
proof (rule operand[OF s(1,2)])
  fix s' assume s': "ahead VALUE_SIZE self s'"
  have c': "c t \<Longrightarrow> t \<noteq> 0" for t using c by auto
  let ?I = "\<lambda>(t, s). t = next_token s \<and> ahead VALUE_SIZE self s"
  show "good (while_do fuel (\<lambda>(token, self). c token) (\<lambda>(token, self).
       seq (tc_read_token self) (\<lambda>self.
       seq (operand self) (\<lambda>self.
       seq (check self token) (\<lambda>self.
       seq (tc_write_binary_insn self token) (\<lambda>self. Ret (next_token self, self))))))
       (next_token s', s')) (\<lambda>x. good (case x of (token, self) \<Rightarrow> Ret self) Q)"
    by (rule good_while[where I = ?I and m = "\<lambda>(t, s). left s"])
      (use s s' in \<open>auto simp: ends_simps intro!: parse_rules operand check Q dest!: c'\<close>)
qed

lemma good_operators_of:
  assumes operand: "\<And>s R. ok s \<Longrightarrow> left s \<le> n \<Longrightarrow> (\<And>s'. ahead VALUE_SIZE s s' \<Longrightarrow> R s') \<Longrightarrow> good (operand s) R"
    and t: "t \<noteq> 0" and s: "ok self" "left self \<le> n" "n < fuel" and Q: "\<And>s'. ahead VALUE_SIZE self s' \<Longrightarrow> Q s'"
  shows "good (seq (operand self) (\<lambda>self.
     while_do fuel (\<lambda>self. next_token self = t) (\<lambda>self.
       seq (tc_read_token self) (\<lambda>self.
       seq (operand self) (\<lambda>self.
       seq (tc_check_integer_expr self) (\<lambda>self. tc_write_binary_insn self t)))) self)) Q"
  unfolding good_simps
proof (rule operand[OF s(1,2)])
  fix s' assume s': "ahead VALUE_SIZE self s'"
  show "good (while_do fuel (\<lambda>self. next_token self = t) (\<lambda>self.
       seq (tc_read_token self) (\<lambda>self.
       seq (operand self) (\<lambda>self.
       seq (tc_check_integer_expr self) (\<lambda>self. tc_write_binary_insn self t)))) s') Q"
    by (rule good_while[where I = "ahead VALUE_SIZE self" and m = left])
      (use s s' t in \<open>auto simp: ends_simps intro!: parse_rules operand Q\<close>)
qed

lemma good_mult_expr:
  assumes "pushes n f" and "ok self" and "left self \<le> n" and "Suc n < fuel"
    and "\<And>self'. ahead VALUE_SIZE self self' \<Longrightarrow> Q self'"
  shows "good (tc_parse_mult_expr f fuel self) Q"
  unfolding tc_parse_mult_expr_def
  by (rule good_operators[where n = n and check = "\<lambda>s t. tc_check_integer_expr s"])
    (use assms(2-4) in \<open>auto simp: TC_MUL_def TC_DIV_def
      intro: good_cast_expr[OF assms(1)] good_checks assms(5)\<close>)

lemma good_add_expr:
  assumes "pushes n f" and "ok self" and "left self \<le> n" and "Suc n < fuel"
    and "\<And>self'. ahead VALUE_SIZE self self' \<Longrightarrow> Q self'"
  shows "good (tc_parse_add_expr f fuel self) Q"
  unfolding tc_parse_add_expr_def
  by (rule good_operators[where n = n and check = tc_check_add_or_sub_expr])
    (use assms(2-4) in \<open>auto simp: TC_ADD_def TC_SUB_def
      intro: good_mult_expr[OF assms(1)] good_checks assms(5)\<close>)

lemma good_shift_expr:
  assumes "pushes n f" and "ok self" and "left self \<le> n" and "Suc n < fuel"
    and "\<And>self'. ahead VALUE_SIZE self self' \<Longrightarrow> Q self'"
  shows "good (tc_parse_shift_expr f fuel self) Q"
  using assms(2-4)
  by (auto simp: tc_parse_shift_expr_def TC_SHIFT_LEFT_def TC_SHIFT_RIGHT_def Let_def ends_simps
      intro!: parse_rules good_add_expr[OF assms(1)] assms(5))

lemma good_bit_and_expr:
  assumes "pushes n f" and "ok self" and "left self \<le> n" and "Suc n < fuel"
    and "\<And>self'. ahead VALUE_SIZE self self' \<Longrightarrow> Q self'"
  shows "good (tc_parse_bit_and_expr f fuel self) Q"
  unfolding tc_parse_bit_and_expr_def
  by (rule good_operators_of[where n = n])
    (use assms(2-4) in \<open>auto simp: TC_BIT_AND_def intro: good_shift_expr[OF assms(1)] assms(5)\<close>)

lemma pushes_expr: "pushes (fuel - 2) (tc_parse_expr fuel)"
proof (induction fuel)
  case (Suc fuel)
  have "good (tc_parse_expr (Suc fuel) self) (ahead VALUE_SIZE self)" if s: "ok self" "left self < fuel - 1" for self
  proof -
    have p: "pushes (left self) (tc_parse_expr fuel)" by (rule pushes_mono[OF Suc]) (use s in simp)
    show ?thesis unfolding tc_parse_expr.simps
      by (rule good_operators_of[where n = "left self"])
        (use s in \<open>auto simp: TC_BIT_OR_def intro: good_bit_and_expr[OF p]\<close>)
  qed
  then show ?case by (simp add: pushes_def)
qed (simp add: pushes_def)

lemma good_expr [parse_rules]:
  assumes "ok self" and "left self + 2 < fuel" and "\<And>self'. ahead VALUE_SIZE self self' \<Longrightarrow> Q self'"
  shows "good (tc_parse_expr fuel self) Q"
  by (rule pushesD[OF pushes_expr assms(1)]) (use assms in auto)

end
