(* ===== verification/Tc_Termination.thy ===== *)
theory Tc_Termination
  imports Tc_Progress
begin

text \<open>
  Termination of statements, declarations and programs, and what they promise about the heap: an
  expression statement leaves the stack of values as it found it; a declaration adds symbols above it.
\<close>

section \<open>Conditions\<close>

lemma good_comparison_expr [parse_rules]:
  assumes "ok self" and "left self + 2 < fuel" and "\<And>t self'. ahead 0 self self' \<Longrightarrow> Q (t, self')"
  shows "good (tc_parse_comparison_expr fuel self) Q"
  using assms(1,2)
  by (auto simp: tc_parse_comparison_expr_def TC_LT_def TC_GE_def Let_def ends_simps intro!: parse_rules assms(3))

lemma good_and_expr [parse_rules]:
  assumes "ok self" and "left self + 2 < fuel" and "\<And>t p self'. ahead 0 self self' \<Longrightarrow> Q (t, p, self')"
  shows "good (tc_parse_and_expr fuel self refs) Q"
  unfolding tc_parse_and_expr_def good_simps
proof (rule good_comparison_expr[OF assms(1,2)])
  fix t s assume s: "ahead 0 self s"
  show "good (case (t, s) of (token, self) \<Rightarrow>
     while_do fuel (\<lambda>(token, else_refs, self). next_token self = TC_AND) (\<lambda>(token, else_refs, self).
       seq (tc_read_token self) (\<lambda>self.
       seq (tc_write_jump_insn self (TC_LT + TC_GE - token) else_refs) (\<lambda>(else_refs, self).
       seq (tc_parse_comparison_expr fuel self) (\<lambda>(token, self). Ret (token, else_refs, self)))))
       (token, refs, self)) Q"
    unfolding prod.case
    by (rule good_while[where I = "\<lambda>(_, _, s). ahead 0 self s" and m = "\<lambda>(_, _, s). left s"])
      (use s assms(2) in \<open>auto simp: TC_AND_def ends_simps intro!: parse_rules assms(3) split: prod.splits\<close>)
qed

lemma good_boolean_expr [parse_rules]:
  assumes "ok self" and "left self + 2 < fuel" and "\<And>t p self'. ahead 0 self self' \<Longrightarrow> Q (t, p, self')"
  shows "good (tc_parse_boolean_expr fuel self refs) Q"
  unfolding tc_parse_boolean_expr_def good_simps
proof (rule good_and_expr[OF assms(1,2)])
  fix t p s assume s: "ahead 0 self s"
  show "good (case (t, p, s) of (token, else_refs, self) \<Rightarrow>
     seq (while_do fuel (\<lambda>(token, else_refs, then_refs, self). next_token self = TC_OR)
       (\<lambda>(token, else_refs, then_refs, self).
         seq (tc_read_token self) (\<lambda>self.
         seq (tc_write_jump_insn self token then_refs) (\<lambda>(then_refs, self).
         seq (tc_fill_placeholders self else_refs (dst self)) (\<lambda>self.
         seq (tc_parse_and_expr fuel self 0) (\<lambda>(token, else_refs, self).
         Ret (token, else_refs, then_refs, self))))))
       (token, else_refs, refs, self)) (\<lambda>(token, else_refs, then_refs, self).
     seq (tc_write_jump_insn self (TC_LT + TC_GE - token) else_refs) (\<lambda>(else_refs, self).
     Ret (else_refs, then_refs, self)))) Q"
    unfolding prod.case good_simps
    by (rule good_while[where I = "\<lambda>(_, _, _, s). ahead 0 self s" and m = "\<lambda>(_, _, _, s). left s"])
      (use s assms(2) in \<open>auto simp: TC_OR_def ends_simps intro!: parse_rules assms(3) split: prod.splits\<close>)
qed

section \<open>Statements\<close>

definition parses :: "nat \<Rightarrow> stmt_parser \<Rightarrow> bool" where
  "parses n f \<longleftrightarrow> (\<forall>self r. ok self \<longrightarrow> left self < n \<longrightarrow> good (f self r) (\<lambda>(_, _, self'). ahead 0 self self'))"

lemma parsesD:
  assumes "parses n f" and "ok self" and "left self < n" and "\<And>t r self'. ahead 0 self self' \<Longrightarrow> Q (t, r, self')"
  shows "good (f self r) Q"
  by (rule good_mono[where Q = "\<lambda>(_, _, self'). ahead 0 self self'"]) (use assms in \<open>auto simp: parses_def\<close>)

lemma parses_mono: "parses n f \<Longrightarrow> m \<le> n \<Longrightarrow> parses m f"
  by (simp add: parses_def)

lemma good_block_stmt:
  assumes "parses n f" and "ok self" and "left self \<le> n" and "n < fuel"
    and "\<And>t r self'. ahead 0 self self' \<Longrightarrow> Q (t, r, self')"
  shows "good (tc_parse_block_stmt f fuel self r) Q"
proof -
  have loop: "good (while_do fuel (\<lambda>(state, break_refs, self). next_token self \<noteq> 125)
       (\<lambda>(state, break_refs, self). if state = END_UNREACHABLE then Panic 37 else f self break_refs)
       (t, r, s)) (\<lambda>(_, _, s'). ok s' \<and> symbols s' = symbols s \<and> heap s' = heap s \<and> left s' \<le> left s \<and> next_token s' = 125)"
    if s: "ok s" "left s < n" for s t r
    by (rule good_while[where m = "\<lambda>(_, _, s). left s" and
        I = "\<lambda>(_, _, s'). ok s' \<and> symbols s' = symbols s \<and> heap s' = heap s \<and> left s' \<le> left s"])
      (use s assms(4) in \<open>auto simp: ends_simps intro!: parsesD[OF assms(1)]\<close>)
  show ?thesis using assms(2-4)
    by (auto simp: tc_parse_block_stmt_def ends_simps intro!: parse_rules good_mono[OF loop] assms(5))
qed

lemma good_assignment [parse_rules]:
  assumes "ok self" and "left self + 2 < fuel" and "\<And>self'. ahead (- VALUE_SIZE) self self' \<Longrightarrow> Q self'"
  shows "good (tc_parse_assignment fuel self) Q"
  using assms(1,2)
  by (auto simp: tc_parse_assignment_def Let_def ends_simps intro!: parse_rules assms(3))

lemma good_simple_stmts [parse_rules]:
  assumes "ok self" and "left self + 2 < fuel" and "\<And>t r self'. ahead 0 self self' \<Longrightarrow> Q (t, r, self')"
  shows "good (tc_parse_expr_or_assign_stmt fuel self r) Q" "good (tc_parse_return_stmt fuel self r) Q"
    "good (tc_parse_break_stmt self p) Q"
  using assms(1,2)
  by (auto simp: tc_parse_expr_or_assign_stmt_def tc_parse_return_stmt_def tc_parse_break_stmt_def
      TC_RETURN_def TC_BREAK_def ends_simps intro!: parse_rules assms(3) split: prod.splits)

lemma good_while_or_loop_stmt:
  assumes "parses n f" and "ok self" and "left self \<le> n" and "n + 2 < fuel" and "next_token self \<noteq> 0"
    and "\<And>t r self'. ahead 0 self self' \<Longrightarrow> Q (t, r, self')"
  shows "good (tc_parse_while_or_loop_stmt f fuel self r) Q"
  using assms(2-5)
  by (auto simp: tc_parse_while_or_loop_stmt_def Let_def ends_simps
      intro!: parse_rules good_block_stmt[OF assms(1)] assms(6))

lemma good_if_stmt:
  assumes "parses n f" and "ok self" and "left self \<le> n" and "left self + 3 < fuel"
    and "\<And>t r self'. ahead 0 self self' \<Longrightarrow> Q (t, r, self')"
  shows "good (tc_parse_if_stmt f fuel self r) Q"
proof -
  have "good (tc_parse_if_stmt f fuel self r) (\<lambda>(_, _, self'). ahead 0 self self')" using assms(2-4)
  proof (induction fuel arbitrary: self r)
    case (Suc fuel)
    have block: "good (tc_parse_block_stmt f fuel s r) R"
      if "ok s" "left s \<le> left self" "\<And>t r s'. ahead 0 s s' \<Longrightarrow> R (t, r, s')" for s r R
      by (rule good_block_stmt[OF parses_mono[OF assms(1), of "left s"]]) (use Suc.prems that in auto)
    have else_if: "good (tc_parse_if_stmt f fuel s r) R"
      if "ok s" "left s < left self" "\<And>t r s'. ahead 0 s s' \<Longrightarrow> R (t, r, s')" for s r R
      by (rule good_mono[OF Suc.IH]) (use Suc.prems that in auto)
    show ?case using Suc.prems
      by (auto simp: TC_IF_def TC_ELSE_def ends_simps intro!: parse_rules block else_if split: prod.splits)
  qed simp
  then show ?thesis by (rule good_mono) (auto intro: assms(5))
qed

lemma parses_stmt: "parses (fuel - 4) (tc_parse_stmt fuel)"
proof (induction fuel)
  case (Suc fuel)
  have "good (tc_parse_stmt (Suc fuel) self r) (\<lambda>(_, _, self'). ahead 0 self self')"
    if s: "ok self" "left self < fuel - 3" for self r
  proof -
    have p: "parses (left self) (tc_parse_stmt fuel)" by (rule parses_mono[OF Suc]) (use s in simp)
    show ?thesis unfolding tc_parse_stmt.simps using s
      by (cases r) (auto simp: TC_WHILE_def TC_LOOP_def
          intro!: good_simple_stmts good_if_stmt[OF p] good_while_or_loop_stmt[OF p])
  qed
  then show ?case by (simp add: parses_def del: tc_parse_stmt.simps)
qed (simp add: parses_def)

lemma good_stmt [parse_rules]:
  assumes "ok self" and "left self + 4 < fuel" and "\<And>t r self'. ahead 0 self self' \<Longrightarrow> Q (t, r, self')"
  shows "good (tc_parse_stmt fuel self r) Q"
  by (rule parsesD[OF parses_stmt assms(1)]) (use assms in auto)

section \<open>Declarations\<close>

text \<open>A declaration reads on and leaves the symbol table below the heap pointer, which does not go
  down.\<close>

definition declares :: "compiler \<Rightarrow> compiler \<Rightarrow> bool" where
  "declares self self' \<longleftrightarrow> ok self' \<and> symbols self' < heap self' \<and> heap self \<le> heap self' \<and> left self' < left self"

lemma good_const [parse_rules]:
  assumes "ok self" and "symbols self < heap self" and "left self + 4 < fuel" and "\<And>self'. declares self self' \<Longrightarrow> Q self'"
  shows "good (tc_parse_const fuel self) Q"
  using assms(1-3)
  by (auto simp: tc_parse_const_def TC_CONST_def declares_def ends_simps
      intro!: parse_rules assms(4))

lemma good_let [parse_rules]:
  assumes "ok self" and "symbols self < heap self" and "left self + 4 < fuel"
    and "\<And>v self'. declares self self' \<Longrightarrow> Q (v, self')"
  shows "good (tc_parse_let_stmt fuel self v) Q"
  using assms(1-3)
  by (auto simp: tc_parse_let_stmt_def TC_LET_def Let_def declares_def ends_simps
      intro!: parse_rules assms(4))

lemma good_static [parse_rules]:
  assumes "ok self" and "symbols self < heap self" and "left self + 4 < fuel" and "\<And>self'. declares self self' \<Longrightarrow> Q self'"
  shows "good (tc_parse_static fuel self) Q"
proof -
  have loop: "good (while_do fuel (\<lambda>self. next_token self = 44) (\<lambda>self.
       seq (tc_read_token self) (\<lambda>self.
       seq (tc_parse_integer self) (\<lambda>(v, self). tc_write8 self v))) s)
      (\<lambda>s'. ok s' \<and> symbols s' = symbols s \<and> heap s' = heap s \<and> left s' \<le> left s)" if s: "ok s" "left s < left self" for s
    by (rule good_while[where m = left and I = "\<lambda>s'. ok s' \<and> symbols s' = symbols s \<and> heap s' = heap s \<and> left s' \<le> left s"])
      (use s assms(3) in \<open>auto simp: ends_simps intro!: parse_rules\<close>)
  show ?thesis using assms(1-3)
    by (auto simp: tc_parse_static_def TC_STATIC_def declares_def ends_simps
        intro!: parse_rules assms(4) good_mono[OF loop])
qed

text \<open>The loops over fields and parameters build a list of symbols of their own.\<close>

lemma good_fields:
  fixes body :: "u64 \<times> u64 \<times> compiler \<Rightarrow> (u64 \<times> u64 \<times> compiler) res"
  assumes body: "body = (\<lambda>(fs, v, self).
       seq (if v > 0 then tc_parse_token self 44 else Ret self) (\<lambda>self.
       seq (tc_parse_identifier self) (\<lambda>(name, len, self).
       seq (tc_parse_token self 58) (\<lambda>self.
       seq (tc_parse_type fuel self) (\<lambda>(type, dim, self).
       seq (tc_new_symbol self name len kind v type dim fs) (\<lambda>(fs, self).
       Ret (fs, v + 1, self)))))))"
    and s: "ok s" "symbols s < heap s" "left s + 4 < fuel"
  shows "good (while_do fuel (\<lambda>(fs, v, self). next_token self \<noteq> t) body (0, 0, s))
    (\<lambda>(fs, _, s'). ok s' \<and> fs < heap s' \<and> symbols s' = symbols s \<and> symbols s < heap s' \<and> heap s \<le> heap s' \<and>
       left s' \<le> left s \<and> next_token s' = t)"
proof (rule good_while[where m = "\<lambda>(_, _, s). left s" and I = "\<lambda>(fs, _, s'). ok s' \<and> fs < heap s' \<and>
    symbols s' = symbols s \<and> symbols s < heap s' \<and> heap s \<le> heap s' \<and> left s' \<le> left s"])
  show "case (0, 0, s) of (fs, _, s') \<Rightarrow> ok s' \<and> fs < heap s' \<and>
    symbols s' = symbols s \<and> symbols s < heap s' \<and> heap s \<le> heap s' \<and> left s' \<le> left s"
    using s by (auto intro: le_less_trans[OF word_zero_le])
qed ((use s in \<open>auto simp: body ends_simps intro!: parse_rules\<close>),
    (erule less_le_trans, assumption | erule order.trans, assumption)+)

lemma good_struct [parse_rules]:
  assumes "ok self" and "symbols self < heap self" and "left self + 4 < fuel" and "\<And>self'. declares self self' \<Longrightarrow> Q self'"
  shows "good (tc_parse_struct fuel self) Q"
  using assms(1-3)
  by (auto simp: tc_parse_struct_def TC_STRUCT_def declares_def ends_simps
      intro!: parse_rules assms(4) good_mono[OF good_fields[OF refl]])
    (erule less_le_trans, assumption | erule order.trans, assumption)+

lemma good_add_or_resolve [parse_rules]:
  assumes "ok self" and "symbols self < heap self"
    and "\<And>p self'. ok self' \<Longrightarrow> symbols self' < heap self' \<Longrightarrow> heap self \<le> heap self' \<Longrightarrow> left self' = left self \<Longrightarrow>
      next_token self' = next_token self \<Longrightarrow> Q (p, self')"
  shows "good (tc_add_or_resolve_fn_symbol self name len v) Q"
  using assms(1,2)
  by (auto simp: tc_add_or_resolve_fn_symbol_def ends_simps intro!: parse_rules assms(3))

lemma good_check_parameters [parse_rules]:
  assumes "ok self" and "Q ()"
  shows "good (tc_check_fn_parameters self p q) Q"
proof -
  have loop: "good (tc_check_fn_parameters_loop self p q) (\<lambda>_. True)" for p q
  proof (induction q arbitrary: p rule: measure_induct_rule[of unat])
    case (less q)
    have "good (tc_check_fn_parameters_loop self p' q') (\<lambda>_. True)" if "q' < q" for p' q'
      using less that by (simp add: less_u64)
    then show ?case using assms(1)
      by (subst tc_check_fn_parameters_loop.simps) (auto intro!: parse_rules)
  qed
  show ?thesis using assms(2)
    by (auto simp: tc_check_fn_parameters_def intro!: good_mono[OF loop])
qed

lemma good_fn_parameters [parse_rules]:
  assumes "ok self" and "symbols self < heap self" and "left self + 4 < fuel"
    and "\<And>n self'. declares self self' \<Longrightarrow> Q (n, self')"
  shows "good (tc_parse_fn_parameters fuel self fn) Q"
  using assms(1-3)
  by (auto simp: tc_parse_fn_parameters_def TC_ARROW_def declares_def ends_simps
      intro!: parse_rules assms(4) good_mono[OF good_fields[OF refl]])
    (erule less_le_trans, assumption | erule order.trans, assumption)+

lemma good_fn_asm_body [parse_rules]:
  assumes "ok self" and "left self + 4 < fuel" and "\<And>self'. ahead 0 self self' \<Longrightarrow> Q self'"
  shows "good (tc_parse_fn_asm_body fuel self) Q"
proof -
  have loop: "good (while_do fuel (\<lambda>(i, self). next_token self \<noteq> 93) (\<lambda>(i, self).
       seq (if i > 0 then tc_parse_token self 44 else Ret self) (\<lambda>self.
       seq (tc_parse_integer self) (\<lambda>(v, self).
       seq (tc_write8 self v) (\<lambda>self. Ret (i + 1, self))))) (0 :: u64, s))
      (\<lambda>(_, s'). ok s' \<and> symbols s' = symbols s \<and> heap s' = heap s \<and> left s' \<le> left s \<and> next_token s' = 93)"
    if s: "ok s" "left s < left self" for s
    by (rule good_while[where m = "\<lambda>(_, s). left s" and
        I = "\<lambda>(_, s'). ok s' \<and> symbols s' = symbols s \<and> heap s' = heap s \<and> left s' \<le> left s"])
      (use s assms(2) in \<open>auto simp: ends_simps intro!: parse_rules\<close>)
  show ?thesis using assms(1,2)
    by (auto simp: tc_parse_fn_asm_body_def ends_simps intro!: parse_rules assms(3) good_mono[OF loop])
qed

lemma good_add_parameters [parse_rules]:
  assumes "ok self" and "symbols self < heap self"
    and "\<And>self'. ok self' \<Longrightarrow> symbols self' < heap self' \<Longrightarrow> heap self \<le> heap self' \<Longrightarrow> left self' = left self \<Longrightarrow>
      next_token self' = next_token self \<Longrightarrow> Q self'"
  shows "good (tc_add_parameters_loop self arity p) Q"
proof -
  let ?Q = "\<lambda>self self'. ok self' \<and> symbols self' < heap self' \<and> heap self \<le> heap self' \<and> left self' = left self \<and>
      next_token self' = next_token self"
  have "good (tc_add_parameters_loop self arity p) (?Q self)" using assms(1,2)
  proof (induction p arbitrary: self rule: measure_induct_rule[of unat])
    case (less p)
    have IH: "good (tc_add_parameters_loop s arity q) (?Q s)" if "ok s" "symbols s < heap s" "q < p" for s q
      using less.IH[of q s] that by (simp add: less_u64)
    show ?case using less.prems
      by (subst tc_add_parameters_loop.simps) (auto intro!: parse_rules good_mono[OF IH])
  qed
  then show ?thesis by (rule good_mono) (auto intro: assms(3))
qed

text \<open>The body of a function may add parameters and variables, which are dropped at its end.\<close>

lemma good_fn_body [parse_rules]:
  assumes "ok self" and "symbols self < heap self" and "left self + 4 < fuel"
    and "\<And>self'. ok self' \<Longrightarrow> left self' < left self \<Longrightarrow> Q self'"
  shows "good (tc_parse_fn_body fuel self fn arity) Q"
proof -
  let ?body = "\<lambda>(next_variable, state, self).
      if state = END_UNREACHABLE then Panic 40
      else if next_token self = TC_CONST
      then seq (tc_parse_const fuel self) (\<lambda>self. Ret (next_variable, state, self))
      else if next_token self = TC_LET
      then seq (tc_parse_let_stmt fuel self next_variable) (\<lambda>(next_variable, self).
        Ret (next_variable, state, self))
      else seq (tc_parse_stmt fuel self None) (\<lambda>(state, _, self). Ret (next_variable, state, self))"
  have loop: "good (while_do fuel (\<lambda>(next_variable, state, self). next_token self \<noteq> 125) ?body (v, t, s))
      (\<lambda>(_, _, s'). ok s' \<and> left s' \<le> left s \<and> next_token s' = 125)"
    if s: "ok s" "symbols s < heap s" "left s < left self" for v t s
    by (rule good_while[where m = "\<lambda>(_, _, s). left s" and
        I = "\<lambda>(_, _, s'). ok s' \<and> symbols s' < heap s' \<and> left s' \<le> left s"])
      (use s assms(3) in \<open>auto simp: ends_simps declares_def intro!: parse_rules\<close>)
  show ?thesis using assms(1-3)
    by (auto simp: tc_parse_fn_body_def ends_simps intro!: parse_rules assms(4) good_mono[OF loop])
qed

lemma good_fn [parse_rules]:
  assumes "ok self" and "symbols self < heap self" and "left self + 4 < fuel" and "\<And>self'. declares self self' \<Longrightarrow> Q self'"
  shows "good (tc_parse_fn fuel self) Q"
  using assms(1-3)
  by (auto simp: tc_parse_fn_def tc_parse_fn_name_def TC_FN_def Let_def declares_def ends_simps
      intro!: parse_rules assms(4))
    (erule order.trans, assumption)+

lemma good_program:
  assumes "ok self" and "symbols self < heap self" and "left self + 4 < fuel"
  shows "good (tc_parse_program fuel self) (\<lambda>self'. ok self' \<and> next_token self' = 0)"
  unfolding tc_parse_program_def good_simps
  by (rule good_while[where m = left and I = "\<lambda>s. ok s \<and> symbols s < heap s \<and> left s \<le> left self"])
    (use assms in \<open>auto simp: declares_def intro!: parse_rules\<close>)

end
