(* ===== verification/Tc_Parser_Properties.thy ===== *)
theory Tc_Parser_Properties
  imports Tc_Termination Tc_Backend_Properties
begin

text \<open>
  What the compiler promises as a whole: it ends on every input and consumes all of it; the stack of
  values and the symbol table are kept in order.
\<close>

section \<open>Termination\<close>

text \<open>The state of \<open>main\<close> in front of the first \<open>tc_read_token\<close>.\<close>

lemma start_ok:
  assumes "read_inputs inputs [0] = Some input" and "0 < h"
  obtains t self where "tc_read_char (init_compiler d h input) = Ret (t, self)" "scan_ok self"
    "remaining self = concat inputs" "descending (cells self)" "symbols self < heap self" "length (concat inputs) < 65536"
proof -
  have i: "input = 0 # concat inputs" "length input \<le> MAX_SRC_SIZE"
    using read_inputs_concat[OF _ assms(1)] by (auto simp: MAX_SRC_SIZE_def)
  obtain t where t: "tc_read_char (init_compiler d h input) = Ret (t, goto 1 (init_compiler d h input))"
    using read_first_char[OF _ i(2)] i(1) by auto
  obtain t' self where s: "tc_read_char (init_compiler d h input) = Ret (t', self)" "scan_ok self"
    "remaining self = concat inputs" using compiler_starts_scanning[OF assms(1)] by blast
  have "self = goto 1 (init_compiler d h input)" using t s(1) by simp
  then have "descending (cells self)" "symbols self < heap self"
    using assms(2) by (simp_all add: descending_def goto_def init_compiler_def)
  moreover have "length (concat inputs) < 65536" using i by (simp add: MAX_SRC_SIZE_def)
  ultimately show thesis using that s by blast
qed

lemma good_first_token:
  assumes "scan_ok self" and "descending (cells self)"
    and "\<And>self'. ok self' \<Longrightarrow> symbols self' = symbols self \<Longrightarrow> heap self' = heap self \<Longrightarrow>
      left self' \<le> length (remaining self) \<Longrightarrow> Q self'"
  shows "good (tc_read_token self) Q"
proof (rule goodI)
  show "tc_read_token self \<noteq> OutOfFuel" using read_token[OF assms(1)] by (auto split: sum.splits)
  fix self' assume r: "tc_read_token self = Ret self'"
  have k: "scan_ok self'" "off_scanner self' = off_scanner self"
    using read_token[OF assms(1)] r by (auto split: sum.splits)
  have f: "f (off_scanner self') = f (off_scanner self)" for f :: "compiler \<Rightarrow> 'a" using k(2) by simp
  have "symbols self' = symbols self" "heap self' = heap self" "cells self' = cells self"
    using f[of symbols] f[of heap] f[of cells] by (simp_all add: off_scanner_def)
  moreover have "left self' \<le> length (remaining self)" "next_token self' = 0 \<longrightarrow> remaining self' = []"
    using read_token_advances[OF assms(1) r] by (simp_all add: left_def split: if_splits)
  ultimately show "Q self'" using k(1) assms(2) by (intro assms(3)) (simp_all add: ok_def)
qed

text \<open>C4. The compiler ends: for input files that fit in \<open>SRC\<close> and any fuel from 65541 on, compiling
  does not run out of fuel. When it succeeds, the parser that \<open>main\<close> has started behind the first
  token has come to a state in which all of the source is consumed, and the code in this state is
  what \<open>main\<close> writes.\<close>

theorem compiler_terminates:
  assumes "read_inputs inputs [0] = Some input" and "0 < h" and "fuel \<ge> 65541"
  shows "toyc_compile fuel (init_compiler d h input) \<noteq> OutOfFuel \<and>
    (\<forall>bs. toyc_compile fuel (init_compiler d h input) = Ret bs \<longrightarrow>
      (\<exists>t self0 self1 self. tc_read_char (init_compiler d h input) = Ret (t, self0) \<and> tc_read_token self0 = Ret self1 \<and>
        tc_parse_program fuel self1 = Ret self \<and> next_token self = 0 \<and> remaining self = [] \<and>
        bs = take (unat (dst self - code_base self)) (code self)))"
proof -
  obtain t self0 where s: "tc_read_char (init_compiler d h input) = Ret (t, self0)" "scan_ok self0"
    "remaining self0 = concat inputs" "descending (cells self0)" "symbols self0 < heap self0" "length (concat inputs) < 65536"
    using start_ok[OF assms(1,2)] by blast
  have "good (tc_read_token self0) (\<lambda>self1. good (tc_parse_program fuel self1) (\<lambda>self. next_token self = 0 \<and> remaining self = []))"
    using s assms(3) by (auto simp: ok_def intro!: good_first_token good_mono[OF good_program])
  then show ?thesis
  proof (cases "tc_read_token self0")
    case (Ret self1)
    then have "good (tc_parse_program fuel self1) (\<lambda>self. next_token self = 0 \<and> remaining self = [])"
      using \<open>good _ _\<close> by simp
    then show ?thesis using s(1) Ret by (cases "tc_parse_program fuel self1") (simp_all add: toyc_compile_def)
  qed (use s(1) in \<open>simp_all add: toyc_compile_def\<close>)
qed

theorem compiler_terminates_witness:
  "toyc_compile 65541 (init_compiler 4096 65536 (0 # map of_char ''fn f() { loop { f(); } }'')) \<noteq> OutOfFuel"
  using compiler_terminates[of "[map of_char ''fn f() { loop { f(); } }'']" "0 # map of_char ''fn f() { loop { f(); } }''" 65536 65541 4096]
  by (simp add: MAX_SRC_SIZE_def)

section \<open>The stack of values\<close>

text \<open>C11. The parser keeps its stack: from a well-formed state, with enough fuel, parsing an expression
  ends, and if it returns, exactly one value has been pushed, the symbol table is the same, and some
  of the source has been consumed; parsing a statement leaves the heap pointer and the symbol table as
  they were; and parsing a function leaves the symbol table below the heap pointer. The state stays
  well-formed: the lists of symbols go down, so they end.\<close>

theorem parser_keeps_stack:
  assumes "ok self" and "left self + 4 < fuel"
  shows "tc_parse_expr fuel self \<noteq> OutOfFuel \<and> tc_parse_stmt fuel self r \<noteq> OutOfFuel \<and>
    (\<forall>self'. tc_parse_expr fuel self = Ret self' \<longrightarrow> ok self' \<and> symbols self' = symbols self \<and>
      heap self' = heap self + VALUE_SIZE \<and> left self' < left self) \<and>
    (\<forall>state r' self'. tc_parse_stmt fuel self r = Ret (state, r', self') \<longrightarrow> ok self' \<and>
      symbols self' = symbols self \<and> heap self' = heap self \<and> left self' < left self) \<and>
    (symbols self < heap self \<longrightarrow> (\<forall>self'. tc_parse_fn fuel self = Ret self' \<longrightarrow> ok self' \<and>
      symbols self' < heap self' \<and> heap self \<le> heap self' \<and> left self' < left self))"
proof -
  have "good (tc_parse_expr fuel self) (ahead VALUE_SIZE self)" using assms by (auto intro: good_expr)
  moreover have "good (tc_parse_stmt fuel self r) (\<lambda>(_, _, self'). ahead 0 self self')"
    using assms by (auto intro: good_stmt)
  moreover have "symbols self < heap self \<Longrightarrow> good (tc_parse_fn fuel self) (declares self)"
    using assms by (auto intro: good_fn)
  ultimately show ?thesis by (auto simp: good_def ahead_def declares_def)
qed

lemma lex_expr_sample: "lex (chars ''1+2;'') = Inr (Number 1, chars ''+2;'')"
  by code_simp

theorem parser_keeps_stack_witness:
  "\<exists>self. remaining self = chars ''+2;'' \<and> next_token self = TC_INTEGER \<and> tc_parse_expr 10 self \<noteq> OutOfFuel \<and>
    (\<forall>self'. tc_parse_expr 10 self = Ret self' \<longrightarrow> heap self' = heap self + VALUE_SIZE)"
proof -
  have s: "scan_ok (scanner (chars ''1+2;''))" "remaining (scanner (chars ''1+2;'')) = chars ''1+2;''"
    by (simp_all add: scanner_ok sample_length)
  obtain self where r: "tc_read_token (scanner (chars ''1+2;'')) = Ret self" "remaining self = chars ''+2;''"
    "next_token self = TC_INTEGER"
    using scan_two[OF s(1), unfolded s(2), OF lex_expr_sample] by (auto simp: token_of_def)
  have "good (tc_read_token (scanner (chars ''1+2;''))) ok"
    using s(1) by (intro good_first_token) (auto simp: scanner_def init_compiler_def goto_def descending_def)
  then have "ok self" by (simp add: r(1))
  moreover have "left self + 4 < 10" using r by (simp add: left_def sample_length)
  ultimately show ?thesis using r parser_keeps_stack[of self 10 None] by blast
qed

end
