(* ===== verification/Tc_Tokens.thy ===== *)
theory Tc_Tokens
  imports Tc_Progress Tc_Saved
begin

text \<open>
  The token stream: \<open>sees self ts\<close> says that the parser is in front of the tokens \<open>ts\<close> of the reference
  lexer, the first of which has been read already. What follows \<open>ts\<close> in the source is open. The
  functions that read one token are the steps on the stream.
\<close>

fun lexes :: "u8 list \<Rightarrow> lexeme list \<Rightarrow> bool" where
  "lexes cs [] = True"
| "lexes cs (t # ts) = (case lex cs of Inl e \<Rightarrow> False | Inr (l, r) \<Rightarrow> l = t \<and> lexes r ts)"

fun sees :: "compiler \<Rightarrow> lexeme list \<Rightarrow> bool" where
  "sees self [] = True"
| "sees self (t # ts) = (scan_ok self \<and> has_lexeme self t \<and> lexes (remaining self) ts)"

lemma lexes_append: "lexes cs (ts @ us) \<Longrightarrow> lexes cs ts"
  by (induction ts arbitrary: cs) (auto split: sum.splits)

lemma sees_token: "sees self (t # ts) \<Longrightarrow> next_token self = token_of t"
  by (simp add: has_lexeme_token)

text \<open>What the parser shares with the scanner and the stack of values is left out of \<open>core\<close>: the source
  text, the code, the symbol table, and the frame.\<close>

definition core :: "compiler \<Rightarrow> compiler" where
  "core self = self\<lparr>src := 0, next_char := 0, next_char_type := 0, next_token := 0, next_token_data := 0,
     next_token_length := 0, dst_mark := 0, next_register := 0, cells := Map.empty, heap := 0\<rparr>"

lemma core_simps [simp]:
  "core (self\<lparr>next_register := n\<rparr>) = core self" "core (self\<lparr>dst_mark := d\<rparr>) = core self"
  "core (self\<lparr>cells := c\<rparr>) = core self" "core (self\<lparr>heap := h\<rparr>) = core self"
  by (simp_all add: core_def)

lemma core_eqD:
  assumes "core self' = core self"
  shows "source self' = source self" "src_end self' = src_end self" "code_base self' = code_base self"
    "code self' = code self" "dst self' = dst self" "dst_limit self' = dst_limit self"
    "heap_limit self' = heap_limit self" "symbols self' = symbols self" "fn_return_type self' = fn_return_type self"
    "frame_size self' = frame_size self"
proof -
  have f: "f (core self') = f (core self)" for f :: "compiler \<Rightarrow> 'a" using assms by simp
  show "source self' = source self" "src_end self' = src_end self" "code_base self' = code_base self"
    "code self' = code self" "dst self' = dst self" "dst_limit self' = dst_limit self"
    "heap_limit self' = heap_limit self" "symbols self' = symbols self" "fn_return_type self' = fn_return_type self"
    "frame_size self' = frame_size self"
    using f[of source] f[of src_end] f[of code_base] f[of code] f[of dst] f[of dst_limit] f[of heap_limit]
      f[of symbols] f[of fn_return_type] f[of frame_size] by (simp_all add: core_def)
qed

text \<open>Reading a token changes only the scanner's part of the state.\<close>

lemma off_scanner_core:
  assumes "off_scanner self' = off_scanner self"
  shows "core self' = core self" "cells self' = cells self" "heap self' = heap self"
    "next_register self' = next_register self" "dst_mark self' = dst_mark self"
proof -
  have f: "f (off_scanner self') = f (off_scanner self)" for f :: "compiler \<Rightarrow> 'a" using assms by simp
  show "cells self' = cells self" "heap self' = heap self"
    "next_register self' = next_register self" "dst_mark self' = dst_mark self"
    using f[of cells] f[of heap] f[of next_register] f[of dst_mark] by (simp_all add: off_scanner_def)
  have "core self = core (off_scanner self)" for self by (simp add: core_def off_scanner_def)
  then show "core self' = core self" using assms by metis
qed

lemma read_sees:
  assumes "sees self (t # u # ts)"
  obtains self' where "tc_read_token self = Ret self'" "sees self' (u # ts)" "off_scanner self' = off_scanner self"
proof -
  obtain r where r: "lex (remaining self) = Inr (u, r)" "lexes r ts" and ok: "scan_ok self"
    using assms by (auto split: sum.splits)
  then show thesis using read_token[OF ok] that by auto
qed

lemma start_sees:
  assumes "scan_ok self" and "lexes (remaining self) (t # ts)"
  obtains self' where "tc_read_token self = Ret self'" "sees self' (t # ts)" "off_scanner self' = off_scanner self"
proof -
  obtain r where r: "lex (remaining self) = Inr (t, r)" "lexes r ts" using assms(2) by (auto split: sum.splits)
  then show thesis using read_token[OF assms(1)] that by auto
qed

lemma sees_prefix: "sees self (ts @ us) \<Longrightarrow> sees self ts"
  by (cases ts) (auto dest: lexes_append)

text \<open>Steps that do not touch the scanner keep the stream.\<close>

lemma sees_cong:
  assumes "source self' = source self" "src self' = src self" "src_end self' = src_end self"
    "next_char self' = next_char self" "next_char_type self' = next_char_type self"
    "next_token self' = next_token self" "next_token_data self' = next_token_data self"
    "next_token_length self' = next_token_length self"
  shows "sees self' ts = sees self ts"
  using assms by (cases ts) (simp_all add: scan_ok_iff has_lexeme_def remaining_def split: lexeme.split)

lemma sees_fields [simp]:
  "sees (self\<lparr>next_register := n\<rparr>) ts = sees self ts" "sees (self\<lparr>dst_mark := d\<rparr>) ts = sees self ts"
  "sees (self\<lparr>cells := c\<rparr>) ts = sees self ts" "sees (self\<lparr>heap := h\<rparr>) ts = sees self ts"
  "sees (emit bs self) ts = sees self ts" "sees (put_cell self p c') ts = sees self ts"
  by (rule sees_cong; simp add: emit_def put_cell_def)+

text \<open>The token-level functions of the parser.\<close>

lemma parse_token_sees:
  assumes "sees self (t # u # ts)"
  shows "tc_parse_token self (token_of t) = tc_read_token self"
  using sees_token[OF assms] by (simp add: tc_parse_token_def)

lemma parse_integer_sees:
  assumes "sees self (Number v # u # ts)"
  shows "tc_parse_integer self = seq (tc_read_token self) (\<lambda>self. Ret (v, self))"
  using assms by (simp add: tc_parse_integer_def has_lexeme_def Let_def)

text \<open>The name of an identifier is where the token is in the source.\<close>

definition name_at :: "compiler \<Rightarrow> u64 \<Rightarrow> u64 \<Rightarrow> u8 list \<Rightarrow> bool" where
  "name_at self p n w \<longleftrightarrow> n = of_nat (length w) \<and> unat p + length w \<le> length (source self) \<and>
     length (source self) \<le> 65536 \<and> window (source self) (unat p) (length w) = w"

lemma parse_identifier_sees:
  assumes "sees self (Word w # u # ts)" and "keyword_token w = TC_IDENTIFIER"
  shows "tc_parse_identifier self =
      seq (tc_read_token self) (\<lambda>self'. Ret (next_token_data self, next_token_length self, self'))"
    and "name_at self (next_token_data self) (next_token_length self) w"
  using assms by (auto simp: tc_parse_identifier_def has_lexeme_def Let_def name_at_def scan_ok_def)

end
