(* ===== verification/Tc_Symbol_Table.thy ===== *)
theory Tc_Symbol_Table
  imports Tc_Tokens
begin

text \<open>
  The symbol table as an association list: \<open>syms_at self p es\<close> says that the list of symbols at \<open>p\<close> is
  \<open>es\<close>, each symbol with its name, its address and its contents. Looking a name up is \<open>map_of\<close>; what is
  pushed on the heap above the symbols does not change them.
\<close>

section \<open>Cells below the heap pointer\<close>

definition below :: "u64 \<Rightarrow> u64 \<Rightarrow> cell \<Rightarrow> bool" where
  "below h x d \<longleftrightarrow> unat x + unat (cell_size d) \<le> unat h"

definition keeps :: "compiler \<Rightarrow> compiler \<Rightarrow> bool" where
  "keeps self self' \<longleftrightarrow> (\<forall>x d. cells self x = Some d \<longrightarrow> below (heap self) x d \<longrightarrow> cells self' x = Some d)"

lemma keeps_refl [simp]: "keeps self self"
  by (simp add: keeps_def)

lemma keeps_cells: "cells self' = cells self \<Longrightarrow> keeps self self'"
  by (simp add: keeps_def)

lemma keeps_trans: "keeps self self' \<Longrightarrow> keeps self' self'' \<Longrightarrow> heap self \<le> heap self' \<Longrightarrow> keeps self self''"
  by (auto simp: keeps_def below_def le_u64)

lemma keeps_put_cell:
  assumes "keeps self self'" and "heap self \<le> p" and "unat p + unat (cell_size c) < 18446744073709551616"
  shows "keeps self (put_cell self' p c)"
  unfolding keeps_def
proof (intro allI impI)
  fix x d assume x: "cells self x = Some d" "below (heap self) x d"
  have k: "cells self' x = Some d" using assms(1) x by (simp add: keeps_def)
  have s: "unat (cell_size e) = 64 \<or> unat (cell_size e) = 32" for e
    by (cases e) (simp_all add: SYMBOL_SIZE_def VALUE_SIZE_def)
  have l: "unat x + unat (cell_size d) \<le> unat p" using x(2) assms(2) by (simp add: below_def le_u64)
  then have px: "unat (p - x) = unat p - unat x" by (simp add: unat_sub_u64 le_u64)
  have "unat (x - p) = unat x + 18446744073709551616 - unat p"
    using l s[of d] by (auto simp: unat_sub_if' le_u64)
  then have "\<not> (x - p < cell_size c \<or> p - x < cell_size d)"
    using px l assms(3) s[of c] s[of d] by (auto simp: less_u64)
  then show "cells (put_cell self' p c) x = Some d"
    using k l s[of d] by (auto simp: put_cell_def)
qed

section \<open>Lists of symbols\<close>

fun syms_at :: "compiler \<Rightarrow> u64 \<Rightarrow> (u8 list \<times> u64 \<times> symbol) list \<Rightarrow> bool" where
  "syms_at self p [] = (p = 0)"
| "syms_at self p ((x, q, s) # es) =
     (p = q \<and> q \<noteq> 0 \<and> cells self q = Some (Sym s) \<and> below (heap self) q (Sym s) \<and> sym_next s < q \<and>
      name_at self (sym_name s) (sym_length s) x \<and> syms_at self (sym_next s) es)"

lemma syms_at_keeps:
  "syms_at self p es \<Longrightarrow> keeps self self' \<Longrightarrow> heap self \<le> heap self' \<Longrightarrow> source self' = source self \<Longrightarrow>
   syms_at self' p es"
  by (induction es arbitrary: p) (auto simp: keeps_def below_def le_u64 name_at_def)

lemma syms_at_heap: "syms_at self p es \<Longrightarrow> p \<noteq> 0 \<Longrightarrow> unat p + 64 \<le> unat (heap self)"
  by (cases es) (auto simp: below_def SYMBOL_SIZE_def)

lemma name_at_length: "name_at self p n w \<Longrightarrow> unat n = length w"
  by (auto simp: name_at_def unat_of_nat_u64)

lemma name_at_compare:
  assumes "name_at self p n w" and "name_at self q n u"
  shows "\<exists>c. mem_compare (source self) (unat p) (source self) (unat q) n = Ret c \<and> (c = 0 \<longleftrightarrow> w = u)"
proof -
  have "length w = length u" using name_at_length[OF assms(1)] name_at_length[OF assms(2)] by simp
  then show ?thesis
    using mem_compare_spec[of "unat p" "length w" "source self" "unat q" "source self"] assms
    by (auto simp: name_at_def)
qed

text \<open>The address of the first symbol with a name, or null.\<close>

definition address_of :: "(u8 list \<times> u64 \<times> symbol) list \<Rightarrow> u8 list \<Rightarrow> u64" where
  "address_of es w = (case map_of es w of None \<Rightarrow> 0 | Some (q, s) \<Rightarrow> q)"

lemma lookup_address:
  "syms_at self p es \<Longrightarrow> name_at self q n w \<Longrightarrow> sym_lookup self p q n = Ret (address_of es w)"
proof (induction es arbitrary: p)
  case Nil
  then show ?case by (subst sym_lookup.simps) (simp add: address_of_def)
next
  case (Cons e es)
  obtain x a s where e: "e = (x, a, s)" by (cases e) auto
  with Cons.prems have p: "p = a" "p \<noteq> 0" "cells self p = Some (Sym s)" "sym_next s < p"
    "name_at self (sym_name s) (sym_length s) x" "syms_at self (sym_next s) es" by auto
  have c: "(if sym_length s = n then seq (mem_compare (source self) (unat (sym_name s)) (source self) (unat q) n) (\<lambda>c. Ret (c = 0))
      else Ret False) = Ret (x = w)"
  proof (cases "sym_length s = n")
    case True
    then show ?thesis using name_at_compare[OF p(5)[unfolded True] Cons.prems(2)] by auto
  next
    case False
    then have "x \<noteq> w" using p(5) Cons.prems(2) by (auto simp: name_at_def)
    then show ?thesis using False by simp
  qed
  show ?case
    using p Cons.IH[OF p(6) Cons.prems(2)]
    by (subst sym_lookup.simps) (simp add: get_symbol_def c, simp add: e address_of_def)
qed

end
