(* ===== verification/Tc_Expr_Spec.thy ===== *)
theory Tc_Expr_Spec
  imports Tc_Saved Tc_Lexer_Properties
begin

text \<open>
  What an integer expression means: the grammar of the language on tokens, its value, and the code
  that the compiler should write for it. The code is shown to compute the value.
\<close>

section \<open>Syntax\<close>

datatype expr = Num u64 | Name "u8 list" | Binary u64 expr expr

text \<open>The levels of the grammar: \<open>expr\<close> is 0, then \<open>bit_and_expr\<close>, \<open>shift_expr\<close>, \<open>add_expr\<close>, \<open>mult_expr\<close>,
  and 5 for what binds closer. The operators of a level, by their tokens, are those between two phrases of the next level.\<close>

definition level :: "u64 \<Rightarrow> nat option" where
  "level t = (if t = TC_BIT_OR then Some 0 else if t = TC_BIT_AND then Some 1
     else if t = TC_SHIFT_LEFT \<or> t = TC_SHIFT_RIGHT then Some 2
     else if t = TC_ADD \<or> t = TC_SUB then Some 3
     else if t = TC_MUL \<or> t = TC_DIV then Some 4 else None)"

text \<open>Operators group to the left; shifts do not group. Parentheses are 40 and 41.\<close>

inductive phrase :: "nat \<Rightarrow> lexeme list \<Rightarrow> expr \<Rightarrow> bool" where
  number: "phrase 5 [Number v] (Num v)"
| name: "keyword_token w = TC_IDENTIFIER \<Longrightarrow> phrase 5 [Word w] (Name w)"
| parens: "phrase 0 ts e \<Longrightarrow> phrase 5 (Other 40 # ts @ [Other 41]) e"
| higher: "phrase (Suc l) ts e \<Longrightarrow> l < 5 \<Longrightarrow> phrase l ts e"
| operator: "phrase l ts a \<Longrightarrow> phrase (Suc l) us b \<Longrightarrow> level t = Some l \<Longrightarrow> l \<noteq> 2 \<Longrightarrow>
    phrase l (ts @ Other t # us) (Binary t a b)"
| shift: "phrase 3 ts a \<Longrightarrow> phrase 3 us b \<Longrightarrow> level t = Some 2 \<Longrightarrow> phrase 2 (ts @ Other t # us) (Binary t a b)"

lemma phrase_nonempty: "phrase l ts e \<Longrightarrow> ts \<noteq> []"
  by (induction rule: phrase.induct) auto

lemma phrase_lift: "phrase m ts e \<Longrightarrow> l \<le> m \<Longrightarrow> m \<le> 5 \<Longrightarrow> phrase l ts e"
proof (induction "m - l" arbitrary: l)
  case (Suc k)
  then have "phrase (Suc l) ts e" by simp
  then show ?case by (rule phrase.higher) (use Suc in simp)
qed simp

section \<open>Values\<close>

text \<open>A name is a constant or a variable of the stack frame.\<close>

datatype binding = Slot u64 | Constant u64

type_synonym scope = "u8 list \<Rightarrow> binding option"

fun value_of :: "(u64 \<Rightarrow> u64) \<Rightarrow> binding \<Rightarrow> u64" where
  "value_of f (Slot v) = f v"
| "value_of f (Constant c) = c"

text \<open>All arithmetic is on 64 bits and without sign; a division by 0 has no value.\<close>

fun eval :: "scope \<Rightarrow> (u64 \<Rightarrow> u64) \<Rightarrow> expr \<Rightarrow> u64 option" where
  "eval \<Gamma> f (Num v) = Some v"
| "eval \<Gamma> f (Name w) = map_option (value_of f) (\<Gamma> w)"
| "eval \<Gamma> f (Binary t a b) =
     Option.bind (eval \<Gamma> f a) (\<lambda>x. Option.bind (eval \<Gamma> f b) (\<lambda>y.
     if t = TC_DIV \<and> y = 0 then None else Some (binary_op t x y)))"

section \<open>Code\<close>

text \<open>The registers an expression needs.\<close>

fun need :: "expr \<Rightarrow> nat" where
  "need (Num v) = 1"
| "need (Name w) = 1"
| "need (Binary t a b) = max (need a) (Suc (need b))"

fun scoped :: "scope \<Rightarrow> expr \<Rightarrow> bool" where
  "scoped \<Gamma> (Num v) = True"
| "scoped \<Gamma> (Name w) = (\<Gamma> w \<noteq> None)"
| "scoped \<Gamma> (Binary t a b) = (level t \<noteq> None \<and> scoped \<Gamma> a \<and> scoped \<Gamma> b)"

text \<open>Code that leaves the value in register \<open>z\<close>, in a frame of \<open>n\<close> slots.\<close>

fun name_code :: "u64 \<Rightarrow> nat \<Rightarrow> binding \<Rightarrow> u8 list" where
  "name_code n z (Slot v) = mem_bytes 0x8b4c (0x04 OR push_bit 3 (of_nat z)) 0x24 (n - v)"
| "name_code n z (Constant c) = cst_bytes (of_nat z) c"

fun expr_code :: "scope \<Rightarrow> u64 \<Rightarrow> nat \<Rightarrow> expr \<Rightarrow> u8 list" where
  "expr_code \<Gamma> n z (Num v) = cst_bytes (of_nat z) v"
| "expr_code \<Gamma> n z (Name w) = (case \<Gamma> w of None \<Rightarrow> [] | Some b \<Rightarrow> name_code n z b)"
| "expr_code \<Gamma> n z (Binary t a b) =
     expr_code \<Gamma> n z a @ expr_code \<Gamma> n (Suc z) b @ binary_bytes t (of_nat z) (of_nat (Suc z))"

section \<open>Straight-line code in sequence\<close>

definition assembles :: "u8 list \<Rightarrow> insn list \<Rightarrow> bool" where
  "assembles bs is \<longleftrightarrow> (\<exists>n. disassemble n bs = Some is) \<and> list_all rip_free is"

lemma disassemble_more: "disassemble n bs = Some is \<Longrightarrow> disassemble (n + m) bs = Some is"
proof (induction n bs arbitrary: "is" rule: disassemble.induct)
  case (3 n c bs)
  then show ?case by (auto split: option.splits simp del: decode.simps)
qed simp_all

lemma disassemble_append:
  "disassemble n bs = Some is \<Longrightarrow> disassemble m cs = Some js \<Longrightarrow> disassemble (n + m) (bs @ cs) = Some (is @ js)"
proof (induction n bs arbitrary: "is" rule: disassemble.induct)
  case (1 n)
  then show ?case using disassemble_more[of m cs js n] by (simp add: add.commute)
next
  case (3 n c bs)
  then obtain i ds ks where d: "decode (c # bs) = Some (i, ds)" "disassemble n ds = Some ks" "is = i # ks"
    by (auto split: option.splits simp del: decode.simps)
  then show ?case using "3.IH"[OF d(1) refl d(2) "3.prems"(2)] decode_append[OF d(1), of cs]
    by (simp del: decode.simps)
qed simp

lemma assembles_append: "assembles bs is \<Longrightarrow> assembles cs js \<Longrightarrow> assembles (bs @ cs) (is @ js)"
  unfolding assembles_def using disassemble_append by fastforce

lemma assembles_one: "decode bs = Some (i, []) \<Longrightarrow> rip_free i \<Longrightarrow> assembles bs [i]"
proof (cases bs)
  case (Cons c cs)
  assume "decode bs = Some (i, [])" "rip_free i"
  then have "disassemble 1 bs = Some [i]" by (simp add: Cons del: decode.simps)
  then show ?thesis using \<open>rip_free i\<close> by (auto simp: assembles_def)
qed simp

lemma exec_all_append: "exec_all (is @ js) s = Option.bind (exec_all is s) (exec_all js)"
proof (induction "is" arbitrary: s)
  case (Cons i "is")
  then show ?case by (cases "exec i s") simp_all
qed simp

lemma run_assembles:
  "assembles bs is \<Longrightarrow> run bs s = map_option (at_rip (rip s + of_nat (length bs))) (exec_all is s)"
  using run_disassemble by (auto simp: assembles_def)

section \<open>The code computes the value\<close>

text \<open>The processor has the values \<open>f\<close> of the variables in its stack frame of \<open>n\<close> slots.\<close>

definition in_frame :: "scope \<Rightarrow> u64 \<Rightarrow> (u64 \<Rightarrow> u64) \<Rightarrow> cpu \<Rightarrow> bool" where
  "in_frame \<Gamma> n f s \<longleftrightarrow> regs s 4 AND 7 = 0 \<and>
     (\<forall>w v. \<Gamma> w = Some (Slot v) \<longrightarrow> mem s (regs s 4 + (n - v) * 8) = f v)"

definition near :: "scope \<Rightarrow> u64 \<Rightarrow> bool" where
  "near \<Gamma> n \<longleftrightarrow> (\<forall>w v. \<Gamma> w = Some (Slot v) \<longrightarrow> n - v < 0x10000000)"

lemma aligned_slot: "(a + d * 8 :: u64) AND 7 = a AND 7"
  using aligned_plus[of a "unat d"] by (simp add: mult.commute)

text \<open>Instructions that leave a value in register \<open>z\<close> of the compiler and keep the ones below.\<close>

definition leaves :: "insn list \<Rightarrow> nat \<Rightarrow> u64 \<Rightarrow> cpu \<Rightarrow> bool" where
  "leaves is z v s \<longleftrightarrow> (\<exists>s'. exec_all is s = Some s' \<and> regs s' (8 + z) = v \<and> mem s' = mem s \<and>
     (\<forall>k. 3 \<le> k \<and> k < 8 + z \<longrightarrow> regs s' k = regs s k))"

lemma expr_code_correct:
  assumes "near \<Gamma> n"
  shows "scoped \<Gamma> e \<Longrightarrow> z + need e \<le> 8 \<Longrightarrow>
    \<exists>is. assembles (expr_code \<Gamma> n z e) is \<and> (\<forall>s v. in_frame \<Gamma> n f s \<longrightarrow> eval \<Gamma> f e = Some v \<longrightarrow>
      leaves is z v s)"
proof (induction e arbitrary: z)
  case (Num c)
  have z: "(of_nat z :: u64) < 8" "unat (of_nat z :: u64) = z" using Num by (simp_all add: less_u64 unat_of_nat_u64)
  obtain "is" where i: "disassemble 1 (cst_bytes (of_nat z) c) = Some is" "list_all rip_free is"
    "\<And>s. exec_all is s = Some (set_reg (8 + z) c s)"
    using cst_disassemble[OF z(1), of c] z(2) by (metis option.inject)
  then show ?case by (intro exI[of _ "is"]) (auto simp: assembles_def leaves_def set_reg_def)
next
  case (Name w)
  have z: "(of_nat z :: u64) < 8" "unat (of_nat z :: u64) = z" using Name by (simp_all add: less_u64 unat_of_nat_u64)
  obtain b where b: "\<Gamma> w = Some b" using Name by auto
  show ?case
  proof (cases b)
    case (Slot v)
    define d where "d = n - v"
    have m: "in_frame \<Gamma> n f s \<Longrightarrow> regs s 4 AND 7 = 0 \<and> mem s (regs s 4 + d * 8) = f v" for s
      using b Slot by (auto simp: in_frame_def d_def)
    have dec: "decode (name_code n z b) = Some (Mov True (Reg (8 + z)) (Mem 4 (d * 8)), [])"
      using get_decodes[OF z(1), of d] assms b Slot z(2) by (simp add: near_def d_def)
    show ?thesis
      using assembles_one[OF dec] b Slot m
      by (intro exI[of _ "[Mov True (Reg (8 + z)) (Mem 4 (d * 8))]"])
        (simp add: leaves_def load_def aligned_slot set_reg_def)
  next
    case (Constant c)
    obtain "is" where i: "disassemble 1 (cst_bytes (of_nat z) c) = Some is" "list_all rip_free is"
      "\<And>s. exec_all is s = Some (set_reg (8 + z) c s)"
      using cst_disassemble[OF z(1), of c] z(2) by (metis option.inject)
    then show ?thesis using b Constant by (intro exI[of _ "is"]) (auto simp: assembles_def leaves_def set_reg_def)
  qed
next
  case (Binary t a b)
  obtain "is" js where i: "assembles (expr_code \<Gamma> n z a) is" "assembles (expr_code \<Gamma> n (Suc z) b) js"
    and ei: "\<And>s v. in_frame \<Gamma> n f s \<Longrightarrow> eval \<Gamma> f a = Some v \<Longrightarrow> leaves is z v s"
    and ej: "\<And>s v. in_frame \<Gamma> n f s \<Longrightarrow> eval \<Gamma> f b = Some v \<Longrightarrow> leaves js (Suc z) v s"
    using Binary.IH(1)[of z] Binary.IH(2)[of "Suc z"] Binary.prems by force
  let ?ks = "alu_insn t (8 + z) (9 + z)"
  have t: "t \<in> set binary_tokens" using Binary.prems(1) by (auto simp: level_def binary_tokens_def split: if_splits)
  have y: "(of_nat (Suc z) :: u64) \<in> set (tl small)"
  proof -
    have "1 \<le> need b" by (induction b) auto
    then have "Suc z < 8" using Binary.prems(2) by simp
    then have "Suc z \<in> {1, 2, 3, 4, 5, 6, 7}" by auto
    then show ?thesis unfolding small_def by auto
  qed
  then have u: "unat (of_nat (Suc z) :: u64) = Suc z" "(of_nat (Suc z) :: u64) - 1 = of_nat z"
    using Binary.prems(2) by (auto simp: unat_of_nat_u64 simp del: of_nat_Suc) simp
  define Y where "Y = (of_nat (Suc z) :: u64)"
  have "disassemble 4 (binary_bytes t (Y - 1) Y) = Some (alu_insn t (7 + unat Y) (8 + unat Y))"
    using binary_decodes t y unfolding list_all_iff Y_def by blast
  moreover have "7 + unat Y = 8 + z" "8 + unat Y = 9 + z" "Y - 1 = of_nat z" using u by (simp_all add: Y_def)
  ultimately have "disassemble 4 (binary_bytes t (of_nat z) (of_nat (Suc z))) = Some ?ks" by (simp only: Y_def)
  then have k: "assembles (binary_bytes t (of_nat z) (of_nat (Suc z))) ?ks"
    using alu_insn_rip_free unfolding assembles_def by blast
  have e: "leaves (is @ js @ ?ks) z v s"
    if s: "in_frame \<Gamma> n f s" and v: "eval \<Gamma> f (Binary t a b) = Some v" for s v
  proof -
    obtain x y where xy: "eval \<Gamma> f a = Some x" "eval \<Gamma> f b = Some y" "t = TC_DIV \<longrightarrow> y \<noteq> 0" "v = binary_op t x y"
      using v by (auto simp: bind_eq_Some_conv split: if_splits)
    obtain s1 where s1: "exec_all is s = Some s1" "regs s1 (8 + z) = x" "mem s1 = mem s"
      "\<forall>k. 3 \<le> k \<and> k < 8 + z \<longrightarrow> regs s1 k = regs s k" using ei[OF s xy(1)] by (auto simp: leaves_def)
    then have f1: "in_frame \<Gamma> n f s1" using s by (simp add: in_frame_def)
    obtain s2 where s2: "exec_all js s1 = Some s2" "regs s2 (9 + z) = y" "mem s2 = mem s1"
      "\<forall>k. 3 \<le> k \<and> k < 9 + z \<longrightarrow> regs s2 k = regs s1 k" using ej[OF f1 xy(2)] by (auto simp: leaves_def)
    then have "regs s2 (8 + z) = x" using s1(2) by simp
    then obtain s3 where "exec_all ?ks s2 = Some s3" "regs s3 (8 + z) = v" "mem s3 = mem s2"
      "\<forall>k. 3 \<le> k \<and> k \<noteq> 8 + z \<longrightarrow> regs s3 k = regs s2 k"
      using exec_alu_insn[of "8 + z" "9 + z" t s2] s2(2) xy by auto
    then show ?thesis using s1 s2 by (simp add: leaves_def exec_all_append)
  qed
  show ?case
    using assembles_append[OF i(1) assembles_append[OF i(2) k]] e by (intro exI[of _ "is @ js @ ?ks"]) simp
qed

end
