(* ===== verification/Tc_Expr_Parse.thy ===== *)
theory Tc_Expr_Parse
  imports Tc_Symbol_Table Tc_Expr_Spec
begin

text \<open>
  The expression parser refines the grammar: in front of the tokens of an integer expression it writes
  exactly the code of the expression and pushes one value. The five operator levels of the parser have
  one shape, which is made explicit first.
\<close>

section \<open>The levels of the parser\<close>

definition parser :: "nat \<Rightarrow> nat \<Rightarrow> compiler \<Rightarrow> compiler res" where
  "parser l f = (if l = 0 then tc_parse_expr (Suc f)
     else if l = 1 then tc_parse_bit_and_expr (tc_parse_expr f) f
     else if l = 2 then tc_parse_shift_expr (tc_parse_expr f) f
     else if l = 3 then tc_parse_add_expr (tc_parse_expr f) f
     else if l = 4 then tc_parse_mult_expr (tc_parse_expr f) f
     else tc_parse_cast_expr (tc_parse_expr f) f)"

definition check_operands :: "u64 \<Rightarrow> compiler \<Rightarrow> compiler res" where
  "check_operands t self =
     (if level t = Some 3 then tc_check_add_or_sub_expr self t else tc_check_integer_expr self)"

text \<open>An operator, its right operand, and its code; and the rest of a loop over operators.\<close>

definition operate :: "nat \<Rightarrow> nat \<Rightarrow> compiler \<Rightarrow> compiler res" where
  "operate l f self = (let t = next_token self in
     seq (tc_read_token self) (\<lambda>self. seq (parser (Suc l) f self) (\<lambda>self.
     seq (check_operands t self) (\<lambda>self. tc_write_binary_insn self t))))"

primrec resume :: "nat \<Rightarrow> nat \<Rightarrow> nat \<Rightarrow> compiler \<Rightarrow> compiler res" where
  "resume l f 0 self = (if level (next_token self) = Some l then OutOfFuel else Ret self)"
| "resume l f (Suc k) self =
     (if level (next_token self) = Some l then seq (operate l f self) (resume l f k) else Ret self)"

lemma resume_stops: "level (next_token self) \<noteq> Some l \<Longrightarrow> resume l f k self = Ret self"
  by (cases k) simp_all

lemma level_iff:
  "level t = Some 0 \<longleftrightarrow> t = TC_BIT_OR" "level t = Some (Suc 0) \<longleftrightarrow> t = TC_BIT_AND"
  "level t = Some 2 \<longleftrightarrow> t = TC_SHIFT_LEFT \<or> t = TC_SHIFT_RIGHT"
  "level t = Some 3 \<longleftrightarrow> t = TC_ADD \<or> t = TC_SUB" "level t = Some 4 \<longleftrightarrow> t = TC_MUL \<or> t = TC_DIV"
  "level t \<noteq> Some 5"
  by (auto simp: level_def tokens)

lemma check_operands_simps:
  "t = TC_ADD \<or> t = TC_SUB \<Longrightarrow> check_operands t self = tc_check_add_or_sub_expr self t"
  "t \<in> {TC_MUL, TC_DIV, TC_SHIFT_LEFT, TC_SHIFT_RIGHT, TC_BIT_AND, TC_BIT_OR} \<Longrightarrow>
    check_operands t self = tc_check_integer_expr self"
  by (auto simp: check_operands_def level_def tokens)

lemma while_resume:
  assumes "\<And>self. c self \<longleftrightarrow> level (next_token self) = Some l"
    and "\<And>self. c self \<Longrightarrow> b self = operate l f self"
  shows "while_do k c b self = resume l f k self"
  using assms
proof (induction k arbitrary: self)
  case (Suc k)
  have "while_do k c b = resume l f k" by (rule ext) (rule Suc.IH[OF Suc.prems])
  moreover have "c self \<Longrightarrow> b self = operate l f self" by (rule Suc.prems)
  ultimately show ?case using Suc.prems(1)[of self] by auto
qed simp

lemma while_token_resume:
  assumes "\<And>t. c t \<longleftrightarrow> level t = Some l"
    and "\<And>self. level (next_token self) = Some l \<Longrightarrow>
      b (next_token self, self) = seq (operate l f self) (\<lambda>self. Ret (next_token self, self))"
  shows "seq (while_do k (\<lambda>(t, self). c t) b (next_token self, self)) (\<lambda>(t, self). Ret self) = resume l f k self"
proof (induction k arbitrary: self)
  case (Suc k)
  then show ?case using assms by (simp add: seq_assoc)
qed (simp add: assms)

lemma parser_loop:
  assumes "l < 5" and "l \<noteq> 2"
  shows "parser l f self = seq (parser (Suc l) f self) (resume l f f)"
proof -
  consider "l = 0" | "l = 1" | "l = 3" | "l = 4" using assms by linarith
  then show ?thesis
  proof cases
    case 1
    have "while_do f (\<lambda>self. next_token self = TC_BIT_OR) (\<lambda>self.
       seq (tc_read_token self) (\<lambda>self.
       seq (tc_parse_bit_and_expr (tc_parse_expr f) f self) (\<lambda>self.
       seq (tc_check_integer_expr self) (\<lambda>self. tc_write_binary_insn self TC_BIT_OR)))) = resume 0 f f"
      by (rule ext, rule while_resume) (auto simp: level_iff operate_def parser_def check_operands_simps)
    then show ?thesis using 1 by (simp add: parser_def)
  next
    case 2
    have "while_do f (\<lambda>self. next_token self = TC_BIT_AND) (\<lambda>self.
       seq (tc_read_token self) (\<lambda>self.
       seq (tc_parse_shift_expr (tc_parse_expr f) f self) (\<lambda>self.
       seq (tc_check_integer_expr self) (\<lambda>self. tc_write_binary_insn self TC_BIT_AND)))) = resume 1 f f"
      by (rule ext, rule while_resume) (auto simp: level_iff operate_def parser_def check_operands_simps)
    then show ?thesis using 2 by (simp add: parser_def tc_parse_bit_and_expr_def)
  next
    case 3
    have "seq (while_do f (\<lambda>(token, self). token = TC_ADD \<or> token = TC_SUB) (\<lambda>(token, self).
       seq (tc_read_token self) (\<lambda>self.
       seq (tc_parse_mult_expr (tc_parse_expr f) f self) (\<lambda>self.
       seq (tc_check_add_or_sub_expr self token) (\<lambda>self.
       seq (tc_write_binary_insn self token) (\<lambda>self. Ret (next_token self, self))))))
       (next_token self, self)) (\<lambda>(token, self). Ret self) = resume 3 f f self" for self
      by (rule while_token_resume)
        (auto simp: level_iff operate_def parser_def check_operands_simps Let_def seq_assoc)
    then show ?thesis using 3 by (simp add: parser_def tc_parse_add_expr_def)
  next
    case 4
    have "seq (while_do f (\<lambda>(token, self). token = TC_MUL \<or> token = TC_DIV) (\<lambda>(token, self).
       seq (tc_read_token self) (\<lambda>self.
       seq (tc_parse_cast_expr (tc_parse_expr f) f self) (\<lambda>self.
       seq (tc_check_integer_expr self) (\<lambda>self.
       seq (tc_write_binary_insn self token) (\<lambda>self. Ret (next_token self, self))))))
       (next_token self, self)) (\<lambda>(token, self). Ret self) = resume 4 f f self" for self
      by (rule while_token_resume)
        (auto simp: level_iff operate_def parser_def check_operands_simps Let_def seq_assoc)
    then show ?thesis using 4 by (simp add: parser_def tc_parse_mult_expr_def)
  qed
qed

lemma parser_shift:
  "parser 2 f self = seq (parser 3 f self) (\<lambda>self. if level (next_token self) = Some 2 then operate 2 f self else Ret self)"
  by (auto simp: parser_def tc_parse_shift_expr_def operate_def level_iff check_operands_simps Let_def intro!: seq_cong)

section \<open>The state around an expression\<close>

text \<open>The scope as the symbol table describes it.\<close>

fun describes :: "binding \<Rightarrow> symbol \<Rightarrow> bool" where
  "describes (Slot v) s = (sym_kind s = SYM_VARIABLE \<and> sym_value s = v \<and> sym_type s = 0 \<and> sym_dim s = 0)"
| "describes (Constant c) s = (sym_kind s = SYM_CONST \<and> sym_value s = c \<and> sym_type s = 0 \<and> sym_dim s = 0)"

definition in_scope :: "scope \<Rightarrow> compiler \<Rightarrow> bool" where
  "in_scope \<Gamma> self \<longleftrightarrow> (\<exists>es. syms_at self (symbols self) es \<and>
     (\<forall>w b. \<Gamma> w = Some b \<longrightarrow> (\<exists>q s. map_of es w = Some (q, s) \<and> describes b s)))"

text \<open>\<open>self'\<close> is \<open>self\<close> with the bytes \<open>bs\<close> written and more on the heap.\<close>

definition extends :: "compiler \<Rightarrow> u8 list \<Rightarrow> compiler \<Rightarrow> bool" where
  "extends self bs self' \<longleftrightarrow> core self' = core (emit bs self) \<and> keeps self self'"

text \<open>One integer value has been pushed, in the next register.\<close>

definition pushed :: "compiler \<Rightarrow> u8 list \<Rightarrow> compiler \<Rightarrow> bool" where
  "pushed self bs self' \<longleftrightarrow> extends self bs self' \<and> next_register self' = next_register self + 1 \<and>
     heap self' = heap self + 32 \<and>
     (\<exists>v. cells self' (heap self) = Some (Val v) \<and> val_origin v \<noteq> FROM_VOID \<and> val_origin v \<noteq> FROM_NULL \<and> val_type v = 0 \<and> val_dim v = 0)"

text \<open>There is room for the code and the values of an expression.\<close>

definition ready :: "scope \<Rightarrow> compiler \<Rightarrow> nat \<Rightarrow> u8 list \<Rightarrow> bool" where
  "ready \<Gamma> self n bs \<longleftrightarrow> code_ok self \<and> in_scope \<Gamma> self \<and> unat (next_register self) + n \<le> 8 \<and>
     unat (heap self) + 32 * n \<le> unat (heap_limit self) \<and> room (length bs) self"

lemma core_code:
  assumes "core self' = core self"
  shows "code_ok self' = code_ok self" "pos self' = pos self" "room n self' = room n self"
    "core (emit bs self') = core (emit bs self)"
  using core_eqD[OF assms] by (simp_all add: code_ok_def pos_def room_def) (simp add: core_def emit_def pos_def)

lemma in_scope_extends:
  assumes "in_scope \<Gamma> self" and "extends self bs self'" and "heap self \<le> heap self'"
  shows "in_scope \<Gamma> self'"
proof -
  have "source self' = source self" "symbols self' = symbols self"
    using core_eqD[of self' "emit bs self"] assms(2) by (simp_all add: extends_def emit_def)
  then show ?thesis using assms syms_at_keeps unfolding in_scope_def extends_def by metis
qed

lemma extends_trans:
  assumes "extends self bs self1" and "extends self1 cs self2" and "heap self \<le> heap self1"
    and "code_ok self" and "room (length (bs @ cs)) self"
  shows "extends self (bs @ cs) self2"
proof -
  have "core self2 = core (emit cs (emit bs self))"
    using assms(1,2) core_code(4)[of self1 "emit bs self" cs] by (simp add: extends_def)
  then show ?thesis
    using assms emit_emit[OF assms(4), of bs cs] keeps_trans[of self self1 self2] by (simp add: extends_def)
qed

lemma extends_same:
  assumes "core self' = core self" and "cells self' = cells self" and "code_ok self"
  shows "extends self [] self'"
proof -
  have "emit [] self = self" using written_Nil[OF assms(3)] by (simp add: written_def split: if_splits)
  then show ?thesis using assms by (simp add: extends_def keeps_cells)
qed

lemma ready_room: "ready \<Gamma> self n (bs @ cs) \<Longrightarrow> m \<le> n \<Longrightarrow> ready \<Gamma> self m bs"
  by (auto simp: ready_def room_def)

text \<open>After the left operand there is still room for the right one.\<close>

lemma ready_next:
  assumes "ready \<Gamma> self n (bs @ cs)" and "pushed self bs self'" and "Suc m \<le> n"
  shows "ready \<Gamma> self' m cs" and "unat (next_register self') = Suc (unat (next_register self))"
    and "unat (heap self') = unat (heap self) + 32" and "heap self \<le> heap self'"
proof -
  have r: "code_ok self" "pos self + length bs + length cs \<le> length (code self)" "unat (next_register self) < 8"
    "unat (heap self) + 32 * n \<le> unat (heap_limit self)" "32 \<le> 32 * n"
    using assms(1,3) by (simp_all add: ready_def room_def)
  have c: "core self' = core (emit bs self)" using assms(2) by (simp add: pushed_def extends_def)
  show n: "unat (next_register self') = Suc (unat (next_register self))"
    using assms(2) r(3) by (simp add: pushed_def unat_add_u64)
  show h: "unat (heap self') = unat (heap self) + 32"
    using assms(2) r(4,5) unat_u64_less[of "heap_limit self"] by (simp add: pushed_def unat_add_u64)
  then show h': "heap self \<le> heap self'" by (simp add: le_u64)
  have "room (length bs) self" using r(2) by (simp add: room_def)
  then have "code_ok self'" "room (length cs) self'"
    using code_ok_emit[OF r(1)] room_emit[OF _ r(1), of bs] r(2) core_code[OF c] by (simp_all add: room_def)
  moreover have "heap_limit self' = heap_limit self" using core_eqD[OF c] by (simp add: emit_def)
  moreover have "in_scope \<Gamma> self'" using assms(1,2) h' in_scope_extends by (auto simp: ready_def pushed_def)
  ultimately show "ready \<Gamma> self' m cs" using assms(1,3) n h by (simp add: ready_def)
qed

lemma pushed_register: "pushed self bs self' \<Longrightarrow> next_register self' = next_register self + 1"
  by (simp add: pushed_def)

text \<open>A token in between.\<close>

lemma read_keeps:
  assumes "off_scanner self' = off_scanner self"
  shows "ready \<Gamma> self' n bs = ready \<Gamma> self n bs" "pushed self' cs self'' = pushed self cs self''"
    "pushed self0 cs self' = pushed self0 cs self" "extends self' cs self'' = extends self cs self''"
proof -
  note o = off_scanner_core[OF assms]
  have "syms_at self' p es = syms_at self p es" for p es
    by (induction es arbitrary: p) (auto simp: o name_at_def core_eqD[OF o(1)])
  then have "in_scope \<Gamma> self' = in_scope \<Gamma> self" by (simp add: in_scope_def core_eqD[OF o(1)])
  then show "ready \<Gamma> self' n bs = ready \<Gamma> self n bs"
    using o core_eqD[OF o(1)] core_code[OF o(1)] by (simp add: ready_def)
  show e: "extends self' cs self'' = extends self cs self''"
    using o core_code(4)[OF o(1)] by (simp add: extends_def keeps_def)
  then show "pushed self' cs self'' = pushed self cs self''" using o by (simp add: pushed_def)
  show "pushed self0 cs self' = pushed self0 cs self" using o by (simp add: pushed_def extends_def keeps_def)
qed

section \<open>Primitive expressions\<close>

lemma emit_off_code [simp]:
  "heap (emit bs self) = heap self" "symbols (emit bs self) = symbols self" "next_token (emit bs self) = next_token self"
  by (simp_all add: emit_def)

lemma put_cell_simps [simp]:
  "core (put_cell self p c) = core self" "next_register (put_cell self p c) = next_register self"
  "frame_size (put_cell self p c) = frame_size self" "heap_limit (put_cell self p c) = heap_limit self"
  "code_ok (put_cell self p c) = code_ok self" "room n (put_cell self p c) = room n self"
  by (simp_all add: put_cell_def code_ok_def room_def pos_def)

lemma push_value:
  assumes "unat (heap self) + 32 \<le> unat (heap_limit self)" and "dim \<noteq> 0 \<or> type = 0"
  shows "tc_push_value self origin slot type dim =
    Ret (put_cell (self\<lparr>heap := heap self + 32\<rparr>) (heap self)
      (Val \<lparr>val_origin = origin, val_slot = slot, val_type = type, val_dim = dim\<rparr>))"
proof -
  have "(32 :: u64) \<le> heap_limit self" using assms(1) by (simp add: le_u64)
  then have "\<not> (32 > heap_limit self \<or> heap self > heap_limit self - 32)"
    using assms(1) by (simp add: le_u64 less_u64 unat_sub_u64)
  then show ?thesis
    using assms(2) by (auto simp: tc_push_value_def heap_allocate_def mem_allocate_def VALUE_SIZE_def)
qed

definition int_value :: "val \<Rightarrow> bool" where
  "int_value v \<longleftrightarrow> val_origin v \<noteq> FROM_VOID \<and> val_origin v \<noteq> FROM_NULL \<and> val_type v = 0 \<and> val_dim v = 0"

abbreviation push_state :: "compiler \<Rightarrow> val \<Rightarrow> compiler" where
  "push_state self v \<equiv> put_cell (self\<lparr>heap := heap self + 32\<rparr>) (heap self) (Val v)"

lemma push_state_simps [simp]:
  "heap (push_state self v) = heap self + 32" "next_register (push_state self v) = next_register self"
  "cells (push_state self v) (heap self) = Some (Val v)" "frame_size (push_state self v) = frame_size self"
  "code_ok (push_state self v) = code_ok self" "room n (push_state self v) = room n self"
  by (simp_all add: put_cell_def code_ok_def room_def pos_def)

lemma keeps_push_state:
  assumes "unat (heap self) + 32 \<le> unat (heap_limit self)"
  shows "keeps self (push_state self v)"
  using keeps_put_cell[of self "self\<lparr>heap := heap self + 32\<rparr>" "heap self" "Val v"] assms
    unat_u64_less[of "heap_limit self"] by (simp add: keeps_cells VALUE_SIZE_def)

text \<open>Pushing a value and writing code for it.\<close>

lemma pushed_written:
  assumes "ready \<Gamma> self n bs" and "1 \<le> n" and "int_value v"
    and "core self' = core (emit bs self)" and "cells self' = cells (push_state self v)"
    and "heap self' = heap self + 32" and "next_register self' = next_register self + 1"
  shows "pushed self bs self'"
proof -
  have "unat (heap self) + 32 \<le> unat (heap_limit self)" using assms(1,2) by (simp add: ready_def)
  from keeps_push_state[OF this, of v] have "keeps self self'" using assms(5) by (simp add: keeps_def)
  moreover have "cells self' (heap self) = Some (Val v)" using assms(5) by simp
  ultimately show ?thesis using assms(3-7) by (auto simp: pushed_def extends_def int_value_def)
qed

lemma ready_simps:
  assumes "ready \<Gamma> self n bs" and "1 \<le> n"
  shows "code_ok self" "room (length bs) self" "next_register self < 8"
    "unat (heap self) + 32 \<le> unat (heap_limit self)"
  using assms by (simp_all add: ready_def less_u64)

lemma parse_number:
  assumes "sees self (Number c # u # us)" and "ready \<Gamma> self n (cst_bytes (next_register self) c)" and "1 \<le> n"
  shows "\<exists>self'. tc_parse_primitive_expr p f self = Ret self' \<and> sees self' (u # us) \<and>
    pushed self (cst_bytes (next_register self) c) self'"
proof -
  note r = ready_simps[OF assms(2,3)]
  let ?v = "\<lparr>val_origin = FROM_OTHER, val_slot = 0, val_type = 0, val_dim = 0\<rparr>"
  let ?self = "push_state self ?v"
  have s: "sees ?self (Number c # u # us)" using assms(1) by (simp del: sees.simps)
  then obtain self1 where s1: "tc_read_token ?self = Ret self1" "sees self1 (u # us)" "off_scanner self1 = off_scanner ?self"
    by (rule read_sees)
  note o = off_scanner_core[OF s1(3)]
  have c1: "core self1 = core self" using o(1) by simp
  let ?self' = "(emit (cst_bytes (next_register self) c) self1)\<lparr>next_register := next_register self + 1\<rparr>"
  have "tc_write_cst_insn self1 c = Ret ?self'"
    using write_cst[of self1 c] r core_code[OF c1] o(4) by (simp add: seq_written)
  then have "tc_parse_primitive_expr p f self = Ret ?self'"
    using sees_token[OF assms(1)] push_value[OF r(4)] parse_integer_sees[OF s] s1(1)
    by (simp add: tc_parse_primitive_expr_def token_of_def)
  moreover have "pushed self (cst_bytes (next_register self) c) ?self'"
    by (rule pushed_written[OF assms(2,3), of ?v])
      (use o in \<open>simp_all add: int_value_def FROM_OTHER_def FROM_VOID_def FROM_NULL_def core_code(4)[OF c1]\<close>)
  moreover have "sees ?self' (u # us)" using s1(2) by (simp del: sees.simps)
  ultimately show ?thesis by blast
qed

lemma parse_symbol_listed:
  assumes "sees self (Word w # u # us)" and "keyword_token w = TC_IDENTIFIER" and "syms_at self (symbols self) es"
    and "map_of es w = Some (q, s)"
  obtains self1 where "tc_parse_symbol self (symbols self) = Ret (q, self1)" "sees self1 (u # us)"
    "off_scanner self1 = off_scanner self" "get_symbol self1 q = Ret s" "get_symbol self q = Ret s" "below (heap self) q (Sym s)"
proof -
  obtain self1 where s1: "tc_read_token self = Ret self1" "sees self1 (u # us)" "off_scanner self1 = off_scanner self"
    using assms(1) by (rule read_sees)
  note o = off_scanner_core[OF s1(3)]
  note i = parse_identifier_sees[OF assms(1,2)]
  have q: "cells self q = Some (Sym s)" "q \<noteq> 0" "below (heap self) q (Sym s)"
    if "syms_at self p es" "map_of es w = Some (q, s)" for p es
    using that by (induction es arbitrary: p) (auto split: if_splits)
  have "syms_at self1 (symbols self) es" using syms_at_keeps[OF assms(3), of self1] o core_eqD[OF o(1)] by (simp add: keeps_cells)
  moreover have "name_at self1 (next_token_data self) (next_token_length self) w"
    using i(2) core_eqD[OF o(1)] by (simp add: name_at_def)
  ultimately have "sym_lookup self1 (symbols self) (next_token_data self) (next_token_length self) = Ret q"
    using lookup_address assms(4) by (simp add: address_of_def)
  then have "tc_parse_symbol self (symbols self) = Ret (q, self1)"
    using s1(1) i(1) q(2)[OF assms(3,4)] by (simp add: tc_parse_symbol_def)
  moreover have "get_symbol self1 q = Ret s" "get_symbol self q = Ret s" using q(1)[OF assms(3,4)] o by (simp_all add: get_symbol_def)
  ultimately show thesis using that s1 q(3)[OF assms(3,4)] by simp
qed

lemma parse_symbol_in_scope:
  assumes "sees self (Word w # u # us)" and "keyword_token w = TC_IDENTIFIER" and "in_scope \<Gamma> self" and "\<Gamma> w = Some b"
  obtains self1 q s where "tc_parse_symbol self (symbols self) = Ret (q, self1)" "sees self1 (u # us)"
    "off_scanner self1 = off_scanner self" "get_symbol self1 q = Ret s" "describes b s"
    "below (heap self) q (Sym s)" "get_symbol self1 q = get_symbol self q"
proof -
  obtain es q s where es: "syms_at self (symbols self) es" "map_of es w = Some (q, s)" "describes b s"
    using assms(3,4) unfolding in_scope_def by blast
  from parse_symbol_listed[OF assms(1,2) es(1,2)] es(3) that show thesis by metis
qed

text \<open>The value on the stack is that of a variable, and its instruction can be erased.\<close>

definition names_slot :: "compiler \<Rightarrow> compiler \<Rightarrow> u64 \<Rightarrow> bool" where
  "names_slot self self' v \<longleftrightarrow> dst_mark self' = dst self \<and>
     cells self' (heap self) = Some (Val \<lparr>val_origin = FROM_VARIABLE, val_slot = v, val_type = 0, val_dim = 0\<rparr>)"

lemma parse_name:
  assumes "sees self (Word w # u # us)" and "keyword_token w = TC_IDENTIFIER" and "\<Gamma> w = Some b"
    and "bs = name_code (frame_size self) (unat (next_register self)) b"
    and "ready \<Gamma> self n bs" and "1 \<le> n" and "token_of u \<noteq> 40"
  shows "\<exists>self'. tc_parse_primitive_expr p f self = Ret self' \<and> sees self' (u # us) \<and> pushed self bs self' \<and>
    (\<forall>v. b = Slot v \<longrightarrow> names_slot self self' v)"
proof -
  note r = ready_simps[OF assms(5,6)]
  have sc: "in_scope \<Gamma> self" using assms(5) by (simp add: ready_def)
  obtain self1 q s where p: "tc_parse_symbol self (symbols self) = Ret (q, self1)" "sees self1 (u # us)"
    "off_scanner self1 = off_scanner self" "get_symbol self1 q = Ret s" "describes b s"
    "below (heap self) q (Sym s)" "get_symbol self1 q = get_symbol self q"
    using parse_symbol_in_scope[OF assms(1,2) sc assms(3)] by blast
  note o = off_scanner_core[OF p(3)]
  have c: "cells self1 q = Some (Sym s)" using p(4) by (auto simp: get_symbol_def split: option.splits cell.splits)
  have l: "heap_limit self1 = heap_limit self" "frame_size self1 = frame_size self" using core_eqD[OF o(1)] by simp_all
  have room: "unat (heap self1) + 32 \<le> unat (heap_limit self1)" using r(4) o l by simp
  let ?v = "\<lparr>val_origin = (case b of Slot v \<Rightarrow> FROM_VARIABLE | Constant v \<Rightarrow> FROM_OTHER), val_slot = sym_value s,
    val_type = 0, val_dim = 0\<rparr>"
  let ?self2 = "push_state self1 ?v"
  have push: "tc_push_symbol_value self1 q = Ret ?self2"
    using p(4,5) push_value[OF room] by (cases b) (simp_all add: tc_push_symbol_value_def kinds Let_def)
  have "cells ?self2 q = Some (Sym s)"
    using keeps_push_state[OF room, of ?v] c p(6) o(3) by (simp add: keeps_def)
  then have s2: "get_symbol ?self2 q = Ret s" by (simp add: get_symbol_def)
  have c2: "core ?self2 = core self" using o(1) by simp
  have ok2: "code_ok ?self2" "next_register ?self2 < 8" "room (length bs) ?self2"
    using r o(4) core_code[OF c2] by simp_all
  have dst: "dst ?self2 = dst self" using core_eqD[OF c2] by simp
  obtain d where d: "tc_parse_primitive_expr p f self = Ret ((emit bs ?self2)\<lparr>dst_mark := d, next_register := next_register self + 1\<rparr>)"
    "\<And>v. b = Slot v \<Longrightarrow> d = dst self"
  proof (cases b)
    case (Slot v)
    then have "tc_write_get_insn ?self2 v = Ret ((emit bs ?self2)\<lparr>dst_mark := dst ?self2, next_register := next_register self + 1\<rparr>)"
      using write_get[OF ok2(1,2), of v] ok2(3) assms(4) o(4) l by (simp add: seq_written)
    then show thesis using that dst push s2 p(1,5) Slot sees_token[OF assms(1)] sees_token[OF p(2)] assms(2,7)
      by (simp add: tc_parse_primitive_expr_def tc_parse_symbol_expr_def token_of_def tokens kinds)
  next
    case (Constant v)
    then have "tc_write_cst_insn ?self2 v = Ret ((emit bs ?self2)\<lparr>next_register := next_register self + 1\<rparr>)"
      using write_cst[OF ok2(1,2), of v] ok2(3) assms(4) o(4) by (simp add: seq_written)
    moreover have "self' = self'\<lparr>dst_mark := dst_mark self'\<rparr>" for self' :: compiler by simp
    ultimately show thesis using that[of "dst_mark ?self2"] push s2 p(1,5) Constant sees_token[OF assms(1)] sees_token[OF p(2)] assms(2,7)
      by (simp add: tc_parse_primitive_expr_def tc_parse_symbol_expr_def token_of_def tokens kinds emit_def)
  qed
  let ?self' = "(emit bs ?self2)\<lparr>dst_mark := d, next_register := next_register self + 1\<rparr>"
  have iv: "int_value ?v" by (simp add: int_value_def FROM_VARIABLE_def FROM_OTHER_def FROM_VOID_def FROM_NULL_def split: binding.split)
  have "cells ?self' = cells (push_state self ?v)" using o by (simp add: put_cell_def)
  then have "pushed self bs ?self'"
    using pushed_written[OF assms(5,6) iv, of ?self'] o core_code(4)[OF c2] by simp
  moreover have "sees ?self' (u # us)" using p(2) by (simp del: sees.simps)
  moreover have "names_slot self ?self' v" if "b = Slot v" for v
    using d(2)[OF that] p(5) o that by (simp add: names_slot_def put_cell_def)
  ultimately show ?thesis using d(1) by blast
qed

text \<open>Nothing around a primitive expression: no field access, no pointer operator, no cast.\<close>

lemma parse_only_primitive:
  assumes "tc_parse_primitive_expr (tc_parse_expr (Suc f)) f self = Ret self'"
    and "next_token self \<noteq> TC_MUL" and "next_token self \<noteq> TC_BIT_AND"
    and "next_token self' \<noteq> 46" and "next_token self' \<noteq> TC_AS"
  shows "parser 5 (Suc f) self = Ret self'"
proof -
  have "while_do f (\<lambda>self. next_token self = 46) b self' = Ret self'" for b
    using assms(4) by (cases f) simp_all
  then show ?thesis using assms
    by (simp add: parser_def tc_parse_cast_expr_def tc_parse_path_expr_def)
qed

section \<open>Operators\<close>

text \<open>Two integers on the stack become one.\<close>

lemma pop_int:
  assumes "cells self h = Some (Val v)" and "int_value v" and "heap self = h + 32"
  shows "tc_pop_value self = Ret (v, self\<lparr>heap := h\<rparr>)"
proof -
  have "heap self - VALUE_SIZE = h" using assms(3) by (simp add: VALUE_SIZE_def)
  then show ?thesis using assms(1,2)
    by (simp add: tc_pop_value_def tc_pop_value_or_void_def get_value_def int_value_def)
qed

abbreviation "an_int \<equiv> \<lparr>val_origin = FROM_OTHER, val_slot = 0, val_type = 0, val_dim = 0\<rparr>"

lemma int_value_an_int: "int_value an_int"
  by (simp add: int_value_def FROM_OTHER_def FROM_VOID_def FROM_NULL_def)

lemma check_two:
  assumes "cells self p = Some (Val v1)" and "int_value v1" and "cells self (p + 32) = Some (Val v2)" and "int_value v2"
    and "heap self = p + 32 + 32" and "unat p + 32 \<le> unat (heap_limit self)"
  shows "check_operands t self = Ret (push_state (self\<lparr>heap := p\<rparr>) an_int)"
proof -
  have a: "tc_pop_value self = Ret (v2, self\<lparr>heap := p + 32\<rparr>)" by (rule pop_int[OF assms(3,4,5)])
  have b: "tc_pop_value (self\<lparr>heap := p + 32\<rparr>) = Ret (v1, self\<lparr>heap := p\<rparr>)"
    using pop_int[of "self\<lparr>heap := p + 32\<rparr>" p v1] assms(1,2) by simp
  have "tc_push_value (self\<lparr>heap := p\<rparr>) FROM_OTHER 0 0 0 = Ret (push_state (self\<lparr>heap := p\<rparr>) an_int)"
    using push_value[of "self\<lparr>heap := p\<rparr>" 0 0 FROM_OTHER 0] assms(6) by simp
  then show ?thesis using a b assms(2,4)
    by (simp add: check_operands_def tc_check_integer_expr_def tc_check_add_or_sub_expr_def int_value_def)
qed

lemma operate_pushes:
  assumes "pushed self bs self1" and "ready \<Gamma> self n (bs @ cs @ ks)" and "2 \<le> n"
    and "ks = binary_bytes t (next_register self) (next_register self + 1)"
    and "sees self1 (Other t # u # us)"
    and "\<And>self2. off_scanner self2 = off_scanner self1 \<Longrightarrow> sees self2 (u # us) \<Longrightarrow>
      \<exists>self3. parser (Suc l) f self2 = Ret self3 \<and> pushed self2 cs self3 \<and> sees self3 vs"
  shows "\<exists>self'. operate l f self1 = Ret self' \<and> pushed self (bs @ cs @ ks) self' \<and> sees self' vs"
proof -
  obtain self2 where s2: "tc_read_token self1 = Ret self2" "sees self2 (u # us)" "off_scanner self2 = off_scanner self1"
    using assms(5) by (rule read_sees)
  obtain self3 where s3: "parser (Suc l) f self2 = Ret self3" "pushed self2 cs self3" "sees self3 vs"
    using assms(6)[OF s2(3,2)] by blast
  have p2: "pushed self bs self2" using assms(1) read_keeps(3)[OF s2(3)] by simp
  have rd: "ready \<Gamma> self (Suc 1) (bs @ cs @ ks)" using ready_room[of \<Gamma> self n "bs @ cs @ ks" "[]" 2] assms(2,3)
    by (simp add: numeral_2_eq_2)
  note n2 = ready_next[OF rd p2 le_refl]
  have ok: "code_ok self" "room (length (bs @ cs @ ks)) self" "unat (next_register self) + 2 \<le> 8"
    "unat (heap self) + 64 \<le> unat (heap_limit self)"
    using rd by (simp_all add: ready_def)
  have ok2: "code_ok self2" "room (length (cs @ ks)) self2" using n2(1) by (simp_all add: ready_def)
  have rm: "room (length (bs @ cs)) self" using ok(2) by (simp add: room_def)
  have e3: "extends self (bs @ cs) self3"
    using extends_trans[of self bs self2 cs self3] p2 s3(2) n2(4) ok(1) rm by (simp add: pushed_def)
  obtain v1 where v1: "cells self2 (heap self) = Some (Val v1)" "int_value v1"
    using p2 by (auto simp: pushed_def int_value_def)
  obtain v2 where v2: "cells self3 (heap self2) = Some (Val v2)" "int_value v2"
    using s3(2) by (auto simp: pushed_def int_value_def)
  have h: "heap self2 = heap self + 32" "heap self3 = heap self + 32 + 32"
    using p2 s3(2) by (simp_all add: pushed_def)
  have "below (heap self2) (heap self) (Val v1)" using n2(3) by (simp add: below_def VALUE_SIZE_def)
  then have "cells self3 (heap self) = Some (Val v1)" using s3(2) v1(1) by (simp add: pushed_def extends_def keeps_def)
  moreover have lim: "heap_limit self3 = heap_limit self"
    using core_eqD[of self3 "emit (bs @ cs) self"] e3 by (simp add: extends_def emit_def)
  ultimately have ch: "check_operands t self3 = Ret (push_state (self3\<lparr>heap := heap self\<rparr>) an_int)"
    using check_two[of self3 "heap self" v1 v2] v1(2) v2 h ok(4) by simp
  let ?self4 = "push_state (self3\<lparr>heap := heap self\<rparr>) an_int"
  have c3: "core self3 = core (emit (bs @ cs) self)" using e3 by (simp add: extends_def)
  then have c4: "core ?self4 = core (emit (bs @ cs) self)" by simp
  have "code_ok (emit (bs @ cs) self)" by (rule code_ok_emit[OF ok(1) rm])
  moreover have "room (length ks) (emit (bs @ cs) self)"
    using room_emit[OF _ ok(1), of "bs @ cs"] ok(2) by (simp add: room_def)
  ultimately have ok4: "code_ok ?self4" "room (length ks) ?self4" using core_code[OF c4] by simp_all
  have reg: "next_register ?self4 - 1 = next_register self + 1" "next_register ?self4 - 1 - 1 = next_register self"
    using p2 s3(2) by (simp_all add: pushed_def)
  let ?self' = "(emit ks ?self4)\<lparr>next_register := next_register self + 1\<rparr>"
  have "tc_write_binary_insn ?self4 t = Ret ?self'"
    using write_binary[OF ok4(1), of t] ok4(2)
    unfolding reg(2) unfolding reg(1) assms(4)[symmetric] seq_written by (simp only: if_True)
  then have "operate l f self1 = Ret ?self'"
    using s2(1) s3(1) ch sees_token[OF assms(5)] by (simp add: operate_def token_of_def)
  moreover have "pushed self (bs @ cs @ ks) ?self'"
  proof -
    have "emit ks (emit (bs @ cs) self) = emit (bs @ cs @ ks) self"
      using emit_emit[of self "bs @ cs" ks] ok(1,2) by (simp add: add.assoc)
    then have "core ?self' = core (emit (bs @ cs @ ks) self)" using core_code(4)[OF c4, of ks] by simp
    moreover have "keeps self ?self4"
      using keeps_put_cell[of self "self3\<lparr>heap := heap self + 32\<rparr>" "heap self" "Val an_int"] e3 ok(4)
        unat_u64_less[of "heap_limit self"] by (simp add: extends_def keeps_def VALUE_SIZE_def)
    then have "keeps self ?self'" by (simp add: keeps_def)
    moreover have "cells ?self' (heap self) = Some (Val an_int)" by (simp add: put_cell_def)
    ultimately show ?thesis using int_value_an_int by (auto simp: pushed_def extends_def int_value_def)
  qed
  moreover have "sees ?self' vs" using s3(3) by (simp del: sees.simps)
  ultimately show ?thesis by blast
qed

section \<open>The parser refines the grammar\<close>

text \<open>What may follow a phrase of a level: nothing that would go on with it, except an operator that the
  loop of the level takes.\<close>

definition follows :: "nat \<Rightarrow> lexeme \<Rightarrow> bool" where
  "follows l u \<longleftrightarrow> token_of u \<notin> {40, 46, TC_AS} \<and>
     (case level (token_of u) of None \<Rightarrow> True | Some k \<Rightarrow> k < l \<or> k = l \<and> l \<noteq> 2)"

lemma follows_higher: "follows l u \<Longrightarrow> follows (Suc l) u \<and> level (token_of u) \<noteq> Some (Suc l)"
  by (auto simp: follows_def split: option.splits)

lemma follows_operator: "level t = Some l \<Longrightarrow> l \<noteq> 2 \<Longrightarrow> follows l (Other t)"
  by (auto simp: follows_def token_of_def level_def tokens split: if_splits)

lemma follows_closer: "follows 0 (Other 41)"
  by (simp add: follows_def token_of_def level_def tokens)

definition code_of :: "scope \<Rightarrow> compiler \<Rightarrow> expr \<Rightarrow> u8 list" where
  "code_of \<Gamma> self e = expr_code \<Gamma> (frame_size self) (unat (next_register self)) e"

lemma sees_nonempty: "sees self (u # vs) \<Longrightarrow> next_token self = token_of u"
  by (simp add: has_lexeme_token)

lemma need_pos: "1 \<le> need e"
  by (induction e) auto

lemma phrase_first: "phrase l ts e \<Longrightarrow> hd ts = Other 40 \<or> (\<exists>v. hd ts = Number v) \<or> (\<exists>w. hd ts = Word w \<and> keyword_token w = TC_IDENTIFIER)"
  by (induction rule: phrase.induct) (auto dest: phrase_nonempty)

text \<open>The claim for a phrase: after it the parser is in the loop of its level.\<close>

definition parsed :: "scope \<Rightarrow> nat \<Rightarrow> lexeme list \<Rightarrow> expr \<Rightarrow> bool" where
  "parsed \<Gamma> l ts e \<longleftrightarrow> (\<forall>f self u us. length ts \<le> f \<longrightarrow> sees self (ts @ u # us) \<longrightarrow> follows l u \<longrightarrow> scoped \<Gamma> e \<longrightarrow>
     ready \<Gamma> self (need e) (code_of \<Gamma> self e) \<longrightarrow>
     (\<exists>self' k. k < length ts \<and> parser l f self = resume l f (f - k) self' \<and>
        pushed self (code_of \<Gamma> self e) self' \<and> sees self' (u # us)))"

lemma parsedI:
  assumes "\<And>f self u us. length ts \<le> f \<Longrightarrow> sees self (ts @ u # us) \<Longrightarrow> follows l u \<Longrightarrow> scoped \<Gamma> e \<Longrightarrow>
     ready \<Gamma> self (need e) (code_of \<Gamma> self e) \<Longrightarrow>
     \<exists>self' k. k < length ts \<and> parser l f self = resume l f (f - k) self' \<and>
        pushed self (code_of \<Gamma> self e) self' \<and> sees self' (u # us)"
  shows "parsed \<Gamma> l ts e"
  using assms unfolding parsed_def by blast

text \<open>A phrase that is followed by something the loop does not take.\<close>

lemma parsed_stops:
  assumes "parsed \<Gamma> l ts e" and "length ts \<le> f" and "sees self (ts @ u # us)" and "follows l u"
    and "level (token_of u) \<noteq> Some l" and "scoped \<Gamma> e" and "ready \<Gamma> self (need e) (code_of \<Gamma> self e)"
  shows "\<exists>self'. parser l f self = Ret self' \<and> pushed self (code_of \<Gamma> self e) self' \<and> sees self' (u # us)"
proof -
  obtain self' k where p: "parser l f self = resume l f (f - k) self'"
    "pushed self (code_of \<Gamma> self e) self'" "sees self' (u # us)"
    using assms unfolding parsed_def by blast
  then have "parser l f self = Ret self'" using resume_stops sees_nonempty[OF p(3)] assms(5) by simp
  then show ?thesis using p by blast
qed

lemma parsed_higher:
  assumes "parsed \<Gamma> (Suc l) ts e" and "l < 5" and "ts \<noteq> []"
  shows "parsed \<Gamma> l ts e"
proof (rule parsedI)
  fix f self u us
  assume a: "length ts \<le> f" "sees self (ts @ u # us)" "follows l u" "scoped \<Gamma> e" "ready \<Gamma> self (need e) (code_of \<Gamma> self e)"
  obtain self' where p: "parser (Suc l) f self = Ret self'" "pushed self (code_of \<Gamma> self e) self'" "sees self' (u # us)"
    using parsed_stops[OF assms(1) a(1,2)] follows_higher[OF a(3)] a(4,5) by blast
  have "parser l f self = resume l f (f - 0) self'"
  proof (cases "l = 2")
    case True
    then have "level (next_token self') \<noteq> Some 2" using a(3) sees_nonempty[OF p(3)] by (auto simp: follows_def)
    then show ?thesis using p(1) parser_shift[of f self] resume_stops[of self' 2 f f] True by (simp add: numeral_3_eq_3)
  next
    case False
    then show ?thesis using p(1) parser_loop[OF assms(2), of f self] by simp
  qed
  then show "\<exists>self' k. k < length ts \<and> parser l f self = resume l f (f - k) self' \<and>
      pushed self (code_of \<Gamma> self e) self' \<and> sees self' (u # us)"
    using p assms(3) by blast
qed

text \<open>The code of a binary expression, in parts.\<close>

lemma code_of_binary:
  "code_of \<Gamma> self (Binary t a b) = code_of \<Gamma> self a @ expr_code \<Gamma> (frame_size self) (Suc (unat (next_register self))) b @
     binary_bytes t (next_register self) (next_register self + 1)"
  by (simp add: code_of_def add.commute)

lemma ready_left:
  assumes "ready \<Gamma> self (need (Binary t a b)) (code_of \<Gamma> self (Binary t a b))"
  shows "ready \<Gamma> self (need a) (code_of \<Gamma> self a)"
  using ready_room[of \<Gamma> self _ "code_of \<Gamma> self a"] assms by (simp add: code_of_binary)

lemma parsed_right:
  assumes "parsed \<Gamma> (Suc l) us b" and "length us \<le> f" and "scoped \<Gamma> b"
    and "ready \<Gamma> self (need (Binary t a b)) (code_of \<Gamma> self (Binary t a b))"
    and "pushed self (code_of \<Gamma> self a) self1" and "sees self1 (Other t # us @ u # vs)" and "follows l u"
  shows "\<exists>self'. operate l f self1 = Ret self' \<and> pushed self (code_of \<Gamma> self (Binary t a b)) self' \<and> sees self' (u # vs)"
proof -
  let ?cs = "expr_code \<Gamma> (frame_size self) (Suc (unat (next_register self))) b"
  let ?ks = "binary_bytes t (next_register self) (next_register self + 1)"
  obtain u1 us1 where us: "us @ u # vs = u1 # us1" by (cases "us @ u # vs") auto
  have rd: "ready \<Gamma> self (need (Binary t a b)) (code_of \<Gamma> self a @ ?cs @ ?ks)"
    using assms(4) by (simp add: code_of_binary)
  have n: "Suc (need b) \<le> need (Binary t a b)" "2 \<le> need (Binary t a b)" using need_pos[of b] by simp_all
  have right: "\<exists>self3. parser (Suc l) f self2 = Ret self3 \<and> pushed self2 ?cs self3 \<and> sees self3 (u # vs)"
    if s2: "off_scanner self2 = off_scanner self1" "sees self2 (u1 # us1)" for self2
  proof -
    have p2: "pushed self (code_of \<Gamma> self a) self2" using assms(5) read_keeps(3)[OF s2(1)] by simp
    note nx = ready_next[OF rd p2 n(1)]
    have "frame_size self2 = frame_size self"
      using core_eqD[of self2 "emit (code_of \<Gamma> self a) self"] p2 by (simp add: pushed_def extends_def)
    then have c: "code_of \<Gamma> self2 b = ?cs" using nx(2) by (simp add: code_of_def)
    have "ready \<Gamma> self2 (need b) ?cs" using ready_room[of \<Gamma> self2 "need b" ?cs ?ks] nx(1) by simp
    then show ?thesis
      using parsed_stops[OF assms(1,2), of self2 u vs] s2(2) us follows_higher[OF assms(7)] assms(3) c by simp
  qed
  have "sees self1 (Other t # u1 # us1)" using assms(6) by (simp only: us)
  from operate_pushes[OF assms(5) rd n(2) refl this right] show ?thesis by (simp add: code_of_binary)
qed

lemma parsed_operator:
  assumes "parsed \<Gamma> l ts a" and "parsed \<Gamma> (Suc l) us b" and "level t = Some l" and "l \<noteq> 2" and "ts \<noteq> []"
  shows "parsed \<Gamma> l (ts @ Other t # us) (Binary t a b)"
proof (rule parsedI)
  fix f self u vs
  assume a: "length (ts @ Other t # us) \<le> f" "sees self ((ts @ Other t # us) @ u # vs)" "follows l u"
    "scoped \<Gamma> (Binary t a b)" "ready \<Gamma> self (need (Binary t a b)) (code_of \<Gamma> self (Binary t a b))"
  have "length ts \<le> f" "sees self (ts @ Other t # us @ u # vs)" "scoped \<Gamma> a" using a(1,2,4) by simp_all
  then obtain self1 k where s1: "k < length ts" "parser l f self = resume l f (f - k) self1"
    "pushed self (code_of \<Gamma> self a) self1" "sees self1 (Other t # us @ u # vs)"
    using assms(1) follows_operator[OF assms(3,4)] ready_left[OF a(5)] unfolding parsed_def by blast
  have fk: "f - k = Suc (f - Suc k)" "length us \<le> f" "scoped \<Gamma> b" using a(1,4) s1(1) by simp_all
  have nt: "next_token self1 = t" using sees_nonempty[OF s1(4)] by (simp add: token_of_def)
  obtain self' where s': "operate l f self1 = Ret self'" "pushed self (code_of \<Gamma> self (Binary t a b)) self'" "sees self' (u # vs)"
    using parsed_right[OF assms(2) fk(2,3) a(5) s1(3,4) a(3)] by blast
  have "parser l f self = resume l f (f - Suc k) self'" using s1(2) s'(1) nt assms(3) by (simp add: fk(1))
  then show "\<exists>self' k. k < length (ts @ Other t # us) \<and> parser l f self = resume l f (f - k) self' \<and>
      pushed self (code_of \<Gamma> self (Binary t a b)) self' \<and> sees self' (u # vs)"
    using s' s1(1) by (intro exI[of _ self'] exI[of _ "Suc k"]) simp
qed

lemma parsed_shift:
  assumes "parsed \<Gamma> 3 ts a" and "parsed \<Gamma> 3 us b" and "level t = Some 2"
  shows "parsed \<Gamma> 2 (ts @ Other t # us) (Binary t a b)"
proof (rule parsedI)
  fix f self u vs
  assume a: "length (ts @ Other t # us) \<le> f" "sees self ((ts @ Other t # us) @ u # vs)" "follows 2 u"
    "scoped \<Gamma> (Binary t a b)" "ready \<Gamma> self (need (Binary t a b)) (code_of \<Gamma> self (Binary t a b))"
  have l: "length ts \<le> f" "sees self (ts @ Other t # us @ u # vs)" "scoped \<Gamma> a" "length us \<le> f" "scoped \<Gamma> b"
    using a(1,2,4) by simp_all
  have "follows 3 (Other t)" "level (token_of (Other t)) \<noteq> Some 3"
    using assms(3) by (auto simp: follows_def token_of_def level_iff level_def tokens)
  then obtain self1 where s1: "parser 3 f self = Ret self1" "pushed self (code_of \<Gamma> self a) self1"
    "sees self1 (Other t # us @ u # vs)"
    using parsed_stops[OF assms(1) l(1,2)] l(3) ready_left[OF a(5)] by blast
  have nt: "next_token self1 = t" using sees_nonempty[OF s1(3)] by (simp add: token_of_def)
  obtain self' where s': "operate 2 f self1 = Ret self'" "pushed self (code_of \<Gamma> self (Binary t a b)) self'" "sees self' (u # vs)"
    using parsed_right[of \<Gamma> 2 us b f self t a self1 u vs] assms(2) l(4,5) a(3,5) s1(2,3) by (auto simp: numeral_3_eq_3)
  have "level (next_token self') \<noteq> Some 2" using a(3) sees_nonempty[OF s'(3)] by (auto simp: follows_def)
  then have "parser 2 f self = resume 2 f (f - 0) self'"
    using parser_shift[of f self] s1(1) s'(1) nt assms(3) resume_stops by simp
  then show "\<exists>self' k. k < length (ts @ Other t # us) \<and> parser 2 f self = resume 2 f (f - k) self' \<and>
      pushed self (code_of \<Gamma> self (Binary t a b)) self' \<and> sees self' (u # vs)"
    using s' by (intro exI[of _ self'] exI[of _ 0]) simp
qed

text \<open>The primitive expressions.\<close>

lemma level_5: "level t \<noteq> Some 5"
  by (simp add: level_iff)

lemma parsed_primitive:
  assumes "\<And>f self u us. Suc f \<ge> length ts \<Longrightarrow> sees self (ts @ u # us) \<Longrightarrow> follows 5 u \<Longrightarrow> scoped \<Gamma> e \<Longrightarrow>
     ready \<Gamma> self (need e) (code_of \<Gamma> self e) \<Longrightarrow>
     \<exists>self'. tc_parse_primitive_expr (tc_parse_expr (Suc f)) f self = Ret self' \<and>
       sees self' (u # us) \<and> pushed self (code_of \<Gamma> self e) self'"
    and "ts = t # ts'" and "token_of t \<noteq> TC_MUL" and "token_of t \<noteq> TC_BIT_AND"
  shows "parsed \<Gamma> 5 ts e"
proof (rule parsedI)
  fix f self u us
  assume a: "length ts \<le> f" "sees self (ts @ u # us)" "follows 5 u" "scoped \<Gamma> e" "ready \<Gamma> self (need e) (code_of \<Gamma> self e)"
  obtain g where g: "f = Suc g" using a(1) assms(2) by (cases f) auto
  obtain self' where p: "tc_parse_primitive_expr (tc_parse_expr (Suc g)) g self = Ret self'"
    "sees self' (u # us)" "pushed self (code_of \<Gamma> self e) self'"
    using assms(1)[of g self u us] a g by blast
  have "next_token self = token_of t" using sees_nonempty[of self t "ts' @ u # us"] a(2) assms(2) by simp
  then have "parser 5 f self = Ret self'"
    using parse_only_primitive[OF p(1)] assms(3,4) a(3) sees_nonempty[OF p(2)] by (simp add: g follows_def)
  then show "\<exists>self' k. k < length ts \<and> parser 5 f self = resume 5 f (f - k) self' \<and>
      pushed self (code_of \<Gamma> self e) self' \<and> sees self' (u # us)"
    using p resume_stops[OF level_5] assms(2) by (intro exI[of _ self'] exI[of _ 0]) simp
qed

lemma code_of_same:
  assumes "off_scanner self1 = off_scanner self"
  shows "code_of \<Gamma> self1 e = code_of \<Gamma> self e"
  using off_scanner_core[OF assms] core_eqD(10)[of self1 self] by (simp add: code_of_def)

lemma parsed_parens:
  assumes "parsed \<Gamma> 0 ts e" and "ts \<noteq> []"
  shows "parsed \<Gamma> 5 (Other 40 # ts @ [Other 41]) e"
proof (rule parsed_primitive[where t = "Other 40" and ts' = "ts @ [Other 41]"])
  fix f self u us
  assume a: "length (Other 40 # ts @ [Other 41]) \<le> Suc f" "sees self ((Other 40 # ts @ [Other 41]) @ u # us)"
    "follows 5 u" "scoped \<Gamma> e" "ready \<Gamma> self (need e) (code_of \<Gamma> self e)"
  obtain t1 ts1 where ts: "ts = t1 # ts1" using assms(2) by (cases ts) auto
  have s0: "sees self (Other 40 # t1 # ts1 @ Other 41 # u # us)" using a(2) ts by simp
  then obtain self1 where s1: "tc_read_token self = Ret self1" "sees self1 (t1 # ts1 @ Other 41 # u # us)"
    "off_scanner self1 = off_scanner self" by (rule read_sees)
  have l: "length ts \<le> f" "sees self1 (ts @ Other 41 # u # us)" using a(1) s1(2) ts by simp_all
  have rd: "ready \<Gamma> self1 (need e) (code_of \<Gamma> self1 e)"
    using a(5) read_keeps(1)[OF s1(3)] code_of_same[OF s1(3)] by simp
  have "level (token_of (Other 41)) \<noteq> Some 0" by (simp add: token_of_def level_def tokens)
  from parsed_stops[OF assms(1) l follows_closer this a(4) rd]
  obtain self2 where s2: "parser 0 f self1 = Ret self2" "pushed self1 (code_of \<Gamma> self1 e) self2"
    "sees self2 (Other 41 # u # us)" by blast
  then obtain self3 where s3: "tc_read_token self2 = Ret self3" "sees self3 (u # us)" "off_scanner self3 = off_scanner self2"
    using read_sees by blast
  have p: "pushed self (code_of \<Gamma> self e) self3"
    using s2(2) read_keeps(2)[OF s1(3)] read_keeps(3)[OF s3(3)] code_of_same[OF s1(3)] by simp
  have "tc_parse_token self 40 = Ret self1"
    using parse_token_sees[OF s0] s1(1) by (simp add: token_of_def)
  moreover have "tc_parse_token self2 41 = Ret self3"
    using parse_token_sees[OF s2(3)] s3(1) by (simp add: token_of_def)
  moreover have "next_token self = 40" using sees_nonempty[OF s0] by (simp add: token_of_def)
  ultimately have "tc_parse_primitive_expr (tc_parse_expr (Suc f)) f self = Ret self3"
    using s2(1) by (simp add: tc_parse_primitive_expr_def tokens parser_def)
  then show "\<exists>self'. tc_parse_primitive_expr (tc_parse_expr (Suc f)) f self = Ret self' \<and>
       sees self' (u # us) \<and> pushed self (code_of \<Gamma> self e) self'"
    using p s3(2) by blast
qed (simp_all add: token_of_def tokens)

lemma parsed_number: "parsed \<Gamma> 5 [Number v] (Num v)"
proof (rule parsed_primitive[where t = "Number v" and ts' = "[]"])
  fix f self u us
  assume a: "sees self ([Number v] @ u # us)" "ready \<Gamma> self (need (Num v)) (code_of \<Gamma> self (Num v))"
  have c: "code_of \<Gamma> self (Num v) = cst_bytes (next_register self) v" by (simp add: code_of_def)
  have "sees self (Number v # u # us)" "ready \<Gamma> self 1 (cst_bytes (next_register self) v)" using a c by simp_all
  then show "\<exists>self'. tc_parse_primitive_expr (tc_parse_expr (Suc f)) f self = Ret self' \<and>
       sees self' (u # us) \<and> pushed self (code_of \<Gamma> self (Num v)) self'"
    using parse_number[of self v u us \<Gamma> 1 "tc_parse_expr (Suc f)" f] c by simp
qed (simp_all add: token_of_def tokens)

lemma parsed_name: "keyword_token w = TC_IDENTIFIER \<Longrightarrow> parsed \<Gamma> 5 [Word w] (Name w)"
proof (rule parsed_primitive[where t = "Word w" and ts' = "[]"])
  fix f self u us
  assume a: "keyword_token w = TC_IDENTIFIER" "sees self ([Word w] @ u # us)" "follows 5 u" "scoped \<Gamma> (Name w)"
    "ready \<Gamma> self (need (Name w)) (code_of \<Gamma> self (Name w))"
  obtain b where b: "\<Gamma> w = Some b" using a(4) by auto
  have c: "code_of \<Gamma> self (Name w) = name_code (frame_size self) (unat (next_register self)) b"
    using b by (simp add: code_of_def)
  have "sees self (Word w # u # us)" "token_of u \<noteq> 40" using a(2,3) by (simp_all add: follows_def)
  then show "\<exists>self'. tc_parse_primitive_expr (tc_parse_expr (Suc f)) f self = Ret self' \<and>
       sees self' (u # us) \<and> pushed self (code_of \<Gamma> self (Name w)) self'"
    using parse_name[of self w u us \<Gamma> b "code_of \<Gamma> self (Name w)" 1] a(1,5) b c
    by (simp del: sees.simps) blast
qed (simp_all add: token_of_def tokens)

text \<open>The parser on every phrase.\<close>

lemma parsed_phrase: "phrase l ts e \<Longrightarrow> parsed \<Gamma> l ts e"
proof (induction rule: phrase.induct)
  case (parens ts e)
  then show ?case using parsed_parens phrase_nonempty by blast
next
  case (higher l ts e)
  then show ?case using parsed_higher phrase_nonempty by blast
next
  case (operator l ts a us b t)
  then show ?case using parsed_operator phrase_nonempty by blast
next
  case (shift ts a us b t)
  then show ?case using parsed_shift by blast
qed (simp_all add: parsed_number parsed_name)

text \<open>In front of an expression and something else.\<close>

lemma parse_expr_phrase:
  assumes "phrase 0 ts e" and "sees self (ts @ u # us)" and "follows 0 u" and "level (token_of u) = None"
    and "scoped \<Gamma> e" and "ready \<Gamma> self (need e) (code_of \<Gamma> self e)" and "length ts < fuel"
  shows "\<exists>self'. tc_parse_expr fuel self = Ret self' \<and> pushed self (code_of \<Gamma> self e) self' \<and> sees self' (u # us)"
proof -
  obtain f where f: "fuel = Suc f" "length ts \<le> f" using assms(7) by (cases fuel) auto
  have "level (token_of u) \<noteq> Some 0" using assms(4) by simp
  from parsed_stops[OF parsed_phrase[OF assms(1)] f(2) assms(2,3) this assms(5,6)] show ?thesis
    by (simp add: f(1) parser_def)
qed

end
