(* ===== verification/Tc_Expr_Properties.thy ===== *)
theory Tc_Expr_Properties
  imports Tc_Expr_Parse
begin

text \<open>
  What the front end promises for names and for integer expressions: the symbol table is an association
  list in which no name occurs twice, and the code written for an expression computes its value.
\<close>

section \<open>The symbol table\<close>

lemma allocate_symbol:
  assumes "unat (heap self) + 64 \<le> unat (heap_limit self)"
  shows "heap_allocate self SYMBOL_SIZE = Ret (heap self, self\<lparr>heap := heap self + 64\<rparr>)"
proof -
  have "(64 :: u64) \<le> heap_limit self" using assms by (simp add: le_u64)
  then have "\<not> (64 > heap_limit self \<or> heap self > heap_limit self - 64)"
    using assms by (simp add: le_u64 less_u64 unat_sub_u64)
  then show ?thesis by (auto simp: heap_allocate_def mem_allocate_def SYMBOL_SIZE_def)
qed

text \<open>A new symbol in front of the list, in the state that \<open>tc_new_symbol\<close> makes.\<close>

lemma syms_at_new:
  assumes "syms_at self nxt es" and "name_at self name len w" and "heap self \<noteq> 0"
    and "unat (heap self) + 64 \<le> unat (heap_limit self)" and "sym_name s = name" "sym_length s = len" "sym_next s = nxt"
  shows "syms_at (put_cell (self\<lparr>heap := heap self + 64\<rparr>) (heap self) (Sym s)) (heap self) ((w, heap self, s) # es)"
    and "keeps self (put_cell (self\<lparr>heap := heap self + 64\<rparr>) (heap self) (Sym s))"
proof -
  let ?self = "put_cell (self\<lparr>heap := heap self + 64\<rparr>) (heap self) (Sym s)"
  have h: "unat (heap self + 64) = unat (heap self) + 64"
    using assms(4) unat_u64_less[of "heap_limit self"] by (simp add: unat_add_u64)
  show k: "keeps self ?self"
    using keeps_put_cell[of self "self\<lparr>heap := heap self + 64\<rparr>" "heap self" "Sym s"] assms(4)
      unat_u64_less[of "heap_limit self"] by (simp add: keeps_cells SYMBOL_SIZE_def)
  have so: "source ?self = source self" "heap self \<le> heap ?self" using h by (simp_all add: put_cell_def le_u64)
  have "syms_at ?self nxt es" using syms_at_keeps[OF assms(1) k] so by simp
  moreover have "nxt < heap self"
    using syms_at_heap[OF assms(1)] assms(3) by (cases "nxt = 0") (auto simp: less_u64 word_neq_0_conv word_less_nat_alt)
  moreover have "name_at ?self name len w" using assms(2) so by (simp add: name_at_def)
  moreover have "below (heap ?self) (heap self) (Sym s)" using h by (simp add: below_def SYMBOL_SIZE_def put_cell_def)
  moreover have "cells ?self (heap self) = Some (Sym s)" by (simp add: put_cell_def)
  ultimately show "syms_at ?self (heap self) ((w, heap self, s) # es)" using assms(3,5-7) by simp
qed

text \<open>C17. The symbol table behaves like an association list: for a list of symbols \<open>es\<close>, each with its
  name, its address and its contents, looking up a name returns the address of the first symbol with that
  name, or null when there is none; and a new symbol is refused with error 30 when its name is in the
  list already, and is else put in front of it, while all other symbols stay as they are.\<close>

theorem symbol_table_correct:
  assumes "syms_at self p es" and "name_at self name len w" and "heap self \<noteq> 0"
    and "unat (heap self) + 64 \<le> unat (heap_limit self)"
  shows "sym_lookup self p name len = Ret (address_of es w) \<and>
    (if w \<in> fst ` set es then tc_new_symbol self name len kind v type dim p = Panic 30
     else \<exists>self' s. tc_new_symbol self name len kind v type dim p = Ret (heap self, self') \<and>
       sym_kind s = kind \<and> sym_value s = v \<and> sym_type s = type \<and> sym_dim s = dim \<and>
       syms_at self' (heap self) ((w, heap self, s) # es) \<and> keeps self self')"
proof -
  let ?h = "self\<lparr>heap := heap self + 64\<rparr>"
  let ?s = "\<lparr>sym_name = name, sym_length = len, sym_kind = kind, sym_value = v, sym_type = type, sym_dim = dim, sym_next = p\<rparr>"
  have "heap self \<le> heap ?h" using assms(4) unat_u64_less[of "heap_limit self"] by (simp add: le_u64 unat_add_u64)
  then have a: "syms_at ?h p es" using syms_at_keeps[OF assms(1), of ?h] by (simp add: keeps_cells)
  have n: "name_at ?h name len w" using assms(2) by (simp add: name_at_def)
  have z: "address_of es w = 0 \<longleftrightarrow> w \<notin> fst ` set es"
  proof (cases "map_of es w")
    case None
    then have "w \<notin> fst ` set es" by (simp add: map_of_eq_None_iff)
    then show ?thesis using None by (simp add: address_of_def)
  next
    case (Some qs)
    have "q \<noteq> 0" if "syms_at self p es" "(x, q, s) \<in> set es" for p x q s
      using that by (induction es arbitrary: p) auto
    then show ?thesis using Some assms(1) map_of_SomeD[OF Some]
      by (cases qs) (force simp: address_of_def)
  qed
  show ?thesis
    using lookup_address[OF assms(1,2)] lookup_address[OF a n] allocate_symbol[OF assms(4)] z
      syms_at_new[OF assms(1-4), of ?s]
    by (auto simp: tc_new_symbol_def)
qed

text \<open>A compiler in front of a text, with one variable \<open>x\<close> in slot 1 of a frame of one slot.\<close>

definition with_variable :: "string \<Rightarrow> compiler" where
  "with_variable t = goto 1 \<lparr>source = 0 # chars t, src = 0, src_end = length t + 1, next_char = 0, next_char_type = 0,
      next_token = 0, next_token_data = 0, next_token_length = 0,
      code_base = 4096, code = replicate 40 0, dst = 4096, dst_mark = 0, dst_limit = 4136,
      cells = [65536 \<mapsto> Sym \<lparr>sym_name = 1, sym_length = 1, sym_kind = SYM_VARIABLE, sym_value = 1,
        sym_type = 0, sym_dim = 0, sym_next = 0\<rparr>], heap = 65600, heap_limit = 66560,
      symbols = 65536, fn_return_type = 0, next_register = 0, frame_size = 1\<rparr>"

definition x_symbol :: symbol where
  "x_symbol = \<lparr>sym_name = 1, sym_length = 1, sym_kind = SYM_VARIABLE, sym_value = 1, sym_type = 0, sym_dim = 0, sym_next = 0\<rparr>"

lemma with_variable_ok:
  assumes "length t < 1000"
  shows "scan_ok (with_variable (CHR ''x'' # t))" "remaining (with_variable (CHR ''x'' # t)) = chars (CHR ''x'' # t)"
    "syms_at (with_variable (CHR ''x'' # t)) 65536 [(chars ''x'', 65536, x_symbol)]"
  using assms
  by (auto simp: scan_ok_iff with_variable_def goto_def remaining_def sample_length name_at_def x_symbol_def below_def
      SYMBOL_SIZE_def window_def chars_def)

theorem symbol_table_correct_witness:
  "sym_lookup (with_variable ''x*x-2;'') 65536 3 1 = Ret 65536 \<and>
   tc_new_symbol (with_variable ''x*x-2;'') 3 1 SYM_CONST 0 0 0 65536 = Panic 30"
proof -
  have "name_at (with_variable ''x*x-2;'') 3 1 (chars ''x'')"
    by (simp add: name_at_def with_variable_def goto_def window_def chars_def)
  then show ?thesis
    using symbol_table_correct[OF with_variable_ok(3)[of "''*x-2;''"], of 3 1 "chars ''x''" SYM_CONST 0 0 0]
    by (simp add: with_variable_def goto_def address_of_def)
qed

section \<open>Expressions\<close>

text \<open>C3. Integer expressions are compiled correctly. In front of tokens \<open>ts\<close> that the grammar derives as
  the expression \<open>e\<close>, followed by a token that cannot go on with it, with all names of \<open>e\<close> in the symbol
  table as integer variables or constants, and with registers, heap and code buffer for it,
  \<open>tc_parse_expr\<close> returns: it has consumed exactly these tokens, has pushed one integer value, and has
  appended bytes that a processor, with the variables in its stack frame, runs to the value of \<open>e\<close> in
  the next register (unless a division by 0 leaves it without a value), keeping memory, the stack
  pointer and the registers below. Precedence, grouping and evaluation are those of the grammar.\<close>

theorem expression_compiled:
  assumes "phrase 0 ts e" and "sees self (ts @ u # us)" and "follows 0 u" and "level (token_of u) = None"
    and "scoped \<Gamma> e" and "near \<Gamma> (frame_size self)" and "length ts < fuel"
    and "ready \<Gamma> self (need e) (expr_code \<Gamma> (frame_size self) (unat (next_register self)) e)"
  shows "\<exists>self' bs. tc_parse_expr fuel self = Ret self' \<and> sees self' (u # us) \<and>
    code self' = blit (code self) (pos self) bs \<and> dst self' = dst self + of_nat (length bs) \<and>
    next_register self' = next_register self + 1 \<and> heap self' = heap self + VALUE_SIZE \<and> keeps self self' \<and>
    (\<forall>f c. \<not> in_frame \<Gamma> (frame_size self) f c \<or> (case eval \<Gamma> f e of None \<Rightarrow> True
      | Some v \<Rightarrow> \<exists>c'. run bs c = Some c' \<and> regs c' (8 + unat (next_register self)) = v \<and> mem c' = mem c \<and>
          rip c' = rip c + of_nat (length bs) \<and>
          list_all (\<lambda>k. regs c' k = regs c k) [3..<8 + unat (next_register self)]))"
proof -
  let ?bs = "code_of \<Gamma> self e"
  obtain self' where p: "tc_parse_expr fuel self = Ret self'" "pushed self ?bs self'" "sees self' (u # us)"
    using parse_expr_phrase[OF assms(1-5) _ assms(7)] assms(8) by (auto simp: code_of_def)
  have c: "core self' = core (emit ?bs self)" using p(2) by (simp add: pushed_def extends_def)
  have n: "unat (next_register self) + need e \<le> 8" using assms(8) by (simp add: ready_def)
  have run: "\<exists>c'. run ?bs c = Some c' \<and> regs c' (8 + unat (next_register self)) = v \<and> mem c' = mem c \<and>
          rip c' = rip c + of_nat (length ?bs) \<and> list_all (\<lambda>k. regs c' k = regs c k) [3..<8 + unat (next_register self)]"
    if f: "in_frame \<Gamma> (frame_size self) f c" "eval \<Gamma> f e = Some v" for f c v
  proof -
    obtain "is" where i: "assembles ?bs is" "leaves is (unat (next_register self)) v c"
      using expr_code_correct[OF assms(6,5) n, of f] f unfolding code_of_def by blast
    then show ?thesis using run_assembles[OF i(1), of c] by (auto simp: leaves_def list_all_iff)
  qed
  have "code self' = blit (code self) (pos self) ?bs" "dst self' = dst self + of_nat (length ?bs)"
    using core_eqD[OF c] by (simp_all add: emit_def)
  moreover have "\<not> in_frame \<Gamma> (frame_size self) f c \<or> (case eval \<Gamma> f e of None \<Rightarrow> True
      | Some v \<Rightarrow> \<exists>c'. run ?bs c = Some c' \<and> regs c' (8 + unat (next_register self)) = v \<and> mem c' = mem c \<and>
          rip c' = rip c + of_nat (length ?bs) \<and>
          list_all (\<lambda>k. regs c' k = regs c k) [3..<8 + unat (next_register self)])" for f c
    using run[of f c] by (cases "eval \<Gamma> f e") auto
  ultimately show ?thesis using p by (auto simp: pushed_def extends_def VALUE_SIZE_def)
qed

text \<open>For \<open>x*x-2\<close> with 10 in \<open>x\<close> the code computes 98.\<close>

definition sample_expr :: expr where
  "sample_expr = Binary TC_SUB (Binary TC_MUL (Name (chars ''x'')) (Name (chars ''x''))) (Num 2)"

definition sample_tokens :: "lexeme list" where
  "sample_tokens = [Word (chars ''x''), Other TC_MUL, Word (chars ''x''), Other TC_SUB, Number 2]"

lemma sample_lexes: "lexes (chars ''x*x-2;'') (sample_tokens @ [Other 59])"
  by code_simp

lemma sample_phrase: "phrase 0 sample_tokens sample_expr"
proof -
  have k: "keyword_token (chars ''x'') = TC_IDENTIFIER" by code_simp
  have x: "phrase l [Word (chars ''x'')] (Name (chars ''x''))" if "l \<le> 5" for l
    using phrase_lift[OF phrase.name[OF k]] that by simp
  have two: "phrase l [Number 2] (Num 2)" if "l \<le> 5" for l
    using phrase_lift[OF phrase.number] that by simp
  have "phrase 4 ([Word (chars ''x'')] @ Other TC_MUL # [Word (chars ''x'')]) (Binary TC_MUL (Name (chars ''x'')) (Name (chars ''x'')))"
    by (rule phrase.operator) (simp_all add: x level_def tokens)
  then have m: "phrase 3 [Word (chars ''x''), Other TC_MUL, Word (chars ''x'')] (Binary TC_MUL (Name (chars ''x'')) (Name (chars ''x'')))"
    using phrase_lift[of 4 _ _ 3] by simp
  have "phrase 3 ([Word (chars ''x''), Other TC_MUL, Word (chars ''x'')] @ Other TC_SUB # [Number 2]) sample_expr"
    unfolding sample_expr_def by (rule phrase.operator[OF m]) (simp_all add: two level_def tokens)
  then have "phrase 0 ([Word (chars ''x''), Other TC_MUL, Word (chars ''x'')] @ Other TC_SUB # [Number 2]) sample_expr"
    by (rule phrase_lift) simp_all
  then show ?thesis by (simp add: sample_tokens_def)
qed

definition sample_scope :: scope where "sample_scope = [chars ''x'' \<mapsto> Slot 1]"

theorem expression_compiled_witness:
  "\<exists>self bs self'. tc_parse_expr 6 self = Ret self' \<and> code self' = blit (replicate 40 0) 0 bs \<and>
    (\<exists>c'. run bs \<lparr>regs = (\<lambda>k. 4096), mem = (\<lambda>a. 10), rip = 0, carry = False, zero = False\<rparr> = Some c' \<and> regs c' 8 = 98)"
proof -
  let ?t = "''x*x-2;''"
  let ?self = "with_variable ?t"
  have short: "length ''*x-2;'' < 1000" by simp
  note w = with_variable_ok[OF short]
  have "lexes (remaining ?self) (Word (chars ''x'') # tl sample_tokens @ [Other 59])"
    using sample_lexes w(2) by (simp add: sample_tokens_def del: lexes.simps)
  then obtain self where "sees self (Word (chars ''x'') # tl sample_tokens @ [Other 59])" and off: "off_scanner self = off_scanner ?self"
    using start_sees[OF w(1)] by blast
  then have s: "sees self (sample_tokens @ [Other 59])" by (simp add: sample_tokens_def del: sees.simps)
  note o = off_scanner_core[OF off] and c = core_eqD[OF off_scanner_core(1)[OF off]]
  have f: "frame_size self = 1" "next_register self = 0" "pos self = 0" "code self = replicate 40 0"
    using c o by (simp_all add: with_variable_def goto_def pos_def)
  have ok: "code_ok self" using c by (simp add: code_ok_def with_variable_def goto_def)
  have "syms_at self 65536 [(chars ''x'', 65536, x_symbol)]"
    by (rule syms_at_keeps[OF w(3)]) (use o c in \<open>simp_all add: keeps_cells\<close>)
  moreover have "symbols self = 65536" using c by (simp add: with_variable_def goto_def)
  ultimately have sc: "in_scope sample_scope self"
    by (auto simp: in_scope_def sample_scope_def x_symbol_def intro!: exI[of _ "[(chars ''x'', 65536, x_symbol)]"])
  have len: "length (expr_code sample_scope 1 0 sample_expr) \<le> 40" by code_simp
  have rd: "ready sample_scope self (need sample_expr) (expr_code sample_scope (frame_size self) (unat (next_register self)) sample_expr)"
    using ok sc f len o c by (simp add: ready_def room_def sample_expr_def with_variable_def goto_def)
  have hyps: "follows 0 (Other 59)" "level (token_of (Other 59)) = None" "scoped sample_scope sample_expr"
    "near sample_scope (frame_size self)" "length sample_tokens < 6"
    using f by (simp_all add: follows_def token_of_def level_def tokens sample_scope_def sample_expr_def near_def sample_tokens_def)
  let ?c = "\<lparr>regs = (\<lambda>k. 4096), mem = (\<lambda>a. 10), rip = 0, carry = False, zero = False\<rparr>"
  have v: "in_frame sample_scope 1 (\<lambda>_. 10) ?c" "eval sample_scope (\<lambda>_. 10) sample_expr = Some 98"
    by (simp_all add: in_frame_def sample_expr_def sample_scope_def binary_op_def tokens)
  show ?thesis
    using expression_compiled[OF sample_phrase s hyps rd] v f by fastforce
qed

end
