(* ===== verification/Tc_Machine.thy ===== *)
theory Tc_Machine
  imports Tc_Expr_Spec "HOL-Library.Sublist"
begin

text \<open>
  The processor in a code image: it fetches the instruction at \<open>rip\<close>, so that jumps and loops can be
  followed. \<open>reaches C B s s'\<close> says that the image \<open>C\<close>, loaded at address \<open>B\<close>, takes the processor from \<open>s\<close>
  to \<open>s'\<close>.
\<close>

section \<open>Fetching\<close>

lemma disp_suffix:
  "disp8 bs = Some (d, cs) \<Longrightarrow> suffix cs bs" "disp32 bs = Some (d, cs) \<Longrightarrow> suffix cs bs"
  "imm32 bs = Some (v, cs) \<Longrightarrow> suffix cs bs" "imm64 bs = Some (u, cs) \<Longrightarrow> suffix cs bs"
  by (cases bs; auto simp: disp32_def imm32_def imm64_def suffix_drop split: if_splits intro: suffix_ConsI)+

lemma based_suffix: "based md base bs = Some (opd, cs) \<Longrightarrow> suffix cs bs"
  by (auto simp: based_def split: if_splits dest: disp_suffix)

lemma modrm_suffix: "modrm r x b bs = Some (reg, opd, cs) \<Longrightarrow> suffix cs bs"
  by (cases bs)
    (auto simp: Let_def split: if_splits list.splits dest!: disp_suffix based_suffix intro: suffix_ConsI)

lemma decode_0f_suffix: "decode_0f w r x b bs = Some (i, cs) \<Longrightarrow> suffix cs bs"
  by (cases bs)
    (auto simp: Let_def split: if_splits option.splits dest!: disp_suffix modrm_suffix intro: suffix_ConsI)

lemma decode_op_suffix: "decode_op w r x b bs = Some (i, cs) \<Longrightarrow> suffix cs bs"
  by (cases bs)
    (auto simp: Let_def split: if_splits option.splits operand.splits
      dest!: disp_suffix modrm_suffix decode_0f_suffix intro: suffix_ConsI suffix_order.trans)

lemma decode_suffix: "decode bs = Some (i, cs) \<Longrightarrow> suffix cs bs"
  by (cases bs) (auto split: if_splits dest!: decode_op_suffix simp del: decode_op.simps intro: suffix_ConsI)

definition cpu_step :: "u8 list \<Rightarrow> u64 \<Rightarrow> cpu \<Rightarrow> cpu option" where
  "cpu_step C B s = (let bs = drop (unat (rip s - B)) C in
     case decode bs of None \<Rightarrow> None
     | Some (i, cs) \<Rightarrow> exec i (at_rip (rip s + of_nat (length bs - length cs)) s))"

inductive reaches :: "u8 list \<Rightarrow> u64 \<Rightarrow> cpu \<Rightarrow> cpu \<Rightarrow> bool" for C B where
  here: "reaches C B s s"
| step: "cpu_step C B s = Some t \<Longrightarrow> reaches C B t u \<Longrightarrow> reaches C B s u"

lemma reaches_trans: "reaches C B s t \<Longrightarrow> reaches C B t u \<Longrightarrow> reaches C B s u"
  by (induction rule: reaches.induct) (auto intro: reaches.intros)

lemma reaches_step: "cpu_step C B s = Some t \<Longrightarrow> reaches C B s t"
  by (blast intro: reaches.intros)

section \<open>Code in the image\<close>

definition code_at :: "u8 list \<Rightarrow> nat \<Rightarrow> u8 list \<Rightarrow> bool" where
  "code_at C p bs \<longleftrightarrow> p + length bs \<le> length C \<and> window C p (length bs) = bs"

lemma code_at_append: "code_at C p (as @ bs) \<longleftrightarrow> code_at C p as \<and> code_at C (p + length as) bs"
proof
  assume a: "code_at C p (as @ bs)"
  then have l: "p + length as + length bs \<le> length C" by (simp add: code_at_def)
  have "window C p (length as) @ window C (p + length as) (length bs) = as @ bs"
    using window_append[OF l] a by (simp add: code_at_def)
  moreover have "length (window C p (length as)) = length as" using l by (simp add: byte_lists)
  ultimately show "code_at C p as \<and> code_at C (p + length as) bs" using l by (simp add: code_at_def)
next
  assume a: "code_at C p as \<and> code_at C (p + length as) bs"
  then have l: "p + length as + length bs \<le> length C" by (simp add: code_at_def)
  have "window C p (length as) = as" "window C (p + length as) (length bs) = bs" using a by (simp_all add: code_at_def)
  then have "window C p (length as + length bs) = as @ bs" using window_append[OF l] by metis
  then show "code_at C p (as @ bs)" using l unfolding code_at_def length_append by simp
qed

lemma code_at_drop:
  assumes "code_at C p bs"
  shows "drop p C = bs @ drop (p + length bs) C"
proof -
  have "drop p C = take (length bs) (drop p C) @ drop (length bs) (drop p C)" by (rule append_take_drop_id[symmetric])
  then show ?thesis using assms by (simp add: code_at_def window_def add.commute)
qed

lemma code_at_step:
  assumes "code_at C p bs" and "decode bs = Some (i, cs)" and "rip s = B + of_nat p" and "length C < 18446744073709551616"
  shows "cpu_step C B s = exec i (at_rip (B + of_nat (p + (length bs - length cs))) s)"
    and "code_at C (p + (length bs - length cs)) cs"
proof -
  have "p \<le> length C" using assms(1) by (simp add: code_at_def)
  then have u: "unat (rip s - B) = p" using assms(3,4) by (simp add: unat_of_nat_u64)
  let ?r = "drop (p + length bs) C"
  have d: "decode (drop (unat (rip s - B)) C) = Some (i, cs @ ?r)"
    using decode_append[OF assms(2), of ?r] code_at_drop[OF assms(1)] u by simp
  have "length (drop p C) - length (cs @ ?r) = length bs - length cs" using code_at_drop[OF assms(1)] by simp
  then show "cpu_step C B s = exec i (at_rip (B + of_nat (p + (length bs - length cs))) s)"
    using d u assms(3) by (simp add: cpu_step_def Let_def add.assoc)
  obtain as where "bs = as @ cs" using decode_suffix[OF assms(2)] by (auto simp: suffix_def)
  then show "code_at C (p + (length bs - length cs)) cs" using assms(1) by (simp add: code_at_append)
qed

lemma reaches_disassembled:
  "disassemble n bs = Some is \<Longrightarrow> list_all rip_free is \<Longrightarrow> code_at C p bs \<Longrightarrow> rip s = B + of_nat p \<Longrightarrow>
   length C < 18446744073709551616 \<Longrightarrow> exec_all is s = Some s' \<Longrightarrow>
   reaches C B s (at_rip (B + of_nat (p + length bs)) s')"
proof (induction n bs arbitrary: "is" p s s' rule: disassemble.induct)
  case (1 n)
  then have "s = s'" "B + of_nat (p + length []) = rip s" by auto
  moreover have "at_rip (rip s) s = s" by simp
  ultimately show ?case using reaches.here[of C B s] by simp
next
  case (3 n c bs)
  obtain i cs js where d: "decode (c # bs) = Some (i, cs)" "disassemble n cs = Some js" "is = i # js"
    using "3.prems"(1) by (auto split: option.splits simp del: decode.simps)
  obtain t where t: "exec i s = Some t" "exec_all js t = Some s'" using "3.prems"(6) d(3) by (auto split: option.splits simp: bind_eq_Some_conv)
  have free: "rip_free i" "list_all rip_free js" using "3.prems"(2) d(3) by simp_all
  let ?q = "p + (length (c # bs) - length cs)"
  note st = code_at_step[OF "3.prems"(3) d(1) "3.prems"(4,5)]
  have step: "cpu_step C B s = Some (at_rip (B + of_nat ?q) t)" using st(1) exec_rip[OF free(1)] t(1) by simp
  have e: "exec_all js (at_rip (B + of_nat ?q) t) = Some (at_rip (B + of_nat ?q) s')"
    using exec_all_rip[OF free(2)] t(2) by simp
  have "reaches C B (at_rip (B + of_nat ?q) t) (at_rip (B + of_nat (?q + length cs)) (at_rip (B + of_nat ?q) s'))"
    by (rule "3.IH"[OF d(1) refl d(2) free(2) st(2) _ "3.prems"(5) e]) simp
  moreover have "?q + length cs = p + length (c # bs)" using decode_length[OF d(1)] by simp
  moreover have "at_rip a (at_rip b s') = at_rip a s'" for a b by simp
  ultimately show ?case using reaches.step[OF step] by metis
qed simp

lemma reaches_code:
  assumes "assembles bs is" and "code_at C p bs" and "rip s = B + of_nat p" and "length C < 18446744073709551616"
    and "exec_all is s = Some s'"
  shows "reaches C B s (at_rip (B + of_nat (p + length bs)) s')"
  using assms reaches_disassembled unfolding assembles_def by blast

end
