(* ===== verification/Tc_Stmt_Spec.thy ===== *)
theory Tc_Stmt_Spec
  imports Tc_Machine
begin

text \<open>
  What statements mean, and the code that they should have, with every jump resolved. Positions are
  offsets in the code; all jumps have 32-bit displacements, so the size of the code of a statement does
  not depend on where it is.
\<close>

section \<open>Syntax\<close>

text \<open>A test compares two expressions; a condition is a disjunction of conjunctions of tests.\<close>

type_synonym test = "u64 \<times> expr \<times> expr"

datatype stmt =
    Assign "u8 list" expr
  | Evaluate expr
  | Give expr
  | Leave
  | Choose "test list list" "stmt list" "stmt list option"
  | Repeat "test list list" "stmt list"
  | Forever "stmt list"

text \<open>Whether the end of a statement is reachable, as the parser sees it; and whether it leaves its loop.\<close>

fun leaves_loop :: "stmt \<Rightarrow> bool" and leaves_loop_block :: "stmt list \<Rightarrow> bool" where
  "leaves_loop Leave = True"
| "leaves_loop (Choose c b None) = leaves_loop_block b"
| "leaves_loop (Choose c b (Some d)) = (leaves_loop_block b \<or> leaves_loop_block d)"
| "leaves_loop _ = False"
| "leaves_loop_block [] = False"
| "leaves_loop_block (s # ss) = (leaves_loop s \<or> leaves_loop_block ss)"

fun falls :: "stmt \<Rightarrow> bool" and falls_block :: "stmt list \<Rightarrow> bool" where
  "falls (Give e) = False"
| "falls Leave = False"
| "falls (Choose c b (Some d)) = (falls_block b \<or> falls_block d)"
| "falls (Forever b) = leaves_loop_block b"
| "falls _ = True"
| "falls_block [] = True"
| "falls_block [s] = falls s"
| "falls_block (s # t # ss) = falls_block (t # ss)"

text \<open>Statements that the parser takes: names are in scope, there are registers for all expressions,
  nothing follows an unreachable end, and a break is in a loop.\<close>

definition expr_ok :: "scope \<Rightarrow> nat \<Rightarrow> expr \<Rightarrow> bool" where
  "expr_ok \<Gamma> z e \<longleftrightarrow> scoped \<Gamma> e \<and> z + need e \<le> 8"

fun test_ok :: "scope \<Rightarrow> test \<Rightarrow> bool" where
  "test_ok \<Gamma> (t, a, b) = (t \<in> set comparison_tokens \<and> expr_ok \<Gamma> 0 a \<and> expr_ok \<Gamma> 1 b)"

definition condition_ok :: "scope \<Rightarrow> test list list \<Rightarrow> bool" where
  "condition_ok \<Gamma> c \<longleftrightarrow> c \<noteq> [] \<and> list_all (\<lambda>d. d \<noteq> [] \<and> list_all (test_ok \<Gamma>) d) c"

fun is_slot :: "binding option \<Rightarrow> bool" where
  "is_slot (Some (Slot v)) = True"
| "is_slot _ = False"

fun stmt_ok :: "scope \<Rightarrow> bool \<Rightarrow> stmt \<Rightarrow> bool" and block_ok :: "scope \<Rightarrow> bool \<Rightarrow> stmt list \<Rightarrow> bool" where
  "stmt_ok \<Gamma> l (Assign x e) = (is_slot (\<Gamma> x) \<and> expr_ok \<Gamma> 0 e)"
| "stmt_ok \<Gamma> l (Evaluate e) = expr_ok \<Gamma> 0 e"
| "stmt_ok \<Gamma> l (Give e) = expr_ok \<Gamma> 0 e"
| "stmt_ok \<Gamma> l Leave = l"
| "stmt_ok \<Gamma> l (Choose c b None) = (condition_ok \<Gamma> c \<and> block_ok \<Gamma> l b)"
| "stmt_ok \<Gamma> l (Choose c b (Some d)) = (condition_ok \<Gamma> c \<and> block_ok \<Gamma> l b \<and> block_ok \<Gamma> l d)"
| "stmt_ok \<Gamma> l (Repeat c b) = (condition_ok \<Gamma> c \<and> block_ok \<Gamma> True b)"
| "stmt_ok \<Gamma> l (Forever b) = block_ok \<Gamma> True b"
| "block_ok \<Gamma> l [] = True"
| "block_ok \<Gamma> l (s # ss) = (stmt_ok \<Gamma> l s \<and> (ss = [] \<or> falls s) \<and> block_ok \<Gamma> l ss)"

section \<open>Meaning\<close>

fun test_holds :: "scope \<Rightarrow> (u64 \<Rightarrow> u64) \<Rightarrow> test \<Rightarrow> bool option" where
  "test_holds \<Gamma> f (t, a, b) =
     Option.bind (eval \<Gamma> f a) (\<lambda>x. Option.bind (eval \<Gamma> f b) (\<lambda>y. Some (comparison t x y)))"

text \<open>Conditions stop at the first test that decides them.\<close>

fun all_hold :: "scope \<Rightarrow> (u64 \<Rightarrow> u64) \<Rightarrow> test list \<Rightarrow> bool option" where
  "all_hold \<Gamma> f [] = Some True"
| "all_hold \<Gamma> f (c # cs) = Option.bind (test_holds \<Gamma> f c) (\<lambda>r. if r then all_hold \<Gamma> f cs else Some False)"

fun some_hold :: "scope \<Rightarrow> (u64 \<Rightarrow> u64) \<Rightarrow> test list list \<Rightarrow> bool option" where
  "some_hold \<Gamma> f [] = Some False"
| "some_hold \<Gamma> f (d # ds) = Option.bind (all_hold \<Gamma> f d) (\<lambda>r. if r then Some True else some_hold \<Gamma> f ds)"

datatype outcome = Goes "u64 \<Rightarrow> u64" | Leaves "u64 \<Rightarrow> u64" | Gives u64

fun goes :: "outcome \<Rightarrow> bool" where
  "goes (Goes f) = True"
| "goes _ = False"

text \<open>\<open>runs \<Gamma> ss f r\<close>: the block \<open>ss\<close>, from the values \<open>f\<close> of the slots, ends with the outcome \<open>r\<close>. A
  loop that does not end, and a division by 0, have no outcome.\<close>

inductive runs :: "scope \<Rightarrow> stmt list \<Rightarrow> (u64 \<Rightarrow> u64) \<Rightarrow> outcome \<Rightarrow> bool" and
    runs_one :: "scope \<Rightarrow> stmt \<Rightarrow> (u64 \<Rightarrow> u64) \<Rightarrow> outcome \<Rightarrow> bool" for \<Gamma> where
  nothing: "runs \<Gamma> [] f (Goes f)"
| next_one: "runs_one \<Gamma> s f (Goes g) \<Longrightarrow> runs \<Gamma> ss g r \<Longrightarrow> runs \<Gamma> (s # ss) f r"
| stops: "runs_one \<Gamma> s f r \<Longrightarrow> \<not> goes r \<Longrightarrow> runs \<Gamma> (s # ss) f r"
| assign: "eval \<Gamma> f e = Some v \<Longrightarrow> \<Gamma> x = Some (Slot k) \<Longrightarrow> runs_one \<Gamma> (Assign x e) f (Goes (f(k := v)))"
| evaluate: "eval \<Gamma> f e = Some v \<Longrightarrow> runs_one \<Gamma> (Evaluate e) f (Goes f)"
| give: "eval \<Gamma> f e = Some v \<Longrightarrow> runs_one \<Gamma> (Give e) f (Gives v)"
| leave: "runs_one \<Gamma> Leave f (Leaves f)"
| choose_first: "some_hold \<Gamma> f c = Some True \<Longrightarrow> runs \<Gamma> b f r \<Longrightarrow> runs_one \<Gamma> (Choose c b d) f r"
| choose_none: "some_hold \<Gamma> f c = Some False \<Longrightarrow> runs_one \<Gamma> (Choose c b None) f (Goes f)"
| choose_second: "some_hold \<Gamma> f c = Some False \<Longrightarrow> runs \<Gamma> d f r \<Longrightarrow> runs_one \<Gamma> (Choose c b (Some d)) f r"
| repeat_end: "some_hold \<Gamma> f c = Some False \<Longrightarrow> runs_one \<Gamma> (Repeat c b) f (Goes f)"
| repeat_next: "some_hold \<Gamma> f c = Some True \<Longrightarrow> runs \<Gamma> b f (Goes g) \<Longrightarrow> runs_one \<Gamma> (Repeat c b) g r \<Longrightarrow>
    runs_one \<Gamma> (Repeat c b) f r"
| repeat_leave: "some_hold \<Gamma> f c = Some True \<Longrightarrow> runs \<Gamma> b f (Leaves g) \<Longrightarrow> runs_one \<Gamma> (Repeat c b) f (Goes g)"
| repeat_give: "some_hold \<Gamma> f c = Some True \<Longrightarrow> runs \<Gamma> b f (Gives v) \<Longrightarrow> runs_one \<Gamma> (Repeat c b) f (Gives v)"
| forever_next: "runs \<Gamma> b f (Goes g) \<Longrightarrow> runs_one \<Gamma> (Forever b) g r \<Longrightarrow> runs_one \<Gamma> (Forever b) f r"
| forever_leave: "runs \<Gamma> b f (Leaves g) \<Longrightarrow> runs_one \<Gamma> (Forever b) f (Goes g)"
| forever_give: "runs \<Gamma> b f (Gives v) \<Longrightarrow> runs_one \<Gamma> (Forever b) f (Gives v)"

section \<open>Code\<close>

text \<open>Jumps of 5 and 9 bytes from a position to another.\<close>

definition jump_to :: "nat \<Rightarrow> nat \<Rightarrow> u8 list" where
  "jump_to p q = 0xe9 # le_bytes 4 (of_nat q - of_nat (p + 5) :: u64)"

definition jump_if :: "u64 \<Rightarrow> nat \<Rightarrow> nat \<Rightarrow> u8 list" where
  "jump_if t p q = jump_bytes t @ le_bytes 4 (of_nat q - of_nat (p + 9) :: u64)"

definition negated :: "u64 \<Rightarrow> u64" where "negated t = TC_LT + TC_GE - t"

lemma length_jumps [simp]: "length (jump_to p q) = 5" "length (jump_if t p q) = 9"
  by (simp_all add: jump_to_def jump_if_def jump_bytes_def)

fun test_code :: "scope \<Rightarrow> u64 \<Rightarrow> test \<Rightarrow> u8 list" where
  "test_code \<Gamma> n (t, a, b) = expr_code \<Gamma> n 0 a @ expr_code \<Gamma> n 1 b"

fun and_size :: "scope \<Rightarrow> u64 \<Rightarrow> test list \<Rightarrow> nat" where
  "and_size \<Gamma> n [] = 0"
| "and_size \<Gamma> n [c] = length (test_code \<Gamma> n c)"
| "and_size \<Gamma> n (c # d # cs) = length (test_code \<Gamma> n c) + 9 + and_size \<Gamma> n (d # cs)"

text \<open>A conjunction jumps to \<open>q\<close> when a test fails, except for the last test, whose jump is written
  behind it.\<close>

fun and_code :: "scope \<Rightarrow> u64 \<Rightarrow> nat \<Rightarrow> nat \<Rightarrow> test list \<Rightarrow> u8 list" where
  "and_code \<Gamma> n p q [] = []"
| "and_code \<Gamma> n p q [c] = test_code \<Gamma> n c"
| "and_code \<Gamma> n p q (c # d # cs) = test_code \<Gamma> n c @ jump_if (negated (fst c)) (p + length (test_code \<Gamma> n c)) q @
     and_code \<Gamma> n (p + length (test_code \<Gamma> n c) + 9) q (d # cs)"

fun or_size :: "scope \<Rightarrow> u64 \<Rightarrow> test list list \<Rightarrow> nat" where
  "or_size \<Gamma> n [] = 0"
| "or_size \<Gamma> n (d # ds) = and_size \<Gamma> n d + 9 + or_size \<Gamma> n ds"

text \<open>A condition goes on behind its code or at \<open>t\<close> when it holds, and at \<open>q\<close> otherwise.\<close>

fun or_code :: "scope \<Rightarrow> u64 \<Rightarrow> nat \<Rightarrow> nat \<Rightarrow> nat \<Rightarrow> test list list \<Rightarrow> u8 list" where
  "or_code \<Gamma> n p t q [] = []"
| "or_code \<Gamma> n p t q [d] = and_code \<Gamma> n p q d @ jump_if (negated (fst (last d))) (p + and_size \<Gamma> n d) q"
| "or_code \<Gamma> n p t q (d # e # ds) = and_code \<Gamma> n p (p + and_size \<Gamma> n d + 9) d @
     jump_if (fst (last d)) (p + and_size \<Gamma> n d) t @ or_code \<Gamma> n (p + and_size \<Gamma> n d + 9) t q (e # ds)"

lemma length_and_code [simp]: "length (and_code \<Gamma> n p q d) = and_size \<Gamma> n d"
  by (induction \<Gamma> n p q d rule: and_code.induct) simp_all

lemma length_or_code [simp]: "length (or_code \<Gamma> n p t q c) = or_size \<Gamma> n c"
  by (induction \<Gamma> n p t q c rule: or_code.induct) simp_all

definition set_code :: "scope \<Rightarrow> u64 \<Rightarrow> u8 list \<Rightarrow> u8 list" where
  "set_code \<Gamma> n x = (case \<Gamma> x of Some (Slot v) \<Rightarrow> mem_bytes 0x894c 4 0x24 (n - v) | _ \<Rightarrow> [])"

definition return_code :: "u64 \<Rightarrow> u8 list" where
  "return_code n = increment_bytes 0x8348 0xc4 n @ [0xc3]"

fun stmt_size :: "scope \<Rightarrow> u64 \<Rightarrow> stmt \<Rightarrow> nat" and block_size :: "scope \<Rightarrow> u64 \<Rightarrow> stmt list \<Rightarrow> nat" where
  "stmt_size \<Gamma> n (Assign x e) = length (expr_code \<Gamma> n 0 e) + length (set_code \<Gamma> n x)"
| "stmt_size \<Gamma> n (Evaluate e) = length (expr_code \<Gamma> n 0 e)"
| "stmt_size \<Gamma> n (Give e) = length (expr_code \<Gamma> n 0 e) + length (return_code n)"
| "stmt_size \<Gamma> n Leave = 5"
| "stmt_size \<Gamma> n (Choose c b None) = or_size \<Gamma> n c + block_size \<Gamma> n b"
| "stmt_size \<Gamma> n (Choose c b (Some d)) =
     or_size \<Gamma> n c + block_size \<Gamma> n b + (if falls_block b then 5 else 0) + block_size \<Gamma> n d"
| "stmt_size \<Gamma> n (Repeat c b) = or_size \<Gamma> n c + block_size \<Gamma> n b + 5"
| "stmt_size \<Gamma> n (Forever b) = block_size \<Gamma> n b + 5"
| "block_size \<Gamma> n [] = 0"
| "block_size \<Gamma> n (s # ss) = stmt_size \<Gamma> n s + block_size \<Gamma> n ss"

text \<open>The code of a statement at position \<open>p\<close>, in a loop that ends at \<open>q\<close>.\<close>

fun stmt_code :: "scope \<Rightarrow> u64 \<Rightarrow> nat \<Rightarrow> nat \<Rightarrow> stmt \<Rightarrow> u8 list" and
    block_code :: "scope \<Rightarrow> u64 \<Rightarrow> nat \<Rightarrow> nat \<Rightarrow> stmt list \<Rightarrow> u8 list" where
  "stmt_code \<Gamma> n p q (Assign x e) = expr_code \<Gamma> n 0 e @ set_code \<Gamma> n x"
| "stmt_code \<Gamma> n p q (Evaluate e) = expr_code \<Gamma> n 0 e"
| "stmt_code \<Gamma> n p q (Give e) = expr_code \<Gamma> n 0 e @ return_code n"
| "stmt_code \<Gamma> n p q Leave = jump_to p q"
| "stmt_code \<Gamma> n p q (Choose c b None) =
     or_code \<Gamma> n p (p + or_size \<Gamma> n c) (p + or_size \<Gamma> n c + block_size \<Gamma> n b) c @
     block_code \<Gamma> n (p + or_size \<Gamma> n c) q b"
| "stmt_code \<Gamma> n p q (Choose c b (Some d)) =
     (let u = p + or_size \<Gamma> n c; v = u + block_size \<Gamma> n b; w = (if falls_block b then v + 5 else v) in
      or_code \<Gamma> n p u w c @ block_code \<Gamma> n u q b @
      (if falls_block b then jump_to v (w + block_size \<Gamma> n d) else []) @ block_code \<Gamma> n w q d)"
| "stmt_code \<Gamma> n p q (Repeat c b) =
     (let u = p + or_size \<Gamma> n c; v = u + block_size \<Gamma> n b in
      or_code \<Gamma> n p u (v + 5) c @ block_code \<Gamma> n u (v + 5) b @ jump_to v p)"
| "stmt_code \<Gamma> n p q (Forever b) =
     (let v = p + block_size \<Gamma> n b in block_code \<Gamma> n p (v + 5) b @ jump_to v p)"
| "block_code \<Gamma> n p q [] = []"
| "block_code \<Gamma> n p q (s # ss) = stmt_code \<Gamma> n p q s @ block_code \<Gamma> n (p + stmt_size \<Gamma> n s) q ss"

lemma length_stmt_code [simp]:
  "length (stmt_code \<Gamma> n p q s) = stmt_size \<Gamma> n s" "length (block_code \<Gamma> n p q ss) = block_size \<Gamma> n ss"
  by (induction \<Gamma> n p q s and \<Gamma> n p q ss rule: stmt_code_block_code.induct) (simp_all add: Let_def)

end
