(* ===== verification/Tc_Advance.thy ===== *)
theory Tc_Advance
  imports Tc_Placeholders Tc_Expr_Parse Tc_Stmt_Spec
begin

text \<open>
  How the state of the compiler goes on over a part of a statement: code is added behind the old code,
  which stays as it is; the heap returns to where it was; and the scope, the frame and the symbols do
  not change.
\<close>

section \<open>Steps\<close>

definition context_of :: "compiler \<Rightarrow> compiler" where
  "context_of self = core (self\<lparr>code := [], dst := 0\<rparr>)"

definition advances :: "compiler \<Rightarrow> compiler \<Rightarrow> bool" where
  "advances self self' \<longleftrightarrow> context_of self' = context_of self \<and> length (code self') = length (code self) \<and>
     heap self' = heap self \<and> keeps self self' \<and> code_ok self' \<and> pos self \<le> pos self' \<and>
     window (code self') 0 (pos self) = window (code self) 0 (pos self)"

lemma context_core: "core self' = core self \<Longrightarrow> context_of self' = context_of self"
proof -
  assume a: "core self' = core self"
  have "context_of self = context_of (core self)" for self by (simp add: context_of_def core_def)
  then show ?thesis using a by metis
qed

lemma context_simps [simp]:
  "context_of (emit bs self) = context_of self" "context_of (self\<lparr>code := cs\<rparr>) = context_of self"
  "context_of (self\<lparr>next_register := n\<rparr>) = context_of self" "context_of (self\<lparr>heap := h\<rparr>) = context_of self"
  "context_of (self\<lparr>dst := d\<rparr>) = context_of self" "context_of (self\<lparr>dst_mark := d\<rparr>) = context_of self"
  by (simp_all add: context_of_def emit_def core_def)

lemma context_eqD:
  assumes "context_of self' = context_of self"
  shows "source self' = source self" "code_base self' = code_base self" "dst_limit self' = dst_limit self"
    "heap_limit self' = heap_limit self" "symbols self' = symbols self" "fn_return_type self' = fn_return_type self"
    "frame_size self' = frame_size self"
  using core_eqD[OF assms[unfolded context_of_def]] by simp_all

lemma advances_context: "advances self self' \<Longrightarrow> context_of self' = context_of self"
  by (simp add: advances_def)

lemmas advances_eqD = context_eqD[OF advances_context]

lemma advances_refl: "code_ok self \<Longrightarrow> advances self self"
  by (simp add: advances_def)

lemma window_shorter: "window cs 0 n = window bs 0 n \<Longrightarrow> m \<le> n \<Longrightarrow> window cs 0 m = window bs 0 m"
  unfolding window_def drop_0 by (metis min.absorb1 take_take)

lemma advances_trans:
  assumes "advances self self1" and "advances self1 self2"
  shows "advances self self2"
  using assms keeps_trans[of self self1 self2] window_shorter[of "code self2" "pos self1" "code self1" "pos self"]
  by (auto simp: advances_def)

lemma advances_read:
  assumes "off_scanner self' = off_scanner self"
  shows "advances self' self'' = advances self self''" "advances self0 self' = advances self0 self"
    "pos self' = pos self" "code self' = code self" "code_ok self' = code_ok self"
proof -
  note o = off_scanner_core[OF assms]
  note e = core_eqD[OF o(1)]
  show p: "pos self' = pos self" "code self' = code self" "code_ok self' = code_ok self"
    using e by (simp_all add: pos_def code_ok_def)
  show "advances self' self'' = advances self self''" "advances self0 self' = advances self0 self"
    using o p context_core[OF o(1)] by (simp_all add: advances_def keeps_def)
qed

text \<open>Windows below the old end of the code.\<close>

lemma window_below:
  fixes cs :: "'a list"
  assumes "window cs 0 n = window bs 0 n" and "j + m \<le> n"
  shows "window cs j m = window bs j m"
proof -
  have "take m (drop j (take n cs)) = take m (drop j (take n bs))" using assms(1) by (simp add: window_def)
  moreover have "take m (drop j (take n xs)) = window xs j m" for xs :: "'a list"
    using assms(2) by (simp add: window_def drop_take take_take min_def)
  ultimately show ?thesis by simp
qed

lemma makes_later:
  assumes "makes (code self) p m qs G" and "advances self self'" and "p + m \<le> pos self"
  shows "makes (code self') p m qs G"
proof (rule makes_cong[OF assms(1)])
  show "window (code self') p m = window (code self) p m"
    by (rule window_below[OF _ assms(3)]) (use assms(2) in \<open>simp add: advances_def\<close>)
qed (use assms(2) in \<open>simp add: advances_def\<close>)

lemma holes_later:
  assumes "holes (code self) qs" and "advances self self'" and "\<forall>q \<in> set qs. q + 4 \<le> pos self"
  shows "holes (code self') qs"
proof (rule holes_cong[OF assms(1)])
  show "\<forall>q \<in> set qs. window (code self') q 4 = window (code self) q 4"
    by (rule ballI, rule window_below[where n = "pos self"]) (use assms(2,3) in \<open>auto simp: advances_def\<close>)
qed (use assms(2) in \<open>simp add: advances_def\<close>)

lemma chain_later: "advances self self' \<Longrightarrow> chain self' qs = chain self qs"
  by (rule chain_cong) (erule advances_eqD(2))

section \<open>Writing code\<close>

text \<open>\<open>self'\<close> has the bytes \<open>bs\<close> behind the code of \<open>self\<close>.\<close>

lemma blit_below: "p + length bs \<le> length cs \<Longrightarrow> window (blit cs p bs) 0 p = window cs 0 p"
  by (simp add: window_blit_other)

lemma advances_emit:
  assumes "code_ok self" and "room (length bs) self" and "core self' = core (emit bs self)" and "heap self' = heap self"
    and "keeps self self'"
  shows "advances self self'" and "pos self' = pos self + length bs" and "window (code self') (pos self) (length bs) = bs"
proof -
  have r: "pos self + length bs \<le> length (code self)" using assms(2) by (simp add: room_def)
  note e = room_emit[OF r assms(1)] and ok = code_ok_emit[OF assms(1,2)]
  have c: "code self' = blit (code self) (pos self) bs" using core_eqD[OF assms(3)] by (simp add: emit_def)
  show p: "pos self' = pos self + length bs" using core_code(2)[OF assms(3)] e by simp
  show "window (code self') (pos self) (length bs) = bs" using r c by (simp add: window_blit_same)
  show "advances self self'"
    using assms(4,5) p c r ok core_code(1)[OF assms(3)] context_core[OF assms(3)]
    by (simp add: advances_def length_blit blit_below)
qed

lemma makes_emit:
  assumes "code_ok self" and "room (length bs) self" and "core self' = core (emit bs self)" and "heap self' = heap self"
    and "keeps self self'"
  shows "makes (code self') (pos self) (length bs) [] (\<lambda>_. bs)"
proof (rule makes_plain)
  show "window (code self') (pos self) (length bs) = bs" by (rule advances_emit(3)[OF assms])
  show "pos self + length bs \<le> length (code self')"
    using assms(2) core_eqD[OF assms(3)] by (simp add: room_def emit_def length_blit)
qed

text \<open>A jump whose target is open.\<close>

lemma makes_placeholder:
  assumes "window cs p (length bs + 4) = bs @ le_bytes 4 v" and "p + length bs + 4 \<le> length cs"
  shows "makes cs p (length bs + 4) [p + length bs] (\<lambda>x. bs @ le_bytes 4 (of_nat x - of_nat (p + length bs + 4) :: u64))"
proof -
  have "window (blit cs (p + length bs) ys) p (length bs + 4) = bs @ ys" if "length ys = 4" for ys
  proof -
    have "window (blit cs (p + length bs) ys) p (length bs) = window cs p (length bs)"
      by (rule window_blit_other) (use assms(2) that in auto)
    also have "\<dots> = bs"
      using window_append[OF assms(2)] assms(1,2) by (simp add: length_window)
    finally have a: "window (blit cs (p + length bs) ys) p (length bs) = bs" .
    have "p + length bs + 4 \<le> length (blit cs (p + length bs) ys)" using assms(2) that by (simp add: length_blit)
    from window_append[OF this] show ?thesis
      using a assms(2) that window_blit_same[of "p + length bs" ys cs] by simp
  qed
  then show ?thesis using assms(2) by (simp add: makes_def add.assoc)
qed

lemma advances_placeholder:
  assumes "code_ok self" and "holes (code self) ps" and "\<forall>q \<in> set ps. q + 4 \<le> pos self"
    and "length (code self) \<le> 0x100000000" and "room (length bs + 4) self"
    and "self' = emit (bs @ le_bytes 4 (distance (pos self + length bs) ps)) self\<lparr>next_register := n\<rparr>"
  shows "advances self self'" and "pos self' = pos self + length bs + 4"
    and "holes (code self') ((pos self + length bs) # ps)"
    and "makes (code self') (pos self) (length bs + 4) [pos self + length bs]
      (\<lambda>x. bs @ le_bytes 4 (of_nat x - of_nat (pos self + length bs + 4) :: u64))"
proof -
  let ?bs = "bs @ le_bytes 4 (distance (pos self + length bs) ps)"
  have r: "room (length ?bs) self" using assms(5) by simp
  have c: "core self' = core (emit ?bs self)" and h: "heap self' = heap self" and k: "keeps self self'"
    using assms(6) by (simp_all add: keeps_cells)
  note a = advances_emit[OF assms(1) r c h k]
  show "advances self self'" "pos self' = pos self + length bs + 4" using a by (simp_all add: add.assoc)
  show "holes (code self') ((pos self + length bs) # ps)"
    using holes_with_placeholder[OF assms(1-5)] assms(6) by simp
  have "length (code self') = length (code self)" using a(1) by (simp add: advances_def)
  then show "makes (code self') (pos self) (length bs + 4) [pos self + length bs]
      (\<lambda>x. bs @ le_bytes 4 (of_nat x - of_nat (pos self + length bs + 4) :: u64))"
    using makes_placeholder[of "code self'" "pos self" bs "distance (pos self + length bs) ps"] a(3) assms(5) by (simp add: room_def add.assoc)
qed

section \<open>Open jumps of a family\<close>

text \<open>Placeholders that wait for a target behind the code; and code with \<open>m\<close> more bytes that adds the
  placeholders \<open>qs\<close> to them.\<close>

definition pending :: "compiler \<Rightarrow> nat list \<Rightarrow> bool" where
  "pending self ps \<longleftrightarrow> holes (code self) ps \<and> (\<forall>q \<in> set ps. q + 4 \<le> pos self)"

definition emits :: "compiler \<Rightarrow> compiler \<Rightarrow> nat \<Rightarrow> nat list \<Rightarrow> nat list \<Rightarrow> (nat \<Rightarrow> u8 list) \<Rightarrow> bool" where
  "emits self self' m ps qs G \<longleftrightarrow> advances self self' \<and> pos self' = pos self + m \<and>
     makes (code self') (pos self) m qs G \<and> pending self' (qs @ ps)"

lemma pending_Nil [simp]: "pending self []"
  by (simp add: pending_def)

lemma pending_later: "pending self ps \<Longrightarrow> advances self self' \<Longrightarrow> pending self' ps"
  using holes_later[of self ps self'] by (auto simp: pending_def advances_def)

lemma emitsD:
  assumes "emits self self' m ps qs G"
  shows "advances self self'" "pos self' = pos self + m" "pending self' (qs @ ps)" "makes (code self') (pos self) m qs G"
  using assms by (simp_all add: emits_def)

lemma emits_refl: "code_ok self \<Longrightarrow> pending self ps \<Longrightarrow> emits self self 0 ps [] (\<lambda>_. [])"
  using code_ok_bounds(2) by (simp add: emits_def advances_refl makes_empty)

lemma emits_append:
  assumes "emits self self1 m ps qs G" and "emits self1 self2 n (qs @ ps) rs H"
  shows "emits self self2 (m + n) ps (rs @ qs) (\<lambda>x. G x @ H x)"
proof -
  note d1 = emitsD[OF assms(1)] and d2 = emitsD[OF assms(2)]
  have "makes (code self2) (pos self) m qs G" by (rule makes_later[OF d1(4) d2(1)]) (simp add: d1(2))
  from makes_append[OF this] d2(4) have "makes (code self2) (pos self) (m + n) (rs @ qs) (\<lambda>x. G x @ H x)"
    by (simp add: d1(2))
  then show ?thesis using advances_trans[OF d1(1) d2(1)] d1(2) d2(2,3) by (simp add: emits_def)
qed

lemma emits_read:
  assumes "off_scanner self' = off_scanner self"
  shows "emits self' self'' m ps qs G = emits self self'' m ps qs G" "emits self0 self' m ps qs G = emits self0 self m ps qs G"
    "pending self' ps = pending self ps"
  using advances_read[OF assms] by (simp_all add: emits_def pending_def)

lemma emits_written:
  assumes "code_ok self" and "room (length bs) self" and "core self' = core (emit bs self)" and "heap self' = heap self"
    and "keeps self self'" and "pending self ps"
  shows "emits self self' (length bs) ps [] (\<lambda>_. bs)"
  using advances_emit[OF assms(1-5)] makes_emit[OF assms(1-5)] pending_later[OF assms(6)] by (simp add: emits_def)

lemma emits_placeholder:
  assumes "code_ok self" and "pending self ps" and "length (code self) < 0x80000000" and "room (length bs + 4) self"
    and "self' = emit (bs @ le_bytes 4 (distance (pos self + length bs) ps)) self\<lparr>next_register := n\<rparr>"
  shows "emits self self' (length bs + 4) ps [pos self + length bs]
      (\<lambda>x. bs @ le_bytes 4 (of_nat x - of_nat (pos self + length bs + 4) :: u64))"
  using advances_placeholder[OF assms(1) _ _ _ assms(4,5)] assms(2,3) by (auto simp: emits_def pending_def)

text \<open>Filling the placeholders of a part, later.\<close>

lemma dst_pos: "dst self = code_base self + of_nat (pos self)"
  by (simp add: pos_def)

lemma fill_region:
  fixes x :: nat
  assumes "code_ok self" and "makes (code self) p m hs G" and "pending self hs"
  defines "self' \<equiv> self\<lparr>code := patch x hs (code self)\<rparr>"
  shows "tc_fill_placeholders self (chain self hs) (code_base self + of_nat x) = Ret self'"
    and "pos self' = pos self" and "makes (code self') p m [] (\<lambda>_. G x)"
    and "advances self0 self \<Longrightarrow> pos self0 \<le> p \<Longrightarrow> advances self0 self'"
    and "pending self ps \<Longrightarrow> \<forall>q \<in> set ps. q + 4 \<le> p \<or> p + m \<le> q \<Longrightarrow> pending self' ps"
    and "makes (code self) j k qs H \<Longrightarrow> j + k \<le> p \<or> p + m \<le> j \<Longrightarrow> makes (code self') j k qs H"
    and "code_ok self'"
proof -
  have h: "holes (code self) hs" using assms(3) by (simp add: pending_def)
  have e: "\<forall>q \<in> set hs. p \<le> q \<and> q + 4 \<le> p + m \<and> q + 4 \<le> length (code self)"
    using makes_holes[OF assms(2)] by auto
  then have len: "length (patch x hs (code self)) = length (code self)" by simp
  show "tc_fill_placeholders self (chain self hs) (code_base self + of_nat x) = Ret self'"
    unfolding self'_def by (rule fill_chain[OF assms(1) h])
  show p3: "pos self' = pos self" by (simp add: self'_def pos_def)
  show ok: "code_ok self'" using assms(1) len by (simp add: self'_def code_ok_code)
  show "advances self0 self'" if "advances self0 self" "pos self0 \<le> p"
  proof -
    have le: "pos self0 \<le> length (code self)" using code_ok_bounds(2)[OF assms(1)] that(1) by (simp add: advances_def)
    have "window (patch x hs (code self)) 0 (pos self0) = window (code self) 0 (pos self0)"
      by (rule patch_elsewhere) (use e le that(2) in auto)
    then show ?thesis using that(1) len ok p3 by (simp add: self'_def advances_def keeps_def)
  qed
  show "makes (code self') p m [] (\<lambda>_. G x)" using makes_patch[OF assms(2)] by (simp add: self'_def)
  show "pending self' ps" if "pending self ps" "\<forall>q \<in> set ps. q + 4 \<le> p \<or> p + m \<le> q"
    unfolding pending_def p3
  proof
    have "q + 4 \<le> h \<or> h + 4 \<le> q" if "h \<in> set hs" "q \<in> set ps" for h q
      using e that \<open>\<forall>q \<in> set ps. q + 4 \<le> p \<or> p + m \<le> q\<close> by fastforce
    then show "holes (code self') ps" using that(1) e by (auto simp: self'_def pending_def intro!: holes_patch)
  qed (use that in \<open>simp add: pending_def\<close>)
  show "makes (code self') j k qs H" if "makes (code self) j k qs H" "j + k \<le> p \<or> p + m \<le> j"
    unfolding self'_def
  proof -
    have "\<forall>h \<in> set hs. h + 4 \<le> length (code self) \<and> (j + k \<le> h \<or> h + 4 \<le> j)" using e that(2) by fastforce
    from patch_keeps[OF this that(1)] show "makes (code (self\<lparr>code := patch x hs (code self)\<rparr>)) j k qs H" by simp
  qed
qed

lemma fill_part:
  fixes x :: nat
  assumes "emits self self1 m [] els G" and "advances self1 self2"
  defines "self3 \<equiv> self2\<lparr>code := patch x els (code self2)\<rparr>"
  shows "tc_fill_placeholders self2 (chain self2 els) (code_base self2 + of_nat x) = Ret self3"
    and "advances self self3" and "pos self3 = pos self2"
    and "makes (code self3) (pos self) m [] (\<lambda>_. G x)"
    and "pending self2 ps \<Longrightarrow> \<forall>q \<in> set ps. q + 4 \<le> pos self \<or> pos self1 \<le> q \<Longrightarrow> pending self3 ps"
    and "makes (code self2) p k qs H \<Longrightarrow> p + k \<le> pos self \<or> pos self1 \<le> p \<Longrightarrow> makes (code self3) p k qs H"
proof -
  note d = emitsD[OF assms(1)]
  have ok: "code_ok self2" using assms(2) by (simp add: advances_def)
  have mk: "makes (code self2) (pos self) m els G" by (rule makes_later[OF d(4) assms(2)]) (simp add: d(2))
  have pe: "pending self2 els" using pending_later[OF _ assms(2)] d(3) by simp
  note f = fill_region[OF ok mk pe, where x = x, folded self3_def]
  show "tc_fill_placeholders self2 (chain self2 els) (code_base self2 + of_nat x) = Ret self3"
    and "advances self self3" and "pos self3 = pos self2"
    and "makes (code self3) (pos self) m [] (\<lambda>_. G x)"
    and "pending self2 ps \<Longrightarrow> \<forall>q \<in> set ps. q + 4 \<le> pos self \<or> pos self1 \<le> q \<Longrightarrow> pending self3 ps"
    and "makes (code self2) p k qs H \<Longrightarrow> p + k \<le> pos self \<or> pos self1 \<le> p \<Longrightarrow> makes (code self3) p k qs H"
    using f advances_trans[OF d(1) assms(2)] d(2) by simp_all
qed

text \<open>All open jumps of a part filled at its end.\<close>

lemma emits_closed:
  fixes x :: nat
  assumes "emits self self1 m [] hs G" and "pending self ps" and "code_ok self"
  defines "self2 \<equiv> self1\<lparr>code := patch x hs (code self1)\<rparr>"
  shows "tc_fill_placeholders self1 (chain self1 hs) (code_base self1 + of_nat x) = Ret self2"
    and "emits self self2 m ps [] (\<lambda>_. G x)"
proof -
  note d = emitsD[OF assms(1)]
  have "advances self1 self1" using d(1) by (intro advances_refl) (simp add: advances_def)
  note f = fill_part[OF assms(1) this, where x = x, folded self2_def]
  show "tc_fill_placeholders self1 (chain self1 hs) (code_base self1 + of_nat x) = Ret self2" by (rule f(1))
  have "pending self2 ps" using f(5)[OF pending_later[OF assms(2) d(1)]] assms(2) by (simp add: pending_def)
  then show "emits self self2 m ps [] (\<lambda>_. G x)" using f(2-4) d(2) by (simp add: emits_def)
qed

section \<open>Room for statements\<close>

definition settled :: "scope \<Rightarrow> compiler \<Rightarrow> bool" where
  "settled \<Gamma> self \<longleftrightarrow> code_ok self \<and> in_scope \<Gamma> self \<and> unat (heap self) + 288 \<le> unat (heap_limit self) \<and>
     length (code self) < 0x80000000"

lemma settled_advances:
  assumes "settled \<Gamma> self" and "advances self self'"
  shows "settled \<Gamma> self'"
proof -
  note e = advances_eqD[OF assms(2)]
  obtain es where es: "syms_at self (symbols self) es"
    "\<forall>w b. \<Gamma> w = Some b \<longrightarrow> (\<exists>q s. map_of es w = Some (q, s) \<and> describes b s)"
    using assms(1) by (auto simp: settled_def in_scope_def)
  have "syms_at self' (symbols self') es"
    using syms_at_keeps[OF es(1), of self'] assms(2) e by (simp add: advances_def)
  then have "in_scope \<Gamma> self'" using es(2) by (auto simp: in_scope_def)
  then show ?thesis using assms e by (simp add: settled_def advances_def)
qed

lemma settled_read:
  assumes "off_scanner self' = off_scanner self"
  shows "settled \<Gamma> self' = settled \<Gamma> self"
proof -
  have *: "settled \<Gamma> self'" if "settled \<Gamma> self" "off_scanner self' = off_scanner self" for self self'
    using settled_advances[OF that(1)] advances_refl advances_read[OF that(2)] that(1) by (simp add: settled_def)
  show ?thesis using *[of self self'] *[of self' self] assms by metis
qed

end
