(* ===== verification/Tc_Stmt_Grammar.thy ===== *)
theory Tc_Stmt_Grammar
  imports Tc_Expr_Parse Tc_Stmt_Spec
begin

text \<open>
  The grammar of conditions and statements, on the tokens of the reference lexer. Keywords and
  punctuation are lexemes with their token; an expression is a phrase of level 0.
\<close>

section \<open>Conditions\<close>

inductive test_phrase :: "lexeme list \<Rightarrow> test \<Rightarrow> bool" where
  compare: "phrase 0 ts a \<Longrightarrow> phrase 0 us b \<Longrightarrow> t \<in> set comparison_tokens \<Longrightarrow>
    test_phrase (ts @ Other t # us) (t, a, b)"

inductive and_phrase :: "lexeme list \<Rightarrow> test list \<Rightarrow> bool" where
  single: "test_phrase ts c \<Longrightarrow> and_phrase ts [c]"
| more: "test_phrase ts c \<Longrightarrow> and_phrase us (d # ds) \<Longrightarrow> and_phrase (ts @ Other TC_AND # us) (c # d # ds)"

inductive or_phrase :: "lexeme list \<Rightarrow> test list list \<Rightarrow> bool" where
  single: "and_phrase ts d \<Longrightarrow> or_phrase ts [d]"
| more: "and_phrase ts d \<Longrightarrow> or_phrase us (e # es) \<Longrightarrow> or_phrase (ts @ Other TC_OR # us) (d # e # es)"

section \<open>Statements\<close>

text \<open>The tokens 59, 61, 123 and 125 are \<open>;\<close>, \<open>=\<close>, and the braces.\<close>

inductive parses :: "lexeme list \<Rightarrow> stmt \<Rightarrow> bool" and parses_block :: "lexeme list \<Rightarrow> stmt list \<Rightarrow> bool" and
    parses_all :: "lexeme list \<Rightarrow> stmt list \<Rightarrow> bool" where
  assign: "keyword_token w = TC_IDENTIFIER \<Longrightarrow> phrase 0 ts e \<Longrightarrow>
    parses (Word w # Other 61 # ts @ [Other 59]) (Assign w e)"
| evaluate: "phrase 0 ts e \<Longrightarrow> parses (ts @ [Other 59]) (Evaluate e)"
| give: "token_of k = TC_RETURN \<Longrightarrow> phrase 0 ts e \<Longrightarrow> parses (k # ts @ [Other 59]) (Give e)"
| leave: "token_of k = TC_BREAK \<Longrightarrow> parses [k, Other 59] Leave"
| choose: "token_of k = TC_IF \<Longrightarrow> or_phrase ts c \<Longrightarrow> parses_block us b \<Longrightarrow> parses (k # ts @ us) (Choose c b None)"
| choose_else: "token_of k = TC_IF \<Longrightarrow> or_phrase ts c \<Longrightarrow> parses_block us b \<Longrightarrow> token_of j = TC_ELSE \<Longrightarrow>
    parses_block vs d \<Longrightarrow> parses (k # ts @ us @ j # vs) (Choose c b (Some d))"
| choose_again: "token_of k = TC_IF \<Longrightarrow> or_phrase ts c \<Longrightarrow> parses_block us b \<Longrightarrow> token_of j = TC_ELSE \<Longrightarrow>
    parses vs (Choose c' b' d') \<Longrightarrow> parses (k # ts @ us @ j # vs) (Choose c b (Some [Choose c' b' d']))"
| repeat: "token_of k = TC_WHILE \<Longrightarrow> or_phrase ts c \<Longrightarrow> parses_block us b \<Longrightarrow> parses (k # ts @ us) (Repeat c b)"
| forever: "token_of k = TC_LOOP \<Longrightarrow> parses_block us b \<Longrightarrow> parses (k # us) (Forever b)"
| braces: "parses_all ts ss \<Longrightarrow> parses_block (Other 123 # ts @ [Other 125]) ss"
| none: "parses_all [] []"
| one_more: "parses ts s \<Longrightarrow> parses_all us ss \<Longrightarrow> parses_all (ts @ us) (s # ss)"

section \<open>First tokens\<close>

lemma phrase_first_token: "phrase l ts e \<Longrightarrow> token_of (hd ts) \<in> {40, TC_INTEGER, TC_IDENTIFIER}"
proof -
  assume "phrase l ts e"
  from phrase_first[OF this] show ?thesis by (elim disjE exE conjE) (simp_all add: token_of_def)
qed

inductive_cases test_phraseE: "test_phrase ts c"
inductive_cases and_phraseE: "and_phrase ts d"
inductive_cases or_phraseE: "or_phrase ts c"
inductive_cases parses_blockE: "parses_block ts ss"

lemma test_nonempty: "test_phrase ts c \<Longrightarrow> ts \<noteq> []"
  by (erule test_phraseE) simp

lemma and_nonempty: "and_phrase ts d \<Longrightarrow> ts \<noteq> [] \<and> d \<noteq> []"
  by (erule and_phraseE) (auto dest: test_nonempty)

lemma or_nonempty: "or_phrase ts c \<Longrightarrow> ts \<noteq> [] \<and> c \<noteq> []"
  by (erule or_phraseE) (auto dest: and_nonempty)

lemma parses_first:
  "parses ts s \<Longrightarrow> ts \<noteq> [] \<and> token_of (hd ts) \<in>
     {40, TC_INTEGER, TC_IDENTIFIER, TC_RETURN, TC_BREAK, TC_IF, TC_WHILE, TC_LOOP}"
proof (erule parses.cases)
  fix us e assume "ts = us @ [Other 59]" "phrase 0 us e"
  then show ?thesis using phrase_first_token[of 0 us e] phrase_nonempty[of 0 us e] by (cases us) auto
qed (simp_all add: token_of_def)

lemma block_first: "parses_block ts ss \<Longrightarrow> \<exists>us. ts = Other 123 # us @ [Other 125] \<and> parses_all us ss"
  by (erule parses_blockE) blast

text \<open>What can follow an expression.\<close>

definition ends_expr :: "lexeme \<Rightarrow> bool" where
  "ends_expr u \<longleftrightarrow> follows 0 u \<and> level (token_of u) = None"

lemma ends_expr_tokens:
  "token_of u \<in> {59, 61, 123, TC_AND, TC_OR} \<or> token_of u \<in> set comparison_tokens \<Longrightarrow> ends_expr u"
  by (auto simp: ends_expr_def follows_def level_def tokens comparison_tokens_def)

end
