(* ===== verification/Tc_Cond_Parse.thy ===== *)
theory Tc_Cond_Parse
  imports Tc_Advance Tc_Stmt_Grammar
begin

text \<open>
  The parser of conditions writes the code of the condition: one comparison for each test, and jumps
  whose targets are open until the caller knows them.
\<close>

section \<open>Operands\<close>

lemma ready_settled:
  assumes "settled \<Gamma> self" and "next_register self = 0" and "n \<le> 8" and "room (length bs) self"
  shows "ready \<Gamma> self n bs"
  using assms by (simp add: settled_def ready_def)

lemma parse_operand:
  assumes "phrase 0 ts e" and "sees self (ts @ u # us)" and "ends_expr u" and "scoped \<Gamma> e" and "length ts < fuel"
    and "ready \<Gamma> self (need e) bs" and "bs = expr_code \<Gamma> (frame_size self) (unat (next_register self)) e"
  obtains self' where "tc_parse_expr fuel self = Ret self'" "pushed self bs self'" "sees self' (u # us)"
proof -
  have "follows 0 u" "level (token_of u) = None" "ready \<Gamma> self (need e) (code_of \<Gamma> self e)" "code_of \<Gamma> self e = bs"
    using assms(3,6,7) by (simp_all add: ends_expr_def code_of_def)
  from parse_expr_phrase[OF assms(1,2) this(1,2) assms(4) this(3) assms(5)] this(4) show thesis using that by metis
qed

text \<open>Two values that are compared are taken from the stack.\<close>

lemma check_comparison:
  assumes "cells self p = Some (Val v1)" and "int_value v1" and "cells self (p + 32) = Some (Val v2)" and "int_value v2"
    and "heap self = p + 32 + 32"
  shows "tc_check_comparison_expr self = Ret (self\<lparr>heap := p\<rparr>)"
proof -
  have a: "tc_pop_value self = Ret (v2, self\<lparr>heap := p + 32\<rparr>)" by (rule pop_int[OF assms(3,4,5)])
  have b: "tc_pop_value (self\<lparr>heap := p + 32\<rparr>) = Ret (v1, self\<lparr>heap := p\<rparr>)"
    using pop_int[of "self\<lparr>heap := p + 32\<rparr>" p v1] assms(1,2) by simp
  show ?thesis using a b assms(2,4) by (simp add: tc_check_comparison_expr_def int_value_def)
qed

lemma pushed_value:
  assumes "pushed self bs self'"
  obtains v where "cells self' (heap self) = Some (Val v)" "int_value v"
  using assms by (auto simp: pushed_def int_value_def)

text \<open>Two operands in a row, with a token read in between, and the values taken away.\<close>

lemma two_operands:
  assumes "pushed self bs self1" and "off_scanner self2 = off_scanner self1" and "pushed self2 cs self3"
    and "ready \<Gamma> self n (bs @ cs)" and "2 \<le> n" and "pending self ps"
  shows "tc_check_comparison_expr self3 = Ret (self3\<lparr>heap := heap self\<rparr>)"
    and "emits self (self3\<lparr>heap := heap self\<rparr>) (length (bs @ cs)) ps [] (\<lambda>_. bs @ cs)"
proof -
  have p2: "pushed self bs self2" using assms(1) read_keeps(3)[OF assms(2)] by simp
  have rd: "ready \<Gamma> self (Suc 1) (bs @ cs)" using ready_room[of \<Gamma> self n "bs @ cs" "[]" 2] assms(4,5) by (simp add: numeral_2_eq_2)
  note n2 = ready_next[OF rd p2 le_refl]
  have ok: "code_ok self" "room (length (bs @ cs)) self" using rd by (simp_all add: ready_def)
  have e: "extends self (bs @ cs) self3"
    using extends_trans[of self bs self2 cs self3] p2 assms(3) n2(4) ok by (simp add: pushed_def)
  obtain v1 where v1: "cells self2 (heap self) = Some (Val v1)" "int_value v1" using p2 by (rule pushed_value)
  obtain v2 where v2: "cells self3 (heap self2) = Some (Val v2)" "int_value v2" using assms(3) by (rule pushed_value)
  have h: "heap self2 = heap self + 32" "heap self3 = heap self + 32 + 32" using p2 assms(3) by (simp_all add: pushed_def)
  have "below (heap self2) (heap self) (Val v1)" using n2(3) by (simp add: below_def VALUE_SIZE_def)
  then have "cells self3 (heap self) = Some (Val v1)" using assms(3) v1(1) by (simp add: pushed_def extends_def keeps_def)
  then show "tc_check_comparison_expr self3 = Ret (self3\<lparr>heap := heap self\<rparr>)"
    using check_comparison v1(2) v2 h by simp
  have "core (self3\<lparr>heap := heap self\<rparr>) = core (emit (bs @ cs) self)" "keeps self (self3\<lparr>heap := heap self\<rparr>)"
    using e by (simp_all add: extends_def keeps_def)
  from emits_written[OF ok this(1) _ this(2) assms(6)]
  show "emits self (self3\<lparr>heap := heap self\<rparr>) (length (bs @ cs)) ps [] (\<lambda>_. bs @ cs)" by simp
qed

section \<open>Tests\<close>

lemma parse_comparison:
  assumes "test_phrase ts c" and "sees self (ts @ u # us)" and "ends_expr u" and "test_ok \<Gamma> c" and "length ts < fuel"
    and "settled \<Gamma> self" and "next_register self = 0" and "room (length (test_code \<Gamma> (frame_size self) c)) self"
    and "pending self ps"
  obtains self' where "tc_parse_comparison_expr fuel self = Ret (fst c, self')" "sees self' (u # us)"
    "emits self self' (length (test_code \<Gamma> (frame_size self) c)) ps [] (\<lambda>_. test_code \<Gamma> (frame_size self) c)"
proof -
  obtain t a b xs ys where c: "c = (t, a, b)" "ts = xs @ Other t # ys" "phrase 0 xs a" "phrase 0 ys b"
    "t \<in> set comparison_tokens" using assms(1) by (auto elim: test_phraseE)
  let ?bs = "expr_code \<Gamma> (frame_size self) 0 a" and ?cs = "expr_code \<Gamma> (frame_size self) 1 b"
  let ?n = "max (need a) (Suc (need b))"
  have ok: "scoped \<Gamma> a" "scoped \<Gamma> b" "?n \<le> 8" using assms(4) c(1) by (simp_all add: expr_ok_def)
  have rd: "ready \<Gamma> self ?n (?bs @ ?cs)" using ready_settled[OF assms(6,7) ok(3)] assms(8) c(1) by simp
  have n2: "2 \<le> ?n" using need_pos[of b] by simp
  have e1: "ends_expr (Other t)" using c(5) by (intro ends_expr_tokens) (simp add: token_of_def)
  have s: "sees self (xs @ Other t # ys @ u # us)" using assms(2) c(2) by simp
  have bs: "?bs = expr_code \<Gamma> (frame_size self) (unat (next_register self)) a" using assms(7) by simp
  have l: "length xs < fuel" "length ys < fuel" using assms(5) c(2) by simp_all
  obtain self1 where s1: "tc_parse_expr fuel self = Ret self1" "pushed self ?bs self1" "sees self1 (Other t # ys @ u # us)"
    using parse_operand[OF c(3) s e1 ok(1) l(1) ready_room[OF rd] bs] by auto
  obtain u1 us1 where u1: "ys @ u # us = u1 # us1" by (cases "ys @ u # us") auto
  obtain self2 where s2: "tc_read_token self1 = Ret self2" "sees self2 (ys @ u # us)" "off_scanner self2 = off_scanner self1"
    using read_sees[of self1 "Other t" u1 us1] s1(3) u1 by metis
  have p2: "pushed self ?bs self2" using s1(2) read_keeps(3)[OF s2(3)] by simp
  have rd2: "ready \<Gamma> self2 (need b) ?cs" "next_register self2 = 1"
    using ready_next(1,2)[OF rd p2, of "need b"] p2 assms(7) by (simp_all add: pushed_def)
  have "frame_size self2 = frame_size self" using core_eqD(10)[of self2 "emit ?bs self"] p2 by (simp add: pushed_def extends_def)
  then have cs: "?cs = expr_code \<Gamma> (frame_size self2) (unat (next_register self2)) b" using rd2(2) by simp
  obtain self3 where s3: "tc_parse_expr fuel self2 = Ret self3" "pushed self2 ?cs self3" "sees self3 (u # us)"
    by (rule parse_operand[OF c(4) s2(2) assms(3) ok(2) l(2) rd2(1) cs])
  note two = two_operands[OF s1(2) s2(3) s3(2) rd n2 assms(9)]
  have "next_token self1 = t" using sees_token[OF s1(3)] by (simp add: token_of_def)
  moreover have "\<not> (t < TC_LT \<or> t > TC_GE)" using c(5) by (auto simp: comparison_tokens_def tokens)
  ultimately have "tc_parse_comparison_expr fuel self = Ret (fst c, self3\<lparr>heap := heap self\<rparr>)"
    using s1(1) s2(1) s3(1) two(1) c(1) by (simp add: tc_parse_comparison_expr_def)
  then show thesis by (rule that) (use s3(3) two(2) c(1) in \<open>simp_all del: sees.simps\<close>)
qed

text \<open>A conditional jump to an open target.\<close>

lemma emit_jump:
  assumes "settled \<Gamma> self" and "pending self ps" and "t \<in> set comparison_tokens" and "room 9 self"
  obtains self' where "tc_write_jump_insn self t (chain self ps) = Ret (chain self ((pos self + 5) # ps), self')"
    "emits self self' 9 ps [pos self + 5] (\<lambda>x. jump_if t (pos self) x)" "next_register self' = 0"
    "\<And>ts. sees self' ts = sees self ts"
proof -
  have ok: "code_ok self" "length (code self) < 0x80000000" using assms(1) by (simp_all add: settled_def)
  let ?bs = "jump_bytes t @ le_bytes 4 (distance (pos self + 5) ps)"
  let ?self' = "emit ?bs self\<lparr>next_register := 0\<rparr>"
  have p: "holes (code self) ps" "\<forall>q \<in> set ps. q + 4 \<le> pos self" using assms(2) by (simp_all add: pending_def)
  have "tc_write_jump_insn self t (chain self ps) = Ret (chain self ((pos self + 5) # ps), ?self')"
    using write_jump[OF ok(1) p assms(3)] assms(4) by (simp add: seq_written)
  moreover have "emits self ?self' 9 ps [pos self + 5] (\<lambda>x. jump_if t (pos self) x)"
    using emits_placeholder[OF ok(1) assms(2) ok(2), of "jump_bytes t" ?self' 0] assms(4)
    by (simp add: jump_if_def add.assoc)
  ultimately show thesis by (rule that) simp_all
qed

section \<open>Conjunctions\<close>

definition and_loop :: "nat \<Rightarrow> nat \<Rightarrow> u64 \<times> u64 \<times> compiler \<Rightarrow> (u64 \<times> u64 \<times> compiler) res" where
  "and_loop f k = while_do k (\<lambda>(token, else_refs, self). next_token self = TC_AND) (\<lambda>(token, else_refs, self).
       seq (tc_read_token self) (\<lambda>self.
       seq (tc_write_jump_insn self (TC_LT + TC_GE - token) else_refs) (\<lambda>(else_refs, self).
       seq (tc_parse_comparison_expr f self) (\<lambda>(token, self). Ret (token, else_refs, self)))))"

lemma and_loop_stops: "next_token self \<noteq> TC_AND \<Longrightarrow> and_loop f k (token, refs, self) = Ret (token, refs, self)"
  by (cases k) (simp_all add: and_loop_def)

lemma and_loop_goes:
  "next_token self = TC_AND \<Longrightarrow> and_loop f (Suc k) (token, refs, self) =
     seq (tc_read_token self) (\<lambda>self.
     seq (tc_write_jump_insn self (TC_LT + TC_GE - token) refs) (\<lambda>(refs, self).
     seq (tc_parse_comparison_expr f self) (\<lambda>(token, self). and_loop f k (token, refs, self))))"
  by (simp add: and_loop_def seq_assoc split_def)

lemma test_ok_token: "test_ok \<Gamma> c \<Longrightarrow> fst c \<in> set comparison_tokens"
  by (cases c) simp

lemma ends_expr_and_or [simp]: "ends_expr (Other TC_AND)" "ends_expr (Other TC_OR)"
  by (rule ends_expr_tokens, simp add: token_of_def)+

lemma room_later: "room (m + n) self \<Longrightarrow> advances self self' \<Longrightarrow> pos self' = pos self + m \<Longrightarrow> room n self'"
  by (simp add: room_def advances_def add.assoc)

lemma sees_cons:
  assumes "sees self (t # ts @ u # us)"
  obtains self' where "tc_read_token self = Ret self'" "sees self' (ts @ u # us)" "off_scanner self' = off_scanner self"
proof -
  obtain v vs where v: "ts @ u # us = v # vs" by (cases "ts @ u # us") auto
  show thesis using read_sees[of self t v vs] assms that unfolding v by blast
qed

lemma parse_ands:
  "and_phrase ts d \<Longrightarrow> sees self (ts @ u # us) \<Longrightarrow> ends_expr u \<Longrightarrow> token_of u \<noteq> TC_AND \<Longrightarrow> list_all (test_ok \<Gamma>) d \<Longrightarrow>
   length ts < f \<Longrightarrow> length ts \<le> k \<Longrightarrow> settled \<Gamma> self \<Longrightarrow> next_register self = 0 \<Longrightarrow> room (and_size \<Gamma> (frame_size self) d) self \<Longrightarrow>
   pending self ps \<Longrightarrow>
   \<exists>self' qs. seq (tc_parse_comparison_expr f self) (\<lambda>(token, self1). and_loop f k (token, chain self ps, self1)) =
       Ret (fst (last d), chain self' (qs @ ps), self') \<and> sees self' (u # us) \<and>
     emits self self' (and_size \<Gamma> (frame_size self) d) ps qs (\<lambda>x. and_code \<Gamma> (frame_size self) (pos self) x d)"
proof (induction arbitrary: self k ps rule: and_phrase.induct)
  case (single ts c)
  have "test_ok \<Gamma> c" "room (length (test_code \<Gamma> (frame_size self) c)) self" using single.prems(4,9) by simp_all
  from parse_comparison[OF single.hyps single.prems(1,2) this(1) single.prems(5,7,8) this(2) single.prems(10)]
  obtain self' where s': "tc_parse_comparison_expr f self = Ret (fst c, self')" "sees self' (u # us)"
    "emits self self' (length (test_code \<Gamma> (frame_size self) c)) ps [] (\<lambda>_. test_code \<Gamma> (frame_size self) c)" .
  have "and_loop f k (fst c, chain self ps, self') = Ret (fst c, chain self' ps, self')"
    using and_loop_stops[of self' f k "fst c"] sees_token[OF s'(2)] single.prems(3) chain_later[OF emitsD(1)[OF s'(3)]] by simp
  then show ?case using s' by (intro exI[of _ self'] exI[of _ "[]"]) (simp del: sees.simps)
next
  case (more ts c us' d ds)
  let ?n = "frame_size self" and ?C = "test_code \<Gamma> (frame_size self) c"
  have ok: "test_ok \<Gamma> c" "list_all (test_ok \<Gamma>) (d # ds)" using more.prems(4) by simp_all
  have rm: "room (length ?C + 9 + and_size \<Gamma> ?n (d # ds)) self" using more.prems(9) by simp
  have rm1: "room (length ?C) self" "room (length ?C + 9) self" using rm by (simp_all add: room_def)
  have l: "length ts < f" "length us' < f" "length us' \<le> k - 1" "0 < k" using more.prems(5,6) by simp_all
  have s: "sees self (ts @ Other TC_AND # us' @ u # us)" using more.prems(1) by simp
  obtain self1 where s1: "tc_parse_comparison_expr f self = Ret (fst c, self1)" "sees self1 (Other TC_AND # us' @ u # us)"
    "emits self self1 (length ?C) ps [] (\<lambda>_. ?C)"
    by (rule parse_comparison[OF more.hyps(1) s _ ok(1) l(1) more.prems(7,8) rm1(1) more.prems(10)]) simp_all
  note d1 = emitsD[OF s1(3)]
  obtain self2 where s2: "tc_read_token self1 = Ret self2" "sees self2 (us' @ u # us)" "off_scanner self2 = off_scanner self1"
    using s1(2) by (rule sees_cons)
  have e2: "emits self self2 (length ?C) ps [] (\<lambda>_. ?C)" using s1(3) emits_read(2)[OF s2(3)] by simp
  note d2 = emitsD[OF e2]
  have st2: "settled \<Gamma> self2" by (rule settled_advances[OF more.prems(7) d2(1)])
  have neg: "TC_LT + TC_GE - fst c \<in> set comparison_tokens" using not_comparison[OF test_ok_token[OF ok(1)]] by simp
  have "pending self2 ps" "room 9 self2" using d2(3) room_later[OF rm1(2) d2(1,2)] by simp_all
  from emit_jump[OF st2 this(1) neg this(2)] obtain self3 where
    s3: "tc_write_jump_insn self2 (TC_LT + TC_GE - fst c) (chain self2 ps) = Ret (chain self2 ((pos self2 + 5) # ps), self3)"
    "emits self2 self3 9 ps [pos self2 + 5] (\<lambda>x. jump_if (TC_LT + TC_GE - fst c) (pos self2) x)" "next_register self3 = 0"
    "\<And>ts. sees self3 ts = sees self2 ts" by blast
  let ?ps = "(pos self2 + 5) # ps"
  have e3: "emits self self3 (length ?C + 9) ps [pos self2 + 5] (\<lambda>x. ?C @ jump_if (negated (fst c)) (pos self2) x)"
    using emits_append[OF e2, of self3 9 "[pos self2 + 5]"] s3(2) by (simp add: negated_def)
  note d3 = emitsD[OF e3]
  have fr: "frame_size self3 = ?n" by (rule advances_eqD(7)[OF d3(1)])
  have "settled \<Gamma> self3" "sees self3 (us' @ u # us)" "room (and_size \<Gamma> (frame_size self3) (d # ds)) self3" "pending self3 ?ps"
    using settled_advances[OF more.prems(7) d3(1)] s2(2) s3(4) room_later[OF rm d3(1,2)] fr d3(3) by simp_all
  from more.IH[OF this(2) more.prems(2,3) ok(2) l(2,3) this(1) s3(3) this(3,4)] obtain self' qs where
    s': "seq (tc_parse_comparison_expr f self3) (\<lambda>(token, self1). and_loop f (k - 1) (token, chain self3 ?ps, self1)) =
       Ret (fst (last (d # ds)), chain self' (qs @ ?ps), self')" "sees self' (u # us)"
     "emits self3 self' (and_size \<Gamma> ?n (d # ds)) ?ps qs (\<lambda>x. and_code \<Gamma> ?n (pos self3) x (d # ds))"
    unfolding fr by blast
  have ch: "chain self2 ps = chain self ps" "chain self3 ?ps = chain self2 ?ps"
    using chain_later[OF d2(1)] chain_later[OF emitsD(1)[OF s3(2)]] by simp_all
  obtain k' where k': "k = Suc k'" using l(4) by (cases k) auto
  have "next_token self1 = TC_AND" using sees_token[OF s1(2)] by (simp add: token_of_def)
  then have "seq (tc_parse_comparison_expr f self) (\<lambda>(token, self1). and_loop f k (token, chain self ps, self1)) =
      Ret (fst (last (c # d # ds)), chain self' ((qs @ [pos self2 + 5]) @ ps), self')"
    using s1(1) and_loop_goes[of self1 f k' "fst c" "chain self ps"] s2(1) s3(1) s'(1) ch k' by simp
  moreover have "emits self self' (and_size \<Gamma> ?n (c # d # ds)) ps (qs @ [pos self2 + 5])
      (\<lambda>x. and_code \<Gamma> ?n (pos self) x (c # d # ds))"
    using emits_append[OF e3, of self' "and_size \<Gamma> ?n (d # ds)" qs] s'(3) d2(2) d3(2) by (simp add: add.assoc)
  ultimately show ?case using s'(2) by blast
qed

lemma parse_and:
  assumes "and_phrase ts d" and "sees self (ts @ u # us)" and "ends_expr u" and "token_of u \<noteq> TC_AND"
    and "list_all (test_ok \<Gamma>) d" and "length ts < f" and "settled \<Gamma> self" and "next_register self = 0"
    and "room (and_size \<Gamma> (frame_size self) d) self"
  obtains self' qs where "tc_parse_and_expr f self 0 = Ret (fst (last d), chain self' qs, self')" "sees self' (u # us)"
    "emits self self' (and_size \<Gamma> (frame_size self) d) [] qs (\<lambda>x. and_code \<Gamma> (frame_size self) (pos self) x d)"
proof -
  have "tc_parse_and_expr f self 0 = seq (tc_parse_comparison_expr f self) (\<lambda>(token, self1). and_loop f f (token, chain self [], self1))"
    by (simp add: tc_parse_and_expr_def and_loop_def chain_def)
  then show thesis
    using parse_ands[OF assms(1-6) less_imp_le[OF assms(6)] assms(7-9) pending_Nil] that by auto
qed

section \<open>Disjunctions\<close>

definition or_loop :: "nat \<Rightarrow> nat \<Rightarrow> u64 \<times> u64 \<times> u64 \<times> compiler \<Rightarrow> (u64 \<times> u64 \<times> u64 \<times> compiler) res" where
  "or_loop f k = while_do k (\<lambda>(token, else_refs, then_refs, self). next_token self = TC_OR)
       (\<lambda>(token, else_refs, then_refs, self).
         seq (tc_read_token self) (\<lambda>self.
         seq (tc_write_jump_insn self token then_refs) (\<lambda>(then_refs, self).
         seq (tc_fill_placeholders self else_refs (dst self)) (\<lambda>self.
         seq (tc_parse_and_expr f self 0) (\<lambda>(token, else_refs, self).
         Ret (token, else_refs, then_refs, self))))))"

definition or_end :: "u64 \<times> u64 \<times> u64 \<times> compiler \<Rightarrow> (u64 \<times> u64 \<times> compiler) res" where
  "or_end = (\<lambda>(token, else_refs, then_refs, self).
     seq (tc_write_jump_insn self (TC_LT + TC_GE - token) else_refs) (\<lambda>(else_refs, self).
     Ret (else_refs, then_refs, self)))"

lemma or_loop_stops: "next_token self \<noteq> TC_OR \<Longrightarrow> or_loop f k (token, e, t, self) = Ret (token, e, t, self)"
  by (cases k) (simp_all add: or_loop_def)

lemma or_loop_goes:
  "next_token self = TC_OR \<Longrightarrow> seq (or_loop f (Suc k) (token, e, t, self)) g =
     seq (tc_read_token self) (\<lambda>self.
     seq (tc_write_jump_insn self token t) (\<lambda>(t, self).
     seq (tc_fill_placeholders self e (dst self)) (\<lambda>self.
     seq (tc_parse_and_expr f self 0) (\<lambda>(token, e, self). seq (or_loop f k (token, e, t, self)) g))))"
  by (simp add: or_loop_def seq_assoc split_def)

text \<open>One conjunction of a disjunction, with the jump behind it to where the condition holds: the jumps
  inside it go on behind this jump.\<close>

lemma parse_disjunct:
  assumes "and_phrase ts d" and "sees self (ts @ Other TC_OR # us @ u # vs)" and "list_all (test_ok \<Gamma>) d" and "d \<noteq> []"
    and "length ts < f" and "settled \<Gamma> self" and "next_register self = 0" and "room (and_size \<Gamma> (frame_size self) d + 9) self"
    and "pending self ps"
  defines "h \<equiv> pos self + and_size \<Gamma> (frame_size self) d + 5"
  obtains token e self1 self2 self3 self4 where "tc_parse_and_expr f self 0 = Ret (token, e, self1)" "next_token self1 = TC_OR"
    "tc_read_token self1 = Ret self2" "tc_write_jump_insn self2 token (chain self ps) = Ret (chain self4 (h # ps), self3)"
    "tc_fill_placeholders self3 e (dst self3) = Ret self4" "sees self4 (us @ u # vs)" "next_register self4 = 0"
    "emits self self4 (and_size \<Gamma> (frame_size self) d + 9) ps [h]
      (\<lambda>x. and_code \<Gamma> (frame_size self) (pos self) (pos self + and_size \<Gamma> (frame_size self) d + 9) d @
        jump_if (fst (last d)) (pos self + and_size \<Gamma> (frame_size self) d) x)"
proof -
  let ?n = "frame_size self" and ?m = "and_size \<Gamma> (frame_size self) d"
  have rm: "room ?m self" using assms(8) by (simp add: room_def)
  have "token_of (Other TC_OR) \<noteq> TC_AND" by (simp add: token_of_def tokens)
  from parse_and[OF assms(1,2) ends_expr_and_or(2) this assms(3,5-7) rm]
  obtain self1 els where s1: "tc_parse_and_expr f self 0 = Ret (fst (last d), chain self1 els, self1)"
    "sees self1 (Other TC_OR # us @ u # vs)" "emits self self1 ?m [] els (\<lambda>x. and_code \<Gamma> ?n (pos self) x d)" by blast
  obtain self2 where s2: "tc_read_token self1 = Ret self2" "sees self2 (us @ u # vs)" "off_scanner self2 = off_scanner self1"
    using s1(2) by (rule sees_cons)
  have e2: "emits self self2 ?m [] els (\<lambda>x. and_code \<Gamma> ?n (pos self) x d)" using s1(3) emits_read(2)[OF s2(3)] by simp
  note d2 = emitsD[OF e2]
  have "test_ok \<Gamma> (last d)" using assms(3,4) by (simp add: list_all_iff)
  then have tok: "fst (last d) \<in> set comparison_tokens" by (rule test_ok_token)
  have p2: "pending self2 ps" by (rule pending_later[OF assms(9) d2(1)])
  from emit_jump[OF settled_advances[OF assms(6) d2(1)] p2 tok room_later[OF assms(8) d2(1,2)]]
  obtain self3 where s3: "tc_write_jump_insn self2 (fst (last d)) (chain self2 ps) = Ret (chain self2 (h # ps), self3)"
    "emits self2 self3 9 ps [h] (\<lambda>x. jump_if (fst (last d)) (pos self2) x)" "next_register self3 = 0"
    "\<And>ts. sees self3 ts = sees self2 ts" by (auto simp: d2(2) h_def add.assoc)
  note d3 = emitsD[OF s3(2)]
  define self4 where "self4 = self3\<lparr>code := patch (pos self3) els (code self3)\<rparr>"
  note fp = fill_part[OF e2 d3(1), where x = "pos self3", folded self4_def]
  have p3: "pos self3 = pos self + ?m + 9" using d2(2) d3(2) by simp
  have ch: "chain self2 ps = chain self ps" "chain self4 (h # ps) = chain self2 (h # ps)" "chain self1 els = chain self3 els"
    using chain_later[OF d2(1)] chain_later[OF d3(1)] chain_cong[of self4 self3] chain_later[OF emitsD(1)[OF s1(3)]]
      chain_later[OF advances_trans[OF d2(1) d3(1)]] by (simp_all add: self4_def)
  have "\<forall>q \<in> set (h # ps). q + 4 \<le> pos self \<or> pos self2 \<le> q"
    using assms(9) d2(2) by (simp add: h_def pending_def)
  then have pd: "pending self4 ([h] @ ps)" using fp(5)[of "[h] @ ps"] d3(3) by simp
  have mk: "makes (code self4) (pos self) (?m + 9) ([h] @ []) (\<lambda>x. and_code \<Gamma> ?n (pos self) (pos self + ?m + 9) d @
        jump_if (fst (last d)) (pos self + ?m) x)"
    by (rule makes_append) (use fp(4) fp(6)[OF d3(4)] p3 d2(2) in simp_all)
  show thesis
  proof (rule that[OF s1(1) _ s2(1) _ _ _ _ ])
    show "next_token self1 = TC_OR" using sees_token[OF s1(2)] by (simp add: token_of_def)
    show "tc_write_jump_insn self2 (fst (last d)) (chain self ps) = Ret (chain self4 (h # ps), self3)" using s3(1) ch by simp
    show "tc_fill_placeholders self3 (chain self1 els) (dst self3) = Ret self4" using fp(1) ch(3) by (simp add: dst_pos)
    show "sees self4 (us @ u # vs)" using s2(2) s3(4) sees_cong[of self4 self3 "us @ u # vs"] by (simp add: self4_def)
    show "next_register self4 = 0" using s3(3) by (simp add: self4_def)
    show "emits self self4 (?m + 9) ps [h] (\<lambda>x. and_code \<Gamma> ?n (pos self) (pos self + ?m + 9) d @
        jump_if (fst (last d)) (pos self + ?m) x)"
      using fp(2,3) p3 pd mk by (simp add: emits_def)
  qed
qed

lemma parse_ors:
  "or_phrase ts c \<Longrightarrow> sees self (ts @ u # us) \<Longrightarrow> ends_expr u \<Longrightarrow> token_of u \<noteq> TC_AND \<Longrightarrow> token_of u \<noteq> TC_OR \<Longrightarrow>
   list_all (\<lambda>d. d \<noteq> [] \<and> list_all (test_ok \<Gamma>) d) c \<Longrightarrow> length ts < f \<Longrightarrow> length ts \<le> k \<Longrightarrow> settled \<Gamma> self \<Longrightarrow>
   next_register self = 0 \<Longrightarrow> room (or_size \<Gamma> (frame_size self) c) self \<Longrightarrow> pending self ps \<Longrightarrow>
   \<exists>self1 self' rs els m m' H T. seq (tc_parse_and_expr f self 0) (\<lambda>(token, e, self1).
       seq (or_loop f k (token, e, chain self ps, self1)) or_end) = Ret (chain self' els, chain self' (rs @ ps), self') \<and>
     sees self' (u # us) \<and> next_register self' = 0 \<and> emits self self1 m ps rs H \<and> emits self1 self' m' [] els T \<and>
     m + m' = or_size \<Gamma> (frame_size self) c \<and> (\<forall>t q. or_code \<Gamma> (frame_size self) (pos self) t q c = H t @ T q)"
proof (induction arbitrary: self k ps rule: or_phrase.induct)
  case (single ts d)
  let ?n = "frame_size self" and ?m = "and_size \<Gamma> (frame_size self) d"
  have d: "list_all (test_ok \<Gamma>) d" "d \<noteq> []" using single.prems(5) by simp_all
  have rm: "room ?m self" "room (?m + 9) self" using single.prems(10) by (simp_all add: room_def)
  obtain self1 els where s1: "tc_parse_and_expr f self 0 = Ret (fst (last d), chain self1 els, self1)"
    "sees self1 (u # us)" "emits self self1 ?m [] els (\<lambda>x. and_code \<Gamma> ?n (pos self) x d)"
    by (rule parse_and[OF single.hyps single.prems(1-3) d(1) single.prems(6,8,9) rm(1)])
  note d1 = emitsD[OF s1(3)]
  have "test_ok \<Gamma> (last d)" using d by (simp add: list_all_iff)
  then have neg: "TC_LT + TC_GE - fst (last d) \<in> set comparison_tokens" using not_comparison[OF test_ok_token] by simp
  have p1: "pending self1 els" using d1(3) by simp
  from emit_jump[OF settled_advances[OF single.prems(8) d1(1)] p1 neg room_later[OF rm(2) d1(1,2)]]
  obtain self2 where s2: "tc_write_jump_insn self1 (TC_LT + TC_GE - fst (last d)) (chain self1 els) =
      Ret (chain self1 ((pos self1 + 5) # els), self2)"
    "emits self1 self2 9 els [pos self1 + 5] (\<lambda>x. jump_if (TC_LT + TC_GE - fst (last d)) (pos self1) x)"
    "next_register self2 = 0" "\<And>ts. sees self2 ts = sees self1 ts" by blast
  note d2 = emitsD[OF s2(2)]
  have e: "emits self self2 (?m + 9) [] ((pos self1 + 5) # els)
      (\<lambda>x. and_code \<Gamma> ?n (pos self) x d @ jump_if (negated (fst (last d))) (pos self + ?m) x)"
    using emits_append[OF s1(3), of self2 9 "[pos self1 + 5]"] s2(2) d1(2) by (simp add: negated_def)
  have "next_token self1 \<noteq> TC_OR" using sees_token[OF s1(2)] single.prems(4) by simp
  then have "seq (tc_parse_and_expr f self 0) (\<lambda>(token, e, self1). seq (or_loop f k (token, e, chain self ps, self1)) or_end) =
      Ret (chain self2 ((pos self1 + 5) # els), chain self2 ([] @ ps), self2)"
    using s1(1) s2(1) or_loop_stops[of self1] chain_later[OF d2(1)] chain_later[OF advances_trans[OF d1(1) d2(1)]]
    by (simp add: or_end_def)
  moreover have "emits self self 0 ps [] (\<lambda>_. [])"
    using emits_refl[OF _ single.prems(11)] single.prems(8) by (simp add: settled_def)
  ultimately show ?case using e s1(2) s2(3,4)
    by (intro exI[of _ self] exI[of _ self2] exI[of _ "[]"] exI[of _ "(pos self1 + 5) # els"] exI[of _ "0"] exI[of _ "?m + 9"]
        exI[of _ "\<lambda>_. []"] exI[of _ "\<lambda>x. and_code \<Gamma> ?n (pos self) x d @ jump_if (negated (fst (last d))) (pos self + ?m) x"])
      (simp del: sees.simps)
next
  case (more ts d us' e es)
  let ?n = "frame_size self" and ?m = "and_size \<Gamma> (frame_size self) d"
  have d: "list_all (test_ok \<Gamma>) d" "d \<noteq> []" "list_all (\<lambda>d. d \<noteq> [] \<and> list_all (test_ok \<Gamma>) d) (e # es)"
    using more.prems(5) by simp_all
  have rm: "room (?m + 9 + or_size \<Gamma> ?n (e # es)) self" using more.prems(10) by (simp add: add.assoc)
  then have rm1: "room (?m + 9) self" by (simp add: room_def)
  obtain k' where k: "k = Suc k'" using more.prems(7) by (cases k) simp_all
  have l: "length ts < f" "length us' < f" "length us' \<le> k'" using more.prems(6,7) k by simp_all
  have s: "sees self (ts @ Other TC_OR # us' @ u # us)" using more.prems(1) by simp
  let ?h = "pos self + ?m + 5"
  obtain token refs self1 self2 self3 self4 where p: "tc_parse_and_expr f self 0 = Ret (token, refs, self1)"
    "next_token self1 = TC_OR" "tc_read_token self1 = Ret self2"
    "tc_write_jump_insn self2 token (chain self ps) = Ret (chain self4 (?h # ps), self3)"
    "tc_fill_placeholders self3 refs (dst self3) = Ret self4" "sees self4 (us' @ u # us)" "next_register self4 = 0"
    "emits self self4 (?m + 9) ps [?h] (\<lambda>x. and_code \<Gamma> ?n (pos self) (pos self + ?m + 9) d @
        jump_if (fst (last d)) (pos self + ?m) x)"
    by (rule parse_disjunct[OF more.hyps(1) s d(1,2) l(1) more.prems(8,9) rm1 more.prems(11)])
  note d4 = emitsD[OF p(8)]
  have fr: "frame_size self4 = ?n" by (rule advances_eqD(7)[OF d4(1)])
  have "pending self4 (?h # ps)" "room (or_size \<Gamma> (frame_size self4) (e # es)) self4"
    using d4(3) room_later[OF rm d4(1,2)] fr by simp_all
  from more.IH[OF p(6) more.prems(2-4) d(3) l(2,3) settled_advances[OF more.prems(8) d4(1)] p(7) this(2,1), unfolded fr]
  obtain self5 self' rs els m m' H T where q: "seq (tc_parse_and_expr f self4 0) (\<lambda>(token, e, self1).
       seq (or_loop f k' (token, e, chain self4 (?h # ps), self1)) or_end) =
       Ret (chain self' els, chain self' (rs @ ?h # ps), self')"
     "sees self' (u # us)" "next_register self' = 0" "emits self4 self5 m (?h # ps) rs H" "emits self5 self' m' [] els T"
     "m + m' = or_size \<Gamma> ?n (e # es)" "\<forall>t q. or_code \<Gamma> ?n (pos self4) t q (e # es) = H t @ T q"
    by blast
  have "seq (tc_parse_and_expr f self 0) (\<lambda>(token, e, self1). seq (or_loop f k (token, e, chain self ps, self1)) or_end) =
      Ret (chain self' els, chain self' ((rs @ [?h]) @ ps), self')"
    using p(1,3-5) q(1) by (simp add: or_loop_goes[OF p(2)] k)
  moreover have "emits self self5 (?m + 9 + m) ps (rs @ [?h]) (\<lambda>x. (and_code \<Gamma> ?n (pos self) (pos self + ?m + 9) d @
        jump_if (fst (last d)) (pos self + ?m) x) @ H x)"
    by (rule emits_append[OF p(8)]) (use q(4) in simp)
  moreover have "?m + 9 + m + m' = or_size \<Gamma> ?n (d # e # es)" using q(6) by simp
  moreover have "or_code \<Gamma> ?n (pos self) t x (d # e # es) = ((and_code \<Gamma> ?n (pos self) (pos self + ?m + 9) d @
        jump_if (fst (last d)) (pos self + ?m) t) @ H t) @ T x" for t x
    using q(7) d4(2) by (simp add: add.assoc)
  ultimately show ?case using q(2,3,5) by blast
qed

text \<open>A condition, and the jumps to where it holds filled with the position behind it.\<close>

lemma parse_condition:
  assumes "or_phrase ts c" and "sees self (ts @ u # us)" and "token_of u = 123" and "condition_ok \<Gamma> c"
    and "length ts < f" and "settled \<Gamma> self" and "next_register self = 0" and "room (or_size \<Gamma> (frame_size self) c) self"
  obtains self1 els thens self' where "tc_parse_boolean_expr f self 0 = Ret (chain self' els, thens, self1)"
    "tc_fill_placeholders self1 thens (dst self1) = Ret self'" "sees self' (u # us)" "next_register self' = 0"
    "emits self self' (or_size \<Gamma> (frame_size self) c) [] els
      (\<lambda>x. or_code \<Gamma> (frame_size self) (pos self) (pos self + or_size \<Gamma> (frame_size self) c) x c)"
proof -
  let ?n = "frame_size self" and ?o = "or_size \<Gamma> (frame_size self) c"
  have u: "ends_expr u" "token_of u \<noteq> TC_AND" "token_of u \<noteq> TC_OR" using assms(3) ends_expr_tokens[of u] by (auto simp: tokens)
  have c: "list_all (\<lambda>d. d \<noteq> [] \<and> list_all (test_ok \<Gamma>) d) c" using assms(4) by (simp add: condition_ok_def)
  obtain self1 self2 rs els m m' H T where q: "seq (tc_parse_and_expr f self 0) (\<lambda>(token, e, self1).
       seq (or_loop f f (token, e, chain self [], self1)) or_end) = Ret (chain self2 els, chain self2 (rs @ []), self2)"
     "sees self2 (u # us)" "next_register self2 = 0" "emits self self1 m [] rs H" "emits self1 self2 m' [] els T"
     "m + m' = ?o" "\<forall>t q. or_code \<Gamma> ?n (pos self) t q c = H t @ T q"
    using parse_ors[OF assms(1,2) u c assms(5) less_imp_le[OF assms(5)] assms(6-8) pending_Nil] by blast
  note d1 = emitsD[OF q(4)] and d2 = emitsD[OF q(5)]
  define self' where "self' = self2\<lparr>code := patch (pos self2) rs (code self2)\<rparr>"
  note fp = fill_part[OF q(4) d2(1), where x = "pos self2", folded self'_def]
  have ch: "chain self2 qs = chain self' qs" for qs by (rule chain_cong) (simp add: self'_def)
  have "tc_parse_boolean_expr f self 0 = Ret (chain self' els, chain self2 rs, self2)"
    using q(1) ch by (simp add: tc_parse_boolean_expr_def or_loop_def or_end_def chain_def)
  moreover have "tc_fill_placeholders self2 (chain self2 rs) (dst self2) = Ret self'" using fp(1) by (simp add: dst_pos)
  moreover have "sees self' (u # us)" using q(2) sees_cong[of self' self2 "u # us"] by (simp add: self'_def)
  moreover have "next_register self' = 0" using q(3) by (simp add: self'_def)
  moreover have "emits self self' ?o [] els (\<lambda>x. or_code \<Gamma> ?n (pos self) (pos self + ?o) x c)"
  proof -
    have p: "pos self2 = pos self + ?o" using d1(2) d2(2) q(6) by simp
    have "\<forall>q \<in> set els. pos self1 \<le> q" using makes_holes[OF d2(4)] by blast
    then have pd: "pending self' (els @ [])" using fp(5)[of els] d2(3) by simp
    have "makes (code self') (pos self) (m + m') (els @ []) (\<lambda>x. H (pos self2) @ T x)"
      by (rule makes_append[OF fp(4)]) (use fp(6)[OF d2(4)] d1(2) in simp)
    then show ?thesis using fp(2,3) p pd q(6,7) by (simp add: emits_def)
  qed
  ultimately show thesis by (rule that)
qed

end
