(* ===== verification/Tc_Stmt_Parse.thy ===== *)
theory Tc_Stmt_Parse
  imports Tc_Cond_Parse
begin

text \<open>
  The parser of simple statements: assignments, expressions, \<open>return\<close> and \<open>break\<close>. In front of the tokens of a
  statement it writes the code of the statement, with the jumps out of the loop around it still open.
\<close>

section \<open>What a statement parser does\<close>

definition refs_of :: "bool \<Rightarrow> compiler \<Rightarrow> nat list \<Rightarrow> u64 option" where
  "refs_of l self ps = (if l then Some (chain self ps) else None)"

definition end_state :: "bool \<Rightarrow> u64" where
  "end_state goes_on = (if goes_on then END_REACHABLE else END_UNREACHABLE)"

text \<open>The function that is compiled returns an integer.\<close>

definition returns_int :: "compiler \<Rightarrow> bool" where
  "returns_int self \<longleftrightarrow> (\<exists>r. cells self (fn_return_type self) = Some (Sym r) \<and>
     below (heap self) (fn_return_type self) (Sym r) \<and> sym_kind r \<noteq> SYM_VOID \<and> sym_type r = 0 \<and> sym_dim r = 0)"

text \<open>The state in front of a statement with \<open>m\<close> bytes of code, and the result of its parser: whether the
  end is reachable, the open jumps \<open>qs\<close> out of the loop, and the code.\<close>

definition prepared :: "scope \<Rightarrow> compiler \<Rightarrow> nat \<Rightarrow> nat list \<Rightarrow> bool" where
  "prepared \<Gamma> self m ps \<longleftrightarrow> settled \<Gamma> self \<and> returns_int self \<and> next_register self = 0 \<and> room m self \<and> pending self ps"

definition outputs :: "compiler \<Rightarrow> nat list \<Rightarrow> bool \<Rightarrow> (u64 \<times> u64 option \<times> compiler) res \<Rightarrow> bool \<Rightarrow> bool \<Rightarrow>
    nat \<Rightarrow> (nat \<Rightarrow> u8 list) \<Rightarrow> lexeme list \<Rightarrow> bool" where
  "outputs self ps l r fl lv m G ts \<longleftrightarrow> (\<exists>self' qs. r = Ret (end_state fl, refs_of l self' (qs @ ps), self') \<and>
     sees self' ts \<and> next_register self' = 0 \<and> emits self self' m ps qs G \<and> (qs \<noteq> [] \<longleftrightarrow> lv))"

lemma refs_later: "advances self self' \<Longrightarrow> refs_of l self' ps = refs_of l self ps"
  using chain_later[of self self' ps] by (simp add: refs_of_def)

lemma returns_advances: "returns_int self \<Longrightarrow> advances self self' \<Longrightarrow> returns_int self'"
  using advances_eqD(6)[of self self'] by (auto simp: returns_int_def advances_def keeps_def)

lemma preparedD:
  assumes "prepared \<Gamma> self m ps"
  shows "settled \<Gamma> self" "returns_int self" "next_register self = 0" "room m self" "pending self ps" "code_ok self"
  using assms by (simp_all add: prepared_def settled_def)

lemma prepared_emits:
  assumes "prepared \<Gamma> self (m + k) ps" and "emits self self' m ps qs G" and "next_register self' = 0"
  shows "prepared \<Gamma> self' k (qs @ ps)"
  using assms settled_advances returns_advances room_later[of m k self self'] emitsD[OF assms(2)]
  by (auto simp: prepared_def)

lemma prepared_read:
  assumes "off_scanner self' = off_scanner self"
  shows "prepared \<Gamma> self' m ps = prepared \<Gamma> self m ps" "refs_of l self' ps = refs_of l self ps"
    "outputs self' ps l r g v m G ts = outputs self ps l r g v m G ts" "frame_size self' = frame_size self"
proof -
  note o = off_scanner_core[OF assms]
  note e = core_eqD[OF o(1)]
  have "returns_int self' = returns_int self" using o e by (simp add: returns_int_def)
  then show "prepared \<Gamma> self' m ps = prepared \<Gamma> self m ps"
    using settled_read[OF assms] emits_read(3)[OF assms] o e advances_read(3,4)[OF assms] by (simp add: prepared_def room_def)
  show "refs_of l self' ps = refs_of l self ps" using chain_cong[of self' self] e by (simp add: refs_of_def)
  show "outputs self' ps l r g v m G ts = outputs self ps l r g v m G ts"
    using emits_read(1)[OF assms] by (simp add: outputs_def)
  show "frame_size self' = frame_size self" by (rule e(10))
qed

lemma outputsI:
  assumes "r = Ret (end_state fl, refs_of l self' (qs @ ps), self')" and "sees self' ts" and "next_register self' = 0"
    and "emits self self' m ps qs G" and "qs \<noteq> [] \<longleftrightarrow> lv"
  shows "outputs self ps l r fl lv m G ts"
  using assms by (auto simp: outputs_def)

lemma read_after:
  assumes "emits self self1 m ps qs G" and "off_scanner self2 = off_scanner self1"
  shows "emits self self2 m ps qs G" "next_register self2 = next_register self1"
  using assms(1) emits_read(2)[OF assms(2)] off_scanner_core(4)[OF assms(2)] by simp_all

section \<open>Expressions\<close>

lemma ends_expr_simps [simp]: "ends_expr (Other 59)" "ends_expr (Other 61)"
  by (rule ends_expr_tokens, simp add: token_of_def)+

lemma token_of_Other [simp]: "token_of (Other t) = t"
  by (simp add: token_of_def)

text \<open>An expression whose value is taken from the stack.\<close>

lemma pop_pushed:
  assumes "pushed self bs self'" and "code_ok self" and "room (length bs) self" and "pending self ps"
  obtains v where "tc_pop_value_or_void self' = Ret (v, self'\<lparr>heap := heap self\<rparr>)"
    "tc_pop_value self' = Ret (v, self'\<lparr>heap := heap self\<rparr>)" "int_value v"
    "emits self (self'\<lparr>heap := heap self, next_register := n\<rparr>) (length bs) ps [] (\<lambda>_. bs)"
proof -
  obtain v where v: "cells self' (heap self) = Some (Val v)" "int_value v" using assms(1) by (rule pushed_value)
  have h: "heap self' = heap self + 32" using assms(1) by (simp add: pushed_def)
  have "heap self' - VALUE_SIZE = heap self" using h by (simp add: VALUE_SIZE_def)
  then have "tc_pop_value_or_void self' = Ret (v, self'\<lparr>heap := heap self\<rparr>)"
    using v(1) by (simp add: tc_pop_value_or_void_def get_value_def)
  moreover have "tc_pop_value self' = Ret (v, self'\<lparr>heap := heap self\<rparr>)" by (rule pop_int[OF v h])
  moreover have "emits self (self'\<lparr>heap := heap self, next_register := n\<rparr>) (length bs) ps [] (\<lambda>_. bs)"
    using assms by (intro emits_written) (simp_all add: pushed_def extends_def keeps_def)
  ultimately show thesis using that v(2) by blast
qed

lemma parse_whole:
  assumes "phrase 0 ts e" and "sees self (ts @ u # us)" and "ends_expr u" and "expr_ok \<Gamma> 0 e" and "length ts < f"
    and "settled \<Gamma> self" and "next_register self = 0" and "room (length (expr_code \<Gamma> (frame_size self) 0 e)) self"
  obtains self' where "tc_parse_expr f self = Ret self'" "sees self' (u # us)" "pushed self (expr_code \<Gamma> (frame_size self) 0 e) self'"
proof -
  have e: "scoped \<Gamma> e" "need e \<le> 8" using assms(4) by (simp_all add: expr_ok_def)
  have "expr_code \<Gamma> (frame_size self) 0 e = expr_code \<Gamma> (frame_size self) (unat (next_register self)) e"
    using assms(7) by simp
  from parse_operand[OF assms(1-3) e(1) assms(5) ready_settled[OF assms(6,7) e(2) assms(8)] this] that show thesis by blast
qed

lemma parse_evaluate:
  assumes "phrase 0 ts e" and "sees self (ts @ Other 59 # u # us)" and "expr_ok \<Gamma> 0 e" and "length ts < f"
    and "prepared \<Gamma> self (length (expr_code \<Gamma> (frame_size self) 0 e)) ps"
  shows "outputs self ps l (tc_parse_expr_or_assign_stmt f self (refs_of l self ps)) True False
    (length (expr_code \<Gamma> (frame_size self) 0 e)) (\<lambda>_. expr_code \<Gamma> (frame_size self) 0 e) (u # us)"
proof -
  let ?bs = "expr_code \<Gamma> (frame_size self) 0 e"
  note p = preparedD[OF assms(5)]
  obtain self1 where s1: "tc_parse_expr f self = Ret self1" "sees self1 (Other 59 # u # us)" "pushed self ?bs self1"
    by (rule parse_whole[OF assms(1,2) ends_expr_simps(1) assms(3,4) p(1,3,4)])
  obtain v where v: "tc_pop_value_or_void self1 = Ret (v, self1\<lparr>heap := heap self\<rparr>)" "int_value v"
    "emits self (self1\<lparr>heap := heap self, next_register := 0\<rparr>) (length ?bs) ps [] (\<lambda>_. ?bs)"
    by (rule pop_pushed[OF s1(3) p(6,4,5)])
  let ?self2 = "self1\<lparr>heap := heap self, next_register := 0\<rparr>"
  have s2: "sees ?self2 (Other 59 # u # us)" using s1(2) by (simp del: sees.simps)
  then obtain self3 where s3: "tc_read_token ?self2 = Ret self3" "sees self3 (u # us)" "off_scanner self3 = off_scanner ?self2"
    by (rule read_sees)
  note e3 = read_after[OF v(3) s3(3)]
  have "tc_parse_expr_or_assign_stmt f self (refs_of l self ps) = Ret (end_state True, refs_of l self3 ([] @ ps), self3)"
    using s1(1) v(1,2) sees_token[OF s1(2)] parse_token_sees[OF s2] s3(1) refs_later[OF emitsD(1)[OF e3(1)]]
    by (simp add: tc_parse_expr_or_assign_stmt_def end_state_def tc_write_pop_insn_def int_value_def)
  then show ?thesis by (rule outputsI) (use s3(2) e3 in simp_all)
qed

section \<open>Return and break\<close>

lemma parse_give:
  assumes "token_of t = TC_RETURN" and "phrase 0 ts e" and "sees self (t # ts @ Other 59 # u # us)" and "expr_ok \<Gamma> 0 e"
    and "length ts < f" and "prepared \<Gamma> self (stmt_size \<Gamma> (frame_size self) (Give e)) ps"
  shows "outputs self ps l (tc_parse_return_stmt f self (refs_of l self ps)) False False
    (stmt_size \<Gamma> (frame_size self) (Give e)) (\<lambda>x. stmt_code \<Gamma> (frame_size self) (pos self) x (Give e)) (u # us)"
proof -
  let ?bs = "expr_code \<Gamma> (frame_size self) 0 e" and ?rs = "return_code (frame_size self)"
  obtain self1 where s1: "tc_read_token self = Ret self1" "sees self1 (ts @ Other 59 # u # us)" "off_scanner self1 = off_scanner self"
    using assms(3) by (rule sees_cons)
  note r1 = prepared_read[OF s1(3)]
  have p1: "prepared \<Gamma> self1 (length ?bs + length ?rs) ps" using assms(6) r1 by simp
  then have rm: "room (length ?bs) self1" by (simp add: prepared_def room_def)
  note p = preparedD[OF p1]
  obtain r where r: "cells self1 (fn_return_type self1) = Some (Sym r)" "below (heap self1) (fn_return_type self1) (Sym r)"
    "sym_kind r \<noteq> SYM_VOID" "sym_type r = 0" "sym_dim r = 0" using p(2) by (auto simp: returns_int_def)
  obtain self2 where s2: "tc_parse_expr f self1 = Ret self2" "sees self2 (Other 59 # u # us)" "pushed self1 ?bs self2"
    using parse_whole[OF assms(2) s1(2) ends_expr_simps(1) assms(4,5) p(1,3)] rm r1(4) by metis
  obtain v where v: "tc_pop_value self2 = Ret (v, self2\<lparr>heap := heap self1\<rparr>)" "int_value v"
    "emits self1 (self2\<lparr>heap := heap self1, next_register := next_register self2\<rparr>) (length ?bs) ps [] (\<lambda>_. ?bs)"
    by (rule pop_pushed[OF s2(3) p(6) rm p(5)])
  let ?self3 = "self2\<lparr>heap := heap self1\<rparr>"
  have e3: "emits self1 ?self3 (length ?bs) ps [] (\<lambda>_. ?bs)" using v(3) by simp
  note d3 = emitsD[OF e3]
  have c3: "cells ?self3 (fn_return_type ?self3) = Some (Sym r)"
    using d3(1) r(1,2) advances_eqD(6)[OF d3(1)] by (simp add: advances_def keeps_def)
  have s3: "sees ?self3 (Other 59 # u # us)" using s2(2) by (simp del: sees.simps)
  then obtain self4 where s4: "tc_read_token ?self3 = Ret self4" "sees self4 (u # us)" "off_scanner self4 = off_scanner ?self3"
    by (rule read_sees)
  have e4: "emits self1 self4 (length ?bs) ps [] (\<lambda>_. ?bs)" using e3 emits_read(2)[OF s4(3)] by simp
  note d4 = emitsD[OF e4]
  have fr: "frame_size self4 = frame_size self" using advances_eqD(7)[OF d4(1)] r1(4) by simp
  have ok4: "code_ok self4" "room (length ?rs) self4" "pending self4 ps"
    using d4(1,3) room_later[OF p(4) d4(1,2)] by (simp_all add: advances_def)
  let ?self5 = "emit ?rs self4\<lparr>next_register := 0\<rparr>"
  have "tc_write_return_insn self4 = Ret ?self5"
    using write_return[OF ok4(1)] ok4(2) fr by (simp add: return_code_def seq_written)
  moreover have "tc_parse_token self TC_RETURN = Ret self1" using s1(1) assms(1) sees_token[OF assms(3)] by (simp add: tc_parse_token_def)
  moreover have "next_token self1 \<noteq> 59"
  proof -
    obtain t' ts' where t: "ts = t' # ts'" using phrase_nonempty[OF assms(2)] by (cases ts) auto
    then show ?thesis using phrase_first_token[OF assms(2)] sees_token[of self1 t'] s1(2) by (auto simp: tokens)
  qed
  ultimately have "tc_parse_return_stmt f self (refs_of l self ps) = Ret (end_state False, refs_of l self ps, ?self5)"
    using r c3 s2(1) v(1,2) parse_token_sees[OF s3] s4(1)
    by (simp add: tc_parse_return_stmt_def get_symbol_def value_check_def value_type_check_def int_value_def end_state_def)
  moreover have e5: "emits self1 ?self5 (length ?bs + length ?rs) ps [] (\<lambda>_. ?bs @ ?rs)"
    using emits_append[OF e4, of ?self5 "length ?rs" "[]"]
      emits_written[OF ok4(1,2), of ?self5 ps] ok4(3) by (simp add: keeps_cells)
  moreover have "refs_of l ?self5 ps = refs_of l self ps" using refs_later[OF emitsD(1)[OF e5]] r1(2) by simp
  ultimately show ?thesis
    using s4(2) emits_read(1)[OF s1(3)] by (intro outputsI[where self' = ?self5 and qs = "[]"]) (simp_all del: sees.simps)
qed

lemma parse_leave:
  assumes "token_of t = TC_BREAK" and "sees self (t # Other 59 # u # us)" and "prepared \<Gamma> self 5 ps"
  shows "outputs self ps True (tc_parse_break_stmt self (chain self ps)) False True 5 (\<lambda>x. jump_to (pos self) x) (u # us)"
proof -
  obtain self1 where s1: "tc_read_token self = Ret self1" "sees self1 (Other 59 # u # us)" "off_scanner self1 = off_scanner self"
    using assms(2) by (rule read_sees)
  obtain self2 where s2: "tc_read_token self1 = Ret self2" "sees self2 (u # us)" "off_scanner self2 = off_scanner self"
    using read_sees[OF s1(2)] s1(3) by metis
  note r2 = prepared_read[OF s2(3)]
  have "prepared \<Gamma> self2 5 ps" using assms(3) r2 by simp
  note p = preparedD[OF this]
  have h: "holes (code self2) ps" "\<forall>q \<in> set ps. q + 4 \<le> pos self2" "length (code self2) < 0x80000000"
    using p(1,5) by (simp_all add: pending_def settled_def)
  let ?self3 = "emit ([0xe9] @ le_bytes 4 (distance (pos self2 + length [0xe9 :: u8]) ps)) self2\<lparr>next_register := 0\<rparr>"
  have c: "chain self ps = chain self2 ps" using r2(2)[of True] by (simp add: refs_of_def)
  have w: "tc_write_goto_insn self2 (chain self ps) = Ret (chain self2 ((pos self2 + 1) # ps), ?self3)"
    using write_goto[OF p(6) h(1,2)] p(3,4) c by (simp add: seq_written)
  have e: "emits self2 ?self3 (length [0xe9 :: u8] + 4) ps [pos self2 + length [0xe9 :: u8]]
      (\<lambda>x. [0xe9] @ le_bytes 4 (of_nat x - of_nat (pos self2 + length [0xe9 :: u8] + 4) :: u64))"
    by (rule emits_placeholder[OF p(6,5) h(3)]) (use p(4) in simp_all)
  have "tc_parse_break_stmt self (chain self ps) = Ret (end_state False, refs_of True ?self3 ([pos self2 + 1] @ ps), ?self3)"
    using s1(1) s2(1) w assms(1) sees_token[OF assms(2)] parse_token_sees[OF s1(2)] chain_cong[of ?self3 self2]
    by (simp add: tc_parse_break_stmt_def tc_parse_token_def refs_of_def end_state_def)
  then have "outputs self2 ps True (tc_parse_break_stmt self (chain self ps)) False True 5 (\<lambda>x. jump_to (pos self2) x) (u # us)"
    by (rule outputsI) (use s2(2) e in \<open>simp_all add: jump_to_def ac_simps del: sees.simps\<close>)
  then show ?thesis using r2(3) advances_read(3)[OF s2(3)] by simp
qed

section \<open>Assignments\<close>

lemma parser_alone:
  assumes "parser 5 f self = Ret self'" and "level (next_token self') = None"
  shows "l \<le> 5 \<Longrightarrow> parser l f self = Ret self'"
proof (induction "5 - l" arbitrary: l)
  case (Suc k)
  then have n: "parser (Suc l) f self = Ret self'" "l < 5" by simp_all
  show ?case
  proof (cases "l = 2")
    case True
    then show ?thesis using n(1) assms(2) parser_shift[of f self] by (simp add: numeral_3_eq_3)
  next
    case False
    then show ?thesis using n(1) assms(2) parser_loop[OF n(2) False, of f self] resume_stops[of self'] by simp
  qed
qed (use assms in simp)

text \<open>A variable in front of \<open>=\<close>: its value is pushed, and the code that reads it erased again.\<close>

lemma parse_variable:
  assumes "keyword_token w = TC_IDENTIFIER" and "\<Gamma> w = Some (Slot k)" and "sees self (Word w # Other 61 # us)"
    and "settled \<Gamma> self" and "next_register self = 0" and "room (length (set_code \<Gamma> (frame_size self) w)) self"
  obtains self1 where "tc_parse_expr (Suc (Suc f)) self = Ret self1" "sees self1 (Other 61 # us)"
    "pushed self (name_code (frame_size self) 0 (Slot k)) self1" "names_slot self self1 k"
proof -
  let ?bs = "name_code (frame_size self) 0 (Slot k)"
  have bs: "?bs = name_code (frame_size self) (unat (next_register self)) (Slot k)" using assms(5) by simp
  have "length ?bs = length (set_code \<Gamma> (frame_size self) w)" using assms(2) by (simp add: set_code_def mem_bytes_def)
  then have rd: "ready \<Gamma> self 1 ?bs" using ready_settled[OF assms(4,5)] assms(6) by simp
  have t: "token_of (Other 61) \<noteq> 40" by simp
  from parse_name[OF assms(3,1,2) bs rd le_refl t] obtain self1 where
    s1: "tc_parse_primitive_expr (tc_parse_expr (Suc f)) f self = Ret self1" "sees self1 (Other 61 # us)" "pushed self ?bs self1"
    "names_slot self self1 k" by blast
  have n1: "next_token self1 = 61" using sees_token[OF s1(2)] by simp
  have "next_token self = TC_IDENTIFIER" using sees_token[OF assms(3)] assms(1) by (simp add: token_of_def)
  then have "parser 5 (Suc f) self = Ret self1" using parse_only_primitive[OF s1(1)] n1 by (simp add: tokens)
  from parser_alone[OF this, of 0] n1 have "tc_parse_expr (Suc (Suc f)) self = Ret self1"
    by (simp add: level_def tokens parser_def)
  then show thesis using that s1 by blast
qed

lemma erase_variable:
  assumes "settled \<Gamma> self" and "next_register self = 0" and "pushed self bs self1" and "names_slot self self1 k"
    and "pending self ps" and "room (length bs) self"
  defines "self2 \<equiv> tc_erase_get_insn self1"
  shows "next_register self2 = 0" "heap self2 = heap self + 32"
    and "emits self (self2\<lparr>heap := heap self\<rparr>) 0 ps [] (\<lambda>_. [])" and "in_scope \<Gamma> self2" and "cells self2 = cells self1"
proof -
  have ok: "code_ok self" using assms(1) by (simp add: settled_def)
  have c1: "core self1 = core (emit bs self)" using assms(3) by (simp add: pushed_def extends_def)
  note e1 = core_eqD[OF c1]
  show r: "next_register self2 = 0" "heap self2 = heap self + 32"
    using assms(2,3) by (simp_all add: self2_def tc_erase_get_insn_def pushed_def)
  have d: "dst self2 = dst self" "code self2 = blit (code self) (pos self) bs" "code_base self2 = code_base self"
    using assms(4) e1 by (simp_all add: self2_def tc_erase_get_insn_def names_slot_def emit_def)
  have c: "context_of self2 = context_of self" using context_core[OF c1] by (simp add: self2_def tc_erase_get_insn_def)
  have room: "pos self + length bs \<le> length (code self)" using assms(6) by (simp add: room_def)
  let ?self2 = "self2\<lparr>heap := heap self\<rparr>"
  have p: "pos ?self2 = pos self" using d by (simp add: pos_def)
  have "dst_limit ?self2 = dst_limit self" using context_eqD(3)[OF c] by simp
  moreover have "code_base ?self2 = code_base self" "dst ?self2 = dst self" "length (code ?self2) = length (code self)"
    using d room by (simp_all add: length_blit)
  ultimately have "code_ok ?self2" using ok unfolding code_ok_def by (elim conjE) simp
  moreover show ce: "cells self2 = cells self1" by (simp add: self2_def tc_erase_get_insn_def)
  moreover have k: "keeps self self1" using assms(3) by (simp add: pushed_def extends_def)
  ultimately have "advances self ?self2"
    using c d p room by (simp add: advances_def length_blit blit_below keeps_def)
  then show "emits self ?self2 0 ps [] (\<lambda>_. [])"
    using p pending_later[OF assms(5)] room d by (simp add: emits_def makes_empty length_blit)
  have "unat (heap self) + 32 \<le> unat (heap_limit self)" using assms(1) by (simp add: settled_def)
  then have h: "heap self \<le> heap self1"
    using assms(3) unat_u64_less[of "heap_limit self"] by (simp add: pushed_def le_u64 unat_add_u64)
  have "in_scope \<Gamma> self1"
    using in_scope_extends[of \<Gamma> self bs self1] assms(1,3) h by (simp add: settled_def pushed_def)
  moreover have "in_scope \<Gamma> self2 = in_scope \<Gamma> self1"
  proof -
    have "syms_at self2 p es = syms_at self1 p es" for p es
      by (induction es arbitrary: p) (auto simp: self2_def tc_erase_get_insn_def name_at_def)
    then show ?thesis by (simp add: in_scope_def self2_def tc_erase_get_insn_def)
  qed
  ultimately show "in_scope \<Gamma> self2" by simp
qed

text \<open>The code that stores register r8 in slot \<open>k\<close> of a frame of \<open>n\<close>.\<close>

abbreviation slot_code :: "u64 \<Rightarrow> u64 \<Rightarrow> u8 list" where
  "slot_code n k \<equiv> mem_bytes 0x894c 4 0x24 (n - k)"

text \<open>Behind a value that counts as a variable in slot \<open>k\<close>, whose code is erased, there is an assignment.\<close>

lemma parse_assigned:
  assumes "pushed self bs self1" and "names_slot self self1 k" and "sees self1 (Other 61 # ts @ Other 59 # u # us)"
    and "phrase 0 ts e" and "expr_ok \<Gamma> 0 e" and "length ts < f" and "room (length bs) self"
    and "prepared \<Gamma> self (length (expr_code \<Gamma> (frame_size self) 0 e) + length (slot_code (frame_size self) k)) ps"
  obtains self' where "tc_parse_assignment f self1 = Ret self'" "sees self' (Other 59 # u # us)" "next_register self' = 0"
    "emits self self' (length (expr_code \<Gamma> (frame_size self) 0 e) + length (slot_code (frame_size self) k)) ps []
       (\<lambda>_. expr_code \<Gamma> (frame_size self) 0 e @ slot_code (frame_size self) k)"
proof -
  let ?n = "frame_size self" and ?es = "expr_code \<Gamma> (frame_size self) 0 e" and ?ws = "slot_code (frame_size self) k"
  note p = preparedD[OF assms(8)]
  define self2 where "self2 = tc_erase_get_insn self1"
  note er = erase_variable[OF p(1,3) assms(1,2) p(5) assms(7), folded self2_def]
  let ?v = "\<lparr>val_origin = FROM_VARIABLE, val_slot = k, val_type = 0, val_dim = 0\<rparr>"
  have v: "cells self1 (heap self) = Some (Val ?v)" using assms(2) by (simp add: names_slot_def)
  have "heap self1 - VALUE_SIZE = heap self" using assms(1) by (simp add: pushed_def VALUE_SIZE_def)
  then have top: "tc_top_value self1 = Ret ?v" using v by (simp add: tc_top_value_def get_value_def)
  have see2: "sees self2 (Other 61 # ts @ Other 59 # u # us)"
    using assms(3) sees_cong[of self2 self1] by (simp add: self2_def tc_erase_get_insn_def del: sees.simps)
  then obtain self3 where s3: "tc_read_token self2 = Ret self3" "sees self3 (ts @ Other 59 # u # us)" "off_scanner self3 = off_scanner self2"
    by (rule sees_cons)
  have tok: "tc_parse_token self2 61 = Ret self3"
    using s3(1) sees_token[OF see2] by (simp add: tc_parse_token_def)
  note o = off_scanner_core[OF s3(3)]
  let ?b = "self3\<lparr>heap := heap self\<rparr>"
  have "off_scanner (s\<lparr>heap := h\<rparr>) = off_scanner s\<lparr>heap := h\<rparr>" for s h by (simp add: off_scanner_def)
  then have "off_scanner ?b = off_scanner (self2\<lparr>heap := heap self\<rparr>)" using s3(3) by metis
  then have eb: "emits self ?b 0 ps [] (\<lambda>_. [])" using er(3) emits_read(2) by blast
  note db = emitsD[OF eb]
  have pb: "prepared \<Gamma> ?b (length (?es @ ?ws)) ([] @ ps)"
    by (rule prepared_emits[OF _ eb]) (use assms(8) er(1) o in simp_all)
  note pb' = preparedD[OF pb]
  have fr: "frame_size self3 = ?n" using advances_eqD(7)[OF db(1)] by simp
  have hl: "unat (heap self) + 288 \<le> unat (heap_limit self)" "heap_limit self3 = heap_limit self"
    using p(1) advances_eqD(4)[OF db(1)] by (simp_all add: settled_def)
  have h3: "heap self3 = heap self + 32" "unat (heap self + 32) = unat (heap self) + 32"
    using er(2) o hl unat_u64_less[of "heap_limit self"] by (simp_all add: unat_add_u64)
  have ne: "scoped \<Gamma> e" "need e \<le> 8" using assms(5) by (simp_all add: expr_ok_def)
  have "in_scope \<Gamma> self3"
    using er(4) read_keeps(1)[OF s3(3), of \<Gamma> 0 "[]"] syms_at_keeps[of self2 _ _ self3] o core_eqD[OF o(1)]
    unfolding in_scope_def by (metis keeps_cells order_refl)
  then have rd: "ready \<Gamma> self3 (need e) ?es"
    using pb'(3,4,6) h3 hl ne(2) core_code(1-3)[of self3 ?b] by (simp add: ready_def room_def)
  have es: "?es = expr_code \<Gamma> (frame_size self3) (unat (next_register self3)) e" using fr pb'(3) by simp
  obtain self4 where s4: "tc_parse_expr f self3 = Ret self4" "pushed self3 ?es self4" "sees self4 (Other 59 # u # us)"
    by (rule parse_operand[OF assms(4) s3(2) ends_expr_simps(1) ne(1) assms(6) rd es])
  obtain v4 where v4: "cells self4 (heap self3) = Some (Val v4)" "int_value v4" using s4(2) by (rule pushed_value)
  have k4: "keeps self3 self4" using s4(2) by (simp add: pushed_def extends_def)
  have "cells self3 (heap self) = Some (Val ?v)" "below (heap self3) (heap self) (Val ?v)"
    using v er(5) o h3 by (simp_all add: below_def VALUE_SIZE_def)
  then have "cells self4 (heap self) = Some (Val ?v)" using k4 by (simp add: keeps_def)
  then have chk: "tc_check_comparison_expr self4 = Ret (self4\<lparr>heap := heap self\<rparr>)"
    using check_comparison[of self4 "heap self" ?v v4] v4 h3(1) s4(2)
    by (simp add: int_value_def FROM_VARIABLE_def FROM_VOID_def FROM_NULL_def pushed_def)
  let ?self5 = "self4\<lparr>heap := heap self\<rparr>" and ?self6 = "emit ?ws (self4\<lparr>heap := heap self\<rparr>)\<lparr>next_register := 0\<rparr>"
  have "keeps ?b ?self5" using k4 h3 by (auto simp: keeps_def below_def)
  moreover have "core ?self5 = core (emit ?es ?b)" using s4(2) core_code(4)[of ?b self3 ?es] by (simp add: pushed_def extends_def)
  ultimately have "emits ?b ?self5 (length ?es) ps [] (\<lambda>_. ?es)"
    using pb'(4,5,6) by (intro emits_written) (simp_all add: room_def)
  from emits_append[OF eb, of ?self5 "length ?es" "[]"] this
  have e5: "emits self ?self5 (length ?es) ps [] (\<lambda>_. ?es)" by simp
  note d5 = emitsD[OF e5]
  have ok5: "code_ok ?self5" "room (length ?ws) ?self5" "pending ?self5 ps"
    using d5(1,3) room_later[of "length ?es" "length ?ws" self ?self5] p(4) d5(2) by (simp_all add: advances_def)
  have "emits ?self5 ?self6 (length ?ws) ps [] (\<lambda>_. ?ws)"
    by (rule emits_written[OF ok5(1,2) _ _ _ ok5(3)]) (simp_all add: keeps_cells)
  from emits_append[OF e5, of ?self6 "length ?ws" "[]"] this
  have e6: "emits self ?self6 (length ?es + length ?ws) ps [] (\<lambda>_. ?es @ ?ws)" by simp
  have fr5: "frame_size ?self5 = ?n" using advances_eqD(7)[OF d5(1)] by simp
  have "tc_write_set_insn ?self5 k = Ret ?self6"
    using write_mem[OF ok5(1)] ok5(2) fr5 by (simp add: tc_write_set_insn_def seq_written)
  then have "tc_parse_assignment f self1 = Ret ?self6"
    using top tok s4(1) chk by (simp add: tc_parse_assignment_def self2_def FROM_VARIABLE_def FROM_ADDRESS_def)
  then show thesis by (rule that) (use s4(3) e6 in \<open>simp_all del: sees.simps\<close>)
qed

lemma parse_assign:
  assumes "keyword_token w = TC_IDENTIFIER" and "phrase 0 ts e" and "sees self (Word w # Other 61 # ts @ Other 59 # u # us)"
    and "stmt_ok \<Gamma> l (Assign w e)" and "length ts + 1 < f"
    and "prepared \<Gamma> self (stmt_size \<Gamma> (frame_size self) (Assign w e)) ps"
  shows "outputs self ps l (tc_parse_expr_or_assign_stmt f self (refs_of l self ps)) True False
    (stmt_size \<Gamma> (frame_size self) (Assign w e)) (\<lambda>x. stmt_code \<Gamma> (frame_size self) (pos self) x (Assign w e)) (u # us)"
proof -
  note p = preparedD[OF assms(6)]
  obtain k where k: "\<Gamma> w = Some (Slot k)" and ok: "expr_ok \<Gamma> 0 e" using assms(4) by (auto elim: is_slot.elims)
  have "2 \<le> f" using assms(5) by simp
  then obtain g where g: "f = Suc (Suc g)" using le_Suc_ex[of 2 f] by auto
  have rm: "room (length (set_code \<Gamma> (frame_size self) w)) self" using p(4) by (simp add: room_def)
  have len: "length (name_code (frame_size self) 0 (Slot k)) = length (set_code \<Gamma> (frame_size self) w)"
    using k by (simp add: set_code_def mem_bytes_def)
  obtain self1 where s1: "tc_parse_expr f self = Ret self1" "sees self1 (Other 61 # ts @ Other 59 # u # us)"
    "pushed self (name_code (frame_size self) 0 (Slot k)) self1" "names_slot self self1 k"
    using parse_variable[OF assms(1) k assms(3) p(1,3) rm] g by blast
  have l: "length ts < f" "room (length (name_code (frame_size self) 0 (Slot k))) self" using assms(5) rm len by simp_all
  obtain self2 where s2: "tc_parse_assignment f self1 = Ret self2" "sees self2 (Other 59 # u # us)" "next_register self2 = 0"
    "emits self self2 (stmt_size \<Gamma> (frame_size self) (Assign w e)) ps [] (\<lambda>_. expr_code \<Gamma> (frame_size self) 0 e @ set_code \<Gamma> (frame_size self) w)"
    using parse_assigned[OF s1(3,4,2) assms(2) ok l] assms(6) k by (auto simp: set_code_def)
  obtain self3 where s3: "tc_read_token self2 = Ret self3" "sees self3 (u # us)" "off_scanner self3 = off_scanner self2"
    using s2(2) by (rule read_sees)
  note e3 = read_after[OF s2(4) s3(3)]
  have "tc_parse_expr_or_assign_stmt f self (refs_of l self ps) = Ret (end_state True, refs_of l self3 ([] @ ps), self3)"
    using s1(1) s2(1) sees_token[OF s1(2)] parse_token_sees[OF s2(2)] s3(1) refs_later[OF emitsD(1)[OF e3(1)]]
    by (simp add: tc_parse_expr_or_assign_stmt_def end_state_def)
  then show ?thesis by (rule outputsI) (use s3(2) e3 s2(3) in simp_all)
qed

end
