(* ===== verification/Tc_Block_Parse.thy ===== *)
theory Tc_Block_Parse
  imports Tc_Stmt_Parse
begin

text \<open>
  The parser of blocks, conditional statements and loops: the induction over the grammar that puts the
  code of the parts together and fills the jumps between them.
\<close>

section \<open>Claims for the parts\<close>

text \<open>A conditional statement is also parsed directly, behind \<open>else\<close>.\<close>

definition run_stmt :: "stmt \<Rightarrow> nat \<Rightarrow> nat \<Rightarrow> stmt_parser" where
  "run_stmt s f g = (case s of Choose c b d \<Rightarrow> tc_parse_if_stmt (tc_parse_stmt f) g | _ \<Rightarrow> tc_parse_stmt (Suc f))"

definition stmt_parsed :: "scope \<Rightarrow> lexeme list \<Rightarrow> stmt \<Rightarrow> bool" where
  "stmt_parsed \<Gamma> ts s \<longleftrightarrow> (\<forall>f g self u us l ps. sees self (ts @ u # us) \<longrightarrow> token_of u \<noteq> TC_ELSE \<longrightarrow> stmt_ok \<Gamma> l s \<longrightarrow>
     length ts \<le> f \<longrightarrow> length ts \<le> g \<longrightarrow> prepared \<Gamma> self (stmt_size \<Gamma> (frame_size self) s) ps \<longrightarrow>
     outputs self ps l (run_stmt s f g self (refs_of l self ps)) (falls s) (leaves_loop s)
       (stmt_size \<Gamma> (frame_size self) s) (\<lambda>x. stmt_code \<Gamma> (frame_size self) (pos self) x s) (u # us))"

definition block_parsed :: "scope \<Rightarrow> lexeme list \<Rightarrow> stmt list \<Rightarrow> bool" where
  "block_parsed \<Gamma> ts ss \<longleftrightarrow> (\<forall>f g self u us l ps. sees self (ts @ u # us) \<longrightarrow> block_ok \<Gamma> l ss \<longrightarrow>
     length ts \<le> f \<longrightarrow> length ts \<le> g \<longrightarrow> prepared \<Gamma> self (block_size \<Gamma> (frame_size self) ss) ps \<longrightarrow>
     outputs self ps l (tc_parse_block_stmt (tc_parse_stmt f) g self (refs_of l self ps)) (falls_block ss) (leaves_loop_block ss)
       (block_size \<Gamma> (frame_size self) ss) (\<lambda>x. block_code \<Gamma> (frame_size self) (pos self) x ss) (u # us))"

definition block_loop :: "nat \<Rightarrow> nat \<Rightarrow> u64 \<times> u64 option \<times> compiler \<Rightarrow> (u64 \<times> u64 option \<times> compiler) res" where
  "block_loop f k = while_do k (\<lambda>(state, break_refs, self). next_token self \<noteq> 125)
     (\<lambda>(state, break_refs, self). if state = END_UNREACHABLE then Panic 37 else tc_parse_stmt f self break_refs)"

definition all_parsed :: "scope \<Rightarrow> lexeme list \<Rightarrow> stmt list \<Rightarrow> bool" where
  "all_parsed \<Gamma> ts ss \<longleftrightarrow> (\<forall>f k self u us l ps go. sees self (ts @ u # us) \<longrightarrow> token_of u = 125 \<longrightarrow> block_ok \<Gamma> l ss \<longrightarrow>
     (ss = [] \<or> go) \<longrightarrow> length ts < f \<longrightarrow> length ts \<le> k \<longrightarrow> prepared \<Gamma> self (block_size \<Gamma> (frame_size self) ss) ps \<longrightarrow>
     outputs self ps l (block_loop f k (end_state go, refs_of l self ps, self)) (if ss = [] then go else falls_block ss)
       (leaves_loop_block ss) (block_size \<Gamma> (frame_size self) ss) (\<lambda>x. block_code \<Gamma> (frame_size self) (pos self) x ss) (u # us))"

lemma all_parsedD:
  assumes "all_parsed \<Gamma> ts ss" and "sees self (ts @ u # us)" and "token_of u = 125" and "block_ok \<Gamma> l ss"
    and "ss = [] \<or> go" and "length ts < f" and "length ts \<le> k" and "prepared \<Gamma> self (block_size \<Gamma> n ss) ps" and "frame_size self = n"
  shows "outputs self ps l (block_loop f k (end_state go, refs_of l self ps, self)) (if ss = [] then go else falls_block ss)
       (leaves_loop_block ss) (block_size \<Gamma> n ss) (\<lambda>x. block_code \<Gamma> n (pos self) x ss) (u # us)"
  using assms(1)[unfolded all_parsed_def, rule_format, OF assms(2-7)] assms(8,9) by simp

lemma block_parsedD:
  assumes "block_parsed \<Gamma> ts ss" and "sees self (ts @ u # us)" and "block_ok \<Gamma> l ss" and "length ts \<le> f" and "length ts \<le> g"
    and "prepared \<Gamma> self (block_size \<Gamma> n ss) ps" and "frame_size self = n"
  obtains self' qs where "tc_parse_block_stmt (tc_parse_stmt f) g self (refs_of l self ps) =
      Ret (end_state (falls_block ss), refs_of l self' (qs @ ps), self')" "sees self' (u # us)" "next_register self' = 0"
    "emits self self' (block_size \<Gamma> n ss) ps qs (\<lambda>x. block_code \<Gamma> n (pos self) x ss)" "qs \<noteq> [] \<longleftrightarrow> leaves_loop_block ss"
  using assms(1)[unfolded block_parsed_def, rule_format, OF assms(2-5)] assms(6,7) unfolding outputs_def by blast

lemma end_state_simps [simp]: "end_state True = END_REACHABLE" "end_state False = END_UNREACHABLE"
  "END_REACHABLE \<noteq> END_UNREACHABLE" "END_UNREACHABLE \<noteq> END_REACHABLE"
  by (simp_all add: end_state_def END_REACHABLE_def END_UNREACHABLE_def)

lemma choose_first_token: "parses ts (Choose c b d) \<Longrightarrow> token_of (hd ts) = TC_IF"
  by (erule parses.cases) simp_all

lemma first_token: "sees self (ts @ us) \<Longrightarrow> ts \<noteq> [] \<Longrightarrow> next_token self = token_of (hd ts)"
  using sees_token[of self "hd ts" "tl ts @ us"] by (cases ts) simp_all

text \<open>The claim for \<open>tc_parse_stmt\<close> itself.\<close>

lemma stmt_parsedD:
  assumes "stmt_parsed \<Gamma> ts s" and "parses ts s" and "sees self (ts @ u # us)" and "token_of u \<noteq> TC_ELSE" and "stmt_ok \<Gamma> l s"
    and "length ts < f" and "prepared \<Gamma> self (stmt_size \<Gamma> (frame_size self) s) ps"
  shows "outputs self ps l (tc_parse_stmt f self (refs_of l self ps)) (falls s) (leaves_loop s)
       (stmt_size \<Gamma> (frame_size self) s) (\<lambda>x. stmt_code \<Gamma> (frame_size self) (pos self) x s) (u # us)"
proof -
  obtain f' where f: "f = Suc f'" "length ts \<le> f'" using assms(6) by (cases f) auto
  have "next_token self = token_of (hd ts)" using first_token[OF assms(3)] parses_first[OF assms(2)] by simp
  then have "run_stmt s f' f' self (refs_of l self ps) = tc_parse_stmt f self (refs_of l self ps)"
    using choose_first_token[of ts] assms(2) f(1) by (cases s) (auto simp: run_stmt_def)
  then show ?thesis using assms f(2) unfolding stmt_parsed_def by metis
qed

section \<open>Simple statements\<close>

text \<open>Which function of the parser takes a statement.\<close>

lemma simple_first:
  assumes "token_of (hd ts) \<in> {40, TC_INTEGER, TC_IDENTIFIER}" and "ts \<noteq> []" and "sees self (ts @ u # us)"
  shows "tc_parse_stmt (Suc f) self r = tc_parse_expr_or_assign_stmt f self r"
  using first_token[OF assms(3,2)] assms(1) by (auto simp: tokens)

lemma parsed_evaluate:
  assumes "phrase 0 ts e"
  shows "stmt_parsed \<Gamma> (ts @ [Other 59]) (Evaluate e)"
  unfolding stmt_parsed_def
proof (intro allI impI)
  fix f g self u us l ps
  assume a: "sees self ((ts @ [Other 59]) @ u # us)" "stmt_ok \<Gamma> l (Evaluate e)" "length (ts @ [Other 59]) \<le> f"
    "prepared \<Gamma> self (stmt_size \<Gamma> (frame_size self) (Evaluate e)) ps"
  have s: "sees self (ts @ Other 59 # u # us)" using a(1) by simp
  have "tc_parse_stmt (Suc f) self (refs_of l self ps) = tc_parse_expr_or_assign_stmt f self (refs_of l self ps)"
    using simple_first[OF phrase_first_token[OF assms] phrase_nonempty[OF assms] s] .
  then show "outputs self ps l (run_stmt (Evaluate e) f g self (refs_of l self ps)) (falls (Evaluate e)) (leaves_loop (Evaluate e))
       (stmt_size \<Gamma> (frame_size self) (Evaluate e)) (\<lambda>x. stmt_code \<Gamma> (frame_size self) (pos self) x (Evaluate e)) (u # us)"
    using parse_evaluate[OF assms s, of \<Gamma> f ps l] a by (simp add: run_stmt_def del: tc_parse_stmt.simps)
qed

lemma parsed_assign:
  assumes "keyword_token w = TC_IDENTIFIER" and "phrase 0 ts e"
  shows "stmt_parsed \<Gamma> (Word w # Other 61 # ts @ [Other 59]) (Assign w e)"
  unfolding stmt_parsed_def
proof (intro allI impI)
  fix f g self u us l ps
  assume a: "sees self ((Word w # Other 61 # ts @ [Other 59]) @ u # us)" "stmt_ok \<Gamma> l (Assign w e)"
    "length (Word w # Other 61 # ts @ [Other 59]) \<le> f" "prepared \<Gamma> self (stmt_size \<Gamma> (frame_size self) (Assign w e)) ps"
  have s: "sees self (Word w # Other 61 # ts @ Other 59 # u # us)" using a(1) by simp
  have "tc_parse_stmt (Suc f) self (refs_of l self ps) = tc_parse_expr_or_assign_stmt f self (refs_of l self ps)"
    by (rule simple_first[OF _ _ a(1)]) (simp_all add: token_of_def assms(1))
  then show "outputs self ps l (run_stmt (Assign w e) f g self (refs_of l self ps)) (falls (Assign w e)) (leaves_loop (Assign w e))
       (stmt_size \<Gamma> (frame_size self) (Assign w e)) (\<lambda>x. stmt_code \<Gamma> (frame_size self) (pos self) x (Assign w e)) (u # us)"
    using parse_assign[OF assms s a(2) _ a(4)] a(3) by (simp add: run_stmt_def del: tc_parse_stmt.simps)
qed

lemma parsed_give:
  assumes "token_of t = TC_RETURN" and "phrase 0 ts e"
  shows "stmt_parsed \<Gamma> (t # ts @ [Other 59]) (Give e)"
  unfolding stmt_parsed_def
proof (intro allI impI)
  fix f g self u us l ps
  assume a: "sees self ((t # ts @ [Other 59]) @ u # us)" "stmt_ok \<Gamma> l (Give e)"
    "length (t # ts @ [Other 59]) \<le> f" "prepared \<Gamma> self (stmt_size \<Gamma> (frame_size self) (Give e)) ps"
  have s: "sees self (t # ts @ Other 59 # u # us)" using a(1) by simp
  have "tc_parse_stmt (Suc f) self (refs_of l self ps) = tc_parse_return_stmt f self (refs_of l self ps)"
    using sees_token[OF s] assms(1) by (simp add: tokens)
  then show "outputs self ps l (run_stmt (Give e) f g self (refs_of l self ps)) (falls (Give e)) (leaves_loop (Give e))
       (stmt_size \<Gamma> (frame_size self) (Give e)) (\<lambda>x. stmt_code \<Gamma> (frame_size self) (pos self) x (Give e)) (u # us)"
    using parse_give[OF assms s _ _ a(4)] a(2,3) by (simp add: run_stmt_def del: tc_parse_stmt.simps)
qed

lemma parsed_leave:
  assumes "token_of t = TC_BREAK"
  shows "stmt_parsed \<Gamma> [t, Other 59] Leave"
  unfolding stmt_parsed_def
proof (intro allI impI)
  fix f g self u us l ps
  assume a: "sees self ([t, Other 59] @ u # us)" "stmt_ok \<Gamma> l Leave" "prepared \<Gamma> self (stmt_size \<Gamma> (frame_size self) Leave) ps"
  have s: "sees self (t # Other 59 # u # us)" and l: l using a(1,2) by simp_all
  have "tc_parse_stmt (Suc f) self (refs_of l self ps) = tc_parse_break_stmt self (chain self ps)"
    using sees_token[OF s] assms l by (simp add: tokens refs_of_def)
  then show "outputs self ps l (run_stmt Leave f g self (refs_of l self ps)) (falls Leave) (leaves_loop Leave)
       (stmt_size \<Gamma> (frame_size self) Leave) (\<lambda>x. stmt_code \<Gamma> (frame_size self) (pos self) x Leave) (u # us)"
    using parse_leave[OF assms s, of \<Gamma> ps] a(3) l by (simp add: run_stmt_def del: tc_parse_stmt.simps)
qed

section \<open>Blocks\<close>

lemma block_loop_goes:
  "next_token self \<noteq> 125 \<Longrightarrow> block_loop f (Suc k) (END_REACHABLE, r, self) = seq (tc_parse_stmt f self r) (block_loop f k)"
  by (simp add: block_loop_def)

lemma parsed_none: "all_parsed \<Gamma> [] []"
  unfolding all_parsed_def
proof (intro allI impI)
  fix f k self u us l ps go
  assume a: "sees self ([] @ u # us)" "token_of u = 125" "prepared \<Gamma> self (block_size \<Gamma> (frame_size self) []) ps"
  have "next_token self = 125" using sees_token[of self u us] a(1,2) by simp
  then have "block_loop f k (end_state go, refs_of l self ps, self) = Ret (end_state go, refs_of l self ([] @ ps), self)"
    by (cases k) (simp_all add: block_loop_def)
  then have "outputs self ps l (block_loop f k (end_state go, refs_of l self ps, self)) go False 0 (\<lambda>_. []) (u # us)"
    by (rule outputsI) (use a(1) preparedD[OF a(3)] emits_refl in simp_all)
  then show "outputs self ps l (block_loop f k (end_state go, refs_of l self ps, self)) (if [] = [] then go else falls_block [])
       (leaves_loop_block []) (block_size \<Gamma> (frame_size self) []) (\<lambda>x. block_code \<Gamma> (frame_size self) (pos self) x []) (u # us)"
    by simp
qed

lemma parses_all_first:
  assumes "parses_all ts ss" and "token_of u = 125"
  shows "\<exists>v vs. ts @ u # us = v # vs \<and> token_of v \<noteq> TC_ELSE"
  using assms(1)
proof (cases rule: parses_all.cases)
  case none
  then show ?thesis using assms(2) by (simp add: tokens)
next
  case (one_more ts' s us' ss')
  then show ?thesis using parses_first[of ts' s] by (cases ts') (auto simp: tokens)
qed

lemma falls_block_Cons: "falls_block (s # ss) = (if ss = [] then falls s else falls_block ss)"
  by (cases ss) simp_all

lemma parsed_one_more:
  assumes "parses ts s" and "stmt_parsed \<Gamma> ts s" and "parses_all us ss" and "all_parsed \<Gamma> us ss"
  shows "all_parsed \<Gamma> (ts @ us) (s # ss)"
  unfolding all_parsed_def
proof (intro allI impI)
  fix f k self u vs l ps go
  assume a: "sees self ((ts @ us) @ u # vs)" "token_of u = 125" "block_ok \<Gamma> l (s # ss)" "s # ss = [] \<or> go"
    "length (ts @ us) < f" "length (ts @ us) \<le> k" "prepared \<Gamma> self (block_size \<Gamma> (frame_size self) (s # ss)) ps"
  let ?n = "frame_size self"
  obtain v ws where v: "us @ u # vs = v # ws" "token_of v \<noteq> TC_ELSE" using parses_all_first[OF assms(3) a(2)] by blast
  obtain t ts' where t: "ts = t # ts'" using parses_first[OF assms(1)] by (cases ts) auto
  obtain k' where k: "k = Suc k'" using a(6) t by (cases k) auto
  have s: "sees self (ts @ v # ws)" using a(1) v(1) by simp
  have ok: "stmt_ok \<Gamma> l s" "block_ok \<Gamma> l ss" "ss = [] \<or> falls s" and go using a(3,4) by auto
  have p: "prepared \<Gamma> self (stmt_size \<Gamma> ?n s + block_size \<Gamma> ?n ss) ps" using a(7) by simp
  then have p1: "prepared \<Gamma> self (stmt_size \<Gamma> ?n s) ps" by (simp add: prepared_def room_def)
  have "length ts < f" using a(5) by simp
  from stmt_parsedD[OF assms(2,1) s v(2) ok(1) this p1] obtain self1 qs where
    s1: "tc_parse_stmt f self (refs_of l self ps) = Ret (end_state (falls s), refs_of l self1 (qs @ ps), self1)"
    "sees self1 (v # ws)" "next_register self1 = 0" "qs \<noteq> [] \<longleftrightarrow> leaves_loop s"
    "emits self self1 (stmt_size \<Gamma> ?n s) ps qs (\<lambda>x. stmt_code \<Gamma> ?n (pos self) x s)"
    by (auto simp: outputs_def simp del: sees.simps)
  note d = emitsD[OF s1(5)]
  have fr: "frame_size self1 = ?n" by (rule advances_eqD(7)[OF d(1)])
  have p2: "prepared \<Gamma> self1 (block_size \<Gamma> ?n ss) (qs @ ps)" by (rule prepared_emits[OF p s1(5,3)])
  have l1: "sees self1 (us @ u # vs)" "length us < f" "length us \<le> k'" using s1(2) v(1) a(5,6) k t by simp_all
  note all_parsedD[OF assms(4) l1(1) a(2) ok(2,3) l1(2,3) p2 fr]
  then obtain self2 rs where
    s2: "block_loop f k' (end_state (falls s), refs_of l self1 (qs @ ps), self1) =
      Ret (end_state (falls_block (s # ss)), refs_of l self2 ((rs @ qs) @ ps), self2)"
    "sees self2 (u # vs)" "next_register self2 = 0" "rs \<noteq> [] \<longleftrightarrow> leaves_loop_block ss"
    "emits self1 self2 (block_size \<Gamma> ?n ss) (qs @ ps) rs (\<lambda>x. block_code \<Gamma> ?n (pos self1) x ss)"
    unfolding outputs_def falls_block_Cons by auto
  have nt: "next_token self \<noteq> 125" using first_token[OF s] parses_first[OF assms(1)] by (auto simp: tokens)
  have "block_loop f k (end_state go, refs_of l self ps, self) =
      Ret (end_state (falls_block (s # ss)), refs_of l self2 ((rs @ qs) @ ps), self2)"
    using s1(1) s2(1) \<open>go\<close> k by (simp add: block_loop_goes[OF nt])
  then have "outputs self ps l (block_loop f k (end_state go, refs_of l self ps, self)) (falls_block (s # ss))
       (leaves_loop_block (s # ss)) (stmt_size \<Gamma> ?n s + block_size \<Gamma> ?n ss)
       (\<lambda>x. stmt_code \<Gamma> ?n (pos self) x s @ block_code \<Gamma> ?n (pos self1) x ss) (u # vs)"
    by (rule outputsI) (use s1(4) s2(2-4) emits_append[OF s1(5) s2(5)] in \<open>auto simp del: sees.simps\<close>)
  then show "outputs self ps l (block_loop f k (end_state go, refs_of l self ps, self)) (if s # ss = [] then go else falls_block (s # ss))
       (leaves_loop_block (s # ss)) (block_size \<Gamma> ?n (s # ss)) (\<lambda>x. block_code \<Gamma> ?n (pos self) x (s # ss)) (u # vs)"
    using d(2) by simp
qed

lemma parsed_braces:
  assumes "all_parsed \<Gamma> ts ss"
  shows "block_parsed \<Gamma> (Other 123 # ts @ [Other 125]) ss"
  unfolding block_parsed_def
proof (intro allI impI)
  fix f g self u us l ps
  assume a: "sees self ((Other 123 # ts @ [Other 125]) @ u # us)" "block_ok \<Gamma> l ss" "length (Other 123 # ts @ [Other 125]) \<le> f"
    "length (Other 123 # ts @ [Other 125]) \<le> g" "prepared \<Gamma> self (block_size \<Gamma> (frame_size self) ss) ps"
  let ?n = "frame_size self"
  have s0: "sees self (Other 123 # ts @ Other 125 # u # us)" using a(1) by simp
  then obtain self1 where s1: "tc_read_token self = Ret self1" "sees self1 (ts @ Other 125 # u # us)" "off_scanner self1 = off_scanner self"
    by (rule sees_cons)
  note r = prepared_read[OF s1(3)]
  have l1: "length ts < f" "length ts \<le> g" "prepared \<Gamma> self1 (block_size \<Gamma> ?n ss) ps" using a(3-5) r by simp_all
  have c: "token_of (Other 125) = 125" "ss = [] \<or> True" "(if ss = [] then True else falls_block ss) = falls_block ss" by simp_all
  from all_parsedD[OF assms s1(2) c(1) a(2) c(2) l1 r(4)]
  obtain self2 qs where s2: "block_loop f g (end_state True, refs_of l self1 ps, self1) =
      Ret (end_state (falls_block ss), refs_of l self2 (qs @ ps), self2)" "sees self2 (Other 125 # u # us)" "next_register self2 = 0"
      "qs \<noteq> [] \<longleftrightarrow> leaves_loop_block ss" "emits self1 self2 (block_size \<Gamma> ?n ss) ps qs (\<lambda>x. block_code \<Gamma> ?n (pos self1) x ss)"
    unfolding outputs_def c(3) by blast
  obtain self3 where s3: "tc_read_token self2 = Ret self3" "sees self3 (u # us)" "off_scanner self3 = off_scanner self2"
    using s2(2) by (rule read_sees)
  note r3 = prepared_read[OF s3(3)] and e3 = read_after[OF s2(5) s3(3)]
  have "tc_parse_token self 123 = Ret self1" using s1(1) sees_token[OF s0] by (simp add: tc_parse_token_def)
  then have "tc_parse_block_stmt (tc_parse_stmt f) g self (refs_of l self ps) =
      Ret (end_state (falls_block ss), refs_of l self3 (qs @ ps), self3)"
    using s2(1) s3(1) r(2) r3(2) by (simp add: tc_parse_block_stmt_def block_loop_def[symmetric])
  then have "outputs self1 ps l (tc_parse_block_stmt (tc_parse_stmt f) g self (refs_of l self ps)) (falls_block ss) (leaves_loop_block ss)
      (block_size \<Gamma> ?n ss) (\<lambda>x. block_code \<Gamma> ?n (pos self1) x ss) (u # us)"
    by (rule outputsI) (use s3(2) e3 s2(3,4) in \<open>simp_all del: sees.simps\<close>)
  then show "outputs self ps l (tc_parse_block_stmt (tc_parse_stmt f) g self (refs_of l self ps)) (falls_block ss) (leaves_loop_block ss)
      (block_size \<Gamma> ?n ss) (\<lambda>x. block_code \<Gamma> ?n (pos self) x ss) (u # us)"
    using r(3) advances_read(3)[OF s1(3)] by simp
qed

end
