(* ===== verification/Tc_Control_Parse.thy ===== *)
theory Tc_Control_Parse
  imports Tc_Block_Parse
begin

text \<open>
  The parser of conditional statements and loops, and the induction over the grammar: the parser of
  statements refines the grammar and the code of \<open>Tc_Stmt_Spec\<close>.
\<close>

section \<open>A condition and the block behind it\<close>

lemma prepared_less: "prepared \<Gamma> self (m + k) ps \<Longrightarrow> prepared \<Gamma> self m ps"
  by (simp add: prepared_def room_def)

lemma parse_head:
  assumes "sees self (t # ts @ us @ v # vs)" and "or_phrase ts c" and "parses_block us b" and "block_parsed \<Gamma> us b"
    and "condition_ok \<Gamma> c" and "length ts < f" and "prepared \<Gamma> self (or_size \<Gamma> (frame_size self) c + k) ps"
  obtains self1 self2 els thens self3 where "tc_read_token self = Ret self1"
    "tc_parse_boolean_expr f self1 0 = Ret (chain self3 els, thens, self2)"
    "tc_fill_placeholders self2 thens (dst self2) = Ret self3" "sees self3 (us @ v # vs)" "prepared \<Gamma> self3 k ps"
    "prepared \<Gamma> self3 k els" "frame_size self3 = frame_size self" "refs_of l self3 ps = refs_of l self ps"
    "emits self self3 (or_size \<Gamma> (frame_size self) c) [] els
      (\<lambda>x. or_code \<Gamma> (frame_size self) (pos self) (pos self + or_size \<Gamma> (frame_size self) c) x c)"
proof -
  let ?n = "frame_size self" and ?o = "or_size \<Gamma> (frame_size self) c"
  obtain self1 where s1: "tc_read_token self = Ret self1" "sees self1 (ts @ us @ v # vs)" "off_scanner self1 = off_scanner self"
  proof -
    obtain w ws where "us @ v # vs = w # ws" by (cases "us @ v # vs") auto
    then show thesis using sees_cons[of self t ts w ws] assms(1) that by auto
  qed
  note r = prepared_read[OF s1(3)]
  have p1: "prepared \<Gamma> self1 (?o + k) ps" using assms(7) r by simp
  note p = preparedD[OF prepared_less[OF p1]]
  obtain us' where us: "us = Other 123 # us'" using block_first[OF assms(3)] by auto
  have "sees self1 (ts @ Other 123 # us' @ v # vs)" "token_of (Other 123) = 123" "room (or_size \<Gamma> (frame_size self1) c) self1"
    using s1(2) us p(4) r(4) by simp_all
  note cond = parse_condition[OF assms(2) this(1,2) assms(5,6) p(1,3) this(3), unfolded r(4)]
  obtain self2 els thens self3 where
    c: "tc_parse_boolean_expr f self1 0 = Ret (chain self3 els, thens, self2)" "tc_fill_placeholders self2 thens (dst self2) = Ret self3"
    "sees self3 (Other 123 # us' @ v # vs)" "next_register self3 = 0"
    "emits self1 self3 ?o [] els (\<lambda>x. or_code \<Gamma> ?n (pos self1) (pos self1 + ?o) x c)" by (rule cond)
  note d = emitsD[OF c(5)]
  have q: "prepared \<Gamma> self1 (?o + k) []" using p1 by (simp add: prepared_def)
  have e: "emits self self3 ?o [] els (\<lambda>x. or_code \<Gamma> ?n (pos self) (pos self + ?o) x c)"
    using c(5) emits_read(1)[OF s1(3)] advances_read(3)[OF s1(3)] by simp
  have "pending self3 ps" by (rule pending_later[OF p(5) d(1)])
  moreover have "prepared \<Gamma> self3 k (els @ [])" by (rule prepared_emits[OF q c(5,4)])
  ultimately have "prepared \<Gamma> self3 k ps" "prepared \<Gamma> self3 k els" by (simp_all add: prepared_def)
  moreover have "frame_size self3 = ?n" using advances_eqD(7)[OF d(1)] r(4) by simp
  moreover have "refs_of l self3 ps = refs_of l self ps" using refs_later[OF d(1)] r(2) by simp
  moreover have "sees self3 (us @ v # vs)" using c(3) us by simp
  ultimately show thesis using that s1(1) c(1,2) e by blast
qed

section \<open>Loops\<close>

text \<open>The jump back, and the open jumps filled with the end of the loop.\<close>

lemma write_loop_jump:
  assumes "code_ok self"
  shows "tc_write_loop_insn self (code_base self + of_nat q) = Tc_Emit.written self (jump_to (pos self) q)"
proof -
  have "tc_write_loop_insn self (code_base self + of_nat q) =
      seq (Tc_Emit.written self [0xe9]) (\<lambda>s. tc_write32 s (code_base self + of_nat q - (dst s + 4)))"
    by (simp add: tc_write_loop_insn_def tc_write8[OF assms])
  also have "\<dots> = Tc_Emit.written self ([0xe9] @ le_bytes 4 (of_nat q - of_nat (pos self + 5) :: u64))"
  proof (rule written_written[OF assms])
    fix s assume "code_ok s" "s = emit [0xe9] self"
    moreover have "dst self = code_base self + of_nat (pos self)" by (rule dst_pos)
    ultimately show "tc_write32 s (code_base self + of_nat q - (dst s + 4))  = Tc_Emit.written s (le_bytes 4 (of_nat q - of_nat (pos self + 5) :: u64))"
      by (simp add: tc_write32 emit_def algebra_simps)
  qed
  finally show ?thesis by (simp add: jump_to_def)
qed


lemma sees_code [simp]: "sees (self\<lparr>code := cs\<rparr>) ts = sees self ts"
  by (rule sees_cong) simp_all

lemma close_loop:
  assumes "prepared \<Gamma> self 5 ps" and "emits self0 self m [] qs G" and "sees self ts" and "pending self0 ps"
    and "code_base self = code_base self0" and "code_ok self0"
  obtains self1 self2 where "tc_write_loop_insn self (code_base self0 + of_nat p) = Ret self1"
    "tc_fill_placeholders self1 (chain self qs) (dst self1) = Ret self2" "sees self2 ts" "next_register self2 = 0"
    "emits self0 self2 (m + 5) ps [] (\<lambda>_. G (pos self0 + m + 5) @ jump_to (pos self0 + m) p)"
proof -
  note p = preparedD[OF assms(1)] and d = emitsD[OF assms(2)]
  let ?bs = "jump_to (pos self) p"
  let ?self1 = "emit ?bs self"
  have w: "tc_write_loop_insn self (code_base self0 + of_nat p) = Ret ?self1"
    using write_loop_jump[OF p(6), of p] p(4) assms(5) by (simp add: Tc_Emit.written_def)
  have "emits self ?self1 (length ?bs) qs [] (\<lambda>_. ?bs)"
    using p(4,6) d(3) by (intro emits_written) (simp_all add: keeps_cells)
  then have "emits self ?self1 5 (qs @ []) [] (\<lambda>_. ?bs)" by simp
  from emits_append[OF assms(2) this] have e: "emits self0 ?self1 (m + 5) [] qs (\<lambda>x. G x @ ?bs)" by simp
  note c = emits_closed[OF e assms(4,6), where x = "pos ?self1"]
  have p1: "pos ?self1 = pos self0 + m + 5" using emitsD(2)[OF e] by simp
  have f: "tc_fill_placeholders ?self1 (chain self qs) (dst ?self1) = Ret (?self1\<lparr>code := patch (pos ?self1) qs (code ?self1)\<rparr>)"
    using c(1) dst_pos[of ?self1] chain_cong[of ?self1 self] by simp
  show thesis
  proof (rule that[OF w f])
    show "emits self0 (?self1\<lparr>code := patch (pos ?self1) qs (code ?self1)\<rparr>) (m + 5) ps []
        (\<lambda>_. G (pos self0 + m + 5) @ jump_to (pos self0 + m) p)"
      using c(2) p1 d(2) by simp
    show "sees (?self1\<lparr>code := patch (pos ?self1) qs (code ?self1)\<rparr>) ts"
      using assms(3) by (simp del: sees.simps)
  qed (use p(3) in simp)
qed

lemma run_loop:
  "token_of t = TC_WHILE \<Longrightarrow> next_token self = token_of t \<Longrightarrow> run_stmt (Repeat c b) f g self r =
     tc_parse_while_or_loop_stmt (tc_parse_stmt f) f self r"
  "token_of t = TC_LOOP \<Longrightarrow> next_token self = token_of t \<Longrightarrow> run_stmt (Forever b) f g self r =
     tc_parse_while_or_loop_stmt (tc_parse_stmt f) f self r"
  by (simp_all add: run_stmt_def tokens)

lemma parsed_repeat:
  assumes "token_of t = TC_WHILE" and "or_phrase ts c" and "parses_block us b" and "block_parsed \<Gamma> us b"
  shows "stmt_parsed \<Gamma> (t # ts @ us) (Repeat c b)"
  unfolding stmt_parsed_def
proof (intro allI impI)
  fix f g self v vs l ps
  assume a: "sees self ((t # ts @ us) @ v # vs)" "stmt_ok \<Gamma> l (Repeat c b)" "length (t # ts @ us) \<le> f"
    "prepared \<Gamma> self (stmt_size \<Gamma> (frame_size self) (Repeat c b)) ps"
  let ?n = "frame_size self" and ?o = "or_size \<Gamma> (frame_size self) c" and ?b = "block_size \<Gamma> (frame_size self) b"
  have s0: "sees self (t # ts @ us @ v # vs)" using a(1) by simp
  have ok: "condition_ok \<Gamma> c" "block_ok \<Gamma> True b" "length ts < f" "length us \<le> f" using a(2,3) by simp_all
  have pr: "prepared \<Gamma> self (?o + (?b + 5)) ps" using a(4) by (simp add: add.assoc)
  obtain self1 self2 els thens self3 where
    h: "tc_read_token self = Ret self1" "tc_parse_boolean_expr f self1 0 = Ret (chain self3 els, thens, self2)"
    "tc_fill_placeholders self2 thens (dst self2) = Ret self3" "sees self3 (us @ v # vs)" "prepared \<Gamma> self3 (?b + 5) ps"
    "prepared \<Gamma> self3 (?b + 5) els" "frame_size self3 = ?n" "refs_of l self3 ps = refs_of l self ps"
    "emits self self3 ?o [] els (\<lambda>x. or_code \<Gamma> ?n (pos self) (pos self + ?o) x c)"
    by (rule parse_head[OF s0 assms(2-4) ok(1,3) pr])
  note d3 = emitsD[OF h(9)]
  obtain self4 qs where b: "tc_parse_block_stmt (tc_parse_stmt f) f self3 (refs_of True self3 els) =
      Ret (end_state (falls_block b), refs_of True self4 (qs @ els), self4)" "sees self4 (v # vs)" "next_register self4 = 0"
    "emits self3 self4 ?b els qs (\<lambda>x. block_code \<Gamma> ?n (pos self3) x b)"
    by (rule block_parsedD[OF assms(4) h(4) ok(2,4,4) prepared_less[OF h(6)] h(7)])
  have e4: "emits self self4 (?o + ?b) [] (qs @ els) (\<lambda>x. or_code \<Gamma> ?n (pos self) (pos self + ?o) x c @ block_code \<Gamma> ?n (pos self3) x b)"
    by (rule emits_append[OF h(9)]) (use b(4) in simp)
  note d4 = emitsD[OF e4]
  have q5: "prepared \<Gamma> self4 5 (qs @ els)" by (rule prepared_emits[OF h(6) b(4,3)])
  note p0 = preparedD[OF a(4)]
  have p5: "prepared \<Gamma> self4 5 ps" using q5 pending_later[OF p0(5) d4(1)] by (simp add: prepared_def)
  obtain self5 self6 where
    c: "tc_write_loop_insn self4 (code_base self + of_nat (pos self)) = Ret self5"
    "tc_fill_placeholders self5 (chain self4 (qs @ els)) (dst self5) = Ret self6" "sees self6 (v # vs)" "next_register self6 = 0"
    "emits self self6 (?o + ?b + 5) ps [] (\<lambda>_. (or_code \<Gamma> ?n (pos self) (pos self + ?o) (pos self + (?o + ?b) + 5) c @
       block_code \<Gamma> ?n (pos self3) (pos self + (?o + ?b) + 5) b) @ jump_to (pos self + (?o + ?b)) (pos self))"
    by (rule close_loop[OF p5 e4 b(2) p0(5) advances_eqD(2)[OF d4(1)] p0(6), where p = "pos self"])
  have nt: "next_token self = token_of t" by (rule sees_token[OF s0])
  have "run_stmt (Repeat c b) f g self (refs_of l self ps) = Ret (end_state True, refs_of l self ps, self6)"
    using run_loop(1)[OF assms(1) nt] nt assms(1) h(1-3) b(1) c(1,2) dst_pos[of self]
    by (simp add: tc_parse_while_or_loop_stmt_def Let_def refs_of_def[of True] tokens)
  then have "run_stmt (Repeat c b) f g self (refs_of l self ps) = Ret (end_state True, refs_of l self6 ([] @ ps), self6)"
    using refs_later[OF emitsD(1)[OF c(5)]] by simp
  then show "outputs self ps l (run_stmt (Repeat c b) f g self (refs_of l self ps)) (falls (Repeat c b)) (leaves_loop (Repeat c b))
       (stmt_size \<Gamma> ?n (Repeat c b)) (\<lambda>x. stmt_code \<Gamma> ?n (pos self) x (Repeat c b)) (v # vs)"
    unfolding falls.simps by (rule outputsI) (use c(3-5) d3(2) in \<open>simp_all add: Let_def add.assoc del: sees.simps\<close>)
qed

lemma parsed_forever:
  assumes "token_of t = TC_LOOP" and "parses_block us b" and "block_parsed \<Gamma> us b"
  shows "stmt_parsed \<Gamma> (t # us) (Forever b)"
  unfolding stmt_parsed_def
proof (intro allI impI)
  fix f g self v vs l ps
  assume a: "sees self ((t # us) @ v # vs)" "stmt_ok \<Gamma> l (Forever b)" "length (t # us) \<le> f"
    "prepared \<Gamma> self (stmt_size \<Gamma> (frame_size self) (Forever b)) ps"
  let ?n = "frame_size self" and ?b = "block_size \<Gamma> (frame_size self) b"
  have s0: "sees self (t # us @ v # vs)" using a(1) by simp
  then obtain self1 where s1: "tc_read_token self = Ret self1" "sees self1 (us @ v # vs)" "off_scanner self1 = off_scanner self"
    by (rule sees_cons)
  note r = prepared_read[OF s1(3)]
  have p1: "prepared \<Gamma> self1 (?b + 5) ps" using a(4) r by simp
  note p = preparedD[OF p1]
  have q1: "prepared \<Gamma> self1 (?b + 5) []" using p1 by (simp add: prepared_def)
  have ok: "block_ok \<Gamma> True b" "length us \<le> f" using a(2,3) by simp_all
  obtain self4 qs where b: "tc_parse_block_stmt (tc_parse_stmt f) f self1 (refs_of True self1 []) =
      Ret (end_state (falls_block b), refs_of True self4 (qs @ []), self4)" "sees self4 (v # vs)" "next_register self4 = 0"
    "emits self1 self4 ?b [] qs (\<lambda>x. block_code \<Gamma> ?n (pos self1) x b)" "qs \<noteq> [] \<longleftrightarrow> leaves_loop_block b"
    by (rule block_parsedD[OF assms(3) s1(2) ok(1,2,2) prepared_less[OF q1] r(4)])
  note d4 = emitsD[OF b(4)]
  have q5: "prepared \<Gamma> self4 5 (qs @ [])" by (rule prepared_emits[OF q1 b(4,3)])
  have p5: "prepared \<Gamma> self4 5 ps" using q5 pending_later[OF p(5) d4(1)] by (simp add: prepared_def)
  obtain self5 self6 where
    c: "tc_write_loop_insn self4 (code_base self1 + of_nat (pos self1)) = Ret self5"
    "tc_fill_placeholders self5 (chain self4 qs) (dst self5) = Ret self6" "sees self6 (v # vs)" "next_register self6 = 0"
    "emits self1 self6 (?b + 5) ps [] (\<lambda>_. block_code \<Gamma> ?n (pos self1) (pos self1 + ?b + 5) b @ jump_to (pos self1 + ?b) (pos self1))"
    by (rule close_loop[OF p5 b(4,2) p(5) advances_eqD(2)[OF d4(1)] p(6), where p = "pos self1"])
  have nt: "next_token self = token_of t" by (rule sees_token[OF s0])
  have z: "chain self4 qs = 0 \<longleftrightarrow> qs = []"
  proof (cases qs)
    case (Cons h hs)
    have "code_ok self4" using d4(1) by (simp add: advances_def)
    moreover have "h < length (code self4)" using makes_holes[OF d4(4), of h] Cons by simp
    ultimately show ?thesis using offset_nonzero Cons by (simp add: chain_def)
  qed (simp add: chain_def)
  have dst: "dst self = code_base self1 + of_nat (pos self1)"
    using dst_pos[of self1] core_eqD(5)[OF off_scanner_core(1)[OF s1(3)]] by simp
  have "run_stmt (Forever b) f g self (refs_of l self ps) = Ret (end_state (leaves_loop_block b), refs_of l self ps, self6)"
    using run_loop(2)[OF assms(1) nt] nt assms(1) s1(1) b(1) b(5)[symmetric] c(1,2) dst z tc_fill_placeholders.simps[of self1 0]
    by (simp add: tc_parse_while_or_loop_stmt_def Let_def refs_of_def[of True] chain_def[of _ "[]"] tokens)
  then have "run_stmt (Forever b) f g self (refs_of l self ps) = Ret (end_state (leaves_loop_block b), refs_of l self6 ([] @ ps), self6)"
    using refs_later[OF emitsD(1)[OF c(5)]] r(2) by simp
  then have "outputs self1 ps l (run_stmt (Forever b) f g self (refs_of l self ps)) (falls (Forever b)) (leaves_loop (Forever b))
       (stmt_size \<Gamma> ?n (Forever b)) (\<lambda>x. stmt_code \<Gamma> ?n (pos self1) x (Forever b)) (v # vs)"
    unfolding falls.simps by (rule outputsI) (use c(3-5) in \<open>simp_all add: Let_def del: sees.simps\<close>)
  then show "outputs self ps l (run_stmt (Forever b) f g self (refs_of l self ps)) (falls (Forever b)) (leaves_loop (Forever b))
       (stmt_size \<Gamma> ?n (Forever b)) (\<lambda>x. stmt_code \<Gamma> ?n (pos self) x (Forever b)) (v # vs)"
    using r(3) advances_read(3)[OF s1(3)] by simp
qed

section \<open>Conditional statements\<close>

lemma emits_filled:
  fixes x :: nat
  assumes "emits self self2 m [] els G" and "emits self2 self3 k ps qs H" and "pending self ps"
  defines "self4 \<equiv> self3\<lparr>code := patch x els (code self3)\<rparr>"
  shows "tc_fill_placeholders self3 (chain self3 els) (code_base self3 + of_nat x) = Ret self4"
    and "emits self self4 (m + k) ps qs (\<lambda>y. G x @ H y)"
proof -
  note d = emitsD[OF assms(1)] and e = emitsD[OF assms(2)]
  note f = fill_part[OF assms(1) e(1), where x = x, folded self4_def]
  show "tc_fill_placeholders self3 (chain self3 els) (code_base self3 + of_nat x) = Ret self4" by (rule f(1))
  have "\<forall>q \<in> set (qs @ ps). q + 4 \<le> pos self \<or> pos self2 \<le> q"
    using makes_holes[OF e(4)] assms(3) by (auto simp: pending_def)
  then have "pending self4 (qs @ ps)" using f(5) e(3) by blast
  moreover have "makes (code self4) (pos self) (m + k) (qs @ []) (\<lambda>y. G x @ H y)"
    by (rule makes_append[OF f(4)]) (use f(6)[OF e(4)] d(2) in simp)
  ultimately show "emits self self4 (m + k) ps qs (\<lambda>y. G x @ H y)"
    using f(2,3) d(2) e(2) by (simp add: emits_def)
qed

lemma next_if: "token_of t = TC_IF \<Longrightarrow> next_token self = token_of t \<Longrightarrow> tc_parse_token self TC_IF = tc_read_token self"
  by (simp add: tc_parse_token_def)

lemma parsed_choose:
  assumes "token_of t = TC_IF" and "or_phrase ts c" and "parses_block us b" and "block_parsed \<Gamma> us b"
  shows "stmt_parsed \<Gamma> (t # ts @ us) (Choose c b None)"
  unfolding stmt_parsed_def
proof (intro allI impI)
  fix f g self v vs l ps
  assume a: "sees self ((t # ts @ us) @ v # vs)" "token_of v \<noteq> TC_ELSE" "stmt_ok \<Gamma> l (Choose c b None)" "length (t # ts @ us) \<le> f"
    "length (t # ts @ us) \<le> g" "prepared \<Gamma> self (stmt_size \<Gamma> (frame_size self) (Choose c b None)) ps"
  let ?n = "frame_size self" and ?o = "or_size \<Gamma> (frame_size self) c" and ?b = "block_size \<Gamma> (frame_size self) b"
  have s0: "sees self (t # ts @ us @ v # vs)" using a(1) by simp
  obtain g' where g: "g = Suc g'" using a(5) by (cases g) auto
  have "us \<noteq> []" using block_first[OF assms(3)] by auto
  then have ok: "condition_ok \<Gamma> c" "block_ok \<Gamma> l b" "length ts < g'" "length us \<le> f" "length us \<le> g'"
    using a(3-5) g by (cases us; simp)+
  have pr: "prepared \<Gamma> self (?o + ?b) ps" using a(6) by simp
  obtain self1 self2 els thens self3 where
    h: "tc_read_token self = Ret self1" "tc_parse_boolean_expr g' self1 0 = Ret (chain self3 els, thens, self2)"
    "tc_fill_placeholders self2 thens (dst self2) = Ret self3" "sees self3 (us @ v # vs)" "prepared \<Gamma> self3 ?b ps"
    "prepared \<Gamma> self3 ?b els" "frame_size self3 = ?n" "refs_of l self3 ps = refs_of l self ps"
    "emits self self3 ?o [] els (\<lambda>x. or_code \<Gamma> ?n (pos self) (pos self + ?o) x c)"
    by (rule parse_head[OF s0 assms(2-4) ok(1,3) pr])
  note d3 = emitsD[OF h(9)]
  obtain self4 qs where b: "tc_parse_block_stmt (tc_parse_stmt f) g' self3 (refs_of l self3 ps) =
      Ret (end_state (falls_block b), refs_of l self4 (qs @ ps), self4)" "sees self4 (v # vs)" "next_register self4 = 0"
    "emits self3 self4 ?b ps qs (\<lambda>x. block_code \<Gamma> ?n (pos self3) x b)" "qs \<noteq> [] \<longleftrightarrow> leaves_loop_block b"
    by (rule block_parsedD[OF assms(4) h(4) ok(2,4,5) h(5,7)])
  note d4 = emitsD[OF b(4)]
  let ?self5 = "self4\<lparr>code := patch (pos self4) els (code self4)\<rparr>"
  note e = emits_filled[OF h(9) b(4) preparedD(5)[OF a(6)], where x = "pos self4"]
  have "next_token self4 \<noteq> TC_ELSE" using sees_token[OF b(2)] a(2) by simp
  then have "run_stmt (Choose c b None) f g self (refs_of l self ps) = Ret (end_state True, refs_of l ?self5 (qs @ ps), ?self5)"
    using h(1-3,8) b(1) e(1) g next_if[OF assms(1) sees_token[OF s0]] chain_later[OF d4(1), of els] chain_cong[of ?self5 self4]
    by (simp add: run_stmt_def dst_pos refs_of_def)
  then show "outputs self ps l (run_stmt (Choose c b None) f g self (refs_of l self ps)) (falls (Choose c b None)) (leaves_loop (Choose c b None))
       (stmt_size \<Gamma> ?n (Choose c b None)) (\<lambda>x. stmt_code \<Gamma> ?n (pos self) x (Choose c b None)) (v # vs)"
    unfolding falls.simps by (rule outputsI) (use b(2,3,5) e(2) d3(2) d4(2) in \<open>simp_all add: add.assoc del: sees.simps\<close>)
qed

end
