(* ===== verification/Tc_Else_Parse.thy ===== *)
theory Tc_Else_Parse
  imports Tc_Control_Parse
begin

text \<open>
  Conditional statements with an else branch, whose code has three families of open jumps: to the else
  branch, over it, and out of the loop around the statement. Then the induction over the grammar.
\<close>

section \<open>Over the else branch\<close>

text \<open>The jump over the else branch, if the end of the first branch is reachable.\<close>

lemma write_over:
  assumes "settled \<Gamma> self" and "next_register self = 0" and "room (if go then 5 else 0) self"
  obtains self' hs where "(if end_state go = END_REACHABLE then tc_write_goto_insn self 0 else Ret (0, self)) = Ret (chain self' hs, self')"
    "emits self self' (if go then 5 else 0) [] hs (\<lambda>x. if go then jump_to (pos self) x else [])" "next_register self' = 0"
    "sees self' = sees self"
proof (cases go)
  case False
  have "code_ok self" using assms(1) by (simp add: settled_def)
  from emits_refl[OF this pending_Nil] show thesis using that[of self "[]"] False assms(2) by (simp add: chain_def)
next
  case True
  have ok: "code_ok self" "length (code self) < 0x80000000" using assms(1) by (simp_all add: settled_def)
  let ?bs = "[0xe9] @ le_bytes 4 (distance (pos self + length [0xe9 :: u8]) [])"
  let ?self' = "emit ?bs self\<lparr>next_register := 0\<rparr>"
  have r: "room (length [0xe9 :: u8] + 4) self" using assms(3) True by simp
  have "chain self [] = 0" "?self' = emit ?bs self" using assms(2) by (simp_all add: chain_def)
  then have "tc_write_goto_insn self 0 = Ret (chain self [pos self + 1], ?self')"
    using write_goto[OF ok(1), of "[]"] r by (simp add: seq_written)
  moreover have "emits self ?self' 5 [] [pos self + 1] (\<lambda>x. jump_to (pos self) x)"
    using emits_placeholder[OF ok(1) pending_Nil ok(2) r, of ?self' 0] by (simp add: jump_to_def ac_simps)
  moreover have "sees ?self' = sees self" by (rule ext, rule sees_cong) (simp_all add: emit_def)
  ultimately show thesis using that[of ?self' "[pos self + 1]"] True chain_cong[of ?self' self] by simp
qed

text \<open>In front of the else branch: the jumps to it are filled, the jump over it is open.\<close>

lemma else_start:
  assumes "emits self self3 m [] els G" and "emits self3 self5 k ps qs H" and "emits self5 self6 j [] hs J" and "pending self ps"
  defines "self7 \<equiv> self6\<lparr>code := patch (pos self6) els (code self6)\<rparr>"
  shows "tc_fill_placeholders self6 (chain self6 els) (dst self6) = Ret self7"
    and "advances self self7" and "pos self7 = pos self + (m + k + j)" and "pending self7 (qs @ ps)" and "pending self7 hs"
    and "makes (code self7) (pos self) m [] (\<lambda>_. G (pos self + (m + k + j)))"
    and "makes (code self7) (pos self + m) k qs H" and "makes (code self7) (pos self + (m + k)) j hs J"
proof -
  note d = emitsD[OF assms(1)] and e = emitsD[OF assms(2)] and i = emitsD[OF assms(3)]
  have a: "advances self3 self6" by (rule advances_trans[OF e(1) i(1)])
  note f = fill_part[OF assms(1) a, where x = "pos self6", folded self7_def]
  have p: "pos self6 = pos self + (m + k + j)" using d(2) e(2) i(2) by simp
  have q: "\<forall>q \<in> set qs. pos self3 \<le> q" and h: "\<forall>q \<in> set hs. pos self5 \<le> q"
    using makes_holes[OF e(4)] makes_holes[OF i(4)] by blast+
  show "tc_fill_placeholders self6 (chain self6 els) (dst self6) = Ret self7" using f(1) by (simp add: dst_pos)
  show "advances self self7" "pos self7 = pos self + (m + k + j)" "makes (code self7) (pos self) m [] (\<lambda>_. G (pos self + (m + k + j)))"
    using f(2-4) p by simp_all
  show "pending self7 (qs @ ps)"
    using f(5)[OF pending_later[OF e(3) i(1)]] q assms(4) by (auto simp: pending_def)
  show "pending self7 hs" using f(5)[of hs] i(3) h e(2) by fastforce
  have "makes (code self6) (pos self3) k qs H" by (rule makes_later[OF e(4) i(1)]) (simp add: e(2))
  then show "makes (code self7) (pos self + m) k qs H" using f(6)[of "pos self3"] d(2) by simp
  show "makes (code self7) (pos self + (m + k)) j hs J" using f(6)[OF i(4)] d(2) e(2) by (simp add: add.assoc)
qed

text \<open>Behind it.\<close>

lemma else_end:
  assumes "advances self self7" and "pos self7 = pos self + (m + k + j)" and "pending self ps" and "pending self7 hs"
    and "makes (code self7) (pos self) m [] (\<lambda>_. C)" and "makes (code self7) (pos self + m) k qs H"
    and "makes (code self7) (pos self + (m + k)) j hs J" and "emits self7 self8 n (qs @ ps) rs D"
  defines "self9 \<equiv> self8\<lparr>code := patch (pos self8) hs (code self8)\<rparr>"
  shows "tc_fill_placeholders self8 (chain self8 hs) (dst self8) = Ret self9"
    and "emits self self9 (m + k + j + n) ps (rs @ qs) (\<lambda>x. ((C @ H x) @ J (pos self + (m + k + j + n))) @ D x)"
proof -
  note e = emitsD[OF assms(8)]
  have ok: "code_ok self8" using e(1) by (simp add: advances_def)
  have later: "makes (code self8) p i bs F" if "makes (code self7) p i bs F" "p + i \<le> pos self7" for p i bs F
    by (rule makes_later[OF that(1) e(1) that(2)])
  have g: "makes (code self8) (pos self + (m + k)) j hs J" by (rule later[OF assms(7)]) (simp add: assms(2))
  note f = fill_region[OF ok g pending_later[OF assms(4) e(1)], where x = "pos self8", folded self9_def]
  have p: "pos self8 = pos self + (m + k + j + n)" using e(2) assms(2) by simp
  show "tc_fill_placeholders self8 (chain self8 hs) (dst self8) = Ret self9" using f(1) by (simp add: dst_pos)
  have "\<forall>q \<in> set (rs @ qs @ ps). q + 4 \<le> pos self + (m + k) \<or> pos self + (m + k) + j \<le> q"
    using makes_holes[OF e(4)] makes_holes[OF assms(6)] assms(2,3) by (fastforce simp: pending_def)
  then have pd: "pending self9 ((rs @ qs) @ ps)" using f(5)[OF e(3)] by simp
  have m: "makes (code self9) (pos self) m [] (\<lambda>_. C)" "makes (code self9) (pos self + m) k qs H"
    "makes (code self9) (pos self + (m + k + j)) n rs D"
    using f(6) later[OF assms(5)] later[OF assms(6)] e(4) assms(2) by simp_all
  have "makes (code self9) (pos self) (m + k + j) ([] @ qs @ []) (\<lambda>x. (C @ H x) @ J (pos self8))"
    by (rule makes_append[OF makes_append[OF m(1,2)] f(3)])
  from makes_append[OF this] m(3)
  have "makes (code self9) (pos self) (m + k + j + n) (rs @ [] @ qs @ []) (\<lambda>x. ((C @ H x) @ J (pos self8)) @ D x)"
    by (simp add: add.assoc)
  then show "emits self self9 (m + k + j + n) ps (rs @ qs) (\<lambda>x. ((C @ H x) @ J (pos self + (m + k + j + n))) @ D x)"
    using f(2) f(4)[OF advances_trans[OF assms(1) e(1)]] p pd by (simp add: emits_def)
qed

section \<open>The else branch\<close>

text \<open>A block, or another conditional statement.\<close>

definition parse_else :: "nat \<Rightarrow> nat \<Rightarrow> stmt_parser" where
  "parse_else f g self r = (if next_token self = 123 then tc_parse_block_stmt (tc_parse_stmt f) g self r
     else tc_parse_if_stmt (tc_parse_stmt f) g self r)"

definition else_parsed :: "scope \<Rightarrow> lexeme list \<Rightarrow> stmt list \<Rightarrow> bool" where
  "else_parsed \<Gamma> ts d \<longleftrightarrow> (\<forall>f g self u us l ps. sees self (ts @ u # us) \<longrightarrow> token_of u \<noteq> TC_ELSE \<longrightarrow> block_ok \<Gamma> l d \<longrightarrow>
     length ts \<le> f \<longrightarrow> length ts \<le> g \<longrightarrow> prepared \<Gamma> self (block_size \<Gamma> (frame_size self) d) ps \<longrightarrow>
     outputs self ps l (parse_else f g self (refs_of l self ps)) (falls_block d) (leaves_loop_block d)
       (block_size \<Gamma> (frame_size self) d) (\<lambda>x. block_code \<Gamma> (frame_size self) (pos self) x d) (u # us))"

lemma else_block:
  assumes "parses_block ts d" and "block_parsed \<Gamma> ts d"
  shows "else_parsed \<Gamma> ts d"
  unfolding else_parsed_def
proof (intro allI impI)
  fix f g self u us l ps
  assume a: "sees self (ts @ u # us)" "block_ok \<Gamma> l d" "length ts \<le> f" "length ts \<le> g"
    "prepared \<Gamma> self (block_size \<Gamma> (frame_size self) d) ps"
  have "next_token self = 123" using first_token[OF a(1)] block_first[OF assms(1)] by auto
  then show "outputs self ps l (parse_else f g self (refs_of l self ps)) (falls_block d) (leaves_loop_block d)
       (block_size \<Gamma> (frame_size self) d) (\<lambda>x. block_code \<Gamma> (frame_size self) (pos self) x d) (u # us)"
    using assms(2)[unfolded block_parsed_def, rule_format, OF a] by (simp add: parse_else_def)
qed

lemma else_if:
  assumes "parses ts (Choose c b d)" and "stmt_parsed \<Gamma> ts (Choose c b d)"
  shows "else_parsed \<Gamma> ts [Choose c b d]"
  unfolding else_parsed_def
proof (intro allI impI)
  fix f g self u us l ps
  assume a: "sees self (ts @ u # us)" "token_of u \<noteq> TC_ELSE" "block_ok \<Gamma> l [Choose c b d]" "length ts \<le> f" "length ts \<le> g"
    "prepared \<Gamma> self (block_size \<Gamma> (frame_size self) [Choose c b d]) ps"
  have p: "stmt_ok \<Gamma> l (Choose c b d)" "prepared \<Gamma> self (stmt_size \<Gamma> (frame_size self) (Choose c b d)) ps" using a(3,6) by simp_all
  have "next_token self = TC_IF" using first_token[OF a(1)] parses_first[OF assms(1)] choose_first_token[OF assms(1)] by simp
  then show "outputs self ps l (parse_else f g self (refs_of l self ps)) (falls_block [Choose c b d]) (leaves_loop_block [Choose c b d])
       (block_size \<Gamma> (frame_size self) [Choose c b d]) (\<lambda>x. block_code \<Gamma> (frame_size self) (pos self) x [Choose c b d]) (u # us)"
    using assms(2)[unfolded stmt_parsed_def, rule_format, OF a(1,2) p(1) a(4,5) p(2)]
    by (simp add: parse_else_def run_stmt_def tokens)
qed

lemma else_parsedD:
  assumes "else_parsed \<Gamma> ts d" and "sees self (ts @ u # us)" and "token_of u \<noteq> TC_ELSE" and "block_ok \<Gamma> l d"
    and "length ts \<le> f" and "length ts \<le> g" and "prepared \<Gamma> self (block_size \<Gamma> n d) ps" and "frame_size self = n"
  obtains self' qs where "parse_else f g self (refs_of l self ps) = Ret (end_state (falls_block d), refs_of l self' (qs @ ps), self')"
    "sees self' (u # us)" "next_register self' = 0"
    "emits self self' (block_size \<Gamma> n d) ps qs (\<lambda>x. block_code \<Gamma> n (pos self) x d)" "qs \<noteq> [] \<longleftrightarrow> leaves_loop_block d"
  using assms(1)[unfolded else_parsed_def, rule_format, OF assms(2-6)] assms(7,8) unfolding outputs_def by blast

lemma end_state_or: "end_state a OR end_state b = end_state (a \<or> b)"
  by (simp add: end_state_def END_REACHABLE_def END_UNREACHABLE_def)

lemma parse_choose_else:
  assumes "next_token self = TC_IF" and "tc_read_token self = Ret self1" and "tc_parse_boolean_expr g self1 0 = Ret (els, thens, self2)"
    and "tc_fill_placeholders self2 thens (dst self2) = Ret self3"
    and "tc_parse_block_stmt (tc_parse_stmt f) g self3 r = Ret (end_state a, r1, self4)" and "next_token self4 = TC_ELSE"
    and "tc_read_token self4 = Ret self5"
    and "(if end_state a = END_REACHABLE then tc_write_goto_insn self5 0 else Ret (0, self5)) = Ret (ends, self6)"
    and "tc_fill_placeholders self6 els (dst self6) = Ret self7" and "parse_else f g self7 r1 = Ret (end_state b, r2, self8)"
    and "tc_fill_placeholders self8 ends (dst self8) = Ret self9"
  shows "tc_parse_if_stmt (tc_parse_stmt f) (Suc g) self r = Ret (end_state (a \<or> b), r2, self9)"
  using assms by (simp add: tc_parse_token_def parse_else_def end_state_or)

lemma parsed_choose_else:
  assumes "token_of t = TC_IF" and "or_phrase ts c" and "parses_block us b" and "block_parsed \<Gamma> us b"
    and "token_of e = TC_ELSE" and "ws \<noteq> []" and "else_parsed \<Gamma> ws d"
  shows "stmt_parsed \<Gamma> (t # ts @ us @ e # ws) (Choose c b (Some d))"
  unfolding stmt_parsed_def
proof (intro allI impI)
  fix f g self v vs l ps
  assume a: "sees self ((t # ts @ us @ e # ws) @ v # vs)" "token_of v \<noteq> TC_ELSE" "stmt_ok \<Gamma> l (Choose c b (Some d))"
    "length (t # ts @ us @ e # ws) \<le> f" "length (t # ts @ us @ e # ws) \<le> g"
    "prepared \<Gamma> self (stmt_size \<Gamma> (frame_size self) (Choose c b (Some d))) ps"
  let ?n = "frame_size self" and ?o = "or_size \<Gamma> (frame_size self) c" and ?b = "block_size \<Gamma> (frame_size self) b"
    and ?d = "block_size \<Gamma> (frame_size self) d" and ?j = "if falls_block b then 5 else 0 :: nat"
  have s0: "sees self (t # ts @ us @ e # ws @ v # vs)" using a(1) by simp
  obtain g' where g: "g = Suc g'" using a(5) by (cases g) auto
  have ok: "condition_ok \<Gamma> c" "block_ok \<Gamma> l b" "block_ok \<Gamma> l d" "length ts < g'" "length us \<le> f" "length us \<le> g'"
    "length ws \<le> f" "length ws \<le> g'" using a(3-5) g by simp_all
  have pr: "prepared \<Gamma> self (?o + (?b + (?j + ?d))) ps" using a(6) by (simp add: ac_simps)
  obtain self1 self2 els thens self3 where
    h: "tc_read_token self = Ret self1" "tc_parse_boolean_expr g' self1 0 = Ret (chain self3 els, thens, self2)"
    "tc_fill_placeholders self2 thens (dst self2) = Ret self3" "sees self3 (us @ e # ws @ v # vs)" "prepared \<Gamma> self3 (?b + (?j + ?d)) ps"
    "prepared \<Gamma> self3 (?b + (?j + ?d)) els" "frame_size self3 = ?n" "refs_of l self3 ps = refs_of l self ps"
    "emits self self3 ?o [] els (\<lambda>x. or_code \<Gamma> ?n (pos self) (pos self + ?o) x c)"
    by (rule parse_head[OF s0 assms(2-4) ok(1,4) pr])
  obtain self4 qs where b: "tc_parse_block_stmt (tc_parse_stmt f) g' self3 (refs_of l self3 ps) =
      Ret (end_state (falls_block b), refs_of l self4 (qs @ ps), self4)" "sees self4 (e # ws @ v # vs)" "next_register self4 = 0"
    "emits self3 self4 ?b ps qs (\<lambda>x. block_code \<Gamma> ?n (pos self3) x b)" "qs \<noteq> [] \<longleftrightarrow> leaves_loop_block b"
    by (rule block_parsedD[OF assms(4) h(4) ok(2,5,6) prepared_less[OF h(5)] h(7)])
  obtain w ws' where w: "ws @ v # vs = w # ws'" by (cases ws) auto
  obtain self5 where s5: "tc_read_token self4 = Ret self5" "sees self5 (ws @ v # vs)" "off_scanner self5 = off_scanner self4"
    using sees_cons[of self4 e "[]" w ws'] b(2) w by auto
  note e5 = read_after[OF b(4) s5(3)]
  have p5: "prepared \<Gamma> self5 (?j + ?d) (qs @ ps)" by (rule prepared_emits[OF h(5) e5(1)]) (use b(3) e5(2) in simp)
  note q5 = preparedD[OF p5]
  have "room ?j self5" using q5(4) by (simp add: room_def)
  then obtain self6 hs where
    s6: "(if end_state (falls_block b) = END_REACHABLE then tc_write_goto_insn self5 0 else Ret (0, self5)) = Ret (chain self6 hs, self6)"
    "emits self5 self6 ?j [] hs (\<lambda>x. if falls_block b then jump_to (pos self5) x else [])" "next_register self6 = 0"
    "sees self6 = sees self5" by (rule write_over[OF q5(1,3)])
  let ?self7 = "self6\<lparr>code := patch (pos self6) els (code self6)\<rparr>"
  note st = else_start[OF h(9) e5(1) s6(2) preparedD(5)[OF pr]]
  have fr: "frame_size ?self7 = ?n" by (rule advances_eqD(7)[OF st(2)])
  have p7: "prepared \<Gamma> ?self7 ?d (qs @ ps)"
    using settled_advances[OF preparedD(1)[OF pr] st(2)] returns_advances[OF preparedD(2)[OF pr] st(2)]
      s6(3) st(3,4) room_later[of "?o + ?b + ?j" ?d self ?self7] preparedD(4)[OF pr] st(2)
    by (simp add: prepared_def add.assoc)
  have s7: "sees ?self7 (ws @ v # vs)" using s5(2) s6(4) by (simp del: sees.simps)
  obtain self8 rs where d: "parse_else f g' ?self7 (refs_of l ?self7 (qs @ ps)) =
      Ret (end_state (falls_block d), refs_of l self8 (rs @ qs @ ps), self8)" "sees self8 (v # vs)" "next_register self8 = 0"
    "emits ?self7 self8 ?d (qs @ ps) rs (\<lambda>x. block_code \<Gamma> ?n (pos ?self7) x d)" "rs \<noteq> [] \<longleftrightarrow> leaves_loop_block d"
    by (rule else_parsedD[OF assms(7) s7 a(2) ok(3,7,8) p7 fr])
  let ?self9 = "self8\<lparr>code := patch (pos self8) hs (code self8)\<rparr>"
  note en = else_end[OF st(2,3) preparedD(5)[OF pr] st(5-8) d(4)]
  have nt: "next_token self = TC_IF" "next_token self4 = TC_ELSE" using sees_token[OF s0] sees_token[OF b(2)] assms(1,5) by simp_all
  show "outputs self ps l (run_stmt (Choose c b (Some d)) f g self (refs_of l self ps)) (falls (Choose c b (Some d)))
      (leaves_loop (Choose c b (Some d))) (stmt_size \<Gamma> ?n (Choose c b (Some d)))
      (\<lambda>x. stmt_code \<Gamma> ?n (pos self) x (Choose c b (Some d))) (v # vs)"
    unfolding falls.simps
  proof (rule outputsI)
    show "run_stmt (Choose c b (Some d)) f g self (refs_of l self ps) =
        Ret (end_state (falls_block b \<or> falls_block d), refs_of l ?self9 ((rs @ qs) @ ps), ?self9)"
      unfolding run_stmt_def g stmt.case
    proof (rule parse_choose_else[OF nt(1) h(1-3) _ nt(2) s5(1) s6(1) _ _ _])
      have "advances self self4" by (rule advances_trans[OF emitsD(1)[OF h(9)] emitsD(1)[OF b(4)]])
      then show "tc_parse_block_stmt (tc_parse_stmt f) g' self3 (refs_of l self ps) =
          Ret (end_state (falls_block b), refs_of l ?self7 (qs @ ps), self4)"
        using b(1) h(8) refs_later[OF st(2), of l "qs @ ps"] refs_later[of self self4 l "qs @ ps"] by simp
      have "advances self3 self6" by (rule advances_trans[OF emitsD(1)[OF e5(1)] emitsD(1)[OF s6(2)]])
      then show "tc_fill_placeholders self6 (chain self3 els) (dst self6) = Ret ?self7"
        using st(1) chain_later[of self3 self6 els] by simp
      have "refs_of l ?self9 ((rs @ qs) @ ps) = refs_of l self8 (rs @ qs @ ps)"
        using chain_cong[of ?self9 self8] by (simp add: refs_of_def)
      then show "parse_else f g' ?self7 (refs_of l ?self7 (qs @ ps)) =
          Ret (end_state (falls_block d), refs_of l ?self9 ((rs @ qs) @ ps), self8)" using d(1) by simp
      show "tc_fill_placeholders self8 (chain self6 hs) (dst self8) = Ret ?self9"
        using en(1) chain_later[OF emitsD(1)[OF d(4)], of hs] chain_cong[of ?self7 self6] by simp
    qed
    show "emits self ?self9 (stmt_size \<Gamma> ?n (Choose c b (Some d))) ps (rs @ qs)
        (\<lambda>x. stmt_code \<Gamma> ?n (pos self) x (Choose c b (Some d)))"
      using en(2) emitsD(2)[OF h(9)] emitsD(2)[OF e5(1)] st(3) by (cases "falls_block b") (simp_all add: Let_def add.assoc)
  qed (use b(5) d(2,3,5) in \<open>auto simp del: sees.simps\<close>)
qed

section \<open>The parser refines the grammar\<close>

lemma grammar_parsed:
  shows parses_parsed: "parses ts s \<Longrightarrow> stmt_parsed \<Gamma> ts s"
    and parses_block_parsed: "parses_block us b \<Longrightarrow> block_parsed \<Gamma> us b"
    and parses_all_parsed: "parses_all vs ss \<Longrightarrow> all_parsed \<Gamma> vs ss"
proof (induction rule: parses_parses_block_parses_all.inducts)
  case (choose_else k ts c us b j vs d)
  moreover have "vs \<noteq> []" using block_first[of vs d] choose_else by auto
  ultimately show ?case by (intro parsed_choose_else else_block)
next
  case (choose_again k ts c us b j vs c' b' d')
  moreover have "vs \<noteq> []" using parses_first choose_again by blast
  ultimately show ?case by (intro parsed_choose_else else_if)
qed (blast intro: parsed_assign parsed_evaluate parsed_give parsed_leave parsed_choose parsed_repeat parsed_forever
      parsed_braces parsed_none parsed_one_more)+

text \<open>For a statement outside of a loop.\<close>

lemma leaves_only_in_loop: "stmt_ok \<Gamma> l s \<Longrightarrow> leaves_loop s \<Longrightarrow> l" "block_ok \<Gamma> l ss \<Longrightarrow> leaves_loop_block ss \<Longrightarrow> l"
  by (induction s and ss rule: leaves_loop_leaves_loop_block.induct) auto

lemma stmt_parser:
  assumes "parses ts s" and "stmt_ok \<Gamma> False s" and "sees self (ts @ u # us)" and "token_of u \<noteq> TC_ELSE" and "length ts < f"
    and "prepared \<Gamma> self (stmt_size \<Gamma> (frame_size self) s) []"
  obtains self' where "tc_parse_stmt f self None = Ret (end_state (falls s), None, self')" "sees self' (u # us)"
    "next_register self' = 0" "emits self self' (stmt_size \<Gamma> (frame_size self) s) [] [] (\<lambda>x. stmt_code \<Gamma> (frame_size self) (pos self) x s)"
proof -
  have "outputs self [] False (tc_parse_stmt f self (refs_of False self [])) (falls s) (leaves_loop s)
       (stmt_size \<Gamma> (frame_size self) s) (\<lambda>x. stmt_code \<Gamma> (frame_size self) (pos self) x s) (u # us)"
    by (rule stmt_parsedD[OF parses_parsed[OF assms(1)] assms(1,3,4,2,5,6)])
  then show thesis using that leaves_only_in_loop(1)[OF assms(2)] by (auto simp: outputs_def refs_of_def)
qed

end
