(* ===== verification/Tc_Stmt_Code.thy ===== *)
theory Tc_Stmt_Code
  imports Tc_Stmt_Spec
begin

text \<open>
  The code of statements does what the statements mean: a processor that runs it in an image reaches
  the position, the values of the variables and the result that the outcome of the statements says.
\<close>

section \<open>Jumps in the image\<close>

lemma fits32_difference:
  assumes "a < 0x80000000" and "b < 0x80000000"
  shows "fits32 (of_nat a - of_nat b)"
proof (cases "b \<le> a")
  case True
  then have "(of_nat a - of_nat b :: u64) = of_nat (a - b)" by (simp add: of_nat_diff)
  moreover have "(of_nat (a - b) :: u64) < 0x80000000" using assms by (simp add: less_u64 unat_of_nat_u64)
  ultimately show ?thesis by (simp add: fits32_small)
next
  case False
  define d where "d = b - a"
  have d: "0 < d" "d < 0x80000000" using False assms by (simp_all add: d_def)
  have "(of_nat a - of_nat b :: u64) = - of_nat d" using False by (simp add: d_def of_nat_diff)
  moreover have "fits32 (- of_nat d)"
  proof -
    have u: "unat (of_nat d - 1 :: u64) = d - 1" using d by (simp add: unat_sub_u64 le_u64 unat_of_nat_u64)
    then have "(of_nat d - 1 :: u64) < 0x80000000" using d by (simp add: less_u64)
    then have f: "fits32 (of_nat d - 1)" by (rule fits32_small)
    have n: "(- of_nat d :: u64) = NOT (of_nat d - 1)" by (simp add: not_eq_complement)
    have "scast (ucast (NOT x) :: u32) = NOT (scast (ucast x :: u32) :: u64)" for x :: u64
      by (rule bit_word_eqI) (auto simp: bit_simps)
    then show ?thesis unfolding n using f by (simp add: fits32_def)
  qed
  ultimately show ?thesis by simp
qed

lemma reaches_jump_to:
  assumes "code_at C p (jump_to p q)" and "q \<le> length C" and "length C < 0x80000000" and "rip c = B + of_nat p"
  shows "reaches C B c (at_rip (B + of_nat q) c)"
proof -
  let ?d = "of_nat q - of_nat (p + 5) :: u64"
  have "p + 5 \<le> length C" using assms(1) by (simp add: code_at_def)
  then have "fits32 ?d" using assms(2,3) by (intro fits32_difference) simp_all
  then have d: "decode (jump_to p q) = Some (Jump ?d, [])" unfolding jump_to_def by (rule jump_decodes)
  have "cpu_step C B c = Some (at_rip (B + of_nat (p + 5) + ?d) c)"
    using code_at_step(1)[OF assms(1) d assms(4)] assms(3) by simp
  then show ?thesis using reaches_step by fastforce
qed

lemma reaches_jump_if:
  assumes "code_at C p (jump_if t p q)" and "q \<le> length C" and "length C < 0x80000000" and "rip c = B + of_nat p"
    and "t \<in> set comparison_tokens"
  shows "\<exists>c'. reaches C B c c' \<and> regs c' = regs c \<and> mem c' = mem c \<and>
    rip c' = B + of_nat (if comparison t (regs c 8) (regs c 9) then q else p + 9)"
proof -
  let ?d = "of_nat q - of_nat (p + 9) :: u64"
  let ?j = "0x0f # JUMP_INSTRUCTIONS ! unat (t - TC_LT) # le_bytes 4 ?d"
  have "p + 9 \<le> length C" using assms(1) by (simp add: code_at_def)
  then have f: "fits32 ?d" using assms(2,3) by (intro fits32_difference) simp_all
  have d1: "decode (jump_if t p q) = Some (Alu True Cmp (Reg 8) (Reg 9), ?j)"
    using jump_prefix assms(5) unfolding list_all_iff jump_if_def by blast
  have "disp32 (le_bytes 4 ?d) = Some (?d, [])" using disp32_bytes[OF f, of "[]"] by simp
  moreover have "decode ?j = map_option (\<lambda>(d, bs). (JumpIf (jump_condition t) d, bs)) (disp32 (le_bytes 4 ?d))"
    using jump_prefix assms(5) unfolding list_all_iff by blast
  ultimately have d2: "decode ?j = Some (JumpIf (jump_condition t) ?d, [])" by simp
  have len: "length C < 18446744073709551616" using assms(3) by simp
  let ?c1 = "at_rip (B + of_nat (p + 3)) c\<lparr>carry := regs c 8 < regs c 9, zero := regs c 8 = regs c 9\<rparr>"
  have s1: "cpu_step C B c = Some ?c1" and at: "code_at C (p + 3) ?j"
    using code_at_step[OF assms(1) d1 assms(4) len] by (simp_all add: exec_alu_def)
  have h: "holds (jump_condition t) (c\<lparr>carry := regs c 8 < regs c 9, zero := regs c 8 = regs c 9\<rparr>) =
      comparison t (regs c 8) (regs c 9)"
    using assms(5) by (auto simp: comparison_tokens_def jump_condition_def comparison_def TC_LT_def)
  have r1: "rip ?c1 = B + of_nat (p + 3)" by simp
  have "cpu_step C B ?c1 = Some (if comparison t (regs c 8) (regs c 9) then at_rip (B + of_nat q) ?c1
      else at_rip (B + of_nat (p + 9)) ?c1)"
    using code_at_step(1)[OF at d2 r1 len] by (simp add: h holds_rip add.assoc)
  then have "reaches C B c (if comparison t (regs c 8) (regs c 9) then at_rip (B + of_nat q) ?c1
      else at_rip (B + of_nat (p + 9)) ?c1)"
    using reaches_trans[OF reaches_step[OF s1] reaches_step] by blast
  then show ?thesis by (rule exI[of _ "if _ then _ else _", OF conjI]) simp
qed

section \<open>The frame\<close>

text \<open>The values of the variables, and the return address behind them.\<close>

definition frame :: "scope \<Rightarrow> u64 \<Rightarrow> u64 \<Rightarrow> (u64 \<Rightarrow> u64) \<Rightarrow> cpu \<Rightarrow> bool" where
  "frame \<Gamma> n ra f c \<longleftrightarrow> in_frame \<Gamma> n f c \<and> mem c (regs c 4 + n * 8) = ra"

definition slots_ok :: "scope \<Rightarrow> u64 \<Rightarrow> bool" where
  "slots_ok \<Gamma> n \<longleftrightarrow> n < 0x10000000 \<and> (\<forall>w v. \<Gamma> w = Some (Slot v) \<longrightarrow> v \<noteq> 0 \<and> n - v < 0x10000000)"

text \<open>Memory outside the variables is the same.\<close>

definition untouched :: "scope \<Rightarrow> u64 \<Rightarrow> cpu \<Rightarrow> cpu \<Rightarrow> bool" where
  "untouched \<Gamma> n c c' \<longleftrightarrow>
     (\<forall>a. (\<forall>w v. \<Gamma> w = Some (Slot v) \<longrightarrow> a \<noteq> regs c 4 + (n - v) * 8) \<longrightarrow> mem c' a = mem c a)"

lemma slots_near: "slots_ok \<Gamma> n \<Longrightarrow> near \<Gamma> n"
  by (simp add: slots_ok_def near_def)

lemma frame_same: "frame \<Gamma> n ra f c \<Longrightarrow> regs c' 4 = regs c 4 \<Longrightarrow> mem c' = mem c \<Longrightarrow> frame \<Gamma> n ra f c'"
  by (simp add: frame_def in_frame_def)

lemma untouched_same: "mem c' = mem c \<Longrightarrow> untouched \<Gamma> n c c'"
  by (simp add: untouched_def)

lemma untouched_trans:
  "untouched \<Gamma> n c c1 \<Longrightarrow> regs c1 4 = regs c 4 \<Longrightarrow> untouched \<Gamma> n c1 c2 \<Longrightarrow> untouched \<Gamma> n c c2"
  by (simp add: untouched_def)

lemma offsets_distinct:
  assumes "(d :: u64) < 0x10000000" and "e < 0x10000000" and "a + d * 8 = a + e * 8"
  shows "d = e"
proof -
  have "unat (d * 8) = unat d * 8" "unat (e * 8) = unat e * 8"
    using assms(1,2) by (simp_all add: unat_mult_u64 less_u64)
  moreover have "d * 8 = e * 8" using assms(3) by simp
  ultimately show ?thesis by (simp add: eq_u64)
qed

text \<open>Storing a variable changes this variable only.\<close>

lemma frame_store:
  assumes "slots_ok \<Gamma> n" and "\<Gamma> x = Some (Slot k)" and "frame \<Gamma> n ra f c"
    and "regs c' 4 = regs c 4" and "mem c' = (mem c)(regs c 4 + (n - k) * 8 := v)"
  shows "frame \<Gamma> n ra (f(k := v)) c'" and "untouched \<Gamma> n c c'"
proof -
  have d: "n - k < 0x10000000" "k \<noteq> 0" "n < 0x10000000" using assms(1,2) by (auto simp: slots_ok_def)
  have "mem c' (regs c 4 + (n - j) * 8) = (f(k := v)) j" if "\<Gamma> w = Some (Slot j)" for w j
  proof (cases "j = k")
    case False
    have "n - j < 0x10000000" using assms(1) that by (auto simp: slots_ok_def)
    then have "regs c 4 + (n - j) * 8 \<noteq> regs c 4 + (n - k) * 8"
      using offsets_distinct[of "n - j" "n - k" "regs c 4"] d(1) False by auto
    then show ?thesis using assms(3,5) that False by (auto simp: frame_def in_frame_def)
  qed (simp add: assms(5))
  moreover have "regs c 4 + n * 8 \<noteq> regs c 4 + (n - k) * 8"
    using offsets_distinct[OF d(3,1), of "regs c 4"] d(2) by auto
  ultimately show "frame \<Gamma> n ra (f(k := v)) c'" using assms(3-5) by (auto simp: frame_def in_frame_def)
  show "untouched \<Gamma> n c c'" using assms(2,5) by (auto simp: untouched_def)
qed

section \<open>Expressions and conditions\<close>

text \<open>Only registers other than the stack pointer have changed.\<close>

definition calm :: "cpu \<Rightarrow> cpu \<Rightarrow> bool" where
  "calm c c' \<longleftrightarrow> mem c' = mem c \<and> regs c' 4 = regs c 4"

lemma calm_trans: "calm c c1 \<Longrightarrow> calm c1 c2 \<Longrightarrow> calm c c2"
  by (simp add: calm_def)

lemma calm_frame: "frame \<Gamma> n ra f c \<Longrightarrow> calm c c' \<Longrightarrow> frame \<Gamma> n ra f c'"
  by (auto simp: calm_def intro: frame_same)

lemma calm_untouched: "calm c c' \<Longrightarrow> untouched \<Gamma> n c c'"
  by (simp add: calm_def untouched_same)

lemma reaches_expr:
  assumes "slots_ok \<Gamma> n" and "expr_ok \<Gamma> z e" and "code_at C p (expr_code \<Gamma> n z e)" and "rip c = B + of_nat p"
    and "length C < 0x80000000" and "frame \<Gamma> n ra f c" and "eval \<Gamma> f e = Some v"
  obtains c' where "reaches C B c c'" "rip c' = B + of_nat (p + length (expr_code \<Gamma> n z e))" "calm c c'"
    "regs c' (8 + z) = v" "\<forall>k. 3 \<le> k \<and> k < 8 + z \<longrightarrow> regs c' k = regs c k"
proof -
  obtain "is" where i: "assembles (expr_code \<Gamma> n z e) is" "leaves is z v c"
    using expr_code_correct[OF slots_near[OF assms(1)], of e z f] assms(2,6,7)
    by (auto simp: expr_ok_def frame_def)
  obtain s' where s: "exec_all is c = Some s'" "regs s' (8 + z) = v" "mem s' = mem c"
    "\<forall>k. 3 \<le> k \<and> k < 8 + z \<longrightarrow> regs s' k = regs c k" using i(2) by (auto simp: leaves_def)
  have len: "length C < 18446744073709551616" using assms(5) by simp
  from reaches_code[OF i(1) assms(3,4) len s(1)] show thesis
    by (rule that) (use s in \<open>auto simp: calm_def\<close>)
qed

lemma reaches_test:
  assumes "slots_ok \<Gamma> n" and "test_ok \<Gamma> c" and "code_at C p (test_code \<Gamma> n c)" and "rip s = B + of_nat p"
    and "length C < 0x80000000" and "frame \<Gamma> n ra f s" and "test_holds \<Gamma> f c = Some r"
  obtains s' where "reaches C B s s'" "rip s' = B + of_nat (p + length (test_code \<Gamma> n c))" "calm s s'"
    "comparison (fst c) (regs s' 8) (regs s' 9) = r"
proof -
  obtain t a b where c: "c = (t, a, b)" by (cases c)
  obtain x y where xy: "eval \<Gamma> f a = Some x" "eval \<Gamma> f b = Some y" "r = comparison t x y"
    using assms(7) c by (auto simp: bind_eq_Some_conv)
  have ok: "expr_ok \<Gamma> 0 a" "expr_ok \<Gamma> 1 b" using assms(2) c by simp_all
  have at: "code_at C p (expr_code \<Gamma> n 0 a)" "code_at C (p + length (expr_code \<Gamma> n 0 a)) (expr_code \<Gamma> n 1 b)"
    using assms(3) c by (simp_all add: code_at_append)
  obtain s1 where s1: "reaches C B s s1" "rip s1 = B + of_nat (p + length (expr_code \<Gamma> n 0 a))" "calm s s1" "regs s1 8 = x"
    using reaches_expr[OF assms(1) ok(1) at(1) assms(4,5,6) xy(1)] by auto
  obtain s2 where s2: "reaches C B s1 s2" "calm s1 s2" "regs s2 9 = y" "\<forall>k. 3 \<le> k \<and> k < 9 \<longrightarrow> regs s2 k = regs s1 k"
    "rip s2 = B + of_nat (p + length (expr_code \<Gamma> n 0 a) + length (expr_code \<Gamma> n 1 b))"
    using reaches_expr[OF assms(1) ok(2) at(2) s1(2) assms(5) calm_frame[OF assms(6) s1(3)] xy(2)] by auto
  show thesis
  proof (rule that[of s2])
    show "reaches C B s s2" by (rule reaches_trans[OF s1(1) s2(1)])
    show "calm s s2" by (rule calm_trans[OF s1(3) s2(2)])
    show "rip s2 = B + of_nat (p + length (test_code \<Gamma> n c))" using s2(5) c by (simp add: add.assoc)
    show "comparison (fst c) (regs s2 8) (regs s2 9) = r" using s1(4) s2(3,4) xy(3) c by simp
  qed
qed

lemma reaches_and:
  "d \<noteq> [] \<Longrightarrow> list_all (test_ok \<Gamma>) d \<Longrightarrow> code_at C p (and_code \<Gamma> n p q d) \<Longrightarrow> rip s = B + of_nat p \<Longrightarrow>
   frame \<Gamma> n ra f s \<Longrightarrow> all_hold \<Gamma> f d = Some r \<Longrightarrow> slots_ok \<Gamma> n \<Longrightarrow> length C < 0x80000000 \<Longrightarrow> q \<le> length C \<Longrightarrow>
   \<exists>s'. reaches C B s s' \<and> calm s s' \<and>
     (rip s' = B + of_nat (p + and_size \<Gamma> n d) \<and> comparison (fst (last d)) (regs s' 8) (regs s' 9) = r \<or>
      \<not> r \<and> rip s' = B + of_nat q)"
proof (induction \<Gamma> n p q d arbitrary: s rule: and_code.induct)
  case (2 \<Gamma> n p q c)
  have t: "test_holds \<Gamma> f c = Some r" using "2.prems"(6) by (auto simp: bind_eq_Some_conv split: if_splits)
  have "test_ok \<Gamma> c" "code_at C p (test_code \<Gamma> n c)" using "2.prems"(2,3) by simp_all
  then show ?case using reaches_test[OF "2.prems"(7) _ _ "2.prems"(4,8,5) t] by auto
next
  case (3 \<Gamma> n p q c d cs)
  let ?l = "length (test_code \<Gamma> n c)"
  obtain r1 where r1: "test_holds \<Gamma> f c = Some r1" "if r1 then all_hold \<Gamma> f (d # cs) = Some r else r = False"
    using "3.prems"(6) by (auto simp: bind_eq_Some_conv simp del: all_hold.simps(2)[of _ _ d] split: if_splits)
  have at: "code_at C p (test_code \<Gamma> n c)" "code_at C (p + ?l) (jump_if (negated (fst c)) (p + ?l) q)"
    "code_at C (p + ?l + 9) (and_code \<Gamma> n (p + ?l + 9) q (d # cs))"
    using "3.prems"(3) by (simp_all add: code_at_append)
  have ok: "test_ok \<Gamma> c" "list_all (test_ok \<Gamma>) (d # cs)" "fst c \<in> set comparison_tokens"
    using "3.prems"(2) by (cases c; simp)+
  obtain s1 where s1: "reaches C B s s1" "rip s1 = B + of_nat (p + ?l)" "calm s s1"
    "comparison (fst c) (regs s1 8) (regs s1 9) = r1"
    using reaches_test[OF "3.prems"(7) ok(1) at(1) "3.prems"(4,8,5) r1(1)] by blast
  have neg: "negated (fst c) \<in> set comparison_tokens"
    "comparison (negated (fst c)) (regs s1 8) (regs s1 9) = (\<not> r1)"
    using not_comparison[OF ok(3)] s1(4) by (simp_all add: negated_def)
  obtain s2 where s2: "reaches C B s1 s2" "regs s2 = regs s1" "mem s2 = mem s1"
    "rip s2 = B + of_nat (if r1 then p + ?l + 9 else q)"
    using reaches_jump_if[OF at(2) "3.prems"(9,8) s1(2) neg(1)] neg(2) by auto
  have c2: "calm s s2" using s1(3) s2(2,3) by (simp add: calm_def)
  have r2: "reaches C B s s2" by (rule reaches_trans[OF s1(1) s2(1)])
  show ?case
  proof (cases r1)
    case True
    then have s2r: "rip s2 = B + of_nat (p + ?l + 9)" and h: "all_hold \<Gamma> f (d # cs) = Some r" using s2(4) r1(2) by simp_all
    obtain s3 where s3: "reaches C B s2 s3" "calm s2 s3"
      "rip s3 = B + of_nat (p + ?l + 9 + and_size \<Gamma> n (d # cs)) \<and> comparison (fst (last (d # cs))) (regs s3 8) (regs s3 9) = r \<or>
       \<not> r \<and> rip s3 = B + of_nat q"
      using "3.IH"[OF _ ok(2) at(3) s2r calm_frame[OF "3.prems"(5) c2] h "3.prems"(7-9)] by blast
    then show ?thesis using reaches_trans[OF r2 s3(1)] calm_trans[OF c2 s3(2)]
      by (intro exI[of _ s3]) (simp add: add.assoc)
  next
    case False
    then show ?thesis using r2 c2 s2(4) r1(2) by auto
  qed
qed simp

lemma reaches_or:
  "c \<noteq> [] \<Longrightarrow> list_all (\<lambda>d. d \<noteq> [] \<and> list_all (test_ok \<Gamma>) d) c \<Longrightarrow> code_at C p (or_code \<Gamma> n p t q c) \<Longrightarrow>
   t = p + or_size \<Gamma> n c \<Longrightarrow> rip s = B + of_nat p \<Longrightarrow> frame \<Gamma> n ra f s \<Longrightarrow> some_hold \<Gamma> f c = Some r \<Longrightarrow>
   slots_ok \<Gamma> n \<Longrightarrow> length C < 0x80000000 \<Longrightarrow> q \<le> length C \<Longrightarrow>
   \<exists>s'. reaches C B s s' \<and> calm s s' \<and> rip s' = B + of_nat (if r then t else q)"
proof (induction \<Gamma> n p t q c arbitrary: s rule: or_code.induct)
  case (2 \<Gamma> n p t q d)
  have h: "all_hold \<Gamma> f d = Some r" using "2.prems"(7) by (auto simp: bind_eq_Some_conv split: if_splits)
  have at: "code_at C p (and_code \<Gamma> n p q d)"
    "code_at C (p + and_size \<Gamma> n d) (jump_if (negated (fst (last d))) (p + and_size \<Gamma> n d) q)"
    using "2.prems"(3) by (simp_all add: code_at_append)
  have ok: "d \<noteq> []" "list_all (test_ok \<Gamma>) d" using "2.prems"(2) by simp_all
  then have "test_ok \<Gamma> (last d)" by (simp add: list_all_iff)
  then have tok: "fst (last d) \<in> set comparison_tokens" by (cases "last d") simp
  obtain s1 where s1: "reaches C B s s1" "calm s s1"
    "rip s1 = B + of_nat (p + and_size \<Gamma> n d) \<and> comparison (fst (last d)) (regs s1 8) (regs s1 9) = r \<or>
     \<not> r \<and> rip s1 = B + of_nat q"
    using reaches_and[OF ok at(1) "2.prems"(5,6) h "2.prems"(8-10)] by blast
  from s1(3) show ?case
  proof
    assume a: "rip s1 = B + of_nat (p + and_size \<Gamma> n d) \<and> comparison (fst (last d)) (regs s1 8) (regs s1 9) = r"
    then have rp: "rip s1 = B + of_nat (p + and_size \<Gamma> n d)" by blast
    have neg: "negated (fst (last d)) \<in> set comparison_tokens"
      "comparison (negated (fst (last d))) (regs s1 8) (regs s1 9) = (\<not> r)"
      using not_comparison[OF tok] a by (simp_all add: negated_def)
    obtain s2 where s2: "reaches C B s1 s2" "regs s2 = regs s1" "mem s2 = mem s1"
      "rip s2 = B + of_nat (if r then p + and_size \<Gamma> n d + 9 else q)"
      using reaches_jump_if[OF at(2) "2.prems"(10,9) rp neg(1)] unfolding neg(2) by (cases r) auto
    then show ?thesis using reaches_trans[OF s1(1) s2(1)] s1(2) "2.prems"(4) by (auto simp: calm_def)
  next
    assume "\<not> r \<and> rip s1 = B + of_nat q"
    then show ?thesis using s1 by auto
  qed
next
  case (3 \<Gamma> n p t q d e ds)
  let ?m = "p + and_size \<Gamma> n d"
  obtain r1 where r1: "all_hold \<Gamma> f d = Some r1" "if r1 then r = True else some_hold \<Gamma> f (e # ds) = Some r"
    using "3.prems"(7) by (auto simp: bind_eq_Some_conv simp del: some_hold.simps(2)[of _ _ e] split: if_splits)
  have at: "code_at C p (and_code \<Gamma> n p (?m + 9) d)" "code_at C ?m (jump_if (fst (last d)) ?m t)"
    "code_at C (?m + 9) (or_code \<Gamma> n (?m + 9) t q (e # ds))"
    using "3.prems"(3) by (simp_all add: code_at_append)
  have ok: "d \<noteq> []" "list_all (test_ok \<Gamma>) d" "list_all (\<lambda>d. d \<noteq> [] \<and> list_all (test_ok \<Gamma>) d) (e # ds)"
    using "3.prems"(2) by simp_all
  then have "test_ok \<Gamma> (last d)" by (simp add: list_all_iff)
  then have tok: "fst (last d) \<in> set comparison_tokens" by (cases "last d") simp
  have le: "?m + 9 \<le> length C" "t \<le> length C" using at(3) "3.prems"(4) by (simp_all add: code_at_def)
  have te: "t = ?m + 9 + or_size \<Gamma> n (e # ds)" using "3.prems"(4) by simp
  obtain s1 where s1: "reaches C B s s1" "calm s s1"
    "rip s1 = B + of_nat ?m \<and> comparison (fst (last d)) (regs s1 8) (regs s1 9) = r1 \<or> \<not> r1 \<and> rip s1 = B + of_nat (?m + 9)"
    using reaches_and[OF ok(1,2) at(1) "3.prems"(5,6) r1(1) "3.prems"(8,9) le(1)] by blast
  have "\<exists>s2. reaches C B s s2 \<and> calm s s2 \<and> rip s2 = B + of_nat (if r1 then t else ?m + 9)"
    using s1(3)
  proof
    assume a: "rip s1 = B + of_nat ?m \<and> comparison (fst (last d)) (regs s1 8) (regs s1 9) = r1"
    then have rp: "rip s1 = B + of_nat ?m" by blast
    obtain s2 where s2: "reaches C B s1 s2" "regs s2 = regs s1" "mem s2 = mem s1"
      "rip s2 = B + of_nat (if r1 then t else ?m + 9)"
      using reaches_jump_if[OF at(2) le(2) "3.prems"(9) rp tok] unfolding a[THEN conjunct2] by blast
    then show ?thesis using reaches_trans[OF s1(1) s2(1)] s1(2) by (auto simp: calm_def)
  qed (use s1 in auto)
  then obtain s2 where s2: "reaches C B s s2" "calm s s2" "rip s2 = B + of_nat (if r1 then t else ?m + 9)" by blast
  show ?case
  proof (cases r1)
    case True
    then show ?thesis using s2 r1(2) by auto
  next
    case False
    then have s2r: "rip s2 = B + of_nat (?m + 9)" and h: "some_hold \<Gamma> f (e # ds) = Some r" using s2(3) r1(2) by simp_all
    obtain s3 where s3: "reaches C B s2 s3" "calm s2 s3" "rip s3 = B + of_nat (if r then t else q)"
      using "3.IH"[OF _ ok(3) at(3) te s2r calm_frame[OF "3.prems"(6) s2(2)] h "3.prems"(8-10)] by blast
    then show ?thesis using reaches_trans[OF s2(1) s3(1)] calm_trans[OF s2(2) s3(2)] by blast
  qed
qed simp

end
