(* ===== verification/Tc_Stmt_Exec.thy ===== *)
theory Tc_Stmt_Exec
  imports Tc_Stmt_Code
begin

text \<open>
  The code of statements refines their meaning: from the position of a block, a processor reaches the
  end of the block, the end of the loop around it, or the return address, as the outcome of the block
  says, with the values that it says in the variables and in the result register.
\<close>

section \<open>Which outcomes are possible\<close>

fun possible :: "bool \<Rightarrow> bool \<Rightarrow> outcome \<Rightarrow> bool" where
  "possible e l (Goes g) = e"
| "possible e l (Leaves g) = l"
| "possible e l (Gives v) = True"

lemma outcome_possible:
  "runs \<Gamma> ss f r \<Longrightarrow> possible (falls_block ss) (leaves_loop_block ss) r"
  "runs_one \<Gamma> s f r \<Longrightarrow> possible (falls s) (leaves_loop s) r"
proof (induction rule: runs_runs_one.inducts)
  case (next_one s f g ss r)
  then show ?case by (cases ss; cases r) auto
next
  case (stops s f r ss)
  then show ?case by (cases ss; cases r) auto
next
  case (choose_first f c b r d)
  then show ?case by (cases d; cases r) auto
next
  case (choose_second f c d r b)
  then show ?case by (cases r) auto
next
  case (repeat_next f c b g r)
  then show ?case by (cases r) auto
next
  case (forever_next b f g r)
  then show ?case by (cases r) auto
qed auto

section \<open>Where the processor is\<close>

definition arrives :: "scope \<Rightarrow> u64 \<Rightarrow> u64 \<Rightarrow> u8 list \<Rightarrow> u64 \<Rightarrow> nat \<Rightarrow> (u64 \<Rightarrow> u64) \<Rightarrow> cpu \<Rightarrow> cpu \<Rightarrow> bool" where
  "arrives \<Gamma> n ra C B p f c c' \<longleftrightarrow> reaches C B c c' \<and> rip c' = B + of_nat p \<and> frame \<Gamma> n ra f c' \<and>
     regs c' 4 = regs c 4 \<and> untouched \<Gamma> n c c'"

fun finishes :: "scope \<Rightarrow> u64 \<Rightarrow> u64 \<Rightarrow> u8 list \<Rightarrow> u64 \<Rightarrow> nat \<Rightarrow> nat \<Rightarrow> outcome \<Rightarrow> cpu \<Rightarrow> cpu \<Rightarrow> bool" where
  "finishes \<Gamma> n ra C B p q (Goes g) c c' = arrives \<Gamma> n ra C B p g c c'"
| "finishes \<Gamma> n ra C B p q (Leaves g) c c' = arrives \<Gamma> n ra C B q g c c'"
| "finishes \<Gamma> n ra C B p q (Gives v) c c' = (reaches C B c c' \<and> rip c' = ra \<and> regs c' 8 = v \<and>
     regs c' 4 = regs c 4 + n * 8 + 8 \<and> untouched \<Gamma> n c c')"

lemma finishes_trans:
  "arrives \<Gamma> n ra C B p0 f c c1 \<Longrightarrow> finishes \<Gamma> n ra C B p q r c1 c' \<Longrightarrow> finishes \<Gamma> n ra C B p q r c c'"
  by (cases r) (auto simp: arrives_def intro: reaches_trans untouched_trans)

lemma finishes_after:
  "arrives \<Gamma> n ra C B p0 f c c1 \<Longrightarrow> \<exists>c'. finishes \<Gamma> n ra C B p q r c1 c' \<Longrightarrow> \<exists>c'. finishes \<Gamma> n ra C B p q r c c'"
  using finishes_trans by blast

lemma arrives_trans:
  "arrives \<Gamma> n ra C B p f c c1 \<Longrightarrow> arrives \<Gamma> n ra C B q g c1 c' \<Longrightarrow> arrives \<Gamma> n ra C B q g c c'"
  using finishes_trans[of _ _ _ _ _ _ _ _ _ q 0 "Goes g"] by simp

lemma arrives_here: "rip c = B + of_nat p \<Longrightarrow> frame \<Gamma> n ra f c \<Longrightarrow> arrives \<Gamma> n ra C B p f c c"
  by (simp add: arrives_def untouched_same reaches.here)

lemma finishes_elsewhere:
  "finishes \<Gamma> n ra C B p q r c c' \<Longrightarrow> \<not> goes r \<Longrightarrow> finishes \<Gamma> n ra C B p' q r c c'"
  by (cases r) simp_all

lemma arrives_calm:
  "reaches C B c c' \<Longrightarrow> calm c c' \<Longrightarrow> rip c' = B + of_nat p \<Longrightarrow> frame \<Gamma> n ra f c \<Longrightarrow> arrives \<Gamma> n ra C B p f c c'"
  using calm_frame[of \<Gamma> n ra f c c'] calm_untouched[of c c' \<Gamma> n] by (simp add: arrives_def calm_def)

section \<open>Single statements\<close>

lemma arrives_condition:
  assumes "condition_ok \<Gamma> d" and "code_at C p (or_code \<Gamma> n p (p + or_size \<Gamma> n d) q d)" and "rip c = B + of_nat p"
    and "frame \<Gamma> n ra f c" and "some_hold \<Gamma> f d = Some r" and "slots_ok \<Gamma> n" and "length C < 0x80000000"
    and "q \<le> length C"
  obtains c' where "arrives \<Gamma> n ra C B (if r then p + or_size \<Gamma> n d else q) f c c'"
proof -
  have d: "d \<noteq> []" "list_all (\<lambda>d. d \<noteq> [] \<and> list_all (test_ok \<Gamma>) d) d" using assms(1) by (simp_all add: condition_ok_def)
  from reaches_or[OF d assms(2) refl assms(3-8)] obtain c' where
    "reaches C B c c'" "calm c c'" "rip c' = B + of_nat (if r then p + or_size \<Gamma> n d else q)" by blast
  then show thesis using arrives_calm[OF _ _ _ assms(4)] that by blast
qed

lemma arrives_jump:
  assumes "code_at C p (jump_to p q)" and "arrives \<Gamma> n ra C B p f c c1" and "q \<le> length C" and "length C < 0x80000000"
  obtains c' where "arrives \<Gamma> n ra C B q f c c'"
proof -
  have "rip c1 = B + of_nat p" using assms(2) by (simp add: arrives_def)
  from reaches_jump_to[OF assms(1,3,4) this] have "reaches C B c1 (at_rip (B + of_nat q) c1)" .
  then have "arrives \<Gamma> n ra C B q f c1 (at_rip (B + of_nat q) c1)"
    using assms(2) by (intro arrives_calm) (simp_all add: arrives_def calm_def)
  then show thesis using arrives_trans[OF assms(2)] that by blast
qed

lemma arrives_assign:
  assumes "stmt_ok \<Gamma> l (Assign x e)" and "code_at C p (stmt_code \<Gamma> n p q (Assign x e))" and "rip c = B + of_nat p"
    and "frame \<Gamma> n ra f c" and "eval \<Gamma> f e = Some v" and "\<Gamma> x = Some (Slot k)" and "slots_ok \<Gamma> n"
    and "length C < 0x80000000"
  obtains c' where "arrives \<Gamma> n ra C B (p + stmt_size \<Gamma> n (Assign x e)) (f(k := v)) c c'"
proof -
  let ?l = "length (expr_code \<Gamma> n 0 e)"
  have ok: "expr_ok \<Gamma> 0 e" using assms(1) by simp
  have at: "code_at C p (expr_code \<Gamma> n 0 e)" "code_at C (p + ?l) (set_code \<Gamma> n x)"
    using assms(2) by (simp_all add: code_at_append)
  obtain c1 where c1: "reaches C B c c1" "rip c1 = B + of_nat (p + ?l)" "calm c c1" "regs c1 8 = v"
    using reaches_expr[OF assms(7) ok at(1) assms(3,8,4,5)] by auto
  have d: "decode (set_code \<Gamma> n x) = Some (Mov True (Mem 4 ((n - k) * 8)) (Reg 8), [])"
    using set_decodes[of "n - k"] assms(6,7) by (simp add: set_code_def slots_ok_def)
  let ?c2 = "at_rip (B + of_nat (p + ?l + length (set_code \<Gamma> n x))) c1
    \<lparr>mem := (mem c1)(regs c1 4 + (n - k) * 8 := v)\<rparr>"
  have f1: "frame \<Gamma> n ra f c1" by (rule calm_frame[OF assms(4) c1(3)])
  then have a: "regs c1 4 AND 7 = 0" by (simp add: frame_def in_frame_def)
  have "cpu_step C B c1 = Some ?c2"
    using code_at_step(1)[OF at(2) d c1(2)] assms(8) a c1(4) aligned_slot[of "regs c1 4" "n - k"]
    by (simp add: store_def)
  then have r: "reaches C B c1 ?c2" by (rule reaches_step)
  have m: "regs ?c2 4 = regs c1 4" "mem ?c2 = (mem c1)(regs c1 4 + (n - k) * 8 := v)" by simp_all
  have "arrives \<Gamma> n ra C B (p + ?l + length (set_code \<Gamma> n x)) (f(k := v)) c1 ?c2"
    using r frame_store[OF assms(7,6) f1 m] by (simp add: arrives_def)
  moreover have "arrives \<Gamma> n ra C B (p + ?l) f c c1" by (rule arrives_calm[OF c1(1,3,2) assms(4)])
  ultimately show thesis using arrives_trans that by (simp add: add.assoc) blast
qed

lemma reaches_return:
  assumes "slots_ok \<Gamma> n" and "code_at C p (return_code n)" and "rip c = B + of_nat p"
    and "frame \<Gamma> n ra f c" and "length C < 0x80000000"
  obtains c' where "reaches C B c c'" "rip c' = ra" "regs c' = (regs c)(4 := regs c 4 + n * 8 + 8)" "mem c' = mem c"
proof -
  let ?bs = "increment_bytes 0x8348 0xc4 n"
  have at: "code_at C p ?bs" "code_at C (p + length ?bs) [0xc3]"
    using assms(2) by (simp_all add: return_code_def code_at_append)
  have n: "n < 0x10000000" using assms(1) by (simp add: slots_ok_def)
  have f: "regs c 4 AND 7 = 0" "mem c (regs c 4 + n * 8) = ra" using assms(4) by (simp_all add: frame_def in_frame_def)
  have len: "length C < 18446744073709551616" using assms(5) by simp
  obtain c1 where c1: "reaches C B c c1" "rip c1 = B + of_nat (p + length ?bs)"
    "regs c1 = (regs c)(4 := regs c 4 + n * 8)" "mem c1 = mem c"
  proof (cases "n = 0")
    case True
    then have "?bs = []" by (simp add: increment_bytes_def word_le_nat_alt)
    then show ?thesis using that[OF reaches.here] assms(3) True by simp
  next
    case False
    let ?c1 = "set_reg 4 (regs c 4 + n * 8) (at_rip (B + of_nat (p + length ?bs)) c)"
    from code_at_step(1)[OF at(1) add_rsp_decodes[OF n False] assms(3) len] have "cpu_step C B c = Some ?c1"
      by (simp add: exec_alu_def set_reg_def)
    from reaches_step[OF this] show ?thesis by (rule that) (simp_all add: set_reg_def)
  qed
  have "decode [0xc3] = Some (Return, [])" by (simp add: Let_def)
  from code_at_step(1)[OF at(2) this c1(2) len] have "cpu_step C B c1 =
      Some (set_reg 4 (regs c 4 + n * 8 + 8) c1\<lparr>rip := ra\<rparr>)"
    using f c1(3,4) aligned_slot[of "regs c 4" n] by (simp add: pop_def load_def set_reg_def)
  from reaches_trans[OF c1(1) reaches_step[OF this]] show thesis
    by (rule that) (use c1 in \<open>simp_all add: set_reg_def\<close>)
qed

section \<open>Statements and blocks\<close>

lemma repeat_step:
  assumes "stmt_ok \<Gamma> l (Repeat c b)" and "code_at C p (stmt_code \<Gamma> n p q (Repeat c b))"
  defines "u \<equiv> p + or_size \<Gamma> n c" and "v \<equiv> p + or_size \<Gamma> n c + block_size \<Gamma> n b"
  shows "condition_ok \<Gamma> c" "code_at C p (or_code \<Gamma> n p u (v + 5) c)" "v + 5 \<le> length C"
    "block_ok \<Gamma> True b" "code_at C u (block_code \<Gamma> n u (v + 5) b)" "code_at C v (jump_to v p)" "p \<le> length C"
  using assms by (auto simp: code_at_append Let_def code_at_def[of _ _ "jump_to _ _"])

lemma forever_step:
  assumes "stmt_ok \<Gamma> l (Forever b)" and "code_at C p (stmt_code \<Gamma> n p q (Forever b))"
  defines "v \<equiv> p + block_size \<Gamma> n b"
  shows "block_ok \<Gamma> True b" "code_at C p (block_code \<Gamma> n p (v + 5) b)" "v + 5 \<le> length C" "code_at C v (jump_to v p)"
    "p \<le> length C"
  using assms by (auto simp: code_at_append Let_def code_at_def[of _ _ "jump_to _ _"])

text \<open>One run through the body of a loop with a condition.\<close>

lemma repeat_body:
  assumes "some_hold \<Gamma> f c = Some True" and "slots_ok \<Gamma> n" and "length C < 0x80000000"
    and "stmt_ok \<Gamma> l (Repeat c b)" and "code_at C p (stmt_code \<Gamma> n p q (Repeat c b))" and "rip s = B + of_nat p"
    and "frame \<Gamma> n ra f s"
    and "\<And>p q c. block_ok \<Gamma> True b \<Longrightarrow> code_at C p (block_code \<Gamma> n p q b) \<Longrightarrow> rip c = B + of_nat p \<Longrightarrow>
      frame \<Gamma> n ra f c \<Longrightarrow> q \<le> length C \<Longrightarrow> \<exists>c'. finishes \<Gamma> n ra C B (p + block_size \<Gamma> n b) q r c c'"
  shows "\<exists>s'. finishes \<Gamma> n ra C B (p + or_size \<Gamma> n c + block_size \<Gamma> n b) (p + stmt_size \<Gamma> n (Repeat c b)) r s s'"
proof -
  let ?u = "p + or_size \<Gamma> n c"
  note at = repeat_step[OF assms(4,5)]
  obtain s1 where s1: "arrives \<Gamma> n ra C B ?u f s s1"
    using arrives_condition[OF at(1,2) assms(6,7,1,2,3) at(3)] by auto
  then have "rip s1 = B + of_nat ?u" "frame \<Gamma> n ra f s1" by (simp_all add: arrives_def)
  from assms(8)[OF at(4,5) this at(3)] show ?thesis
    by (intro finishes_after[OF s1]) (simp add: add.assoc)
qed

lemma code_finishes:
  assumes "slots_ok \<Gamma> n" and "length C < 0x80000000"
  shows "runs \<Gamma> ss f r \<Longrightarrow> block_ok \<Gamma> l ss \<Longrightarrow> code_at C p (block_code \<Gamma> n p q ss) \<Longrightarrow> rip c = B + of_nat p \<Longrightarrow>
     frame \<Gamma> n ra f c \<Longrightarrow> q \<le> length C \<Longrightarrow> \<exists>c'. finishes \<Gamma> n ra C B (p + block_size \<Gamma> n ss) q r c c'"
  and "runs_one \<Gamma> s f r \<Longrightarrow> stmt_ok \<Gamma> l s \<Longrightarrow> code_at C p (stmt_code \<Gamma> n p q s) \<Longrightarrow> rip c = B + of_nat p \<Longrightarrow>
     frame \<Gamma> n ra f c \<Longrightarrow> q \<le> length C \<Longrightarrow> \<exists>c'. finishes \<Gamma> n ra C B (p + stmt_size \<Gamma> n s) q r c c'"
proof (induction arbitrary: l p q c and l p q c rule: runs_runs_one.inducts)
  case (nothing f)
  then have "arrives \<Gamma> n ra C B p f c c" by (intro arrives_here)
  then show ?case by auto
next
  case (next_one s f g ss r)
  have at: "code_at C p (stmt_code \<Gamma> n p q s)" "code_at C (p + stmt_size \<Gamma> n s) (block_code \<Gamma> n (p + stmt_size \<Gamma> n s) q ss)"
    using next_one.prems(2) by (simp_all add: code_at_append)
  obtain c1 where c1: "arrives \<Gamma> n ra C B (p + stmt_size \<Gamma> n s) g c c1"
    using next_one.IH(2)[OF _ at(1) next_one.prems(3-5)] next_one.prems(1) by auto
  then have "rip c1 = B + of_nat (p + stmt_size \<Gamma> n s)" "frame \<Gamma> n ra g c1" by (simp_all add: arrives_def)
  moreover have "block_ok \<Gamma> l ss" using next_one.prems(1) by simp
  ultimately show ?case
    using next_one.IH(4)[OF _ at(2) _ _ next_one.prems(5)] by (intro finishes_after[OF c1]) (simp add: add.assoc)
next
  case (stops s f r ss)
  have "code_at C p (stmt_code \<Gamma> n p q s)" using stops.prems(2) by (simp add: code_at_append)
  moreover have "stmt_ok \<Gamma> l s" using stops.prems(1) by simp
  ultimately show ?case using stops.IH(2) stops.prems(3-5) stops.hyps finishes_elsewhere by blast
next
  case (assign f e v x k)
  show ?case by (rule arrives_assign[OF assign.prems(1-4) assign.IH assms]) auto
next
  case (evaluate f e v)
  have e: "expr_ok \<Gamma> 0 e" "code_at C p (expr_code \<Gamma> n 0 e)" using evaluate.prems(1,2) by simp_all
  obtain c1 where "reaches C B c c1" "rip c1 = B + of_nat (p + length (expr_code \<Gamma> n 0 e))" "calm c c1"
    by (rule reaches_expr[OF assms(1) e evaluate.prems(3) assms(2) evaluate.prems(4) evaluate.IH(1)])
  then have "arrives \<Gamma> n ra C B (p + length (expr_code \<Gamma> n 0 e)) f c c1" using arrives_calm evaluate.prems(4) by blast
  then show ?case by auto
next
  case (give f e v)
  let ?l = "length (expr_code \<Gamma> n 0 e)"
  have ok: "expr_ok \<Gamma> 0 e" using give.prems(1) by simp
  have at: "code_at C p (expr_code \<Gamma> n 0 e)" "code_at C (p + ?l) (return_code n)"
    using give.prems(2) by (simp_all add: code_at_append)
  obtain c1 where c1: "reaches C B c c1" "rip c1 = B + of_nat (p + ?l)" "calm c c1" "regs c1 8 = v"
    using reaches_expr[OF assms(1) ok at(1) give.prems(3) assms(2) give.prems(4) give.IH] by auto
  obtain c2 where c2: "reaches C B c1 c2" "rip c2 = ra" "regs c2 = (regs c1)(4 := regs c1 4 + n * 8 + 8)" "mem c2 = mem c1"
    by (rule reaches_return[OF assms(1) at(2) c1(2) calm_frame[OF give.prems(4) c1(3)] assms(2)])
  then show ?case using c1 reaches_trans[OF c1(1) c2(1)] by (auto simp: calm_def untouched_def)
next
  case (leave f)
  have "code_at C p (jump_to p q)" using leave.prems(2) by simp
  from arrives_jump[OF this arrives_here[OF leave.prems(3,4)] leave.prems(5) assms(2)] show ?case by auto
next
  case (choose_first f t b r d)
  let ?u = "p + or_size \<Gamma> n t" and ?v = "p + or_size \<Gamma> n t + block_size \<Gamma> n b"
  let ?w = "case d of None \<Rightarrow> ?v | Some e \<Rightarrow> if falls_block b then ?v + 5 else ?v"
  have ok: "condition_ok \<Gamma> t" "block_ok \<Gamma> l b" using choose_first.prems(1) by (cases d; simp)+
  have at: "code_at C p (or_code \<Gamma> n p ?u ?w t)" "code_at C ?u (block_code \<Gamma> n ?u q b)" "?w \<le> length C"
    using choose_first.prems(2) by (cases d; auto simp: code_at_append Let_def code_at_def[of _ _ "jump_to _ _"]
      code_at_def[of _ _ "block_code _ _ _ _ _"])+
  obtain c1 where c1: "arrives \<Gamma> n ra C B ?u f c c1"
    using arrives_condition[OF ok(1) at(1) choose_first.prems(3,4) choose_first.IH(1) assms at(3)] by auto
  then have "rip c1 = B + of_nat ?u" "frame \<Gamma> n ra f c1" by (simp_all add: arrives_def)
  from choose_first.IH(3)[OF ok(2) at(2) this choose_first.prems(5)]
  obtain c2 where c2: "finishes \<Gamma> n ra C B ?v q r c c2" using finishes_trans[OF c1] by blast
  show ?case
  proof (cases "\<exists>e g. d = Some e \<and> r = Goes g")
    case True
    then obtain e g where e: "d = Some e" "r = Goes g" by blast
    then have "falls_block b" using outcome_possible(1)[OF choose_first.IH(2)] by simp
    then have j: "code_at C ?v (jump_to ?v (?v + 5 + block_size \<Gamma> n e))" "?v + 5 + block_size \<Gamma> n e \<le> length C"
      and size: "p + stmt_size \<Gamma> n (Choose t b d) = ?v + 5 + block_size \<Gamma> n e"
      using choose_first.prems(2) e(1) by (auto simp: code_at_append Let_def code_at_def[of _ _ "block_code _ _ _ _ _"])
    have "arrives \<Gamma> n ra C B ?v g c c2" using c2 e(2) by simp
    from arrives_jump[OF j(1) this j(2) assms(2)] show ?thesis unfolding size e(2) by auto
  next
    case False
    then have "d = None \<or> \<not> goes r" by (cases d; cases r) simp_all
    then show ?thesis
    proof
      assume "d = None"
      then have "p + stmt_size \<Gamma> n (Choose t b d) = ?v" by simp
      then show ?thesis using c2 by metis
    next
      assume "\<not> goes r"
      then show ?thesis using finishes_elsewhere[OF c2] by blast
    qed
  qed
next
  case (choose_none f t b)
  let ?u = "p + or_size \<Gamma> n t"
  have ok: "condition_ok \<Gamma> t" using choose_none.prems(1) by simp
  have at: "code_at C p (or_code \<Gamma> n p ?u (?u + block_size \<Gamma> n b) t)" "?u + block_size \<Gamma> n b \<le> length C"
    using choose_none.prems(2) by (auto simp: code_at_append code_at_def[of _ _ "block_code _ _ _ _ _"])
  from arrives_condition[OF ok at(1) choose_none.prems(3,4) choose_none.IH assms at(2)]
  show ?case by (auto simp: add.assoc)
next
  case (choose_second f t d r b)
  let ?u = "p + or_size \<Gamma> n t"
  let ?w = "p + or_size \<Gamma> n t + block_size \<Gamma> n b + (if falls_block b then 5 else 0)"
  have ok: "condition_ok \<Gamma> t" "block_ok \<Gamma> l d" using choose_second.prems(1) by simp_all
  have at: "code_at C p (or_code \<Gamma> n p ?u ?w t)" "code_at C ?w (block_code \<Gamma> n ?w q d)" "?w \<le> length C"
    using choose_second.prems(2) by (auto simp: code_at_append Let_def code_at_def[of _ _ "block_code _ _ _ _ _"])
  obtain c1 where c1: "arrives \<Gamma> n ra C B ?w f c c1"
    using arrives_condition[OF ok(1) at(1) choose_second.prems(3,4) choose_second.IH(1) assms at(3)] by auto
  then have "rip c1 = B + of_nat ?w" "frame \<Gamma> n ra f c1" by (simp_all add: arrives_def)
  from choose_second.IH(3)[OF ok(2) at(2) this choose_second.prems(5)] show ?case
    by (intro finishes_after[OF c1]) (simp add: add.assoc)
next
  case (repeat_end f t b)
  note at = repeat_step[OF repeat_end.prems(1,2)]
  from arrives_condition[OF at(1,2) repeat_end.prems(3,4) repeat_end.IH assms at(3)] show ?case by (auto simp: add.assoc)
next
  case (repeat_next f t b g r)
  note at = repeat_step[OF repeat_next.prems(1,2)]
  have "\<exists>s'. finishes \<Gamma> n ra C B (p + or_size \<Gamma> n t + block_size \<Gamma> n b) (p + stmt_size \<Gamma> n (Repeat t b)) (Goes g) c s'"
    by (rule repeat_body[OF repeat_next.IH(1) assms repeat_next.prems(1-4)], rule repeat_next.IH(3))
  then obtain c2 where "arrives \<Gamma> n ra C B (p + or_size \<Gamma> n t + block_size \<Gamma> n b) g c c2" by auto
  then obtain c3 where c3: "arrives \<Gamma> n ra C B p g c c3" by (rule arrives_jump[OF at(6) _ at(7) assms(2)])
  then have "rip c3 = B + of_nat p" "frame \<Gamma> n ra g c3" by (simp_all add: arrives_def)
  from repeat_next.IH(5)[OF repeat_next.prems(1,2) this repeat_next.prems(5)] show ?case by (rule finishes_after[OF c3])
next
  case (repeat_leave f t b g)
  have "\<exists>s'. finishes \<Gamma> n ra C B (p + or_size \<Gamma> n t + block_size \<Gamma> n b) (p + stmt_size \<Gamma> n (Repeat t b)) (Leaves g) c s'"
    by (rule repeat_body[OF repeat_leave.IH(1) assms repeat_leave.prems(1-4)], rule repeat_leave.IH(3))
  then show ?case by simp
next
  case (repeat_give f t b v)
  have "\<exists>s'. finishes \<Gamma> n ra C B (p + or_size \<Gamma> n t + block_size \<Gamma> n b) (p + stmt_size \<Gamma> n (Repeat t b)) (Gives v) c s'"
    by (rule repeat_body[OF repeat_give.IH(1) assms repeat_give.prems(1-4)], rule repeat_give.IH(3))
  then show ?case by simp
next
  case (forever_next b f g r)
  let ?v = "p + block_size \<Gamma> n b"
  note at = forever_step[OF forever_next.prems(1,2)]
  obtain c2 where "arrives \<Gamma> n ra C B ?v g c c2" 
    using forever_next.IH(2)[OF at(1,2) forever_next.prems(3,4) at(3)] by auto
  then obtain c3 where c3: "arrives \<Gamma> n ra C B p g c c3" by (rule arrives_jump[OF at(4) _ at(5) assms(2)])
  then have "rip c3 = B + of_nat p" "frame \<Gamma> n ra g c3" by (simp_all add: arrives_def)
  from forever_next.IH(4)[OF forever_next.prems(1,2) this forever_next.prems(5)] show ?case
    by (rule finishes_after[OF c3])
next
  case (forever_leave b f g)
  note at = forever_step[OF forever_leave.prems(1,2)]
  from forever_leave.IH(2)[OF at(1,2) forever_leave.prems(3,4) at(3)] show ?case by (auto simp: add.assoc)
next
  case (forever_give b f v)
  note at = forever_step[OF forever_give.prems(1,2)]
  from forever_give.IH(2)[OF at(1,2) forever_give.prems(3,4) at(3)] show ?case by (auto simp: add.assoc)
qed

end
