(* ===== verification/Tc_Stmt_Properties.thy ===== *)
theory Tc_Stmt_Properties
  imports Tc_Else_Parse Tc_Stmt_Exec Tc_Expr_Properties
begin

text \<open>
  The compiler is correct for statements: what the parser accepts, the code it writes, and what a
  processor does with this code.
\<close>

section \<open>Statements\<close>

lemma makes_code_at: "makes cs p m [] G \<Longrightarrow> length (G x) = m \<Longrightarrow> code_at cs p (G x)"
  by (simp add: makes_def code_at_def)

lemma stmt_code_finishes:
  assumes "emits self self' (stmt_size \<Gamma> n s) [] [] (\<lambda>x. stmt_code \<Gamma> n (pos self) x s)" and "settled \<Gamma> self"
    and "slots_ok \<Gamma> n" and "stmt_ok \<Gamma> False s" and "runs_one \<Gamma> s f r" and "frame \<Gamma> n ra f c" and "rip c = B + of_nat (pos self)"
  shows "\<exists>c'. finishes \<Gamma> n ra (code self') B (pos self') 0 r c c'"
proof -
  note d = emitsD[OF assms(1)]
  have l: "length (code self') < 0x80000000" using assms(2) d(1) by (simp add: settled_def advances_def)
  have "code_at (code self') (pos self) (stmt_code \<Gamma> n (pos self) 0 s)" using makes_code_at[OF d(4), of 0] by simp
  from code_finishes(2)[OF assms(3) l assms(5,4) this assms(7,6)] show ?thesis by (simp add: d(2))
qed

text \<open>C2. Statements are compiled correctly: assignments, expressions, returns, conditional statements with
  their else branches, both kinds of loops, and breaks out of them. In front of tokens \<open>ts\<close> that the
  grammar derives as the statement \<open>s\<close>, in a function that returns an integer, with the names in scope
  and with registers, heap and code buffer for it, \<open>tc_parse_stmt\<close> returns: it has consumed exactly
  these tokens, it knows whether the end of \<open>s\<close> is reachable, and it has appended the code of \<open>s\<close> and
  changed no code before it. Whenever \<open>s\<close> has an outcome for the values \<open>f\<close> of the variables, a processor at the
  start of this code, wherever the code is loaded, goes to its end, or to the return address, as the outcome says, with the
  values that the outcome says in the variables or in the result register; and only the variables are changed in memory.\<close>

theorem statement_compiled:
  assumes "parses ts s" and "sees self (ts @ u # us)" and "token_of u \<noteq> TC_ELSE" and "stmt_ok \<Gamma> False s"
    and "slots_ok \<Gamma> (frame_size self)" and "length ts < fuel"
    and "prepared \<Gamma> self (stmt_size \<Gamma> (frame_size self) s) []"
  shows "\<exists>self'. tc_parse_stmt fuel self None = Ret (end_state (falls s), None, self') \<and> sees self' (u # us) \<and>
    advances self self' \<and> pos self' = pos self + stmt_size \<Gamma> (frame_size self) s \<and>
    (\<forall>f r c ra B. \<not> (runs_one \<Gamma> s f r \<and> frame \<Gamma> (frame_size self) ra f c \<and> rip c = B + of_nat (pos self)) \<or>
      possible (falls s) False r \<and>
      (\<exists>c'. finishes \<Gamma> (frame_size self) ra (code self') B (pos self') 0 r c c'))"
proof -
  obtain self' where s: "tc_parse_stmt fuel self None = Ret (end_state (falls s), None, self')" "sees self' (u # us)"
    "emits self self' (stmt_size \<Gamma> (frame_size self) s) [] [] (\<lambda>x. stmt_code \<Gamma> (frame_size self) (pos self) x s)"
    by (rule stmt_parser[OF assms(1,4,2,3,6,7)])
  have "leaves_loop s = False" using leaves_only_in_loop(1)[OF assms(4)] by blast
  then show ?thesis
    using s emitsD(1,2)[OF s(3)] stmt_code_finishes[OF s(3) preparedD(1)[OF assms(7)] assms(5,4)]
      outcome_possible(2)[of \<Gamma> s] by metis
qed

text \<open>A compiler in a function that returns an integer and has one variable \<open>x\<close>, in front of a loop.\<close>

definition in_function :: "string \<Rightarrow> compiler" where
  "in_function t = (with_variable t)\<lparr>cells := [65536 \<mapsto> Sym (x_symbol\<lparr>sym_name := 7\<rparr>), 65600 \<mapsto> Sym \<lparr>sym_name = 0, sym_length = 0,
      sym_kind = SYM_VARIABLE, sym_value = 0, sym_type = 0, sym_dim = 0, sym_next = 0\<rparr>],
     fn_return_type := 65600, heap := 65664, code := replicate 200 0, dst_limit := 4296\<rparr>"

definition sample_loop :: stmt where
  "sample_loop = Repeat [[(TC_LT, Name (chars ''x''), Num 10)]] [Assign (chars ''x'') (Binary TC_ADD (Name (chars ''x'')) (Num 3))]"

definition loop_tokens :: "lexeme list" where
  "loop_tokens = [Word (chars ''while''), Word (chars ''x''), Other TC_LT, Number 10, Other 123, Word (chars ''x''), Other 61,
     Word (chars ''x''), Other TC_ADD, Number 3, Other 59, Other 125]"

lemma loop_lexes: "lexes (chars ''while x<10{x=x+3;};'') (loop_tokens @ [Other 59])"
  by code_simp

lemma name_phrase: "keyword_token w = TC_IDENTIFIER \<Longrightarrow> l \<le> 5 \<Longrightarrow> phrase l [Word w] (Name w)"
  using phrase_lift[OF phrase.name] by simp

lemma number_phrase: "l \<le> 5 \<Longrightarrow> phrase l [Number k] (Num k)"
  using phrase_lift[OF phrase.number] by simp

lemma loop_parses: "parses loop_tokens sample_loop"
proof -
  have k: "keyword_token (chars ''x'') = TC_IDENTIFIER" "keyword_token (chars ''while'') = TC_WHILE" by code_simp+
  have "phrase 3 ([Word (chars ''x'')] @ Other TC_ADD # [Number 3]) (Binary TC_ADD (Name (chars ''x'')) (Num 3))"
    by (rule phrase.operator) (simp_all add: name_phrase[OF k(1)] number_phrase level_def tokens)
  then have "phrase 0 [Word (chars ''x''), Other TC_ADD, Number 3] (Binary TC_ADD (Name (chars ''x'')) (Num 3))"
    using phrase_lift[of 3 _ _ 0] by simp
  from parses_parses_block_parses_all.assign[OF k(1) this]
  have a: "parses [Word (chars ''x''), Other 61, Word (chars ''x''), Other TC_ADD, Number 3, Other 59]
      (Assign (chars ''x'') (Binary TC_ADD (Name (chars ''x'')) (Num 3)))" by simp
  have b: "parses_block [Other 123, Word (chars ''x''), Other 61, Word (chars ''x''), Other TC_ADD, Number 3, Other 59, Other 125]
      [Assign (chars ''x'') (Binary TC_ADD (Name (chars ''x'')) (Num 3))]"
    using parses_parses_block_parses_all.braces[OF parses_parses_block_parses_all.one_more[OF a parses_parses_block_parses_all.none]]
    by simp
  have "test_phrase ([Word (chars ''x'')] @ Other TC_LT # [Number 10]) (TC_LT, Name (chars ''x''), Num 10)"
    by (rule test_phrase.compare) (simp_all add: name_phrase[OF k(1)] number_phrase comparison_tokens_def tokens)
  then have c: "or_phrase [Word (chars ''x''), Other TC_LT, Number 10] [[(TC_LT, Name (chars ''x''), Num 10)]]"
    using or_phrase.single and_phrase.single by fastforce
  show ?thesis
    using parses_parses_block_parses_all.repeat[OF _ c b, of "Word (chars ''while'')"] k(2)
    by (simp add: loop_tokens_def sample_loop_def token_of_def)
qed

lemma loop_runs: "runs_one sample_scope sample_loop (\<lambda>_. 9) (Goes ((\<lambda>_. 9)(1 := 12)))"
  unfolding sample_loop_def
proof (rule repeat_next)
  show "runs sample_scope [Assign (chars ''x'') (Binary TC_ADD (Name (chars ''x'')) (Num 3))] (\<lambda>_. 9) (Goes ((\<lambda>_. 9)(1 := 12)))"
    by (rule next_one[OF runs_runs_one.assign runs_runs_one.nothing]) (simp_all add: sample_scope_def binary_op_def tokens)
  show "runs_one sample_scope (Repeat [[(TC_LT, Name (chars ''x''), Num 10)]]
      [Assign (chars ''x'') (Binary TC_ADD (Name (chars ''x'')) (Num 3))]) ((\<lambda>_. 9)(1 := 12)) (Goes ((\<lambda>_. 9)(1 := 12)))"
    by (rule repeat_end) (simp add: sample_scope_def comparison_def tokens)
qed (simp add: sample_scope_def comparison_def tokens)

text \<open>With 9 in \<open>x\<close>, the code of \<open>while x<10{x=x+3;}\<close> puts 12 there.\<close>

theorem statement_compiled_witness:
  "\<exists>self self' c'. tc_parse_stmt 13 self None = Ret (END_REACHABLE, None, self') \<and>
    reaches (code self') 4096 \<lparr>regs = (\<lambda>k. 65536), mem = (\<lambda>a. 9), rip = 4096, carry = False, zero = False\<rparr> c' \<and>
    rip c' = dst self' \<and> mem c' 65536 = 12"
proof -
  let ?t = "''while x<10{x=x+3;};''"
  let ?self = "in_function ?t"
  let ?c = "\<lparr>regs = (\<lambda>k. 65536), mem = (\<lambda>a. 9), rip = 4096, carry = False, zero = False\<rparr> :: cpu"
  have w: "scan_ok ?self" "remaining ?self = chars ?t"
    by (auto simp: scan_ok_iff in_function_def with_variable_def goto_def remaining_def sample_length window_def chars_def)
  have t: "loop_tokens @ [Other 59] = Word (chars ''while'') # tl loop_tokens @ [Other 59]" by (simp add: loop_tokens_def)
  obtain self where see: "sees self (Word (chars ''while'') # tl loop_tokens @ [Other 59])" and off: "off_scanner self = off_scanner ?self"
    using start_sees[OF w(1), of "Word (chars ''while'')" "tl loop_tokens @ [Other 59]"] w(2) loop_lexes t by metis
  have s: "sees self (loop_tokens @ [Other 59])" unfolding t by (rule see)
  note o = off_scanner_core[OF off] and c = core_eqD[OF off_scanner_core(1)[OF off]]
  have f: "frame_size self = 1" "pos self = 0" "code_base self = 4096" "dst self = 4096" 
    using c o by (simp_all add: in_function_def with_variable_def goto_def pos_def put_cell_def)
  have l: "stmt_size sample_scope 1 sample_loop \<le> 200" by code_simp
  have "syms_at self 65536 [(chars ''x'', 65536, x_symbol\<lparr>sym_name := 7\<rparr>)]"
    using o c by (simp add: name_at_def x_symbol_def below_def SYMBOL_SIZE_def in_function_def with_variable_def goto_def window_def chars_def)
  then have "in_scope sample_scope self"
    using c by (auto simp: in_scope_def sample_scope_def x_symbol_def in_function_def with_variable_def goto_def intro!: exI[of _ "[(chars ''x'', 65536, x_symbol\<lparr>sym_name := 7\<rparr>)]"])
  then have "settled sample_scope self" 
    using o c by (simp add: settled_def code_ok_def in_function_def with_variable_def goto_def)
  moreover have "returns_int self"
    using o c by (simp add: returns_int_def below_def SYMBOL_SIZE_def in_function_def with_variable_def goto_def kinds)
  ultimately have pr: "prepared sample_scope self (stmt_size sample_scope (frame_size self) sample_loop) []"
    using l f o c by (simp add: prepared_def room_def in_function_def with_variable_def goto_def)
  have ok: "stmt_ok sample_scope False sample_loop" "slots_ok sample_scope (frame_size self)" "length loop_tokens < 13"
    "token_of (Other 59) \<noteq> TC_ELSE"
    using f by (simp_all add: sample_loop_def sample_scope_def slots_ok_def loop_tokens_def expr_ok_def condition_ok_def comparison_tokens_def level_def tokens)
  have fr: "frame sample_scope 1 9 (\<lambda>_. 9) ?c" by (simp add: frame_def in_frame_def)
  obtain self' where p: "tc_parse_stmt 13 self None = Ret (end_state (falls sample_loop), None, self')" "advances self self'"
    "\<forall>f r c ra B. \<not> (runs_one sample_scope sample_loop f r \<and> frame sample_scope (frame_size self) ra f c \<and> rip c = B + of_nat (pos self)) \<or>
      possible (falls sample_loop) False r \<and> (\<exists>c'. finishes sample_scope (frame_size self) ra (code self') B (pos self') 0 r c c')"
    using statement_compiled[OF loop_parses s ok(4,1,2,3) pr] by blast
  obtain c' where "finishes sample_scope 1 9 (code self') 4096 (pos self') 0 (Goes ((\<lambda>_. 9)(1 := 12))) ?c c'"
    using p(3)[rule_format, of "\<lambda>_. 9" "Goes ((\<lambda>_. 9)(1 := 12))" 9 ?c 4096] loop_runs fr f by auto
  then have r: "reaches (code self') 4096 ?c c'" "rip c' = 4096 + of_nat (pos self')" "in_frame sample_scope 1 ((\<lambda>_. 9)(1 := 12)) c'"
    "regs c' 4 = 65536" by (simp_all add: arrives_def frame_def)
  have "sample_scope (chars ''x'') = Some (Slot 1)" by (simp add: sample_scope_def)
  then have "mem c' (regs c' 4 + (1 - 1) * 8) = ((\<lambda>_. 9)(1 := 12 :: u64)) (1 :: u64)" using r(3) unfolding in_frame_def by blast
  then have "mem c' 65536 = 12" using r(4) by simp
  note r(1,2) this
  moreover have "dst self' = 4096 + of_nat (pos self')" using dst_pos[of self'] advances_eqD(2)[OF p(2)] f by simp
  moreover have "tc_parse_stmt 13 self None = Ret (END_REACHABLE, None, self')" using p(1) by (simp add: sample_loop_def)
  ultimately show ?thesis by metis
qed

end
