(* ===== verification/Tc_Fn_Spec.thy ===== *)
theory Tc_Fn_Spec
  imports Tc_Stmt_Exec Tc_Saved
begin

text \<open>
  Functions: their bodies, what a call of them returns, and the code that they should have, on the
  processor of \<open>Tc_Machine\<close>.
\<close>

section \<open>Bodies\<close>

text \<open>A declaration of a variable, or a statement. A new variable gets the next slot of the frame.\<close>

datatype item = Declares "u8 list" expr | Does stmt

fun names_of :: "item list \<Rightarrow> u8 list list" where
  "names_of [] = []"
| "names_of (Declares x e # is) = x # names_of is"
| "names_of (Does s # is) = names_of is"

text \<open>The function returns an integer, so that the end of its body must not be reachable.\<close>

fun items_ok :: "scope \<Rightarrow> u64 \<Rightarrow> item list \<Rightarrow> bool" where
  "items_ok \<Gamma> n [] = False"
| "items_ok \<Gamma> n (Declares x e # is) = (expr_ok \<Gamma> 0 e \<and> items_ok (\<Gamma>(x \<mapsto> Slot (n + 1))) (n + 1) is)"
| "items_ok \<Gamma> n (Does s # is) = (stmt_ok \<Gamma> False s \<and> (if is = [] then \<not> falls s else falls s \<and> items_ok \<Gamma> n is))"

text \<open>\<open>gives \<Gamma> n is f v\<close>: from the values \<open>f\<close> of the variables, of which there are \<open>n\<close>, the body returns \<open>v\<close>.\<close>

inductive gives :: "scope \<Rightarrow> u64 \<Rightarrow> item list \<Rightarrow> (u64 \<Rightarrow> u64) \<Rightarrow> u64 \<Rightarrow> bool" where
  declares: "eval \<Gamma> f e = Some v \<Longrightarrow> gives (\<Gamma>(x \<mapsto> Slot (n + 1))) (n + 1) is (f(n + 1 := v)) r \<Longrightarrow>
    gives \<Gamma> n (Declares x e # is) f r"
| does: "runs_one \<Gamma> s f (Goes g) \<Longrightarrow> gives \<Gamma> n is g r \<Longrightarrow> gives \<Gamma> n (Does s # is) f r"
| returns: "runs_one \<Gamma> s f (Gives r) \<Longrightarrow> gives \<Gamma> n (Does s # is) f r"

section \<open>Code\<close>

fun items_size :: "scope \<Rightarrow> u64 \<Rightarrow> item list \<Rightarrow> nat" where
  "items_size \<Gamma> n [] = 0"
| "items_size \<Gamma> n (Declares x e # is) =
     length (expr_code \<Gamma> n 0 e) + 2 + items_size (\<Gamma>(x \<mapsto> Slot (n + 1))) (n + 1) is"
| "items_size \<Gamma> n (Does s # is) = stmt_size \<Gamma> n s + items_size \<Gamma> n is"

fun items_code :: "scope \<Rightarrow> u64 \<Rightarrow> nat \<Rightarrow> item list \<Rightarrow> u8 list" where
  "items_code \<Gamma> n p [] = []"
| "items_code \<Gamma> n p (Declares x e # is) = expr_code \<Gamma> n 0 e @ push_bytes 1 @
     items_code (\<Gamma>(x \<mapsto> Slot (n + 1))) (n + 1) (p + length (expr_code \<Gamma> n 0 e) + 2) is"
| "items_code \<Gamma> n p (Does s # is) = stmt_code \<Gamma> n p 0 s @ items_code \<Gamma> n (p + stmt_size \<Gamma> n s) is"

lemma length_push_bytes [simp]: "length (push_bytes n) = 2 * n"
  by (induction n) simp_all

lemma length_items_code [simp]: "length (items_code \<Gamma> n p is) = items_size \<Gamma> n is"
  by (induction \<Gamma> n p "is" rule: items_code.induct) (simp_all del: fun_upd_apply)

section \<open>Execution\<close>

definition slots_below :: "scope \<Rightarrow> u64 \<Rightarrow> bool" where
  "slots_below \<Gamma> n \<longleftrightarrow> (\<forall>w v. \<Gamma> w = Some (Slot v) \<longrightarrow> v \<noteq> 0 \<and> v \<le> n)"

lemma slots_below_ok: "slots_below \<Gamma> n \<Longrightarrow> unat n < 0x10000000 \<Longrightarrow> slots_ok \<Gamma> n"
  by (auto simp: slots_below_def slots_ok_def less_u64 le_u64 unat_sub_u64)

lemma slots_below_new:
  assumes "slots_below \<Gamma> n" and "unat n < 0x10000000"
  shows "slots_below (\<Gamma>(x \<mapsto> Slot (n + 1))) (n + 1)"
proof -
  have u: "unat (n + 1) = unat n + 1" using assms(2) by (simp add: unat_add_u64)
  then have "n + 1 \<noteq> 0" by (metis add_eq_0_iff_both_eq_0 unat_0 zero_neq_one)
  then show ?thesis using assms(1) u by (auto simp: slots_below_def le_u64 intro: le_SucI)
qed

text \<open>A call returns \<open>v\<close> to \<open>ra\<close>, which is on the stack at \<open>S\<close>, and only the \<open>m\<close> words below are changed.\<close>

definition outside :: "nat \<Rightarrow> u64 \<Rightarrow> u64 \<Rightarrow> bool" where
  "outside m S a \<longleftrightarrow> (\<forall>j. 1 \<le> j \<and> j \<le> m \<longrightarrow> a \<noteq> S - of_nat (8 * j))"

lemma outside_member: "outside m S a \<Longrightarrow> 1 \<le> j \<Longrightarrow> j \<le> m \<Longrightarrow> a \<noteq> S - of_nat (8 * j)"
  by (simp add: outside_def)

lemma outside_1 [simp]: "outside (Suc 0) S a \<longleftrightarrow> a \<noteq> S - 8"
proof -
  have "(\<forall>j. 1 \<le> j \<and> j \<le> Suc 0 \<longrightarrow> P j) \<longleftrightarrow> P (1 :: nat)" for P using le_antisym by auto
  then show ?thesis by (simp add: outside_def)
qed

definition same_outside :: "nat \<Rightarrow> u64 \<Rightarrow> cpu \<Rightarrow> cpu \<Rightarrow> bool" where
  "same_outside m S c c' \<longleftrightarrow> (\<forall>a. outside m S a \<longrightarrow> mem c' a = mem c a)"

definition returned :: "u8 list \<Rightarrow> u64 \<Rightarrow> nat \<Rightarrow> u64 \<Rightarrow> u64 \<Rightarrow> u64 \<Rightarrow> cpu \<Rightarrow> cpu \<Rightarrow> bool" where
  "returned C B m S ra v c c' \<longleftrightarrow> reaches C B c c' \<and> rip c' = ra \<and> regs c' 8 = v \<and> regs c' 4 = S + 8 \<and> same_outside m S c c'"

lemma returned_after:
  "reaches C B c c1 \<Longrightarrow> same_outside m S c c1 \<Longrightarrow> \<exists>c'. returned C B m S ra v c1 c' \<Longrightarrow> \<exists>c'. returned C B m S ra v c c'"
  by (auto simp: returned_def same_outside_def intro: reaches_trans)

lemma untouched_outside:
  assumes "untouched \<Gamma> n c c'" and "slots_below \<Gamma> n" and "unat n \<le> m"
  shows "same_outside m (regs c 4 + n * 8) c c'"
  unfolding same_outside_def
proof (intro allI impI)
  fix a assume a: "outside m (regs c 4 + n * 8) a"
  have "a \<noteq> regs c 4 + (n - v) * 8" if "\<Gamma> w = Some (Slot v)" for w v
  proof -
    have v: "v \<noteq> 0" "v \<le> n" using assms(2) that by (auto simp: slots_below_def)
    have "1 \<le> unat v" "unat v \<le> m" using v assms(3) by (auto simp: le_u64 unat_gt_0 Suc_le_eq)
    then have "a \<noteq> regs c 4 + n * 8 - of_nat (8 * unat v)" using outside_member[OF a] by blast
    then show ?thesis by (simp add: algebra_simps)
  qed
  then show "mem c' a = mem c a" using assms(1) by (auto simp: untouched_def)
qed

lemma reaches_pushes:
  assumes "n \<le> 8" and "regs c 4 AND 7 = 0" and "code_at C p (push_bytes n)" and "rip c = B + of_nat p" and "length C < 0x80000000"
  obtains c' where "reaches C B c c'" "rip c' = B + of_nat (p + 2 * n)" "regs c' = (regs c)(4 := regs c 4 - of_nat (8 * n))"
    "\<forall>k<n. mem c' (regs c 4 - of_nat (8 * (n - k))) = regs c (8 + k)" "same_outside n (regs c 4) c c'"
proof -
  let ?is = "map (\<lambda>k. Push (8 + k)) (rev [0..<n])"
  have "disassemble 8 (push_bytes n) = Some ?is" using push_decodes assms(1) by (simp add: list_all_iff)
  then have a: "assembles (push_bytes n) ?is" by (auto simp: assembles_def list_all_iff)
  obtain s where s: "exec_all ?is c = Some s" "regs s = (regs c)(4 := regs c 4 - of_nat (8 * n))"
    "\<forall>k<n. mem s (regs c 4 - of_nat (8 * (n - k))) = regs c (8 + k)"
    "\<forall>a. (\<forall>j. 1 \<le> j \<and> j \<le> n \<longrightarrow> a \<noteq> regs c 4 - of_nat (8 * j)) \<longrightarrow> mem s a = mem c a"
    using exec_pushes[OF assms(1,2)] by blast
  have "length C < 18446744073709551616" using assms(5) by simp
  from reaches_code[OF a assms(3,4) this s(1)] show thesis
    by (rule that) (use s in \<open>simp_all add: same_outside_def outside_def\<close>)
qed

text \<open>A declared variable is pushed, and has a slot of its own.\<close>

lemma frame_push:
  assumes "frame \<Gamma> n ra f c" and "slots_below \<Gamma> n" and "unat n < 0x1000000"
    and "regs c' = (regs c)(4 := regs c 4 - 8)" and "mem c' (regs c 4 - 8) = v" and "same_outside 1 (regs c 4) c c'"
  shows "frame (\<Gamma>(x \<mapsto> Slot (n + 1))) (n + 1) ra (f(n + 1 := v)) c'"
proof -
  have u: "unat (n + 1) = unat n + 1" using assms(3) by (simp add: unat_add_u64)
  have same: "mem c' (regs c 4 + d * 8) = mem c (regs c 4 + d * 8)" if "unat d < 0x10000000" for d
  proof -
    have "unat (d * 8 + 8) = unat d * 8 + 8" using that by (simp add: unat_mult_u64 unat_add_u64)
    then have "d * 8 + 8 \<noteq> 0" by (metis add_is_0 unat_0 zero_neq_numeral)
    moreover have "d * 8 + 8 = (regs c 4 + d * 8) - (regs c 4 - 8)" by (simp add: algebra_simps)
    ultimately have "regs c 4 + d * 8 \<noteq> regs c 4 - 8" by (metis cancel_comm_monoid_add_class.diff_cancel)
    then show ?thesis using assms(6) by (simp add: same_outside_def)
  qed
  have "mem c' (regs c' 4 + (n + 1 - k) * 8) = (f(n + 1 := v)) k" if k: "(\<Gamma>(x \<mapsto> Slot (n + 1))) w = Some (Slot k)" for w k
  proof (cases "k = n + 1")
    case False
    then have g: "\<Gamma> w = Some (Slot k)" using k by (auto split: if_splits)
    then have "unat (n - k) < 0x10000000" using assms(2,3) by (auto simp: slots_below_def le_u64 unat_sub_u64)
    then have "mem c' (regs c 4 + (n - k) * 8) = mem c (regs c 4 + (n - k) * 8)" by (rule same)
    also have "\<dots> = f k" using assms(1) g unfolding frame_def in_frame_def by blast
    finally have "mem c' (regs c 4 + (n - k) * 8) = f k" .
    moreover have "regs c' 4 + (n + 1 - k) * 8 = regs c 4 + (n - k) * 8" by (simp add: assms(4) algebra_simps)
    ultimately have "mem c' (regs c' 4 + (n + 1 - k) * 8) = f k" by (simp only:)
    then show ?thesis using False by (simp only: fun_upd_other[OF False])
  qed (simp add: assms(4,5))
  moreover have "mem c' (regs c' 4 + (n + 1) * 8) = ra"
  proof -
    have "regs c' 4 + (n + 1) * 8 = regs c 4 + n * 8" by (simp add: assms(4) algebra_simps)
    moreover have "mem c' (regs c 4 + n * 8) = ra" using same[of n] assms(1,3) by (simp add: frame_def)
    ultimately show ?thesis by (simp only:)
  qed
  moreover have "regs c' 4 AND 7 = 0" using assms(1,4) aligned_minus[of "regs c 4" 1] by (simp add: frame_def in_frame_def)
  ultimately show ?thesis by (simp add: frame_def in_frame_def)
qed

text \<open>The code of a body returns what the body gives.\<close>

lemma items_return:
  assumes "length C < 0x80000000" and "m < 0x1000000"
  shows "gives \<Gamma> n is f r \<Longrightarrow> items_ok \<Gamma> n is \<Longrightarrow> slots_below \<Gamma> n \<Longrightarrow> unat n + length (names_of is) \<le> m \<Longrightarrow>
     code_at C p (items_code \<Gamma> n p is) \<Longrightarrow> rip c = B + of_nat p \<Longrightarrow> frame \<Gamma> n ra f c \<Longrightarrow>
     \<exists>c'. returned C B m (regs c 4 + n * 8) ra r c c'"
proof (induction arbitrary: p c rule: gives.induct)
  case (declares \<Gamma> f e v x n "is" r)
  let ?l = "length (expr_code \<Gamma> n 0 e)"
  have n: "unat n < m" "unat n < 0x1000000" "unat (n + 1) = unat n + 1"
    using declares.prems(3) assms(2) by (simp_all add: unat_add_u64)
  have ok: "slots_ok \<Gamma> n" "expr_ok \<Gamma> 0 e" using slots_below_ok declares.prems(1,2) n(2) by simp_all
  have at: "code_at C p (expr_code \<Gamma> n 0 e)" "code_at C (p + ?l) (push_bytes 1)"
    "code_at C (p + ?l + 2) (items_code (\<Gamma>(x \<mapsto> Slot (n + 1))) (n + 1) (p + ?l + 2) is)"
    using declares.prems(4) by (simp_all add: code_at_append add.assoc)
  obtain c1 where c1: "reaches C B c c1" "rip c1 = B + of_nat (p + ?l)" "calm c c1" "regs c1 8 = v"
    using reaches_expr[OF ok at(1) declares.prems(5) assms(1) declares.prems(6) declares.hyps(1)] by auto
  have f1: "frame \<Gamma> n ra f c1" "regs c1 4 = regs c 4" using calm_frame[OF declares.prems(6) c1(3)] c1(3) by (simp_all add: calm_def)
  then have al: "regs c1 4 AND 7 = 0" by (simp add: frame_def in_frame_def)
  obtain c2 where c2: "reaches C B c1 c2" "rip c2 = B + of_nat (p + ?l + 2 * 1)" "regs c2 = (regs c1)(4 := regs c1 4 - of_nat (8 * 1))"
    "\<forall>k<1. mem c2 (regs c1 4 - of_nat (8 * (1 - k))) = regs c1 (8 + k)" "same_outside 1 (regs c1 4) c1 c2"
    by (rule reaches_pushes[OF _ al at(2) c1(2) assms(1)]) simp_all
  have f2: "frame (\<Gamma>(x \<mapsto> Slot (n + 1))) (n + 1) ra (f(n + 1 := v)) c2"
    by (rule frame_push[OF f1(1) declares.prems(2) n(2)]) (use c2(3-5) c1(4) in simp_all)
  have S: "regs c2 4 + (n + 1) * 8 = regs c 4 + n * 8" using c2(3) f1(2) by (simp add: algebra_simps)
  have "same_outside m (regs c 4 + n * 8) c c2"
    unfolding same_outside_def
  proof (intro allI impI)
    fix a assume a: "outside m (regs c 4 + n * 8) a"
    have "a \<noteq> regs c 4 + n * 8 - of_nat (8 * (unat n + 1))" by (rule outside_member[OF a]) (use n(1) in simp_all)
    moreover have "regs c 4 + n * 8 - of_nat (8 * (unat n + 1)) = regs c 4 - 8" by (simp add: algebra_simps)
    ultimately have "a \<noteq> regs c 4 - 8" by simp
    then show "mem c2 a = mem c a" using c2(5) c1(3) f1(2) by (simp add: same_outside_def calm_def)
  qed
  moreover have "slots_below (\<Gamma>(x \<mapsto> Slot (n + 1))) (n + 1)" by (rule slots_below_new[OF declares.prems(2)]) (use n(2) in simp)
  moreover have "items_ok (\<Gamma>(x \<mapsto> Slot (n + 1))) (n + 1) is" using declares.prems(1) by (simp del: fun_upd_apply)
  moreover have "unat (n + 1) + length (names_of is) \<le> m" "rip c2 = B + of_nat (p + ?l + 2)"
    using declares.prems(3) n(3) c2(2) by simp_all
  ultimately have "same_outside m (regs c 4 + n * 8) c c2" "\<exists>c'. returned C B m (regs c 4 + n * 8) ra r c2 c'"
    using declares.IH[OF _ _ _ at(3) _ f2, unfolded S] by blast+
  then show ?case by (rule returned_after[OF reaches_trans[OF c1(1) c2(1)]])
next
  case (does \<Gamma> s f g n "is" r)
  have n: "unat n \<le> m" "unat n < 0x10000000" using does.prems(3) assms(2) by simp_all
  have at: "code_at C p (stmt_code \<Gamma> n p 0 s)" "code_at C (p + stmt_size \<Gamma> n s) (items_code \<Gamma> n (p + stmt_size \<Gamma> n s) is)"
    using does.prems(4) by (simp_all add: code_at_append)
  have ok: "stmt_ok \<Gamma> False s" using does.prems(1) by simp
  have fl: "is \<noteq> []" using does.hyps(2) by (auto elim: gives.cases)
  then have oks: "items_ok \<Gamma> n is" using does.prems(1) by simp
  obtain c1 where c1: "arrives \<Gamma> n ra C B (p + stmt_size \<Gamma> n s) g c c1"
    using code_finishes(2)[OF slots_below_ok[OF does.prems(2) n(2)] assms(1) does.hyps(1) ok at(1) does.prems(5,6)] by auto
  then have r: "reaches C B c c1" "rip c1 = B + of_nat (p + stmt_size \<Gamma> n s)" "frame \<Gamma> n ra g c1" "regs c1 4 = regs c 4"
    "untouched \<Gamma> n c c1" by (simp_all add: arrives_def)
  have "\<exists>c'. returned C B m (regs c 4 + n * 8) ra r c1 c'"
    using does.IH[OF oks does.prems(2) _ at(2) r(2,3)] does.prems(3) r(4) by simp
  then show ?case by (rule returned_after[OF r(1) untouched_outside[OF r(5) does.prems(2) n(1)]])
next
  case (returns \<Gamma> s f r n "is")
  have n: "unat n \<le> m" "unat n < 0x10000000" using returns.prems(3) assms(2) by simp_all
  have at: "code_at C p (stmt_code \<Gamma> n p 0 s)" using returns.prems(4) by (simp add: code_at_append)
  have ok: "stmt_ok \<Gamma> False s" using returns.prems(1) by simp
  obtain c' where "finishes \<Gamma> n ra C B (p + stmt_size \<Gamma> n s) 0 (Gives r) c c'"
    using code_finishes(2)[OF slots_below_ok[OF returns.prems(2) n(2)] assms(1) returns.hyps ok at(1) returns.prems(5,6)] by auto
  then show ?case using untouched_outside[OF _ returns.prems(2) n(1)] by (auto simp: returned_def)
qed

section \<open>Functions\<close>

declare of_nat_diff [simp del]

text \<open>The parameters are the first variables, the last parameter in slot 1. The names in \<open>\<Gamma>\<close> are
  constants; arguments are passed in registers.\<close>

definition with_params :: "scope \<Rightarrow> u8 list list \<Rightarrow> scope" where
  "with_params \<Gamma> xs = \<Gamma> ++ map_of (map (\<lambda>k. (xs ! k, Slot (of_nat (length xs - k)))) [0..<length xs])"

definition passed :: "u64 list \<Rightarrow> u64 \<Rightarrow> u64" where
  "passed vs s = vs ! (length vs - unat s)"

definition fn_gives :: "scope \<Rightarrow> u8 list list \<Rightarrow> item list \<Rightarrow> u64 list \<Rightarrow> u64 \<Rightarrow> bool" where
  "fn_gives \<Gamma> xs is vs r \<longleftrightarrow> length vs = length xs \<and> gives (with_params \<Gamma> xs) (of_nat (length xs)) is (passed vs) r"

definition fn_size :: "scope \<Rightarrow> u8 list list \<Rightarrow> item list \<Rightarrow> nat" where
  "fn_size \<Gamma> xs is = 2 * length xs + items_size (with_params \<Gamma> xs) (of_nat (length xs)) is"

definition fn_code :: "scope \<Rightarrow> nat \<Rightarrow> u8 list list \<Rightarrow> item list \<Rightarrow> u8 list" where
  "fn_code \<Gamma> p xs is = push_bytes (length xs) @
     items_code (with_params \<Gamma> xs) (of_nat (length xs)) (p + 2 * length xs) is"

lemma length_fn_code [simp]: "length (fn_code \<Gamma> p xs is) = fn_size \<Gamma> xs is"
  by (simp add: fn_code_def fn_size_def)

lemma with_params_slot:
  assumes "with_params \<Gamma> xs w = Some (Slot v)" and "slots_below \<Gamma> 0"
  obtains k where "k < length xs" "w = xs ! k" "v = of_nat (length xs - k)"
proof -
  have "\<Gamma> w \<noteq> Some (Slot v)" using assms(2) by (auto simp: slots_below_def)
  then have "map_of (map (\<lambda>k. (xs ! k, Slot (of_nat (length xs - k)))) [0..<length xs]) w = Some (Slot v)"
    using assms(1) by (auto simp: with_params_def map_add_Some_iff)
  from map_of_SomeD[OF this] show thesis using that by auto
qed

lemma with_params_below:
  assumes "slots_below \<Gamma> 0" and "length xs < 0x10000000"
  shows "slots_below (with_params \<Gamma> xs) (of_nat (length xs))"
  unfolding slots_below_def
proof (intro allI impI)
  fix w v assume "with_params \<Gamma> xs w = Some (Slot v)"
  then obtain k where k: "k < length xs" "v = of_nat (length xs - k)" using with_params_slot assms(1) by metis
  then have "unat v = length xs - k" "unat (of_nat (length xs) :: u64) = length xs"
    using assms(2) by (simp_all add: unat_of_nat_u64)
  moreover have "v \<noteq> 0"
  proof
    assume "v = 0"
    then show False using \<open>unat v = length xs - k\<close> k(1) by simp
  qed
  ultimately show "v \<noteq> 0 \<and> v \<le> of_nat (length xs)" by (simp add: le_u64)
qed

lemma params_frame:
  assumes "slots_below \<Gamma> 0" and "length xs \<le> 8" and "length vs = length xs" and "regs c 4 AND 7 = 0" and "mem c (regs c 4) = ra"
    and "\<forall>k<length xs. regs c (8 + k) = vs ! k"
    and "regs c' = (regs c)(4 := regs c 4 - of_nat (8 * length xs))"
    and "\<forall>k<length xs. mem c' (regs c 4 - of_nat (8 * (length xs - k))) = regs c (8 + k)" and "same_outside (length xs) (regs c 4) c c'"
  shows "frame (with_params \<Gamma> xs) (of_nat (length xs)) ra (passed vs) c'" and "regs c' 4 + of_nat (length xs) * 8 = regs c 4"
proof -
  let ?n = "length xs"
  show S: "regs c' 4 + of_nat ?n * 8 = regs c 4" by (simp add: assms(7))
  have "mem c' (regs c' 4 + (of_nat ?n - v) * 8) = passed vs v" if wp: "with_params \<Gamma> xs w = Some (Slot v)" for w v
  proof -
    obtain k where k: "k < ?n" "v = of_nat (?n - k)" using with_params_slot[OF wp assms(1)] by metis
    then have u: "unat v = ?n - k" using assms(2) by (simp add: unat_of_nat_u64)
    have "regs c' 4 + (of_nat ?n - v) * 8 = regs c 4 - of_nat (8 * (?n - k))"
    proof -
      have "of_nat (8 * (?n - k)) = v * 8" unfolding k(2) of_nat_mult by (simp add: mult.commute)
      then show ?thesis by (simp only: S[symmetric] diff_conv_add_uminus) (simp add: algebra_simps)
    qed
    then have "mem c' (regs c' 4 + (of_nat ?n - v) * 8) = vs ! k" using assms(6,8) k(1) by simp
    also have "\<dots> = passed vs v" using k(1) u assms(3) by (simp add: passed_def)
    finally show ?thesis .
  qed
  moreover have "outside ?n (regs c 4) (regs c 4)"
    unfolding outside_def using slots_distinct[of 0 _ "regs c 4"] assms(2) by fastforce
  moreover have "regs c' 4 AND 7 = 0" using aligned_minus[of "regs c 4" ?n] assms(4,7) by simp
  ultimately show "frame (with_params \<Gamma> xs) (of_nat ?n) ra (passed vs) c'"
    using S assms(5,9) by (simp add: frame_def in_frame_def same_outside_def)
qed

text \<open>A call of the function: with the arguments in the registers and the return address on the stack, it
  returns the result, and changes only the words of its own frame.\<close>

lemma fn_return:
  assumes "fn_gives \<Gamma> xs is vs r" and "items_ok (with_params \<Gamma> xs) (of_nat (length xs)) is" and "slots_below \<Gamma> 0"
    and "length xs \<le> 8" and "length (names_of is) < 0x100000" and "code_at C p (fn_code \<Gamma> p xs is)" and "length C < 0x80000000"
    and "rip c = B + of_nat p" and "regs c 4 AND 7 = 0" and "mem c (regs c 4) = ra" and "\<forall>k<length xs. regs c (8 + k) = vs ! k"
  shows "\<exists>c'. returned C B (length xs + length (names_of is)) (regs c 4) ra r c c'"
proof -
  let ?n = "length xs" and ?\<Gamma> = "with_params \<Gamma> xs" and ?m = "length xs + length (names_of is)"
  have at: "code_at C p (push_bytes ?n)" "code_at C (p + 2 * ?n) (items_code ?\<Gamma> (of_nat ?n) (p + 2 * ?n) is)"
    using assms(6) by (simp_all add: fn_code_def code_at_append)
  obtain c1 where c1: "reaches C B c c1" "rip c1 = B + of_nat (p + 2 * ?n)" "regs c1 = (regs c)(4 := regs c 4 - of_nat (8 * ?n))"
    "\<forall>k<?n. mem c1 (regs c 4 - of_nat (8 * (?n - k))) = regs c (8 + k)" "same_outside ?n (regs c 4) c c1"
    by (rule reaches_pushes[OF assms(4,9) at(1) assms(8,7)])
  have vs: "length vs = ?n" and gives: "gives ?\<Gamma> (of_nat ?n) is (passed vs) r" using assms(1) by (simp_all add: fn_gives_def)
  note fr = params_frame[OF assms(3,4) vs assms(9-11) c1(3-5)]
  have below: "slots_below ?\<Gamma> (of_nat ?n)" by (rule with_params_below[OF assms(3)]) (use assms(4) in simp)
  have m: "?m < 0x1000000" "unat (of_nat ?n :: u64) + length (names_of is) \<le> ?m"
    using assms(4,5) by (simp_all add: unat_of_nat_u64)
  have "\<exists>c'. returned C B ?m (regs c1 4 + of_nat ?n * 8) ra r c1 c'"
    by (rule items_return[OF assms(7) m(1) gives assms(2) below m(2) at(2) c1(2) fr(1)])
  moreover have "same_outside ?m (regs c 4) c c1"
    using c1(5) by (auto simp: same_outside_def outside_def)
  ultimately show ?thesis unfolding fr(2) by (intro returned_after[OF c1(1)])
qed

end
