(* ===== verification/Tc_Fn_Parse.thy ===== *)
theory Tc_Fn_Parse
  imports Tc_Stmt_Properties Tc_Fn_Spec
begin

text \<open>
  The parser of declarations and of the body of a function: symbols are added to the symbol table and
  variables to the frame, statement by statement.
\<close>

section \<open>The symbol table\<close>

text \<open>The list of all symbols, with those in \<open>\<Gamma>\<close>.\<close>

definition table :: "scope \<Rightarrow> (u8 list \<times> u64 \<times> symbol) list \<Rightarrow> compiler \<Rightarrow> bool" where
  "table \<Gamma> es self \<longleftrightarrow> syms_at self (symbols self) es \<and>
     (\<forall>w b. \<Gamma> w = Some b \<longrightarrow> (\<exists>q s. map_of es w = Some (q, s) \<and> describes b s))"

lemma table_scope: "table \<Gamma> es self \<Longrightarrow> in_scope \<Gamma> self"
  by (auto simp: table_def in_scope_def)

lemma table_keeps:
  assumes "table \<Gamma> es self" and "keeps self self'" and "heap self \<le> heap self'" and "source self' = source self" and "symbols self' = symbols self"
  shows "table \<Gamma> es self'"
  using assms syms_at_keeps[of self "symbols self" es self'] by (simp add: table_def)

lemma table_advances: "table \<Gamma> es self \<Longrightarrow> advances self self' \<Longrightarrow> table \<Gamma> es self'"
  using table_keeps[of \<Gamma> es self self'] advances_eqD(1,5)[of self self'] by (simp add: advances_def)

text \<open>A new symbol in front of the others.\<close>

lemma add_symbol:
  fixes kind v type dim :: u64
  assumes "syms_at self p es" and "name_at self name len w" and "w \<notin> fst ` set es" and "heap self \<noteq> 0"
    and "unat (heap self) + 64 \<le> unat (heap_limit self)"
  defines "s \<equiv> \<lparr>sym_name = name, sym_length = len, sym_kind = kind, sym_value = v, sym_type = type, sym_dim = dim, sym_next = p\<rparr>"
  defines "self' \<equiv> put_cell (self\<lparr>heap := heap self + 64\<rparr>) (heap self) (Sym s)"
  shows "tc_new_symbol self name len kind v type dim p = Ret (heap self, self')"
    and "syms_at self' (heap self) ((w, heap self, s) # es)" and "keeps self self'" and "heap self \<le> heap self'"
    and "unat (heap self') = unat (heap self) + 64"
proof -
  let ?h = "self\<lparr>heap := heap self + 64\<rparr>"
  show u: "unat (heap self') = unat (heap self) + 64"
    using assms(5) unat_u64_less[of "heap_limit self"] by (simp add: self'_def put_cell_def unat_add_u64)
  then show l: "heap self \<le> heap self'" by (simp add: le_u64)
  have "syms_at ?h p es" using syms_at_keeps[OF assms(1), of ?h] l by (simp add: keeps_cells self'_def put_cell_def)
  moreover have "name_at ?h name len w" using assms(2) by (simp add: name_at_def)
  ultimately have "sym_lookup ?h p name len = Ret (address_of es w)" by (rule lookup_address)
  moreover have "map_of es w = None" using assms(3) by (simp add: map_of_eq_None_iff)
  ultimately show "tc_new_symbol self name len kind v type dim p = Ret (heap self, self')"
    using allocate_symbol[OF assms(5)] by (simp add: tc_new_symbol_def address_of_def self'_def s_def)
  show "syms_at self' (heap self) ((w, heap self, s) # es)" "keeps self self'"
    unfolding self'_def by (rule syms_at_new[OF assms(1,2,4,5)]; simp add: s_def)+
qed

section \<open>Growing code\<close>

text \<open>As \<open>advances\<close>, but with new symbols and variables.\<close>

definition grows :: "compiler \<Rightarrow> compiler \<Rightarrow> bool" where
  "grows self self' \<longleftrightarrow> source self' = source self \<and> code_base self' = code_base self \<and> dst_limit self' = dst_limit self \<and>
     heap_limit self' = heap_limit self \<and> length (code self') = length (code self) \<and> heap self \<le> heap self' \<and>
     keeps self self' \<and> code_ok self' \<and> pos self \<le> pos self' \<and>
     window (code self') 0 (pos self) = window (code self) 0 (pos self)"

lemma advances_grows: "advances self self' \<Longrightarrow> grows self self'"
  using advances_eqD[of self self'] by (simp add: grows_def advances_def)

lemma grows_trans:
  assumes "grows self self1" and "grows self1 self2"
  shows "grows self self2"
  using assms keeps_trans[of self self1 self2] window_shorter[of "code self2" "pos self1" "code self1" "pos self"]
  by (auto simp: grows_def)

lemma code_at_grows:
  assumes "code_at (code self) p bs" and "grows self self'" and "p + length bs \<le> pos self"
  shows "code_at (code self') p bs"
  using assms window_below[of "code self'" "pos self" "code self" p "length bs"] by (simp add: code_at_def grows_def)

lemma grows_same:
  assumes "grows self self1" and "code self2 = code self1" "dst self2 = dst self1" "code_base self2 = code_base self1"
    "dst_limit self2 = dst_limit self1" "source self2 = source self1" "heap_limit self2 = heap_limit self1"
    and "keeps self1 self2" and "heap self1 \<le> heap self2"
  shows "grows self self2"
proof (rule grows_trans[OF assms(1)])
  have "pos self2 = pos self1" "code_ok self2 = code_ok self1" using assms by (simp_all add: pos_def code_ok_def)
  then show "grows self1 self2" using assms by (simp add: grows_def)
qed

section \<open>Declarations\<close>

text \<open>The state in front of an item of a body: \<open>k\<close> more symbols fit on the heap.\<close>

definition in_body :: "scope \<Rightarrow> u64 \<Rightarrow> (u8 list \<times> u64 \<times> symbol) list \<Rightarrow> nat \<Rightarrow> nat \<Rightarrow> compiler \<Rightarrow> bool" where
  "in_body \<Gamma> n es m k self \<longleftrightarrow> settled \<Gamma> self \<and> returns_int self \<and> room m self \<and> table \<Gamma> es self \<and>
     frame_size self = n \<and> unat (heap self) + 64 * k + 288 \<le> unat (heap_limit self)"

lemma in_bodyD:
  assumes "in_body \<Gamma> n es m k self"
  shows "settled \<Gamma> self" "returns_int self" "room m self" "table \<Gamma> es self" "frame_size self = n" "code_ok self"
    "unat (heap self) + 64 * k + 288 \<le> unat (heap_limit self)" "next_register self = 0 \<Longrightarrow> prepared \<Gamma> self m []"
  using assms by (simp_all add: in_body_def prepared_def settled_def)

lemma in_body_read:
  assumes "off_scanner self' = off_scanner self"
  shows "in_body \<Gamma> n es m k self' = in_body \<Gamma> n es m k self"
proof -
  note o = off_scanner_core[OF assms]
  note c = core_eqD[OF o(1)]
  have t: "table \<Gamma> es b" if "table \<Gamma> es a" "off_scanner b = off_scanner a" for a b
    using table_keeps[OF that(1), of b] off_scanner_core[OF that(2)] core_eqD[OF off_scanner_core(1)[OF that(2)]] by (simp add: keeps_cells)
  have r: "returns_int b" if "returns_int a" "off_scanner b = off_scanner a" for a b
    using that(1) off_scanner_core[OF that(2)] core_eqD[OF off_scanner_core(1)[OF that(2)]] by (simp add: returns_int_def)
  show ?thesis
    using settled_read[OF assms] emits_read(3)[OF assms] t[of self self'] t[of self' self] r[of self self'] r[of self' self] assms o c
      advances_read(3,4)[OF assms] by (auto simp: in_body_def room_def)
qed

text \<open>A pushed value, read over and taken away.\<close>

lemma pushed_read:
  assumes "pushed self bs self'" and "off_scanner self'' = off_scanner self'"
  shows "pushed self bs self''"
  using assms(1) off_scanner_core[OF assms(2)] by (simp add: pushed_def extends_def keeps_def)

lemma parse_whole_popped:
  assumes "phrase 0 ts e" and "sees self (ts @ Other 59 # u # us)" and "expr_ok \<Gamma> 0 e" and "length ts < f"
    and "in_body \<Gamma> n es (length (expr_code \<Gamma> n 0 e) + m) k self" and "next_register self = 0"
  obtains self1 self2 v where "tc_parse_expr f self = Ret self1" "tc_parse_token self1 59 = Ret self2"
    "tc_pop_value self2 = Ret (v, self2\<lparr>heap := heap self\<rparr>)" "int_value v" "sees self2 (u # us)"
    "advances self (self2\<lparr>heap := heap self\<rparr>)" "pos (self2\<lparr>heap := heap self\<rparr>) = pos self + length (expr_code \<Gamma> n 0 e)"
    "code_at (code self2) (pos self) (expr_code \<Gamma> n 0 e)"
proof -
  let ?bs = "expr_code \<Gamma> n 0 e"
  have p: "prepared \<Gamma> self (length ?bs + m) []" "frame_size self = n" using in_bodyD[OF assms(5)] assms(6) by simp_all
  note q = preparedD[OF prepared_less[OF p(1)]]
  obtain self1 where s1: "tc_parse_expr f self = Ret self1" "sees self1 (Other 59 # u # us)" "pushed self ?bs self1"
    using parse_whole[OF assms(1,2) ends_expr_simps(1) assms(3,4) q(1,3)] q(4) p(2) by metis
  obtain self2 where s2: "tc_read_token self1 = Ret self2" "sees self2 (u # us)" "off_scanner self2 = off_scanner self1"
    using s1(2) by (rule read_sees)
  have p2: "pushed self ?bs self2" by (rule pushed_read[OF s1(3) s2(3)])
  obtain v where v: "tc_pop_value self2 = Ret (v, self2\<lparr>heap := heap self\<rparr>)" "int_value v"
    "emits self (self2\<lparr>heap := heap self, next_register := next_register self2\<rparr>) (length ?bs) [] [] (\<lambda>_. ?bs)"
    by (rule pop_pushed[OF p2 q(6,4,5)])
  then have e: "emits self (self2\<lparr>heap := heap self\<rparr>) (length ?bs) [] [] (\<lambda>_. ?bs)" by simp
  note d = emitsD[OF e]
  have "tc_parse_token self1 59 = Ret self2" using parse_token_sees[OF s1(2)] s2(1) by simp
  moreover have "code_at (code self2) (pos self) ?bs" using d(4) by (simp add: makes_def code_at_def)
  ultimately show thesis using that s1(1) v(1,2) s2(2) d(1,2) by blast
qed

text \<open>A new variable: its symbol, and its slot.\<close>

lemma heap_nonzero: "returns_int self \<Longrightarrow> heap self \<noteq> 0"
  by (auto simp: returns_int_def below_def SYMBOL_SIZE_def)

lemma save_registers:
  fixes k :: u64
  assumes "code_ok self" and "room (2 * unat k) self"
  obtains self' where "tc_save_registers self k = Ret self'" "grows self self'" "pos self' = pos self + 2 * unat k"
    "code_at (code self') (pos self) (push_bytes (unat k))" "frame_size self' = frame_size self + k" "next_register self' = 0"
    "cells self' = cells self" "heap self' = heap self" "symbols self' = symbols self" "fn_return_type self' = fn_return_type self"
    "sees self' = sees self"
proof -
  let ?bs = "push_bytes (unat k)"
  let ?e = "emit ?bs self" and ?self' = "emit ?bs self\<lparr>frame_size := frame_size self + k, next_register := 0\<rparr>"
  have r: "room (length ?bs) self" using assms(2) by simp
  note e = advances_emit[OF assms(1) r refl]
  have "keeps self ?e" "heap ?e = heap self" by (simp_all add: keeps_cells emit_def)
  note e = e[OF this(2,1)]
  have g: "grows self ?self'"
    by (rule grows_same[OF advances_grows[OF e(1)]]) (simp_all add: keeps_cells emit_def)
  have p: "pos ?self' = pos ?e" "code ?self' = code ?e" by (simp_all add: pos_def emit_def)
  have "code_at (code ?self') (pos self) ?bs" using e(3) r by (simp add: code_at_def room_def length_blit emit_def)
  moreover have "sees ?self' = sees self" by (rule ext, rule sees_cong) (simp_all add: emit_def)
  moreover have "tc_save_registers self k = Ret ?self'"
    using write_save[OF assms(1), of k] r by (simp add: Tc_Emit.written_def)
  ultimately show thesis using that[of ?self'] g p e(2) by (simp add: emit_def)
qed

lemma declare_variable:
  assumes "in_body \<Gamma> n es (2 + m) (Suc k) self" and "name_at self q l x" and "x \<notin> fst ` set es"
  obtains h s self1 self2 where "tc_add_symbol self q l SYM_VARIABLE (n + 1) 0 0 = Ret (h, self1)" "tc_save_registers self1 1 = Ret self2"
    "grows self self2" "pos self2 = pos self + 2" "code_at (code self2) (pos self) (push_bytes 1)"
    "in_body (\<Gamma>(x \<mapsto> Slot (n + 1))) (n + 1) ((x, h, s) # es) m k self2" "fn_return_type self2 = fn_return_type self"
    "sees self2 = sees self" "next_register self2 = 0"
proof -
  let ?s = "\<lparr>sym_name = q, sym_length = l, sym_kind = SYM_VARIABLE, sym_value = n + 1, sym_type = 0, sym_dim = 0, sym_next = symbols self\<rparr>"
  let ?h = "heap self"
  note b = in_bodyD[OF assms(1)]
  have t: "syms_at self (symbols self) es" "\<And>w b. \<Gamma> w = Some b \<Longrightarrow> \<exists>q s. map_of es w = Some (q, s) \<and> describes b s"
    using b(4) by (auto simp: table_def)
  have hl: "unat ?h + 64 \<le> unat (heap_limit self)" using b(7) by simp
  note a = add_symbol[OF t(1) assms(2,3) heap_nonzero[OF b(2)] hl, of SYM_VARIABLE "n + 1" 0 0]
  define self1 where "self1 = put_cell (self\<lparr>heap := heap self + 64\<rparr>) (heap self) (Sym ?s)\<lparr>symbols := ?h\<rparr>"
  have "code_ok self1 = code_ok self" by (simp add: self1_def code_ok_def put_cell_def)
  then have f: "pos self1 = pos self" "code self1 = code self" "code_ok self1" "code_base self1 = code_base self"
    "dst_limit self1 = dst_limit self" "source self1 = source self" "heap_limit self1 = heap_limit self"
    "frame_size self1 = n" "fn_return_type self1 = fn_return_type self" "symbols self1 = ?h"
    using b(6,5) by (simp_all add: self1_def pos_def put_cell_def)
  have k1: "keeps self self1" "?h \<le> heap self1" "unat (heap self1) = unat ?h + 64"
    using a(3-5) by (simp_all add: self1_def keeps_def)
  have "syms_at self1 ?h ((x, ?h, ?s) # es)"
    by (rule syms_at_keeps[OF a(2)]) (simp_all add: self1_def keeps_cells)
  then have t1: "table (\<Gamma>(x \<mapsto> Slot (n + 1))) ((x, ?h, ?s) # es) self1" using t(2) f(10) by (simp add: table_def)
  have g1: "grows self self1" using f k1 by (simp add: grows_def)
  have "room (2 * unat (1 :: u64)) self1" using b(3) f(1,2) by (simp add: room_def)
  then obtain self2 where s2: "tc_save_registers self1 1 = Ret self2" "grows self1 self2" "pos self2 = pos self1 + 2 * unat (1 :: u64)"
    "code_at (code self2) (pos self1) (push_bytes (unat (1 :: u64)))" "frame_size self2 = frame_size self1 + 1" "next_register self2 = 0"
    "cells self2 = cells self1" "heap self2 = heap self1" "symbols self2 = symbols self1" "fn_return_type self2 = fn_return_type self1"
    "sees self2 = sees self1" by (rule save_registers[OF f(3)])
  have g: "grows self self2" by (rule grows_trans[OF g1 s2(2)])
  then have g': "code_ok self2" "length (code self2) = length (code self)" "heap_limit self2 = heap_limit self" "keeps self self2"
    "?h \<le> heap self2" "source self2 = source self" by (simp_all add: grows_def)
  have tb: "table (\<Gamma>(x \<mapsto> Slot (n + 1))) ((x, ?h, ?s) # es) self2"
    by (rule table_keeps[OF t1]) (use s2(7-9) g'(6) f(6) in \<open>simp_all add: keeps_cells\<close>)
  have hp: "unat (heap self2) + 64 * k + 288 \<le> unat (heap_limit self2)" using k1(3) b(7) g'(3) s2(8) by simp
  have "length (code self) < 0x80000000" using b(1) by (simp add: settled_def)
  then have st: "settled (\<Gamma>(x \<mapsto> Slot (n + 1))) self2"
    using g' table_scope[OF tb] hp by (simp add: settled_def)
  have ff: "fn_return_type self2 = fn_return_type self" using f(9) s2(10) by simp
  have "returns_int self2" using b(2) g'(4,5) unfolding returns_int_def ff by (auto simp: keeps_def below_def le_u64)
  moreover have "room m self2" using b(3) s2(3) f(1) g'(2) by (simp add: room_def)
  ultimately have "in_body (\<Gamma>(x \<mapsto> Slot (n + 1))) (n + 1) ((x, ?h, ?s) # es) m k self2"
    using tb hp st s2(5) f(8) by (simp add: in_body_def)
  moreover have "tc_add_symbol self q l SYM_VARIABLE (n + 1) 0 0 = Ret (?h, self1)" using a(1) by (simp add: tc_add_symbol_def self1_def)
  moreover have "sees self2 = sees self"
    unfolding s2(11) by (rule ext, rule sees_cong) (simp_all add: self1_def put_cell_def)
  ultimately show thesis using that s2(1,3,4,6) g f(1) ff by simp
qed

lemma in_body_advances:
  assumes "in_body \<Gamma> n es (j + m) k self" and "advances self self'" and "pos self' = pos self + j"
  shows "in_body \<Gamma> n es m k self'"
proof -
  note q = in_bodyD[OF assms(1)] and e = advances_eqD[OF assms(2)]
  show ?thesis
    using settled_advances[OF q(1) assms(2)] returns_advances[OF q(2) assms(2)] room_later[OF q(3) assms(2,3)]
      table_advances[OF q(4) assms(2)] q(5,7) e assms(2)
    by (simp add: in_body_def advances_def)
qed

text \<open>A declaration without a type: the token 61 is \<open>=\<close>.\<close>

lemma parse_let:
  assumes "token_of t = TC_LET" and "keyword_token x = TC_IDENTIFIER" and "phrase 0 ts e"
    and "sees self (t # Word x # Other 61 # ts @ Other 59 # u # us)" and "expr_ok \<Gamma> 0 e" and "length ts < f"
    and "in_body \<Gamma> n es (length (expr_code \<Gamma> n 0 e) + 2 + m) (Suc k) self" and "x \<notin> fst ` set es" and "next_register self = 0"
  obtains h s self' where "tc_parse_let_stmt f self (n + 1) = Ret (n + 1 + 1, self')" "sees self' (u # us)" "grows self self'"
    "pos self' = pos self + length (expr_code \<Gamma> n 0 e) + 2" "code_at (code self') (pos self) (expr_code \<Gamma> n 0 e @ push_bytes 1)"
    "in_body (\<Gamma>(x \<mapsto> Slot (n + 1))) (n + 1) ((x, h, s) # es) m k self'" "fn_return_type self' = fn_return_type self" "next_register self' = 0"
proof -
  let ?bs = "expr_code \<Gamma> n 0 e"
  obtain self1 where s1: "tc_read_token self = Ret self1" "sees self1 (Word x # Other 61 # ts @ Other 59 # u # us)"
    "off_scanner self1 = off_scanner self" using assms(4) by (rule read_sees)
  obtain self2 where s2: "tc_read_token self1 = Ret self2" "sees self2 (Other 61 # ts @ Other 59 # u # us)"
    "off_scanner self2 = off_scanner self1" using s1(2) by (rule read_sees)
  obtain self3 where s3: "tc_read_token self2 = Ret self3" "sees self3 (ts @ Other 59 # u # us)" "off_scanner self3 = off_scanner self2"
    using s2(2) by (rule sees_cons)
  note id = parse_identifier_sees[OF s1(2) assms(2)]
  let ?q = "next_token_data self1" and ?l = "next_token_length self1"
  have o3: "off_scanner self3 = off_scanner self" using s1(3) s2(3) s3(3) by simp
  have b3: "in_body \<Gamma> n es (length ?bs + (2 + m)) (Suc k) self3" using assms(7) in_body_read[OF o3] by (simp add: add.assoc)
  obtain self4 self5 v where s4: "tc_parse_expr f self3 = Ret self4" "tc_parse_token self4 59 = Ret self5"
    "tc_pop_value self5 = Ret (v, self5\<lparr>heap := heap self3\<rparr>)" "int_value v" "sees self5 (u # us)"
    "advances self3 (self5\<lparr>heap := heap self3\<rparr>)" "pos (self5\<lparr>heap := heap self3\<rparr>) = pos self3 + length ?bs"
    "code_at (code self5) (pos self3) ?bs"
    by (rule parse_whole_popped[OF assms(3) s3(2) assms(5,6) b3]) (use assms(9) off_scanner_core(4)[OF o3] in simp)
  let ?self6 = "self5\<lparr>heap := heap self3\<rparr>"
  have b6: "in_body \<Gamma> n es (2 + m) (Suc k) ?self6" by (rule in_body_advances[OF b3 s4(6,7)])
  have n6: "name_at ?self6 ?q ?l x"
    using id(2) core_eqD(1)[OF off_scanner_core(1)[OF s2(3)]] core_eqD(1)[OF off_scanner_core(1)[OF s3(3)]] advances_eqD(1)[OF s4(6)]
    by (simp add: name_at_def)
  obtain h s self7 self8 where s8: "tc_add_symbol ?self6 ?q ?l SYM_VARIABLE (n + 1) 0 0 = Ret (h, self7)" "tc_save_registers self7 1 = Ret self8"
    "grows ?self6 self8" "pos self8 = pos ?self6 + 2" "code_at (code self8) (pos ?self6) (push_bytes 1)"
    "in_body (\<Gamma>(x \<mapsto> Slot (n + 1))) (n + 1) ((x, h, s) # es) m k self8" "fn_return_type self8 = fn_return_type ?self6"
    "sees self8 = sees ?self6" "next_register self8 = 0" by (rule declare_variable[OF b6 n6 assms(8)])
  have p3: "pos self3 = pos self" by (rule advances_read(3)[OF o3])
  have nt: "next_token self = TC_LET" "next_token self2 = 61" using sees_token[OF assms(4)] sees_token[OF s2(2)] assms(1) by simp_all
  have "tc_parse_let_stmt f self (n + 1) = Ret (n + 1 + 1, self8)"
    using nt s1(1) id(1) s2(1) s3(1) s4(1-4) s8(1,2)
    by (simp add: tc_parse_let_stmt_def tc_parse_token_def Let_def int_value_def)
  moreover have "sees self8 (u # us)" using s4(5) s8(8) by (simp del: sees.simps)
  moreover have "grows self self8"
    by (rule grows_trans[OF advances_grows s8(3)]) (use s4(6) advances_read(1)[OF o3] in simp)
  moreover have "code_at (code self8) (pos self) (?bs @ push_bytes 1)"
    using code_at_grows[of ?self6 "pos self" ?bs self8] s4(7,8) s8(3,5) p3 by (simp add: code_at_append)
  moreover have "fn_return_type self8 = fn_return_type self"
    using s8(7) advances_eqD(6)[OF s4(6)] core_eqD(9)[OF off_scanner_core(1)[OF o3]] by simp
  ultimately show thesis using that s8(4,6,9) s4(7) p3 by simp
qed

section \<open>Bodies\<close>

text \<open>The grammar of the items of a body.\<close>

inductive item_phrases :: "lexeme list \<Rightarrow> item list \<Rightarrow> bool" where
  none: "item_phrases [] []"
| declares: "token_of t = TC_LET \<Longrightarrow> keyword_token x = TC_IDENTIFIER \<Longrightarrow> phrase 0 ts e \<Longrightarrow> item_phrases us is \<Longrightarrow>
    item_phrases (t # Word x # Other 61 # ts @ Other 59 # us) (Declares x e # is)"
| does: "parses ts s \<Longrightarrow> item_phrases us is \<Longrightarrow> item_phrases (ts @ us) (Does s # is)"

lemma item_phrases_first:
  assumes "item_phrases ts is" and "token_of u = 125"
  shows "\<exists>v vs. ts @ u # us = v # vs \<and> token_of v \<noteq> TC_ELSE"
  using assms(1)
proof (cases rule: item_phrases.cases)
  case (does ts' s us' is')
  then show ?thesis using parses_first[of ts' s] by (cases ts') (auto simp: tokens)
qed (use assms(2) in \<open>simp_all add: tokens\<close>)

text \<open>The loop of \<open>tc_parse_fn_body\<close>.\<close>

definition body_loop :: "nat \<Rightarrow> nat \<Rightarrow> u64 \<times> u64 \<times> compiler \<Rightarrow> (u64 \<times> u64 \<times> compiler) res" where
  "body_loop f k = while_do k (\<lambda>(next_variable, state, self). next_token self \<noteq> 125)
     (\<lambda>(next_variable, state, self).
       if state = END_UNREACHABLE then Panic 40
       else if next_token self = TC_CONST
       then seq (tc_parse_const f self) (\<lambda>self. Ret (next_variable, state, self))
       else if next_token self = TC_LET
       then seq (tc_parse_let_stmt f self next_variable) (\<lambda>(next_variable, self). Ret (next_variable, state, self))
       else seq (tc_parse_stmt f self None) (\<lambda>(state, _, self). Ret (next_variable, state, self)))"

lemma body_loop_stops: "next_token self = 125 \<Longrightarrow> body_loop f k (v, st, self) = Ret (v, st, self)"
  by (cases k) (simp_all add: body_loop_def)

lemma body_loop_let:
  "next_token self = TC_LET \<Longrightarrow> body_loop f (Suc k) (v, END_REACHABLE, self) =
     seq (tc_parse_let_stmt f self v) (\<lambda>(v, self). body_loop f k (v, END_REACHABLE, self))"
  by (simp add: body_loop_def tokens seq_assoc split_def)

lemma body_loop_stmt:
  "next_token self \<notin> {125, TC_CONST, TC_LET} \<Longrightarrow> body_loop f (Suc k) (v, END_REACHABLE, self) =
     seq (tc_parse_stmt f self None) (\<lambda>(state, r, self). body_loop f k (v, state, self))"
  by (simp add: body_loop_def seq_assoc split_def)

lemma parses_first_not:
  "parses ts s \<Longrightarrow> sees self (ts @ us) \<Longrightarrow> next_token self \<notin> {125, TC_CONST, TC_LET}"
  using parses_first[of ts s] first_token[of self ts us] by (auto simp: tokens)

text \<open>The code of a body, and the state behind it.\<close>

lemma parse_items:
  assumes "token_of u = 125"
  shows "item_phrases ts is \<Longrightarrow> items_ok \<Gamma> n is \<Longrightarrow> sees self (ts @ u # us) \<Longrightarrow> length ts < f \<Longrightarrow> length ts \<le> g \<Longrightarrow>
     in_body \<Gamma> n es (items_size \<Gamma> n is) (length (names_of is)) self \<Longrightarrow> next_register self = 0 \<Longrightarrow>
     distinct (names_of is) \<Longrightarrow> set (names_of is) \<inter> fst ` set es = {} \<Longrightarrow>
     \<exists>v self'. body_loop f g (n + 1, END_REACHABLE, self) = Ret (v, END_UNREACHABLE, self') \<and> sees self' (u # us) \<and>
       next_register self' = 0 \<and> grows self self' \<and> pos self' = pos self + items_size \<Gamma> n is \<and> code_at (code self') (pos self) (items_code \<Gamma> n (pos self) is)"
proof (induction arbitrary: \<Gamma> n es self g rule: item_phrases.induct)
  case none
  then show ?case by simp
next
  case (declares t x ts e us' "is")
  let ?bs = "expr_code \<Gamma> n 0 e" and ?\<Gamma> = "\<Gamma>(x \<mapsto> Slot (n + 1))"
  obtain w ws where w: "us' @ u # us = w # ws" by (cases us') auto
  obtain g' where g: "g = Suc g'" using declares.prems(4) by (cases g) auto
  have s: "sees self (t # Word x # Other 61 # ts @ Other 59 # w # ws)" using declares.prems(2) w by simp
  have ok: "expr_ok \<Gamma> 0 e" "items_ok ?\<Gamma> (n + 1) is" "length ts < f" "x \<notin> fst ` set es"
    using declares.prems(1,3,8) by (simp_all del: fun_upd_apply)
  have b: "in_body \<Gamma> n es (length ?bs + 2 + items_size ?\<Gamma> (n + 1) is) (Suc (length (names_of is))) self"
    using declares.prems(5) by (simp del: fun_upd_apply)
  obtain h y self1 where s1: "tc_parse_let_stmt f self (n + 1) = Ret (n + 1 + 1, self1)" "sees self1 (w # ws)" "grows self self1"
    "pos self1 = pos self + length ?bs + 2" "code_at (code self1) (pos self) (?bs @ push_bytes 1)"
    "in_body ?\<Gamma> (n + 1) ((x, h, y) # es) (items_size ?\<Gamma> (n + 1) is) (length (names_of is)) self1"
    "fn_return_type self1 = fn_return_type self" "next_register self1 = 0"
    by (rule parse_let[OF declares.hyps(1-3) s ok(1,3) b ok(4) declares.prems(6)])
  have s2: "sees self1 (us' @ u # us)" using s1(2) w by simp
  have l: "length us' < f" "length us' \<le> g'" "distinct (names_of is)" "set (names_of is) \<inter> fst ` set ((x, h, y) # es) = {}"
    using declares.prems(3,4,7,8) g by auto
  obtain v self2 where s3: "body_loop f g' (n + 1 + 1, END_REACHABLE, self1) = Ret (v, END_UNREACHABLE, self2)" "sees self2 (u # us)"
    "next_register self2 = 0" "grows self1 self2" "pos self2 = pos self1 + items_size ?\<Gamma> (n + 1) is"
    "code_at (code self2) (pos self1) (items_code ?\<Gamma> (n + 1) (pos self1) is)"
    using declares.IH[OF ok(2) s2 l(1,2) s1(6,8) l(3,4)] by blast
  have nt: "next_token self = TC_LET" using sees_token[OF s] declares.hyps(1) by simp
  have "body_loop f g (n + 1, END_REACHABLE, self) = Ret (v, END_UNREACHABLE, self2)"
    using body_loop_let[OF nt] s1(1) s3(1) g by simp
  moreover have "code_at (code self2) (pos self) (?bs @ push_bytes 1)"
    by (rule code_at_grows[OF s1(5) s3(4)]) (simp add: s1(4))
  ultimately show ?case
    using s3(2,3,5,6) grows_trans[OF s1(3) s3(4)] s1(4) by (auto simp: code_at_append simp del: sees.simps fun_upd_apply)
next
  case (does ts s us' "is")
  obtain v vs where v: "us' @ u # us = v # vs" "token_of v \<noteq> TC_ELSE" using item_phrases_first[OF does.hyps(2) assms] by blast
  obtain t ts' where t: "ts = t # ts'" using parses_first[OF does.hyps(1)] by (cases ts) auto
  obtain g' where g: "g = Suc g'" using does.prems(4) t by (cases g) auto
  have s: "sees self (ts @ v # vs)" using does.prems(2) v(1) by simp
  have ok: "stmt_ok \<Gamma> False s" using does.prems(1) by simp
  have b: "in_body \<Gamma> n es (stmt_size \<Gamma> n s + items_size \<Gamma> n is) (length (names_of is)) self" using does.prems(5) by simp
  note d = in_bodyD[OF b]
  have pr: "prepared \<Gamma> self (stmt_size \<Gamma> (frame_size self) s) []"
    using prepared_less[OF d(8)[OF does.prems(6)]] d(5) by simp
  have "length ts < f" using does.prems(3) by simp
  then obtain self1 where s1: "tc_parse_stmt f self None = Ret (end_state (falls s), None, self1)" "sees self1 (v # vs)"
    "next_register self1 = 0" "emits self self1 (stmt_size \<Gamma> (frame_size self) s) [] [] (\<lambda>x. stmt_code \<Gamma> (frame_size self) (pos self) x s)"
    using stmt_parser[OF does.hyps(1) ok s v(2) _ pr] by metis
  note e = emitsD[OF s1(4), unfolded d(5)]
  have at: "code_at (code self1) (pos self) (stmt_code \<Gamma> n (pos self) 0 s)" using makes_code_at[OF e(4), of 0] by simp
  have loop: "body_loop f g (n + 1, END_REACHABLE, self) = body_loop f g' (n + 1, end_state (falls s), self1)"
    unfolding g body_loop_stmt[OF parses_first_not[OF does.hyps(1) s]] by (simp add: s1(1))
  show ?case
  proof (cases "is = []")
    case True
    then have "us' = []" using does.hyps(2) by (auto elim: item_phrases.cases dest: parses_first)
    then have s2: "sees self1 (u # us)" using s1(2) v(1) by simp
    have "next_token self1 = 125" using sees_token[OF s2] assms by simp
    then have "body_loop f g (n + 1, END_REACHABLE, self) = Ret (n + 1, END_UNREACHABLE, self1)"
      using loop body_loop_stops does.prems(1) True by (simp add: end_state_def)
    then show ?thesis using s2 s1(3) advances_grows[OF e(1)] e(2) at True by auto
  next
    case False
    then have fl: "falls s" "items_ok \<Gamma> n is" using does.prems(1) by simp_all
    have b1: "in_body \<Gamma> n es (items_size \<Gamma> n is) (length (names_of is)) self1" by (rule in_body_advances[OF b e(1,2)])
    have s2: "sees self1 (us' @ u # us)" using s1(2) v(1) by simp
    have l: "length us' < f" "length us' \<le> g'" "distinct (names_of is)" "set (names_of is) \<inter> fst ` set es = {}"
      using does.prems(3,4,7,8) g t by auto
    obtain w self2 where s3: "body_loop f g' (n + 1, END_REACHABLE, self1) = Ret (w, END_UNREACHABLE, self2)" "sees self2 (u # us)"
      "next_register self2 = 0" "grows self1 self2" "pos self2 = pos self1 + items_size \<Gamma> n is" "code_at (code self2) (pos self1) (items_code \<Gamma> n (pos self1) is)"
      using does.IH[OF fl(2) s2 l(1,2) b1 s1(3) l(3,4)] by blast
    have "code_at (code self2) (pos self) (stmt_code \<Gamma> n (pos self) 0 s)" by (rule code_at_grows[OF at s3(4)]) (simp add: e(2))
    then show ?thesis
      using loop s3 fl(1) e(2) grows_trans[OF advances_grows[OF e(1)] s3(4)]
      by (auto simp: code_at_append simp del: sees.simps)
  qed
qed

end
