(* ===== verification/Tc_Fn_Head.thy ===== *)
theory Tc_Fn_Head
  imports Tc_Fn_Parse
begin

text \<open>
  The head of a function: its name, its parameters, and its result, which are integers. Parameters are
  in a list of symbols of their own, from which the body copies them into the symbol table.
\<close>

section \<open>New cells\<close>

text \<open>\<open>k\<close> symbols have been allocated, and nothing else has changed but the scanner.\<close>

definition allocates :: "nat \<Rightarrow> compiler \<Rightarrow> compiler \<Rightarrow> bool" where
  "allocates k self self' \<longleftrightarrow> core self' = core self \<and> keeps self self' \<and>
     unat (heap self') = unat (heap self) + 64 * k \<and> next_register self' = next_register self"

lemma allocates_heap: "allocates k self self' \<Longrightarrow> heap self \<le> heap self'"
  by (simp add: allocates_def le_u64)

lemma allocates_trans: "allocates j self self1 \<Longrightarrow> allocates k self1 self2 \<Longrightarrow> allocates (j + k) self self2"
  using keeps_trans[of self self1 self2] allocates_heap[of j self self1] by (auto simp: allocates_def)

lemma allocates_read: "off_scanner self' = off_scanner self \<Longrightarrow> allocates 0 self self'"
  using off_scanner_core[of self' self] by (simp add: allocates_def keeps_cells)

lemma allocates_then_read: "allocates k self self1 \<Longrightarrow> off_scanner self2 = off_scanner self1 \<Longrightarrow> allocates k self self2"
  using allocates_trans[of k self self1 0 self2] allocates_read by simp

lemma allocates_syms: "allocates k self self' \<Longrightarrow> syms_at self p es \<Longrightarrow> syms_at self' p es"
  using syms_at_keeps[of self p es self'] allocates_heap[of k self self'] core_eqD(1)[of self' self] by (simp add: allocates_def)

lemma allocates_name: "allocates k self self' \<Longrightarrow> name_at self q l w \<Longrightarrow> name_at self' q l w"
  using core_eqD(1)[of self' self] by (simp add: allocates_def name_at_def)

text \<open>A symbol in front of a list.\<close>

lemma put_symbol_core [simp]: "core (put_cell self p c) = core self"
  by (simp add: put_cell_def)

lemma new_symbol:
  fixes kind v type dim :: u64
  assumes "syms_at self p es" and "name_at self name len w" and "w \<notin> fst ` set es" and "heap self \<noteq> 0"
    and "unat (heap self) + 64 \<le> unat (heap_limit self)"
  obtains self' s where "tc_new_symbol self name len kind v type dim p = Ret (heap self, self')" "allocates 1 self self'"
    "syms_at self' (heap self) ((w, heap self, s) # es)" "sym_kind s = kind" "sym_value s = v" "sym_type s = type" "sym_dim s = dim"
    "sees self' = sees self"
proof -
  let ?s = "\<lparr>sym_name = name, sym_length = len, sym_kind = kind, sym_value = v, sym_type = type, sym_dim = dim, sym_next = p\<rparr>"
  note a = add_symbol[OF assms, of kind v type dim]
  have "allocates 1 self (put_cell (self\<lparr>heap := heap self + 64\<rparr>) (heap self) (Sym ?s))"
    using a(3,5) by (simp add: allocates_def put_cell_def[of "self\<lparr>heap := _\<rparr>"])
  moreover have "sees (put_cell (self\<lparr>heap := heap self + 64\<rparr>) (heap self) (Sym ?s)) = sees self"
    by (rule ext, rule sees_cong) (simp_all add: put_cell_def)
  ultimately show thesis using that[OF a(1) _ a(2)] by simp
qed

section \<open>Types\<close>

abbreviation u64_word :: lexeme where "u64_word \<equiv> Word (chars ''u64'')"

lemma u64_token [simp]: "token_of u64_word = TC_U32"
proof -
  have "keyword_token (chars ''u64'') = TC_U32" by code_simp
  then show ?thesis by (simp add: token_of_def)
qed

lemma parse_u64:
  assumes "sees self (u64_word # u # us)"
  obtains self' where "tc_parse_type f self = Ret (0, 0, self')" "sees self' (u # us)" "off_scanner self' = off_scanner self"
proof -
  obtain self' where s: "tc_read_token self = Ret self'" "sees self' (u # us)" "off_scanner self' = off_scanner self"
    using assms by (rule read_sees)
  have t: "next_token self = TC_U32" using sees_token[OF assms] by simp
  have "while_do f (\<lambda>(dim, self). next_token self = TC_BIT_AND \<or> next_token self = TC_AND) b (0 :: u64, self) = Ret (0, self)" for b
    by (cases f) (simp_all add: t tokens)
  then have "tc_parse_type f self = Ret (0, 0, self')" using s(1) t by (simp add: tc_parse_type_def)
  then show thesis using that s(2,3) by blast
qed

section \<open>Parameters\<close>

text \<open>The tokens 44 and 58 are \<open>,\<close> and \<open>:\<close>.\<close>

fun param_tokens :: "bool \<Rightarrow> u8 list list \<Rightarrow> lexeme list" where
  "param_tokens b [] = []"
| "param_tokens b (x # xs) = (if b then [Other 44] else []) @ Word x # Other 58 # u64_word # param_tokens True xs"

definition param_step :: "nat \<Rightarrow> u64 \<times> u64 \<times> compiler \<Rightarrow> (u64 \<times> u64 \<times> compiler) res" where
  "param_step f = (\<lambda>(syms, i, self).
     seq (if i > 0 then tc_parse_token self 44 else Ret self) (\<lambda>self.
     seq (tc_parse_identifier self) (\<lambda>(name, len, self).
     seq (tc_parse_token self 58) (\<lambda>self.
     seq (tc_parse_type f self) (\<lambda>(type, dim, self).
     seq (tc_new_symbol self name len SYM_VARIABLE i type dim syms) (\<lambda>(syms, self).
     Ret (syms, i + 1, self)))))))"

definition param_loop :: "nat \<Rightarrow> nat \<Rightarrow> u64 \<times> u64 \<times> compiler \<Rightarrow> (u64 \<times> u64 \<times> compiler) res" where
  "param_loop f k = while_do k (\<lambda>(syms, i, self). next_token self \<noteq> 41) (param_step f)"

text \<open>The symbols of the parameters, the last one first.\<close>

definition param_symbols :: "nat \<Rightarrow> u8 list list \<Rightarrow> (u8 list \<times> u64 \<times> symbol) list \<Rightarrow> bool" where
  "param_symbols j xs es \<longleftrightarrow> list_all2 (\<lambda>(k, x) (y, p, s). y = x \<and> sym_kind s = SYM_VARIABLE \<and> sym_value s = of_nat k \<and>
     sym_type s = 0 \<and> sym_dim s = 0) (rev (enumerate j xs)) es"

lemma param_symbols_names: "param_symbols j xs es \<Longrightarrow> map fst es = rev xs"
proof -
  assume "param_symbols j xs es"
  then have "list_all2 (\<lambda>kx e. fst e = snd kx) (rev (enumerate j xs)) es"
    unfolding param_symbols_def by (rule list_all2_mono) auto
  then have "map fst es = map snd (rev (enumerate j xs))" by (induction rule: list_all2_induct) simp_all
  then show ?thesis by (simp add: rev_map[symmetric])
qed

text \<open>One parameter.\<close>

lemma parse_param:
  assumes "sees self ((if b then [Other 44] else []) @ Word x # Other 58 # u64_word # u # us)" and "keyword_token x = TC_IDENTIFIER"
    and "syms_at self p es" and "x \<notin> fst ` set es" and "heap self \<noteq> 0" and "unat (heap self) + 64 \<le> unat (heap_limit self)"
    and "b \<longleftrightarrow> i > 0"
  obtains q s self' where "param_step f (p, i, self) = Ret (q, i + 1, self')"
    "sees self' (u # us)" "allocates 1 self self'" "syms_at self' q ((x, q, s) # es)" "sym_kind s = SYM_VARIABLE" "sym_value s = i"
    "sym_type s = 0" "sym_dim s = 0"
proof -
  obtain self1 where s1: "(if i > 0 then tc_parse_token self 44 else Ret self) = Ret self1" "sees self1 (Word x # Other 58 # u64_word # u # us)"
    "off_scanner self1 = off_scanner self"
  proof (cases b)
    case True
    then have s: "sees self (Other 44 # Word x # Other 58 # u64_word # u # us)" using assms(1) by simp
    then obtain self1 where "tc_read_token self = Ret self1" "sees self1 (Word x # Other 58 # u64_word # u # us)" "off_scanner self1 = off_scanner self"
      by (rule read_sees)
    then show thesis using that parse_token_sees[OF s] True assms(7) by simp
  qed (use that[of self] assms(1,7) in simp)
  note id = parse_identifier_sees[OF s1(2) assms(2)]
  obtain self2 where s2: "tc_read_token self1 = Ret self2" "sees self2 (Other 58 # u64_word # u # us)" "off_scanner self2 = off_scanner self1"
    using s1(2) by (rule read_sees)
  obtain self3 where s3: "tc_read_token self2 = Ret self3" "sees self3 (u64_word # u # us)" "off_scanner self3 = off_scanner self2"
    using s2(2) by (rule read_sees)
  obtain self4 where s4: "tc_parse_type f self3 = Ret (0, 0, self4)" "sees self4 (u # us)" "off_scanner self4 = off_scanner self3"
    using s3(2) by (rule parse_u64)
  have o: "off_scanner self4 = off_scanner self1" "off_scanner self4 = off_scanner self" using s1(3) s2(3) s3(3) s4(3) by simp_all
  note a = allocates_read[OF o(2)]
  have h: "heap self4 = heap self" "heap_limit self4 = heap_limit self"
    using off_scanner_core(3)[OF o(2)] core_eqD(7)[OF off_scanner_core(1)[OF o(2)]] by simp_all
  have n4: "name_at self4 (next_token_data self1) (next_token_length self1) x"
    by (rule allocates_name[OF allocates_read[OF o(1)] id(2)])
  have "heap self4 \<noteq> 0" "unat (heap self4) + 64 \<le> unat (heap_limit self4)" using assms(5,6) h by simp_all
  from new_symbol[OF allocates_syms[OF a assms(3)] n4 assms(4) this]
  obtain self5 s where s5: "tc_new_symbol self4 (next_token_data self1) (next_token_length self1) SYM_VARIABLE i 0 0 p = Ret (heap self4, self5)"
    "allocates 1 self4 self5" "syms_at self5 (heap self4) ((x, heap self4, s) # es)" "sym_kind s = SYM_VARIABLE" "sym_value s = i"
    "sym_type s = 0" "sym_dim s = 0" "sees self5 = sees self4" by metis
  have "tc_parse_token self2 58 = Ret self3" using parse_token_sees[OF s2(2)] s3(1) by simp
  then show thesis
    using that[of "heap self4" self5 s] s1(1) id(1) s2(1) s4(1,2) s5 allocates_trans[OF a s5(2)] by (simp add: param_step_def del: sees.simps)
qed

lemma param_loop_goes:
  "next_token self \<noteq> 41 \<Longrightarrow> param_loop f (Suc k) (p, i, self) = seq (param_step f (p, i, self)) (param_loop f k)"
  by (simp add: param_loop_def)

lemma params_next: "\<exists>v vs. param_tokens b xs @ Other 41 # us = v # vs"
  by (cases xs) simp_all

lemma parse_params:
  "sees self (param_tokens (0 < j) xs @ Other 41 # us) \<Longrightarrow> syms_at self p es \<Longrightarrow> length xs \<le> k \<Longrightarrow>
   list_all (\<lambda>x. keyword_token x = TC_IDENTIFIER) xs \<Longrightarrow> distinct xs \<Longrightarrow> set xs \<inter> fst ` set es = {} \<Longrightarrow>
   heap self \<noteq> 0 \<Longrightarrow> unat (heap self) + 64 * length xs \<le> unat (heap_limit self) \<Longrightarrow> j + length xs < 0x10000 \<Longrightarrow>
   \<exists>q ps self'. param_loop f k (p, of_nat j, self) = Ret (q, of_nat (j + length xs), self') \<and> sees self' (Other 41 # us) \<and>
     allocates (length xs) self self' \<and> syms_at self' q (ps @ es) \<and> param_symbols j xs ps"
proof (induction xs arbitrary: j self p es k)
  case Nil
  have "next_token self = 41" using sees_token[of self "Other 41" us] Nil.prems(1) by simp
  then have "param_loop f k (p, of_nat j, self) = Ret (p, of_nat (j + length []), self)" by (cases k) (simp_all add: param_loop_def)
  then show ?case using Nil.prems(1,2) by (auto simp: allocates_def param_symbols_def)
next
  case (Cons x xs)
  obtain v vs where v: "param_tokens True xs @ Other 41 # us = v # vs" using params_next by blast
  obtain k' where k: "k = Suc k'" using Cons.prems(3) by (cases k) auto
  have s: "sees self ((if 0 < j then [Other 44] else []) @ Word x # Other 58 # u64_word # v # vs)"
    using Cons.prems(1) v by (cases j) (simp_all del: sees.simps)
  have i: "0 < j \<longleftrightarrow> (of_nat j :: u64) > 0" using Cons.prems(9) by (simp add: less_u64 unat_of_nat_u64)
  have h: "keyword_token x = TC_IDENTIFIER" "x \<notin> fst ` set es" "unat (heap self) + 64 \<le> unat (heap_limit self)"
    using Cons.prems(4,6,8) by auto
  obtain q y self1 where s1: "param_step f (p, of_nat j, self) = Ret (q, of_nat j + 1, self1)"
    "sees self1 (v # vs)" "allocates 1 self self1" "syms_at self1 q ((x, q, y) # es)" "sym_kind y = SYM_VARIABLE" "sym_value y = of_nat j"
    "sym_type y = 0" "sym_dim y = 0"
    by (rule parse_param[OF s h(1) Cons.prems(2) h(2) Cons.prems(7) h(3) i])
  have nt: "next_token self \<noteq> 41"
  proof (cases j)
    case 0
    then have "next_token self = token_of (Word x)" using sees_token[of self "Word x" "Other 58 # u64_word # v # vs"] s by simp
    then show ?thesis using h(1) by (simp add: token_of_def tokens)
  next
    case (Suc i)
    then have "next_token self = token_of (Other 44)" using sees_token[of self "Other 44" "Word x # Other 58 # u64_word # v # vs"] s by (simp del: sees.simps)
    then show ?thesis by simp
  qed
  have loop: "param_loop f k (p, of_nat j, self) = param_loop f k' (q, of_nat (Suc j), self1)"
    using param_loop_goes[OF nt, of f k' p "of_nat j"] s1(1) k by (simp add: add.commute)
  have hp: "heap self1 \<noteq> 0" "unat (heap self1) + 64 * length xs \<le> unat (heap_limit self1)"
    using s1(3) Cons.prems(7,8) core_eqD(7)[of self1 self] by (auto simp: allocates_def)
  have s2: "sees self1 (param_tokens (0 < Suc j) xs @ Other 41 # us)" using s1(2) v by simp
  have c: "length xs \<le> k'" "list_all (\<lambda>x. keyword_token x = TC_IDENTIFIER) xs" "distinct xs" "set xs \<inter> fst ` set ((x, q, y) # es) = {}"
    "Suc j + length xs < 0x10000" using Cons.prems(3-6,9) k by auto
  obtain q' ps self2 where s3: "param_loop f k' (q, of_nat (Suc j), self1) = Ret (q', of_nat (Suc j + length xs), self2)"
    "sees self2 (Other 41 # us)" "allocates (length xs) self1 self2" "syms_at self2 q' (ps @ (x, q, y) # es)" "param_symbols (Suc j) xs ps"
    using Cons.IH[OF s2 s1(4) c(1-4) hp c(5)] by blast
  have "param_symbols j (x # xs) (ps @ [(x, q, y)])"
    using s3(5) s1(5-8) by (simp add: param_symbols_def list_all2_appendI)
  moreover have "allocates (length (x # xs)) self self2" using allocates_trans[OF s1(3) s3(3)] by simp
  moreover have "syms_at self2 q' ((ps @ [(x, q, y)]) @ es)" using s3(4) by simp
  moreover have "param_loop f k (p, of_nat j, self) = Ret (q', of_nat (j + length (x # xs)), self2)" using loop s3(1) by simp
  ultimately show ?case using s3(2) by blast
qed

section \<open>The symbol of the function\<close>

text \<open>A symbol is changed in place; lists without its name do not change.\<close>

lemma name_at_unique: "name_at self p n w \<Longrightarrow> name_at self p n u \<Longrightarrow> w = u"
proof -
  assume a: "name_at self p n w" "name_at self p n u"
  then have "length w = length u" using name_at_length[OF a(1)] name_at_length[OF a(2)] by simp
  then show "w = u" using a by (auto simp: name_at_def)
qed

lemma put_symbol_simps [simp]:
  "core (put_symbol self a s) = core self" "heap (put_symbol self a s) = heap self"
  "next_register (put_symbol self a s) = next_register self" "source (put_symbol self a s) = source self"
  "sees (put_symbol self a s) = sees self"
proof -
  show "sees (put_symbol self a s) = sees self" by (rule ext, rule sees_cong) (simp_all add: put_symbol_def)
qed (simp_all add: put_symbol_def core_def)

lemma syms_at_put:
  assumes "cells self a = Some (Sym s)" and "name_at self (sym_name s) (sym_length s) w"
  shows "syms_at self p es \<Longrightarrow> w \<notin> fst ` set es \<Longrightarrow> syms_at (put_symbol self a s') p es"
proof (induction es arbitrary: p)
  case (Cons e es)
  obtain x q t where e: "e = (x, q, t)" by (cases e) auto
  then have c: "cells self q = Some (Sym t)" "name_at self (sym_name t) (sym_length t) x" "syms_at self (sym_next t) es"
    using Cons.prems(1) by auto
  have "q \<noteq> a"
  proof
    assume "q = a"
    then have "x = w" using c(1,2) assms name_at_unique by simp
    then show False using Cons.prems(2) e by simp
  qed
  then show ?case using Cons.IH[OF c(3)] Cons.prems e by (simp add: put_symbol_def name_at_def)
qed simp

lemma syms_at_put_head:
  assumes "syms_at self p ((w, a, s) # es)" and "w \<notin> fst ` set es" and "sym_name s' = sym_name s" "sym_length s' = sym_length s" "sym_next s' = sym_next s"
  shows "syms_at (put_symbol self a s') p ((w, a, s') # es)"
proof -
  have c: "cells self a = Some (Sym s)" "name_at self (sym_name s) (sym_length s) w" "syms_at self (sym_next s) es" using assms(1) by auto
  show ?thesis using syms_at_put[OF c assms(2), of s'] assms by (simp add: put_symbol_def name_at_def below_def)
qed

lemma keeps_put_symbol:
  assumes "keeps self self'" and "heap self \<le> a"
  shows "keeps self (put_symbol self' a s)"
  unfolding keeps_def
proof (intro allI impI)
  fix x d assume x: "cells self x = Some d" "below (heap self) x d"
  have "x \<noteq> a" using x(2) assms(2) by (cases d) (auto simp: below_def le_u64 SYMBOL_SIZE_def VALUE_SIZE_def)
  then show "cells (put_symbol self' a s) x = Some d" using assms(1) x by (simp add: keeps_def put_symbol_def)
qed

section \<open>Parameters and result\<close>

lemma parse_result:
  assumes "sees self (Other 41 # Other TC_ARROW # u64_word # u # us)" and "syms_at self p ps" and "[] \<notin> fst ` set ps"
    and "heap self \<noteq> 0" and "unat (heap self) + 64 \<le> unat (heap_limit self)" and "length (source self) \<le> 65536"
  obtains self1 self2 self3 self4 s where "tc_read_token self = Ret self1" "next_token self1 = TC_ARROW" "tc_read_token self1 = Ret self2"
    "tc_parse_type f self2 = Ret (0, 0, self3)" "tc_new_symbol self3 0 0 SYM_VARIABLE 0 0 0 p = Ret (heap self, self4)"
    "sees self4 (u # us)" "allocates 1 self self4" "syms_at self4 (heap self) (([], heap self, s) # ps)"
    "sym_kind s = SYM_VARIABLE" "sym_type s = 0" "sym_dim s = 0"
proof -
  obtain self1 where s1: "tc_read_token self = Ret self1" "sees self1 (Other TC_ARROW # u64_word # u # us)" "off_scanner self1 = off_scanner self"
    using assms(1) by (rule read_sees)
  obtain self2 where s2: "tc_read_token self1 = Ret self2" "sees self2 (u64_word # u # us)" "off_scanner self2 = off_scanner self1"
    using s1(2) by (rule read_sees)
  obtain self3 where s3: "tc_parse_type f self2 = Ret (0, 0, self3)" "sees self3 (u # us)" "off_scanner self3 = off_scanner self2"
    using s2(2) by (rule parse_u64)
  have o: "off_scanner self3 = off_scanner self" using s1(3) s2(3) s3(3) by simp
  note a = allocates_read[OF o]
  have h: "heap self3 = heap self" "heap_limit self3 = heap_limit self" "source self3 = source self"
    using off_scanner_core(3)[OF o] core_eqD(1,7)[OF off_scanner_core(1)[OF o]] by simp_all
  have "name_at self3 0 0 []" using assms(6) h(3) by (simp add: name_at_def window_def)
  moreover have "heap self3 \<noteq> 0" "unat (heap self3) + 64 \<le> unat (heap_limit self3)" using assms(4,5) h by simp_all
  ultimately obtain self4 s where s4: "tc_new_symbol self3 0 0 SYM_VARIABLE 0 0 0 p = Ret (heap self3, self4)"
    "allocates 1 self3 self4" "syms_at self4 (heap self3) (([], heap self3, s) # ps)" "sym_kind s = SYM_VARIABLE" "sym_value s = 0"
    "sym_type s = 0" "sym_dim s = 0" "sees self4 = sees self3" by (rule new_symbol[OF allocates_syms[OF a assms(2)] _ assms(3)])
  have "allocates 1 self self4" using allocates_trans[OF a s4(2)] by simp
  moreover have "next_token self1 = TC_ARROW" "sees self4 (u # us)" using sees_token[OF s1(2)] s3(2) s4(8) by (simp_all del: sees.simps)
  ultimately show thesis using s1(1) s2(1) s3(1) s4(1,3-7) h(1) by (intro that) (simp_all only:)
qed

lemma parse_fn_parameters:
  assumes "sees self (Other 40 # param_tokens False xs @ Other 41 # Other TC_ARROW # u64_word # u # us)"
    and "syms_at self fn ((w, fn, fs) # es)" and "sym_type fs = 0" and "w \<notin> fst ` set es"
    and "list_all (\<lambda>x. keyword_token x = TC_IDENTIFIER) xs" and "distinct ([] # w # xs)" and "length xs \<le> f" and "length xs < 0x10000"
    and "unat (heap self) + 64 * (length xs + 1) \<le> unat (heap_limit self)"
  obtains r rs ps self1 self' where "tc_parse_fn_parameters f self fn = Ret (of_nat (length xs), self')" "sees self' (u # us)"
    "allocates (length xs + 1) self self1" "self' = put_symbol self1 fn (fs\<lparr>sym_type := r\<rparr>)\<lparr>fn_return_type := r\<rparr>"
    "syms_at self' fn ((w, fn, fs\<lparr>sym_type := r\<rparr>) # es)" "syms_at self' r (([], r, rs) # ps)" "param_symbols 0 xs ps"
    "sym_kind rs = SYM_VARIABLE" "sym_type rs = 0" "sym_dim rs = 0"
proof -
  have fn: "fn \<noteq> 0" "cells self fn = Some (Sym fs)" "name_at self (sym_name fs) (sym_length fs) w" using assms(2) by auto
  have h: "heap self \<noteq> 0" using syms_at_heap[OF assms(2) fn(1)] by auto
  have src: "length (source self) \<le> 65536" using fn(3) by (simp add: name_at_def)
  obtain v vs where v: "param_tokens False xs @ Other 41 # Other TC_ARROW # u64_word # u # us = v # vs" using params_next by blast
  have s0: "sees self (Other 40 # v # vs)" using assms(1) v by simp
  then obtain self0 where s0': "tc_read_token self = Ret self0" "sees self0 (v # vs)" "off_scanner self0 = off_scanner self"
    by (rule read_sees)
  note a0 = allocates_read[OF s0'(3)]
  note c0 = core_eqD[OF off_scanner_core(1)[OF s0'(3)]] off_scanner_core(3)[OF s0'(3)]
  have p0: "sees self0 (param_tokens (0 < (0 :: nat)) xs @ Other 41 # Other TC_ARROW # u64_word # u # us)" using s0'(2) v by simp
  have d: "distinct xs" "set xs \<inter> fst ` set [] = {}" "heap self0 \<noteq> 0" "unat (heap self0) + 64 * length xs \<le> unat (heap_limit self0)"
    "0 + length xs < 0x10000" "[] \<notin> set xs" "w \<notin> set xs" "w \<noteq> []"
    using assms(6,8,9) h c0 by auto
  obtain q ps self2 where s2: "param_loop f f (0, of_nat 0, self0) = Ret (q, of_nat (0 + length xs), self2)"
    "sees self2 (Other 41 # Other TC_ARROW # u64_word # u # us)" "allocates (length xs) self0 self2" "syms_at self2 q (ps @ [])"
    "param_symbols 0 xs ps"
    using parse_params[OF p0 _ assms(7,5) d(1-5), of 0 f] by (elim meta_impE exE conjE) (simp, rule that)
  have a2: "allocates (length xs) self self2" using allocates_trans[OF a0 s2(3)] by simp
  note c2 = core_eqD[of self2 self]
  have ps: "fst ` set ps = set xs" using param_symbols_names[OF s2(5)] by (metis set_map set_rev)
  have h2: "heap self2 \<noteq> 0" "unat (heap self2) + 64 \<le> unat (heap_limit self2)" "length (source self2) \<le> 65536"
  proof -
    have "unat (heap self) > 0" using h by (simp add: unat_gt_0)
    then show "heap self2 \<noteq> 0" using a2 by (auto simp: allocates_def)
    show "unat (heap self2) + 64 \<le> unat (heap_limit self2)" "length (source self2) \<le> 65536"
      using a2 assms(9) src c2 by (simp_all add: allocates_def)
  qed
  have nn: "[] \<notin> fst ` set ps" using d(6) ps by simp
  obtain self3 self4 self5 self6 rs where s6: "tc_read_token self2 = Ret self3" "next_token self3 = TC_ARROW" "tc_read_token self3 = Ret self4"
    "tc_parse_type f self4 = Ret (0, 0, self5)" "tc_new_symbol self5 0 0 SYM_VARIABLE 0 0 0 q = Ret (heap self2, self6)"
    "sees self6 (u # us)" "allocates 1 self2 self6" "syms_at self6 (heap self2) (([], heap self2, rs) # ps)"
    "sym_kind rs = SYM_VARIABLE" "sym_type rs = 0" "sym_dim rs = 0"
    by (rule parse_result[OF s2(2) s2(4)[unfolded append_Nil2] nn h2])
  let ?r = "heap self2"
  let ?fs = "fs\<lparr>sym_type := ?r\<rparr>"
  have a6: "allocates (length xs + 1) self self6" by (rule allocates_trans[OF a2 s6(7)])
  have t6: "syms_at self6 fn ((w, fn, fs) # es)" by (rule allocates_syms[OF a6 assms(2)])
  then have f6: "cells self6 fn = Some (Sym fs)" "name_at self6 (sym_name fs) (sym_length fs) w" by auto
  let ?self' = "put_symbol self6 fn ?fs\<lparr>fn_return_type := ?r\<rparr>"
  have ret: "syms_at (s\<lparr>fn_return_type := x\<rparr>) p es = syms_at s p es" for s x p es
    by (induction es arbitrary: p) (auto simp: name_at_def)
  have "syms_at (put_symbol self6 fn ?fs) fn ((w, fn, ?fs) # es)" by (rule syms_at_put_head[OF t6 assms(4)]) simp_all
  moreover have "syms_at (put_symbol self6 fn ?fs) ?r (([], ?r, rs) # ps)"
    by (rule syms_at_put[OF f6 s6(8)]) (use d(7,8) ps in simp)
  moreover have "sees ?self' (u # us)"
  proof -
    have "sees ?self' (u # us) = sees (put_symbol self6 fn ?fs) (u # us)" by (rule sees_cong) simp_all
    then show ?thesis using s6(6) by (simp del: sees.simps)
  qed
  moreover have "tc_parse_fn_parameters f self fn = Ret (of_nat (length xs), ?self')"
    using s0'(1) parse_token_sees[OF s0] s2(1) s6(1-5) f6(1) assms(3)
    by (simp add: tc_parse_fn_parameters_def param_loop_def param_step_def get_symbol_def tc_check_fn_parameters_def)
  ultimately show thesis using that[of ?self' self6 ?r rs ps] a6 s2(5) s6(9-11) unfolding ret by blast
qed

end
