(* ===== verification/Tc_Fn_Compile.thy ===== *)
theory Tc_Fn_Compile
  imports Tc_Fn_Head
begin

text \<open>
  The parser of functions: the parameters become the first variables, the registers with the arguments are
  saved, and the body follows.
\<close>

section \<open>Parameters as variables\<close>

definition slots_of :: "u64 \<Rightarrow> (u8 list \<times> u64 \<times> symbol) list \<Rightarrow> (u8 list \<times> binding) list" where
  "slots_of n ps = map (\<lambda>(x, p, s). (x, Slot (n - sym_value s))) ps"

lemma core_symbols: "core (self\<lparr>symbols := x\<rparr>) = core self\<lparr>symbols := x\<rparr>"
  by (simp add: core_def)

lemma add_parameters_loop:
  "syms_at self q ps \<Longrightarrow> syms_at self (symbols self) es \<Longrightarrow> distinct (map fst ps) \<Longrightarrow> fst ` set ps \<inter> fst ` set es = {} \<Longrightarrow>
   list_all (\<lambda>(x, p, s). sym_type s = 0 \<and> sym_dim s = 0) ps \<Longrightarrow>
   heap self \<noteq> 0 \<Longrightarrow> unat (heap self) + 64 * length ps \<le> unat (heap_limit self) \<Longrightarrow>
   \<exists>es' self'. tc_add_parameters_loop self n q = Ret self' \<and> sees self' = sees self \<and>
     core self' = core (self\<lparr>symbols := symbols self'\<rparr>) \<and> keeps self self' \<and> unat (heap self') = unat (heap self) + 64 * length ps \<and>
     next_register self' = next_register self \<and> syms_at self' (symbols self') (es' @ es) \<and>
     map fst es' = rev (map fst ps) \<and> list_all2 (\<lambda>(x, b) (y, p, s). x = y \<and> describes b s) (rev (slots_of n ps)) es'"
proof (induction ps arbitrary: self q es)
  case Nil
  then have "tc_add_parameters_loop self n q = Ret self" by (subst tc_add_parameters_loop.simps) simp
  then show ?case using Nil by (auto simp: slots_of_def)
next
  case (Cons e ps)
  obtain x p s where e: "e = (x, p, s)" by (cases e) auto
  have q: "p = q" "q \<noteq> 0" "cells self q = Some (Sym s)" "sym_next s < q" "below (heap self) q (Sym s)"
    "name_at self (sym_name s) (sym_length s) x" "syms_at self (sym_next s) ps"
    using Cons.prems(1) e by auto
  have t: "sym_type s = 0" "sym_dim s = 0" "list_all (\<lambda>(x, p, s). sym_type s = 0 \<and> sym_dim s = 0) ps" using Cons.prems(5) e by simp_all
  have x: "x \<notin> fst ` set es" "unat (heap self) + 64 \<le> unat (heap_limit self)" using Cons.prems(4,7) e by auto
  obtain self1 y where s1: "tc_new_symbol self (sym_name s) (sym_length s) SYM_VARIABLE (n - sym_value s) 0 0 (symbols self) = Ret (heap self, self1)"
    "allocates 1 self self1" "syms_at self1 (heap self) ((x, heap self, y) # es)" "sym_kind y = SYM_VARIABLE" "sym_value y = n - sym_value s"
    "sym_type y = 0" "sym_dim y = 0" "sees self1 = sees self"
    by (rule new_symbol[OF Cons.prems(2) q(6) x(1) Cons.prems(6) x(2)])
  let ?self2 = "self1\<lparr>symbols := heap self\<rparr>"
  have sy: "syms_at (a\<lparr>symbols := h\<rparr>) p es = syms_at a p es" for a h p es
    by (induction es arbitrary: p) (auto simp: name_at_def)
  have c1: "core self1 = core self" using s1(2) by (simp add: allocates_def)
  then have c2: "core ?self2 = core (self\<lparr>symbols := heap self\<rparr>)" by (simp add: core_symbols)
  have k2: "keeps self ?self2" "heap self \<le> heap ?self2" "unat (heap ?self2) = unat (heap self) + 64"
    using s1(2) allocates_heap[OF s1(2)] by (simp_all add: allocates_def keeps_def)
  have p2: "syms_at ?self2 (sym_next s) ps" using allocates_syms[OF s1(2) q(7)] unfolding sy .
  have e2: "syms_at ?self2 (symbols ?self2) ((x, heap self, y) # es)" using s1(3) unfolding sy by simp
  have d: "distinct (map fst ps)" "fst ` set ps \<inter> fst ` set ((x, heap self, y) # es) = {}" "heap ?self2 \<noteq> 0"
    "unat (heap ?self2) + 64 * length ps \<le> unat (heap_limit ?self2)"
    using Cons.prems(3,4,6,7) e k2 core_eqD(7)[OF c1] by (auto simp: le_u64)
  obtain es' self3 where s3: "tc_add_parameters_loop ?self2 n (sym_next s) = Ret self3" "sees self3 = sees ?self2"
    "core self3 = core (?self2\<lparr>symbols := symbols self3\<rparr>)" "keeps ?self2 self3" "unat (heap self3) = unat (heap ?self2) + 64 * length ps"
    "next_register self3 = next_register ?self2" "syms_at self3 (symbols self3) (es' @ (x, heap self, y) # es)"
    "map fst es' = rev (map fst ps)" "list_all2 (\<lambda>(x, b) (y, p, s). x = y \<and> describes b s) (rev (slots_of n ps)) es'"
    using Cons.IH[OF p2 e2 d(1,2) t(3) d(3,4)] by blast
  have g: "get_symbol ?self2 q = Ret s"
    using q(3,5) s1(2) by (simp add: get_symbol_def allocates_def keeps_def)
  have "tc_add_parameters_loop self n q = Ret self3"
    using q(2-4) s1(1) t(1,2) g s3(1)
    by (subst tc_add_parameters_loop.simps) (simp add: get_symbol_def tc_add_symbol_def)
  moreover have "sees ?self2 = sees self1" by (rule ext, rule sees_cong) simp_all
  moreover have "core self3 = core (self\<lparr>symbols := symbols self3\<rparr>)"
    using s3(3) c1 by (simp add: core_symbols)
  moreover have "keeps self self3" by (rule keeps_trans[OF k2(1) s3(4) k2(2)])
  moreover have "list_all2 (\<lambda>(x, b) (y, p, s). x = y \<and> describes b s) (rev (slots_of n (e # ps))) (es' @ [(x, heap self, y)])"
    using s3(9) s1(4-7) e by (simp add: slots_of_def list_all2_appendI)
  ultimately show ?case
    using s1(2,8) s3(2,5-8) k2(3) e
    by (intro exI[of _ "es' @ [(x, heap self, y)]"] exI[of _ self3]) (simp add: allocates_def)
qed

lemma slots_of_params:
  assumes "param_symbols 0 xs ps" and "length xs < 0x10000"
  shows "set (slots_of (of_nat (length xs)) ps) = set (map (\<lambda>k. (xs ! k, Slot (of_nat (length xs - k)))) [0..<length xs])"
proof -
  let ?n = "of_nat (length xs) :: u64"
  have "slots_of ?n ps = map (\<lambda>(k, x). (x, Slot (?n - of_nat k))) (rev (enumerate 0 xs))"
    using assms(1) unfolding param_symbols_def slots_of_def by (induction rule: list_all2_induct) auto
  moreover have "Slot (?n - of_nat k) = Slot (of_nat (length xs - k))" if "k < length xs" for k
    using that by (simp add: of_nat_diff)
  ultimately show ?thesis by (force simp: in_set_enumerate_eq image_iff)
qed

lemma with_params_table:
  assumes "param_symbols 0 xs ps" and "distinct xs" and "length xs < 0x10000" and "set xs \<inter> fst ` set es = {}"
    and "\<forall>w b. \<Gamma> w = Some b \<longrightarrow> (\<exists>q s. map_of es w = Some (q, s) \<and> describes b s)"
    and "syms_at self (symbols self) (es' @ es)" and "map fst es' = rev (map fst ps)"
    and "list_all2 (\<lambda>(x, b) (y, p, s). x = y \<and> describes b s) (rev (slots_of (of_nat (length xs)) ps)) es'"
  shows "table (with_params \<Gamma> xs) (es' @ es) self"
  unfolding table_def
proof (intro conjI allI impI)
  let ?m = "map (\<lambda>k. (xs ! k, Slot (of_nat (length xs - k)))) [0..<length xs]"
  have names: "map fst es' = xs" using assms(7) param_symbols_names[OF assms(1)] by simp
  fix w b assume b: "with_params \<Gamma> xs w = Some b"
  show "\<exists>q s. map_of (es' @ es) w = Some (q, s) \<and> describes b s"
  proof (cases "map_of ?m w")
    case None
    then have g: "\<Gamma> w = Some b" using b by (auto simp: with_params_def map_add_def)
    then obtain q s where s: "map_of es w = Some (q, s)" "describes b s" using assms(5) by blast
    have "w \<in> fst ` set es" using map_of_SomeD[OF s(1)] by force
    then have "w \<notin> fst ` set es'" using assms(4) names by (metis disjoint_iff set_map)
    then have "map_of es' w = None" by (simp add: map_of_eq_None_iff)
    then show ?thesis using s by (simp add: map_add_def)
  next
    case (Some c)
    then have "b = c" using b by (simp add: with_params_def map_add_def)
    then have "(w, b) \<in> set (rev (slots_of (of_nat (length xs)) ps))"
      using slots_of_params[OF assms(1,3)] map_of_SomeD[OF Some] by simp
    then obtain i where i: "i < length es'" "rev (slots_of (of_nat (length xs)) ps) ! i = (w, b)"
      using list_all2_lengthD[OF assms(8)] by (metis in_set_conv_nth)
    obtain y p s where y: "es' ! i = (y, p, s)" by (cases "es' ! i") auto
    have "y = w" "describes b s" using list_all2_nthD2[OF assms(8) i(1)] i(2) y by auto
    moreover have "map_of es' y = Some (p, s)" using names assms(2) i(1) y nth_mem[OF i(1)] by (intro map_of_is_SomeI) auto
    ultimately show ?thesis by auto
  qed
qed (use assms(6) in simp)

section \<open>Bodies of functions\<close>

lemma grows_fields:
  assumes "code_ok self" and "code self' = code self" "dst self' = dst self" "code_base self' = code_base self"
    "dst_limit self' = dst_limit self" "source self' = source self" "heap_limit self' = heap_limit self"
    and "keeps self self'" and "heap self \<le> heap self'"
  shows "grows self self'"
  by (rule grows_same[OF _ assms(2-)]) (use assms(1) in \<open>simp add: grows_def\<close>)

lemma grows_core:
  assumes "code_ok self" and "core self' = core (self\<lparr>symbols := x\<rparr>)" and "keeps self self'" and "heap self \<le> heap self'"
  shows "grows self self'"
proof -
  have "grows self self" using assms(1) by (simp add: grows_def)
  then show ?thesis by (rule grows_same) (use core_eqD[OF assms(2)] assms(3,4) in simp_all)
qed

lemma grows_read:
  assumes "off_scanner self' = off_scanner self"
  shows "grows self' self'' = grows self self''" "grows self0 self' = grows self0 self"
  using off_scanner_core[OF assms] core_eqD[OF off_scanner_core(1)[OF assms]] advances_read(3,4,5)[OF assms]
  by (simp_all add: grows_def keeps_def)

lemma parse_fn_body:
  assumes "sees self (Other 123 # ts @ Other 125 # u # us)" and "item_phrases ts is" and "cells self fn = Some (Sym fs)"
    and "syms_at self (sym_type fs) (([], sym_type fs, rs) # ps)" and "fn_return_type self = sym_type fs" and "param_symbols 0 xs ps"
    and "sym_kind rs = SYM_VARIABLE" and "sym_type rs = 0" and "sym_dim rs = 0"
    and "table \<Gamma> es self" and "distinct (xs @ names_of is)" and "set (xs @ names_of is) \<inter> fst ` set es = {}"
    and "items_ok (with_params \<Gamma> xs) (of_nat (length xs)) is" and "length xs \<le> 8" and "length ts < f"
    and "code_ok self" and "length (code self) < 0x80000000" and "room (fn_size \<Gamma> xs is) self"
    and "unat (heap self) + 64 * (length xs + length (names_of is)) + 288 \<le> unat (heap_limit self)"
  obtains self' where "tc_parse_fn_body f self fn (of_nat (length xs)) = Ret self'" "sees self' (u # us)" "grows self self'"
    "pos self' = pos self + fn_size \<Gamma> xs is" "code_at (code self') (pos self) (fn_code \<Gamma> (pos self) xs is)" "next_register self' = 0"
proof -
  let ?n = "of_nat (length xs) :: u64" and ?r = "sym_type fs" and ?\<Gamma> = "with_params \<Gamma> xs"
  have r: "cells self ?r = Some (Sym rs)" "below (heap self) ?r (Sym rs)" "syms_at self (sym_next rs) ps" using assms(4) by simp_all
  have un: "unat ?n = length xs" using assms(14) by (simp add: unat_of_nat_u64)
  have t: "syms_at self (symbols self) es" "\<forall>w b. \<Gamma> w = Some b \<longrightarrow> (\<exists>q s. map_of es w = Some (q, s) \<and> describes b s)"
    using assms(10) by (simp_all add: table_def)
  have len: "length ps = length xs" and nm: "map fst ps = rev xs" using param_symbols_names[OF assms(6)] by (metis length_map length_rev)+
  have ty: "list_all (\<lambda>(x, p, s). sym_type s = 0 \<and> sym_dim s = 0) ps"
    using assms(6) unfolding param_symbols_def by (induction rule: list_all2_induct) auto
  have d: "distinct (map fst ps)" "fst ` set ps \<inter> fst ` set es = {}" "heap self \<noteq> 0" "unat (heap self) + 64 * length ps \<le> unat (heap_limit self)"
  proof -
    have "fst ` set ps = set xs" using nm by (metis set_map set_rev)
    then show "fst ` set ps \<inter> fst ` set es = {}" using assms(12) by auto
    show "distinct (map fst ps)" using nm assms(11) by simp
    show "heap self \<noteq> 0" using r(2) by (auto simp: below_def SYMBOL_SIZE_def)
    show "unat (heap self) + 64 * length ps \<le> unat (heap_limit self)" using assms(19) len by simp
  qed
  obtain es' self1 where s1: "tc_add_parameters_loop self ?n (sym_next rs) = Ret self1" "sees self1 = sees self"
    "core self1 = core (self\<lparr>symbols := symbols self1\<rparr>)" "keeps self self1" "unat (heap self1) = unat (heap self) + 64 * length ps"
    "next_register self1 = next_register self" "syms_at self1 (symbols self1) (es' @ es)" "map fst es' = rev (map fst ps)"
    "list_all2 (\<lambda>(x, b) (y, p, s). x = y \<and> describes b s) (rev (slots_of ?n ps)) es'"
    using add_parameters_loop[OF r(3) t(1) d(1,2) ty d(3,4)] by blast
  have g1: "grows self self1" by (rule grows_core[OF assms(16) s1(3,4)]) (simp add: s1(5) le_u64)
  have t1: "table ?\<Gamma> (es' @ es) self1"
    by (rule with_params_table[OF assms(6) _ _ _ t(2) s1(7-9)]) (use assms(11,12,14) in auto)
  have see1: "sees self1 (Other 123 # ts @ Other 125 # u # us)" using assms(1) s1(2) by simp
  then obtain self2 where s2: "tc_read_token self1 = Ret self2" "sees self2 (ts @ Other 125 # u # us)" "off_scanner self2 = off_scanner self1"
    by (rule sees_cons)
  have g2: "grows self self2" using g1 grows_read(2)[OF s2(3)] by simp
  have c2: "core self2 = core self1" "cells self2 = cells self1" "heap self2 = heap self1" "symbols self2 = symbols self1"
    using off_scanner_core[OF s2(3)] core_eqD(8)[OF off_scanner_core(1)[OF s2(3)]] by simp_all
  let ?self2 = "self2\<lparr>frame_size := 0\<rparr>"
  have "code_ok ?self2 = code_ok self2" by (simp add: code_ok_def)
  then have ok2: "code_ok ?self2" using g2 by (simp add: grows_def)
  have e1: "pos self1 = pos self" "length (code self1) = length (code self)"
    using core_eqD(3-5)[OF s1(3)] by (simp_all add: pos_def)
  have e2: "pos ?self2 = pos self" "code ?self2 = code self1" using advances_read(3,4)[OF s2(3)] e1(1) by (simp_all add: pos_def)
  have "room (2 * unat ?n) ?self2" using assms(18) e1(2) e2 un by (simp add: room_def fn_size_def)
  then obtain self3 where s3: "tc_save_registers ?self2 ?n = Ret self3" "grows ?self2 self3" "pos self3 = pos ?self2 + 2 * unat ?n"
    "code_at (code self3) (pos ?self2) (push_bytes (unat ?n))" "frame_size self3 = frame_size ?self2 + ?n" "next_register self3 = 0"
    "cells self3 = cells ?self2" "heap self3 = heap ?self2" "symbols self3 = symbols ?self2" "fn_return_type self3 = fn_return_type ?self2"
    "sees self3 = sees ?self2" by (rule save_registers[OF ok2])
  have g2': "grows self ?self2" by (rule grows_same[OF g2]) (simp_all add: keeps_cells)
  have g3: "grows self self3" by (rule grows_trans[OF g2' s3(2)])
  have f3: "source self3 = source self1" using g1 g3 by (simp add: grows_def)
  have h3: "heap self3 = heap self1" "cells self3 = cells self1" "symbols self3 = symbols self1" "fn_return_type self3 = fn_return_type self"
    using s3(7-10) c2 core_eqD(9)[OF s1(3)] core_eqD(9)[OF c2(1)] by simp_all
  have t3: "table ?\<Gamma> (es' @ es) self3" by (rule table_keeps[OF t1]) (use h3 f3 in \<open>simp_all add: keeps_cells\<close>)
  have hp: "unat (heap self3) + 64 * length (names_of is) + 288 \<le> unat (heap_limit self3)"
    using h3(1) s1(5) len assms(19) g3 by (simp add: grows_def)
  have "settled ?\<Gamma> self3" using g3 table_scope[OF t3] hp assms(17) by (simp add: settled_def grows_def)
  moreover have "returns_int self3"
  proof -
    have "cells self3 ?r = Some (Sym rs)" "below (heap self3) ?r (Sym rs)"
      using r(1,2) g3 by (auto simp: grows_def keeps_def below_def le_u64)
    then show ?thesis using assms(5,7-9) h3(4) by (simp add: returns_int_def kinds)
  qed
  moreover have "room (items_size ?\<Gamma> ?n is) self3"
    using assms(18) s3(3) e2(1) un g3 by (simp add: room_def fn_size_def grows_def)
  ultimately have b3: "in_body ?\<Gamma> ?n (es' @ es) (items_size ?\<Gamma> ?n is) (length (names_of is)) self3"
    using t3 hp s3(5) by (simp add: in_body_def)
  have see3: "sees self3 (ts @ Other 125 # u # us)"
  proof -
    have "sees ?self2 = sees self2" by (rule ext, rule sees_cong) simp_all
    then show ?thesis using s2(2) s3(11) by simp
  qed
  have nd: "distinct (names_of is)" "set (names_of is) \<inter> fst ` set (es' @ es) = {}" "token_of (Other 125) = 125"
  proof -
    have "fst ` set es' = set xs" using s1(8) nm by (metis rev_rev_ident set_map)
    then show "set (names_of is) \<inter> fst ` set (es' @ es) = {}" using assms(11,12) by auto
  qed (use assms(11) in simp_all)
  obtain v self4 where s4: "body_loop f f (?n + 1, END_REACHABLE, self3) = Ret (v, END_UNREACHABLE, self4)" "sees self4 (Other 125 # u # us)"
    "next_register self4 = 0" "grows self3 self4" "pos self4 = pos self3 + items_size ?\<Gamma> ?n is"
    "code_at (code self4) (pos self3) (items_code ?\<Gamma> ?n (pos self3) is)"
    using parse_items[OF nd(3) assms(2,13) see3 assms(15) less_imp_le[OF assms(15)] b3 s3(6) nd(1,2)] by blast
  obtain self5 where s5: "tc_read_token self4 = Ret self5" "sees self5 (u # us)" "off_scanner self5 = off_scanner self4"
    using s4(2) by (rule read_sees)
  have "code_at (code self4) (pos self) (push_bytes (length xs))"
    using code_at_grows[OF s3(4) s4(4)] s3(3) e2(1) un by simp
  then have at: "code_at (code self4) (pos self) (fn_code \<Gamma> (pos self) xs is)"
    using s4(6) s3(3) e2(1) un by (simp add: fn_code_def code_at_append)
  have nt: "next_token self = 123" using sees_token[OF assms(1)] by simp
  have "\<not> ?n > MAX_REGISTERS" using un assms(14) by (simp add: MAX_REGISTERS_def less_u64)
  moreover have "get_symbol self fn = Ret fs" "get_symbol self ?r = Ret rs" using assms(3) r(1) by (simp_all add: get_symbol_def)
  moreover have "tc_parse_token self1 123 = Ret self2" using s2(1) sees_token[OF see1] by (simp add: tc_parse_token_def)
  ultimately have "tc_parse_fn_body f self fn ?n = Ret self5"
    using nt s1(1) s3(1) s4(1) s5(1)
    by (simp add: tc_parse_fn_body_def tc_write_fn_insn_def body_loop_def[symmetric])
  moreover have "grows self self5" using grows_trans[OF g3 s4(4)] grows_read(2)[OF s5(3)] by simp
  moreover have "pos self5 = pos self + fn_size \<Gamma> xs is" "code self5 = code self4" "next_register self5 = 0"
    using advances_read(3,4)[OF s5(3)] off_scanner_core(4)[OF s5(3)] s4(3,5) s3(3) e2(1) un by (simp_all add: fn_size_def)
  ultimately show thesis using that[of self5] s5(2) at by simp
qed

section \<open>Functions\<close>

text \<open>A function: its name, the names of its parameters, and its body.\<close>

type_synonym fn = "u8 list \<times> u8 list list \<times> item list"

fun fn_names :: "fn \<Rightarrow> u8 list list" where
  "fn_names (w, xs, is) = w # xs @ names_of is"

fun fn_ok :: "scope \<Rightarrow> fn \<Rightarrow> bool" where
  "fn_ok \<Gamma> (w, xs, is) = (items_ok (with_params \<Gamma> xs) (of_nat (length xs)) is \<and> length xs \<le> 8 \<and>
     length (names_of is) < 0x100000 \<and> distinct ([] # fn_names (w, xs, is)))"

inductive fn_phrase :: "lexeme list \<Rightarrow> fn \<Rightarrow> bool" where
  fn: "token_of t = TC_FN \<Longrightarrow> list_all (\<lambda>x. keyword_token x = TC_IDENTIFIER) (w # xs) \<Longrightarrow> item_phrases ts is \<Longrightarrow>
    fn_phrase (t # Word w # Other 40 # param_tokens False xs @ Other 41 # Other TC_ARROW # u64_word #
      Other 123 # ts @ [Other 125]) (w, xs, is)"

text \<open>Heap for the symbols of a function, and what stays of it.\<close>

fun fn_cells :: "fn \<Rightarrow> nat" where
  "fn_cells (w, xs, is) = 2 * length xs + 2 + length (names_of is)"

fun kept_cells :: "fn \<Rightarrow> nat" where
  "kept_cells (w, xs, is) = length xs + 2"

lemma parse_fn_name:
  assumes "sees self (Word w # v # vs)" and "keyword_token w = TC_IDENTIFIER" and "syms_at self (symbols self) es" and "w \<notin> fst ` set es"
    and "heap self \<noteq> 0" and "unat (heap self) + 64 \<le> unat (heap_limit self)"
  obtains s self1 where "tc_parse_fn_name self = Ret (heap self, self1\<lparr>symbols := heap self\<rparr>)" "allocates 1 self self1" "sees self1 (v # vs)"
    "syms_at (self1\<lparr>symbols := heap self\<rparr>) (heap self) ((w, heap self, s) # es)" "sym_kind s = SYM_FN" "sym_value s = dst self" "sym_type s = 0"
proof -
  obtain self0 where s0: "tc_read_token self = Ret self0" "sees self0 (v # vs)" "off_scanner self0 = off_scanner self"
    using assms(1) by (rule read_sees)
  note id = parse_identifier_sees[OF assms(1,2)] and a0 = allocates_read[OF s0(3)]
  note c0 = core_eqD[OF off_scanner_core(1)[OF s0(3)]] off_scanner_core(3)[OF s0(3)]
  let ?q = "next_token_data self" and ?l = "next_token_length self"
  have n0: "name_at self0 ?q ?l w" by (rule allocates_name[OF a0 id(2)])
  have t0: "syms_at self0 (symbols self0) es" using allocates_syms[OF a0 assms(3)] c0 by simp
  have h0: "heap self0 \<noteq> 0" "unat (heap self0) + 64 \<le> unat (heap_limit self0)" using assms(5,6) c0 by simp_all
  obtain self1 s where s1: "tc_new_symbol self0 ?q ?l SYM_FN (dst self0) 0 0 (symbols self0) = Ret (heap self0, self1)" "allocates 1 self0 self1"
    "syms_at self1 (heap self0) ((w, heap self0, s) # es)" "sym_kind s = SYM_FN" "sym_value s = dst self0" "sym_type s = 0" "sym_dim s = 0"
    "sees self1 = sees self0" by (rule new_symbol[OF t0 n0 assms(4) h0])
  have "map_of es w = None" using assms(4) by (simp add: map_of_eq_None_iff)
  then have "sym_lookup self0 (symbols self0) ?q ?l = Ret 0" using lookup_address[OF t0 n0] by (simp add: address_of_def)
  then have "tc_parse_fn_name self = Ret (heap self, self1\<lparr>symbols := heap self\<rparr>)"
    using id(1) s0(1) s1(1) c0 by (simp add: tc_parse_fn_name_def tc_add_or_resolve_fn_symbol_def tc_add_symbol_def)
  moreover have sy: "syms_at (self1\<lparr>symbols := heap self\<rparr>) p es = syms_at self1 p es" for p es
    by (induction es arbitrary: p) (auto simp: name_at_def)
  have "syms_at (self1\<lparr>symbols := heap self\<rparr>) (heap self) ((w, heap self, s) # es)"
    unfolding sy using s1(3) c0(11) by simp
  moreover have "allocates 1 self self1" "sees self1 (v # vs)" using allocates_trans[OF a0 s1(2)] s0(2) s1(8) by (simp_all del: sees.simps)
  moreover have "sym_value s = dst self" using s1(5) c0(5) by simp
  ultimately show thesis using that[of self1 s] s1(4,6) by blast
qed

lemma table_Cons:
  assumes "\<forall>w b. \<Gamma> w = Some b \<longrightarrow> (\<exists>q s. map_of es w = Some (q, s) \<and> describes b s)" and "w \<notin> fst ` set es"
    and "syms_at self (symbols self) ((w, p, s) # es)"
  shows "table \<Gamma> ((w, p, s) # es) self"
  unfolding table_def
proof (intro conjI allI impI)
  fix x b assume "\<Gamma> x = Some b"
  then obtain q t where t: "map_of es x = Some (q, t)" "describes b t" using assms(1) by blast
  then have "x \<noteq> w" using assms(2) map_of_SomeD[OF t(1)] by force
  then show "\<exists>q t. map_of ((w, p, s) # es) x = Some (q, t) \<and> describes b t" using t by simp
qed (use assms(3) in simp)

lemma length_param_tokens: "length xs \<le> length (param_tokens b xs)"
  by (induction xs arbitrary: b) (simp_all add: le_SucI)

text \<open>The parser of functions: afterwards the function is in the symbol table, and its code behind the
  code before it.\<close>

lemma parse_fn:
  assumes "fn_phrase ts (w, xs, is)" and "sees self (ts @ u # us)" and "fn_ok \<Gamma> (w, xs, is)" and "table \<Gamma> es self"
    and "set (fn_names (w, xs, is)) \<inter> fst ` set es = {}" and "code_ok self" and "length (code self) < 0x80000000"
    and "room (fn_size \<Gamma> xs is) self" and "heap self \<noteq> 0"
    and "unat (heap self) + 64 * fn_cells (w, xs, is) + 288 \<le> unat (heap_limit self)" and "length ts < f"
  obtains s self' where "tc_parse_fn f self = Ret self'" "sees self' (u # us)" "grows self self'" "next_register self' = 0"
    "pos self' = pos self + fn_size \<Gamma> xs is" "code_at (code self') (pos self) (fn_code \<Gamma> (pos self) xs is)"
    "table \<Gamma> ((w, heap self, s) # es) self'" "sym_kind s = SYM_FN" "sym_value s = dst self"
    "unat (heap self') = unat (heap self) + 64 * kept_cells (w, xs, is)"
proof -
  obtain t bs where ts: "ts = t # Word w # Other 40 # param_tokens False xs @ Other 41 # Other TC_ARROW # u64_word # Other 123 # bs @ [Other 125]"
    "token_of t = TC_FN" "keyword_token w = TC_IDENTIFIER" "list_all (\<lambda>x. keyword_token x = TC_IDENTIFIER) xs" "item_phrases bs is"
    using assms(1) by (auto elim: fn_phrase.cases)
  have tab: "syms_at self (symbols self) es" "\<forall>w b. \<Gamma> w = Some b \<longrightarrow> (\<exists>q s. map_of es w = Some (q, s) \<and> describes b s)"
    using assms(4) by (simp_all add: table_def)
  have ok: "items_ok (with_params \<Gamma> xs) (of_nat (length xs)) is" "length xs \<le> 8" "distinct ([] # w # xs)" "distinct (xs @ names_of is)"
    "w \<notin> fst ` set es" "set (xs @ names_of is) \<inter> fst ` set ((w, a, b) # es) = {}" for a b
    using assms(3,5) by auto
  let ?us = "Other 123 # bs @ Other 125 # u # us"
  have s0: "sees self (t # Word w # Other 40 # param_tokens False xs @ Other 41 # Other TC_ARROW # u64_word # ?us)"
    using assms(2) ts(1) by simp
  then obtain self0 where s0': "tc_read_token self = Ret self0" "off_scanner self0 = off_scanner self"
    "sees self0 (Word w # Other 40 # param_tokens False xs @ Other 41 # Other TC_ARROW # u64_word # ?us)" by (rule read_sees)
  note a0 = allocates_read[OF s0'(2)]
  note c0 = core_eqD[OF off_scanner_core(1)[OF s0'(2)]] off_scanner_core(3)[OF s0'(2)]
  have t0: "syms_at self0 (symbols self0) es" using allocates_syms[OF a0 tab(1)] c0 by simp
  have h0: "heap self0 \<noteq> 0" "unat (heap self0) + 64 \<le> unat (heap_limit self0)" using assms(9,10) c0 by simp_all
  obtain s self1 where s1: "tc_parse_fn_name self0 = Ret (heap self0, self1\<lparr>symbols := heap self0\<rparr>)" "allocates 1 self0 self1"
    "sees self1 (Other 40 # param_tokens False xs @ Other 41 # Other TC_ARROW # u64_word # ?us)"
    "syms_at (self1\<lparr>symbols := heap self0\<rparr>) (heap self0) ((w, heap self0, s) # es)" "sym_kind s = SYM_FN" "sym_value s = dst self0" "sym_type s = 0"
    by (rule parse_fn_name[OF s0'(3) ts(3) t0 ok(5) h0])
  let ?fn = "heap self0" and ?self1 = "self1\<lparr>symbols := heap self0\<rparr>"
  have c1: "core ?self1 = core (self\<lparr>symbols := ?fn\<rparr>)" "unat (heap ?self1) = unat (heap self) + 64" "keeps self ?self1"
    using s1(2) c0 off_scanner_core(1,2)[OF s0'(2)] by (simp_all add: allocates_def core_symbols keeps_def)
  note f1 = core_eqD[OF c1(1)]
  have see1: "sees ?self1 (Other 40 # param_tokens False xs @ Other 41 # Other TC_ARROW # u64_word # ?us)"
  proof -
    have "sees ?self1 = sees self1" by (rule ext, rule sees_cong) simp_all
    then show ?thesis using s1(3) by (simp del: sees.simps)
  qed
  have l: "length xs \<le> f" "length xs < 0x10000" "unat (heap ?self1) + 64 * (length xs + 1) \<le> unat (heap_limit ?self1)"
    using length_param_tokens[of xs False] assms(11,10) ts(1) ok(2) c1(2) f1(7) by simp_all
  obtain r rs ps self2 self3 where s3: "tc_parse_fn_parameters f ?self1 ?fn = Ret (of_nat (length xs), self3)" "sees self3 ?us"
    "allocates (length xs + 1) ?self1 self2" "self3 = put_symbol self2 ?fn (s\<lparr>sym_type := r\<rparr>)\<lparr>fn_return_type := r\<rparr>"
    "syms_at self3 ?fn ((w, ?fn, s\<lparr>sym_type := r\<rparr>) # es)" "syms_at self3 r (([], r, rs) # ps)" "param_symbols 0 xs ps"
    "sym_kind rs = SYM_VARIABLE" "sym_type rs = 0" "sym_dim rs = 0"
    by (rule parse_fn_parameters[OF see1 s1(4,7) ok(5) ts(4) ok(3) l])
  let ?s = "s\<lparr>sym_type := r\<rparr>"
  have c2: "core self2 = core (self\<lparr>symbols := ?fn\<rparr>)" "unat (heap self2) = unat (heap self) + 64 * (length xs + 2)" "keeps self self2"
    using s3(3) c1 keeps_trans[OF c1(3), of self2] by (simp_all add: allocates_def le_u64)
  note f2 = core_eqD[OF c2(1)]
  have f3: "code self3 = code self" "dst self3 = dst self" "code_base self3 = code_base self" "dst_limit self3 = dst_limit self"
    "source self3 = source self" "heap_limit self3 = heap_limit self" "symbols self3 = ?fn" "heap self3 = heap self2" "fn_return_type self3 = r"
    using f2 by (simp_all add: s3(4) put_symbol_def)
  have p3: "pos self3 = pos self" using f3 by (simp add: pos_def)
  have "keeps self (put_symbol self2 ?fn ?s)" by (rule keeps_put_symbol[OF c2(3)]) (simp add: c0)
  then have "keeps self self3" by (simp add: s3(4) keeps_def)
  then have g3: "grows self self3"
    using f3 c2(2) by (intro grows_fields[OF assms(6)]) (simp_all add: le_u64)
  then have ok3: "code_ok self3" by (simp add: grows_def)
  have t3: "table \<Gamma> ((w, ?fn, ?s) # es) self3"
    by (rule table_Cons[OF tab(2) ok(5)]) (use s3(5) f3(7) in simp)
  have h3: "unat (heap self3) + 64 * (length xs + length (names_of is)) + 288 \<le> unat (heap_limit self3)"
    using assms(10) f3(6,8) c2(2) by simp
  have r3: "room (fn_size \<Gamma> xs is) self3" "length (code self3) < 0x80000000" using assms(7,8) f3(1) p3 by (simp_all add: room_def)
  have f: "cells self3 ?fn = Some (Sym ?s)" "syms_at self3 (sym_type ?s) (([], sym_type ?s, rs) # ps)" "fn_return_type self3 = sym_type ?s"
    "length bs < f" using s3(5,6) f3(9) assms(11) ts(1) by simp_all
  obtain self4 where s4: "tc_parse_fn_body f self3 ?fn (of_nat (length xs)) = Ret self4" "sees self4 (u # us)" "grows self3 self4"
    "pos self4 = pos self3 + fn_size \<Gamma> xs is" "code_at (code self4) (pos self3) (fn_code \<Gamma> (pos self3) xs is)" "next_register self4 = 0"
    by (rule parse_fn_body[OF s3(2) ts(5) f(1-3) s3(7-10) t3 ok(4,6,1,2) f(4) ok3 r3(2,1) h3])
  let ?self' = "self4\<lparr>symbols := ?fn, heap := heap self3\<rparr>"
  have g: "code_ok ?self' = code_ok self4" "pos ?self' = pos self4" by (simp_all add: code_ok_def pos_def)
  have g4: "grows self3 ?self'" using s4(3) g by (simp add: grows_def keeps_def)
  have "tc_parse_fn f self = Ret ?self'"
    using s0'(1) sees_token[OF s0] ts(2) s1(1) s3(1) f3(7) s4(1) by (simp add: tc_parse_fn_def tc_parse_token_def Let_def)
  moreover have "sees ?self' (u # us)"
  proof -
    have "sees ?self' = sees self4" by (rule ext, rule sees_cong) simp_all
    then show ?thesis using s4(2) by (simp del: sees.simps)
  qed
  moreover have "table \<Gamma> ((w, ?fn, ?s) # es) ?self'"
    by (rule table_keeps[OF t3]) (use g4 f3(7) in \<open>simp_all add: grows_def\<close>)
  moreover have "grows self ?self'" by (rule grows_trans[OF g3 g4])
  moreover have "?fn = heap self" "sym_value ?s = dst self" "sym_kind ?s = SYM_FN" using c0 s1(5,6) by simp_all
  ultimately show thesis
    using that[of ?self' ?s] s4(4-6) p3 c2(2) f3(8) g by simp
qed

end
