(* ===== verification/Tc_Program.thy ===== *)
theory Tc_Program
  imports Tc_Fn_Compile
begin

text \<open>
  Programs: constants and functions, from the text of the source files to the bytes that \<open>main\<close> of
  \<open>toyc.c\<close> writes.
\<close>

section \<open>Declarations\<close>

datatype global = Const "u8 list" u64 | Function fn

inductive program_phrase :: "lexeme list \<Rightarrow> global list \<Rightarrow> bool" where
  nothing: "program_phrase [] []"
| one_const: "token_of t = TC_CONST \<Longrightarrow> keyword_token x = TC_IDENTIFIER \<Longrightarrow> program_phrase us ds \<Longrightarrow>
    program_phrase (t # Word x # Other 58 # u64_word # Other 61 # Number v # Other 59 # us) (Const x v # ds)"
| one_function: "fn_phrase ts g \<Longrightarrow> program_phrase us ds \<Longrightarrow> program_phrase (ts @ us) (Function g # ds)"

text \<open>Names are declared once, and parameters and variables do not have the name of a declaration before them.\<close>

fun program_ok :: "scope \<Rightarrow> u8 list list \<Rightarrow> global list \<Rightarrow> bool" where
  "program_ok \<Gamma> ns [] = True"
| "program_ok \<Gamma> ns (Const x v # ds) = (x \<notin> set ns \<and> program_ok (\<Gamma>(x \<mapsto> Constant v)) (x # ns) ds)"
| "program_ok \<Gamma> ns (Function g # ds) =
     (fn_ok \<Gamma> g \<and> set (fn_names g) \<inter> set ns = {} \<and> program_ok \<Gamma> (hd (fn_names g) # ns) ds)"

text \<open>What the program needs of the heap and of the code buffer, and where its functions are.\<close>

fun program_cells :: "global list \<Rightarrow> nat" where
  "program_cells [] = 0"
| "program_cells (Const x v # ds) = 1 + program_cells ds"
| "program_cells (Function g # ds) = max (fn_cells g) (kept_cells g + program_cells ds)"

fun function_size :: "scope \<Rightarrow> fn \<Rightarrow> nat" where
  "function_size \<Gamma> (w, xs, is) = fn_size \<Gamma> xs is"

fun program_size :: "scope \<Rightarrow> global list \<Rightarrow> nat" where
  "program_size \<Gamma> [] = 0"
| "program_size \<Gamma> (Const x v # ds) = program_size (\<Gamma>(x \<mapsto> Constant v)) ds"
| "program_size \<Gamma> (Function g # ds) = function_size \<Gamma> g + program_size \<Gamma> ds"

fun functions_at :: "scope \<Rightarrow> nat \<Rightarrow> global list \<Rightarrow> (nat \<times> scope \<times> fn) list" where
  "functions_at \<Gamma> p [] = []"
| "functions_at \<Gamma> p (Const x v # ds) = functions_at (\<Gamma>(x \<mapsto> Constant v)) p ds"
| "functions_at \<Gamma> p (Function g # ds) = (p, \<Gamma>, g) # functions_at \<Gamma> (p + function_size \<Gamma> g) ds"

lemma functions_inside:
  "(q, \<Delta>, w, xs, is) \<in> set (functions_at \<Gamma> p ds) \<Longrightarrow> p \<le> q \<and> q + fn_size \<Delta> xs is \<le> p + program_size \<Gamma> ds"
  by (induction \<Gamma> p ds rule: functions_at.induct) force+

lemma functions_ok:
  "(q, \<Delta>, g) \<in> set (functions_at \<Gamma> p ds) \<Longrightarrow> program_ok \<Gamma> ns ds \<Longrightarrow> slots_below \<Gamma> 0 \<Longrightarrow> fn_ok \<Delta> g \<and> slots_below \<Delta> 0"
  by (induction \<Gamma> p ds arbitrary: ns rule: functions_at.induct) (auto simp: slots_below_def split: if_splits)

section \<open>Constants\<close>

lemma parse_const:
  assumes "token_of t = TC_CONST" and "keyword_token x = TC_IDENTIFIER"
    and "sees self (t # Word x # Other 58 # u64_word # Other 61 # Number v # Other 59 # u # us)" and "table \<Gamma> es self"
    and "x \<notin> fst ` set es" and "code_ok self" and "heap self \<noteq> 0" and "unat (heap self) + 64 \<le> unat (heap_limit self)"
  obtains s self' where "tc_parse_const f self = Ret self'" "sees self' (u # us)" "grows self self'" "pos self' = pos self"
    "table (\<Gamma>(x \<mapsto> Constant v)) ((x, heap self, s) # es) self'" "unat (heap self') = unat (heap self) + 64"
    "next_register self' = next_register self"
proof -
  obtain self1 where s1: "tc_read_token self = Ret self1" "off_scanner self1 = off_scanner self"
    "sees self1 (Word x # Other 58 # u64_word # Other 61 # Number v # Other 59 # u # us)" using assms(3) by (rule read_sees)
  obtain self2 where s2: "tc_read_token self1 = Ret self2" "off_scanner self2 = off_scanner self1"
    "sees self2 (Other 58 # u64_word # Other 61 # Number v # Other 59 # u # us)" using s1(3) by (rule read_sees)
  obtain self3 where s3: "tc_read_token self2 = Ret self3" "off_scanner self3 = off_scanner self2"
    "sees self3 (u64_word # Other 61 # Number v # Other 59 # u # us)" using s2(3) by (rule read_sees)
  obtain self4 where s4: "tc_parse_type f self3 = Ret (0, 0, self4)" "off_scanner self4 = off_scanner self3"
    "sees self4 (Other 61 # Number v # Other 59 # u # us)" using s3(3) by (rule parse_u64)
  obtain self5 where s5: "tc_read_token self4 = Ret self5" "off_scanner self5 = off_scanner self4"
    "sees self5 (Number v # Other 59 # u # us)" using s4(3) by (rule read_sees)
  obtain self6 where s6: "tc_read_token self5 = Ret self6" "off_scanner self6 = off_scanner self5"
    "sees self6 (Other 59 # u # us)" using s5(3) by (rule read_sees)
  have o: "off_scanner self6 = off_scanner self1" "off_scanner self6 = off_scanner self" using s1(2) s2(2) s3(2) s4(2) s5(2) s6(2) by simp_all
  note c = core_eqD[OF off_scanner_core(1)[OF o(2)]] off_scanner_core(3,4)[OF o(2)]
  let ?q = "next_token_data self1" and ?l = "next_token_length self1"
  have t: "syms_at self (symbols self) es" "\<forall>w b. \<Gamma> w = Some b \<longrightarrow> (\<exists>q s. map_of es w = Some (q, s) \<and> describes b s)"
    using assms(4) by (simp_all add: table_def)
  have n6: "name_at self6 ?q ?l x" by (rule allocates_name[OF allocates_read[OF o(1)] parse_identifier_sees(2)[OF s1(3) assms(2)]])
  have t6: "syms_at self6 (symbols self6) es" using allocates_syms[OF allocates_read[OF o(2)] t(1)] c by simp
  have h6: "heap self6 \<noteq> 0" "unat (heap self6) + 64 \<le> unat (heap_limit self6)" using assms(7,8) c by simp_all
  obtain self7 s where s7: "tc_new_symbol self6 ?q ?l SYM_CONST v 0 0 (symbols self6) = Ret (heap self6, self7)" "allocates 1 self6 self7"
    "syms_at self7 (heap self6) ((x, heap self6, s) # es)" "sym_kind s = SYM_CONST" "sym_value s = v" "sym_type s = 0" "sym_dim s = 0"
    "sees self7 = sees self6" by (rule new_symbol[OF t6 n6 assms(5) h6])
  let ?self7 = "self7\<lparr>symbols := heap self6\<rparr>"
  have see7: "sees ?self7 (Other 59 # u # us)"
  proof -
    have "sees ?self7 = sees self7" by (rule ext, rule sees_cong) simp_all
    then show ?thesis using s6(3) s7(8) by (simp del: sees.simps)
  qed
  then obtain self8 where s8: "tc_read_token ?self7 = Ret self8" "sees self8 (u # us)" "off_scanner self8 = off_scanner ?self7"
    by (rule read_sees)
  have sy: "syms_at ?self7 p es = syms_at self7 p es" for p es
    by (induction es arbitrary: p) (auto simp: name_at_def)
  have "syms_at ?self7 (symbols ?self7) ((x, heap self6, s) # es)" using s7(3) unfolding sy by simp
  then have t7: "table (\<Gamma>(x \<mapsto> Constant v)) ((x, heap self6, s) # es) ?self7"
    using t(2) s7(4-7) by (simp add: table_def)
  note o8 = off_scanner_core[OF s8(3)]
  note c8 = core_eqD[OF o8(1)]
  have t8: "table (\<Gamma>(x \<mapsto> Constant v)) ((x, heap self6, s) # es) self8"
    by (rule table_keeps[OF t7]) (use o8 c8 in \<open>simp_all add: keeps_cells\<close>)
  have k: "keeps self self8" "unat (heap self8) = unat (heap self) + 64"
    using s7(2) o8 c off_scanner_core(2)[OF o(2)] by (simp_all add: allocates_def keeps_def)
  have "core self7 = core self" using s7(2) off_scanner_core(1)[OF o(2)] by (simp add: allocates_def)
  note c7 = core_eqD[OF this]
  have f8: "code self8 = code self" "dst self8 = dst self" "code_base self8 = code_base self" "dst_limit self8 = dst_limit self"
    "source self8 = source self" "heap_limit self8 = heap_limit self" using c8 c7 by simp_all
  have "grows self self8" using k by (intro grows_fields[OF assms(6) f8]) (simp_all add: le_u64)
  moreover have "pos self8 = pos self" using f8 by (simp add: pos_def)
  moreover have "tc_parse_const f self = Ret self8"
    using s1(1) sees_token[OF assms(3)] assms(1) parse_identifier_sees(1)[OF s1(3) assms(2)] s2(1) parse_token_sees[OF s2(3)] s3(1)
      s4(1) parse_token_sees[OF s4(3)] s5(1) parse_integer_sees[OF s5(3)] s6(1) s7(1) parse_token_sees[OF see7] s8(1)
    by (simp add: tc_parse_const_def tc_parse_token_def[of self] tc_add_symbol_def)
  moreover have "next_register self8 = next_register self" using o8(4) s7(2) c(12) by (simp add: allocates_def)
  ultimately show thesis using that[of self8 s] s8(2) t8 k(2) c(11) by simp
qed

section \<open>Programs\<close>

definition program_step :: "nat \<Rightarrow> compiler \<Rightarrow> compiler res" where
  "program_step f self = (if next_token self = TC_FN then tc_parse_fn f self
     else if next_token self = TC_STRUCT then tc_parse_struct f self
     else if next_token self = TC_STATIC then tc_parse_static f self else tc_parse_const f self)"

definition program_loop :: "nat \<Rightarrow> nat \<Rightarrow> compiler \<Rightarrow> compiler res" where
  "program_loop f k = while_do k (\<lambda>self. next_token self = TC_FN \<or> next_token self = TC_STRUCT \<or>
     next_token self = TC_STATIC \<or> next_token self = TC_CONST) (program_step f)"

lemma program_loop_goes:
  "next_token self \<in> {TC_FN, TC_CONST} \<Longrightarrow> program_loop f (Suc k) self = seq (program_step f self) (program_loop f k)"
  by (auto simp: program_loop_def)

lemma parse_globals:
  assumes "token_of u = 0"
  shows "program_phrase ts ds \<Longrightarrow> sees self (ts @ [u]) \<Longrightarrow> program_ok \<Gamma> (map fst es) ds \<Longrightarrow> table \<Gamma> es self \<Longrightarrow> slots_below \<Gamma> 0 \<Longrightarrow>
     code_ok self \<Longrightarrow> length (code self) < 0x80000000 \<Longrightarrow> room (program_size \<Gamma> ds) self \<Longrightarrow> heap self \<noteq> 0 \<Longrightarrow>
     unat (heap self) + 64 * program_cells ds + 288 \<le> unat (heap_limit self) \<Longrightarrow> length ts < f \<Longrightarrow> length ts \<le> k \<Longrightarrow>
     \<exists>self'. program_loop f k self = Ret self' \<and> next_token self' = 0 \<and> grows self self' \<and> pos self' = pos self + program_size \<Gamma> ds \<and>
       (\<forall>(q, \<Delta>, w, xs, is) \<in> set (functions_at \<Gamma> (pos self) ds). code_at (code self') q (fn_code \<Delta> q xs is))"
proof (induction arbitrary: \<Gamma> es self k rule: program_phrase.induct)
  case nothing
  have "next_token self = 0" using sees_token[of self u "[]"] nothing.prems(1) assms by simp
  then have "program_loop f k self = Ret self" by (cases k) (simp_all add: program_loop_def tokens)
  then show ?case using \<open>next_token self = 0\<close> nothing.prems(5) by (auto simp: grows_def)
next
  case (one_const t x us ds v)
  obtain w ws where w: "us @ [u] = w # ws" by (cases us) auto
  obtain k' where k: "k = Suc k'" using one_const.prems(11) by (cases k) auto
  have s: "sees self (t # Word x # Other 58 # u64_word # Other 61 # Number v # Other 59 # w # ws)" using one_const.prems(1) w by simp
  have x: "x \<notin> fst ` set es" "program_ok (\<Gamma>(x \<mapsto> Constant v)) (x # map fst es) ds" using one_const.prems(2) by simp_all
  have h: "unat (heap self) + 64 \<le> unat (heap_limit self)" using one_const.prems(9) by simp
  obtain y self1 where s1: "tc_parse_const f self = Ret self1" "sees self1 (w # ws)" "grows self self1" "pos self1 = pos self"
    "table (\<Gamma>(x \<mapsto> Constant v)) ((x, heap self, y) # es) self1" "unat (heap self1) = unat (heap self) + 64"
    by (rule parse_const[OF one_const.hyps(1,2) s one_const.prems(3) x(1) one_const.prems(5,8) h])
  have g1: "code_ok self1" "length (code self1) = length (code self)" "heap_limit self1 = heap_limit self" "heap self \<le> heap self1"
    using s1(3) by (simp_all add: grows_def)
  have s2: "sees self1 (us @ [u])" using s1(2) w by simp
  have c: "program_ok (\<Gamma>(x \<mapsto> Constant v)) (map fst ((x, heap self, y) # es)) ds" "slots_below (\<Gamma>(x \<mapsto> Constant v)) 0"
    "length (code self1) < 0x80000000" "room (program_size (\<Gamma>(x \<mapsto> Constant v)) ds) self1" "heap self1 \<noteq> 0"
    "unat (heap self1) + 64 * program_cells ds + 288 \<le> unat (heap_limit self1)" "length us < f" "length us \<le> k'"
  proof -
    show "slots_below (\<Gamma>(x \<mapsto> Constant v)) 0" using one_const.prems(4) by (auto simp: slots_below_def)
    show "room (program_size (\<Gamma>(x \<mapsto> Constant v)) ds) self1" using one_const.prems(7) s1(4) g1(2) by (simp add: room_def del: fun_upd_apply)
    show "heap self1 \<noteq> 0" using g1(4) one_const.prems(8) by auto
    show "unat (heap self1) + 64 * program_cells ds + 288 \<le> unat (heap_limit self1)" using one_const.prems(9) s1(6) g1(3) by simp
  qed (use x(2) one_const.prems(6,10,11) g1(2) k in \<open>simp_all del: fun_upd_apply\<close>)
  obtain self2 where s3: "program_loop f k' self1 = Ret self2" "next_token self2 = 0" "grows self1 self2"
    "pos self2 = pos self1 + program_size (\<Gamma>(x \<mapsto> Constant v)) ds"
    "\<forall>(q, \<Delta>, w, xs, is) \<in> set (functions_at (\<Gamma>(x \<mapsto> Constant v)) (pos self1) ds). code_at (code self2) q (fn_code \<Delta> q xs is)"
    using one_const.IH[OF s2 c(1) s1(5) c(2) g1(1) c(3-8)] by blast
  have nt: "next_token self = TC_CONST" using sees_token[OF s] one_const.hyps(1) by simp
  then have "program_loop f k self = Ret self2"
    using program_loop_goes[of self f k'] s1(1) s3(1) k by (simp add: program_step_def tokens)
  then show ?case using s3(2-5) grows_trans[OF s1(3) s3(3)] s1(4) by (auto simp del: fun_upd_apply)
next
  case (one_function ts g us ds)
  obtain w xs "is" where g: "g = (w, xs, is)" by (cases g) auto
  obtain v vs where v: "us @ [u] = v # vs" by (cases us) auto
  obtain t ts' where t: "ts = t # ts'" "token_of t = TC_FN" using one_function.hyps(1) by (auto elim: fn_phrase.cases)
  obtain k' where k: "k = Suc k'" using one_function.prems(11) t(1) by (cases k) auto
  have s: "sees self (ts @ v # vs)" using one_function.prems(1) v by simp
  have ok: "fn_phrase ts (w, xs, is)" "fn_ok \<Gamma> (w, xs, is)" "set (fn_names (w, xs, is)) \<inter> fst ` set es = {}" "program_ok \<Gamma> (w # map fst es) ds"
    using one_function.hyps(1) one_function.prems(2) g by simp_all
  have r: "room (fn_size \<Gamma> xs is) self" "unat (heap self) + 64 * fn_cells (w, xs, is) + 288 \<le> unat (heap_limit self)" "length ts < f"
  proof -
    have "fn_cells (w, xs, is) \<le> program_cells (Function g # ds)" unfolding g program_cells.simps by (rule max.cobounded1)
    then show "unat (heap self) + 64 * fn_cells (w, xs, is) + 288 \<le> unat (heap_limit self)" using one_function.prems(9) by linarith
  qed (use one_function.prems(7,10) g in \<open>simp_all add: room_def\<close>)
  obtain y self1 where s1: "tc_parse_fn f self = Ret self1" "sees self1 (v # vs)" "grows self self1" "next_register self1 = 0"
    "pos self1 = pos self + fn_size \<Gamma> xs is" "code_at (code self1) (pos self) (fn_code \<Gamma> (pos self) xs is)"
    "table \<Gamma> ((w, heap self, y) # es) self1" "sym_kind y = SYM_FN" "sym_value y = dst self"
    "unat (heap self1) = unat (heap self) + 64 * kept_cells (w, xs, is)"
    by (rule parse_fn[OF ok(1) s ok(2) one_function.prems(3) ok(3) one_function.prems(5,6) r(1) one_function.prems(8) r(2,3)])
  have g1: "code_ok self1" "length (code self1) = length (code self)" "heap_limit self1 = heap_limit self" "heap self \<le> heap self1"
    using s1(3) by (simp_all add: grows_def)
  have s2: "sees self1 (us @ [u])" using s1(2) v by simp
  have c: "program_ok \<Gamma> (map fst ((w, heap self, y) # es)) ds" "length (code self1) < 0x80000000" "room (program_size \<Gamma> ds) self1"
    "heap self1 \<noteq> 0" "unat (heap self1) + 64 * program_cells ds + 288 \<le> unat (heap_limit self1)" "length us < f" "length us \<le> k'"
  proof -
    show "room (program_size \<Gamma> ds) self1" using one_function.prems(7) s1(5) g1(2) g by (simp add: room_def)
    show "heap self1 \<noteq> 0" using g1(4) one_function.prems(8) by auto
    have "kept_cells (w, xs, is) + program_cells ds \<le> program_cells (Function g # ds)" unfolding g program_cells.simps by (rule max.cobounded2)
    then show "unat (heap self1) + 64 * program_cells ds + 288 \<le> unat (heap_limit self1)"
      using one_function.prems(9) unfolding s1(10) g1(3) by linarith
  qed (use ok(4) one_function.prems(6,10,11) g1(2) k t(1) in simp_all)
  obtain self2 where s3: "program_loop f k' self1 = Ret self2" "next_token self2 = 0" "grows self1 self2" "pos self2 = pos self1 + program_size \<Gamma> ds"
    "\<forall>(q, \<Delta>, w, xs, is) \<in> set (functions_at \<Gamma> (pos self1) ds). code_at (code self2) q (fn_code \<Delta> q xs is)"
    using one_function.IH[OF s2 c(1) s1(7) one_function.prems(4) g1(1) c(2-7)] by blast
  have nt: "next_token self = TC_FN" using first_token[OF s] t by simp
  then have "program_loop f k self = Ret self2"
    using program_loop_goes[of self f k'] s1(1) s3(1) k by (simp add: program_step_def)
  moreover have "code_at (code self2) (pos self) (fn_code \<Gamma> (pos self) xs is)" by (rule code_at_grows[OF s1(6) s3(3)]) (simp add: s1(5))
  ultimately show ?case using s3(2-5) grows_trans[OF s1(3) s3(3)] s1(5) g by auto
qed

end
