(* ===== verification/Tc_Program_Properties.thy ===== *)
theory Tc_Program_Properties
  imports Tc_Program
begin

text \<open>
  The compiler is correct for programs of constants and functions on integers: from the source text to
  what a processor does when it calls the compiled functions.
\<close>

section \<open>Calls\<close>

text \<open>The processor is at the function at offset \<open>p\<close> of code loaded at \<open>B\<close>: the arguments are in the
  registers from r8 on, and the return address is on the stack.\<close>

definition called :: "u64 \<Rightarrow> nat \<Rightarrow> u64 list \<Rightarrow> u64 \<Rightarrow> cpu \<Rightarrow> bool" where
  "called B p vs ra c \<longleftrightarrow> rip c = B + of_nat p \<and> regs c 4 AND 7 = 0 \<and> mem c (regs c 4) = ra \<and>
     list_all (\<lambda>k. regs c (8 + k) = vs ! k) [0..<length vs]"

lemma call_returns:
  assumes "code_at C p (fn_code \<Gamma> p xs is)" and "fn_ok \<Gamma> (w, xs, is)" and "slots_below \<Gamma> 0" and "length C < 0x80000000"
    and "fn_gives \<Gamma> xs is vs r" and "called B p vs ra c"
  shows "\<exists>c'. returned C B (length xs + length (names_of is)) (regs c 4) ra r c c'"
proof (rule fn_return[OF assms(5) _ assms(3) _ _ assms(1,4)])
  show "\<forall>k<length xs. regs c (8 + k) = vs ! k" using assms(5,6) by (simp add: called_def fn_gives_def list_all_iff)
qed (use assms(2,6) in \<open>simp_all add: called_def\<close>)

lemma code_at_take: "code_at C p bs \<Longrightarrow> p + length bs \<le> n \<Longrightarrow> code_at (take n C) p bs"
  unfolding code_at_def window_def drop_take take_take by (simp add: min.absorb1)

section \<open>Programs\<close>

lemma start_table:
  assumes "read_inputs inputs [0] = Some input" and "lexes (concat inputs) (t # ts)" and "0 < d" and "unat d + MAX_CODE_SIZE < 18446744073709551616"
    and "0 < h" and "unat h + MAX_HEAP_SIZE < 18446744073709551616"
  obtains c self0 self where "tc_read_char (init_compiler d h input) = Ret (c, self0)" "tc_read_token self0 = Ret self" "sees self (t # ts)"
    "table Map.empty [] self" "code_ok self" "pos self = 0" "length (code self) = MAX_CODE_SIZE" "heap self = h"
    "unat (heap_limit self) = unat h + MAX_HEAP_SIZE"
proof -
  let ?init = "init_compiler d h input"
  obtain c self0 where s0: "tc_read_char ?init = Ret (c, self0)" "scan_ok self0" "remaining self0 = concat inputs"
    using compiler_starts_scanning[OF assms(1)] by blast
  have i: "input = 0 # concat inputs" "length input \<le> MAX_SRC_SIZE"
    using read_inputs_concat[OF _ assms(1)] by (auto simp: MAX_SRC_SIZE_def)
  then have "self0 = goto 1 ?init" using read_first_char[of input d h] s0(1) by auto
  then have f0: "symbols self0 = 0" "code_base self0 = d" "code self0 = replicate MAX_CODE_SIZE 0" "dst self0 = d"
    "dst_limit self0 = d + of_nat MAX_CODE_SIZE" "heap self0 = h" "heap_limit self0 = h + of_nat MAX_HEAP_SIZE"
    by (simp_all add: goto_def init_compiler_def)
  obtain self where s1: "tc_read_token self0 = Ret self" "sees self (t # ts)" "off_scanner self = off_scanner self0"
    using start_sees[OF s0(2)] assms(2) s0(3) by metis
  note o = off_scanner_core[OF s1(3)]
  note e = core_eqD[OF o(1)]
  have "unat (d + of_nat MAX_CODE_SIZE) = unat d + MAX_CODE_SIZE" "unat (h + of_nat MAX_HEAP_SIZE) = unat h + MAX_HEAP_SIZE"
    using assms(4,6) by (simp_all add: unat_add_u64 unat_of_nat_u64 MAX_CODE_SIZE_def MAX_HEAP_SIZE_def)
  moreover from this have "code_ok self" using assms(3,4) e f0 by (auto simp: code_ok_def le_u64)
  ultimately show thesis
    using that[OF s0(1) s1(1,2)] e o f0 by (simp add: table_def pos_def)
qed

text \<open>C1. Programs are compiled correctly. For source files that lex to tokens \<open>ts\<close> and the end of the
  text, which the grammar derives as constants and functions \<open>ds\<close> whose names are declared once, and
  whose code and symbols fit in the buffers, \<open>toyc\<close> writes an image of exactly the size of their code. Each
  function is at its offset, and whenever its body gives the result \<open>r\<close> for arguments \<open>vs\<close>, a processor
  that calls it, wherever the image is loaded, returns to the return address with \<open>r\<close> in the result
  register and the stack pointer behind the return address, and only the words of its stack
  frame are changed in memory.\<close>

theorem program_compiled:
  assumes "read_inputs inputs [0] = Some input" and "lexes (concat inputs) (ts @ [Other 0])" and "program_phrase ts ds"
    and "program_ok Map.empty [] ds" and "program_size Map.empty ds \<le> MAX_CODE_SIZE" and "64 * program_cells ds + 288 \<le> MAX_HEAP_SIZE"
    and "length ts < fuel" and "0 < d" and "unat d + MAX_CODE_SIZE < 18446744073709551616"
    and "0 < h" and "unat h + MAX_HEAP_SIZE < 18446744073709551616"
  shows "\<exists>bs. toyc_compile fuel (init_compiler d h input) = Ret bs \<and> length bs = program_size Map.empty ds \<and>
    (\<forall>(p, \<Gamma>, w, xs, is) \<in> set (functions_at Map.empty 0 ds). \<forall>vs r B c ra.
       \<not> (fn_gives \<Gamma> xs is vs r \<and> called B p vs ra c) \<or>
       (\<exists>c'. returned bs B (length xs + length (names_of is)) (regs c 4) ra r c c'))"
proof -
  obtain t ts' where t: "ts @ [Other 0] = t # ts'" by (cases ts) auto
  obtain c self0 self where s: "tc_read_char (init_compiler d h input) = Ret (c, self0)" "tc_read_token self0 = Ret self" "sees self (t # ts')"
    "table Map.empty [] self" "code_ok self" "pos self = 0" "length (code self) = MAX_CODE_SIZE" "heap self = h"
    "unat (heap_limit self) = unat h + MAX_HEAP_SIZE"
    by (rule start_table[OF assms(1) assms(2)[unfolded t] assms(8-11)])
  have a: "token_of (Other 0) = 0" "sees self (ts @ [Other 0])" "program_ok Map.empty (map fst []) ds" "slots_below Map.empty 0"
    "length (code self) < 0x80000000" "room (program_size Map.empty ds) self" "heap self \<noteq> 0"
    "unat (heap self) + 64 * program_cells ds + 288 \<le> unat (heap_limit self)" "length ts \<le> fuel"
    using t s(3,6-9) assms(4-7,10) by (simp_all add: slots_below_def MAX_CODE_SIZE_def room_def del: sees.simps)
  obtain self' where s': "program_loop fuel fuel self = Ret self'" "next_token self' = 0" "grows self self'"
    "pos self' = pos self + program_size Map.empty ds"
    "\<forall>(q, \<Delta>, w, xs, is) \<in> set (functions_at Map.empty (pos self) ds). code_at (code self') q (fn_code \<Delta> q xs is)"
    using parse_globals[OF a(1) assms(3) a(2,3) s(4) a(4) s(5) a(5-8) assms(7) a(9)] by blast
  let ?bs = "take (pos self') (code self')"
  have l: "length (code self') = MAX_CODE_SIZE" using s'(3) s(7) by (simp add: grows_def)
  have "toyc_compile fuel (init_compiler d h input) = Ret ?bs"
    using s(1,2) s'(1,2) by (simp add: toyc_compile_def tc_parse_program_def program_loop_def program_step_def[abs_def] pos_def)
  moreover have "length ?bs = program_size Map.empty ds" using l s'(4) s(6) assms(5) by simp
  moreover have "\<exists>c'. returned ?bs B (length xs + length (names_of is)) (regs c 4) ra r c c'"
    if f: "(p, \<Gamma>, w, xs, is) \<in> set (functions_at Map.empty 0 ds)" "fn_gives \<Gamma> xs is vs r" "called B p vs ra c" for p \<Gamma> w xs "is" vs r B c ra
  proof -
    have "code_at ?bs p (fn_code \<Gamma> p xs is)"
      using s'(4,5) s(6) f(1) functions_inside[OF f(1)] by (intro code_at_take) auto
    moreover have "fn_ok \<Gamma> (w, xs, is)" "slots_below \<Gamma> 0" using functions_ok[OF f(1)] assms(4) a(4) by auto
    moreover have "length ?bs < 0x80000000" using l by (simp add: MAX_CODE_SIZE_def)
    ultimately show ?thesis using call_returns f(2,3) by blast
  qed
  ultimately show ?thesis by blast
qed

section \<open>A program\<close>

definition sample_program :: string where
  "sample_program = ''const k:u64=5;fn f(a:u64)->u64{let b=a*a;if b<k{return b;}return b-k;}''"

definition f_items :: "item list" where
  "f_items = [Declares (chars ''b'') (Binary TC_MUL (Name (chars ''a'')) (Name (chars ''a''))),
     Does (Choose [[(TC_LT, Name (chars ''b''), Name (chars ''k''))]] [Give (Name (chars ''b''))] None),
     Does (Give (Binary TC_SUB (Name (chars ''b'')) (Name (chars ''k''))))]"

definition sample_globals :: "global list" where
  "sample_globals = [Const (chars ''k'') 5, Function (chars ''f'', [chars ''a''], f_items)]"

definition f_tokens :: "lexeme list" where
  "f_tokens = [Word (chars ''let''), Word (chars ''b''), Other 61, Word (chars ''a''), Other TC_MUL, Word (chars ''a''), Other 59,
     Word (chars ''if''), Word (chars ''b''), Other TC_LT, Word (chars ''k''), Other 123, Word (chars ''return''), Word (chars ''b''),
     Other 59, Other 125, Word (chars ''return''), Word (chars ''b''), Other TC_SUB, Word (chars ''k''), Other 59]"

definition program_tokens :: "lexeme list" where
  "program_tokens = [Word (chars ''const''), Word (chars ''k''), Other 58, u64_word, Other 61, Number 5, Other 59] @
     [Word (chars ''fn''), Word (chars ''f''), Other 40, Word (chars ''a''), Other 58, u64_word, Other 41, Other TC_ARROW, u64_word,
      Other 123] @ f_tokens @ [Other 125]"

definition k_scope :: scope where "k_scope = [chars ''k'' \<mapsto> Constant 5]"

lemma program_lexes: "lexes (chars sample_program) (program_tokens @ [Other 0])"
  by code_simp

lemma sample_words:
  "keyword_token (chars ''a'') = TC_IDENTIFIER" "keyword_token (chars ''b'') = TC_IDENTIFIER" "keyword_token (chars ''k'') = TC_IDENTIFIER"
  "keyword_token (chars ''f'') = TC_IDENTIFIER" "keyword_token (chars ''const'') = TC_CONST" "keyword_token (chars ''fn'') = TC_FN"
  "keyword_token (chars ''let'') = TC_LET" "keyword_token (chars ''if'') = TC_IF" "keyword_token (chars ''return'') = TC_RETURN"
  by code_simp+

lemma operation_phrase:
  assumes "keyword_token v = TC_IDENTIFIER" and "keyword_token w = TC_IDENTIFIER" and "level t = Some l" and "l \<noteq> 2" and "l < 5"
  shows "phrase 0 [Word v, Other t, Word w] (Binary t (Name v) (Name w))"
proof -
  have "phrase l ([Word v] @ Other t # [Word w]) (Binary t (Name v) (Name w))"
    by (rule phrase.operator) (use assms in \<open>simp_all add: name_phrase\<close>)
  then show ?thesis using phrase_lift[of l _ _ 0] assms(5) by simp
qed

lemma f_phrases: "item_phrases f_tokens f_items"
proof -
  note w = sample_words
  have "phrase 0 [Word (chars ''b''), Other TC_SUB, Word (chars ''k'')] (Binary TC_SUB (Name (chars ''b'')) (Name (chars ''k'')))"
    by (rule operation_phrase[of _ _ _ 3]) (use w in \<open>simp_all add: level_def tokens\<close>)
  from parses_parses_block_parses_all.give[of "Word (chars ''return'')", OF _ this]
  have c: "parses [Word (chars ''return''), Word (chars ''b''), Other TC_SUB, Word (chars ''k''), Other 59]
      (Give (Binary TC_SUB (Name (chars ''b'')) (Name (chars ''k''))))" using w by (simp add: token_of_def)
  have "phrase 0 [Word (chars ''b'')] (Name (chars ''b''))" by (simp add: name_phrase w)
  from parses_parses_block_parses_all.give[of "Word (chars ''return'')", OF _ this]
  have g: "parses [Word (chars ''return''), Word (chars ''b''), Other 59] (Give (Name (chars ''b'')))" using w by (simp add: token_of_def)
  have bl: "parses_block [Other 123, Word (chars ''return''), Word (chars ''b''), Other 59, Other 125] [Give (Name (chars ''b''))]"
    using parses_parses_block_parses_all.braces[OF parses_parses_block_parses_all.one_more[OF g parses_parses_block_parses_all.none]]
    by simp
  have "test_phrase ([Word (chars ''b'')] @ Other TC_LT # [Word (chars ''k'')]) (TC_LT, Name (chars ''b''), Name (chars ''k''))"
    by (rule test_phrase.compare) (simp_all add: name_phrase w comparison_tokens_def tokens)
  then have t: "or_phrase [Word (chars ''b''), Other TC_LT, Word (chars ''k'')] [[(TC_LT, Name (chars ''b''), Name (chars ''k''))]]"
    using or_phrase.single and_phrase.single by fastforce
  have b: "parses ([Word (chars ''if''), Word (chars ''b''), Other TC_LT, Word (chars ''k''), Other 123, Word (chars ''return''),
       Word (chars ''b''), Other 59, Other 125]) (Choose [[(TC_LT, Name (chars ''b''), Name (chars ''k''))]] [Give (Name (chars ''b''))] None)"
    using parses_parses_block_parses_all.choose[OF _ t bl, of "Word (chars ''if'')"] w by (simp add: token_of_def)
  have a: "phrase 0 [Word (chars ''a''), Other TC_MUL, Word (chars ''a'')] (Binary TC_MUL (Name (chars ''a'')) (Name (chars ''a'')))"
    by (rule operation_phrase[of _ _ _ 4]) (use w in \<open>simp_all add: level_def tokens\<close>)
  from item_phrases.declares[of "Word (chars ''let'')" "chars ''b''", OF _ _ a
      item_phrases.does[OF b item_phrases.does[OF c item_phrases.none]]]
  show ?thesis using w by (simp add: token_of_def f_tokens_def f_items_def)
qed

lemma program_derived: "program_phrase program_tokens sample_globals"
proof -
  have "fn_phrase (Word (chars ''fn'') # Word (chars ''f'') # Other 40 # param_tokens False [chars ''a''] @ Other 41 # Other TC_ARROW #
      u64_word # Other 123 # f_tokens @ [Other 125]) (chars ''f'', [chars ''a''], f_items)"
    by (rule fn_phrase.fn[OF _ _ f_phrases]) (simp_all add: token_of_def sample_words)
  from program_phrase.one_const[of "Word (chars ''const'')" "chars ''k''", OF _ _ program_phrase.one_function[OF this program_phrase.nothing]]
  show ?thesis using sample_words by (simp add: token_of_def program_tokens_def sample_globals_def)
qed

lemma f_gives: "fn_gives k_scope [chars ''a''] f_items [3] 4"
proof -
  have d: "chars ''a'' \<noteq> chars ''b''" "chars ''a'' \<noteq> chars ''k''" "chars ''b'' \<noteq> chars ''k''" by (simp_all add: chars_def)
  let ?\<Gamma> = "with_params k_scope [chars ''a'']" and ?f = "(passed [3])(2 := 9)"
  let ?\<Delta> = "?\<Gamma>(chars ''b'' \<mapsto> Slot 2)"
  have s: "?\<Delta> (chars ''b'') = Some (Slot 2)" "?\<Delta> (chars ''k'') = Some (Constant 5)" "?\<Gamma> (chars ''a'') = Some (Slot 1)"
    using d by (simp_all add: with_params_def k_scope_def)
  have "eval ?\<Gamma> (passed [3]) (Binary TC_MUL (Name (chars ''a'')) (Name (chars ''a''))) = Some 9"
    using s(3) by (simp add: passed_def binary_op_def tokens)
  moreover have "runs_one ?\<Delta> (Choose [[(TC_LT, Name (chars ''b''), Name (chars ''k''))]] [Give (Name (chars ''b''))] None) ?f (Goes ?f)"
    by (rule choose_none) (use s in \<open>simp add: comparison_def tokens fun_upd_same del: fun_upd_apply\<close>)
  moreover have "runs_one ?\<Delta> (Give (Binary TC_SUB (Name (chars ''b'')) (Name (chars ''k'')))) ?f (Gives 4)"
    by (rule runs_runs_one.give) (use s in \<open>simp add: binary_op_def tokens fun_upd_same del: fun_upd_apply\<close>)
  ultimately have "gives ?\<Gamma> 1 f_items (passed [3]) 4"
    unfolding f_items_def by (intro gives.declares gives.does gives.returns) simp_all
  then show ?thesis by (simp add: fn_gives_def)
qed

lemma f_sizes: "program_size Map.empty sample_globals = function_size k_scope (chars ''f'', [chars ''a''], f_items)"
  "function_size k_scope (chars ''f'', [chars ''a''], f_items) = 62" 
  by code_simp+

text \<open>The compiled function, called with 3, returns 4.\<close>

theorem program_compiled_witness:
  "\<exists>bs c'. toyc_compile 60 (init_compiler 4096 65536 (0 # chars sample_program)) = Ret bs \<and> length bs = 62 \<and>
    returned bs 0x100000 2 65536 7 4 \<lparr>regs = (\<lambda>k. 65536)(8 := 3), mem = (\<lambda>a. 7), rip = 0x100000, carry = False, zero = False\<rparr> c'"
proof -
  let ?c = "\<lparr>regs = (\<lambda>k. 65536)(8 := 3), mem = (\<lambda>a. 7), rip = 0x100000, carry = False, zero = False\<rparr> :: cpu"
  have "read_inputs [chars sample_program] [0] = Some (0 # chars sample_program)"
    by (simp add: MAX_SRC_SIZE_def sample_program_def chars_def)
  moreover have "program_ok Map.empty [] sample_globals"
  proof -
    have "chars ''k'' \<noteq> chars ''a'' \<and> chars ''k'' \<noteq> chars ''b'' \<and> chars ''k'' \<noteq> chars ''f'' \<and> distinct [[], chars ''f'', chars ''a'', chars ''b'']"
      by (simp add: chars_def)
    then show ?thesis
      by (simp add: sample_globals_def f_items_def with_params_def expr_ok_def condition_ok_def comparison_tokens_def level_def tokens)
  qed
  moreover have "program_cells sample_globals = 6" by code_simp
  moreover have "length program_tokens < 60" by (simp add: program_tokens_def f_tokens_def)
  ultimately obtain bs where bs: "toyc_compile 60 (init_compiler 4096 65536 (0 # chars sample_program)) = Ret bs" "length bs = 62"
    "\<forall>(p, \<Gamma>, w, xs, is) \<in> set (functions_at Map.empty 0 sample_globals). \<forall>vs r B c ra.
       \<not> (fn_gives \<Gamma> xs is vs r \<and> called B p vs ra c) \<or> (\<exists>c'. returned bs B (length xs + length (names_of is)) (regs c 4) ra r c c')"
    using program_compiled[OF _ _ program_derived, of "[chars sample_program]" "0 # chars sample_program" 60 4096 65536] program_lexes f_sizes
    by (auto simp: MAX_CODE_SIZE_def MAX_HEAP_SIZE_def)
  have "functions_at Map.empty 0 sample_globals = [(0, k_scope, chars ''f'', [chars ''a''], f_items)]"
    by (simp add: sample_globals_def k_scope_def)
  moreover have "called 0x100000 0 [3] 7 ?c" by (simp add: called_def)
  ultimately have "\<exists>c'. returned bs 0x100000 (length [chars ''a''] + length (names_of f_items)) (regs ?c 4) 7 4 ?c c'"
    using bs(3) f_gives by fastforce
  then show ?thesis using bs(1,2) by (auto simp: f_items_def numeral_2_eq_2)
qed

end
