(* ===== verification/Tc_Wrong_Code.thy ===== *)
theory Tc_Wrong_Code
  imports Tc_Program Tc_Stmt_Properties
begin

text \<open>
  Where the compiler is wrong: assignments to something that only counts as a variable, and functions that
  are declared twice and not defined. Each is shown for all programs that have it, with what the code
  that is written does.
\<close>

section \<open>Assignments to slot 0\<close>

text \<open>The code from \<open>p\<close> to \<open>q\<close> computes \<open>e\<close>, and puts the value where the return address of the function is.\<close>

definition sets_return_address :: "scope \<Rightarrow> u64 \<Rightarrow> expr \<Rightarrow> u8 list \<Rightarrow> nat \<Rightarrow> nat \<Rightarrow> bool" where
  "sets_return_address \<Gamma> n e C p q \<longleftrightarrow> (\<forall>f v c ra B.
     \<not> (eval \<Gamma> f e = Some v \<and> frame \<Gamma> n ra f c \<and> rip c = B + of_nat p) \<or>
     (\<exists>c'. reaches C B c c' \<and> rip c' = B + of_nat q \<and> regs c' 4 = regs c 4 \<and> frame \<Gamma> n v f c'))"

lemma frame_return:
  assumes "slots_ok \<Gamma> n" and "frame \<Gamma> n ra f c" and "regs c' 4 = regs c 4" and "mem c' = (mem c)(regs c 4 + n * 8 := v)"
  shows "frame \<Gamma> n v f c'"
proof -
  have "mem c' (regs c 4 + (n - k) * 8) = f k" if "\<Gamma> w = Some (Slot k)" for w k
  proof -
    have k: "k \<noteq> 0" "n - k < 0x10000000" "n < 0x10000000" using assms(1) that by (auto simp: slots_ok_def)
    have "regs c 4 + (n - k) * 8 \<noteq> regs c 4 + n * 8" using offsets_distinct[OF k(2,3), of "regs c 4"] k(1) by auto
    then show ?thesis using assms(2,4) that by (auto simp: frame_def in_frame_def)
  qed
  then show ?thesis using assms(2-4) by (simp add: frame_def in_frame_def)
qed

lemma store_at_return:
  assumes "code_at C p (expr_code \<Gamma> n 0 e @ slot_code n 0)" and "slots_ok \<Gamma> n" and "expr_ok \<Gamma> 0 e" and "length C < 0x80000000"
  shows "sets_return_address \<Gamma> n e C p (p + (length (expr_code \<Gamma> n 0 e) + length (slot_code n 0)))"
proof -
  let ?l = "length (expr_code \<Gamma> n 0 e)"
  have at: "code_at C p (expr_code \<Gamma> n 0 e)" "code_at C (p + ?l) (slot_code n 0)" using assms(1) by (simp_all add: code_at_append)
  have "\<exists>c'. reaches C B c c' \<and> rip c' = B + of_nat (p + (?l + length (slot_code n 0))) \<and> regs c' 4 = regs c 4 \<and> frame \<Gamma> n v f c'"
    if h: "eval \<Gamma> f e = Some v" "frame \<Gamma> n ra f c" "rip c = B + of_nat p" for f v c ra B
  proof -
    obtain c1 where c1: "reaches C B c c1" "rip c1 = B + of_nat (p + ?l)" "calm c c1" "regs c1 8 = v"
      using reaches_expr[OF assms(2,3) at(1) h(3) assms(4) h(2,1)] by auto
    have f1: "frame \<Gamma> n ra f c1" by (rule calm_frame[OF h(2) c1(3)])
    then have a: "regs c1 4 AND 7 = 0" by (simp add: frame_def in_frame_def)
    have d: "decode (slot_code n 0) = Some (Mov True (Mem 4 (n * 8)) (Reg 8), [])"
      using set_decodes[of n] assms(2) by (simp add: slots_ok_def)
    let ?c2 = "at_rip (B + of_nat (p + ?l + length (slot_code n 0))) c1\<lparr>mem := (mem c1)(regs c1 4 + n * 8 := v)\<rparr>"
    have "cpu_step C B c1 = Some ?c2"
      using code_at_step(1)[OF at(2) d c1(2)] assms(4) a c1(4) aligned_slot[of "regs c1 4" n] by (simp add: store_def)
    then have "reaches C B c ?c2" using reaches_trans[OF c1(1)] reaches_step by blast
    moreover have "frame \<Gamma> n v f ?c2" by (rule frame_return[OF assms(2) f1]) simp_all
    ultimately show ?thesis using c1(3) by (intro exI[of _ ?c2]) (simp add: calm_def add.assoc)
  qed
  then show ?thesis by (auto simp: sets_return_address_def)
qed

text \<open>A statement that begins with a value that counts as slot 0: the code written behind the state \<open>self0\<close>,
  which is \<open>self\<close> or \<open>self\<close> with \<open>dst\<close> moved back, sets the return address.\<close>

lemma slot_0_assigned:
  assumes "tc_parse_expr f self = Ret self1" and "pushed self0 bs self1" and "names_slot self0 self1 0"
    and "sees self (Word w # us')" and "keyword_token w = TC_IDENTIFIER"
    and "sees self1 (Other 61 # ts @ Other 59 # u # us)" and "phrase 0 ts e" and "expr_ok \<Gamma> 0 e" and "length ts < f" and "room (length bs) self0"
    and "prepared \<Gamma> self0 (length (expr_code \<Gamma> (frame_size self0) 0 e) + length (slot_code (frame_size self0) 0)) []"
    and "slots_ok \<Gamma> (frame_size self0)"
  shows "\<exists>self'. tc_parse_stmt (Suc f) self None = Ret (END_REACHABLE, None, self') \<and> sees self' (u # us) \<and> advances self0 self' \<and>
    pos self' = pos self0 + (length (expr_code \<Gamma> (frame_size self0) 0 e) + length (slot_code (frame_size self0) 0)) \<and>
    sets_return_address \<Gamma> (frame_size self0) e (code self') (pos self0) (pos self')"
proof -
  let ?n = "frame_size self0"
  let ?bs = "expr_code \<Gamma> ?n 0 e @ slot_code ?n 0"
  obtain self2 where s2: "tc_parse_assignment f self1 = Ret self2" "sees self2 (Other 59 # u # us)" "next_register self2 = 0"
    "emits self0 self2 (length (expr_code \<Gamma> ?n 0 e) + length (slot_code ?n 0)) [] [] (\<lambda>_. ?bs)"
    by (rule parse_assigned[OF assms(2,3,6,7,8,9,10,11)])
  obtain self3 where s3: "tc_read_token self2 = Ret self3" "sees self3 (u # us)" "off_scanner self3 = off_scanner self2"
    using s2(2) by (rule read_sees)
  note e3 = read_after(1)[OF s2(4) s3(3)]
  note d3 = emitsD[OF e3]
  have "next_token self = TC_IDENTIFIER" using sees_token[OF assms(4)] assms(5) by (simp add: token_of_def)
  then have "tc_parse_stmt (Suc f) self None = Ret (END_REACHABLE, None, self3)"
    using assms(1) s2(1) sees_token[OF assms(6)] parse_token_sees[OF s2(2)] s3(1)
    by (simp add: tc_parse_expr_or_assign_stmt_def tokens)
  moreover have "code_at (code self3) (pos self0) ?bs" using makes_code_at[OF d3(4)] by simp
  moreover have "length (code self3) < 0x80000000"
    using preparedD(1)[OF assms(11)] d3(1) by (simp add: settled_def advances_def)
  ultimately show ?thesis
    using store_at_return[OF _ assms(12,8)] s3(2) d3(1,2) by auto
qed

section \<open>Casts\<close>

text \<open>A variable with a cast in front of \<open>=\<close> counts as slot 0, and the code that reads it can be erased.\<close>

lemma parse_cast_variable:
  assumes "keyword_token w = TC_IDENTIFIER" and "\<Gamma> w = Some (Slot k)" and "token_of a = TC_AS"
    and "sees self (Word w # a # u64_word # Other 61 # us)" and "settled \<Gamma> self" and "next_register self = 0" and "room 8 self"
  obtains bs self1 where "tc_parse_expr (Suc (Suc f)) self = Ret self1" "sees self1 (Other 61 # us)" "pushed self bs self1"
    "names_slot self self1 0" "length bs \<le> 8"
proof -
  let ?bs = "name_code (frame_size self) 0 (Slot k)"
  have bs: "?bs = name_code (frame_size self) (unat (next_register self)) (Slot k)" using assms(6) by simp
  have l: "length ?bs \<le> 8" by (simp add: mem_bytes_def disp_bytes_def)
  then have "room (length ?bs) self" using assms(7) by (simp add: room_def)
  then have rd: "ready \<Gamma> self 1 ?bs" using ready_settled[OF assms(5,6)] by simp
  have t: "token_of a \<noteq> 40" using assms(3) by (simp add: tokens)
  from parse_name[OF assms(4,1,2) bs rd le_refl t] obtain self1 where
    s1: "tc_parse_primitive_expr (tc_parse_expr (Suc f)) f self = Ret self1" "sees self1 (a # u64_word # Other 61 # us)"
    "pushed self ?bs self1" "names_slot self self1 k" by blast
  have n1: "next_token self1 = TC_AS" using sees_token[OF s1(2)] assms(3) by simp
  have "next_token self = TC_IDENTIFIER" using sees_token[OF assms(4)] assms(1) by (simp add: token_of_def)
  moreover have "while_do f (\<lambda>self. next_token self = 46) b self1 = Ret self1" for b by (cases f) (simp_all add: n1 tokens)
  ultimately have ptr: "tc_parse_pointer_expr (tc_parse_expr (Suc f)) (Suc f) self = Ret self1"
    using s1(1) by (simp add: tc_parse_path_expr_def tokens)
  obtain self2 where s2: "tc_read_token self1 = Ret self2" "sees self2 (u64_word # Other 61 # us)" "off_scanner self2 = off_scanner self1"
    using s1(2) by (rule read_sees)
  note o2 = off_scanner_core[OF s2(3)]
  let ?v = "\<lparr>val_origin = FROM_VARIABLE, val_slot = k, val_type = 0, val_dim = 0\<rparr>" and ?v' = "\<lparr>val_origin = FROM_VARIABLE, val_slot = 0, val_type = 0, val_dim = 0\<rparr>"
  have v: "cells self2 (heap self) = Some (Val ?v)" "heap self2 = heap self + 32" "int_value ?v" "int_value ?v'"
    using s1(3,4) o2 by (simp_all add: names_slot_def pushed_def int_value_def FROM_VARIABLE_def FROM_VOID_def FROM_NULL_def)
  have pop: "tc_pop_value self2 = Ret (?v, self2\<lparr>heap := heap self\<rparr>)" by (rule pop_int[OF v(1,3,2)])
  have "sees (self2\<lparr>heap := heap self\<rparr>) (u64_word # Other 61 # us)" using s2(2) by (simp del: sees.simps)
  then obtain self3 where s3: "tc_parse_type (Suc f) (self2\<lparr>heap := heap self\<rparr>) = Ret (0, 0, self3)" "sees self3 (Other 61 # us)"
    "off_scanner self3 = off_scanner (self2\<lparr>heap := heap self\<rparr>)" by (rule parse_u64)
  note o3 = off_scanner_core[OF s3(3)]
  have c3: "core self3 = core (emit ?bs self)" "heap self3 = heap self" "cells self3 = cells self1"
    "next_register self3 = next_register self + 1" "dst_mark self3 = dst self"
    using s1(3,4) o2 o3 by (simp_all add: pushed_def extends_def names_slot_def)
  have lim: "unat (heap self3) + 32 \<le> unat (heap_limit self3)"
    using assms(5) core_eqD(7)[OF c3(1)] c3(2) by (simp add: settled_def emit_def)
  let ?self4 = "push_state self3 ?v'"
  have "tc_push_value self3 FROM_VARIABLE 0 0 0 = Ret ?self4" using push_value[OF lim] by simp
  then have "parser 5 (Suc f) self = Ret ?self4"
    using ptr n1 s2(1) pop s3(1) by (simp add: parser_def tc_parse_cast_expr_def FROM_VARIABLE_def FROM_NULL_def)
  moreover have s4: "sees ?self4 (Other 61 # us)" using s3(2) by (simp del: sees.simps)
  ultimately have "tc_parse_expr (Suc (Suc f)) self = Ret ?self4"
    using parser_alone[of "Suc f" self ?self4 0] sees_token[OF s4] by (simp add: level_def tokens parser_def)
  moreover have "pushed self ?bs ?self4"
  proof -
    have "keeps self self3" using s1(3) c3(3) by (simp add: pushed_def extends_def keeps_def)
    then have "keeps self (self3\<lparr>heap := heap self + 32\<rparr>)" by (simp add: keeps_def)
    from keeps_put_cell[OF this, of "heap self" "Val ?v'"] have "keeps self ?self4"
      using lim c3(2) unat_u64_less[of "heap_limit self3"] by (simp add: VALUE_SIZE_def)
    then show ?thesis using c3 v(4) by (auto simp: pushed_def extends_def int_value_def put_cell_def)
  qed
  moreover have "names_slot self ?self4 0" using c3(2,5) by (simp add: names_slot_def put_cell_def)
  ultimately show thesis using that s4 l by blast
qed

lemma prepared_for_less: "prepared \<Gamma> self m ps \<Longrightarrow> k \<le> m \<Longrightarrow> prepared \<Gamma> self k ps"
  by (auto simp: prepared_def room_def)

lemma length_slot_code: "length (slot_code n k) \<le> 8"
  by (simp add: mem_bytes_def disp_bytes_def)

text \<open>A processor at the start of code that is loaded at 4096, with 9 in all of its memory.\<close>

definition sample_cpu :: cpu where
  "sample_cpu = \<lparr>regs = (\<lambda>k. 65536), mem = (\<lambda>a. 9), rip = 4096, carry = False, zero = False\<rparr>"

lemma in_function_scans: "length t < 1000 \<Longrightarrow> scan_ok (in_function t) \<and> remaining (in_function t) = chars t"
  by (auto simp: scan_ok_iff in_function_def with_variable_def goto_def remaining_def sample_length window_def chars_def)

text \<open>C38. A cast in front of \<open>=\<close> is not rejected, and the value goes to the return address. For every
  variable \<open>w\<close> and every integer expression \<open>e\<close>, in front of \<open>w as u64 = e;\<close> the parser of statements
  returns: it has consumed the statement, and the code that it has appended computes the value of \<open>e\<close> and puts it
  in the stack slot of the return address of the function, whose variables all keep their values, \<open>w\<close> among them.\<close>

theorem cast_assignment_hits_return_address:
  assumes "keyword_token w = TC_IDENTIFIER" and "\<Gamma> w = Some (Slot k)" and "token_of a = TC_AS"
    and "phrase 0 ts e" and "expr_ok \<Gamma> 0 e" and "slots_ok \<Gamma> (frame_size self)"
    and "sees self (Word w # a # u64_word # Other 61 # ts @ Other 59 # u # us)" and "length ts + 2 < fuel"
    and "prepared \<Gamma> self (length (expr_code \<Gamma> (frame_size self) 0 e) + 8) []"
  shows "\<exists>self'. tc_parse_stmt fuel self None = Ret (END_REACHABLE, None, self') \<and> sees self' (u # us) \<and>
    advances self self' \<and> sets_return_address \<Gamma> (frame_size self) e (code self') (pos self) (pos self')"
proof -
  let ?n = "frame_size self"
  note p = preparedD[OF assms(9)]
  obtain f where f: "fuel = Suc (Suc (Suc f))" using assms(8) le_Suc_ex[of 3 fuel] by (auto simp: numeral_3_eq_3)
  have rm: "room 8 self" using p(4) by (simp add: room_def)
  obtain bs self1 where s1: "tc_parse_expr (Suc (Suc f)) self = Ret self1" "sees self1 (Other 61 # ts @ Other 59 # u # us)"
    "pushed self bs self1" "names_slot self self1 0" "length bs \<le> 8"
    by (rule parse_cast_variable[OF assms(1-3,7) p(1,3) rm])
  have l: "length ts < Suc (Suc f)" "room (length bs) self" using assms(8) f s1(5) rm by (simp_all add: room_def)
  have "prepared \<Gamma> self (length (expr_code \<Gamma> ?n 0 e) + length (slot_code ?n 0)) []"
    by (rule prepared_for_less[OF assms(9)]) (simp only: add_le_cancel_left length_slot_code)
  from slot_0_assigned[OF s1(1,3,4) assms(7,1) s1(2) assms(4,5) l this assms(6)] f show ?thesis by blast
qed

text \<open>With 9 as the return address, the code of \<open>x as u64=7;\<close> replaces it by 7.\<close>

theorem cast_assignment_hits_return_address_witness:
  "\<exists>self self' c'. tc_parse_stmt 4 self None = Ret (END_REACHABLE, None, self') \<and>
    reaches (code self') 4096 sample_cpu c' \<and> rip c' = dst self' \<and> mem c' 65536 = 9 \<and> mem sample_cpu 65544 = 9 \<and> mem c' 65544 = 7"
proof -
  let ?t = "''      x as u64=7;};''"
  let ?self = "in_function ?t"
  let ?ts = "Word (chars ''as'') # u64_word # Other 61 # [Number 7] @ Other 59 # Other 125 # [Other 59]"
  have l: "lexes (chars ?t) (Word (chars ''x'') # ?ts)" by code_simp
  obtain self where s: "sees self (Word (chars ''x'') # ?ts)" and off: "off_scanner self = off_scanner ?self"
    using start_sees[of ?self "Word (chars ''x'')" ?ts] in_function_scans[of ?t] l by auto
  note o = off_scanner_core[OF off] and c = core_eqD[OF off_scanner_core(1)[OF off]]
  have f: "frame_size self = 1" "pos self = 0" "code_base self = 4096" "dst self = 4096"
    using c o by (simp_all add: in_function_def with_variable_def goto_def pos_def put_cell_def)
  have "syms_at self 65536 [(chars ''x'', 65536, x_symbol\<lparr>sym_name := 7\<rparr>)]"
    using o c by (simp add: name_at_def x_symbol_def below_def SYMBOL_SIZE_def in_function_def with_variable_def goto_def window_def chars_def)
  then have "in_scope sample_scope self"
    using c by (auto simp: in_scope_def sample_scope_def x_symbol_def in_function_def with_variable_def goto_def intro!: exI[of _ "[(chars ''x'', 65536, x_symbol\<lparr>sym_name := 7\<rparr>)]"])
  then have "settled sample_scope self"
    using o c by (simp add: settled_def code_ok_def in_function_def with_variable_def goto_def)
  moreover have "returns_int self"
    using o c by (simp add: returns_int_def below_def SYMBOL_SIZE_def in_function_def with_variable_def goto_def kinds)
  moreover have "length (expr_code sample_scope 1 0 (Num 7)) + 8 \<le> 200" by code_simp
  ultimately have pr: "prepared sample_scope self (length (expr_code sample_scope (frame_size self) 0 (Num 7)) + 8) []"
    using f o c by (simp add: prepared_def room_def in_function_def with_variable_def goto_def)
  have k: "keyword_token (chars ''x'') = TC_IDENTIFIER" "token_of (Word (chars ''as'')) = TC_AS" by code_simp+
  have h: "sample_scope (chars ''x'') = Some (Slot 1)" "phrase 0 [Number 7] (Num 7)" "expr_ok sample_scope 0 (Num 7)"
    "slots_ok sample_scope (frame_size self)" "length [Number 7] + 2 < 4"
    using f by (simp_all add: sample_scope_def slots_ok_def expr_ok_def number_phrase)
  obtain self' where p: "tc_parse_stmt 4 self None = Ret (END_REACHABLE, None, self')" "advances self self'"
    "sets_return_address sample_scope (frame_size self) (Num 7) (code self') (pos self) (pos self')"
    using cast_assignment_hits_return_address[OF k(1) h(1) k(2) h(2-4) s h(5) pr] by blast
  have "eval sample_scope (\<lambda>_. 9) (Num 7) = Some 7 \<and> frame sample_scope (frame_size self) 9 (\<lambda>_. 9) sample_cpu \<and>
      rip sample_cpu = 4096 + of_nat (pos self)"
    using f by (simp add: frame_def in_frame_def sample_cpu_def)
  then obtain c' where c': "reaches (code self') 4096 sample_cpu c'" "rip c' = 4096 + of_nat (pos self')" "regs c' 4 = regs sample_cpu 4"
    "frame sample_scope 1 7 (\<lambda>_. 9) c'" using p(3) f(1) unfolding sets_return_address_def by metis
  have "mem c' (regs c' 4 + (1 - 1) * 8) = (\<lambda>_. 9 :: u64) (1 :: u64)"
    using c'(4) h(1) unfolding frame_def in_frame_def by blast
  then have "mem c' 65536 = 9" "mem c' 65544 = 7" using c'(3,4) by (simp_all add: frame_def sample_cpu_def)
  moreover have "dst self' = 4096 + of_nat (pos self')" using dst_pos[of self'] advances_eqD(2)[OF p(2)] f by simp
  ultimately show ?thesis using p(1) c'(1,2) by (intro exI[of _ self] exI[of _ self'] exI[of _ c']) (simp add: sample_cpu_def)
qed

section \<open>Calls\<close>

text \<open>The name is that of a function without parameters that returns an integer.\<close>

definition names_function :: "compiler \<Rightarrow> u8 list \<Rightarrow> bool" where
  "names_function self w \<longleftrightarrow> (\<exists>es q s r. syms_at self (symbols self) es \<and> map_of es w = Some (q, s) \<and> sym_kind s = SYM_FN \<and>
     cells self (sym_type s) = Some (Sym r) \<and> below (heap self) (sym_type s) (Sym r) \<and> sym_kind r = SYM_VARIABLE \<and>
     sym_value r = 0 \<and> sym_type r = 0 \<and> sym_dim r = 0 \<and> sym_next r = 0)"

lemma parse_call_value:
  assumes "keyword_token w = TC_IDENTIFIER" and "names_function self w" and "sees self (Word w # Other 40 # Other 41 # Other 61 # us)"
    and "settled \<Gamma> self" and "next_register self = 0" and "room 5 self"
  obtains bs self1 where "tc_parse_expr (Suc (Suc f)) self = Ret self1" "sees self1 (Other 61 # us)" "pushed self bs self1"
    "length bs = 5" "dst_mark self1 = dst_mark self"
    "cells self1 (heap self) = Some (Val \<lparr>val_origin = FROM_VARIABLE, val_slot = 0, val_type = 0, val_dim = 0\<rparr>)"
proof -
  obtain es q s r where w: "syms_at self (symbols self) es" "map_of es w = Some (q, s)" "sym_kind s = SYM_FN"
    "cells self (sym_type s) = Some (Sym r)" "below (heap self) (sym_type s) (Sym r)" "sym_kind r = SYM_VARIABLE"
    "sym_value r = 0" "sym_type r = 0" "sym_dim r = 0" "sym_next r = 0" using assms(2) unfolding names_function_def by blast
  obtain self1 where s1: "tc_parse_symbol self (symbols self) = Ret (q, self1)" "sees self1 (Other 40 # Other 41 # Other 61 # us)"
    "off_scanner self1 = off_scanner self" "get_symbol self1 q = Ret s" "get_symbol self q = Ret s" "below (heap self) q (Sym s)"
    by (rule parse_symbol_listed[OF assms(3,1) w(1,2)])
  obtain self2 where s2: "tc_read_token self1 = Ret self2" "sees self2 (Other 41 # Other 61 # us)" "off_scanner self2 = off_scanner self1"
    using s1(2) by (rule read_sees)
  obtain self3 where s3: "tc_read_token self2 = Ret self3" "sees self3 (Other 61 # us)" "off_scanner self3 = off_scanner self2"
    using s2(2) by (rule read_sees)
  have o: "off_scanner self3 = off_scanner self" "off_scanner self2 = off_scanner self" using s1(3) s2(3) s3(3) by simp_all
  note c = off_scanner_core[OF o(1)] and c2 = off_scanner_core[OF o(2)]
  let ?v = "\<lparr>val_origin = FROM_VARIABLE, val_slot = 0, val_type = 0, val_dim = 0\<rparr>"
  let ?self4 = "push_state self3 ?v" and ?bs = "call_bytes (sym_value s - (dst self + 5)) 0 True"
  have lim: "unat (heap self3) + 32 \<le> unat (heap_limit self3)"
    using assms(4) c(3) core_eqD(7)[OF c(1)] by (simp add: settled_def)
  have g3: "get_symbol self3 q = Ret s" "get_symbol self3 (sym_type s) = Ret r"
    using s1(5) w(4) c(2) by (simp_all add: get_symbol_def)
  have push: "tc_push_symbol_value self3 (sym_type s) = Ret ?self4"
    using g3(2) w(6-9) push_value[OF lim] by (simp add: tc_push_symbol_value_def kinds Let_def)
  have check: "tc_check_fn_arguments self3 q 0 = Ret ?self4"
    using g3 w(10) push by (simp add: tc_check_fn_arguments_def tc_check_fn_arguments_loop.simps)
  have k: "keeps self3 ?self4" by (rule keeps_push_state[OF lim])
  have "cells self3 q = Some (Sym s)" using g3(1) by (auto simp: get_symbol_def split: option.splits cell.splits)
  then have g4: "get_symbol ?self4 q = Ret s" "get_symbol ?self4 (sym_type s) = Ret r"
    using k s1(6) w(4,5) c(2,3) by (simp_all add: keeps_def get_symbol_def)
  have c4: "core ?self4 = core self" using c(1) by simp
  have bs: "length ?bs = 5" by (simp add: call_bytes_def after_call_def pop_bytes_def)
  have ok: "code_ok ?self4" "room (length ?bs) ?self4" "dst ?self4 = dst self" "frame_size ?self4 = frame_size self"
    using assms(4,6) core_code[OF c4] core_eqD[OF c4] bs by (simp_all add: settled_def)
  let ?self5 = "emit ?bs ?self4\<lparr>next_register := 1, frame_size := frame_size self\<rparr>"
  have e5: "?self5 = emit ?bs ?self4\<lparr>next_register := 1\<rparr>"
  proof -
    have same: "t\<lparr>frame_size := frame_size t\<rparr> = t" for t :: compiler by simp
    have "frame_size (emit ?bs ?self4\<lparr>next_register := 1\<rparr>) = frame_size self" using ok(4) by (simp add: emit_def)
    then show ?thesis using same[of "emit ?bs ?self4\<lparr>next_register := 1\<rparr>"] by (simp only:)
  qed
  have call: "tc_write_call_insn ?self4 q 0 = Ret ?self5"
    using write_call[OF ok(1) g4(1) _ g4(2), of 0] w(3,6) ok(2-4) by (simp add: kinds seq_written)
  have n0: "next_register self1 = 0" "next_register self2 = 0" using assms(5) s1(3) c2(4) off_scanner_core(4)[OF s1(3)] by simp_all
  have loop: "while_do f (\<lambda>(argument_count, self). next_token self \<noteq> 41) b (0 :: u64, self2) = Ret (0, self2)" for b
    using sees_token[OF s2(2)] by (cases f) simp_all
  have "tc_parse_fn_arguments (tc_parse_expr (Suc f)) f self1 q = Ret ?self5"
    using s1(4) w(3) parse_token_sees[OF s1(2)] s2(1) n0 loop s3(1) check call by (simp add: tc_parse_fn_arguments_def kinds Let_def)
  then have prim: "tc_parse_primitive_expr (tc_parse_expr (Suc f)) f self = Ret ?self5"
    using sees_token[OF assms(3)] assms(1) s1(1) sees_token[OF s1(2)]
    by (simp add: tc_parse_primitive_expr_def tc_parse_symbol_expr_def token_of_def tokens)
  have "sees ?self5 = sees self3" by (rule ext, rule sees_cong) (simp_all add: emit_def put_cell_def)
  then have s5: "sees ?self5 (Other 61 # us)" using s3(2) by (simp del: sees.simps)
  then have n5: "next_token ?self5 = 61" using sees_token by fastforce
  have "next_token self = TC_IDENTIFIER" using sees_token[OF assms(3)] assms(1) by (simp add: token_of_def)
  then have "parser 5 (Suc f) self = Ret ?self5" using parse_only_primitive[OF prim] n5 by (simp add: tokens)
  from parser_alone[OF this, of 0] n5 have "tc_parse_expr (Suc (Suc f)) self = Ret ?self5"
    by (simp add: level_def tokens parser_def)
  moreover have "pushed self ?bs ?self5"
  proof (rule pushed_written[where v = ?v and n = 1 and \<Gamma> = \<Gamma>])
    show "ready \<Gamma> self 1 ?bs" using ready_settled[OF assms(4,5)] assms(6) bs by simp
    show "int_value ?v" by (simp add: int_value_def FROM_VARIABLE_def FROM_VOID_def FROM_NULL_def)
    show "core ?self5 = core (emit ?bs self)" using core_code(4)[OF c4, of ?bs] by (simp add: e5)
  qed (use c assms(5) in \<open>simp_all add: put_cell_def\<close>)
  moreover have "dst_mark ?self5 = dst_mark self" "cells ?self5 (heap self) = Some (Val ?v)"
    using c(3,5) by (simp_all add: put_cell_def emit_def)
  ultimately show thesis using that s5 bs by blast
qed

text \<open>Moving \<open>dst\<close> back: the code from there on counts as one instruction that can be erased.\<close>

lemma blit_again:
  assumes "m \<le> p" and "p + length bs \<le> length cs"
  shows "blit cs m (window (blit cs p bs) m (p + length bs - m)) = blit cs p bs"
proof -
  define ds where "ds = blit cs p bs"
  let ?ws = "window ds m (p + length bs - m)"
  have l: "length ds = length cs" using assms(2) by (simp add: ds_def length_blit)
  have t: "take m cs = take m ds" "drop (p + length bs) cs = drop (p + length bs) ds"
    using assms by (simp_all add: ds_def blit_def)
  have w: "m + length ?ws = p + length bs" using assms l by (simp add: length_window)
  have "blit cs m ?ws = take m ds @ take (p + length bs - m) (drop m ds) @ drop (p + length bs) ds"
    by (simp only: blit_def[of cs m] w t) (simp only: window_def)
  also have "\<dots> = take m ds @ drop m ds"
    using append_take_drop_id[of "p + length bs - m" "drop m ds"] assms(1) by (simp add: drop_drop)
  finally show ?thesis by (simp add: ds_def)
qed

lemma pos_back:
  assumes "code_ok self" and "code_base self \<le> d" and "d \<le> dst self"
  shows "pos (self\<lparr>dst := d\<rparr>) \<le> pos self" and "dst self = d + of_nat (pos self - pos (self\<lparr>dst := d\<rparr>))"
proof -
  let ?self0 = "self\<lparr>dst := d\<rparr>"
  have u: "unat (dst self) = unat (code_base self) + pos self" by (rule code_ok_bounds(1)[OF assms(1)])
  have p: "pos ?self0 = unat d - unat (code_base self)" using assms(2) by (simp add: pos_def unat_sub_u64)
  have b: "unat (code_base self) \<le> unat d" "unat d \<le> unat (dst self)" using assms(2,3) by (simp_all add: le_u64)
  then show m: "pos ?self0 \<le> pos self" using p u by simp
  have e: "unat d + (pos self - pos ?self0) = unat (dst self)" using u p b by simp
  then have "pos self - pos ?self0 < 18446744073709551616" using unat_u64_less[of "dst self"] by linarith
  then have "unat (of_nat (pos self - pos ?self0) :: u64) = pos self - pos ?self0" by (rule unat_of_nat_u64)
  then have "unat (d + of_nat (pos self - pos ?self0)) = unat (dst self)"
    using e unat_u64_less[of "dst self"] by (simp add: unat_add_u64)
  then show "dst self = d + of_nat (pos self - pos ?self0)" by (simp only: eq_u64)
qed

lemma pushed_from_mark:
  assumes "pushed self bs self1" and "code_ok self" and "room (length bs) self" and "code_base self \<le> d" and "d \<le> dst self"
  obtains cs where "pushed (self\<lparr>dst := d\<rparr>) cs self1" "room (length cs) (self\<lparr>dst := d\<rparr>)"
proof -
  let ?self0 = "self\<lparr>dst := d\<rparr>"
  note m = pos_back[OF assms(2,4,5)]
  have r: "pos self + length bs \<le> length (code self)" using assms(3) by (simp add: room_def)
  let ?n = "pos self + length bs - pos ?self0"
  let ?cs = "window (blit (code self) (pos self) bs) (pos ?self0) ?n"
  have n: "length ?cs = ?n" using m(1) r by (simp add: length_window length_blit)
  have "?n = (pos self - pos ?self0) + length bs" using m(1) by simp
  then have "d + of_nat ?n = d + of_nat (pos self - pos ?self0) + of_nat (length bs)" by (simp only: of_nat_add add.assoc)
  then have "d + of_nat ?n = dst self + of_nat (length bs)" by (simp only: m(2)[symmetric])
  then have "emit ?cs ?self0 = emit bs self" using blit_again[OF m(1) r] n by (simp add: emit_def)
  moreover have "keeps ?self0 self1 = keeps self self1" by (simp add: keeps_def)
  ultimately have "pushed ?self0 ?cs self1" using assms(1) by (simp add: pushed_def extends_def)
  moreover have "room (length ?cs) ?self0" using n m(1) r by (simp add: room_def)
  ultimately show thesis by (rule that)
qed

lemma prepared_from_mark:
  assumes "prepared \<Gamma> self m []" and "code_base self \<le> d" and "d \<le> dst self"
  shows "prepared \<Gamma> (self\<lparr>dst := d\<rparr>) m []"
proof -
  let ?self0 = "self\<lparr>dst := d\<rparr>"
  note p = preparedD[OF assms(1)]
  have "pos ?self0 \<le> pos self" by (rule pos_back(1)[OF p(6) assms(2,3)])
  then have "room m ?self0" using p(4) by (simp add: room_def)
  moreover have "code_ok ?self0" using p(6) assms(2,3) by (auto simp: code_ok_def)
  moreover have "syms_at ?self0 q es = syms_at self q es" for q es
    by (induction es arbitrary: q) (auto simp: name_at_def)
  then have "in_scope \<Gamma> ?self0 = in_scope \<Gamma> self" by (simp add: in_scope_def)
  ultimately show ?thesis using p(1,2,3) by (simp add: prepared_def settled_def returns_int_def)
qed

text \<open>C39. The result of a call counts as a variable in slot 0, so that an assignment to it is not rejected.
  For every function \<open>w\<close> without parameters that returns an integer, and every integer expression \<open>e\<close>, in
  front of \<open>w() = e;\<close> the parser of statements moves its output pointer back to \<open>dst_mark\<close>, which an
  earlier instruction that reads a variable has set: all code from there on, with the call, is
  given up. The code of \<open>e\<close> is written there, and when it is run, its value replaces the return
  address of the function that is compiled.\<close>

theorem call_assignment_erases_code:
  assumes "keyword_token w = TC_IDENTIFIER" and "names_function self w"
    and "sees self (Word w # Other 40 # Other 41 # Other 61 # ts @ Other 59 # u # us)"
    and "phrase 0 ts e" and "expr_ok \<Gamma> 0 e" and "slots_ok \<Gamma> (frame_size self)" and "length ts + 2 < fuel"
    and "prepared \<Gamma> self (length (expr_code \<Gamma> (frame_size self) 0 e) + 8) []"
    and "code_base self \<le> dst_mark self" and "dst_mark self \<le> dst self"
  shows "\<exists>self'. tc_parse_stmt fuel self None = Ret (END_REACHABLE, None, self') \<and> sees self' (u # us) \<and>
    advances (self\<lparr>dst := dst_mark self\<rparr>) self' \<and>
    sets_return_address \<Gamma> (frame_size self) e (code self') (unat (dst_mark self - code_base self)) (pos self') \<and>
    pos self' \<le> unat (dst_mark self - code_base self) + length (expr_code \<Gamma> (frame_size self) 0 e) + 8"
proof -
  let ?n = "frame_size self" and ?self0 = "self\<lparr>dst := dst_mark self\<rparr>"
  note p = preparedD[OF assms(8)]
  obtain f where f: "fuel = Suc (Suc (Suc f))" using assms(7) le_Suc_ex[of 3 fuel] by (auto simp: numeral_3_eq_3)
  have rm: "room 5 self" using p(4) by (simp add: room_def)
  obtain bs self1 where s1: "tc_parse_expr (Suc (Suc f)) self = Ret self1" "sees self1 (Other 61 # ts @ Other 59 # u # us)"
    "pushed self bs self1" "length bs = 5" "dst_mark self1 = dst_mark self"
    "cells self1 (heap self) = Some (Val \<lparr>val_origin = FROM_VARIABLE, val_slot = 0, val_type = 0, val_dim = 0\<rparr>)"
    by (rule parse_call_value[OF assms(1-3) p(1,3) rm])
  have "room (length bs) self" using rm s1(4) by simp
  from pushed_from_mark[OF s1(3) p(6) this assms(9,10)] obtain cs where
    cs: "pushed ?self0 cs self1" "room (length cs) ?self0" by blast
  have nm: "names_slot ?self0 self1 0" using s1(5,6) by (simp add: names_slot_def)
  have "prepared \<Gamma> self (length (expr_code \<Gamma> ?n 0 e) + length (slot_code ?n 0)) []"
    by (rule prepared_for_less[OF assms(8)]) (simp only: add_le_cancel_left length_slot_code)
  then have pr: "prepared \<Gamma> ?self0 (length (expr_code \<Gamma> (frame_size ?self0) 0 e) + length (slot_code (frame_size ?self0) 0)) []"
    using prepared_from_mark[OF _ assms(9,10)] by simp
  have l: "length ts < Suc (Suc f)" "slots_ok \<Gamma> (frame_size ?self0)" using assms(6,7) f by simp_all
  have "pos ?self0 = unat (dst_mark self - code_base self)" by (simp add: pos_def)
  with slot_0_assigned[OF s1(1) cs(1) nm assms(3,1) s1(2) assms(4,5) l(1) cs(2) pr l(2)] f show ?thesis
    using length_slot_code[of ?n 0] by fastforce
qed

text \<open>A compiler in front of \<open>f()=7;\<close>, in a function of which 100 bytes are compiled; 10 of them are in
  front of the mark.\<close>

definition in_front_of_call :: compiler where
  "in_front_of_call = (in_function ''      f()=7;};'')\<lparr>
     cells := [65536 \<mapsto> Sym (x_symbol\<lparr>sym_name := 7, sym_kind := SYM_FN, sym_value := 4096, sym_type := 65600\<rparr>),
       65600 \<mapsto> Sym \<lparr>sym_name = 0, sym_length = 0, sym_kind = SYM_VARIABLE, sym_value = 0, sym_type = 0, sym_dim = 0, sym_next = 0\<rparr>],
     dst := 4196, dst_mark := 4106\<rparr>"

text \<open>The parser goes back to byte 10. With 9 as the return address, the code from there on replaces it by 7.\<close>

theorem call_assignment_erases_code_witness:
  "\<exists>self self' c'. pos self = 100 \<and> tc_parse_stmt 4 self None = Ret (END_REACHABLE, None, self') \<and> pos self' < 41 \<and>
    reaches (code self') 4086 sample_cpu c' \<and> rip c' = 4086 + of_nat (pos self') \<and> mem sample_cpu 65544 = 9 \<and> mem c' 65544 = 7"
proof -
  let ?ts = "Other 40 # Other 41 # Other 61 # [Number 7] @ Other 59 # Other 125 # [Other 59]"
  let ?G = "\<lambda>_. None" and ?f = "x_symbol\<lparr>sym_name := 7, sym_kind := SYM_FN, sym_value := 4096, sym_type := 65600\<rparr>"
  let ?r = "\<lparr>sym_name = 0, sym_length = 0, sym_kind = SYM_VARIABLE, sym_value = 0, sym_type = 0, sym_dim = 0, sym_next = 0\<rparr>"
  have l: "lexes (chars ''      f()=7;};'') (Word (chars ''f'') # ?ts)" by code_simp
  have "scan_ok in_front_of_call \<and> remaining in_front_of_call = chars ''      f()=7;};''"
    using in_function_scans[of "''      f()=7;};''"] by (simp add: in_front_of_call_def scan_ok_iff remaining_def)
  then obtain self where s: "sees self (Word (chars ''f'') # ?ts)" and off: "off_scanner self = off_scanner in_front_of_call"
    using start_sees[of in_front_of_call "Word (chars ''f'')" ?ts] l by auto
  note o = off_scanner_core[OF off] and c = core_eqD[OF off_scanner_core(1)[OF off]]
  note start = in_front_of_call_def in_function_def with_variable_def goto_def put_cell_def
  have f: "frame_size self = 1" "pos self = 100" "code_base self = 4096" "dst self = 4196" "dst_mark self = 4106"
    using c o by (simp_all add: start pos_def)
  have sy: "syms_at self 65536 [(chars ''f'', 65536, ?f)]" "symbols self = 65536"
    using o c by (simp_all add: name_at_def x_symbol_def below_def SYMBOL_SIZE_def start window_def chars_def)
  then have "in_scope ?G self" unfolding in_scope_def by (intro exI[of _ "[(chars ''f'', 65536, ?f)]"]) simp
  then have "settled ?G self" using o c by (simp add: settled_def code_ok_def start)
  moreover have "returns_int self" using o c by (simp add: returns_int_def below_def SYMBOL_SIZE_def start kinds)
  moreover have "length (expr_code ?G 1 0 (Num 7)) + 8 \<le> 30" by code_simp
  ultimately have pr: "prepared ?G self (length (expr_code ?G (frame_size self) 0 (Num 7)) + 8) []"
    "length (expr_code ?G (frame_size self) 0 (Num 7)) + 8 \<le> 30"
    using f o c by (simp_all add: prepared_def room_def start)
  have fn: "names_function self (chars ''f'')"
    unfolding names_function_def
    by (rule exI[of _ "[(chars ''f'', 65536, ?f)]"], rule exI[of _ 65536], rule exI[of _ ?f], rule exI[of _ ?r])
      (use sy o in \<open>simp add: start below_def SYMBOL_SIZE_def x_symbol_def\<close>)
  have k: "keyword_token (chars ''f'') = TC_IDENTIFIER" by code_simp
  have h: "phrase 0 [Number 7] (Num 7)" "expr_ok ?G 0 (Num 7)" "slots_ok ?G (frame_size self)" "length [Number 7] + 2 < 4"
    "code_base self \<le> dst_mark self" "dst_mark self \<le> dst self"
    using f by (simp_all add: slots_ok_def expr_ok_def number_phrase)
  have m: "unat (dst_mark self - code_base self) = 10" using f by simp
  obtain self' where p: "tc_parse_stmt 4 self None = Ret (END_REACHABLE, None, self')"
    "sets_return_address ?G 1 (Num 7) (code self') 10 (pos self')" "pos self' < 41"
    using call_assignment_erases_code[OF k fn s h(1-4) pr(1) h(5,6)] pr(2) f(1) m by fastforce
  have "eval ?G (\<lambda>_. 9) (Num 7) = Some 7 \<and> frame ?G 1 9 (\<lambda>_. 9) sample_cpu \<and> rip sample_cpu = 4086 + of_nat 10"
    by (simp add: frame_def in_frame_def sample_cpu_def)
  then obtain c' where c': "reaches (code self') 4086 sample_cpu c'" "rip c' = 4086 + of_nat (pos self')" "regs c' 4 = regs sample_cpu 4"
    "frame ?G 1 7 (\<lambda>_. 9) c'" using p(2) unfolding sets_return_address_def by metis
  then have "mem c' 65544 = 7" by (simp add: frame_def sample_cpu_def)
  then show ?thesis using p(1,3) c'(1,2) f(2) by (intro exI[of _ self] exI[of _ self'] exI[of _ c']) (simp add: sample_cpu_def)
qed

section \<open>Functions that are not defined\<close>

text \<open>The name is declared as a function without parameters and without a result, by the symbol at \<open>q\<close>; the
  calls of it so far have their placeholders at \<open>ps\<close>.\<close>

definition declared :: "compiler \<Rightarrow> u8 list \<Rightarrow> u64 \<Rightarrow> nat list \<Rightarrow> bool" where
  "declared self w q ps \<longleftrightarrow> (\<exists>es s r. syms_at self (symbols self) es \<and> map_of es w = Some (q, s) \<and>
     sym_kind s = SYM_FORWARD_FN \<and> sym_value s = chain self ps \<and> holes (code self) ps \<and>
     cells self (sym_type s) = Some (Sym r) \<and> below (heap self) (sym_type s) (Sym r) \<and> sym_kind r = SYM_VOID \<and>
     sym_type r = 0 \<and> sym_dim r = 0 \<and> sym_next r = 0)"

lemma resolve_declared:
  assumes "keyword_token w = TC_IDENTIFIER" and "sees self (Word w # u # us)" and "syms_at self (symbols self) es"
    and "map_of es w = Some (q, s)" and "sym_kind s = SYM_FORWARD_FN" and "sym_value s = chain self ps" and "holes (code self) ps"
    and "code_ok self"
  obtains self1 where
    "tc_parse_fn_name self = Ret (q, put_symbol (self1\<lparr>code := filled (code_base self) (dst self) ps (code self)\<rparr>) q
       (s\<lparr>sym_kind := SYM_FN, sym_value := dst self\<rparr>))"
    "sees self1 (u # us)" "off_scanner self1 = off_scanner self"
proof -
  obtain self1 where s1: "tc_parse_symbol self (symbols self) = Ret (q, self1)" "sees self1 (u # us)" "off_scanner self1 = off_scanner self"
    "get_symbol self1 q = Ret s" "get_symbol self q = Ret s" "below (heap self) q (Sym s)"
    by (rule parse_symbol_listed[OF assms(2,1,3,4)])
  note o = off_scanner_core[OF s1(3)]
  note e = core_eqD[OF o(1)]
  have id: "tc_parse_identifier self = Ret (n, l, self1) \<and> sym_lookup self1 (symbols self1) n l = Ret q \<and> q \<noteq> 0"
    if "tc_parse_identifier self = Ret (n, l, s2)" for n l s2
    using s1(1) that e(8) by (auto simp: tc_parse_symbol_def seq_eq_Ret split: if_splits)
  obtain n l s2 where "tc_parse_identifier self = Ret (n, l, s2)"
    using s1(1) by (auto simp: tc_parse_symbol_def seq_eq_Ret)
  note i = id[OF this]
  have "code_ok self1" "holes (code self1) ps" "chain self1 ps = chain self ps" "dst self1 = dst self"
    using assms(7,8) core_code(1)[OF o(1)] e chain_cong[of self1 self] by simp_all
  then have "tc_fill_placeholders self1 (sym_value s) (dst self) = Ret (self1\<lparr>code := filled (code_base self) (dst self) ps (code self)\<rparr>)"
    using fill_placeholders[of self1 ps "dst self"] assms(6) e by simp
  then show thesis
    using that i s1(2-4) assms(5) e(5) by (auto simp: tc_parse_fn_name_def tc_add_or_resolve_fn_symbol_def)
qed

text \<open>A parameter list without parameters or a result, in front of which no other has been declared.\<close>

lemma parse_no_parameters:
  assumes "sees self (Other 40 # Other 41 # u # us)" and "token_of u \<noteq> TC_ARROW" and "cells self q = Some (Sym s)"
    and "below (heap self) q (Sym s)" and "cells self (sym_type s) = Some (Sym r)" and "below (heap self) (sym_type s) (Sym r)"
    and "sym_kind r = SYM_VOID" "sym_type r = 0" "sym_dim r = 0" "sym_next r = 0"
    and "heap self \<noteq> 0" and "unat (heap self) + 64 \<le> unat (heap_limit self)" and "length (source self) \<le> 65536"
  obtains self1 n where "tc_parse_fn_parameters f self q =
      Ret (0, put_symbol self1 q (s\<lparr>sym_type := heap self\<rparr>)\<lparr>fn_return_type := heap self\<rparr>)"
    "allocates 1 self self1" "sees self1 (u # us)" "cells self1 (heap self) = Some (Sym n)"
    "sym_kind n = SYM_VOID" "sym_type n = 0" "sym_dim n = 0" "sym_next n = 0"
proof -
  obtain self1 where s1: "tc_read_token self = Ret self1" "sees self1 (Other 41 # u # us)" "off_scanner self1 = off_scanner self"
    using assms(1) by (rule read_sees)
  obtain self2 where s2: "tc_read_token self1 = Ret self2" "sees self2 (u # us)" "off_scanner self2 = off_scanner self1"
    using s1(2) by (rule read_sees)
  have o: "off_scanner self2 = off_scanner self" using s1(3) s2(3) by simp
  note a = allocates_read[OF o]
  note c = off_scanner_core(3)[OF o] core_eqD(1,7)[OF off_scanner_core(1)[OF o]]
  have "name_at self2 0 0 []" using assms(13) c by (simp add: name_at_def window_def)
  moreover have "heap self2 \<noteq> 0" "unat (heap self2) + 64 \<le> unat (heap_limit self2)" using assms(11,12) c by simp_all
  ultimately obtain self3 n where s3: "tc_new_symbol self2 0 0 SYM_VOID 0 0 0 0 = Ret (heap self2, self3)" "allocates 1 self2 self3"
    "syms_at self3 (heap self2) (([], heap self2, n) # [])" "sym_kind n = SYM_VOID" "sym_value n = 0" "sym_type n = 0" "sym_dim n = 0"
    "sees self3 = sees self2" using new_symbol[of self2 0 "[]" 0 0 "[]" SYM_VOID 0 0 0] by simp metis
  have n: "cells self3 (heap self) = Some (Sym n)" "sym_next n = 0" "0 < heap self" using s3(3) c assms(11) by (simp_all add: word_neq_0_conv)
  have "keeps self self3" using allocates_trans[OF a s3(2)] by (simp add: allocates_def)
  then have k: "cells self3 q = Some (Sym s)" "cells self3 (sym_type s) = Some (Sym r)" using assms(3-6) by (simp_all add: keeps_def)
  have g: "get_symbol self3 q = Ret s" "get_symbol self3 (sym_type s) = Ret r" "get_symbol self3 (heap self) = Ret n"
    using k n(1) by (simp_all add: get_symbol_def)
  have "tc_check_fn_parameters_loop self3 0 0 = Ret (0, 0)" by (simp add: tc_check_fn_parameters_loop.simps)
  then have "sym_type s \<noteq> 0 \<Longrightarrow> tc_check_fn_parameters_loop self3 (sym_type s) (heap self) = Ret (0, 0)"
    using g n assms(7-11) s3(4,6,7) by (simp add: tc_check_fn_parameters_loop.simps[of self3 "sym_type s"])
  then have check: "tc_check_fn_parameters self3 (sym_type s) (heap self) = Ret ()" by (simp add: tc_check_fn_parameters_def)
  have loop: "while_do f (\<lambda>(syms, i, self). next_token self \<noteq> 41) b (0 :: u64, 0 :: u64, self1) = Ret (0, 0, self1)" for b
    using sees_token[OF s1(2)] by (cases f) simp_all
  have "tc_parse_fn_parameters f self q = Ret (0, put_symbol self3 q (s\<lparr>sym_type := heap self\<rparr>)\<lparr>fn_return_type := heap self\<rparr>)"
    using parse_token_sees[OF assms(1)] s1(1) loop s2(1) sees_token[OF s2(2)] assms(2) s3(1) g check c
    by (simp add: tc_parse_fn_parameters_def)
  moreover have "allocates 1 self self3" "sees self3 (u # us)" using allocates_trans[OF a s3(2)] s2(2) s3(8) by simp_all
  ultimately show thesis using that n s3(4,6,7) by blast
qed

lemma listed_at:
  "syms_at self p es \<Longrightarrow> map_of es w = Some (q, s) \<Longrightarrow>
   cells self q = Some (Sym s) \<and> below (heap self) q (Sym s) \<and> length (source self) \<le> 65536 \<and> q \<noteq> 0"
proof (induction es arbitrary: p)
  case (Cons e es)
  then show ?case by (cases e) (auto simp: name_at_def split: if_splits)
qed simp

text \<open>A symbol of the list is replaced by one with the same name and successor.\<close>

lemma syms_at_replaced:
  assumes "cells self q = Some (Sym s)" and "cells self' q = Some (Sym s')" and "sym_name s' = sym_name s"
    and "sym_length s' = sym_length s" and "sym_next s' = sym_next s" and "heap self \<le> heap self'" and "source self' = source self"
    and "\<And>x d. x \<noteq> q \<Longrightarrow> cells self x = Some d \<Longrightarrow> below (heap self) x d \<Longrightarrow> cells self' x = Some d"
  shows "syms_at self p es \<Longrightarrow> syms_at self' p (map (\<lambda>(x, a, t). (x, a, if a = q then s' else t)) es)"
proof (induction es arbitrary: p)
  case (Cons e es)
  obtain x a t where e: "e = (x, a, t)" by (cases e) auto
  then have c: "cells self a = Some (Sym t)" "below (heap self) a (Sym t)" using Cons.prems by auto
  have b: "below (heap self') a (Sym u)" for u using c(2) assms(6) by (simp add: below_def le_u64)
  show ?case
  proof (cases "a = q")
    case True
    then have "t = s" using c(1) assms(1) by simp
    then show ?thesis using Cons e True b assms(2-5,7) by (simp add: name_at_def)
  next
    case False
    then show ?thesis using Cons e b assms(7) assms(8)[OF False c] by (simp add: name_at_def)
  qed
qed simp


text \<open>C40. A function that is declared and never defined compiles, and its calls go to whatever comes next.
  For every function \<open>w\<close> without parameters and without a result that is declared, with any calls of it
  before, \<open>fn w();\<close> is accepted again. The placeholders of all these calls are set as if \<open>w\<close> were
  defined here, so that they go to the code that is compiled next; they are no longer pending, so that a
  definition of \<open>w\<close> that follows does not change them. At the end of the source the program is
  accepted, although \<open>w\<close> is not defined.\<close>

theorem undefined_function_compiles:
  assumes "token_of t = TC_FN" and "keyword_token w = TC_IDENTIFIER" and "declared self w q ps"
    and "sees self (t # Word w # Other 40 # Other 41 # Other 59 # u # us)" and "code_ok self" and "heap self \<noteq> 0"
    and "unat (heap self) + 64 \<le> unat (heap_limit self)" and "0 < fuel"
  shows "\<exists>self'. tc_parse_fn fuel self = Ret self' \<and> sees self' (u # us) \<and> pos self' = pos self \<and> declared self' w q [] \<and>
    list_all (\<lambda>p. window (code self') p 4 = le_bytes 4 (of_nat (pos self) - of_nat (p + 4) :: u64)) ps \<and>
    (token_of u \<noteq> 0 \<or> tc_parse_program fuel self = Ret self')"
proof -
  obtain es s r where w: "syms_at self (symbols self) es" "map_of es w = Some (q, s)" "sym_kind s = SYM_FORWARD_FN"
    "sym_value s = chain self ps" "holes (code self) ps" "cells self (sym_type s) = Some (Sym r)" "below (heap self) (sym_type s) (Sym r)"
    "sym_kind r = SYM_VOID" "sym_type r = 0" "sym_dim r = 0" "sym_next r = 0" using assms(3) unfolding declared_def by blast
  have q: "cells self q = Some (Sym s)" "below (heap self) q (Sym s)" "length (source self) \<le> 65536" using listed_at[OF w(1,2)] by simp_all
  have tq: "sym_type s \<noteq> q" using q(1) w(3,6,8) by (auto simp: kinds)
  obtain self0 where s0: "tc_read_token self = Ret self0" "sees self0 (Word w # Other 40 # Other 41 # Other 59 # u # us)"
    "off_scanner self0 = off_scanner self" using assms(4) by (rule read_sees)
  note o0 = off_scanner_core[OF s0(3)]
  note e0 = core_eqD[OF o0(1)]
  have sy: "syms_at self0 (symbols self0) es" using allocates_syms[OF allocates_read[OF s0(3)] w(1)] e0 by simp
  have "sym_value s = chain self0 ps" "holes (code self0) ps" "code_ok self0" using w(4,5) assms(5) e0 core_code(1)[OF o0(1)] chain_cong[of self0 self] by simp_all
  then obtain self1 where s1: "tc_parse_fn_name self0 = Ret (q, put_symbol (self1\<lparr>code := filled (code_base self0) (dst self0) ps (code self0)\<rparr>) q
       (s\<lparr>sym_kind := SYM_FN, sym_value := dst self0\<rparr>))" "sees self1 (Other 40 # Other 41 # Other 59 # u # us)" "off_scanner self1 = off_scanner self0"
    by (rule resolve_declared[OF assms(2) s0(2) sy w(2,3)])
  note o1 = off_scanner_core[OF s1(3)]
  note e1 = core_eqD[OF o1(1)]
  let ?code = "filled (code_base self) (dst self) ps (code self)"
  let ?s = "s\<lparr>sym_kind := SYM_FN, sym_value := dst self\<rparr>"
  let ?self1 = "put_symbol (self1\<lparr>code := ?code\<rparr>) q ?s"
  have name: "tc_parse_fn_name self0 = Ret (q, ?self1)" using s1(1) e0 by simp
  have see1: "sees ?self1 (Other 40 # Other 41 # Other 59 # u # us)"
  proof -
    have "sees ?self1 = sees self1" by (rule ext, rule sees_cong) (simp_all add: put_symbol_def)
    then show ?thesis using s1(2) by (simp del: sees.simps)
  qed
  have c1: "cells ?self1 q = Some (Sym ?s)" "cells ?self1 (sym_type ?s) = Some (Sym r)" "heap ?self1 = heap self"
    "heap_limit ?self1 = heap_limit self" "source ?self1 = source self" "below (heap ?self1) q (Sym ?s)" "below (heap ?self1) (sym_type ?s) (Sym r)"
    using q w(6,7) tq o0 o1 e0 e1 by (simp_all add: put_symbol_def below_def)
  have old: "cells ?self1 x = cells self x" if "x \<noteq> q" for x using that o0 o1 by (simp add: put_symbol_def)
  obtain self2 n where s2: "tc_parse_fn_parameters fuel ?self1 q = Ret (0, put_symbol self2 q (?s\<lparr>sym_type := heap ?self1\<rparr>)\<lparr>fn_return_type := heap ?self1\<rparr>)"
    "allocates 1 ?self1 self2" "sees self2 (Other 59 # u # us)" "cells self2 (heap ?self1) = Some (Sym n)"
    "sym_kind n = SYM_VOID" "sym_type n = 0" "sym_dim n = 0" "sym_next n = 0"
    by (rule parse_no_parameters[OF see1 _ c1(1,6,2,7) w(8-11)]) (use c1(3-5) assms(6,7) q(3) in \<open>simp_all add: tokens\<close>)
  have k2: "keeps ?self1 self2" "core self2 = core ?self1" "unat (heap self2) = unat (heap self) + 64"
    using s2(2) c1(3) by (simp_all add: allocates_def)
  note e2 = core_eqD[OF k2(2)]
  let ?self2 = "put_symbol self2 q (?s\<lparr>sym_type := heap self\<rparr>)\<lparr>fn_return_type := heap self\<rparr>"
  have see2: "sees ?self2 (Other 59 # u # us)"
  proof -
    have "sees ?self2 = sees self2" by (rule ext, rule sees_cong) (simp_all add: put_symbol_def)
    then show ?thesis using s2(3) by (simp del: sees.simps)
  qed
  then obtain self3 where s3: "tc_read_token ?self2 = Ret self3" "sees self3 (u # us)" "off_scanner self3 = off_scanner ?self2"
    by (rule read_sees)
  note o3 = off_scanner_core[OF s3(3)]
  note e3 = core_eqD[OF o3(1)]
  let ?s' = "s\<lparr>sym_type := heap self, sym_kind := SYM_FORWARD_FN, sym_value := 0\<rparr>"
  let ?self' = "put_symbol self3 q ?s'\<lparr>symbols := symbols self, heap := heap self2\<rparr>"
  have "get_symbol self3 q = Ret (?s\<lparr>sym_type := heap self\<rparr>)" using o3(2) by (simp add: get_symbol_def put_symbol_def)
  moreover have "symbols ?self2 = symbols self" "heap ?self2 = heap self2" using e2 e1 e0 by (simp_all add: put_symbol_def)
  ultimately have fn: "tc_parse_fn fuel self = Ret ?self'"
    using sees_token[OF assms(4)] assms(1) s0(1) name s2(1) c1(3) sees_token[OF see2] s3(1)
    by (simp add: tc_parse_fn_def tc_parse_token_def tc_parse_fn_body_def Let_def)
  have see': "sees ?self' (u # us)"
  proof -
    have "sees ?self' = sees self3" by (rule ext, rule sees_cong) (simp_all add: put_symbol_def)
    then show ?thesis using s3(2) by (simp del: sees.simps)
  qed
  have f': "dst ?self' = dst self" "code_base ?self' = code_base self" "code ?self' = ?code" "source ?self' = source self"
    using e3 e2 e1 e0 by (simp_all add: put_symbol_def)
  have set: "window (code ?self') p 4 = le_bytes 4 (of_nat (pos self) - of_nat (p + 4) :: u64)" if "p \<in> set ps" for p
    using filled_hole[OF w(5) that, of "code_base self" "dst self"] f'(3) dst_pos[of self] by (simp add: algebra_simps)
  have cells: "cells ?self' q = Some (Sym ?s')" "cells ?self' x = cells self2 x" if "x \<noteq> q" for x
    using that o3(2) by (simp_all add: put_symbol_def)
  have hq: "heap self \<noteq> q" using q(2) by (auto simp: below_def SYMBOL_SIZE_def)
  have "syms_at ?self' (symbols self) (map (\<lambda>(x, a, t). (x, a, if a = q then ?s' else t)) es)"
  proof (rule syms_at_replaced[OF q(1) _ _ _ _ _ f'(4) _ w(1)])
    show "cells ?self' q = Some (Sym ?s')" by (simp add: put_symbol_def)
    show "cells ?self' x = Some d" if "x \<noteq> q" "cells self x = Some d" "below (heap self) x d" for x d
      using cells(2)[OF that(1)] k2(1) that c1(3) old[OF that(1)] by (simp add: keeps_def)
  qed (use k2(3) in \<open>simp_all add: le_u64\<close>)
  moreover have "map_of (map (\<lambda>(x, a, t). (x, a, if a = q then ?s' else t)) es) w = Some (q, ?s')"
    using w(2) map_of_map[of "\<lambda>(a, t). (a, if a = q then ?s' else t)" es] by (simp add: case_prod_unfold)
  moreover have "cells ?self' (sym_type ?s') = Some (Sym n)" "below (heap ?self') (sym_type ?s') (Sym n)"
    using cells(2)[OF hq] s2(4) c1(3) k2(3) by (simp_all add: below_def SYMBOL_SIZE_def)
  ultimately have "declared ?self' w q []"
    using s2(5-8) by (auto simp: declared_def chain_def)
  moreover have "tc_parse_program fuel self = Ret ?self'" if "token_of u = 0"
  proof -
    have "next_token ?self' = 0" using sees_token[OF see'] that by simp
    moreover have "next_token self = TC_FN" using sees_token[OF assms(4)] assms(1) by simp
    moreover obtain f where "fuel = Suc f" using assms(8) by (cases fuel) simp_all
    moreover have "while_do f c b ?self' = Ret ?self'" if "\<not> c ?self'" for b c using that by (cases f) simp_all
    ultimately show ?thesis using fn by (simp add: tc_parse_program_def tokens)
  qed
  moreover have "pos ?self' = pos self" using f' by (simp add: pos_def)
  ultimately show ?thesis using fn see' set by (intro exI[of _ ?self']) (simp only: list_all_iff, blast)
qed


text \<open>A compiler that has declared \<open>g\<close> and called it from byte 0, and has compiled 10 bytes, in front of
  another declaration of \<open>g\<close>.\<close>

definition in_front_of_declaration :: compiler where
  "in_front_of_declaration = (with_variable ''fn g();'')\<lparr>
     cells := [65536 \<mapsto> Sym (x_symbol\<lparr>sym_name := 4, sym_kind := SYM_FORWARD_FN, sym_value := 4097, sym_type := 65600\<rparr>),
       65600 \<mapsto> Sym \<lparr>sym_name = 0, sym_length = 0, sym_kind = SYM_VOID, sym_value = 0, sym_type = 0, sym_dim = 0, sym_next = 0\<rparr>],
     heap := 65664, code := 0xe8 # replicate 39 0, dst := 4106\<rparr>"

text \<open>The program is compiled, and the call goes to byte 10, where there is no code.\<close>

theorem undefined_function_compiles_witness:
  "\<exists>self self'. tc_parse_program 1 self = Ret self' \<and> declared self' (chars ''g'') 65536 [] \<and> pos self' = 10 \<and>
    window (code self') 1 4 = [5, 0, 0, 0]"
proof -
  let ?ts = "Word (chars ''g'') # Other 40 # Other 41 # Other 59 # Other 0 # []"
  let ?g = "x_symbol\<lparr>sym_name := 4, sym_kind := SYM_FORWARD_FN, sym_value := 4097, sym_type := 65600\<rparr>"
  let ?r = "\<lparr>sym_name = 0, sym_length = 0, sym_kind = SYM_VOID, sym_value = 0, sym_type = 0, sym_dim = 0, sym_next = 0\<rparr>"
  note start = in_front_of_declaration_def with_variable_def goto_def
  have l: "lexes (chars ''fn g();'') (Word (chars ''fn'') # ?ts)" by code_simp
  have "scan_ok in_front_of_declaration \<and> remaining in_front_of_declaration = chars ''fn g();''"
    by (auto simp: scan_ok_iff start remaining_def sample_length window_def chars_def)
  then obtain self where s: "sees self (Word (chars ''fn'') # ?ts)" and off: "off_scanner self = off_scanner in_front_of_declaration"
    using start_sees[of in_front_of_declaration "Word (chars ''fn'')" ?ts] l by auto
  note o = off_scanner_core[OF off] and c = core_eqD[OF off_scanner_core(1)[OF off]]
  have sy: "syms_at self (symbols self) [(chars ''g'', 65536, ?g)]"
    using o c by (simp add: name_at_def x_symbol_def below_def SYMBOL_SIZE_def start window_def chars_def)
  have ch: "chain self [1] = 4097" "holes (code self) [1]"
    using c by (simp_all add: chain_def start window_def le_bytes_def numeral_eq_Suc)
  have d: "declared self (chars ''g'') 65536 [1]"
    unfolding declared_def
    by (rule exI[of _ "[(chars ''g'', 65536, ?g)]"], rule exI[of _ ?g], rule exI[of _ ?r])
      (use sy ch o in \<open>simp add: start below_def SYMBOL_SIZE_def x_symbol_def\<close>)
  have k: "token_of (Word (chars ''fn'')) = TC_FN" "keyword_token (chars ''g'') = TC_IDENTIFIER" "token_of (Other 0) = 0"
    by code_simp+
  have h: "code_ok self" "heap self \<noteq> 0" "unat (heap self) + 64 \<le> unat (heap_limit self)" "(0 :: nat) < 1" "pos self = 10"
    using o c by (simp_all add: code_ok_def start pos_def)
  obtain self' where p: "pos self' = pos self" "declared self' (chars ''g'') 65536 []"
    "list_all (\<lambda>p. window (code self') p 4 = le_bytes 4 (of_nat (pos self) - of_nat (p + 4) :: u64)) [1]"
    "tc_parse_program 1 self = Ret self'"
    using undefined_function_compiles[OF k(1,2) d s h(1-4)] k(3) by blast
  moreover have "le_bytes 4 (of_nat 10 - of_nat (1 + 4) :: u64) = [5, 0, 0, 0]" by code_simp
  ultimately show ?thesis using h(5) by (intro exI[of _ self] exI[of _ self']) simp
qed

end
