(* ===== verification/Make_Fatfs.thy ===== *)
theory Make_Fatfs
  imports Dump_Toysfs
begin

text \<open>
  \<open>tools/makefatfs.c\<close>: the image of a FAT12 partition that holds the boot loader and, in contiguous
  clusters, the Toys file system. A struct is a record of byte arrays with its layout as a
  function; \<open>main\<close> is a function of the contents of the two inputs. A store outside the file
  allocation table is \<open>Out_Of_Bounds\<close>. Opening the files and writing the image are assumed to
  succeed.
\<close>

section \<open>Structs\<close>

definition SECTOR_SIZE :: nat where "SECTOR_SIZE = 512"
definition CLUSTER_SIZE :: nat where "CLUSTER_SIZE = 2048"
definition NUM_BOOT_LOADER_CLUSTERS :: nat where "NUM_BOOT_LOADER_CLUSTERS = 1"
definition FAT_SIZE :: nat where "FAT_SIZE = 1024"
definition ENTRY_SIZE :: nat where "ENTRY_SIZE = 32"

record boot_sector =
  bootjmp :: "u8 list"
  oem_name :: "u8 list"
  bytes_per_sector :: "u8 list"
  sectors_per_cluster :: u8
  reserved_sector_count :: "u8 list"
  table_count :: u8
  root_entry_count :: "u8 list"
  total_sectors_16 :: "u8 list"
  media_type :: u8
  table_size_16 :: "u8 list"
  sectors_per_track :: "u8 list"
  head_side_count :: "u8 list"
  hidden_sector_count :: "u8 list"
  total_sectors_32 :: "u8 list"
  bios_drive_num :: u8
  reserved1 :: u8
  boot_signature :: u8
  volume_id :: "u8 list"
  volume_label :: "u8 list"
  fat_type_label :: "u8 list"
  boot_code :: "u8 list"
  boot_magic :: "u8 list"

definition boot_sector_bytes :: "boot_sector \<Rightarrow> u8 list" where
  "boot_sector_bytes b =
     bootjmp b @ oem_name b @ bytes_per_sector b @ [sectors_per_cluster b] @ reserved_sector_count b @
     [table_count b] @ root_entry_count b @ total_sectors_16 b @ [media_type b] @ table_size_16 b @
     sectors_per_track b @ head_side_count b @ hidden_sector_count b @ total_sectors_32 b @
     [bios_drive_num b, reserved1 b, boot_signature b] @ volume_id b @ volume_label b @
     fat_type_label b @ boot_code b @ boot_magic b"

record directory_entry =
  entry_name :: "u8 list"
  entry_attributes :: u8
  entry_first_cluster :: "u8 list"
  entry_file_size :: "u8 list"

definition directory_entry_bytes :: "directory_entry \<Rightarrow> u8 list" where
  "directory_entry_bytes e =
     entry_name e @ [entry_attributes e] @ replicate 14 0 @ entry_first_cluster e @ entry_file_size e"

text \<open>A directory: the given entries, and the others zero.\<close>

definition directory_bytes :: "nat \<Rightarrow> directory_entry list \<Rightarrow> u8 list" where
  "directory_bytes n es =
     (let bs = concat (map directory_entry_bytes es) in bs @ replicate (n - length bs) 0)"

record partition =
  boot_sector :: boot_sector
  fat :: "u8 list"
  root_directory :: "directory_entry list"
  efi_directory :: "directory_entry list"
  efi_boot_directory :: "directory_entry list"
  boot_loader_data :: "u8 list"

definition partition_bytes :: "partition \<Rightarrow> u8 list" where
  "partition_bytes p =
     boot_sector_bytes (boot_sector p) @ fat p @ directory_bytes SECTOR_SIZE (root_directory p) @
     directory_bytes CLUSTER_SIZE (efi_directory p) @ directory_bytes CLUSTER_SIZE (efi_boot_directory p) @
     boot_loader_data p"

section \<open>The file allocation table\<close>

datatype fat_error = Boot_Too_Large | Invalid_Size | File_System_Too_Large | Cant_Read | Out_Of_Bounds

definition set_nibble :: "u8 list \<Rightarrow> nat \<Rightarrow> int \<Rightarrow> fat_error + u8 list" where
  "set_nibble bytes nibble_index v =
     (let i = nibble_index div 2 in
      if i < length bytes
      then Inr (bytes[i := bytes ! i OR word_of_int (if nibble_index mod 2 = 0 then v else push_bit 4 v)])
      else Inl Out_Of_Bounds)"

fun and_then :: "'e + 'a \<Rightarrow> ('a \<Rightarrow> 'e + 'b) \<Rightarrow> 'e + 'b" where
  "and_then (Inl e) f = Inl e"
| "and_then (Inr x) f = f x"

definition set_fat_entry :: "u8 list \<Rightarrow> nat \<Rightarrow> int \<Rightarrow> fat_error + u8 list" where
  "set_fat_entry bytes entry_index v =
     and_then (set_nibble bytes (3 * entry_index) (v AND 0xF)) (\<lambda>bytes.
     and_then (set_nibble bytes (3 * entry_index + 1) (drop_bit 4 v AND 0xF)) (\<lambda>bytes.
     set_nibble bytes (3 * entry_index + 2) (drop_bit 8 v AND 0xF)))"

text \<open>The entries of the clusters of one file of the given size.\<close>

function set_fat_chain :: "u8 list \<Rightarrow> nat \<Rightarrow> nat \<Rightarrow> fat_error + u8 list" where
  "set_fat_chain bytes fat_entry sz =
     (if sz > CLUSTER_SIZE
      then and_then (set_fat_entry bytes fat_entry (int fat_entry + 1)) (\<lambda>bytes.
        set_fat_chain bytes (fat_entry + 1) (sz - CLUSTER_SIZE))
      else if sz > 0 then set_fat_entry bytes fat_entry (- 1)
      else Inr bytes)"
  by pat_completeness auto
termination
  by (relation "measure (\<lambda>(_, _, sz). sz)") (auto simp: CLUSTER_SIZE_def)

declare set_fat_chain.simps [simp del]

section \<open>The image\<close>

definition FIXED_DISK_MEDIA_TYPE :: u8 where "FIXED_DISK_MEDIA_TYPE = 0xF8"
definition DIRECTORY_ENTRY :: u8 where "DIRECTORY_ENTRY = 0x10"
definition FILE_ENTRY :: u8 where "FILE_ENTRY = 0x20"

definition entry :: "string \<Rightarrow> u8 \<Rightarrow> nat \<Rightarrow> nat \<Rightarrow> directory_entry" where
  "entry name attributes first_cluster sz =
     \<lparr>entry_name = chars name, entry_attributes = attributes,
      entry_first_cluster = packed_u16 (of_nat first_cluster), entry_file_size = packed_u32 (of_nat sz)\<rparr>"

definition initial_partition :: "nat \<Rightarrow> nat \<Rightarrow> partition" where
  "initial_partition boot_size toys_size =
     \<lparr>boot_sector =
        \<lparr>bootjmp = [0xEB, 0x3C, 0x90], oem_name = chars ''MSWIN4.1'',
         bytes_per_sector = packed_u16 (of_nat SECTOR_SIZE),
         sectors_per_cluster = of_nat (CLUSTER_SIZE div SECTOR_SIZE),
         reserved_sector_count = packed_u16 1, table_count = 1,
         root_entry_count = packed_u16 (of_nat (SECTOR_SIZE div ENTRY_SIZE)),
         total_sectors_16 = packed_u16 (of_nat ((16 * SECTOR_SIZE + toys_size) div SECTOR_SIZE)),
         media_type = FIXED_DISK_MEDIA_TYPE, table_size_16 = packed_u16 (of_nat (FAT_SIZE div SECTOR_SIZE)),
         sectors_per_track = packed_u16 63, head_side_count = packed_u16 16,
         hidden_sector_count = packed_u32 0, total_sectors_32 = packed_u32 0, bios_drive_num = 128,
         reserved1 = 0, boot_signature = 0x29, volume_id = packed_u32 0,
         volume_label = chars ''EFI SYSTEM '', fat_type_label = chars ''FAT12   '',
         boot_code = replicate 448 0, boot_magic = packed_u16 0xAA55\<rparr>,
      fat = [FIXED_DISK_MEDIA_TYPE, 0xFF, 0xFF, 0xFF, 0xFF, 0xFF] @ replicate (FAT_SIZE - 6) 0,
      root_directory =
        [entry ''EFI        '' DIRECTORY_ENTRY 2 0,
         entry ''TOYSFS     '' FILE_ENTRY (4 + NUM_BOOT_LOADER_CLUSTERS) toys_size],
      efi_directory =
        [entry ''.          '' DIRECTORY_ENTRY 2 0, entry ''..         '' DIRECTORY_ENTRY 0 0,
         entry ''BOOT       '' DIRECTORY_ENTRY 3 0],
      efi_boot_directory =
        [entry ''.          '' DIRECTORY_ENTRY 3 0, entry ''..         '' DIRECTORY_ENTRY 2 0,
         entry ''BOOTX64 EFI'' FILE_ENTRY 4 boot_size],
      boot_loader_data = replicate (NUM_BOOT_LOADER_CLUSTERS * CLUSTER_SIZE) 0\<rparr>"

text \<open>Reading an input of size 0 with one \<open>fread\<close> counts as a failure. The image is the partition
  and the sectors of the Toys file system.\<close>

definition makefatfs :: "u8 list \<Rightarrow> u8 list \<Rightarrow> fat_error + u8 list" where
  "makefatfs boot toysfs =
     (if length boot > NUM_BOOT_LOADER_CLUSTERS * CLUSTER_SIZE then Inl Boot_Too_Large
      else if length toysfs mod SECTOR_SIZE \<noteq> 0 then Inl Invalid_Size
      else let num_input_clusters = (length toysfs + CLUSTER_SIZE - 1) div CLUSTER_SIZE;
               max_clusters = FAT_SIZE * 3 div 2 in
        if 4 + NUM_BOOT_LOADER_CLUSTERS + num_input_clusters > max_clusters then Inl File_System_Too_Large
        else let p = initial_partition (length boot) (length toysfs) in
          and_then (set_fat_chain (fat p) 4 (length boot)) (\<lambda>bytes.
          and_then (set_fat_chain bytes (4 + NUM_BOOT_LOADER_CLUSTERS) (length toysfs)) (\<lambda>bytes.
          if boot = [] then Inl Cant_Read
          else Inr (partition_bytes (p\<lparr>fat := bytes, boot_loader_data := blit (boot_loader_data p) 0 boot\<rparr>) @ toysfs))))"

end
