(* ===== verification/Fat12.thy ===== *)
theory Fat12
  imports Make_Fatfs
begin

text \<open>
  The FAT12 file allocation table as its specification reads it, and what \<open>set_fat_chain\<close> makes of it:
  the clusters of a file are linked in order, the last one is marked as the end, and the entries of
  other clusters stay as they were.
\<close>

section \<open>Entries of 12 bits\<close>

text \<open>Entry \<open>i\<close> is in the 16-bit word at byte \<open>i + i div 2\<close>, in its low or high 12 bits.\<close>

definition fat12_entry :: "u8 list \<Rightarrow> nat \<Rightarrow> nat" where
  "fat12_entry bs i =
     (let o1 = i + i div 2; w = unat (bs ! o1) + 256 * unat (bs ! (o1 + 1)) in
      if i mod 2 = 0 then w mod 4096 else w div 16)"

definition nibble :: "u8 list \<Rightarrow> nat \<Rightarrow> nat" where
  "nibble bs k = (if k mod 2 = 0 then unat (bs ! (k div 2)) mod 16 else unat (bs ! (k div 2)) div 16)"

lemma low_entry: "(a :: nat) < 256 \<Longrightarrow> (a + 256 * b) mod 4096 = a mod 16 + 16 * (a div 16) + 256 * (b mod 16)"
proof -
  assume a: "a < 256"
  have "a + 256 * b = (a + 256 * (b mod 16)) + 4096 * (b div 16)"
    using div_mult_mod_eq[of b 16] by linarith
  then have "(a + 256 * b) mod 4096 = (a + 256 * (b mod 16)) mod 4096" by (metis mod_mult_self2)
  moreover have "b mod 16 \<le> 15" using mod_less_divisor[of 16 b] by linarith
  then have "a + 256 * (b mod 16) < 4096" using a by linarith
  moreover have "a mod 16 + 16 * (a div 16) = a" by simp
  ultimately show ?thesis by simp
qed

lemma high_entry: "((a :: nat) + 256 * b) div 16 = a div 16 + 16 * (b mod 16) + 256 * (b div 16)"
proof -
  have "(a + 256 * b) div 16 = (a + 16 * (16 * b)) div 16" by simp
  also have "\<dots> = a div 16 + 16 * b" by (subst div_mult_self2) simp_all
  finally show ?thesis using div_mult_mod_eq[of b 16] by linarith
qed

lemma fat12_nibbles: "fat12_entry bs i = nibble bs (3 * i) + 16 * nibble bs (3 * i + 1) + 256 * nibble bs (3 * i + 2)"
proof (cases "i mod 2 = 0")
  case True
  then obtain j where j: "i = 2 * j" by (metis mod_eq_0_iff_dvd dvdE)
  have "fat12_entry bs i = (unat (bs ! (3 * j)) + 256 * unat (bs ! (3 * j + 1))) mod 4096"
    by (simp add: fat12_entry_def j Let_def)
  moreover have "nibble bs (3 * i) = unat (bs ! (3 * j)) mod 16"
    "nibble bs (3 * i + 1) = unat (bs ! (3 * j)) div 16"
    "nibble bs (3 * i + 2) = unat (bs ! (3 * j + 1)) mod 16"
  proof -
    have m: "3 * i mod 2 = 0" "(3 * i + 1) mod 2 = 1" "(3 * i + 2) mod 2 = 0"
      "3 * i div 2 = 3 * j" "(3 * i + 1) div 2 = 3 * j" "(3 * i + 2) div 2 = 3 * j + 1"
      unfolding j by presburger+
    show "nibble bs (3 * i) = unat (bs ! (3 * j)) mod 16"
      "nibble bs (3 * i + 1) = unat (bs ! (3 * j)) div 16"
      "nibble bs (3 * i + 2) = unat (bs ! (3 * j + 1)) mod 16"
      unfolding nibble_def m by simp_all
  qed
  ultimately show ?thesis
    using low_entry[of "unat (bs ! (3 * j))" "unat (bs ! (3 * j + 1))"] unsigned_less[of "bs ! (3 * j)", where ?'a = nat]
    by simp
next
  case False
  then obtain j where j: "i = 2 * j + 1" by (metis not_mod_2_eq_0_eq_1 odd_two_times_div_two_succ odd_iff_mod_2_eq_one)
  have o1: "(2 * j + 1) + (2 * j + 1) div 2 = 3 * j + 1" by presburger
  have "fat12_entry bs i = (unat (bs ! (3 * j + 1)) + 256 * unat (bs ! (3 * j + 2))) div 16"
    unfolding fat12_entry_def j Let_def o1 by simp
  moreover have "nibble bs (3 * i) = unat (bs ! (3 * j + 1)) div 16"
    "nibble bs (3 * i + 1) = unat (bs ! (3 * j + 2)) mod 16"
    "nibble bs (3 * i + 2) = unat (bs ! (3 * j + 2)) div 16"
  proof -
    have m: "3 * i mod 2 = 1" "(3 * i + 1) mod 2 = 0" "(3 * i + 2) mod 2 = 1"
      "3 * i div 2 = 3 * j + 1" "(3 * i + 1) div 2 = 3 * j + 2" "(3 * i + 2) div 2 = 3 * j + 2"
      unfolding j by presburger+
    show "nibble bs (3 * i) = unat (bs ! (3 * j + 1)) div 16"
      "nibble bs (3 * i + 1) = unat (bs ! (3 * j + 2)) mod 16"
      "nibble bs (3 * i + 2) = unat (bs ! (3 * j + 2)) div 16"
      unfolding nibble_def m by simp_all
  qed
  ultimately show ?thesis
    using high_entry[of "unat (bs ! (3 * j + 1))" "unat (bs ! (3 * j + 2))"] by simp
qed

section \<open>Setting entries\<close>

lemma or_halves: "list_all (\<lambda>h. list_all (\<lambda>l. unat (of_nat (16 * h) OR of_nat l :: u8) = 16 * h + l) [0..<16]) [0..<16]"
  by code_simp

lemma or_nibbles:
  assumes "h < 16" and "l < 16"
  shows "unat (of_nat (16 * h) OR of_nat l :: u8) = 16 * h + l"
  using or_halves assms unfolding list_all_iff by auto

lemma byte_low_zero: "unat (x :: u8) mod 16 = 0 \<Longrightarrow> \<exists>h<16. x = of_nat (16 * h)"
proof -
  assume a: "unat x mod 16 = 0"
  have x: "unat x < 256" using unsigned_less[of x, where ?'a = nat] by simp
  have "unat x = 16 * (unat x div 16)" using a by presburger
  from arg_cong[OF this, of "\<lambda>n. of_nat n :: u8"] have "x = of_nat (16 * (unat x div 16))" by simp
  then show ?thesis using x by (intro exI[of _ "unat x div 16"]) auto
qed

lemma byte_high_zero: "unat (x :: u8) div 16 = 0 \<Longrightarrow> \<exists>l<16. x = of_nat l"
  by (intro exI[of _ "unat x"]) auto

text \<open>A nibble that is zero takes the value, and all others stay.\<close>

lemma set_nibble:
  assumes "k div 2 < length bs" and "nibble bs k = 0" and "v < 16"
  shows "\<exists>cs. set_nibble bs k (int v) = Inr cs \<and> length cs = length bs \<and>
    (\<forall>m. nibble cs m = (if m = k then v else nibble bs m))"
proof -
  let ?i = "k div 2"
  let ?x = "bs ! ?i OR word_of_int (if k mod 2 = 0 then int v else push_bit 4 (int v))"
  have "unat ?x = (if k mod 2 = 0 then 16 * (unat (bs ! ?i) div 16) + v else 16 * v + unat (bs ! ?i) mod 16)"
  proof (cases "k mod 2 = 0")
    case True
    then have "unat (bs ! ?i) mod 16 = 0" using assms(2) by (simp add: nibble_def)
    from byte_low_zero[OF this] obtain h where "h < 16" "bs ! ?i = of_nat (16 * h)" by auto
    then show ?thesis using True or_nibbles[of h v] or_nibbles[of h 0] assms(3) by simp
  next
    case False
    then have "unat (bs ! ?i) div 16 = 0" using assms(2) by (simp add: nibble_def)
    from byte_high_zero[OF this] obtain l where l: "l < 16" "bs ! ?i = of_nat l" by auto
    have "word_of_int (push_bit 4 (int v)) = (of_nat (16 * v) :: u8)"
      by (simp add: push_bit_eq_mult mult.commute)
    then show ?thesis using False l or_nibbles[of v l] or_nibbles[of 0 l] assms(3)
      by (simp add: or.commute)
  qed
  then have x: "nibble (bs[?i := ?x]) m = (if m = k then v else nibble bs m)" for m
  proof (cases "m div 2 = ?i")
    case True
    then have "m = k \<or> m mod 2 \<noteq> k mod 2" by presburger
    then show ?thesis using True assms \<open>unat ?x = _\<close> by (auto simp: nibble_def)
  next
    case False
    then show ?thesis using assms(1) by (auto simp: nibble_def)
  qed
  show ?thesis using assms(1) x by (auto simp: set_nibble_def Let_def)
qed


lemma int_and_15: "(v :: int) AND 15 = int (nat (v mod 16))"
proof -
  have "v AND 15 = take_bit 4 v" by (simp add: take_bit_eq_mask mask_eq_exp_minus_1)
  then show ?thesis by (simp add: take_bit_eq_mod)
qed

definition clear_from :: "u8 list \<Rightarrow> nat \<Rightarrow> bool" where
  "clear_from bs k \<longleftrightarrow> (\<forall>m. k \<le> m \<and> m < 2 * length bs \<longrightarrow> nibble bs m = 0)"

text \<open>The value of an entry for the number that is stored in it.\<close>

definition entry_value :: "int \<Rightarrow> nat" where
  "entry_value v = nat (v mod 4096)"

lemma nat_sum3: "0 \<le> a \<Longrightarrow> 0 \<le> b \<Longrightarrow> 0 \<le> c \<Longrightarrow> nat (a + 16 * b + 256 * c) = nat a + 16 * nat b + 256 * nat c"
  by linarith

lemma mod_4096: "(v :: int) mod 4096 = v mod 16 + 16 * (v div 16 mod 16) + 256 * (v div 256 mod 16)"
proof -
  have 1: "v mod 4096 = 16 * (v div 16 mod 256) + v mod 16"
    using zmod_zmult2_eq[of 256 v 16] by simp
  have 2: "v div 16 mod 256 = 16 * (v div 256 mod 16) + v div 16 mod 16"
    using zmod_zmult2_eq[of 16 "v div 16" 16] zdiv_zmult2_eq[of 16 v 16] by simp
  show ?thesis unfolding 1 2 by simp
qed

lemma entry_value_nibbles: "entry_value v =
    nat (v mod 16) + 16 * nat (drop_bit 4 v mod 16) + 256 * nat (drop_bit 8 v mod 16)"
proof -
  have d: "drop_bit 4 v = v div 16" "drop_bit 8 v = v div 256" by (simp_all add: drop_bit_eq_div)
  show ?thesis unfolding entry_value_def mod_4096 d by (rule nat_sum3) simp_all
qed

lemma set_fat_entry:
  assumes "clear_from bs (3 * i)" and "3 * i + 2 < 2 * length bs"
  shows "\<exists>cs. set_fat_entry bs i v = Inr cs \<and> length cs = length bs \<and> fat12_entry cs i = entry_value v \<and>
    (\<forall>m. m < 3 * i \<or> 3 * i + 3 \<le> m \<longrightarrow> nibble cs m = nibble bs m)"
proof -
  let ?n = "\<lambda>k. nat (drop_bit k v mod 16)"
  have z: "nibble bs (3 * i) = 0" "nibble bs (3 * i + 1) = 0" "nibble bs (3 * i + 2) = 0"
    using assms by (simp_all add: clear_from_def)
  have n16: "?n k < 16" for k by simp
  have half: "k div 2 < length bs" if "k < 2 * length bs" for k using that by auto
  obtain b1 where b1: "set_nibble bs (3 * i) (int (?n 0)) = Inr b1" "length b1 = length bs"
    "\<forall>m. nibble b1 m = (if m = 3 * i then ?n 0 else nibble bs m)"
    using set_nibble[OF half z(1) n16] assms(2) by force
  have "(3 * i + 1) div 2 < length b1" "nibble b1 (3 * i + 1) = 0" using half[of "3 * i + 1"] assms(2) b1 z by simp_all
  from set_nibble[OF this n16] obtain b2 where b2: "set_nibble b1 (3 * i + 1) (int (?n 4)) = Inr b2" "length b2 = length bs"
    "\<forall>m. nibble b2 m = (if m = 3 * i + 1 then ?n 4 else nibble b1 m)"
    using b1(2) by metis
  have "(3 * i + 2) div 2 < length b2" "nibble b2 (3 * i + 2) = 0"
    using half[of "3 * i + 2"] assms(2) b1 b2 z by simp_all
  from set_nibble[OF this n16] obtain b3 where b3: "set_nibble b2 (3 * i + 2) (int (?n 8)) = Inr b3" "length b3 = length bs"
    "\<forall>m. nibble b3 m = (if m = 3 * i + 2 then ?n 8 else nibble b2 m)"
    using b2(2) by metis
  have "v AND 15 = int (?n 0)" using int_and_15[of v] by simp
  then have "set_fat_entry bs i v = Inr b3"
    using b1(1) b2(1) b3(1) unfolding set_fat_entry_def by (simp only: int_and_15 and_then.simps drop_bit_0)
  moreover have "fat12_entry b3 i = entry_value v"
    unfolding fat12_nibbles entry_value_nibbles using b1(3) b2(3) b3(3) by simp
  ultimately show ?thesis using b1(3) b2(3) b3(2,3) by auto
qed

lemma fat12_cong:
  "\<forall>m. m < 3 * k \<longrightarrow> nibble cs m = nibble bs m \<Longrightarrow> j < k \<Longrightarrow> fat12_entry cs j = fat12_entry bs j"
  by (simp add: fat12_nibbles)

text \<open>The number of clusters of a file.\<close>

definition clusters :: "nat \<Rightarrow> nat" where
  "clusters sz = (sz + CLUSTER_SIZE - 1) div CLUSTER_SIZE"

lemma clusters_step: "CLUSTER_SIZE < sz \<Longrightarrow> clusters sz = Suc (clusters (sz - CLUSTER_SIZE))"
proof -
  assume "CLUSTER_SIZE < sz"
  then have "sz + CLUSTER_SIZE - 1 = (sz - CLUSTER_SIZE + CLUSTER_SIZE - 1) + CLUSTER_SIZE" by simp
  then show ?thesis unfolding clusters_def by (simp add: CLUSTER_SIZE_def)
qed

lemma clusters_one: "0 < sz \<Longrightarrow> sz \<le> CLUSTER_SIZE \<Longrightarrow> clusters sz = 1"
proof -
  assume "0 < sz" "sz \<le> CLUSTER_SIZE"
  then have "sz + CLUSTER_SIZE - 1 = CLUSTER_SIZE + (sz - 1)" "sz - 1 < CLUSTER_SIZE" by simp_all
  then show ?thesis by (simp add: clusters_def CLUSTER_SIZE_def)
qed

text \<open>The chain of a file: each cluster links to the next, the last one is the end.\<close>

lemma set_fat_chain:
  "clear_from bs (3 * e) \<Longrightarrow> 3 * (e + clusters sz) \<le> 2 * length bs \<Longrightarrow> e + clusters sz < 4096 \<Longrightarrow>
   \<exists>cs. set_fat_chain bs e sz = Inr cs \<and> length cs = length bs \<and>
     (\<forall>j. j < clusters sz \<longrightarrow> fat12_entry cs (e + j) = (if j + 1 < clusters sz then e + j + 1 else 4095)) \<and>
     (\<forall>m. m < 3 * e \<longrightarrow> nibble cs m = nibble bs m) \<and> clear_from cs (3 * (e + clusters sz))"
proof (induction bs e sz rule: set_fat_chain.induct)
  case (1 bs e sz)
  consider (more) "CLUSTER_SIZE < sz" | (last) "0 < sz" "sz \<le> CLUSTER_SIZE" | (none) "sz = 0" by linarith
  then show ?case
  proof cases
    case more
    note cl = clusters_step[OF more]
    obtain b1 where b1: "set_fat_entry bs e (int e + 1) = Inr b1" "length b1 = length bs"
      "fat12_entry b1 e = entry_value (int e + 1)" "\<forall>m. m < 3 * e \<or> 3 * e + 3 \<le> m \<longrightarrow> nibble b1 m = nibble bs m"
      using set_fat_entry[OF "1.prems"(1), of "int e + 1"] "1.prems"(2) cl by auto
    have v: "entry_value (int e + 1) = e + 1" using "1.prems"(3) cl by (simp add: entry_value_def)
    have c1: "clear_from b1 (3 * (e + 1))" using "1.prems"(1) b1(2,4) by (simp add: clear_from_def)
    obtain cs where cs: "set_fat_chain b1 (e + 1) (sz - CLUSTER_SIZE) = Inr cs" "length cs = length b1"
      "\<forall>j. j < clusters (sz - CLUSTER_SIZE) \<longrightarrow>
        fat12_entry cs (e + 1 + j) = (if j + 1 < clusters (sz - CLUSTER_SIZE) then e + 1 + j + 1 else 4095)"
      "\<forall>m. m < 3 * (e + 1) \<longrightarrow> nibble cs m = nibble b1 m"
      "clear_from cs (3 * (e + 1 + clusters (sz - CLUSTER_SIZE)))"
      using "1.IH"[OF more c1] "1.prems"(2,3) b1(2) cl by auto
    have pos: "0 < clusters (sz - CLUSTER_SIZE)"
      using more by (simp add: clusters_def CLUSTER_SIZE_def div_greater_zero_iff)
    have "fat12_entry cs (e + j) = (if j + 1 < clusters sz then e + j + 1 else 4095)" if "j < clusters sz" for j
    proof (cases j)
      case 0
      have "fat12_entry cs e = fat12_entry b1 e" by (rule fat12_cong[of "e + 1"]) (use cs(4) in auto)
      then show ?thesis using 0 b1(3) v cl pos by simp
    next
      case (Suc i)
      then show ?thesis using cs(3)[rule_format, of i] that cl by simp
    qed
    then show ?thesis
      using more b1 cs cl by (subst set_fat_chain.simps) (auto simp: add.assoc)
  next
    case last
    note cl = clusters_one[OF last]
    obtain b1 where b1: "set_fat_entry bs e (- 1) = Inr b1" "length b1 = length bs"
      "fat12_entry b1 e = entry_value (- 1)" "\<forall>m. m < 3 * e \<or> 3 * e + 3 \<le> m \<longrightarrow> nibble b1 m = nibble bs m"
      using set_fat_entry[OF "1.prems"(1), of "- 1"] "1.prems"(2) cl by auto
    have "clear_from b1 (3 * (e + 1))" using "1.prems"(1) b1(2,4) by (simp add: clear_from_def)
    then show ?thesis
      using last b1 cl by (subst set_fat_chain.simps) (simp add: entry_value_def)
  next
    case none
    then have "clusters sz = 0" by (simp add: clusters_def CLUSTER_SIZE_def)
    then show ?thesis using none "1.prems" by (subst set_fat_chain.simps) simp
  qed
qed

end
