(* ===== verification/Fatfs_Properties.thy ===== *)
theory Fatfs_Properties
  imports Fat12
begin

text \<open>
  A reader of FAT12 partitions that takes every offset from the boot sector, and the proof that it
  finds the two files in the image that \<open>makefatfs\<close> makes; and the sizes for which the size check of
  the program is too weak.
\<close>

section \<open>A FAT12 reader\<close>

definition word16_at :: "u8 list \<Rightarrow> nat \<Rightarrow> nat" where
  "word16_at bs i = unat (le_word (window bs i 2) :: 16 word)"

definition word32_at :: "u8 list \<Rightarrow> nat \<Rightarrow> nat" where
  "word32_at bs i = unat (le_word (window bs i 4) :: u32)"

definition fat_table :: "u8 list \<Rightarrow> u8 list" where
  "fat_table img = window img (word16_at img 14 * word16_at img 11) (word16_at img 22 * word16_at img 11)"

definition fat_root_offset :: "u8 list \<Rightarrow> nat" where
  "fat_root_offset img = (word16_at img 14 + unat (img ! 16) * word16_at img 22) * word16_at img 11"

definition fat_root :: "u8 list \<Rightarrow> u8 list" where
  "fat_root img = window img (fat_root_offset img) (word16_at img 17 * 32)"

definition fat_cluster :: "u8 list \<Rightarrow> nat \<Rightarrow> u8 list" where
  "fat_cluster img c =
     (let n = unat (img ! 13) * word16_at img 11 in
      window img (fat_root_offset img + word16_at img 17 * 32 + (c - 2) * n) n)"

fun fat_links :: "nat \<Rightarrow> u8 list \<Rightarrow> nat \<Rightarrow> nat list" where
  "fat_links 0 bs c = []"
| "fat_links (Suc n) bs c = c # (if fat12_entry bs c \<ge> 4088 then [] else fat_links n bs (fat12_entry bs c))"

definition fat_data :: "u8 list \<Rightarrow> nat \<Rightarrow> u8 list" where
  "fat_data img c = concat (map (fat_cluster img) (fat_links 4096 (fat_table img) c))"

text \<open>The attributes, first cluster and size of a directory entry, by its name of 11 characters.\<close>

fun find_entry :: "nat \<Rightarrow> u8 list \<Rightarrow> u8 list \<Rightarrow> (u8 \<times> nat \<times> nat) option" where
  "find_entry 0 dir name = None"
| "find_entry (Suc n) dir name =
     (if take 11 dir = name then Some (dir ! 11, word16_at dir 26, word32_at dir 28)
      else find_entry n (drop 32 dir) name)"

fun fat_read :: "u8 list \<Rightarrow> u8 list \<Rightarrow> u8 list list \<Rightarrow> u8 list option" where
  "fat_read img dir [] = None"
| "fat_read img dir (name # names) =
     (case find_entry (length dir div 32) dir name of None \<Rightarrow> None
      | Some (attributes, c, sz) \<Rightarrow>
          if names = [] then
            (if attributes AND 0x10 = 0 then Some (if sz = 0 then [] else take sz (fat_data img c)) else None)
          else if attributes AND 0x10 \<noteq> 0 then fat_read img (fat_data img c) names else None)"

section \<open>Windows into concatenations\<close>

lemma window_left: "i + n \<le> length xs \<Longrightarrow> window (xs @ ys) i n = window xs i n"
  by (simp add: window_def)

lemma window_right: "length xs \<le> i \<Longrightarrow> window (xs @ ys) i n = window ys (i - length xs) n"
  by (simp add: window_def)

lemma window_mid: "length xs = n \<Longrightarrow> length ys = i \<Longrightarrow> window (ys @ xs @ zs) i n = xs"
  by (simp add: window_def)

lemma concat_windows:
  "length xs \<le> k * n \<Longrightarrow> 0 < n \<Longrightarrow> concat (map (\<lambda>j. window xs (j * n) n) [0..<k]) = xs"
proof (induction k arbitrary: xs)
  case (Suc k)
  have "concat (map (\<lambda>j. window (drop n xs) (j * n) n) [0..<k]) = drop n xs"
    by (rule Suc.IH) (use Suc.prems in auto)
  moreover have "[0..<Suc k] = 0 # map Suc [0..<k]" by (simp add: upt_conv_Cons map_Suc_upt del: upt_Suc)
  moreover have "window xs (Suc j * n) n = window (drop n xs) (j * n) n" for j by (simp add: window_def add.commute)
  ultimately show ?case by (simp add: comp_def window_def del: upt_Suc)
qed simp

section \<open>The layout of the image\<close>

lemma length_chars: "length (chars s) = length s"
  by (simp add: chars_def)

lemma length_packed: "length (packed_u16 w) = 2" "length (packed_u32 v) = 4"
  by (simp_all add: packed_u16_def packed_u32_def)

lemma length_entry: "length name = 11 \<Longrightarrow> length (directory_entry_bytes (entry name a c sz)) = 32"
  by (simp add: directory_entry_bytes_def entry_def length_chars length_packed)

definition boot_bytes :: "nat \<Rightarrow> u8 list" where
  "boot_bytes toys_size = boot_sector_bytes (boot_sector (initial_partition 0 toys_size))"

lemma boot_bytes: "boot_sector_bytes (boot_sector (initial_partition b t)) = boot_bytes t"
  by (simp add: boot_bytes_def initial_partition_def)

lemma boot_fields: "length (boot_bytes t) = 512" "word16_at (boot_bytes t) 11 = 512" "boot_bytes t ! 13 = 4"
  "word16_at (boot_bytes t) 14 = 1" "boot_bytes t ! 16 = 1" "word16_at (boot_bytes t) 17 = 16"
  "word16_at (boot_bytes t) 22 = 2"
  by (simp_all add: boot_bytes_def boot_sector_bytes_def initial_partition_def chars_def packed_u16_def
      packed_u32_def word16_at_def window_def CLUSTER_SIZE_def SECTOR_SIZE_def ENTRY_SIZE_def FAT_SIZE_def)


lemma header_fields:
  "word16_at (boot_bytes t @ xs) 11 = 512" "(boot_bytes t @ xs) ! 13 = 4"
  "word16_at (boot_bytes t @ xs) 14 = 1" "(boot_bytes t @ xs) ! 16 = 1" "word16_at (boot_bytes t @ xs) 17 = 16"
  "word16_at (boot_bytes t @ xs) 22 = 2"
  using boot_fields[of t] by (simp_all add: word16_at_def window_left nth_append)

lemma image_layout:
  assumes "length F = 1024" "length R = 512" "length E = 2048" "length D = 2048" "length L = 2048"
    and img: "img = boot_bytes t @ F @ R @ E @ D @ L @ T"
  shows "fat_table img = F" "fat_root img = R" "fat_cluster img 2 = E" "fat_cluster img 3 = D"
    "fat_cluster img 4 = L" "fat_cluster img (5 + j) = window T (j * 2048) 2048"
proof -
  note f = header_fields[of t "F @ R @ E @ D @ L @ T", folded img]
  note w = window_right window_left boot_fields(1) assms(1-5) window_def
  show "fat_table img = F" unfolding fat_table_def f by (simp add: img w)
  have o1: "fat_root_offset img = 1536" by (simp add: fat_root_offset_def f)
  show "fat_root img = R" unfolding fat_root_def f o1 by (simp add: img w)
  have c: "fat_cluster img k = window img (2048 + (k - 2) * 2048) 2048" for k
    by (simp add: fat_cluster_def f o1 Let_def)
  show "fat_cluster img 2 = E" "fat_cluster img 3 = D" "fat_cluster img 4 = L"
    unfolding c by (simp_all add: img w)
  show "fat_cluster img (5 + j) = window T (j * 2048) 2048"
    unfolding c by (simp add: img w)
qed

lemma find_entry_step:
  assumes "length name = 11" and "c < 65536" and "sz < 4294967296"
  shows "find_entry (Suc n) (directory_entry_bytes (entry name a c sz) @ xs) (chars nm) =
    (if chars name = chars nm then Some (a, c, sz) else find_entry n xs (chars nm))"
proof -
  let ?e = "directory_entry_bytes (entry name a c sz)"
  have e: "?e = chars name @ [a] @ replicate 14 0 @ packed_u16 (of_nat c) @ packed_u32 (of_nat sz)"
    by (simp add: directory_entry_bytes_def entry_def)
  have l: "length ?e = 32" by (rule length_entry[OF assms(1)])
  have "window (?e @ xs) 26 2 = packed_u16 (of_nat c)"
    using window_mid[of "packed_u16 (of_nat c)" 2 "chars name @ [a] @ replicate 14 0" 26 "packed_u32 (of_nat sz) @ xs"] assms(1)
    by (simp add: e length_chars length_packed)
  then have "word16_at (?e @ xs) 26 = c"
    using assms(2) by (simp add: word16_at_def packed_u16_le le_word_le_bytes unat_of_nat take_bit_nat_eq_self)
  moreover have "window (?e @ xs) 28 4 = packed_u32 (of_nat sz)"
    using window_mid[of "packed_u32 (of_nat sz)" 4 "chars name @ [a] @ replicate 14 0 @ packed_u16 (of_nat c)" 28 xs] assms(1)
    by (simp add: e length_chars length_packed)
  then have "word32_at (?e @ xs) 28 = sz"
    using assms(3) by (simp add: word32_at_def packed_u32_le le_word_le_bytes unat_of_nat take_bit_nat_eq_self)
  moreover have "take 11 (?e @ xs) = chars name" "(?e @ xs) ! 11 = a"
    using assms(1) by (simp_all add: e length_chars nth_append)
  ultimately show ?thesis using l by simp
qed

lemma fat_links_chain:
  "\<forall>j<k. fat12_entry bs (e + j) = (if j + 1 < k then e + j + 1 else 4095) \<Longrightarrow> 0 < k \<Longrightarrow> k \<le> n \<Longrightarrow> e + k < 4088 \<Longrightarrow>
   fat_links n bs e = [e..<e + k]"
proof (induction k arbitrary: e n)
  case (Suc k)
  obtain m where n: "n = Suc m" using Suc.prems(3) by (cases n) auto
  show ?case
  proof (cases "k = 0")
    case True
    then have "fat12_entry bs e = 4095" using Suc.prems(1) by auto
    then show ?thesis using True n by simp
  next
    case False
    have "fat12_entry bs e = e + 1" using Suc.prems(1)[rule_format, of 0] False by simp
    moreover have "fat_links m bs (e + 1) = [e + 1..<e + 1 + k]"
    proof (rule Suc.IH)
      show "\<forall>j<k. fat12_entry bs (e + 1 + j) = (if j + 1 < k then e + 1 + j + 1 else 4095)"
      proof (intro allI impI)
        fix j assume "j < k"
        then show "fat12_entry bs (e + 1 + j) = (if j + 1 < k then e + 1 + j + 1 else 4095)"
          using Suc.prems(1)[rule_format, of "Suc j"] by simp
      qed
    qed (use Suc.prems False n in auto)
    ultimately show ?thesis using n Suc.prems(4) by (simp add: upt_conv_Cons)
  qed
qed simp

section \<open>The table and the image of the program\<close>

definition initial_fat :: "u8 list" where
  "initial_fat = [FIXED_DISK_MEDIA_TYPE, 0xFF, 0xFF, 0xFF, 0xFF, 0xFF] @ replicate (FAT_SIZE - 6) 0"

lemma initial_fat: "length initial_fat = 1024" "clear_from initial_fat 12"
  "fat12_entry initial_fat 2 = 4095" "fat12_entry initial_fat 3 = 4095"
proof -
  show "length initial_fat = 1024" by (simp add: initial_fat_def FAT_SIZE_def)
  have "initial_fat ! i = 0" if "6 \<le> i" "i < 1024" for i
    using that by (simp add: initial_fat_def nth_append FAT_SIZE_def nth_Cons' del: append_Cons append_Nil)
  then show "clear_from initial_fat 12"
    by (auto simp: clear_from_def nibble_def initial_fat_def FAT_SIZE_def)
  show "fat12_entry initial_fat 2 = 4095" "fat12_entry initial_fat 3 = 4095"
    by (simp_all add: fat12_entry_def initial_fat_def)
qed

lemma clear_from_mono: "clear_from bs i \<Longrightarrow> i \<le> j \<Longrightarrow> clear_from bs j"
  by (simp add: clear_from_def)

lemma fat_tables:
  assumes "0 < b" and "b \<le> 2048" and "clusters t \<le> 677"
  shows "\<exists>B F. set_fat_chain initial_fat 4 b = Inr B \<and> set_fat_chain B 5 t = Inr F \<and> length F = 1024 \<and>
    fat12_entry F 2 = 4095 \<and> fat12_entry F 3 = 4095 \<and> fat12_entry F 4 = 4095 \<and>
    (\<forall>j<clusters t. fat12_entry F (5 + j) = (if j + 1 < clusters t then 5 + j + 1 else 4095))"
proof -
  have b1: "clusters b = 1" using clusters_one[OF assms(1)] assms(2) by (simp add: CLUSTER_SIZE_def)
  have p: "clear_from initial_fat (3 * 4)" "3 * (4 + clusters b) \<le> 2 * length initial_fat" "4 + clusters b < 4096"
    using initial_fat(1,2) b1 by simp_all
  obtain B where B: "set_fat_chain initial_fat 4 b = Inr B" "length B = length initial_fat"
    "\<forall>j. j < clusters b \<longrightarrow> fat12_entry B (4 + j) = (if j + 1 < clusters b then 4 + j + 1 else 4095)"
    "\<forall>m. m < 3 * 4 \<longrightarrow> nibble B m = nibble initial_fat m" "clear_from B (3 * (4 + clusters b))"
    using set_fat_chain[OF p] by blast
  have q: "clear_from B (3 * 5)" "3 * (5 + clusters t) \<le> 2 * length B" "5 + clusters t < 4096"
    using B(2,5) b1 initial_fat(1) assms(3) by simp_all
  obtain F where F: "set_fat_chain B 5 t = Inr F" "length F = length B"
    "\<forall>j. j < clusters t \<longrightarrow> fat12_entry F (5 + j) = (if j + 1 < clusters t then 5 + j + 1 else 4095)"
    "\<forall>m. m < 3 * 5 \<longrightarrow> nibble F m = nibble B m"
    using set_fat_chain[OF q] by blast
  have "fat12_entry F k = fat12_entry B k" if "k < 5" for k by (rule fat12_cong[OF F(4) that])
  moreover have "fat12_entry B k = fat12_entry initial_fat k" if "k < 4" for k by (rule fat12_cong[OF B(4) that])
  moreover have "fat12_entry B 4 = 4095" using B(3)[rule_format, of 0] b1 by simp
  ultimately show ?thesis using B(1) F(1,2,3) B(2) initial_fat by auto
qed


text \<open>The end of the table: entry 682 needs a nibble behind its last byte.\<close>

lemma set_fat_entry_out: "length bs = 1024 \<Longrightarrow> set_fat_entry bs 682 v = Inl Out_Of_Bounds"
  by (simp add: set_fat_entry_def set_nibble_def Let_def)

lemma set_fat_chain_out:
  "length bs = 1024 \<Longrightarrow> clear_from bs (3 * e) \<Longrightarrow> e \<le> 682 \<Longrightarrow> 682 < e + clusters sz \<Longrightarrow>
   set_fat_chain bs e sz = Inl Out_Of_Bounds"
proof (induction bs e sz rule: set_fat_chain.induct)
  case (1 bs e sz)
  show ?case
  proof (cases "CLUSTER_SIZE < sz")
    case True
    show ?thesis
    proof (cases "e = 682")
      case out: True
      then show ?thesis using True set_fat_entry_out[OF "1.prems"(1)] by (subst set_fat_chain.simps) simp
    next
      case False
      have r: "3 * e + 2 < 2 * length bs" using False "1.prems"(1,3) by simp
      obtain b1 where b1: "set_fat_entry bs e (int e + 1) = Inr b1" "length b1 = length bs"
        "\<forall>m. m < 3 * e \<or> 3 * e + 3 \<le> m \<longrightarrow> nibble b1 m = nibble bs m"
        using set_fat_entry[OF "1.prems"(2) r, of "int e + 1"] by blast
      have "clear_from b1 (3 * (e + 1))" using "1.prems"(2) b1(2,3) by (simp add: clear_from_def)
      then have "set_fat_chain b1 (e + 1) (sz - CLUSTER_SIZE) = Inl Out_Of_Bounds"
        using "1.IH"[OF True, of b1] b1(2) "1.prems"(1,3,4) False clusters_step[OF True] by simp
      then show ?thesis using True b1(1) by (subst set_fat_chain.simps) simp
    qed
  next
    case False
    then have "clusters sz \<le> 1" using clusters_one[of sz]
      by (cases "sz = 0") (auto simp: clusters_def CLUSTER_SIZE_def)
    then have "clusters sz = 1" "e = 682" using "1.prems"(3,4) by simp_all
    moreover from this(1) have "0 < sz" by (cases "sz = 0") (auto simp: clusters_def CLUSTER_SIZE_def)
    ultimately show ?thesis using False set_fat_entry_out[OF "1.prems"(1)] by (subst set_fat_chain.simps) simp
  qed
qed

section \<open>Properties\<close>

lemma total_sectors: "t \<le> 677 * 2048 \<Longrightarrow> t mod 512 = 0 \<Longrightarrow> word16_at (boot_bytes t) 19 * 512 = 8192 + t"
proof -
  assume t: "t \<le> 677 * 2048" "t mod 512 = 0"
  have "window (boot_bytes t) 19 2 = packed_u16 (of_nat ((8192 + t) div 512))"
    by (simp add: boot_bytes_def boot_sector_bytes_def initial_partition_def chars_def packed_u16_def
      packed_u32_def window_def CLUSTER_SIZE_def SECTOR_SIZE_def ENTRY_SIZE_def FAT_SIZE_def)
  moreover have "(8192 + t) div 512 < 65536" using t(1) by auto
  ultimately have "word16_at (boot_bytes t) 19 = (8192 + t) div 512"
    by (simp add: word16_at_def packed_u16_le le_word_le_bytes unat_of_nat take_bit_nat_eq_self)
  moreover have "(8192 + t) mod 512 = 0" using t(2) by (simp add: mod_add_eq[symmetric])
  ultimately show ?thesis by (metis add.right_neutral div_mult_mod_eq)
qed

text \<open>C14. The FAT12 image is readable: for a boot loader of 1 to 2048 bytes and a Toys file system of
  whole sectors in at most 677 clusters, \<open>makefatfs\<close> makes an image in which a FAT12 reader finds the
  boot loader as \<open>EFI/BOOT/BOOTX64.EFI\<close> and the file system as \<open>TOYSFS\<close>, byte for byte; the file
  system is contiguous from sector 16, and the total number of sectors is right.\<close>

theorem fat_image_readable:
  assumes "boot \<noteq> []" and "length boot \<le> 2048" and "length toysfs mod 512 = 0"
    and "clusters (length toysfs) \<le> 677"
  shows "\<exists>img. makefatfs boot toysfs = Inr img \<and>
    fat_read img (fat_root img) [chars ''EFI        '', chars ''BOOT       '', chars ''BOOTX64 EFI''] = Some boot \<and>
    fat_read img (fat_root img) [chars ''TOYSFS     ''] = Some toysfs \<and>
    drop (16 * 512) img = toysfs \<and> word16_at img 19 * 512 = length img"
proof -
  let ?b = "length boot" and ?t = "length toysfs"
  obtain B F where F: "set_fat_chain initial_fat 4 ?b = Inr B" "set_fat_chain B 5 ?t = Inr F" "length F = 1024"
    "fat12_entry F 2 = 4095" "fat12_entry F 3 = 4095" "fat12_entry F 4 = 4095"
    "\<forall>j<clusters ?t. fat12_entry F (5 + j) = (if j + 1 < clusters ?t then 5 + j + 1 else 4095)"
    using fat_tables[of ?b ?t] assms by auto
  define R where "R = directory_bytes SECTOR_SIZE (root_directory (initial_partition ?b ?t))"
  define E where "E = directory_bytes CLUSTER_SIZE (efi_directory (initial_partition ?b ?t))"
  define D where "D = directory_bytes CLUSTER_SIZE (efi_boot_directory (initial_partition ?b ?t))"
  define L where "L = blit (replicate 2048 0) 0 boot"
  define img where "img = boot_bytes ?t @ F @ R @ E @ D @ L @ toysfs"
  have max: "?t \<le> 677 * 2048"
  proof -
    have "?t \<le> clusters ?t * 2048" unfolding clusters_def CLUSTER_SIZE_def
      using div_mult_mod_eq[of "?t + 2048 - 1" 2048] mod_less_divisor[of 2048 "?t + 2048 - 1"] by linarith
    then show ?thesis using assms(4) by linarith
  qed
  have ent: "length (directory_entry_bytes (entry n a c z)) = 32" if "length n = 11" for n a c z
    by (rule length_entry[OF that])
  have len: "length R = 512" "length E = 2048" "length D = 2048" "length L = 2048"
    using assms(2) by (simp_all add: R_def E_def D_def L_def initial_partition_def directory_bytes_def Let_def ent
        SECTOR_SIZE_def CLUSTER_SIZE_def length_blit)
  have mk: "makefatfs boot toysfs = Inr img"
  proof -
    have cl: "(?t + CLUSTER_SIZE - 1) div CLUSTER_SIZE = clusters ?t" by (simp add: clusters_def)
    have "4 + NUM_BOOT_LOADER_CLUSTERS + clusters ?t \<le> FAT_SIZE * 3 div 2"
      using assms(4) by (simp add: FAT_SIZE_def NUM_BOOT_LOADER_CLUSTERS_def)
    moreover have "fat (initial_partition ?b ?t) = initial_fat"
      by (simp add: initial_partition_def initial_fat_def)
    moreover have "boot_loader_data (initial_partition ?b ?t) = replicate 2048 0"
      by (simp add: initial_partition_def NUM_BOOT_LOADER_CLUSTERS_def CLUSTER_SIZE_def)
    ultimately show ?thesis using assms(1-3) F(1,2) unfolding makefatfs_def Let_def cl
      by (simp add: NUM_BOOT_LOADER_CLUSTERS_def CLUSTER_SIZE_def
          SECTOR_SIZE_def partition_bytes_def boot_bytes img_def R_def E_def D_def L_def)
  qed
  note lay = image_layout[OF F(3) len img_def]
  have one: "fat_links 4096 F c = [c]" if "fat12_entry F c = 4095" for c
    using that by (simp add: numeral_eq_Suc[of "num.Bit0 _"] flip: Suc_numeral)
  have names: "chars ''EFI        '' \<noteq> chars ''TOYSFS     ''" "chars ''.          '' \<noteq> chars ''BOOT       ''"
    "chars ''..         '' \<noteq> chars ''BOOT       ''" "chars ''.          '' \<noteq> chars ''BOOTX64 EFI''"
    "chars ''..         '' \<noteq> chars ''BOOTX64 EFI''"
    by (simp_all add: chars_def)
  have fR: "find_entry 16 R (chars ''TOYSFS     '') = Some (FILE_ENTRY, 5, ?t)"
    "find_entry 16 R (chars ''EFI        '') = Some (DIRECTORY_ENTRY, 2, 0)"
    using names max find_entry_step[of _ _ _ 15] find_entry_step[of _ _ _ 14]
    by (simp_all add: R_def initial_partition_def directory_bytes_def Let_def NUM_BOOT_LOADER_CLUSTERS_def)
  have fE: "find_entry 64 E (chars ''BOOT       '') = Some (DIRECTORY_ENTRY, 3, 0)"
    using names find_entry_step[of _ _ _ 63] find_entry_step[of _ _ _ 62] find_entry_step[of _ _ _ 61]
    by (simp add: E_def initial_partition_def directory_bytes_def Let_def)
  have fD: "find_entry 64 D (chars ''BOOTX64 EFI'') = Some (FILE_ENTRY, 4, ?b)"
    using names assms(2) find_entry_step[of _ _ _ 63] find_entry_step[of _ _ _ 62] find_entry_step[of _ _ _ 61]
    by (simp add: D_def initial_partition_def directory_bytes_def Let_def)
  have data: "fat_data img 2 = E" "fat_data img 3 = D" "fat_data img 4 = L"
    using F(4-6) by (simp_all add: fat_data_def lay one)
  have toys: "(if ?t = 0 then [] else take ?t (fat_data img 5)) = toysfs"
  proof (cases "?t = 0")
    case False
    then have "1 \<le> ?t" by (cases toysfs) auto
    then have k: "0 < clusters ?t" by (simp add: clusters_def CLUSTER_SIZE_def div_greater_zero_iff)
    have "fat_links 4096 F 5 = [5..<5 + clusters ?t]"
      by (rule fat_links_chain[OF F(7) k]) (use assms(4) in auto)
    also have "\<dots> = map (\<lambda>j. 5 + j) [0..<clusters ?t]" by (simp add: map_add_upt add.commute)
    finally have "fat_data img 5 = concat (map (\<lambda>j. window toysfs (j * 2048) 2048) [0..<clusters ?t])"
      by (simp add: fat_data_def lay comp_def)
    also have "\<dots> = toysfs"
    proof (rule concat_windows)
      show "?t \<le> clusters ?t * 2048" unfolding clusters_def CLUSTER_SIZE_def
        using div_mult_mod_eq[of "?t + 2048 - 1" 2048] mod_less_divisor[of 2048 "?t + 2048 - 1"] by linarith
    qed simp
    finally show ?thesis by simp
  qed simp
  have boot: "take ?b L = boot" by (simp add: L_def blit_def)
  have r1: "fat_read img (fat_root img) [chars ''TOYSFS     ''] = Some toysfs"
    using fR(1) toys by (simp add: lay len FILE_ENTRY_def)
  have r2: "fat_read img (fat_root img) [chars ''EFI        '', chars ''BOOT       '', chars ''BOOTX64 EFI''] = Some boot"
    using fR(2) fE fD data boot assms(1) by (simp add: lay len FILE_ENTRY_def DIRECTORY_ENTRY_def)
  have "drop (16 * 512) img = toysfs" using len F(3) by (simp add: img_def boot_fields(1))
  moreover have "word16_at img 19 * 512 = length img"
    using total_sectors[OF max assms(3)] len F(3)
    by (simp add: img_def word16_at_def window_left boot_fields(1))
  ultimately show ?thesis using mk r1 r2 by blast
qed


theorem fat_image_readable_witness:
  "\<exists>img. makefatfs [0x90, 0xc3] (replicate 512 7) = Inr img \<and>
    fat_read img (fat_root img) [chars ''EFI        '', chars ''BOOT       '', chars ''BOOTX64 EFI''] = Some [0x90, 0xc3]"
  using fat_image_readable[of "[0x90, 0xc3]" "replicate 512 7"]
  by (auto simp: clusters_def CLUSTER_SIZE_def)

text \<open>C34. The size check of \<open>makefatfs\<close> is too weak: it allows 1536 clusters where the table has 682
  entries, so for every file system of 678 to 1531 clusters that it accepts, the program stores
  outside the table.\<close>

theorem fat_table_overflow:
  assumes "boot \<noteq> []" and "length boot \<le> 2048" and "length toysfs mod 512 = 0"
    and "677 < clusters (length toysfs)" and "clusters (length toysfs) \<le> 1531"
  shows "makefatfs boot toysfs = Inl Out_Of_Bounds"
proof -
  let ?b = "length boot" and ?t = "length toysfs"
  have b1: "clusters ?b = 1"
    by (rule clusters_one) (use assms(1,2) in \<open>auto simp: CLUSTER_SIZE_def\<close>)
  have p: "clear_from initial_fat (3 * 4)" "3 * (4 + clusters ?b) \<le> 2 * length initial_fat" "4 + clusters ?b < 4096"
    using initial_fat(1,2) b1 by simp_all
  obtain B where B: "set_fat_chain initial_fat 4 ?b = Inr B" "length B = length initial_fat"
    "clear_from B (3 * (4 + clusters ?b))"
    using set_fat_chain[OF p] by blast
  have "set_fat_chain B 5 ?t = Inl Out_Of_Bounds"
    by (rule set_fat_chain_out) (use B b1 initial_fat(1) assms(4) in simp_all)
  moreover have "fat (initial_partition ?b ?t) = initial_fat"
    by (simp add: initial_partition_def initial_fat_def)
  moreover have "(?t + CLUSTER_SIZE - 1) div CLUSTER_SIZE = clusters ?t" by (simp add: clusters_def)
  moreover have "\<not> 4 + NUM_BOOT_LOADER_CLUSTERS + clusters ?t > FAT_SIZE * 3 div 2"
    using assms(5) by (simp add: FAT_SIZE_def NUM_BOOT_LOADER_CLUSTERS_def)
  moreover have "\<not> ?b > NUM_BOOT_LOADER_CLUSTERS * CLUSTER_SIZE" "?t mod SECTOR_SIZE = 0"
    "4 + NUM_BOOT_LOADER_CLUSTERS = 5"
    using assms(2,3) by (simp_all add: NUM_BOOT_LOADER_CLUSTERS_def CLUSTER_SIZE_def SECTOR_SIZE_def)
  ultimately show ?thesis using B(1) unfolding makefatfs_def Let_def by (simp add: NUM_BOOT_LOADER_CLUSTERS_def)
qed

theorem fat_table_overflow_witness: "makefatfs [0xc3] (replicate (678 * 2048) 0) = Inl Out_Of_Bounds"
  using fat_table_overflow[of "[0xc3]" "replicate (678 * 2048) 0"]
  by (simp add: clusters_def CLUSTER_SIZE_def)

end
