(* ===== verification/Byte_Fields.thy ===== *)
theory Byte_Fields
  imports Dump_Toysfs
begin

text \<open>
  Reading little-endian fields of packed structs, for the readers of the images: 16-, 32- and 64-bit
  fields at a byte offset.
\<close>

definition field16 :: "u8 list \<Rightarrow> nat \<Rightarrow> nat" where
  "field16 bs i = unat (le_word (window bs i 2) :: 16 word)"

definition field32 :: "u8 list \<Rightarrow> nat \<Rightarrow> nat" where
  "field32 bs i = unat (le_word (window bs i 4) :: u32)"

definition field64 :: "u8 list \<Rightarrow> nat \<Rightarrow> nat" where
  "field64 bs i = unat (le_word (window bs i 8) :: u64)"

lemma unat_u32_small: "n < 4294967296 \<Longrightarrow> unat (of_nat n :: u32) = n"
  by (simp add: unat_of_nat take_bit_nat_eq_self)

lemma length_fields: "length (packed_u16 w) = 2" "length (packed_u32 v) = 4" "length (packed_u64 d) = 8"
    "length (char_field n s) = n"
  by (simp_all add: packed_u16_def packed_u32_def packed_u64_def char_field_def)

lemma field_of_window:
  "window bs i 2 = packed_u16 w \<Longrightarrow> field16 bs i = unat w"
  "window bs i 4 = packed_u32 v \<Longrightarrow> field32 bs i = unat v"
  "window bs i 8 = packed_u64 d \<Longrightarrow> field64 bs i = unat d"
  by (simp_all add: field16_def field32_def field64_def packed16.dec_enc packed32.dec_enc packed64.dec_enc)

lemma field_left:
  "i + 4 \<le> length xs \<Longrightarrow> field32 (xs @ ys) i = field32 xs i"
  "i + 2 \<le> length xs \<Longrightarrow> field16 (xs @ ys) i = field16 xs i"
  by (simp_all add: field32_def field16_def window_def)

lemma window_middle: "length pre = i \<Longrightarrow> length mid = n \<Longrightarrow> window (pre @ mid @ post) i n = mid"
  by (simp add: window_def)

end
