(* ===== verification/Make_Bootefi.thy ===== *)
theory Make_Bootefi
  imports Byte_Fields
begin

text \<open>
  \<open>tools/makebootefi.c\<close>: raw machine code in a PE32+ executable with one section. The structs are
  records of byte arrays with their layouts as functions; \<open>main\<close> is a function of the contents of the
  input. Opening the files, reading and writing are assumed to succeed.
\<close>

section \<open>Structs\<close>

record ms_dos_stub =
  stub_magic :: "u8 list"
  lfanew :: "u8 list"

definition ms_dos_stub_bytes :: "ms_dos_stub \<Rightarrow> u8 list" where
  "ms_dos_stub_bytes s = stub_magic s @ replicate 58 0 @ lfanew s @ replicate 128 0"

record coff_file_header =
  machine :: "u8 list"
  number_of_sections :: "u8 list"
  size_of_optional_header :: "u8 list"
  coff_characteristics :: "u8 list"

definition coff_file_header_bytes :: "coff_file_header \<Rightarrow> u8 list" where
  "coff_file_header_bytes h =
     machine h @ number_of_sections h @ replicate 12 0 @ size_of_optional_header h @ coff_characteristics h"

text \<open>The fields that \<open>main\<close> leaves zero are in the layout only.\<close>

record optional_header =
  optional_magic :: "u8 list"
  size_of_code :: "u8 list"
  address_of_entry_point :: "u8 list"
  base_of_code :: "u8 list"
  section_alignment :: "u8 list"
  file_alignment :: "u8 list"
  size_of_image :: "u8 list"
  size_of_headers :: "u8 list"
  subsystem :: "u8 list"
  number_of_rva_and_sizes :: "u8 list"

definition optional_header_bytes :: "optional_header \<Rightarrow> u8 list" where
  "optional_header_bytes h =
     optional_magic h @ replicate 2 0 @ size_of_code h @ replicate 4 0 @ replicate 4 0 @
     address_of_entry_point h @ base_of_code h @ replicate 8 0 @ section_alignment h @ file_alignment h @
     replicate 16 0 @ size_of_image h @ size_of_headers h @ replicate 4 0 @ subsystem h @ replicate 38 0 @
     number_of_rva_and_sizes h @ replicate 128 0"

record pe_file_header =
  dos_stub :: ms_dos_stub
  pe_signature :: "u8 list"
  coff_file_header :: coff_file_header
  optional_header :: optional_header

definition pe_file_header_bytes :: "pe_file_header \<Rightarrow> u8 list" where
  "pe_file_header_bytes h =
     ms_dos_stub_bytes (dos_stub h) @ pe_signature h @ coff_file_header_bytes (coff_file_header h) @
     optional_header_bytes (optional_header h)"

record image_section_header =
  section_name :: "u8 list"
  virtual_size :: "u8 list"
  virtual_address :: "u8 list"
  size_of_raw_data :: "u8 list"
  pointer_to_raw_data :: "u8 list"
  section_characteristics :: "u8 list"

definition image_section_header_bytes :: "image_section_header \<Rightarrow> u8 list" where
  "image_section_header_bytes h =
     section_name h @ virtual_size h @ virtual_address h @ size_of_raw_data h @ pointer_to_raw_data h @
     replicate 12 0 @ section_characteristics h"

definition HEADER_SIZE :: nat where "HEADER_SIZE = 512"
definition TOTAL_SIZE :: nat where "TOTAL_SIZE = 2048"

section \<open>The program\<close>

definition align :: "u32 \<Rightarrow> u32 \<Rightarrow> u32" where
  "align x base = (x + base - 1) AND NOT (base - 1)"

text \<open>\<open>offsetof(pe_file_header_t, signature)\<close> is the size of the stub, 192; \<open>sizeof(optional_header_t)\<close>
  is 240.\<close>

definition file_header :: "u32 \<Rightarrow> pe_file_header" where
  "file_header code_size =
     \<lparr>dos_stub = \<lparr>stub_magic = chars ''MZ'', lfanew = packed_u32 192\<rparr>,
      pe_signature = char_field 4 (chars ''PE''),
      coff_file_header =
        \<lparr>machine = packed_u16 0x8664, number_of_sections = packed_u16 1,
         size_of_optional_header = packed_u16 240, coff_characteristics = packed_u16 0x2002\<rparr>,
      optional_header =
        \<lparr>optional_magic = packed_u16 0x20b, size_of_code = packed_u32 code_size,
         address_of_entry_point = packed_u32 4096, base_of_code = packed_u32 4096,
         section_alignment = packed_u32 4096, file_alignment = packed_u32 32,
         size_of_image = packed_u32 (align (4096 + code_size) 4096),
         size_of_headers = packed_u32 (of_nat HEADER_SIZE), subsystem = packed_u16 10,
         number_of_rva_and_sizes = packed_u32 16\<rparr>\<rparr>"

definition text_section_header :: "u32 \<Rightarrow> image_section_header" where
  "text_section_header code_size =
     \<lparr>section_name = char_field 8 (chars ''.text''), virtual_size = packed_u32 code_size,
      virtual_address = packed_u32 4096, size_of_raw_data = packed_u32 (align code_size 32),
      pointer_to_raw_data = packed_u32 (of_nat HEADER_SIZE), section_characteristics = packed_u32 0xE8000020\<rparr>"

text \<open>\<open>fread\<close> asks for one byte more than fits; the end of the file is seen when it gets fewer bytes than
  it asks for. \<open>None\<close> is "File too large". \<open>fseek\<close> leaves zeros between the headers and the code.\<close>

definition makebootefi :: "u8 list \<Rightarrow> u8 list option" where
  "makebootefi contents =
     (let n = TOTAL_SIZE - HEADER_SIZE + 1;
          input_buffer = blit (replicate n 0) 0 (take n contents);
          code_size = min n (length contents);
          feof = length contents < n in
      if \<not> feof \<or> code_size > TOTAL_SIZE - HEADER_SIZE then None
      else let code_size = of_nat (TOTAL_SIZE - HEADER_SIZE);
               headers = pe_file_header_bytes (file_header code_size) @
                 image_section_header_bytes (text_section_header code_size) in
        Some (headers @ replicate (HEADER_SIZE - length headers) 0 @
          take (unat (align code_size 32)) input_buffer))"

section \<open>A loader\<close>

text \<open>What the firmware does with a PE32+ file: it checks the signatures and the machine, finds the
  section headers behind the optional header, and maps each section. The result is the address of
  the entry point, the size of the image in memory, and the sections with their addresses.\<close>

definition pe_section :: "u8 list \<Rightarrow> nat \<Rightarrow> nat \<times> u8 list" where
  "pe_section bs h =
     (field32 bs (h + 12),
      take (field32 bs (h + 8)) (window bs (field32 bs (h + 20)) (field32 bs (h + 16)) @
        replicate (field32 bs (h + 8) - field32 bs (h + 16)) 0))"

definition pe_load :: "u8 list \<Rightarrow> (nat \<times> nat \<times> (nat \<times> u8 list) list) option" where
  "pe_load bs =
     (let pe = field32 bs 60; opt = pe + 24; sections = opt + field16 bs (pe + 20) in
      if take 2 bs \<noteq> chars ''MZ'' \<or> window bs pe 4 \<noteq> chars ''PE'' @ [0, 0] \<or> field16 bs (pe + 4) \<noteq> 0x8664 \<or>
         field16 bs opt \<noteq> 0x20b \<or> field16 bs (opt + 68) \<noteq> 10 then None
      else Some (field32 bs (opt + 16), field32 bs (opt + 56),
        map (\<lambda>k. pe_section bs (sections + 40 * k)) [0..<field16 bs (pe + 6)]))"

section \<open>Properties\<close>

lemma align_unat:
  assumes "k < 32" and "unat x + 2 ^ k \<le> 4294967296"
  shows "unat (align x (2 ^ k)) = (unat x + 2 ^ k - 1) div 2 ^ k * 2 ^ k"
proof -
  let ?y = "x + 2 ^ k - 1"
  have pos: "(0 :: nat) < 2 ^ k" by simp
  have ge: "1 \<le> unat x + 2 ^ k" using pos by linarith
  have "(of_nat (unat x + 2 ^ k - 1) :: u32) = of_nat (unat x + 2 ^ k) - of_nat 1" by (rule of_nat_diff[OF ge])
  also have "\<dots> = ?y" by simp
  finally have "?y = of_nat (unat x + 2 ^ k - 1)" by (rule sym)
  then have y: "unat ?y = unat x + 2 ^ k - 1"
    using assms(2) pos by (simp only:) (rule unat_u32_small, linarith)
  have "align x (2 ^ k) = ?y AND NOT (mask k)"
    by (simp add: align_def mask_eq_exp_minus_1)
  also have "\<dots> = push_bit k (drop_bit k ?y)"
    by (rule bit_word_eqI) (auto simp: bit_simps)
  finally have a: "align x (2 ^ k) = push_bit k (drop_bit k ?y)" .
  have "unat (drop_bit k ?y) = drop_bit k (unat ?y)"
    using unsigned_less[of ?y, where ?'a = nat] by (simp add: unsigned_drop_bit_eq take_bit_nat_eq_self)
  then have d: "unat (drop_bit k ?y) = unat ?y div 2 ^ k" by (simp only: drop_bit_eq_div)
  have "push_bit k (drop_bit k ?y) = of_nat (unat ?y div 2 ^ k * 2 ^ k)"
    unfolding d[symmetric] by (simp add: push_bit_eq_mult)
  moreover have "unat ?y div 2 ^ k * 2 ^ k < 4294967296"
    by (rule le_less_trans[OF div_times_less_eq_dividend]) (use unsigned_less[of ?y, where ?'a = nat] in simp)
  ultimately show ?thesis unfolding a y[symmetric] by (simp only: unat_u32_small)
qed


text \<open>Alignment: for a power of two as the base and no overflow, \<open>align\<close> is the least multiple of
  the base that is not below its argument.\<close>

theorem align_correct:
  assumes "k < 32" and "unat x + 2 ^ k \<le> 4294967296"
  shows "unat x \<le> unat (align x (2 ^ k)) \<and> unat (align x (2 ^ k)) < unat x + 2 ^ k \<and>
    unat (align x (2 ^ k)) mod 2 ^ k = 0"
proof -
  let ?n = "unat x + 2 ^ k - 1"
  have pos: "(0 :: nat) < 2 ^ k" by simp
  have "?n div 2 ^ k * 2 ^ k + ?n mod 2 ^ k = ?n" by (rule div_mult_mod_eq)
  moreover have "?n mod 2 ^ k < 2 ^ k" using pos by (rule mod_less_divisor)
  ultimately have "unat x \<le> ?n div 2 ^ k * 2 ^ k \<and> ?n div 2 ^ k * 2 ^ k < unat x + 2 ^ k"
    using pos by linarith
  then show ?thesis using align_unat[OF assms] by simp
qed

theorem align_correct_witness: "unat (align 5632 (2 ^ 12)) mod 2 ^ 12 = 0 \<and> align 5632 4096 = 8192"
  using align_correct[of 12 5632] by (simp add: align_def)

lemma header_sizes: "length (pe_file_header_bytes (file_header n)) = 456"
    "length (image_section_header_bytes (text_section_header n)) = 40"
  by (simp_all add: pe_file_header_bytes_def file_header_def image_section_header_bytes_def text_section_header_def
      ms_dos_stub_bytes_def coff_file_header_bytes_def optional_header_bytes_def length_fields chars_def)

lemma aligned_sizes: "align 1536 32 = 1536" "align (4096 + 1536) 4096 = 8192" "align 5632 4096 = 8192"
  by (simp_all add: align_def)

definition efi_headers :: "u8 list" where
  "efi_headers = pe_file_header_bytes (file_header 1536) @ image_section_header_bytes (text_section_header 1536)"

lemma makebootefi_result:
  assumes "length contents \<le> 1536"
  shows "makebootefi contents =
    Some (efi_headers @ replicate 16 0 @ contents @ replicate (1536 - length contents) 0)"
proof -
  have "take 1536 (blit (replicate 1537 0) 0 contents) = contents @ replicate (1536 - length contents) 0"
    using assms by (simp add: blit_def)
  then show ?thesis using assms
    by (simp add: makebootefi_def TOTAL_SIZE_def HEADER_SIZE_def header_sizes aligned_sizes efi_headers_def Let_def)
qed

text \<open>The fields that the loader reads.\<close>

lemmas efi_layout = efi_headers_def pe_file_header_bytes_def file_header_def image_section_header_bytes_def
  text_section_header_def ms_dos_stub_bytes_def coff_file_header_bytes_def optional_header_bytes_def
  window_def aligned_sizes HEADER_SIZE_def length_fields

lemma efi_signatures: "take 2 efi_headers = chars ''MZ''" "window efi_headers 192 4 = chars ''PE'' @ [0, 0]"
  by (simp_all add: efi_layout chars_def char_field_def eval_nat_numeral)

lemma efi_windows32:
  "window efi_headers 60 4 = packed_u32 192"
  "window efi_headers 232 4 = packed_u32 4096"
  "window efi_headers 272 4 = packed_u32 8192"
  "window efi_headers 464 4 = packed_u32 1536"
  "window efi_headers 468 4 = packed_u32 4096"
  "window efi_headers 472 4 = packed_u32 1536"
  "window efi_headers 476 4 = packed_u32 512"
  by (simp_all add: efi_layout chars_def)

lemma efi_windows16:
  "window efi_headers 196 2 = packed_u16 0x8664"
  "window efi_headers 216 2 = packed_u16 0x20b"
  "window efi_headers 284 2 = packed_u16 10"
  "window efi_headers 198 2 = packed_u16 1"
  "window efi_headers 212 2 = packed_u16 240"
  by (simp_all add: efi_layout chars_def)

lemma efi_fields:
  "field32 efi_headers 60 = 192"
  "field32 efi_headers 232 = 4096"
  "field32 efi_headers 272 = 8192"
  "field32 efi_headers 464 = 1536"
  "field32 efi_headers 468 = 4096"
  "field32 efi_headers 472 = 1536"
  "field32 efi_headers 476 = 512"
  "field16 efi_headers 196 = 0x8664"
  "field16 efi_headers 216 = 0x20b"
  "field16 efi_headers 284 = 10"
  "field16 efi_headers 198 = 1"
  "field16 efi_headers 212 = 240"
  by (simp_all add: field_of_window efi_windows32 efi_windows16)

text \<open>C35. The executable loads: for machine code of at most 1536 bytes, \<open>makebootefi\<close> makes a file of
  2048 bytes that the loader accepts; its only section is the code, padded with zeros, at the
  address of the entry point and inside the size of the image. Longer code is refused.\<close>

theorem boot_efi_loads:
  "if length contents \<le> 1536
   then \<exists>bs. makebootefi contents = Some bs \<and> length bs = 2048 \<and>
     pe_load bs = Some (4096, 8192, [(4096, contents @ replicate (1536 - length contents) 0)])
   else makebootefi contents = None"
proof (cases "length contents \<le> 1536")
  case True
  let ?c = "contents @ replicate (1536 - length contents) 0"
  let ?bs = "efi_headers @ replicate 16 0 @ ?c"
  have len: "length efi_headers = 496" by (simp add: efi_headers_def header_sizes)
  have c: "length ?c = 1536" using True by simp
  note f = efi_fields field_left len
  have w: "window ?bs 192 4 = chars ''PE'' @ [0, 0]" using efi_signatures(2) len by (simp add: window_def)
  have code: "window ?bs 512 1536 = ?c" using len c by (simp add: window_def)
  have "pe_section ?bs 456 = (4096, ?c)" using c
    by (simp add: pe_section_def f code del: append_assoc)
  moreover have "take 2 ?bs = chars ''MZ''" using efi_signatures(1) len by simp
  ultimately have "pe_load ?bs = Some (4096, 8192, [(4096, ?c)])"
    using w by (simp add: pe_load_def f Let_def del: append_assoc)
  then show ?thesis using True makebootefi_result[OF True] len by simp
next
  case False
  then show ?thesis by (simp add: makebootefi_def Let_def TOTAL_SIZE_def HEADER_SIZE_def)
qed

theorem boot_efi_loads_witness:
  "\<exists>bs. makebootefi [0x90, 0xc3] = Some bs \<and> pe_load bs = Some (4096, 8192, [(4096, [0x90, 0xc3] @ replicate 1534 0)])"
  using boot_efi_loads[of "[0x90, 0xc3]"] by auto

end
