(* ===== verification/Crc32.thy ===== *)
theory Crc32
  imports Byte_Fields
begin

text \<open>
  \<open>crc32\<close> of \<open>tools/maketoysimg.c\<close>, and what the checksum detects: a step on one bit is a linear
  bijection of the 32-bit register, so a change within four consecutive bytes always changes the result.
\<close>

unbundle bit_operations_syntax

definition crc32_bit :: "u32 \<Rightarrow> u32" where
  "crc32_bit crc = (let mask = - (crc AND 1) in drop_bit 1 crc XOR (0xEDB88320 AND mask))"

definition crc32_byte :: "u32 \<Rightarrow> u8 \<Rightarrow> u32" where
  "crc32_byte crc byte = (crc32_bit ^^ 8) (crc XOR ucast byte)"

definition crc32 :: "u8 list \<Rightarrow> u32" where
  "crc32 data = NOT (foldl crc32_byte 0xFFFFFFFF data)"

section \<open>A step\<close>

lemma xor_zero_iff: "(x :: 'a::len word) XOR y = 0 \<longleftrightarrow> x = y"
  by (auto simp: bit_eq_iff bit_xor_iff)

lemma xor_cancel: "(x :: 'a::len word) XOR b = y XOR b \<longleftrightarrow> x = y" "b XOR x = b XOR y \<longleftrightarrow> x = y"
  by (auto simp: bit_eq_iff bit_xor_iff)

lemma crc32_bit_cases: "crc32_bit x = (if bit x 0 then drop_bit 1 x XOR 0xEDB88320 else drop_bit 1 x)"
proof (cases "bit x 0")
  case True
  then have "x AND 1 = 1" by (simp add: and_one_eq odd_iff_mod_2_eq_one bit_0)
  then show ?thesis using True by (simp add: crc32_bit_def)
next
  case False
  then have "x AND 1 = 0" by (simp add: and_one_eq even_iff_mod_2_eq_zero bit_0)
  then show ?thesis using False by (simp add: crc32_bit_def)
qed

lemma crc32_bit_xor: "crc32_bit (x XOR y) = crc32_bit x XOR crc32_bit y"
  by (cases "bit x 0"; cases "bit y 0") (simp_all add: crc32_bit_cases bit_xor_iff drop_bit_xor ac_simps)

lemma crc32_bit_zero: "crc32_bit x = 0 \<Longrightarrow> x = 0"
proof -
  assume z: "crc32_bit x = 0"
  show "x = 0"
  proof (cases "bit x 0")
    case True
    then have "drop_bit 1 x = 0xEDB88320" using z by (simp add: crc32_bit_cases xor_zero_iff)
    then have "bit (drop_bit 1 x) 31" by simp
    then show ?thesis by (auto simp: bit_drop_bit_eq dest: bit_imp_le_length)
  next
    case False
    then have d: "drop_bit 1 x = 0" using z by (simp add: crc32_bit_cases)
    show ?thesis
    proof (rule bit_word_eqI)
      fix n
      have "bit x (Suc m) = bit (drop_bit 1 x) m" for m by (simp add: bit_drop_bit_eq)
      then show "bit x n = bit 0 n" using False d by (cases n) simp_all
    qed
  qed
qed

lemma crc32_bits_xor: "(crc32_bit ^^ n) (x XOR y) = (crc32_bit ^^ n) x XOR (crc32_bit ^^ n) y"
  by (induction n) (simp_all add: crc32_bit_xor)

lemma crc32_bits_zero: "(crc32_bit ^^ n) x = 0 \<Longrightarrow> x = 0"
  by (induction n) (auto dest: crc32_bit_zero)

lemma crc32_bits_inject: "(crc32_bit ^^ n) x = (crc32_bit ^^ n) y \<longleftrightarrow> x = y"
proof
  assume "(crc32_bit ^^ n) x = (crc32_bit ^^ n) y"
  then have "(crc32_bit ^^ n) (x XOR y) = 0" by (simp add: crc32_bits_xor)
  then have "x XOR y = 0" by (rule crc32_bits_zero)
  then show "x = y" by (simp add: xor_zero_iff)
qed simp

text \<open>Low zero bits are only shifted out.\<close>

lemma crc32_bits_shift: "(\<forall>k < n. \<not> bit x k) \<Longrightarrow> (crc32_bit ^^ n) x = drop_bit n x"
proof (induction n arbitrary: x)
  case (Suc n)
  then have "crc32_bit x = drop_bit 1 x" by (simp add: crc32_bit_cases)
  moreover have "\<forall>k < n. \<not> bit (drop_bit 1 x) k" using Suc.prems by (simp add: bit_drop_bit_eq)
  ultimately show ?case using Suc.IH[of "drop_bit 1 x"] by (simp add: funpow_Suc_right del: funpow.simps)
qed simp

section \<open>Blocks of bytes\<close>

text \<open>Four bytes or fewer act like one word.\<close>

lemma crc32_bytes_word:
  "length bs \<le> 4 \<Longrightarrow> foldl crc32_byte x bs = (crc32_bit ^^ (8 * length bs)) (x XOR le_word bs)"
proof (induction bs arbitrary: x)
  case (Cons b bs)
  let ?w = "le_word bs :: u32"
  have low: "(crc32_bit ^^ 8) (push_bit 8 ?w) = ?w"
  proof -
    have "(crc32_bit ^^ 8) (push_bit 8 ?w) = drop_bit 8 (push_bit 8 ?w)"
      by (rule crc32_bits_shift) (simp add: bit_push_bit_iff)
    also have "\<dots> = ?w"
    proof (rule bit_word_eqI)
      fix n assume "n < LENGTH(32)"
      then show "bit (drop_bit 8 (push_bit 8 ?w)) n = bit ?w n"
        using Cons.prems by (auto simp: bit_simps bit_le_word)
    qed
    finally show ?thesis .
  qed
  have split: "x XOR le_word (b # bs) = (x XOR ucast b) XOR push_bit 8 ?w"
    by (rule bit_word_eqI) (auto simp: bit_simps dest: bit_imp_le_length)
  have "foldl crc32_byte x (b # bs) = (crc32_bit ^^ (8 * length bs)) (crc32_byte x b XOR ?w)"
    using Cons by simp
  also have "crc32_byte x b XOR ?w = (crc32_bit ^^ 8) (x XOR le_word (b # bs))"
    unfolding split crc32_bits_xor low crc32_byte_def ..
  also have "(crc32_bit ^^ (8 * length bs)) ((crc32_bit ^^ 8) z) = (crc32_bit ^^ (8 * length (b # bs))) z" for z
    using fun_cong[OF funpow_add[of "8 * length bs" 8 crc32_bit], of z] by (simp add: add.commute)
  finally show ?case .
qed simp

lemma crc32_byte_inject: "crc32_byte x b = crc32_byte y b \<longleftrightarrow> x = y"
  by (simp add: crc32_byte_def crc32_bits_inject xor_cancel)

lemma crc32_bytes_inject: "foldl crc32_byte x bs = foldl crc32_byte y bs \<longleftrightarrow> x = y"
  by (induction bs arbitrary: x y) (simp_all add: crc32_byte_inject)

text \<open>C36. The checksum detects every change within four consecutive bytes: data that differ only
  there have different checksums.\<close>

theorem crc32_detects_bursts:
  assumes "length xs = length ys" and "length xs \<le> 4" and "xs \<noteq> ys"
  shows "crc32 (pre @ xs @ post) \<noteq> crc32 (pre @ ys @ post)"
proof
  let ?s = "foldl crc32_byte 0xFFFFFFFF pre"
  assume "crc32 (pre @ xs @ post) = crc32 (pre @ ys @ post)"
  then have "foldl crc32_byte ?s xs = foldl crc32_byte ?s ys"
    by (simp add: crc32_def crc32_bytes_inject)
  then have "(le_word xs :: u32) = le_word ys"
    using assms by (simp add: crc32_bytes_word crc32_bits_inject xor_cancel)
  then have "le_bytes (length xs) (le_word xs :: u32) = le_bytes (length ys) (le_word ys :: u32)"
    using assms(1) by simp
  then show False using assms by (simp add: le_bytes_le_word)
qed

theorem crc32_detects_bursts_witness:
  "crc32 (map of_char ''GPT'' @ [1, 2] @ [3]) \<noteq> crc32 (map of_char ''GPT'' @ [2, 1] @ [3])"
  by (rule crc32_detects_bursts) simp_all

lemma crc32_byte_steps: "crc32_byte x b = crc32_bit (crc32_bit (crc32_bit (crc32_bit
    (crc32_bit (crc32_bit (crc32_bit (crc32_bit (x XOR ucast b))))))))"
  by (simp add: crc32_byte_def eval_nat_numeral)

lemma crc32_check_value: "crc32 (map of_char ''123456789'') = 0xCBF43926"
  by (simp add: crc32_def crc32_byte_steps crc32_bit_def)

end
