(* ===== verification/Make_Toysimg.thy ===== *)
theory Make_Toysimg
  imports Crc32
begin

text \<open>
  \<open>tools/maketoysimg.c\<close>: a disk image with a GUID partition table around one partition. The structs are
  records of byte arrays with their layouts as functions; \<open>main\<close> is a function of the contents of the
  input and of what \<open>rand\<close> returns, call by call. Opening the files, reading and writing are assumed
  to succeed. The sector counts are \<open>int\<close> in the code: a sum that does not fit in 32 bits is undefined
  there and a result of its own here, and the size of the input is cut to 32 bits as compilers do it.
\<close>

section \<open>Structs\<close>

record master_boot_record =
  starting_chs :: "u8 list"
  ending_chs_and_os_type :: "u8 list"
  mbr_starting_lba :: "u8 list"
  size_in_lba :: "u8 list"
  mbr_signature :: "u8 list"

definition master_boot_record_bytes :: "master_boot_record \<Rightarrow> u8 list" where
  "master_boot_record_bytes m =
     replicate 446 0 @ starting_chs m @ ending_chs_and_os_type m @ mbr_starting_lba m @ size_in_lba m @
     replicate 48 0 @ mbr_signature m"

record partition_table_header =
  header_signature :: "u8 list"
  revision :: "u8 list"
  header_size_field :: "u8 list"
  header_crc32 :: "u8 list"
  my_lba :: "u8 list"
  alternate_lba :: "u8 list"
  first_usable_lba :: "u8 list"
  last_usable_lba :: "u8 list"
  disk_guid :: "u8 list"
  partition_entry_lba :: "u8 list"
  number_of_partition_entries :: "u8 list"
  size_of_partition_entry :: "u8 list"
  partition_entry_array_crc32 :: "u8 list"

definition partition_table_header_bytes :: "partition_table_header \<Rightarrow> u8 list" where
  "partition_table_header_bytes h =
     header_signature h @ revision h @ header_size_field h @ header_crc32 h @ replicate 4 0 @ my_lba h @
     alternate_lba h @ first_usable_lba h @ last_usable_lba h @ disk_guid h @ partition_entry_lba h @
     number_of_partition_entries h @ size_of_partition_entry h @ partition_entry_array_crc32 h @
     replicate 420 0"

record partition_entry =
  partition_type_guid :: "u8 list"
  partition_guid :: "u8 list"
  entry_starting_lba :: "u8 list"
  entry_ending_lba :: "u8 list"
  partition_name :: "u8 list"

definition partition_entry_bytes :: "partition_entry \<Rightarrow> u8 list" where
  "partition_entry_bytes e =
     partition_type_guid e @ partition_guid e @ entry_starting_lba e @ entry_ending_lba e @
     replicate 8 0 @ partition_name e"

text \<open>\<open>partition_entries_t\<close>: 128 entries; the ones that are not given are zero.\<close>

definition partition_entries_bytes :: "partition_entry list \<Rightarrow> u8 list" where
  "partition_entries_bytes es =
     (let bs = concat (map partition_entry_bytes es) in bs @ replicate (16384 - length bs) 0)"

definition EFI_SYSTEM_GUID :: "u8 list" where
  "EFI_SYSTEM_GUID =
     [0x28, 0x73, 0x2A, 0xC1, 0x1F, 0xF8, 0xD2, 0x11, 0xBA, 0x4B, 0x00, 0xA0, 0xC9, 0x3E, 0xC9, 0x3B]"

section \<open>The program\<close>

definition random_guid :: "(nat \<Rightarrow> u32) \<Rightarrow> nat \<Rightarrow> u8 list" where
  "random_guid rand k = map (\<lambda>i. ucast (rand (k + i))) [0..<16]"

definition NUM_TABLE_ENTRY_SECTORS :: int where "NUM_TABLE_ENTRY_SECTORS = 32"
definition GPT_HEADER_SIZE :: nat where "GPT_HEADER_SIZE = 96"
definition GPT_SECTOR_SIZE :: nat where "GPT_SECTOR_SIZE = 512"

text \<open>A sum of two \<open>int\<close>, if it does not overflow; the conversion of \<open>input_size / SECTOR_SIZE\<close> to \<open>int\<close>.\<close>

definition int_sum :: "int \<Rightarrow> int \<Rightarrow> int option" where
  "int_sum a b = (if - (2 ^ 31) \<le> a + b \<and> a + b < 2 ^ 31 then Some (a + b) else None)"

definition num_partition_sectors :: "nat \<Rightarrow> int" where
  "num_partition_sectors input_size = sint (of_nat (input_size div GPT_SECTOR_SIZE) :: u32)"

definition num_image_sectors :: "int \<Rightarrow> int option" where
  "num_image_sectors n = map_option (\<lambda>m. if m < 2048 then 2048 else m) (int_sum (3 + 2 * NUM_TABLE_ENTRY_SECTORS) n)"

definition first_usable :: int where "first_usable = 2 + NUM_TABLE_ENTRY_SECTORS"

definition last_usable :: "int \<Rightarrow> int option" where
  "last_usable n = Option.bind (int_sum first_usable n) (\<lambda>m. int_sum m (-1))"

text \<open>The structs, for an image of \<open>m\<close> sectors whose last usable sector is \<open>l\<close>. A negative \<open>int\<close> becomes an
  unsigned number modulo 2 ^ 32 or 2 ^ 64.\<close>

definition toys_mbr :: "int \<Rightarrow> master_boot_record" where
  "toys_mbr m =
     \<lparr>starting_chs = packed_u32 0x20000, ending_chs_and_os_type = packed_u32 0xFFFFFFEE,
      mbr_starting_lba = packed_u32 1, size_in_lba = packed_u32 (of_int (m - 1)),
      mbr_signature = packed_u16 0xAA55\<rparr>"

text \<open>The header as it is initialised, without the checksums.\<close>

definition toys_header :: "int \<Rightarrow> int \<Rightarrow> u8 list \<Rightarrow> partition_table_header" where
  "toys_header m l guid =
     \<lparr>header_signature = chars ''EFI PART'', revision = packed_u32 0x00010000,
      header_size_field = packed_u32 (of_nat GPT_HEADER_SIZE), header_crc32 = replicate 4 0,
      my_lba = packed_u64 1, alternate_lba = packed_u64 (of_int (m - 1)),
      first_usable_lba = packed_u64 (of_int first_usable),
      last_usable_lba = packed_u64 (of_int l), disk_guid = guid,
      partition_entry_lba = packed_u64 2, number_of_partition_entries = packed_u32 1,
      size_of_partition_entry = packed_u32 128, partition_entry_array_crc32 = replicate 4 0\<rparr>"

definition toys_partition_entry :: "int \<Rightarrow> u8 list \<Rightarrow> partition_entry" where
  "toys_partition_entry l guid =
     \<lparr>partition_type_guid = EFI_SYSTEM_GUID, partition_guid = guid,
      entry_starting_lba = packed_u64 (of_int first_usable), entry_ending_lba = packed_u64 (of_int l),
      partition_name = char_field 72 [117, 0, 101, 0, 102, 0, 105, 0]\<rparr>"

definition set_header_crc32 :: "partition_table_header \<Rightarrow> partition_table_header" where
  "set_header_crc32 h =
     h\<lparr>header_crc32 := packed_u32 (crc32 (take GPT_HEADER_SIZE (partition_table_header_bytes h)))\<rparr>"

datatype toysimg_error = Invalid_File_Size | Int_Overflow

text \<open>The loop at the end of \<open>main\<close> copies as many sectors as \<open>num_sectors\<close>, the same cut \<open>int\<close>, says.\<close>

definition maketoysimg :: "(nat \<Rightarrow> u32) \<Rightarrow> u8 list \<Rightarrow> toysimg_error + u8 list" where
  "maketoysimg rand contents =
     (if length contents mod GPT_SECTOR_SIZE \<noteq> 0 then Inl Invalid_File_Size
      else let n = num_partition_sectors (length contents) in
        case num_image_sectors n of None \<Rightarrow> Inl Int_Overflow
        | Some m \<Rightarrow> (case last_usable n of None \<Rightarrow> Inl Int_Overflow
          | Some l \<Rightarrow>
            let header = toys_header m l (random_guid rand 0);
                entries = partition_entries_bytes [toys_partition_entry l (random_guid rand 16)];
                alternate_header = header\<lparr>my_lba := alternate_lba header, alternate_lba := my_lba header,
                  partition_entry_lba := packed_u64 (of_int (l + 1))\<rparr>;
                header = set_header_crc32 (header\<lparr>partition_entry_array_crc32 := packed_u32 (crc32 (take 128 entries))\<rparr>);
                alternate_header = set_header_crc32
                  (alternate_header\<lparr>partition_entry_array_crc32 := partition_entry_array_crc32 header\<rparr>)
            in Inr (master_boot_record_bytes (toys_mbr m) @ partition_table_header_bytes header @ entries @
                 take (GPT_SECTOR_SIZE * nat n) contents @ entries @ partition_table_header_bytes alternate_header)))"

section \<open>A reader of GUID partition tables\<close>

text \<open>The checks the UEFI specification asks for, on the header at block \<open>lba\<close>: the signature, the two
  checksums and the header's own address. The result is the address of the other header and, for each
  entry, the type and the blocks of the partition.\<close>

definition gpt_header_valid :: "u8 list \<Rightarrow> nat \<Rightarrow> bool" where
  "gpt_header_valid bs lba =
     (let h = window bs (512 * lba) 512 in
      length h = 512 \<and> take 8 h = chars ''EFI PART'' \<and>
      field32 h 16 = unat (crc32 (take (field32 h 12) (take 16 h @ replicate 4 0 @ drop 20 h))) \<and>
      field64 h 24 = lba \<and>
      field32 h 88 = unat (crc32 (window bs (512 * field64 h 72) (field32 h 80 * field32 h 84))))"

definition gpt_partition :: "u8 list \<Rightarrow> nat \<Rightarrow> u8 list \<times> u8 list" where
  "gpt_partition bs i =
     (window bs i 16, window bs (512 * field64 bs (i + 32)) (512 * (field64 bs (i + 40) + 1 - field64 bs (i + 32))))"

definition gpt_read :: "u8 list \<Rightarrow> nat \<Rightarrow> (nat \<times> (u8 list \<times> u8 list) list) option" where
  "gpt_read bs lba =
     (if gpt_header_valid bs lba
      then let h = window bs (512 * lba) 512 in
        Some (field64 h 32, map (\<lambda>k. gpt_partition bs (512 * field64 h 72 + field32 h 84 * k)) [0..<field32 h 80])
      else None)"

end
