(* ===== verification/Toysimg_Properties.thy ===== *)
theory Toysimg_Properties
  imports Make_Toysimg
begin

text \<open>
  What \<open>maketoysimg\<close> writes, read back with the checks of the UEFI specification: the primary header,
  the backup header, and the protective master boot record.
\<close>

declare of_nat_diff [simp del]

section \<open>Headers\<close>

definition wf_header :: "partition_table_header \<Rightarrow> bool" where
  "wf_header h \<longleftrightarrow> length (header_signature h) = 8 \<and> length (revision h) = 4 \<and> length (header_size_field h) = 4 \<and>
     length (header_crc32 h) = 4 \<and> length (my_lba h) = 8 \<and> length (alternate_lba h) = 8 \<and>
     length (first_usable_lba h) = 8 \<and> length (last_usable_lba h) = 8 \<and> length (disk_guid h) = 16 \<and>
     length (partition_entry_lba h) = 8 \<and> length (number_of_partition_entries h) = 4 \<and>
     length (size_of_partition_entry h) = 4 \<and> length (partition_entry_array_crc32 h) = 4"

lemma header_windows:
  assumes "wf_header h"
  shows "length (partition_table_header_bytes h) = 512"
    "take 8 (partition_table_header_bytes h) = header_signature h"
    "window (partition_table_header_bytes h) 12 4 = header_size_field h"
    "window (partition_table_header_bytes h) 16 4 = header_crc32 h"
    "window (partition_table_header_bytes h) 24 8 = my_lba h"
    "window (partition_table_header_bytes h) 32 8 = alternate_lba h"
    "window (partition_table_header_bytes h) 72 8 = partition_entry_lba h"
    "window (partition_table_header_bytes h) 80 4 = number_of_partition_entries h"
    "window (partition_table_header_bytes h) 84 4 = size_of_partition_entry h"
    "window (partition_table_header_bytes h) 88 4 = partition_entry_array_crc32 h"
  using assms by (simp_all add: wf_header_def partition_table_header_bytes_def window_def)

text \<open>Zeroing the checksum undoes \<open>set_header_crc32\<close>.\<close>

lemma header_without_crc32:
  assumes "wf_header h" and "header_crc32 h = replicate 4 0"
  shows "(let bs = partition_table_header_bytes (set_header_crc32 h) in take 16 bs @ replicate 4 0 @ drop 20 bs) =
    partition_table_header_bytes h"
  using assms by (simp add: wf_header_def partition_table_header_bytes_def set_header_crc32_def length_fields)

lemma wf_set_header_crc32: "wf_header h \<Longrightarrow> wf_header (set_header_crc32 h)"
  by (simp add: wf_header_def set_header_crc32_def length_fields)

lemma set_header_crc32_fields [simp]:
  "header_signature (set_header_crc32 h) = header_signature h"
  "header_size_field (set_header_crc32 h) = header_size_field h" "my_lba (set_header_crc32 h) = my_lba h"
  "alternate_lba (set_header_crc32 h) = alternate_lba h"
  "partition_entry_lba (set_header_crc32 h) = partition_entry_lba h"
  "number_of_partition_entries (set_header_crc32 h) = number_of_partition_entries h"
  "size_of_partition_entry (set_header_crc32 h) = size_of_partition_entry h"
  "partition_entry_array_crc32 (set_header_crc32 h) = partition_entry_array_crc32 h"
  "header_crc32 (set_header_crc32 h) =
     packed_u32 (crc32 (take GPT_HEADER_SIZE (partition_table_header_bytes h)))"
  by (simp_all add: set_header_crc32_def)

lemma gpt_read_header:
  assumes wf: "wf_header h" and crc: "header_crc32 h = replicate 4 0"
    and fixed: "header_signature h = chars ''EFI PART''" "header_size_field h = packed_u32 96"
      "number_of_partition_entries h = packed_u32 1" "size_of_partition_entry h = packed_u32 128"
    and lba: "my_lba h = packed_u64 (of_nat l)" "partition_entry_lba h = packed_u64 (of_nat e)" "l < 2 ^ 64" "e < 2 ^ 64"
    and array: "partition_entry_array_crc32 h = packed_u32 (crc32 (window bs (512 * e) 128))"
    and block: "window bs (512 * lba) 512 = partition_table_header_bytes (set_header_crc32 h)"
  shows "gpt_read bs lba =
    (if l = lba then Some (field64 (partition_table_header_bytes h) 32, [gpt_partition bs (512 * e)]) else None)"
proof -
  let ?b = "partition_table_header_bytes (set_header_crc32 h)"
  note w = header_windows[OF wf_set_header_crc32[OF wf]]
  have f: "field32 ?b 12 = 96" "field64 ?b 72 = e" "field32 ?b 80 = 1" "field32 ?b 84 = 128" "field64 ?b 24 = l"
    "field32 ?b 88 = unat (crc32 (window bs (512 * e) 128))"
    "field32 ?b 16 = unat (crc32 (take 96 (partition_table_header_bytes h)))"
    using fixed lba array
    by (simp_all add: field_of_window[where bs = ?b] w GPT_HEADER_SIZE_def unat_of_nat take_bit_nat_eq_self)
  have a: "field64 ?b 32 = field64 (partition_table_header_bytes h) 32"
    by (simp add: field64_def w header_windows[OF wf])
  have "take 16 ?b @ replicate 4 0 @ drop 20 ?b = partition_table_header_bytes h"
    using header_without_crc32[OF wf crc] by (simp only: Let_def)
  then have "gpt_header_valid bs lba \<longleftrightarrow> l = lba"
    by (simp only: gpt_header_valid_def block Let_def f w fixed(1) set_header_crc32_fields) simp
  then show ?thesis by (simp add: gpt_read_def block f a Let_def)
qed

section \<open>The image\<close>

lemma length_random_guid: "length (random_guid rand k) = 16"
  by (simp add: random_guid_def)

lemma wf_toys_header: "length g = 16 \<Longrightarrow> wf_header (toys_header m l g)"
  by (simp add: wf_header_def toys_header_def length_fields chars_def)

lemma length_mbr: "length (master_boot_record_bytes (toys_mbr (int (image_sectors n)))) = 512"
  by (simp add: master_boot_record_bytes_def toys_mbr_def length_fields)

lemma length_partition_entry: "length g = 16 \<Longrightarrow> length (partition_entry_bytes (toys_partition_entry l g)) = 128"
  by (simp add: partition_entry_bytes_def toys_partition_entry_def length_fields EFI_SYSTEM_GUID_def)

lemma entries_split:
  "length g = 16 \<Longrightarrow> partition_entries_bytes [toys_partition_entry (int (33 + n)) g] =
   partition_entry_bytes (toys_partition_entry (int (33 + n)) g) @ replicate 16256 0"
  using length_partition_entry[of g "int (33 + n)"] by (simp add: partition_entries_bytes_def)

lemma entry_windows:
  assumes "length g = 16"
  shows "window (partition_entry_bytes (toys_partition_entry (int (33 + n)) g)) 0 16 = EFI_SYSTEM_GUID"
    "window (partition_entry_bytes (toys_partition_entry (int (33 + n)) g)) 32 8 = packed_u64 34"
    "window (partition_entry_bytes (toys_partition_entry (int (33 + n)) g)) 40 8 = packed_u64 (of_nat (33 + n))"
  using assms by (simp_all add: partition_entry_bytes_def toys_partition_entry_def window_def length_fields
      EFI_SYSTEM_GUID_def first_usable_def NUM_TABLE_ENTRY_SECTORS_def)

lemma window_window_min: "j + k \<le> n \<Longrightarrow> window (window bs i n) j k = window bs (i + j) k"
  by (simp add: window_def take_drop drop_drop add.commute)

lemma gpt_partition_entry:
  assumes "length g = 16" and "n < 2 ^ 32" and "window bs i 128 = partition_entry_bytes (toys_partition_entry (int (33 + n)) g)"
    and "window bs (512 * 34) (512 * n) = contents"
  shows "gpt_partition bs i = (EFI_SYSTEM_GUID, contents)"
proof -
  have w: "window bs (i + j) k = window (partition_entry_bytes (toys_partition_entry (int (33 + n)) g)) j k" if "j + k \<le> 128" for j k
    using window_window_min[OF that, of bs i] assms(3) by simp
  have "unat (of_nat (33 + n) :: u64) = 33 + n"
    using assms(2) by (simp only: unat_of_nat) (simp add: take_bit_nat_eq_self)
  then have "field64 bs (i + 32) = 34" "field64 bs (i + 40) = 33 + n"
    using entry_windows(2,3)[OF assms(1), of n] by (simp_all only: field_of_window(3) w) simp
  then show ?thesis using assms(4) entry_windows(1)[OF assms(1), of n] w[of 0 16]
    by (simp add: gpt_partition_def)
qed

text \<open>The number of sectors that the headers give, for the sizes whose sums fit in an \<open>int\<close>.\<close>

abbreviation image_sectors :: "nat \<Rightarrow> nat" where "image_sectors n \<equiv> max 2048 (67 + n)"

lemma image_sectors_small: "n < 2 ^ 31 \<Longrightarrow> image_sectors n - 1 < 2 ^ 32"
  by simp

lemma sector_counts:
  assumes "n < 2 ^ 31 - 67"
  shows "num_partition_sectors (512 * n) = int n" "num_image_sectors (int n) = Some (int (image_sectors n))"
    "last_usable (int n) = Some (int (33 + n))"
proof -
  have "signed_take_bit 31 (int n) = int n" using assms by (simp add: signed_take_bit_int_eq_self)
  then show "num_partition_sectors (512 * n) = int n"
    by (simp add: num_partition_sectors_def GPT_SECTOR_SIZE_def sint_uint unsigned_of_nat take_bit_of_nat[symmetric] signed_take_bit_take_bit)
  show "num_image_sectors (int n) = Some (int (image_sectors n))" "last_usable (int n) = Some (int (33 + n))"
    using assms by (auto simp: num_image_sectors_def last_usable_def int_sum_def first_usable_def NUM_TABLE_ENTRY_SECTORS_def)
qed

text \<open>Behind the last such size the sum overflows.\<close>

lemma sectors_overflow:
  assumes "2 ^ 31 - 67 \<le> n" and "n < 2 ^ 31" and "length contents = 512 * n"
  shows "maketoysimg rand contents = Inl Int_Overflow"
proof -
  have "signed_take_bit 31 (int n) = int n" using assms by (simp add: signed_take_bit_int_eq_self)
  then have "num_partition_sectors (512 * n) = int n"
    by (simp add: num_partition_sectors_def GPT_SECTOR_SIZE_def sint_uint unsigned_of_nat take_bit_of_nat[symmetric] signed_take_bit_take_bit)
  then show ?thesis
    using assms by (simp add: maketoysimg_def GPT_SECTOR_SIZE_def num_image_sectors_def int_sum_def NUM_TABLE_ENTRY_SECTORS_def)
qed

lemma header_update_order:
  "h\<lparr>my_lba := x, alternate_lba := y, partition_entry_lba := z, partition_entry_array_crc32 := w\<rparr> =
   h\<lparr>partition_entry_array_crc32 := w, my_lba := x, alternate_lba := y, partition_entry_lba := z\<rparr>"
  by (cases h) simp

text \<open>The image as its six parts, with the headers before their checksums.\<close>

definition toys_entry :: "nat \<Rightarrow> (nat \<Rightarrow> u32) \<Rightarrow> u8 list" where
  "toys_entry n rand = partition_entry_bytes (toys_partition_entry (int (33 + n)) (random_guid rand 16))"

definition primary_header :: "nat \<Rightarrow> (nat \<Rightarrow> u32) \<Rightarrow> partition_table_header" where
  "primary_header n rand =
     toys_header (int (image_sectors n)) (int (33 + n)) (random_guid rand 0)\<lparr>partition_entry_array_crc32 := packed_u32 (crc32 (toys_entry n rand))\<rparr>"

definition backup_header :: "nat \<Rightarrow> (nat \<Rightarrow> u32) \<Rightarrow> partition_table_header" where
  "backup_header n rand = (let h = primary_header n rand in
     h\<lparr>my_lba := alternate_lba h, alternate_lba := my_lba h, partition_entry_lba := packed_u64 (of_nat (34 + n))\<rparr>)"

definition toys_image :: "nat \<Rightarrow> (nat \<Rightarrow> u32) \<Rightarrow> u8 list \<Rightarrow> u8 list" where
  "toys_image n rand contents =
     master_boot_record_bytes (toys_mbr (int (image_sectors n))) @ partition_table_header_bytes (set_header_crc32 (primary_header n rand)) @
     (toys_entry n rand @ replicate 16256 0) @ contents @ (toys_entry n rand @ replicate 16256 0) @
     partition_table_header_bytes (set_header_crc32 (backup_header n rand))"

lemma length_toys_entry: "length (toys_entry n rand) = 128"
  by (simp add: toys_entry_def length_partition_entry length_random_guid)

lemma maketoysimg_parts:
  assumes "length contents = 512 * n" and "n < 2 ^ 31 - 67"
  shows "maketoysimg rand contents = Inr (toys_image n rand contents)"
proof -
  note c = sector_counts[OF assms(2)]
  have e: "partition_entries_bytes [toys_partition_entry (int (33 + n)) (random_guid rand 16)] =
      toys_entry n rand @ replicate 16256 0"
    by (simp only: entries_split[OF length_random_guid] toys_entry_def)
  have a: "(of_int (int (33 + n) + 1) :: u64) = of_nat (34 + n)" "nat (int n) = n" by simp_all
  show ?thesis
    using length_toys_entry[of n rand]
    by (simp only: maketoysimg_def assms(1) c e a option.case Let_def)
      (simp add: assms(1) GPT_SECTOR_SIZE_def toys_image_def primary_header_def backup_header_def Let_def header_update_order)
qed

lemma primary_header_fields:
  "header_crc32 (primary_header n r) = replicate 4 0" "header_signature (primary_header n r) = chars ''EFI PART''"
  "header_size_field (primary_header n r) = packed_u32 96"
  "number_of_partition_entries (primary_header n r) = packed_u32 1"
  "size_of_partition_entry (primary_header n r) = packed_u32 128"
  "my_lba (primary_header n r) = packed_u64 (of_nat 1)"
  "alternate_lba (primary_header n r) = packed_u64 (of_nat (image_sectors n - 1))"
  "partition_entry_lba (primary_header n r) = packed_u64 (of_nat 2)"
  "partition_entry_array_crc32 (primary_header n r) = packed_u32 (crc32 (toys_entry n r))"
  by (simp_all add: primary_header_def toys_header_def Let_def GPT_HEADER_SIZE_def of_nat_diff)

lemma backup_header_fields:
  "header_crc32 (backup_header n r) = replicate 4 0" "header_signature (backup_header n r) = chars ''EFI PART''"
  "header_size_field (backup_header n r) = packed_u32 96"
  "number_of_partition_entries (backup_header n r) = packed_u32 1"
  "size_of_partition_entry (backup_header n r) = packed_u32 128"
  "my_lba (backup_header n r) = packed_u64 (of_nat (image_sectors n - 1))"
  "alternate_lba (backup_header n r) = packed_u64 (of_nat 1)"
  "partition_entry_lba (backup_header n r) = packed_u64 (of_nat (34 + n))"
  "partition_entry_array_crc32 (backup_header n r) = packed_u32 (crc32 (toys_entry n r))"
  by (simp_all add: backup_header_def Let_def primary_header_fields)

lemma wf_headers: "wf_header (primary_header n r)" "wf_header (backup_header n r)"
proof -
  show h: "wf_header (primary_header n r)" using wf_toys_header[of "random_guid r 0"]
    by (simp add: primary_header_def wf_header_def length_fields length_random_guid)
  show "wf_header (backup_header n r)" using h
    by (simp add: backup_header_def wf_header_def Let_def length_fields)
qed

lemma alternate_fields:
  assumes "n < 2 ^ 31"
  shows "field64 (partition_table_header_bytes (primary_header n r)) 32 = image_sectors n - 1"
    "field64 (partition_table_header_bytes (backup_header n r)) 32 = 1"
proof -
  have "unat (of_nat (image_sectors n - 1) :: u64) = image_sectors n - 1"
    using image_sectors_small[OF assms] by (simp only: unat_of_nat) (simp add: take_bit_nat_eq_self)
  then show "field64 (partition_table_header_bytes (primary_header n r)) 32 = image_sectors n - 1"
    using field_of_window(3)[OF header_windows(6)[OF wf_headers(1), unfolded primary_header_fields]] by simp
  show "field64 (partition_table_header_bytes (backup_header n r)) 32 = 1"
    using field_of_window(3)[OF header_windows(6)[OF wf_headers(2), unfolded backup_header_fields]] by simp
qed

lemma image_windows:
  assumes "length contents = 512 * n"
  shows "length (toys_image n r contents) = 512 * (67 + n)"
    "take 512 (toys_image n r contents) = master_boot_record_bytes (toys_mbr (int (image_sectors n)))"
    "window (toys_image n r contents) (512 * 1) 512 = partition_table_header_bytes (set_header_crc32 (primary_header n r))"
    "window (toys_image n r contents) (512 * 2) 128 = toys_entry n r"
    "window (toys_image n r contents) (512 * 34) (512 * n) = contents"
    "window (toys_image n r contents) (512 * (34 + n)) 128 = toys_entry n r"
    "window (toys_image n r contents) (512 * (66 + n)) 512 = partition_table_header_bytes (set_header_crc32 (backup_header n r))"
  using assms
  by (simp_all add: toys_image_def window_def length_mbr length_toys_entry
      header_windows(1)[OF wf_set_header_crc32[OF wf_headers(1)]] header_windows(1)[OF wf_set_header_crc32[OF wf_headers(2)]])

lemma toys_image_primary:
  assumes "length contents = 512 * n" and "n < 2 ^ 31"
  shows "gpt_read (toys_image n r contents) 1 = Some (image_sectors n - 1, [(EFI_SYSTEM_GUID, contents)])"
proof -
  note w = image_windows[OF assms(1), of r]
  have p: "gpt_partition (toys_image n r contents) (512 * 2) = (EFI_SYSTEM_GUID, contents)"
    by (rule gpt_partition_entry[OF length_random_guid _ w(4)[unfolded toys_entry_def] w(5)]) (use assms(2) in simp)
  have "gpt_read (toys_image n r contents) 1 = (if (1 :: nat) = 1
      then Some (field64 (partition_table_header_bytes (primary_header n r)) 32, [gpt_partition (toys_image n r contents) (512 * 2)])
      else None)"
    by (rule gpt_read_header[OF wf_headers(1) primary_header_fields(1-6,8) _ _ _ w(3)])
      (simp_all only: w primary_header_fields, simp_all)
  then show ?thesis using alternate_fields[OF assms(2)] p by simp
qed

lemma toys_image_backup:
  assumes "length contents = 512 * n" and "n < 2 ^ 31"
  shows "gpt_read (toys_image n r contents) (66 + n) =
    (if image_sectors n - 1 = 66 + n then Some (1, [(EFI_SYSTEM_GUID, contents)]) else None)"
proof -
  note w = image_windows[OF assms(1), of r]
  have p: "gpt_partition (toys_image n r contents) (512 * (34 + n)) = (EFI_SYSTEM_GUID, contents)"
    by (rule gpt_partition_entry[OF length_random_guid _ w(6)[unfolded toys_entry_def] w(5)]) (use assms(2) in simp)
  have small: "image_sectors n - 1 < 2 ^ 64" "34 + n < 2 ^ 64"
    using image_sectors_small[OF assms(2)] assms(2) by simp_all
  have "gpt_read (toys_image n r contents) (66 + n) = (if image_sectors n - 1 = 66 + n
      then Some (field64 (partition_table_header_bytes (backup_header n r)) 32,
        [gpt_partition (toys_image n r contents) (512 * (34 + n))])
      else None)"
    by (rule gpt_read_header[OF wf_headers(2) backup_header_fields(1-6,8) small _ w(7)])
      (simp only: w backup_header_fields)
  then show ?thesis using alternate_fields[OF assms(2)] p by simp
qed


lemma mbr_fields:
  assumes "take 512 bs = master_boot_record_bytes (toys_mbr (int (image_sectors n)))" and "n < 2 ^ 31"
  shows "field16 bs 510 = 0xAA55" "field32 bs 454 = 1" "field32 bs 458 = image_sectors n - 1"
proof -
  have "bs = master_boot_record_bytes (toys_mbr (int (image_sectors n))) @ drop 512 bs" using assms(1) by (metis append_take_drop_id)
  then obtain post where bs: "bs = master_boot_record_bytes (toys_mbr (int (image_sectors n))) @ post" by blast
  have "unat (of_nat (image_sectors n - 1) :: u32) = image_sectors n - 1"
    using image_sectors_small[OF assms(2)] by (intro unat_u32_small) simp
  moreover have "window bs 510 2 = packed_u16 0xAA55" "window bs 454 4 = packed_u32 1"
      "window bs 458 4 = packed_u32 (of_nat (image_sectors n - 1))"
    by (simp_all add: bs window_def master_boot_record_bytes_def toys_mbr_def length_fields of_nat_diff)
  ultimately show "field16 bs 510 = 0xAA55" "field32 bs 454 = 1" "field32 bs 458 = image_sectors n - 1"
    by (simp_all add: field_of_window)
qed

section \<open>Properties\<close>

text \<open>C18. The disk image is readable: for a partition of \<open>n\<close> sectors, so few that the sector counts fit in an \<open>int\<close>,
  \<open>maketoysimg\<close> makes an image whose header at block 1 passes every check and lists one EFI system
  partition, with exactly the given contents; the protective master boot record covers the disk. The
  disk has 2048 sectors at least; with 1981 sectors or more in the partition, the last block of the
  image is the last one of the disk, and is a valid backup header that lists the same partition.\<close>

theorem disk_image_readable:
  assumes "length contents = 512 * n" and "n < 2 ^ 31 - 67"
  shows "\<exists>bs. maketoysimg rand contents = Inr bs \<and> length bs = 512 * (67 + n) \<and>
    field16 bs 510 = 0xAA55 \<and> field32 bs 454 = 1 \<and> field32 bs 458 = max 2048 (67 + n) - 1 \<and>
    gpt_read bs 1 = Some (max 2048 (67 + n) - 1, [(EFI_SYSTEM_GUID, contents)]) \<and>
    (n \<ge> 1981 \<longrightarrow> max 2048 (67 + n) - 1 = 66 + n \<and> gpt_read bs (66 + n) = Some (1, [(EFI_SYSTEM_GUID, contents)]))"
proof -
  have n: "n < 2 ^ 31" using assms(2) by simp
  have "n \<ge> 1981 \<Longrightarrow> max 2048 (67 + n) - 1 = 66 + n" by simp
  then show ?thesis
    using maketoysimg_parts[OF assms] image_windows(1)[OF assms(1)] mbr_fields[OF image_windows(2)[OF assms(1)] n]
      toys_image_primary[OF assms(1) n] toys_image_backup[OF assms(1) n]
    by (intro exI[of _ "toys_image n rand contents"]) simp
qed

theorem disk_image_readable_witness:
  "\<exists>bs. maketoysimg (\<lambda>_. 7) (replicate (512 * 2064) 0) = Inr bs \<and>
    gpt_read bs 1 = Some (2130, [(EFI_SYSTEM_GUID, replicate (512 * 2064) 0)]) \<and>
    gpt_read bs 2130 = Some (1, [(EFI_SYSTEM_GUID, replicate (512 * 2064) 0)])"
  using disk_image_readable[of "replicate (512 * 2064) 0" 2064 "\<lambda>_. 7"] by auto

text \<open>C37. The backup header of a small partition is lost: with fewer than 1981 sectors the headers put
  the backup in block 2047, which is behind the end of the image; the last block holds a header that
  is not valid there.\<close>

theorem small_image_backup_lost:
  assumes "length contents = 512 * n" and "n < 1981"
  shows "\<exists>bs parts. maketoysimg rand contents = Inr bs \<and> gpt_read bs 1 = Some (2047, parts) \<and>
    length bs \<le> 512 * 2047 \<and> gpt_read bs 2047 = None \<and> gpt_read bs (66 + n) = None"
proof -
  let ?bs = "toys_image n rand contents"
  have n: "n < 2 ^ 31" "n < 2 ^ 31 - 67" using assms(2) by simp_all
  have i: "max 2048 (67 + n) = 2048" using assms(2) by simp
  have len: "length ?bs \<le> 512 * 2047" using image_windows(1)[OF assms(1)] assms(2) by simp
  then have "length (window ?bs (512 * 2047) 512) = 0" by (simp add: window_def)
  then have "gpt_read ?bs 2047 = None" by (simp add: gpt_read_def gpt_header_valid_def Let_def)
  then show ?thesis
    using maketoysimg_parts[OF assms(1) n(2)] toys_image_primary[OF assms(1) n(1)] toys_image_backup[OF assms(1) n(1)] i len assms(2)
    by (intro exI[of _ ?bs] exI[of _ "[(EFI_SYSTEM_GUID, contents)]"]) simp
qed

theorem small_image_backup_lost_witness:
  "\<exists>bs parts. maketoysimg (\<lambda>_. 7) (replicate 512 0) = Inr bs \<and> gpt_read bs 1 = Some (2047, parts) \<and>
    gpt_read bs 2047 = None"
  using small_image_backup_lost[of "replicate 512 0" 1 "\<lambda>_. 7"] by auto

end
