(* ===== verification/Spec2Isabelle.thy ===== *)
theory Spec2Isabelle
  imports Disk_Properties Dump_Toysfs Tc_Lexer_Properties Tc_Backend_Properties Tc_Parser_Properties Tc_Expr_Properties Tc_Program_Properties Tc_Wrong_Code Fatfs_Properties Make_Bootefi Toysimg_Properties
begin

text \<open>
  A verification library for the C part of Toys (\<open>tools/\<close>): the file system library of the operating
  system, the compiler of the Toy language, and the tools that build and dump disk images. The
  theories are translated from the C files function by function, with the names of the code; pointers
  are positions or addresses, machine integers are words, and every \<open>panic\<close>, early return and access
  outside an array is a value of the model.

  \<^bold>\<open>The parts and how they interact.\<close> \<open>toyc\<close> compiles the sources of the operating system to x86-64
  code: \<open>scanner.c\<close> reads tokens, \<open>parser.c\<close> checks them and calls \<open>backend.c\<close>, which writes the code;
  they share the \<open>Compiler\<close> of \<open>base.h\<close>. \<open>maketoysfs\<close> stores files in a file system image, with the
  functions of \<open>toys/filesystem.c\<close>, which the operating system uses too; \<open>dumptoysfs\<close> reads such an
  image back. \<open>makebootefi\<close> wraps the boot loader as a UEFI program, \<open>makefatfs\<close> puts it into a FAT12
  partition, and \<open>maketoysimg\<close> wraps the partition as a disk with partition tables.

  \<^bold>\<open>File system\<close> (\<open>tools/toys/filesystem.h\<close>, \<open>filesystem.c\<close>).
  \<^item> \<open>Toys_Prelude\<close>: words, lists and the collections of simplification rules; \<open>Byte_Codec\<close>: the
    packed integers of \<open>types.h\<close>, with an interface for codecs.
  \<^item> \<open>Disk_Model\<close>: the disk as a list of 512-byte blocks, the block buffer, and every function of
    \<open>filesystem.c\<close>. The record \<open>disk\<close> is \<open>Disk\<close> with the image that its read and write functions
    access; \<open>None\<close> is an access outside it. A loop over a chain of blocks takes as many steps as
    there are blocks: a chain that is longer is a cycle, and the results show that there is none.
  \<^item> \<open>Disk_Spec\<close>: the abstract file system, a sorted list of names and contents with a set of free
    blocks. \<open>Block_List\<close>, \<open>Disk_Rep\<close>: lists of linked blocks and the representation relation between
    disk and abstract file system. \<open>Disk_Sample\<close>: a concrete disk for the witnesses.
  \<^item> \<open>Disk_Search\<close>, \<open>Disk_Create\<close>, \<open>Disk_Append\<close>, \<open>Disk_Write\<close>, \<open>Disk_Delete\<close>, \<open>Disk_Format\<close>: each
    operation refines its abstract counterpart. \<open>Disk_Properties\<close> collects the results, with the
    error cases and the composition of the operations.
  \<^item> \<open>Make_Toysfs\<close> (\<open>maketoysfs.c\<close>): a successful run makes a well-formed image of exactly its input
    files, and it succeeds whenever the names are valid and distinct and the blocks suffice.
    \<open>Dump_Toysfs\<close> (\<open>dumptoysfs.c\<close>): the report holds exactly the files of the image, the archive those
    with names of at most 99 characters.

  \<^bold>\<open>Compiler\<close> (\<open>tools/toyc\<close>).
  \<^item> \<open>Tc_Base\<close> (\<open>base.h\<close>): the state, and the result type \<open>res\<close>: \<open>Ret\<close>, \<open>Panic\<close> with its code, \<open>Fault\<close>
    for an access outside the source, the tables, the code buffer or the live cells of the heap, and
    \<open>OutOfFuel\<close>. The code has one address space; the model has the source as a list, the code as bytes
    from an address \<open>code_base\<close>, and the heap as a map from addresses to symbols and values.
  \<^item> \<open>Tc_Scanner\<close> (\<open>scanner.c\<close>), \<open>Tc_Keywords\<close> (its hash table), \<open>Tc_Lexer\<close> (a reference lexer on
    character lists and the refinement), \<open>Tc_Start\<close> (the start of \<open>main\<close>), \<open>Tc_Lexer_Properties\<close>.
  \<^item> \<open>Tc_Backend\<close> (\<open>backend.c\<close>); \<open>X86\<close>: the instructions that it writes, decoded and run as the processor
    manual says; \<open>Tc_Emit\<close>, \<open>Tc_Insns\<close>, \<open>Tc_Binary\<close>, \<open>Tc_Moves\<close>, \<open>Tc_Frames\<close>, \<open>Tc_Jumps\<close>, \<open>Tc_Saved\<close>:
    the bytes each function writes and what they do when run. \<open>Tc_Backend_Properties\<close> collects this.
  \<^item> \<open>Tc_Symbols\<close>, \<open>Tc_Expressions\<close>, \<open>Tc_Parser\<close> (\<open>parser.c\<close>, and \<open>toyc.c\<close> as \<open>toyc_compile\<close>): symbols and
    values are cells of the heap, at the sizes that \<open>alignedsizeof\<close> gives on x86-64 (64 and 32
    bytes). Functions that call each other take the recursive one as a parameter, and the recursion is
    on the fuel.
  \<^item> \<open>Tc_Good\<close>, \<open>Tc_Progress\<close>, \<open>Tc_Termination\<close>: a calculus for "ends, and if it returns, then ...", and
    what each function of the parser consumes and leaves on the heap.
  \<^item> \<open>Tc_Parser_Properties\<close>: fuel above the number of characters left plus 5 is always enough, so 65541
    is for every input that fits in the source buffer; and the stack discipline.

  \<^bold>\<open>Correctness of the compiler\<close>, for the part of the language on integers: programs of constants and
  functions with integer parameters, declarations of variables, assignments, returns, conditional
  statements, loops and breaks.
  \<^item> The language: \<open>Tc_Expr_Spec\<close>, \<open>Tc_Stmt_Spec\<close>, \<open>Tc_Stmt_Grammar\<close>, \<open>Tc_Fn_Spec\<close>, \<open>Tc_Program\<close> have the grammar on the
    tokens of the reference lexer (\<open>Tc_Tokens\<close>), the syntax trees, what they mean, and the code that
    they should have. \<open>Tc_Machine\<close>: a processor that runs code at an address, with memory and jumps.
  \<^item> The parser: \<open>Tc_Symbol_Table\<close> (names in scope), \<open>Tc_Placeholders\<close> (lists of jumps to be filled),
    \<open>Tc_Advance\<close> (what a step of the parser keeps), and \<open>Tc_Expr_Parse\<close>, \<open>Tc_Cond_Parse\<close>, \<open>Tc_Stmt_Parse\<close>,
    \<open>Tc_Block_Parse\<close>, \<open>Tc_Control_Parse\<close>, \<open>Tc_Else_Parse\<close>, \<open>Tc_Fn_Parse\<close>, \<open>Tc_Fn_Head\<close>, \<open>Tc_Fn_Compile\<close>: in front of the tokens
    of a phrase each function of \<open>parser.c\<close> returns, has consumed them and has written this code.
  \<^item> The code: \<open>Tc_Stmt_Code\<close>, \<open>Tc_Stmt_Exec\<close> and the second half of \<open>Tc_Fn_Spec\<close>: run on the processor, it does what
    the phrase means.
  \<^item> \<open>Tc_Expr_Properties\<close>, \<open>Tc_Stmt_Properties\<close>, \<open>Tc_Program_Properties\<close> put both together, the last for \<open>toyc\<close> as a
    whole: from the text of the source files to what a call of a compiled function returns.
  \<^item> \<open>Tc_Wrong_Code\<close>: where the compiler is wrong, for all programs that have it: assignments to a variable
    with a cast and to the result of a call, and functions that are declared twice and not defined.
  Not covered by this correctness result, but modelled and covered by the results on termination and on
  the stack discipline: pointers, structures, casts, \<open>sizeof\<close>, calls, functions without a result,
  forward declarations, functions in machine code, static data, declared types of variables, and
  constants inside functions.

  \<^bold>\<open>Images\<close>. \<open>Byte_Fields\<close>: records as little-endian bytes. \<open>Fat12\<close> (a reader of FAT12 file systems),
  \<open>Make_Fatfs\<close> (\<open>makefatfs.c\<close>), \<open>Fatfs_Properties\<close>; \<open>Make_Bootefi\<close> (\<open>makebootefi.c\<close>, with a loader of PE
  files); \<open>Crc32\<close>, \<open>Make_Toysimg\<close> (\<open>maketoysimg.c\<close>), \<open>Toysimg_Properties\<close>: what is written can be read
  by the rules of the formats, and the inputs for which it can not. The sector counts of \<open>maketoysimg\<close> are
  \<open>int\<close>: a sum that overflows is an error value of the model.

  \<^bold>\<open>Bounds.\<close> Buffers have the sizes of the code: 65536 bytes of source, 20480 of code and 49152 of heap
  in \<open>toyc\<close>, 512-byte blocks, 64 names of 64 characters in the keyword table, 1024-byte allocation
  tables. Images and block numbers are limited by 64-bit arithmetic only.

  \<^bold>\<open>Not modelled.\<close> Opening, reading and writing files and the messages on the console (the tools are
  functions from the contents of their input files to what they write); the operating system itself
  under \<open>src/\<close>, which is written in the Toy language, with its ports of the compiler and of the file
  system; the test drivers. The random numbers of \<open>maketoysimg\<close> are a parameter.
\<close>

end
